(* ===== verification/Prelude.thy ===== *)
theory Prelude
  imports Main "HOL-Library.Char_ord" "HOL-Library.List_Lexorder"
begin

text \<open>
  Shared ground of the development: how a Python computation that may raise is written
  (\<open>'a result\<close>), the part of the Python standard library the modelled modules use on
  strings (\<open>str.join\<close>, \<open>str(int)\<close>, \<open>encode("utf-8")\<close>, the substring test
  \<open>in\<close>, \<open>sorted(set(...))\<close>), and the generic lemmas every component relies on.

  A Python \<open>str\<close> is a list of code points below 256 (an Isabelle \<open>char\<close>); the
  behaviour of the string methods on those code points is written out exactly. Integers are
  Python's unbounded integers, hence \<open>int\<close>.
\<close>

named_theorems result_simps \<open>inversion of successful computations\<close>
named_theorems encode_simps \<open>the byte encodings that digests are computed over\<close>

section \<open>Exceptions and results\<close>

text \<open>
  One constructor per exception class that the modelled modules raise, plus the builtin and
  \<open>sqlite3\<close> exceptions that their code can run into. A raised exception carries its class,
  the format string of its message and the values formatted into it.
\<close>

datatype exc_class =
    UniverseKernelError | UniverseInteractionError | UniverseActivationError
  | UniverseStateError | UniverseRebirthError | NuclearContainmentError
  | UniverseEpochTokenError | AuthorityRevocationError
  | NativeSigilSemanticError | NativeSigilMirError | NativeSigilParserError
  | LibraryExpansionError | LibraryProofError | NativeSigilLibraryBridgeError
  | NativeSigilProofPipelineError | NativeSigilEnforcementError
  | NativeSigilRequestBindingError | NativeSigilReplayError | EpochTombstoneError
  | AtomicExecutionCoordinatorError | AuthorityDelegationError
  | AuthorizationTransitionV1Error | ExternalAdapterContractError | CanonicalAuthorityBasisV1Error
  | AuthorizationDecisionV1Error | ExecutionPermitV1Error | EffectExecutionReceiptV1Error
  | FreshEffectAuthorizationV1Error | DurableAuthorizationStoreV1Error | DurableEffectExecutionV1Error
  | LexerError | ParserError
  | SemanticError | CapabilityPowerDomainError
  | BoundedQueueError | FinancialDecimalError | KoscheiRuntimeError
  | ValueError | TypeError | KeyError | IndexError | RecursionError | AssertionError
  | IntegrityError | OperationalError | OverflowError
  | EffectError

datatype pyexc = Raise (exc_of: exc_class) (exc_format: string) (exc_args: "string list")

type_synonym 'a result = "pyexc + 'a"

abbreviation raise :: "exc_class \<Rightarrow> string \<Rightarrow> 'a result" where
  "raise c m \<equiv> Inl (Raise c m [])"

abbreviation raisef :: "exc_class \<Rightarrow> string \<Rightarrow> string list \<Rightarrow> 'a result" where
  "raisef c m as \<equiv> Inl (Raise c m as)"

text \<open>Sequencing: a statement that raises ends the computation.\<close>

definition rbind :: "'a result \<Rightarrow> ('a \<Rightarrow> 'b result) \<Rightarrow> 'b result" where
  "rbind m k = (case m of Inl e \<Rightarrow> Inl e | Inr x \<Rightarrow> k x)"

text \<open>\<open>for x in xs: f(x)\<close>, collecting the values.\<close>

fun rmap :: "('a \<Rightarrow> 'b result) \<Rightarrow> 'a list \<Rightarrow> 'b list result" where
  "rmap f [] = Inr []"
| "rmap f (x # xs) = rbind (f x) (\<lambda>y. rbind (rmap f xs) (\<lambda>ys. Inr (y # ys)))"

text \<open>\<open>for x in xs: f(x)\<close>, for its checks only.\<close>

fun rfor :: "('a \<Rightarrow> unit result) \<Rightarrow> 'a list \<Rightarrow> unit result" where
  "rfor f [] = Inr ()"
| "rfor f (x # xs) = rbind (f x) (\<lambda>_. rfor f xs)"

text \<open>\<open>any(f(x) for x in xs)\<close>: up to the first that is true, or raises.\<close>

fun rany :: "('a \<Rightarrow> bool result) \<Rightarrow> 'a list \<Rightarrow> bool result" where
  "rany f [] = Inr False"
| "rany f (x # xs) = rbind (f x) (\<lambda>b. if b then Inr True else rany f xs)"

text \<open>\<open>is_ok\<close>: the call returns.\<close>

definition is_ok :: "'a result \<Rightarrow> bool" where
  "is_ok m = (case m of Inl _ \<Rightarrow> False | Inr _ \<Rightarrow> True)"

lemma rbind_simps [simp]:
  "rbind (Inl e) k = Inl e"
  "rbind (Inr x) k = k x"
  by (simp_all add: rbind_def)

lemma rbind_eq_Inr [result_simps]: "rbind m k = Inr y \<longleftrightarrow> (\<exists>x. m = Inr x \<and> k x = Inr y)"
  by (cases m) auto

lemma if_Inl_eq_Inr [result_simps]: "(if c then Inl e else k) = Inr y \<longleftrightarrow> \<not> c \<and> k = Inr y"
  by simp

lemma if_Inr_Inl_eq_Inr [result_simps]: "(if c then k else Inl e) = Inr y \<longleftrightarrow> c \<and> k = Inr y"
  by simp

lemma rbind_cong [fundef_cong]:
  "m = m' \<Longrightarrow> (\<And>x. m' = Inr x \<Longrightarrow> k x = k' x) \<Longrightarrow> rbind m k = rbind m' k'"
  by (cases m') simp_all

lemma is_ok_simps [simp]: "is_ok (Inr x)" "\<not> is_ok (Inl e)"
  by (simp_all add: is_ok_def)

lemma is_ok_iff: "is_ok m \<longleftrightarrow> (\<exists>x. m = Inr x)"
  by (cases m) auto

lemma unit_result_eq [result_simps]: "m = Inr () \<longleftrightarrow> is_ok m" for m :: "unit result"
  by (cases m) auto

lemma rmap_eq_Inr: "rmap f xs = Inr ys \<longleftrightarrow> list_all2 (\<lambda>x y. f x = Inr y) xs ys"
  by (induction xs arbitrary: ys) (auto simp: rbind_eq_Inr list_all2_Cons1)

lemma rmap_total:
  assumes "\<And>x. x \<in> set xs \<Longrightarrow> f x = Inr (g x)"
  shows "rmap f xs = Inr (map g xs)"
  using assms by (induction xs) auto

lemma rmap_cong [fundef_cong]:
  "xs = ys \<Longrightarrow> (\<And>x. x \<in> set ys \<Longrightarrow> f x = g x) \<Longrightarrow> rmap f xs = rmap g ys"
  by (induction xs arbitrary: ys) auto

lemma rfor_cong [fundef_cong]:
  "xs = ys \<Longrightarrow> (\<And>x. x \<in> set ys \<Longrightarrow> f x = g x) \<Longrightarrow> rfor f xs = rfor g ys"
  by (induction xs arbitrary: ys) auto

lemma rany_cong [fundef_cong]:
  "xs = ys \<Longrightarrow> (\<And>x. x \<in> set ys \<Longrightarrow> f x = g x) \<Longrightarrow> rany f xs = rany g ys"
  by (induction xs arbitrary: ys) (auto cong: if_cong)

lemma rany_True: "rany f xs = Inr True \<Longrightarrow> \<exists>x \<in> set xs. f x = Inr True"
  by (induction xs) (auto simp: rbind_eq_Inr split: if_splits)

lemma rany_False: "rany f xs = Inr False \<longleftrightarrow> (\<forall>x \<in> set xs. f x = Inr False)"
proof (induction xs)
  case (Cons x xs)
  then show ?case by (cases "f x") simp_all
qed simp

lemma rany_bool:
  assumes "\<And>x. x \<in> set xs \<Longrightarrow> f x = Inr (P x)"
  shows "rany f xs = Inr (list_ex P xs)"
  using assms by (induction xs) auto

lemma rfor_Inr: "rfor f xs = Inr () \<longleftrightarrow> (\<forall>x \<in> set xs. f x = Inr ())"
  by (induction xs) (auto simp: rbind_eq_Inr)

lemma rfor_ok: "is_ok (rfor f xs) \<longleftrightarrow> (\<forall>x \<in> set xs. is_ok (f x))"
proof (induction xs)
  case (Cons x xs)
  then show ?case by (cases "f x") auto
qed simp

section \<open>Python strings\<close>

definition cp :: "char \<Rightarrow> nat" where
  "cp c = of_char c"

lemma cp_less [simp]: "cp c < 256"
  by (simp add: cp_def)

lemma cp_inj: "cp c = cp d \<longleftrightarrow> c = d"
  by (simp add: cp_def)

text \<open>\<open>sep.join(parts)\<close>.\<close>

fun join :: "string \<Rightarrow> string list \<Rightarrow> string" where
  "join sep [] = []"
| "join sep [x] = x"
| "join sep (x # y # ys) = x @ sep @ join sep (y # ys)"

text \<open>The \<open>key=value\<close> rows that payloads are made of: \<open>f"key={value}"\<close>.\<close>

definition kv :: "string \<Rightarrow> string \<Rightarrow> string" where
  "kv key val = key @ ''='' @ val"

lemma kv_inj [simp]: "kv k a = kv k b \<longleftrightarrow> a = b"
  by (simp add: kv_def)

lemma set_kv [simp]: "set (kv k a) = insert (CHR ''='') (set k \<union> set a)"
  by (auto simp: kv_def)

lemma kv_nonempty [simp]: "kv k a \<noteq> []"
  by (simp add: kv_def)

text \<open>\<open>text.encode("utf-8")\<close>: one byte below 128, two bytes for 128..255.\<close>

fun utf8_char :: "char \<Rightarrow> string" where
  "utf8_char c =
     (if cp c < 128 then [c]
      else [char_of (192 + cp c div 64), char_of (128 + cp c mod 64)])"

definition utf8 :: "string \<Rightarrow> string" where
  "utf8 s = concat (map utf8_char s)"

text \<open>\<open>str(n)\<close> for an integer, \<open>str(int(b))\<close> for a boolean.\<close>

fun str_nat :: "nat \<Rightarrow> string" where
  "str_nat n = (if n < 10 then [char_of (48 + n)] else str_nat (n div 10) @ [char_of (48 + n mod 10)])"

declare str_nat.simps [simp del]

definition str_int :: "int \<Rightarrow> string" where
  "str_int i = (if i < 0 then CHR ''-'' # str_nat (nat (- i)) else str_nat (nat i))"

definition str_bool :: "bool \<Rightarrow> string" where
  "str_bool b = (if b then ''1'' else ''0'')"

text \<open>\<open>needle in text\<close>.\<close>

fun starts_with :: "string \<Rightarrow> string \<Rightarrow> bool" where
  "starts_with [] ys = True"
| "starts_with (x # xs) [] = False"
| "starts_with (x # xs) (y # ys) = (x = y \<and> starts_with xs ys)"

fun py_in :: "string \<Rightarrow> string \<Rightarrow> bool" where
  "py_in needle [] = (needle = [])"
| "py_in needle (y # ys) = (starts_with needle (y # ys) \<or> py_in needle ys)"

text \<open>\<open>sorted(set(xs))\<close>: the code point order on \<open>str\<close> is the lexicographic order.\<close>

definition sorted_set :: "string list \<Rightarrow> string list" where
  "sorted_set xs = sort (remdups xs)"

lemma set_sorted_set [simp]: "set (sorted_set xs) = set xs"
  by (simp add: sorted_set_def)

lemma distinct_sorted_set [simp]: "distinct (sorted_set xs)"
  by (simp add: sorted_set_def)

lemma sorted_sorted_set [simp]: "sorted (sorted_set xs)"
  by (simp add: sorted_set_def)

lemma sorted_set_cong: "set xs = set ys \<Longrightarrow> sorted_set xs = sorted_set ys"
  by (simp add: sorted_distinct_set_unique)

text \<open>\<open>dict.fromkeys(xs)\<close>: the first occurrence of each key, in order.\<close>

fun first_occurrences :: "'a list \<Rightarrow> 'a list" where
  "first_occurrences [] = []"
| "first_occurrences (x # xs) = x # filter (\<lambda>y. y \<noteq> x) (first_occurrences xs)"

lemma set_first_occurrences [simp]: "set (first_occurrences xs) = set xs"
  by (induction xs) auto

lemma find_append: "find P (xs @ ys) = (case find P xs of Some x \<Rightarrow> Some x | None \<Rightarrow> find P ys)"
  by (induction xs) auto

section \<open>Injectivity of the encodings\<close>

subsection \<open>Decimal numerals\<close>

lemma of_char_digit: "d < 10 \<Longrightarrow> of_char (char_of (48 + d) :: char) = 48 + (d :: nat)"
  by simp

definition is_digit_char :: "char \<Rightarrow> bool" where
  "is_digit_char c \<longleftrightarrow> 48 \<le> cp c \<and> cp c \<le> 57"

lemma str_nat_digits: "c \<in> set (str_nat n) \<Longrightarrow> is_digit_char c"
proof (induction n rule: str_nat.induct)
  case (1 n)
  then show ?case
    by (cases "n < 10") (auto simp: str_nat.simps [of n] is_digit_char_def cp_def)
qed

lemma str_nat_nonempty [simp]: "str_nat n \<noteq> []"
  by (subst str_nat.simps) simp

fun nat_of_digits :: "nat \<Rightarrow> string \<Rightarrow> nat" where
  "nat_of_digits a [] = a"
| "nat_of_digits a (c # cs) = nat_of_digits (10 * a + (cp c - 48)) cs"

lemma nat_of_digits_append: "nat_of_digits a (xs @ ys) = nat_of_digits (nat_of_digits a xs) ys"
  by (induction xs arbitrary: a) auto

lemma nat_of_digits_str_nat: "nat_of_digits 0 (str_nat n) = n"
proof (induction n rule: str_nat.induct)
  case (1 n)
  then show ?case
    by (cases "n < 10") (simp_all add: str_nat.simps [of n] nat_of_digits_append cp_def)
qed

lemma str_nat_inj: "str_nat m = str_nat n \<longleftrightarrow> m = n"
  by (metis nat_of_digits_str_nat)

lemma str_int_chars: "c \<in> set (str_int i) \<Longrightarrow> c = CHR ''-'' \<or> is_digit_char c"
  by (auto simp: str_int_def str_nat_digits split: if_splits)

lemma minus_not_in_str_nat [simp]: "CHR ''-'' \<notin> set (str_nat n)"
  by (auto dest: str_nat_digits simp: is_digit_char_def cp_def)

lemma str_int_nonempty [simp]: "str_int i \<noteq> []"
  by (simp add: str_int_def)

lemma str_int_inj: "str_int i = str_int j \<longleftrightarrow> i = j"
proof
  have "CHR ''-'' # str_nat m \<noteq> str_nat n" for m n
    by (metis list.set_intros(1) minus_not_in_str_nat)
  moreover assume "str_int i = str_int j"
  ultimately show "i = j"
    by (auto simp: str_int_def str_nat_inj split: if_splits) (metis+)
qed simp

lemma str_int_no_newline [simp]: "CHR 0x0A \<notin> set (str_int i)"
  by (auto dest!: str_int_chars simp: is_digit_char_def cp_def)

lemma str_bool_inj [simp]: "str_bool a = str_bool b \<longleftrightarrow> a = b"
  by (simp add: str_bool_def)

end
