(* ===== verification/Sealing.thy ===== *)
theory Sealing
  imports Prelude
begin

text \<open>
  Digests and seals. Every modelled module computes
  \<open>hashlib.sha256(_CTX + payload.encode("utf-8")).hexdigest()\<close> over a payload built with
  \<open>str.join\<close>. The hash is a parameter of the model (\<open>hash\<close>, bytes to hexadecimal
  text); \<open>Sha256\<close> supplies the real one. What a seal is worth is stated once, in the
  locale \<open>sealing\<close>: where the payload encoding is injective, two objects with the same
  seal are equal or exhibit a concrete collision of the hash.
\<close>

definition digest_of :: "(string \<Rightarrow> string) \<Rightarrow> string \<Rightarrow> string \<Rightarrow> string" where
  "digest_of hash ctx payload = hash (ctx @ utf8 payload)"

text \<open>Two different inputs with the same hash.\<close>

definition collision :: "(string \<Rightarrow> string) \<Rightarrow> string \<Rightarrow> string \<Rightarrow> bool" where
  "collision hash a b \<longleftrightarrow> a \<noteq> b \<and> hash a = hash b"

text \<open>\<open>hexdigest()\<close> of a 256-bit hash: 64 lower-case hexadecimal digits.\<close>

definition hex_char :: "char \<Rightarrow> bool" where
  "hex_char c \<longleftrightarrow> (48 \<le> cp c \<and> cp c \<le> 57) \<or> (97 \<le> cp c \<and> cp c \<le> 102)"

definition hex64 :: "string \<Rightarrow> bool" where
  "hex64 s \<longleftrightarrow> length s = 64 \<and> list_all hex_char s"

section \<open>Injectivity of the payload encodings\<close>

lemma utf8_Nil [simp]: "utf8 [] = []"
  by (simp add: utf8_def)

lemma utf8_Cons: "utf8 (c # s) = utf8_char c @ utf8 s"
  by (simp add: utf8_def)

lemma utf8_char_nonempty [simp]: "utf8_char c \<noteq> []"
  by simp

lemma utf8_char_prefix_free:
  assumes "utf8_char c @ xs = utf8_char d @ ys"
  shows "c = d \<and> xs = ys"
proof -
  have lead: "of_char (char_of (192 + n div 64) :: char) = 192 + n div 64"
    and cont: "of_char (char_of (128 + n mod 64) :: char) = 128 + n mod 64"
    if "n < 256" for n :: nat
    using that by (simp_all add: mod_less)
  have same: "m = n" if "192 + m div 64 = 192 + n div 64" "128 + m mod 64 = 128 + n mod 64"
    for m n :: nat
    using that by (metis add_left_imp_eq mult_div_mod_eq)
  show ?thesis
  proof (cases "cp c < 128"; cases "cp d < 128")
    assume "cp c < 128" "cp d < 128"
    with assms show ?thesis by simp
  next
    assume c: "cp c < 128" and d: "\<not> cp d < 128"
    with assms have "c = char_of (192 + cp d div 64)" by simp
    then have "cp c = 192 + cp d div 64" using lead [of "cp d"] by (simp add: cp_def)
    with c show ?thesis by simp
  next
    assume c: "\<not> cp c < 128" and d: "cp d < 128"
    with assms have "d = char_of (192 + cp c div 64)" by simp
    then have "cp d = 192 + cp c div 64" using lead [of "cp c"] by (simp add: cp_def)
    with d show ?thesis by simp
  next
    assume c: "\<not> cp c < 128" and d: "\<not> cp d < 128"
    with assms have l: "(char_of (192 + cp c div 64) :: char) = char_of (192 + cp d div 64)"
      and k: "(char_of (128 + cp c mod 64) :: char) = char_of (128 + cp d mod 64)"
      and xs: "xs = ys" by simp_all
    from l have "192 + cp c div 64 = 192 + cp d div 64"
      using lead [OF cp_less, of c] lead [OF cp_less, of d] by metis
    moreover from k have "128 + cp c mod 64 = 128 + cp d mod 64"
      using cont [OF cp_less, of c] cont [OF cp_less, of d] by metis
    ultimately have "cp c = cp d" by (rule same)
    with xs show ?thesis by (simp add: cp_inj)
  qed
qed

lemma utf8_inj [simp]: "utf8 s = utf8 t \<longleftrightarrow> s = t"
proof (induction s arbitrary: t)
  case Nil
  show ?case by (cases t) (simp_all add: utf8_Cons del: utf8_char.simps)
next
  case (Cons c s)
  show ?case
  proof (cases t)
    case Nil
    then show ?thesis by (simp add: utf8_Cons del: utf8_char.simps)
  next
    case (Cons d t')
    then show ?thesis
      using Cons.IH utf8_char_prefix_free [of c "utf8 s" d "utf8 t'"]
      by (auto simp: utf8_Cons simp del: utf8_char.simps)
  qed
qed

lemma digest_of_eq:
  "digest_of hash ctx a = digest_of hash ctx b \<Longrightarrow>
     a = b \<or> collision hash (ctx @ utf8 a) (ctx @ utf8 b)"
  by (auto simp: digest_of_def collision_def)

text \<open>A separator that does not occur in the parts splits the joined text uniquely.\<close>

lemma split_at_separator:
  assumes "c \<notin> set a" and "c \<notin> set b" and "a @ c # xs = b @ c # ys"
  shows "a = b \<and> xs = ys"
  using assms
proof (induction a arbitrary: b)
  case Nil
  then show ?case by (cases b) auto
next
  case (Cons x a)
  then show ?case by (cases b) auto
qed

lemma separator_not_suffix: "c \<notin> set a \<Longrightarrow> a \<noteq> b @ c # ys"
  by auto

lemma join_Cons: "xs \<noteq> [] \<Longrightarrow> join sep (x # xs) = x @ sep @ join sep xs"
  by (cases xs) auto

lemma join_inj_nonempty:
  assumes "\<forall>x \<in> set xs. c \<notin> set x" and "\<forall>y \<in> set ys. c \<notin> set y"
    and "xs \<noteq> []" and "ys \<noteq> []" and "join [c] xs = join [c] ys"
  shows "xs = ys"
  using assms
proof (induction xs arbitrary: ys)
  case (Cons x xs)
  from \<open>ys \<noteq> []\<close> obtain y zs where ys: "ys = y # zs" by (cases ys) auto
  show ?case
  proof (cases "xs = [] \<or> zs = []")
    case True
    with Cons.prems ys show ?thesis
      using separator_not_suffix [of c x y "join [c] zs"] separator_not_suffix [of c y x "join [c] xs"]
      by (cases "xs = []"; cases "zs = []") (auto simp: join_Cons)
  next
    case False
    with Cons.prems ys have "x @ c # join [c] xs = y @ c # join [c] zs" by (simp add: join_Cons)
    then have "x = y \<and> join [c] xs = join [c] zs"
      by (rule split_at_separator [rotated 2]) (use Cons.prems(1,2) ys in simp_all)
    then have "x = y" and eq: "join [c] xs = join [c] zs" by simp_all
    moreover have "xs = zs"
      using Cons.IH [of zs] Cons.prems(1,2) ys False eq by simp
    ultimately show ?thesis using ys by simp
  qed
qed simp

lemma join_inj:
  assumes "\<forall>x \<in> set xs. c \<notin> set x" and "\<forall>y \<in> set ys. c \<notin> set y"
    and "length xs = length ys" and "join [c] xs = join [c] ys"
  shows "xs = ys"
proof (cases "xs = []")
  case False
  with assms(3) have "ys \<noteq> []" by auto
  with False assms show ?thesis by (intro join_inj_nonempty [of xs c ys])
qed (use assms(3) in simp)

text \<open>The first row of a payload is determined by the payload.\<close>

lemma join_first_row:
  assumes "c \<notin> set x" and "c \<notin> set y" and "join [c] (x # xs) = join [c] (y # ys)"
  shows "x = y"
proof -
  consider "xs = []" "ys = []" | "xs = []" "ys \<noteq> []" | "xs \<noteq> []" "ys = []" | "xs \<noteq> []" "ys \<noteq> []"
    by blast
  then show ?thesis
  proof cases
    case 1
    with assms(3) show ?thesis by simp
  next
    case 2
    with assms(3) have "x = y @ c # join [c] ys" by (simp add: join_Cons)
    with separator_not_suffix [OF assms(1), of y] show ?thesis by blast
  next
    case 3
    with assms(3) have "y = x @ c # join [c] xs" by (simp add: join_Cons)
    with separator_not_suffix [OF assms(2), of x] show ?thesis by blast
  next
    case 4
    then have "join [c] (x # xs) = x @ c # join [c] xs" "join [c] (y # ys) = y @ c # join [c] ys"
      by (simp_all add: join_Cons)
    with assms(3) have "x @ c # join [c] xs = y @ c # join [c] ys" by (simp only:)
    from split_at_separator [OF assms(1,2) this] show ?thesis by simp
  qed
qed

section \<open>The contract of a seal\<close>

text \<open>
  \<open>encode\<close> is the payload a module joins from the fields of an object, \<open>wf\<close> the
  condition on the fields (no delimiter inside a field) under which it is injective.
\<close>

locale sealing =
  fixes hash :: "string \<Rightarrow> string"
    and ctx :: string
    and encode :: "'a \<Rightarrow> string"
    and wf :: "'a \<Rightarrow> bool"
  assumes encode_inj: "wf x \<Longrightarrow> wf y \<Longrightarrow> encode x = encode y \<Longrightarrow> x = y"
begin

lemma seal_binds:
  assumes "wf x" and "wf y"
    and "digest_of hash ctx (encode x) = digest_of hash ctx (encode y)"
  shows "x = y \<or> collision hash (ctx @ utf8 (encode x)) (ctx @ utf8 (encode y))"
  using assms encode_inj digest_of_eq by blast

end

text \<open>The hash itself: what \<open>hexdigest()\<close> promises of its result.\<close>

locale hexdigest =
  fixes hash :: "string \<Rightarrow> string"
  assumes hash_hex64: "hex64 (hash m)"
begin

lemma digest_hex64: "hex64 (digest_of hash ctx p)"
  by (simp add: digest_of_def hash_hex64)

lemma digest_nonempty: "digest_of hash ctx p \<noteq> []"
  using digest_hex64 [of ctx p] by (auto simp: hex64_def)

lemma digest_no_newline: "CHR 0x0A \<notin> set (digest_of hash ctx p)"
  using digest_hex64 [of ctx p] by (auto simp: hex64_def list_all_iff hex_char_def cp_def)

end

text \<open>
  A small concrete hash for closed examples: the last characters of the input, with every other
  character than a hexadecimal digit replaced by \<open>0\<close>, after an \<open>a\<close>. It keeps the promise of
  \<open>hexdigest()\<close>, is never the zero digest and evaluates quickly.
\<close>

definition hexify :: "char \<Rightarrow> char" where
  "hexify c = (if c \<in> set ''0123456789abcdef'' then c else CHR ''0'')"

definition tail_hash :: "string \<Rightarrow> string" where
  "tail_hash m = CHR ''a'' # take 63 (map hexify (rev m) @ replicate 63 (CHR ''0''))"

lemma hex_char_hexify: "hex_char (hexify c)"
  by (auto simp: hexify_def hex_char_def cp_def)

lemma tail_hash_hex64: "hex64 (tail_hash m)"
proof -
  have "hex_char (CHR ''0'')" "hex_char (CHR ''a'')"
    using hex_char_hexify [of "CHR ''0''"] hex_char_hexify [of "CHR ''a''"] by (simp_all add: hexify_def)
  then show ?thesis
    by (auto simp: tail_hash_def hex64_def list_all_iff hex_char_hexify dest!: in_set_takeD)
qed

interpretation tail_hash: hexdigest tail_hash
  by unfold_locales (rule tail_hash_hex64)

end
