(* ===== verification/Lexer.thy ===== *)
theory Lexer
  imports Prelude
begin

text \<open>
  The lexical scanner (\<open>koschei/lexer.py\<close>): the mutable \<open>Lexer\<close> object is the record
  \<open>lexer\<close>, threaded through the methods. Its loops are recursive functions whose
  termination rests on the scanner index moving towards the end of the source.

  The classification of characters is that of CPython on the code points below 256. The value
  of a floating point token is its literal text (the source applies \<open>float\<close> to it). The
  messages of the errors are given in ASCII transliteration.
\<close>

section \<open>Characters\<close>

definition py_isdigit :: "char \<Rightarrow> bool" where
  "py_isdigit c \<longleftrightarrow> is_digit_char c \<or> cp c \<in> {178, 179, 185}"

definition py_isalpha :: "char \<Rightarrow> bool" where
  "py_isalpha c \<longleftrightarrow>
     65 \<le> cp c \<and> cp c \<le> 90 \<or> 97 \<le> cp c \<and> cp c \<le> 122 \<or> cp c \<in> {170, 181, 186}
   \<or> 192 \<le> cp c \<and> cp c \<notin> {215, 247}"

definition py_isalnum :: "char \<Rightarrow> bool" where
  "py_isalnum c \<longleftrightarrow> py_isalpha c \<or> py_isdigit c \<or> cp c \<in> {188, 189, 190}"

definition py_isupper :: "char \<Rightarrow> bool" where
  "py_isupper c \<longleftrightarrow> 65 \<le> cp c \<and> cp c \<le> 90 \<or> 192 \<le> cp c \<and> cp c \<le> 222 \<and> cp c \<noteq> 215"

definition py_isspace :: "char \<Rightarrow> bool" where
  "py_isspace c \<longleftrightarrow> 9 \<le> cp c \<and> cp c \<le> 13 \<or> 28 \<le> cp c \<and> cp c \<le> 32 \<or> cp c \<in> {133, 160}"

definition strip :: "string \<Rightarrow> string" where
  "strip s = rev (dropWhile py_isspace (rev (dropWhile py_isspace s)))"

text \<open>
  \<open>int(text)\<close> on the text of a number: only the ten ASCII digits are decimal digits below
  256, and CPython refuses more than 4300 of them. \<open>float(text)\<close> has no such limit.
\<close>

definition py_int :: "string \<Rightarrow> int result" where
  "py_int s =
     (if \<not> list_all is_digit_char s then
        raisef ValueError ''invalid literal for int() with base 10: {!r}'' [s]
      else if 4300 < length s then
        raise ValueError ''Exceeds the limit (4300 digits) for integer string conversion''
      else Inr (int (nat_of_digits 0 s)))"

definition py_float :: "string \<Rightarrow> string result" where
  "py_float s =
     (if \<not> list_all (\<lambda>c. is_digit_char c \<or> c = CHR ''.'') s then
        raisef ValueError ''could not convert string to float: {!r}'' [s]
      else Inr s)"

section \<open>Tokens\<close>

datatype TokenType =
    T_KA | T_VOR | T_SHI | T_THAL | T_NUR
  | T_PURE | T_STATEFUL | T_FN | T_LET | T_MUT | T_OR | T_RETURN | T_IF | T_ELSE | T_WHILE | T_FOR
  | T_IN | T_BREAK | T_CONTINUE | T_STRUCT | T_ENUM | T_MATCH | T_IMPORT | T_TRUE | T_FALSE
  | T_TYPE | T_IDENTIFIER | T_STRING | T_STRING_INTERP | T_NUMBER | T_COMMENT
  | T_LEFT_PAREN | T_RIGHT_PAREN | T_LEFT_BRACE | T_RIGHT_BRACE | T_COMMA | T_COLON | T_DOT
  | T_EQUAL | T_PLUS | T_MINUS | T_STAR | T_SLASH | T_PERCENT | T_SEMICOLON | T_BANG
  | T_LEFT_BRACKET | T_RIGHT_BRACKET
  | T_ARROW | T_FAT_ARROW | T_EQUAL_EQUAL | T_BANG_EQUAL | T_LESS | T_LESS_EQUAL | T_GREATER
  | T_GREATER_EQUAL | T_AMP_AMP | T_PIPE_PIPE
  | T_EOF

datatype segment = Text_Segment string | Expr_Segment string

datatype token_value =
    No_Value | Str_Value string | Int_Value int | Float_Value string | Segments_Value "segment list"

record token =
  tk_type :: TokenType
  tk_value :: token_value
  tk_line :: int
  tk_column :: int

definition KEYWORDS :: "(string \<times> TokenType) list" where
  "KEYWORDS =
     [(''ka'', T_KA), (''vor'', T_VOR), (''shi'', T_SHI), (''thal'', T_THAL), (''nur'', T_NUR),
      (''pure'', T_PURE), (''stateful'', T_STATEFUL), (''fn'', T_FN), (''let'', T_LET), (''mut'', T_MUT),
      (''or'', T_OR), (''return'', T_RETURN), (''if'', T_IF), (''else'', T_ELSE), (''while'', T_WHILE),
      (''for'', T_FOR), (''in'', T_IN), (''break'', T_BREAK), (''continue'', T_CONTINUE),
      (''struct'', T_STRUCT), (''enum'', T_ENUM), (''match'', T_MATCH), (''import'', T_IMPORT),
      (''true'', T_TRUE), (''false'', T_FALSE)]"

definition BUILTIN_TYPES :: "string set" where
  "BUILTIN_TYPES =
     {''SystemCaps'', ''NetRoot'', ''DiskRoot'', ''EnvRoot'', ''ProcessRoot'', ''NetCaps'', ''DiskCaps'',
      ''DiskReadCaps'', ''EnvCaps'', ''ProcessCaps'', ''List'', ''Map'', ''String'', ''Int'', ''Float'',
      ''Bool'', ''Void'', ''Error'', ''Result'', ''Option''}"

definition SINGLE_CHAR_TOKENS :: "(char \<times> TokenType) list" where
  "SINGLE_CHAR_TOKENS =
     [(CHR ''('', T_LEFT_PAREN), (CHR '')'', T_RIGHT_PAREN), (CHR ''{'', T_LEFT_BRACE),
      (CHR ''}'', T_RIGHT_BRACE), (CHR '','', T_COMMA), (CHR '':'', T_COLON), (CHR ''.'', T_DOT),
      (CHR ''+'', T_PLUS), (CHR ''*'', T_STAR), (CHR ''%'', T_PERCENT), (CHR '';'', T_SEMICOLON),
      (CHR ''['', T_LEFT_BRACKET), (CHR '']'', T_RIGHT_BRACKET)]"

definition ESCAPES :: "(char \<times> char) list" where
  "ESCAPES =
     [(CHR ''n'', CHR 0x0A), (CHR ''r'', CHR 0x0D), (CHR ''t'', CHR 0x09), (CHR 0x22, CHR 0x22),
      (CHR 0x5C, CHR 0x5C), (CHR ''{'', CHR ''{''), (CHR ''}'', CHR ''}'')]"

section \<open>The scanner state\<close>

record lexer =
  lx_source :: string
  lx_keep_comments :: bool
  lx_start :: nat
  lx_current :: nat
  lx_line :: int
  lx_column :: int
  lx_start_line :: int
  lx_start_column :: int
  lx_tokens :: "token list"

definition new_lexer :: "string \<Rightarrow> bool \<Rightarrow> lexer" where
  "new_lexer source keep_comments =
     \<lparr>lx_source = source, lx_keep_comments = keep_comments, lx_start = 0, lx_current = 0,
      lx_line = 1, lx_column = 1, lx_start_line = 1, lx_start_column = 1, lx_tokens = []\<rparr>"

definition is_at_end :: "lexer \<Rightarrow> bool" where
  "is_at_end lx \<longleftrightarrow> length (lx_source lx) \<le> lx_current lx"

definition peek :: "lexer \<Rightarrow> char" where
  "peek lx = (if is_at_end lx then CHR 0x00 else lx_source lx ! lx_current lx)"

definition peek_next :: "lexer \<Rightarrow> char" where
  "peek_next lx =
     (if length (lx_source lx) \<le> lx_current lx + 1 then CHR 0x00
      else lx_source lx ! (lx_current lx + 1))"

text \<open>
  \<open>_advance\<close> returns the current character and moves past it. Every call of the source
  is guarded by \<open>_is_at_end\<close>, or by \<open>_peek\<close> not being the NUL it answers at the
  end, so the character returned is \<open>peek\<close>.
\<close>

definition advance :: "lexer \<Rightarrow> lexer" where
  "advance lx =
     (if peek lx = CHR 0x0A
      then lx\<lparr>lx_current := lx_current lx + 1, lx_line := lx_line lx + 1, lx_column := 1\<rparr>
      else lx\<lparr>lx_current := lx_current lx + 1, lx_column := lx_column lx + 1\<rparr>)"

text \<open>\<open>_match(expected)\<close>: whether it matches; \<open>advance\<close> follows when it does.\<close>

definition match_next :: "lexer \<Rightarrow> char \<Rightarrow> bool" where
  "match_next lx expected \<longleftrightarrow> \<not> is_at_end lx \<and> lx_source lx ! lx_current lx = expected"

definition add_token :: "TokenType \<Rightarrow> token_value \<Rightarrow> lexer \<Rightarrow> lexer" where
  "add_token ty v lx =
     lx\<lparr>lx_tokens := lx_tokens lx @
          [\<lparr>tk_type = ty, tk_value = v, tk_line = lx_start_line lx, tk_column = lx_start_column lx\<rparr>]\<rparr>"

definition lex_error :: "lexer \<Rightarrow> string \<Rightarrow> string list \<Rightarrow> 'a result" where
  "lex_error lx message args =
     raisef LexerError (''[satir {}, sutun {}] '' @ message)
       (str_int (lx_start_line lx) # str_int (lx_start_column lx) # args)"

text \<open>\<open>self.source[self.start:self.current]\<close>.\<close>

definition lexeme :: "lexer \<Rightarrow> string" where
  "lexeme lx = take (lx_current lx - lx_start lx) (drop (lx_start lx) (lx_source lx))"

text \<open>\<open>while P(self._peek()): self._advance()\<close>, for a test that fails on NUL.\<close>

lemma advance_frame [simp]:
  "lx_source (advance lx) = lx_source lx"
  "lx_keep_comments (advance lx) = lx_keep_comments lx"
  "lx_start (advance lx) = lx_start lx"
  "lx_current (advance lx) = Suc (lx_current lx)"
  "lx_start_line (advance lx) = lx_start_line lx"
  "lx_start_column (advance lx) = lx_start_column lx"
  "lx_tokens (advance lx) = lx_tokens lx"
  by (simp_all add: advance_def)

definition remaining :: "lexer \<Rightarrow> nat" where
  "remaining lx = length (lx_source lx) - lx_current lx"

lemma remaining_advance: "\<not> is_at_end lx \<Longrightarrow> remaining (advance lx) < remaining lx"
  by (simp add: remaining_def is_at_end_def)

function advance_while :: "(char \<Rightarrow> bool) \<Rightarrow> lexer \<Rightarrow> lexer" where
  "advance_while P lx =
     (if \<not> is_at_end lx \<and> P (peek lx) then advance_while P (advance lx) else lx)"
  by pat_completeness auto
termination
  by (relation "measure (\<lambda>(P, lx). remaining lx)") (simp_all add: remaining_advance)

declare advance_while.simps [simp del]

section \<open>Identifiers and numbers\<close>

definition identifier_char :: "char \<Rightarrow> bool" where
  "identifier_char c \<longleftrightarrow> py_isalnum c \<or> c = CHR ''_''"

definition word_type :: "string \<Rightarrow> TokenType" where
  "word_type s = (case map_of KEYWORDS s of
     Some ty \<Rightarrow> ty
   | None \<Rightarrow> if s \<in> BUILTIN_TYPES \<or> (s \<noteq> [] \<and> py_isupper (hd s)) then T_TYPE else T_IDENTIFIER)"

definition scan_identifier :: "lexer \<Rightarrow> lexer" where
  "scan_identifier lx0 =
     (let lx = advance_while identifier_char lx0
      in add_token (word_type (lexeme lx)) (Str_Value (lexeme lx)) lx)"

definition scan_number :: "lexer \<Rightarrow> lexer result" where
  "scan_number lx0 =
     (let lx = advance_while py_isdigit lx0
      in if peek lx = CHR ''.'' \<and> py_isdigit (peek_next lx)
         then let lx = advance_while py_isdigit (advance lx)
              in rbind (py_float (lexeme lx)) (\<lambda>f. Inr (add_token T_NUMBER (Float_Value f) lx))
         else rbind (py_int (lexeme lx)) (\<lambda>i. Inr (add_token T_NUMBER (Int_Value i) lx)))"

section \<open>Strings and interpolation\<close>

text \<open>
  \<open>_interpolation_expression\<close>: the local variables \<open>depth\<close>, \<open>in_string\<close>,
  \<open>escaped\<close> and \<open>expression\<close> are the arguments of the loop.
\<close>

function interpolation_loop ::
  "lexer \<Rightarrow> int \<Rightarrow> bool \<Rightarrow> bool \<Rightarrow> string \<Rightarrow> (string \<times> lexer) result" where
  "interpolation_loop lx depth in_string escaped expression =
     (if is_at_end lx then lex_error lx ''Interpolasyon '}' ile kapatilmalidir.'' []
      else let c = peek lx; lx' = advance lx; expression' = expression @ [c] in
        if in_string then
          if escaped then interpolation_loop lx' depth True False expression'
          else if c = CHR 0x5C then interpolation_loop lx' depth True True expression'
          else if c = CHR 0x22 then interpolation_loop lx' depth False False expression'
          else if c = CHR 0x0A then
            lex_error lx' ''Interpolasyon icindeki metin satir sonuna tasamaz.'' []
          else interpolation_loop lx' depth True False expression'
        else if c = CHR 0x22 then interpolation_loop lx' depth True escaped expression'
        else if c = CHR ''{'' then interpolation_loop lx' (depth + 1) False escaped expression'
        else if c = CHR ''}'' then
          if depth - 1 = 0 then Inr (strip expression, lx')
          else interpolation_loop lx' (depth - 1) False escaped expression'
        else if c = CHR 0x0A then
          lex_error lx' ''Interpolasyon '}' ile ayni satirda kapatilmalidir.'' []
        else interpolation_loop lx' depth False escaped expression')"
  by pat_completeness auto
termination
  by (relation "measure (\<lambda>(lx, _). remaining lx)") (simp_all add: remaining_advance)

declare interpolation_loop.simps [simp del]

definition interpolation_expression :: "lexer \<Rightarrow> (string \<times> lexer) result" where
  "interpolation_expression lx = interpolation_loop lx 1 False False []"

text \<open>
  The position of an index of the source: one more than the number of line ends before it,
  and one more than the number of characters since the last of them.
\<close>

fun position_step :: "int \<times> int \<Rightarrow> char \<Rightarrow> int \<times> int" where
  "position_step (l, c) d = (if d = CHR 0x0A then (l + 1, 1) else (l, c + 1))"

definition position_of :: "string \<Rightarrow> int \<times> int" where
  "position_of s = foldl position_step (1, 1) s"

definition placed :: "lexer \<Rightarrow> bool" where
  "placed lx \<longleftrightarrow> lx_current lx \<le> length (lx_source lx)
     \<and> position_of (take (lx_current lx) (lx_source lx)) = (lx_line lx, lx_column lx)"

text \<open>
  What a run of the scanner's helpers does: only the index and the position move, the index
  never moves back, and the position remains that of the index.
\<close>

definition moves :: "lexer \<Rightarrow> lexer \<Rightarrow> bool" where
  "moves lx lx' \<longleftrightarrow>
     lx_current lx \<le> lx_current lx' \<and> lx_source lx' = lx_source lx
   \<and> lx_keep_comments lx' = lx_keep_comments lx \<and> lx_start lx' = lx_start lx
   \<and> lx_start_line lx' = lx_start_line lx \<and> lx_start_column lx' = lx_start_column lx
   \<and> lx_tokens lx' = lx_tokens lx \<and> (placed lx \<longrightarrow> placed lx')"

lemma moves_refl [simp]: "moves lx lx"
  by (simp add: moves_def)

lemma moves_trans: "moves lx lx' \<Longrightarrow> moves lx' lx'' \<Longrightarrow> moves lx lx''"
  by (auto simp: moves_def)

lemma placed_advance: "placed lx \<Longrightarrow> \<not> is_at_end lx \<Longrightarrow> placed (advance lx)"
  by (simp add: placed_def is_at_end_def take_Suc_conv_app_nth position_of_def advance_def peek_def)

lemma moves_advance: "\<not> is_at_end lx \<Longrightarrow> moves lx (advance lx)"
  by (simp add: moves_def placed_advance)

lemma moves_advance_trans: "moves (advance lx) lx' \<Longrightarrow> \<not> is_at_end lx \<Longrightarrow> moves lx lx'"
  using moves_advance moves_trans by blast

lemma moves_advance_while: "moves lx (advance_while P lx)"
proof (induction P lx rule: advance_while.induct)
  case (1 P lx)
  then show ?case by (subst advance_while.simps) (simp add: moves_advance_trans)
qed

lemma moves_interpolation_loop:
  "interpolation_loop lx depth in_string escaped expression = Inr (e, lx')
   \<Longrightarrow> \<not> is_at_end lx \<and> moves (advance lx) lx'"
proof (induction lx arbitrary: depth in_string escaped expression rule: measure_induct_rule [where f = remaining])
  case (less lx)
  have more: "moves (advance lx) lx'"
    if "\<not> is_at_end lx" "interpolation_loop (advance lx) d i es x = Inr (e, lx')" for d i es x
    using less.IH [OF remaining_advance [OF that(1)] that(2)] by (blast intro: moves_advance_trans)
  note eq = less.prems [unfolded interpolation_loop.simps [of lx depth in_string escaped expression]]
  have "\<not> is_at_end lx"
    using eq by (auto simp: lex_error_def)
  moreover from eq have "moves (advance lx) lx'"
    by (simp add: Let_def lex_error_def more split: if_split_asm)
  ultimately show ?case ..
qed

lemma moves_interpolation: "interpolation_expression lx = Inr (e, lx') \<Longrightarrow> moves lx lx'"
  unfolding interpolation_expression_def
  by (blast dest: moves_interpolation_loop moves_advance_trans)

definition flush_text :: "segment list \<Rightarrow> string \<Rightarrow> segment list" where
  "flush_text segments text_parts =
     (if text_parts \<noteq> [] then segments @ [Text_Segment text_parts] else segments)"

fun is_expr :: "segment \<Rightarrow> bool" where
  "is_expr (Expr_Segment _) = True"
| "is_expr (Text_Segment _) = False"

fun segment_text :: "segment \<Rightarrow> string" where
  "segment_text (Expr_Segment s) = s"
| "segment_text (Text_Segment s) = s"

lemma remaining_moves: "moves (advance lx) lx' \<Longrightarrow> \<not> is_at_end lx \<Longrightarrow> remaining lx' < remaining lx"
  by (auto simp: moves_def remaining_def is_at_end_def)

function string_loop :: "lexer \<Rightarrow> segment list \<Rightarrow> string \<Rightarrow> lexer result" where
  "string_loop lx segments text_parts =
     (if is_at_end lx then lex_error lx ''Kapatilmamis metin degeri.'' []
      else if peek lx = CHR 0x22 then
        (let segments' = flush_text segments text_parts
         in if list_ex is_expr segments'
            then Inr (add_token T_STRING_INTERP (Segments_Value segments') (advance lx))
            else Inr (add_token T_STRING
                   (Str_Value (case segments' of [] \<Rightarrow> [] | s # _ \<Rightarrow> segment_text s)) (advance lx)))
      else if peek lx = CHR 0x5C then
        (if is_at_end (advance lx) then lex_error lx ''Tamamlanmamis kacis dizisi.'' []
         else case map_of ESCAPES (peek (advance lx)) of
             None \<Rightarrow> lex_error lx ''Gecersiz kacis dizisi: {}'' [[peek (advance lx)]]
           | Some c \<Rightarrow> string_loop (advance (advance lx)) segments (text_parts @ [c]))
      else if peek lx = CHR ''{'' then
        rbind (interpolation_expression (advance lx)) (\<lambda>(expr_source, lx').
          if expr_source = [] then lex_error lx' ''Bos interpolasyon gecersizdir.'' []
          else string_loop lx' (flush_text segments text_parts @ [Expr_Segment expr_source]) [])
      else if peek lx = CHR ''}'' then
        lex_error lx ''Metin icinde tek '}' gecersizdir.'' []
      else string_loop (advance lx) segments (text_parts @ [peek lx]))"
  by pat_completeness auto
termination
  by (relation "measure (\<lambda>(lx, _). remaining lx)")
     (auto simp: remaining_advance less_trans [OF remaining_advance remaining_advance]
           intro: remaining_moves moves_interpolation)

declare string_loop.simps [simp del]

definition scan_string :: "lexer \<Rightarrow> lexer result" where
  "scan_string lx = string_loop lx [] []"

section \<open>Scanning\<close>

text \<open>The two-character operators: \<open>if self._match(second): ... else: ...\<close>.\<close>

definition one_or_two :: "lexer \<Rightarrow> char \<Rightarrow> TokenType \<Rightarrow> string \<Rightarrow> TokenType \<Rightarrow> string \<Rightarrow> lexer" where
  "one_or_two lx second ty2 s2 ty1 s1 =
     (if match_next lx second then add_token ty2 (Str_Value s2) (advance lx)
      else add_token ty1 (Str_Value s1) lx)"

definition scan_token :: "lexer \<Rightarrow> lexer result" where
  "scan_token lx0 =
     (let c = peek lx0; lx = advance lx0 in
      if c \<in> {CHR '' '', CHR 0x0D, CHR 0x09, CHR 0x0A} then Inr lx
      else if c = CHR ''/'' then
        (if match_next lx (CHR ''/'') then
           let lx = advance_while (\<lambda>d. d \<noteq> CHR 0x0A \<and> d \<noteq> CHR 0x00) (advance lx)
           in Inr (if lx_keep_comments lx then add_token T_COMMENT (Str_Value (lexeme lx)) lx else lx)
         else Inr (add_token T_SLASH (Str_Value ''/'') lx))
      else if c = CHR 0x22 then scan_string lx
      else if py_isdigit c then scan_number lx
      else if py_isalpha c \<or> c = CHR ''_'' then Inr (scan_identifier lx)
      else if c = CHR ''-'' then Inr (one_or_two lx (CHR ''>'') T_ARROW ''->'' T_MINUS ''-'')
      else if c = CHR ''='' then
        Inr (if match_next lx (CHR ''>'') then add_token T_FAT_ARROW (Str_Value ''=>'') (advance lx)
             else one_or_two lx (CHR ''='') T_EQUAL_EQUAL ''=='' T_EQUAL ''='')
      else if c = CHR ''!'' then Inr (one_or_two lx (CHR ''='') T_BANG_EQUAL ''!='' T_BANG ''!'')
      else if c = CHR ''&'' then
        (if match_next lx (CHR ''&'') then Inr (add_token T_AMP_AMP (Str_Value ''&&'') (advance lx))
         else lex_error lx ''Beklenmeyen '&'. Mantiksal ve icin '&&' kullanin.'' [])
      else if c = CHR ''|'' then
        (if match_next lx (CHR ''|'') then Inr (add_token T_PIPE_PIPE (Str_Value ''||'') (advance lx))
         else lex_error lx ''Beklenmeyen '|'. Mantiksal veya icin '||' kullanin.'' [])
      else if c = CHR ''<'' then Inr (one_or_two lx (CHR ''='') T_LESS_EQUAL ''<='' T_LESS ''<'')
      else if c = CHR ''>'' then Inr (one_or_two lx (CHR ''='') T_GREATER_EQUAL ''>='' T_GREATER ''>'')
      else case map_of SINGLE_CHAR_TOKENS c of
          Some ty \<Rightarrow> Inr (add_token ty (Str_Value [c]) lx)
        | None \<Rightarrow> lex_error lx ''Gecersiz karakter: {!r}'' [[c]])"

section \<open>What a scan adds\<close>

text \<open>
  \<open>yields P lx lx'\<close>: the scanner moves from \<open>lx\<close>, and may add one token, of a type
  and a value that satisfy \<open>P\<close> at the state it has then reached.
\<close>

definition yields :: "(lexer \<Rightarrow> TokenType \<Rightarrow> token_value \<Rightarrow> bool) \<Rightarrow> lexer \<Rightarrow> lexer \<Rightarrow> bool" where
  "yields P lx lx' \<longleftrightarrow>
     (\<exists>m. moves lx m \<and> (lx' = m \<or> (\<exists>ty v. P m ty v \<and> lx' = add_token ty v m)))"

lemma yields_add: "moves lx m \<Longrightarrow> P m ty v \<Longrightarrow> yields P lx (add_token ty v m)"
  by (auto simp: yields_def)

lemma yields_move: "moves lx lx' \<Longrightarrow> yields P lx lx'"
  by (auto simp: yields_def)

lemma yields_trans: "moves lx lx' \<Longrightarrow> yields P lx' lx'' \<Longrightarrow> yields P lx lx''"
  by (auto simp: yields_def intro: moves_trans)

lemma yields_mono: "yields P lx lx' \<Longrightarrow> (\<And>m ty v. moves lx m \<Longrightarrow> P m ty v \<Longrightarrow> Q m ty v) \<Longrightarrow> yields Q lx lx'"
  unfolding yields_def by blast

lemma yields_current: "yields P lx lx' \<Longrightarrow> lx_current lx \<le> lx_current lx' \<and> lx_source lx' = lx_source lx"
  by (auto simp: yields_def moves_def add_token_def)

text \<open>
  The expression sources inside an interpolated string are made of characters of the source and
  are shorter than it.
\<close>

definition inside :: "string \<Rightarrow> segment list \<Rightarrow> bool" where
  "inside source segs \<longleftrightarrow>
     list_all (\<lambda>s. is_expr s \<longrightarrow> set (segment_text s) \<subseteq> set source \<and> length (segment_text s) < length source) segs"

lemma inside_simps [simp]:
  "inside source []"
  "inside source (segs @ [Expr_Segment e]) \<longleftrightarrow> inside source segs \<and> set e \<subseteq> set source \<and> length e < length source"
  "inside source (flush_text segs parts) \<longleftrightarrow> inside source segs"
  by (simp_all add: inside_def flush_text_def)

lemma set_strip: "set (strip s) \<subseteq> set s" and length_strip: "length (strip s) \<le> length s"
proof -
  show "set (strip s) \<subseteq> set s"
    by (auto simp: strip_def dest!: set_dropWhileD)
  have "length (dropWhile py_isspace t) \<le> length t" for t
    by (rule length_dropWhile_le)
  from this [of "rev (dropWhile py_isspace s)"] this [of s] show "length (strip s) \<le> length s"
    by (simp add: strip_def)
qed

lemma peek_in_source: "\<not> is_at_end lx \<Longrightarrow> peek lx \<in> set (lx_source lx)"
  by (simp add: peek_def is_at_end_def)

lemma interpolation_loop_inside:
  "interpolation_loop lx depth in_string escaped expression = Inr (e, lx') \<Longrightarrow> set expression \<subseteq> set (lx_source lx)
   \<Longrightarrow> set e \<subseteq> set (lx_source lx) \<and> length e + lx_current lx < length expression + lx_current lx'
     \<and> lx_current lx' \<le> length (lx_source lx)"
proof (induction lx arbitrary: depth in_string escaped expression rule: measure_induct_rule [where f = remaining])
  case (less lx)
  note eq = less.prems(1) [unfolded interpolation_loop.simps [of lx depth in_string escaped expression]]
  have not_end: "\<not> is_at_end lx"
    using eq by (auto simp: lex_error_def)
  have more: "set e \<subseteq> set (lx_source lx) \<and> length e + lx_current lx < length expression + lx_current lx'
      \<and> lx_current lx' \<le> length (lx_source lx)"
    if "interpolation_loop (advance lx) d i es (expression @ [peek lx]) = Inr (e, lx')" for d i es
    using less.IH [OF remaining_advance [OF not_end] that] less.prems(2) peek_in_source [OF not_end] by simp
  have stop: "set e \<subseteq> set (lx_source lx) \<and> length e + lx_current lx < length expression + lx_current lx'
      \<and> lx_current lx' \<le> length (lx_source lx)"
    if "e = strip expression" "lx' = advance lx"
    using that set_strip [of expression] length_strip [of expression] less.prems(2) not_end
    by (auto simp: is_at_end_def)
  from eq not_end show ?case
    by (simp add: Let_def lex_error_def more stop split: if_split_asm)
qed

lemma interpolation_inside:
  assumes "interpolation_expression (advance lx) = Inr (e, lx')"
  shows "set e \<subseteq> set (lx_source lx) \<and> length e < length (lx_source lx)"
  using interpolation_loop_inside [OF assms [unfolded interpolation_expression_def]] by simp

definition string_token :: "lexer \<Rightarrow> TokenType \<Rightarrow> token_value \<Rightarrow> bool" where
  "string_token m ty v \<longleftrightarrow>
     (\<exists>s. ty = T_STRING \<and> v = Str_Value s)
   \<or> (\<exists>segs. ty = T_STRING_INTERP \<and> v = Segments_Value segs \<and> inside (lx_source m) segs)"

lemma string_token_intros [simp]:
  "string_token m T_STRING (Str_Value s)"
  "string_token m T_STRING_INTERP (Segments_Value segs) \<longleftrightarrow> inside (lx_source m) segs"
  by (simp_all add: string_token_def)

lemma yields_string_loop:
  "string_loop lx segments parts = Inr lx' \<Longrightarrow> inside (lx_source lx) segments \<Longrightarrow> yields string_token lx lx'"
proof (induction lx arbitrary: segments parts rule: measure_induct_rule [where f = remaining])
  case (less lx)
  have add: "yields string_token lx (add_token ty v (advance lx))"
    if "\<not> is_at_end lx" "string_token (advance lx) ty v" for ty v
    using that by (intro yields_add moves_advance)
  have one: "yields string_token lx lx'"
    if "\<not> is_at_end lx" "string_loop (advance lx) segments ps = Inr lx'" for ps
    using yields_trans [OF moves_advance [OF that(1)] less.IH [OF remaining_advance [OF that(1)] that(2)]] less.prems(2)
    by simp
  have two: "yields string_token lx lx'"
    if "\<not> is_at_end lx" "\<not> is_at_end (advance lx)" "string_loop (advance (advance lx)) segments ps = Inr lx'" for ps
    using less.IH [OF less_trans [OF remaining_advance remaining_advance, OF that(2,1)] that(3)] less.prems(2)
      moves_trans [OF moves_advance [OF that(1)] moves_advance [OF that(2)]]
    by (auto intro: yields_trans)
  have interp: "yields string_token lx lx'"
    if "\<not> is_at_end lx" "interpolation_expression (advance lx) = Inr (e, m)"
      "string_loop m (flush_text segments parts @ [Expr_Segment e]) [] = Inr lx'" for e m
  proof -
    have "moves lx m"
      using that by (blast intro: moves_advance_trans moves_interpolation)
    moreover from this have "lx_source m = lx_source lx"
      by (simp add: moves_def)
    ultimately show ?thesis
      using less.IH [OF remaining_moves [OF moves_interpolation [OF that(2)] that(1)] that(3)]
        interpolation_inside [OF that(2)] less.prems(2)
      by (auto intro: yields_trans)
  qed
  note eq = less.prems(1) [unfolded string_loop.simps [of lx segments parts]]
  from eq less.prems(2) show ?case
    by (auto simp: lex_error_def Let_def rbind_eq_Inr one two interp
             split: if_split_asm option.split_asm intro!: add)
qed

text \<open>The symbols: the texts and the types of the tokens that are not words or literals.\<close>

definition SYMBOLS :: "(string \<times> TokenType) list" where
  "SYMBOLS =
     map (\<lambda>(c, ty). ([c], ty)) SINGLE_CHAR_TOKENS
   @ [(''/'', T_SLASH), (''-'', T_MINUS), (''->'', T_ARROW), (''='', T_EQUAL), (''=>'', T_FAT_ARROW),
      (''=='', T_EQUAL_EQUAL), (''!'', T_BANG), (''!='', T_BANG_EQUAL), (''&&'', T_AMP_AMP),
      (''||'', T_PIPE_PIPE), (''<'', T_LESS), (''<='', T_LESS_EQUAL), (''>'', T_GREATER),
      (''>='', T_GREATER_EQUAL)]"

text \<open>
  The tokens with a text: a word, whose type is that of \<open>word_type\<close>, a symbol, or a comment.
\<close>

definition text_type :: "string \<Rightarrow> TokenType \<Rightarrow> bool" where
  "text_type s ty \<longleftrightarrow>
     list_all identifier_char s \<and> \<not> py_isdigit (hd s) \<and> ty = word_type s
   \<or> (s, ty) \<in> set SYMBOLS
   \<or> ty = T_COMMENT \<and> take 2 s = ''//''"

definition good_token :: "lexer \<Rightarrow> TokenType \<Rightarrow> token_value \<Rightarrow> bool" where
  "good_token m ty v \<longleftrightarrow>
     string_token m ty v
   \<or> ty = T_NUMBER \<and> (v = Float_Value (lexeme m) \<or> (\<exists>i. v = Int_Value i \<and> py_int (lexeme m) = Inr i))
   \<or> v = Str_Value (lexeme m) \<and> text_type (lexeme m) ty"

lemma lexeme_advance:
  "lx_start lx \<le> lx_current lx \<Longrightarrow> \<not> is_at_end lx \<Longrightarrow> lexeme (advance lx) = lexeme lx @ [peek lx]"
  by (simp add: lexeme_def is_at_end_def peek_def Suc_diff_le take_Suc_conv_app_nth)

lemma lexeme_moves:
  assumes "moves lx m" "lx_start lx \<le> lx_current lx"
  shows "\<exists>r. lexeme m = lexeme lx @ r"
proof -
  let ?s = "drop (lx_start lx) (lx_source lx)"
  have "lx_current m - lx_start lx = (lx_current lx - lx_start lx) + (lx_current m - lx_current lx)"
    using assms by (simp add: moves_def)
  then have "take (lx_current m - lx_start lx) ?s
      = take (lx_current lx - lx_start lx) ?s @ take (lx_current m - lx_current lx) (drop (lx_current lx - lx_start lx) ?s)"
    by (metis take_add)
  then have "lexeme m = lexeme lx @ take (lx_current m - lx_current lx) (drop (lx_current lx - lx_start lx) ?s)"
    using assms(1) by (simp add: moves_def lexeme_def)
  then show ?thesis by blast
qed

lemma lexeme_advance_while_weak:
  assumes "list_all (\<lambda>c. P c \<or> Q c) (lexeme lx)" "lx_start lx \<le> lx_current lx"
  shows "list_all (\<lambda>c. P c \<or> Q c) (lexeme (advance_while P lx))"
  using assms
proof (induction P lx rule: advance_while.induct)
  case (1 P lx)
  then show ?case by (subst advance_while.simps) (simp add: lexeme_advance)
qed

lemma lexeme_advance_while:
  "lx_start lx \<le> lx_current lx \<Longrightarrow> list_all P (lexeme lx) \<Longrightarrow> list_all P (lexeme (advance_while P lx))"
  using lexeme_advance_while_weak [where Q = "\<lambda>_. False"] by simp

lemma lexeme_start: "lx_start lx = lx_current lx \<Longrightarrow> lexeme lx = []"
  by (simp add: lexeme_def)


text \<open>One scan from a state whose start index is the current one.\<close>

lemma yields_one_or_two:
  assumes "lexeme lx = [c]" "lx_start lx \<le> lx_current lx" "s1 = [c]" "s2 = [c, second]"
    and "(s1, ty1) \<in> set SYMBOLS" "(s2, ty2) \<in> set SYMBOLS"
  shows "yields good_token lx (one_or_two lx second ty2 s2 ty1 s1)"
proof (cases "match_next lx second")
  case True
  then have "\<not> is_at_end lx" "peek lx = second"
    by (simp_all add: match_next_def peek_def)
  then show ?thesis
    using True assms
    by (auto simp: one_or_two_def good_token_def text_type_def lexeme_advance intro!: yields_add moves_advance)
next
  case False
  with assms show ?thesis
    by (auto simp: one_or_two_def good_token_def text_type_def intro!: yields_add)
qed

lemma yields_identifier:
  assumes "lexeme lx = [c]" "lx_start lx \<le> lx_current lx" "py_isalpha c \<or> c = CHR ''_''"
  shows "yields good_token lx (scan_identifier lx)"
proof -
  let ?m = "advance_while identifier_char lx"
  obtain r where r: "lexeme ?m = c # r"
    using lexeme_moves [OF moves_advance_while assms(2)] assms(1) by auto
  have "list_all identifier_char (lexeme ?m)"
    using assms by (intro lexeme_advance_while) (auto simp: identifier_char_def py_isalnum_def)
  moreover have "\<not> py_isdigit c"
    using assms(3) by (auto simp: py_isalpha_def py_isdigit_def is_digit_char_def cp_def)
  ultimately show ?thesis
    using r by (auto simp: scan_identifier_def Let_def good_token_def text_type_def
        intro!: yields_add moves_advance_while)
qed

lemma peek_next_not_end: "py_isdigit (peek_next lx) \<Longrightarrow> \<not> is_at_end lx"
  by (auto simp: peek_next_def is_at_end_def py_isdigit_def is_digit_char_def cp_def split: if_splits)

lemma yields_number:
  assumes "scan_number lx = Inr lx'"
  shows "yields good_token lx lx'"
proof -
  let ?m = "advance_while py_isdigit lx"
  have "moves lx (advance_while py_isdigit (advance ?m))" if "py_isdigit (peek_next ?m)"
    using that by (meson moves_advance moves_advance_while moves_trans peek_next_not_end)
  then show ?thesis
    using assms
    by (auto simp: scan_number_def Let_def rbind_eq_Inr good_token_def py_float_def
        intro!: yields_add moves_advance_while split: if_splits)
qed

lemma match_next_iff: "match_next lx c \<longleftrightarrow> \<not> is_at_end lx \<and> peek lx = c"
  by (auto simp: match_next_def peek_def)

lemma yields_comment:
  fixes P :: "char \<Rightarrow> bool"
  assumes "lexeme lx = ''/''" "lx_start lx \<le> lx_current lx" "match_next lx (CHR ''/'')"
  defines "m \<equiv> advance_while P (advance lx)"
  shows "yields good_token lx m" "yields good_token lx (add_token T_COMMENT (Str_Value (lexeme m)) m)"
proof -
  have moves: "moves lx m"
    using assms(3) by (simp add: m_def match_next_iff moves_advance_trans moves_advance_while)
  have "lexeme (advance lx) = ''//''"
    using assms by (simp add: lexeme_advance match_next_iff)
  then obtain r where "lexeme m = ''//'' @ r"
    using lexeme_moves [OF moves_advance_while, of "advance lx" P] assms(2) by (auto simp: m_def)
  then show "yields good_token lx (add_token T_COMMENT (Str_Value (lexeme m)) m)"
    using moves by (auto simp: good_token_def text_type_def intro!: yields_add)
  show "yields good_token lx m"
    using moves by (rule yields_move)
qed

lemma yields_symbol:
  assumes "moves lx m" "(lexeme m, ty) \<in> set SYMBOLS" "s = lexeme m"
  shows "yields good_token lx (add_token ty (Str_Value s) m)"
  using assms by (auto simp: good_token_def text_type_def intro!: yields_add)

lemma single_char_symbol: "map_of SINGLE_CHAR_TOKENS c = Some ty \<Longrightarrow> ([c], ty) \<in> set SYMBOLS"
  by (auto dest!: map_of_SomeD simp: SYMBOLS_def image_iff)

lemma yields_scan_token:
  assumes "scan_token lx = Inr lx'" "lx_start lx = lx_current lx" "\<not> is_at_end lx"
  shows "yields good_token (advance lx) lx'"
proof -
  let ?m = "advance lx"
  have lexeme: "lexeme ?m = [peek lx]"
    using assms by (simp add: lexeme_advance lexeme_start)
  have le: "lx_start ?m \<le> lx_current ?m"
    using assms by simp
  have two: "yields good_token ?m (add_token ty (Str_Value [c, d]) (advance ?m))"
    if "match_next ?m d" "peek lx = c" "([c, d], ty) \<in> set SYMBOLS" for c d ty
    using that by (intro yields_symbol moves_advance) (auto simp: match_next_iff lexeme_advance lexeme assms(2))
  have one: "yields good_token ?m (add_token ty (Str_Value [c]) ?m)"
    if "peek lx = c" "([c], ty) \<in> set SYMBOLS" for c ty
    using that by (intro yields_symbol) (auto simp: lexeme)
  have str: "yields good_token ?m lx'" if "scan_string ?m = Inr lx'"
    using yields_string_loop [OF that [unfolded scan_string_def] inside_simps(1)]
    by (rule yields_mono) (simp add: good_token_def)
  note scans = yields_one_or_two [OF lexeme le] yields_identifier [OF lexeme le] yields_number
    yields_comment [OF _ le] yields_move two str one [OF refl single_char_symbol] one
  show ?thesis
    using assms(1) unfolding scan_token_def Let_def
    by (simp split: if_split_asm option.split_asm)
       (auto simp: scans lexeme lex_error_def SYMBOLS_def single_char_symbol Let_def)
qed

section \<open>The main loop\<close>

definition begin_token :: "lexer \<Rightarrow> lexer" where
  "begin_token lx =
     lx\<lparr>lx_start := lx_current lx, lx_start_line := lx_line lx, lx_start_column := lx_column lx\<rparr>"

lemma begin_token_frame [simp]:
  "lx_source (begin_token lx) = lx_source lx" "lx_current (begin_token lx) = lx_current lx"
  "lx_start (begin_token lx) = lx_current lx" "lx_tokens (begin_token lx) = lx_tokens lx"
  "lx_keep_comments (begin_token lx) = lx_keep_comments lx"
  "lx_start_line (begin_token lx) = lx_line lx" "lx_start_column (begin_token lx) = lx_column lx"
  "is_at_end (begin_token lx) = is_at_end lx" "placed (begin_token lx) = placed lx"
  by (simp_all add: begin_token_def is_at_end_def placed_def)

lemma scan_token_moves_on:
  assumes "scan_token (begin_token lx) = Inr lx'" "\<not> is_at_end lx"
  shows "lx_current lx < lx_current lx' \<and> lx_source lx' = lx_source lx"
  using yields_current [OF yields_scan_token [OF assms(1)]] assms(2) by simp

function tokenize_loop :: "lexer \<Rightarrow> lexer result" where
  "tokenize_loop lx =
     (if is_at_end lx then Inr lx else rbind (scan_token (begin_token lx)) tokenize_loop)"
  by pat_completeness auto
termination
  by (relation "measure remaining")
     (auto simp: remaining_def is_at_end_def dest!: scan_token_moves_on)

declare tokenize_loop.simps [simp del]

text \<open>\<open>tokenize(source, keep_comments)\<close>: the loop, then the end marker.\<close>

definition eof_token :: "lexer \<Rightarrow> token" where
  "eof_token lx = \<lparr>tk_type = T_EOF, tk_value = No_Value, tk_line = lx_line lx, tk_column = lx_column lx\<rparr>"

definition tokenize :: "string \<Rightarrow> bool \<Rightarrow> token list result" where
  "tokenize source keep_comments =
     rbind (tokenize_loop (new_lexer source keep_comments)) (\<lambda>lx. Inr (lx_tokens lx @ [eof_token lx]))"

section \<open>What the tokens are\<close>

text \<open>
  \<open>token_at source t i\<close>: the token stands at index \<open>i\<close> of the source. It carries the
  position of that index, and a token with a text (a word, a symbol, a comment) or a number is the
  slice of the source found there.
\<close>

definition slice_at :: "string \<Rightarrow> nat \<Rightarrow> string \<Rightarrow> bool" where
  "slice_at source i s \<longleftrightarrow> s \<noteq> [] \<and> take (length s) (drop i source) = s"

definition token_meaning :: "string \<Rightarrow> nat \<Rightarrow> TokenType \<Rightarrow> token_value \<Rightarrow> bool" where
  "token_meaning source i ty v = (case v of
     No_Value \<Rightarrow> ty = T_EOF \<and> i = length source
   | Segments_Value segs \<Rightarrow> ty = T_STRING_INTERP \<and> inside source segs
   | Int_Value n \<Rightarrow> ty = T_NUMBER \<and> (\<exists>s. slice_at source i s \<and> py_int s = Inr n)
   | Float_Value s \<Rightarrow> ty = T_NUMBER \<and> slice_at source i s
   | Str_Value s \<Rightarrow> ty = T_STRING \<or> slice_at source i s \<and> text_type s ty)"

definition token_at :: "string \<Rightarrow> token \<Rightarrow> nat \<Rightarrow> bool" where
  "token_at source t i \<longleftrightarrow>
     position_of (take i source) = (tk_line t, tk_column t)
   \<and> token_meaning source i (tk_type t) (tk_value t)"

text \<open>The invariant of the main loop.\<close>

definition lexed :: "lexer \<Rightarrow> bool" where
  "lexed lx \<longleftrightarrow> placed lx \<and> T_EOF \<notin> tk_type ` set (lx_tokens lx)
     \<and> (\<exists>is. sorted_wrt (<) is \<and> list_all (\<lambda>i. i < lx_current lx) is
          \<and> list_all2 (token_at (lx_source lx)) (lx_tokens lx) is)"

lemma word_type_cases: "word_type s \<in> {T_TYPE, T_IDENTIFIER} \<or> word_type s \<in> snd ` set KEYWORDS"
proof (cases "map_of KEYWORDS s")
  case (Some ty)
  then have "(s, ty) \<in> set KEYWORDS" by (rule map_of_SomeD)
  then show ?thesis using Some by (force simp: word_type_def)
qed (simp add: word_type_def)

lemma word_type_not [simp]: "word_type s \<noteq> T_EOF" "word_type s \<noteq> T_COMMENT" "word_type s \<noteq> T_STRING"
  using word_type_cases [of s] by (auto simp: KEYWORDS_def)

lemma good_token_not_eof: "good_token m ty v \<Longrightarrow> ty \<noteq> T_EOF"
  by (auto simp: word_type_not [symmetric] good_token_def string_token_def text_type_def SYMBOLS_def SINGLE_CHAR_TOKENS_def)

lemma good_token_meaning:
  assumes "good_token m ty v" "lexeme m \<noteq> []"
  shows "token_meaning (lx_source m) (lx_start m) ty v"
proof -
  have "slice_at (lx_source m) (lx_start m) (lexeme m)"
    using assms(2) by (simp add: slice_at_def lexeme_def min_def)
  with assms(1) show ?thesis
    by (auto simp: good_token_def string_token_def token_meaning_def)
qed

lemma lexed_scan_token:
  assumes "scan_token (begin_token lx) = Inr lx'" "\<not> is_at_end lx" "lexed lx"
  shows "lexed lx' \<and> lx_source lx' = lx_source lx"
proof -
  let ?b = "begin_token lx"
  have yields: "yields good_token (advance ?b) lx'"
    using yields_scan_token [OF assms(1)] assms(2) by simp
  then obtain m where m: "moves (advance ?b) m" "lx' = m \<or> (\<exists>ty v. good_token m ty v \<and> lx' = add_token ty v m)"
    by (auto simp: yields_def)
  have b: "moves ?b m"
    using m(1) assms(2) by (simp add: moves_advance_trans)
  have "\<exists>r. lexeme m = lexeme (advance ?b) @ r"
    using m(1) by (rule lexeme_moves) simp
  then have ne: "lexeme m \<noteq> []"
    using assms(2) by (auto simp: lexeme_advance)
  obtain "is" where is': "sorted_wrt (<) is" "list_all (\<lambda>i. i < lx_current lx) is"
      "list_all2 (token_at (lx_source lx)) (lx_tokens lx) is"
    and lexed: "placed lx" "T_EOF \<notin> tk_type ` set (lx_tokens lx)"
    using assms(3) by (auto simp: lexed_def)
  have frame: "lx_source m = lx_source lx" "lx_tokens m = lx_tokens lx" "placed m" "lx_start m = lx_current lx"
    "lx_start_line m = lx_line lx" "lx_start_column m = lx_column lx" "lx_current lx < lx_current m"
    using m(1) b lexed(1) by (auto simp: moves_def)
  have here: "position_of (take (lx_current lx) (lx_source lx)) = (lx_line lx, lx_column lx)"
    using lexed(1) by (simp add: placed_def)
  have before: "list_all (\<lambda>i. i < lx_current m) is"
    using is'(2) frame(7) by (auto simp: list_all_iff)
  from m(2) show ?thesis
  proof (elim disjE exE conjE)
    assume "lx' = m"
    then show ?thesis
      using frame is' before lexed by (auto simp: lexed_def)
  next
    fix ty v
    assume good: "good_token m ty v" and lx': "lx' = add_token ty v m"
    have "token_meaning (lx_source lx) (lx_current lx) ty v"
      using good_token_meaning [OF good ne] frame by simp
    moreover have "placed lx'"
      using frame(3) by (simp add: lx' add_token_def placed_def)
    moreover have "sorted_wrt (<) (is @ [lx_current lx])"
      using is' by (auto simp: sorted_wrt_append list_all_iff)
    ultimately show ?thesis
      using frame is' before lexed good_token_not_eof [OF good] here
      by (auto simp: lexed_def lx' add_token_def token_at_def
          intro!: list_all2_appendI exI [of _ "is @ [lx_current lx]"])
  qed
qed

lemma lexed_tokenize_loop:
  "tokenize_loop lx = Inr lx' \<Longrightarrow> lexed lx \<Longrightarrow> lexed lx' \<and> is_at_end lx' \<and> lx_source lx' = lx_source lx"
proof (induction lx rule: tokenize_loop.induct)
  case (1 lx)
  show ?case
  proof (cases "is_at_end lx")
    case True
    with 1 show ?thesis by (simp add: tokenize_loop.simps [of lx])
  next
    case False
    then obtain lx1 where lx1: "scan_token (begin_token lx) = Inr lx1" "tokenize_loop lx1 = Inr lx'"
      using "1.prems"(1) by (auto simp: tokenize_loop.simps [of lx] rbind_eq_Inr)
    then show ?thesis
      using "1.IH" [OF False lx1(1) lx1(2)] lexed_scan_token [OF lx1(1) False "1.prems"(2)] by auto
  qed
qed

lemma lexed_new [simp]: "lexed (new_lexer source keep_comments)"
  by (simp add: lexed_def new_lexer_def placed_def position_of_def)

lemma tokenize_lexed:
  assumes "tokenize source keep_comments = Inr ts"
  obtains body eof "is" where "ts = body @ [eof]" "tk_type eof = T_EOF" "T_EOF \<notin> tk_type ` set body"
    "sorted_wrt (<) is" "list_all2 (token_at source) ts is"
proof -
  obtain lx where lx: "tokenize_loop (new_lexer source keep_comments) = Inr lx" "ts = lx_tokens lx @ [eof_token lx]"
    using assms by (auto simp: tokenize_def rbind_eq_Inr)
  have "lexed lx" "is_at_end lx" "lx_source lx = source"
    using lexed_tokenize_loop [OF lx(1) lexed_new] by (auto simp: new_lexer_def)
  then obtain "is" where is': "sorted_wrt (<) is" "list_all (\<lambda>i. i < length source) is"
      "list_all2 (token_at source) (lx_tokens lx) is" "T_EOF \<notin> tk_type ` set (lx_tokens lx)"
    and pos: "position_of source = (lx_line lx, lx_column lx)"
    by (auto simp: lexed_def is_at_end_def placed_def)
  have "token_at source (eof_token lx) (length source)"
    using pos by (simp add: token_at_def eof_token_def token_meaning_def)
  then have "list_all2 (token_at source) ts (is @ [length source])"
    using is'(3) lx(2) by (auto intro: list_all2_appendI)
  moreover have "sorted_wrt (<) (is @ [length source])"
    using is'(1,2) by (auto simp: sorted_wrt_append list_all_iff)
  ultimately show thesis
    using that [of "lx_tokens lx" "eof_token lx"] lx(2) is'(4) by (simp add: eof_token_def)
qed



section \<open>Reserved words\<close>

lemma symbols_not_keywords:
  "list_all (\<lambda>(s, ty). map_of KEYWORDS s = None \<and> ty \<notin> snd ` set KEYWORDS) SYMBOLS"
  by code_simp

lemma text_type_keyword:
  assumes "text_type s ty" "ty \<noteq> T_COMMENT"
  shows "(map_of KEYWORDS s = Some ty' \<longrightarrow> ty = ty') \<and> (ty \<in> snd ` set KEYWORDS \<longrightarrow> (s, ty) \<in> set KEYWORDS)"
proof -
  consider "ty = word_type s" | "(s, ty) \<in> set SYMBOLS"
    using assms by (auto simp: text_type_def)
  then show ?thesis
  proof cases
    case 1
    moreover have "word_type s \<notin> snd ` set KEYWORDS" if "map_of KEYWORDS s = None"
      using that by (simp add: word_type_def) (simp add: KEYWORDS_def)
    ultimately show ?thesis
      by (cases "map_of KEYWORDS s") (auto simp: word_type_def dest: map_of_SomeD)
  next
    case 2
    then have "map_of KEYWORDS s = None \<and> ty \<notin> snd ` set KEYWORDS"
      using symbols_not_keywords by (auto simp: list_all_iff)
    then show ?thesis by simp
  qed
qed

lemma token_at_text:
  "token_at source t i \<Longrightarrow> tk_value t = Str_Value s \<Longrightarrow> tk_type t \<noteq> T_STRING \<Longrightarrow> text_type s (tk_type t)"
  by (simp add: token_at_def token_meaning_def)

text \<open>
  The reserved words never degrade into names, and nothing else is taken for one: in a
  returned token list, a token outside strings and comments whose text is a keyword has the type of
  that keyword, and a token of a keyword type has the text of that keyword.
\<close>

theorem reserved_words_are_reserved:
  assumes "tokenize source keep_comments = Inr ts" "t \<in> set ts"
    and "tk_value t = Str_Value s" "tk_type t \<noteq> T_STRING" "tk_type t \<noteq> T_COMMENT"
  shows "(map_of KEYWORDS s = Some ty \<longrightarrow> tk_type t = ty)
       \<and> (tk_type t \<in> snd ` set KEYWORDS \<longrightarrow> (s, tk_type t) \<in> set KEYWORDS)"
proof -
  obtain "is" where "list_all2 (token_at source) ts is"
    using tokenize_lexed [OF assms(1)] by metis
  then obtain i where "token_at source t i"
    using assms(2) by (auto simp: list_all2_conv_all_nth in_set_conv_nth)
  then have "text_type s (tk_type t)"
    using assms(3,4) by (rule token_at_text)
  then show ?thesis
    using assms(5) by (rule text_type_keyword)
qed

theorem reserved_words_are_reserved_witness:
  "\<exists>ts t s. tokenize ''ka door;'' False = Inr ts \<and> t \<in> set ts \<and> tk_value t = Str_Value s
     \<and> (map_of KEYWORDS s = Some T_KA \<longrightarrow> tk_type t = T_KA)"
proof -
  let ?t = "\<lparr>tk_type = T_KA, tk_value = Str_Value ''ka'', tk_line = 1, tk_column = 1\<rparr>"
  have "(case tokenize ''ka door;'' False of Inl _ \<Rightarrow> False | Inr ts \<Rightarrow> hd ts = ?t \<and> ts \<noteq> [])"
    by code_simp
  then obtain ts where "tokenize ''ka door;'' False = Inr ts" "?t \<in> set ts"
    by (auto split: sum.splits) (metis list.set_sel(1))
  with reserved_words_are_reserved [of "''ka door;''" False ts ?t "''ka''" T_KA] show ?thesis
    by fastforce
qed

section \<open>Comments\<close>

text \<open>The scanner without comments: what \<open>keep_comments=False\<close> makes of a state.\<close>

definition drop_comments :: "token list \<Rightarrow> token list" where
  "drop_comments ts = filter (\<lambda>t. tk_type t \<noteq> T_COMMENT) ts"

definition quiet :: "lexer \<Rightarrow> lexer" where
  "quiet lx = lx\<lparr>lx_keep_comments := False, lx_tokens := drop_comments (lx_tokens lx)\<rparr>"

definition quietly :: "lexer result \<Rightarrow> lexer result" where
  "quietly m = rbind m (\<lambda>lx. Inr (quiet lx))"

lemma quietly_simps [simp]: "quietly (Inr lx) = Inr (quiet lx)" "quietly (Inl e) = Inl e"
  by (simp_all add: quietly_def)

lemma quiet_frame [simp]:
  "lx_source (quiet lx) = lx_source lx" "lx_current (quiet lx) = lx_current lx"
  "lx_start (quiet lx) = lx_start lx" "lx_line (quiet lx) = lx_line lx" "lx_column (quiet lx) = lx_column lx"
  "lx_start_line (quiet lx) = lx_start_line lx" "lx_start_column (quiet lx) = lx_start_column lx"
  "\<not> lx_keep_comments (quiet lx)" "lx_tokens (quiet lx) = drop_comments (lx_tokens lx)"
  "is_at_end (quiet lx) = is_at_end lx" "peek (quiet lx) = peek lx" "peek_next (quiet lx) = peek_next lx"
  "match_next (quiet lx) c = match_next lx c" "lexeme (quiet lx) = lexeme lx"
  "lex_error (quiet lx) m as = lex_error lx m as"
  by (simp_all add: quiet_def is_at_end_def peek_def peek_next_def match_next_def lexeme_def lex_error_def)

lemma quiet_advance: "advance (quiet lx) = quiet (advance lx)"
  unfolding advance_def quiet_frame by (simp add: quiet_def)

lemma quiet_begin_token: "begin_token (quiet lx) = quiet (begin_token lx)"
  by (simp add: begin_token_def quiet_def)

lemma quiet_add_token: "ty \<noteq> T_COMMENT \<Longrightarrow> quiet (add_token ty v lx) = add_token ty v (quiet lx)"
  by (simp add: add_token_def quiet_def drop_comments_def)

lemma quiet_add_comment: "quiet (add_token T_COMMENT v lx) = quiet lx"
  by (simp add: add_token_def quiet_def drop_comments_def)

lemma quiet_advance_while: "advance_while P (quiet lx) = quiet (advance_while P lx)"
proof (induction P lx rule: advance_while.induct)
  case (1 P lx)
  then show ?case
    by (simp add: advance_while.simps [of P lx] advance_while.simps [of P "quiet lx"] quiet_advance)
qed

lemma quiet_interpolation_loop:
  "interpolation_loop (quiet lx) depth in_string escaped expression
   = rbind (interpolation_loop lx depth in_string escaped expression) (\<lambda>(e, lx'). Inr (e, quiet lx'))"
proof (induction lx arbitrary: depth in_string escaped expression rule: measure_induct_rule [where f = remaining])
  case (less lx)
  have more: "interpolation_loop (quiet (advance lx)) d i es x
      = rbind (interpolation_loop (advance lx) d i es x) (\<lambda>(e, lx'). Inr (e, quiet lx'))"
    if "\<not> is_at_end lx" for d i es x
    using less.IH [OF remaining_advance [OF that]] .
  show ?case
    unfolding interpolation_loop.simps [of lx depth] interpolation_loop.simps [of "quiet lx" depth]
    by (simp add: Let_def quiet_advance more) (simp add: lex_error_def)
qed

lemma quiet_string_loop: "string_loop (quiet lx) segments parts = quietly (string_loop lx segments parts)"
proof (induction lx arbitrary: segments parts rule: measure_induct_rule [where f = remaining])
  case (less lx)
  have one: "string_loop (quiet (advance lx)) segs ps = quietly (string_loop (advance lx) segs ps)"
    if "\<not> is_at_end lx" for segs ps
    using less.IH [OF remaining_advance [OF that]] .
  have two: "string_loop (quiet (advance (advance lx))) segs ps = quietly (string_loop (advance (advance lx)) segs ps)"
    if "\<not> is_at_end lx" "\<not> is_at_end (advance lx)" for segs ps
    using less.IH [OF less_trans [OF remaining_advance remaining_advance, OF that(2,1)]] .
  have interp: "(if e = [] then lex_error (quiet m) msg [] else string_loop (quiet m) segs ps)
      = quietly (if e = [] then lex_error m msg [] else string_loop m segs ps)"
    if "interpolation_expression (advance lx) = Inr (e, m)" "\<not> is_at_end lx" for e m segs ps msg
    using less.IH [OF remaining_moves [OF moves_interpolation [OF that(1)] that(2)]]
    by (simp add: lex_error_def)
  have expr: "interpolation_expression (quiet (advance lx))
      = rbind (interpolation_expression (advance lx)) (\<lambda>(e, lx'). Inr (e, quiet lx'))"
    by (simp add: interpolation_expression_def quiet_interpolation_loop)
  show ?case
    unfolding string_loop.simps [of lx segments] string_loop.simps [of "quiet lx" segments]
    by (cases "interpolation_expression (advance lx)")
       (auto simp: Let_def quiet_advance quiet_add_token one two expr interp lex_error_def split: option.split)
qed

lemma quiet_scan_number: "scan_number (quiet lx) = quietly (scan_number lx)"
  by (simp add: scan_number_def Let_def quiet_advance_while quiet_advance py_int_def py_float_def quiet_add_token)

lemma quiet_one_or_two:
  "ty1 \<noteq> T_COMMENT \<Longrightarrow> ty2 \<noteq> T_COMMENT
   \<Longrightarrow> one_or_two (quiet lx) c ty2 s2 ty1 s1 = quiet (one_or_two lx c ty2 s2 ty1 s1)"
  by (simp add: one_or_two_def quiet_add_token quiet_advance)

lemma single_char_not_comment: "map_of SINGLE_CHAR_TOKENS c = Some ty \<Longrightarrow> ty \<noteq> T_COMMENT"
  by (drule map_of_SomeD) (auto simp: SINGLE_CHAR_TOKENS_def)

lemma quiet_scan_token: "scan_token (quiet lx) = quietly (scan_token lx)"
  unfolding scan_token_def Let_def
  by (simp add: quiet_advance quiet_advance_while quiet_add_token quiet_add_comment quiet_scan_number
      quiet_one_or_two scan_string_def quiet_string_loop scan_identifier_def Let_def
      single_char_not_comment split: option.split)
     (simp add: lex_error_def)

lemma quiet_tokenize_loop: "tokenize_loop (quiet lx) = quietly (tokenize_loop lx)"
proof (induction lx rule: tokenize_loop.induct)
  case (1 lx)
  then show ?case
    by (cases "scan_token (begin_token lx)")
       (simp_all add: tokenize_loop.simps [of lx] tokenize_loop.simps [of "quiet lx"]
         quiet_begin_token quiet_scan_token)
qed

text \<open>
  Comments never influence the program: scanning without comments gives the tokens of
  scanning with them less the comment tokens, positions included, and fails with the same error.
\<close>

theorem comments_are_transparent:
  "tokenize source False = rbind (tokenize source True) (\<lambda>ts. Inr (drop_comments ts))"
proof -
  have "tokenize_loop (new_lexer source False) = quietly (tokenize_loop (new_lexer source True))"
    using quiet_tokenize_loop [of "new_lexer source True"]
    by (simp add: quiet_def new_lexer_def drop_comments_def)
  then show ?thesis
    by (cases "tokenize_loop (new_lexer source True)")
       (simp_all add: tokenize_def eof_token_def drop_comments_def)
qed

section \<open>Errors\<close>

text \<open>
  The only error outside \<open>LexerError\<close> is the \<open>ValueError\<close> of \<open>int\<close> or
  \<open>float\<close> on a number that has a superscript digit or too many digits.
\<close>

definition awkward_number :: "string \<Rightarrow> bool" where
  "awkward_number source \<longleftrightarrow> list_ex (\<lambda>c. cp c \<in> {178, 179, 185}) source \<or> 4300 < length source"

lemma lexeme_in_source: "set (lexeme lx) \<subseteq> set (lx_source lx)" "length (lexeme lx) \<le> length (lx_source lx)"
  by (auto simp: lexeme_def dest: in_set_takeD in_set_dropD)

lemma exc_of_lex_error: "lex_error lx m as = Inl e \<Longrightarrow> exc_of e = LexerError"
  by (auto simp: lex_error_def)

lemma interpolation_loop_error:
  "interpolation_loop lx depth in_string escaped expression = Inl e \<Longrightarrow> exc_of e = LexerError"
proof (induction lx arbitrary: depth in_string escaped expression rule: measure_induct_rule [where f = remaining])
  case (less lx)
  have more: "exc_of e = LexerError"
    if "\<not> is_at_end lx" "interpolation_loop (advance lx) d i es x = Inl e" for d i es x
    using less.IH [OF remaining_advance [OF that(1)] that(2)] .
  from less.prems [unfolded interpolation_loop.simps [of lx depth in_string escaped expression]]
  show ?case
    by (simp add: Let_def more exc_of_lex_error split: if_split_asm)
qed

lemma string_loop_error: "string_loop lx segments parts = Inl e \<Longrightarrow> exc_of e = LexerError"
proof (induction lx arbitrary: segments parts rule: measure_induct_rule [where f = remaining])
  case (less lx)
  have one: "exc_of e = LexerError" if "\<not> is_at_end lx" "string_loop (advance lx) segs ps = Inl e" for segs ps
    using less.IH [OF remaining_advance [OF that(1)] that(2)] .
  have two: "exc_of e = LexerError"
    if "\<not> is_at_end lx" "\<not> is_at_end (advance lx)" "string_loop (advance (advance lx)) segs ps = Inl e" for segs ps
    using less.IH [OF less_trans [OF remaining_advance remaining_advance, OF that(2,1)] that(3)] .
  have interp: "exc_of e = LexerError"
    if "\<not> is_at_end lx" "interpolation_expression (advance lx) = Inr (x, m)" "string_loop m segs ps = Inl e"
    for x m segs ps
    using less.IH [OF remaining_moves [OF moves_interpolation [OF that(2)] that(1)] that(3)] .
  have expr: "exc_of e = LexerError" if "interpolation_expression lx = Inl e" for lx
    using that by (simp add: interpolation_expression_def interpolation_loop_error)
  from less.prems [unfolded string_loop.simps [of lx segments parts]] show ?case
    by (cases "interpolation_expression (advance lx)")
       (auto simp: Let_def one two interp expr exc_of_lex_error split: if_split_asm option.split_asm)
qed

lemma py_isdigit_plain: "py_isdigit c \<Longrightarrow> cp c \<notin> {178, 179, 185} \<Longrightarrow> is_digit_char c"
  by (simp add: py_isdigit_def)

lemma plain_lexeme:
  assumes "\<not> awkward_number (lx_source lx)" "list_all (\<lambda>c. py_isdigit c \<or> c = CHR ''.'') (lexeme lx)"
  shows "list_all (\<lambda>c. is_digit_char c \<or> c = CHR ''.'') (lexeme lx)"
    and "list_all py_isdigit (lexeme lx) \<Longrightarrow> list_all is_digit_char (lexeme lx)"
    and "length (lexeme lx) \<le> 4300"
proof -
  have "cp c \<notin> {178, 179, 185}" if "c \<in> set (lexeme lx)" for c
    using that assms(1) lexeme_in_source(1) by (auto simp: awkward_number_def list_ex_iff)
  then show "list_all (\<lambda>c. is_digit_char c \<or> c = CHR ''.'') (lexeme lx)"
    "list_all py_isdigit (lexeme lx) \<Longrightarrow> list_all is_digit_char (lexeme lx)"
    using assms(2) py_isdigit_plain by (auto simp: list_all_iff)
  show "length (lexeme lx) \<le> 4300"
    using assms(1) lexeme_in_source(2) [of lx] by (simp add: awkward_number_def)
qed

lemma scan_number_error:
  assumes "scan_number lx = Inl e" "lexeme lx = [c]" "py_isdigit c" "lx_start lx \<le> lx_current lx"
  shows "exc_of e = ValueError \<and> awkward_number (lx_source lx)"
proof -
  let ?m = "advance_while py_isdigit lx" and ?num = "\<lambda>c. py_isdigit c \<or> c = CHR ''.''"
  let ?f = "advance_while py_isdigit (advance ?m)"
  have moves: "moves lx ?m" and le: "lx_start ?m \<le> lx_current ?m"
    using moves_advance_while [of lx py_isdigit] assms(4) by (auto simp: moves_def)
  have int: "list_all py_isdigit (lexeme ?m)"
    using assms by (intro lexeme_advance_while) auto
  have float: "list_all ?num (lexeme ?f)" if "peek ?m = CHR ''.''" "\<not> is_at_end ?m"
  proof -
    have "list_all ?num (lexeme (advance ?m))"
      using that int le by (auto simp: lexeme_advance list_all_iff)
    moreover have "lx_start (advance ?m) \<le> lx_current (advance ?m)"
      using le by simp
    ultimately show ?thesis
      by (rule lexeme_advance_while_weak)
  qed
  have source: "lx_source ?m = lx_source lx" "lx_source ?f = lx_source lx"
    using moves moves_advance_while [of "advance ?m" py_isdigit] by (auto simp: moves_def)
  have "awkward_number (lx_source lx)"
  proof (rule ccontr)
    assume plain: "\<not> awkward_number (lx_source lx)"
    have "is_ok (py_int (lexeme ?m))"
      using plain_lexeme(2,3) [of ?m] int plain source by (auto simp: py_int_def list_all_iff)
    moreover have "is_ok (py_float (lexeme ?f))" if "peek ?m = CHR ''.''" "py_isdigit (peek_next ?m)"
      using plain_lexeme(1) [of ?f] float [OF that(1) peek_next_not_end [OF that(2)]] plain source
      by (auto simp: py_float_def)
    ultimately show False
      using assms(1) by (auto simp: scan_number_def Let_def is_ok_iff split: if_splits)
  qed
  moreover have "exc_of e = ValueError"
    using assms(1)
    by (auto simp: scan_number_def Let_def py_int_def py_float_def split: if_splits)
  ultimately show ?thesis by simp
qed

lemma scan_token_error:
  assumes "scan_token lx = Inl e" "lx_start lx = lx_current lx" "\<not> is_at_end lx"
  shows "exc_of e = LexerError \<or> exc_of e = ValueError \<and> awkward_number (lx_source lx)"
proof (cases "py_isdigit (peek lx) \<and> scan_number (advance lx) = Inl e")
  case True
  have "lexeme (advance lx) = [peek lx]"
    using assms by (simp add: lexeme_advance lexeme_start)
  then show ?thesis
    using True scan_number_error [of "advance lx" e] assms(2) by simp
next
  case False
  have "exc_of e = LexerError"
    using assms(1) False unfolding scan_token_def Let_def
    by (simp split: if_split_asm option.split_asm)
       (auto simp: scan_string_def dest: exc_of_lex_error string_loop_error)
  then show ?thesis ..
qed

lemma tokenize_loop_error:
  "tokenize_loop lx = Inl e \<Longrightarrow> exc_of e = LexerError \<or> exc_of e = ValueError \<and> awkward_number (lx_source lx)"
proof (induction lx rule: tokenize_loop.induct)
  case (1 lx)
  then have end': "\<not> is_at_end lx"
    by (auto simp: tokenize_loop.simps [of lx])
  show ?case
  proof (cases "scan_token (begin_token lx)")
    case (Inl e')
    then show ?thesis
      using scan_token_error [OF Inl] "1.prems" end' by (simp add: tokenize_loop.simps [of lx])
  next
    case (Inr lx1)
    then show ?thesis
      using "1.IH" [OF end' Inr] "1.prems" end' scan_token_moves_on [OF Inr end']
      by (simp add: tokenize_loop.simps [of lx])
  qed
qed

lemma tokenize_error:
  assumes "tokenize source keep_comments = Inl e"
  shows "exc_of e = LexerError \<or> exc_of e = ValueError \<and> awkward_number source"
  using tokenize_loop_error [of "new_lexer source keep_comments" e] assms
  by (cases "tokenize_loop (new_lexer source keep_comments)") (simp_all add: tokenize_def new_lexer_def)

text \<open>
  The error contract of the scanner, with its one hole: a source is rejected by a
  \<open>LexerError\<close>, except that a source with a superscript digit (which \<open>str.isdigit\<close>
  accepts and \<open>int\<close> does not) or of more than 4300 characters may end in a
  \<open>ValueError\<close>.
\<close>

theorem lexer_error_contract:
  assumes "tokenize source keep_comments = Inl e"
  shows "exc_of e = LexerError \<or> exc_of e = ValueError \<and> awkward_number source"
  using assms by (rule tokenize_error)

theorem lexer_error_contract_witness:
  "\<exists>e. tokenize ''1 & 2'' False = Inl e \<and> exc_of e = LexerError"
proof -
  have "\<not> is_ok (tokenize ''1 & 2'' False) \<and> \<not> awkward_number ''1 & 2''" by code_simp
  then obtain e where "tokenize ''1 & 2'' False = Inl e" "\<not> awkward_number ''1 & 2''"
    by (auto simp: is_ok_def split: sum.splits)
  with lexer_error_contract [OF this(1)] show ?thesis by blast
qed

text \<open>
  The hole is real: the one-character source made of a superscript two raises the
  \<open>ValueError\<close> of \<open>int\<close> out of the scanner, whatever the comment mode.
\<close>

theorem superscript_digit_escapes_lexer_error:
  "tokenize [CHR 0xB2] keep_comments
   = raisef ValueError ''invalid literal for int() with base 10: {!r}'' [[CHR 0xB2]]"
proof -
  have "tokenize [CHR 0xB2] True = raisef ValueError ''invalid literal for int() with base 10: {!r}'' [[CHR 0xB2]]"
    "tokenize [CHR 0xB2] False = raisef ValueError ''invalid literal for int() with base 10: {!r}'' [[CHR 0xB2]]"
    by code_simp+
  then show ?thesis by (cases keep_comments) simp_all
qed

end
