(* ===== verification/Universe_Kernel.thy ===== *)
theory Universe_Kernel
  imports Sealing "HOL-Library.Product_Lexorder"
begin

text \<open>
  The Universe kernel (\<open>koschei/universe_kernel_v1.py\<close>), the composition rules between
  sigils (\<open>koschei/universe_interactions_v1.py\<close>) and the activation engine
  (\<open>koschei/universe_activation_engine_v1.py\<close>): the static tables of the five sigils and
  their interactions, and the three compilers that turn a sequence of sigils into a plan. The
  lemmas say exactly which sequences compile, that the later compilers add no failure of
  their own, and how the activation schedule is ordered.
\<close>

section \<open>Sigils and universe plans\<close>

record sigilspec =
  spec_sigil :: string
  spec_semantic_domain :: string
  spec_invariants :: "string list"
  spec_activates :: "string list"
  spec_obligations :: "string list"
  spec_may_grant_authority :: bool
  spec_fail_closed :: bool

record universe_plan =
  plan_sigils :: "string list"
  plan_semantic_domains :: "string list"
  plan_activated_modules :: "string list"
  plan_obligations :: "string list"
  plan_digest :: string

definition SIGILS :: "(string \<times> sigilspec) list" where
  "SIGILS =
    [(''ka'', \<lparr>spec_sigil = ''ka'',
        spec_semantic_domain = ''genesis.identity.integrity'',
        spec_invariants =
          [''identity-before-authority'',
           ''zero-ambient-authority-at-genesis'',
           ''source-and-object-integrity-before-execution'',
           ''canonical-state-has-one-identity'',
           ''unverified-input-cannot-become-trust-anchor''],
        spec_activates = [''koschei.integrity'', ''koschei.modules'', ''koschei.mir''],
        spec_obligations =
          [''establish-canonical-identity'', ''seal-integrity-lineage'', ''deny-ambient-authority''],
        spec_may_grant_authority = False, spec_fail_closed = True\<rparr>),
     (''vor'', \<lparr>spec_sigil = ''vor'',
        spec_semantic_domain = ''authority.narrowing.effects'',
        spec_invariants =
          [''authority-must-be-explicit'',
           ''root-authority-must-narrow-before-io'',
           ''narrowed-authority-cannot-reexpand'',
           ''effect-identity-must-match-capability-operation'',
           ''runtime-authority-surface-must-match-canonical-contract''],
        spec_activates =
          [''koschei.capability_effect_contract_v1'',
           ''koschei.effect_contracts_v1'',
           ''koschei.effects'',
           ''koschei.runtime_capability_registry_v1'',
           ''koschei.runtime_boot_v1''],
        spec_obligations =
          [''derive-least-authority'', ''seal-effect-contract'',
           ''validate-runtime-before-authority-injection''],
        spec_may_grant_authority = True, spec_fail_closed = True\<rparr>),
     (''shi'', \<lparr>spec_sigil = ''shi'',
        spec_semantic_domain = ''observation.evidence.attestation'',
        spec_invariants =
          [''claim-without-evidence-is-not-final'',
           ''writer-cannot-self-attest-final-effect'',
           ''independent-trust-domains-required-for-quorum'',
           ''conflicting-observation-fails-closed'',
           ''evidence-lineage-must-be-canonical''],
        spec_activates =
          [''koschei.library_effect_attestation_quorum_v0'',
           ''koschei.library_recovery_journal_v0''],
        spec_obligations =
          [''bind-observation-to-effect-receipt'', ''require-independent-evidence'',
           ''preserve-evidence-lineage''],
        spec_may_grant_authority = False, spec_fail_closed = True\<rparr>),
     (''thal'', \<lparr>spec_sigil = ''thal'',
        spec_semantic_domain = ''containment.recovery.finality'',
        spec_invariants =
          [''containment-precedes-availability'',
           ''recovery-order-is-deterministic'',
           ''partial-commit-is-not-success'',
           ''stale-writer-is-fenced'',
           ''retries-cannot-duplicate-logical-effects'',
           ''split-brain-cannot-select-two-canonical-histories''],
        spec_activates =
          [''koschei.library_multi_scenario_containment_v0'',
           ''koschei.library_policy_conflict_resolution_v0'',
           ''koschei.library_recovery_transaction_v0'',
           ''koschei.library_recovery_replica_quorum_v0'',
           ''koschei.library_recovery_fencing_v0'',
           ''koschei.library_recovery_exactly_once_v0''],
        spec_obligations =
          [''derive-minimum-safe-containment'', ''fence-stale-writers'',
           ''commit-or-abort-recovery'', ''prove-exactly-once-effect-lineage''],
        spec_may_grant_authority = False, spec_fail_closed = True\<rparr>),
     (''nur'', \<lparr>spec_sigil = ''nur'',
        spec_semantic_domain = ''visibility.knowledge-resistance.compartment'',
        spec_invariants =
          [''visibility-is-not-authority'',
           ''knowledge-acquisition-has-a-budget'',
           ''high-pressure-observation-reduces-visible-surface'',
           ''contained-state-exposes-zero-semantic-surface'',
           ''observer-aliases-may-rotate-without-changing-canonical-state''],
        spec_activates =
          [''koschei.library_adversary_learning_resistance_v0'',
           ''koschei.library_adaptive_visibility_v0''],
        spec_obligations =
          [''measure-knowledge-acquisition'', ''shrink-visibility-envelope'',
           ''rotate-observer-compartments'', ''preserve-canonical-state-behind-visibility''],
        spec_may_grant_authority = False, spec_fail_closed = True\<rparr>)]"

definition CANONICAL_SIGIL_ORDER :: "string list" where
  "CANONICAL_SIGIL_ORDER = [''ka'', ''vor'', ''shi'', ''thal'', ''nur'']"

definition sigil_spec :: "string \<Rightarrow> sigilspec result" where
  "sigil_spec sigil = (case map_of SIGILS sigil of
     None \<Rightarrow> raisef UniverseKernelError ''unknown Koschei sigil: {!r}'' [sigil]
   | Some spec \<Rightarrow> Inr spec)"

definition kernel_ctx :: string where
  "kernel_ctx = ''koschei.universe-kernel/v1'' @ [CHR 0x00]"

definition nl :: string where
  "nl = [CHR 0x0A]"

definition canonical_digest :: "(string \<Rightarrow> string) \<Rightarrow> string list \<Rightarrow> string" where
  "canonical_digest hash parts = digest_of hash kernel_ctx (join nl parts)"

definition universe_digest_parts :: "string list \<Rightarrow> sigilspec list \<Rightarrow> string list" where
  "universe_digest_parts sequence specs =
     (let activated = sorted_set (concat (map spec_activates specs));
          obligations = sorted_set (concat (map spec_obligations specs))
      in [kv ''sigils'' (join '','' sequence)]
         @ map (\<lambda>spec. kv ''domain'' (spec_semantic_domain spec)) specs
         @ map (kv ''module'') activated
         @ map (kv ''obligation'') obligations
         @ concat (map (\<lambda>spec.
             map (\<lambda>invariant. kv ''invariant'' (spec_sigil spec @ '':'' @ invariant)) (spec_invariants spec)
             @ [kv ''authority'' (spec_sigil spec @ '':'' @ str_bool (spec_may_grant_authority spec)),
                kv ''fail_closed'' (spec_sigil spec @ '':'' @ str_bool (spec_fail_closed spec))]) specs))"

definition compile_universe_plan :: "(string \<Rightarrow> string) \<Rightarrow> string list \<Rightarrow> universe_plan result" where
  "compile_universe_plan hash sequence =
     (if sequence = [] then raise UniverseKernelError ''universe plan requires at least one sigil''
      else if length sequence \<noteq> card (set sequence) then
        raise UniverseKernelError ''duplicate sigils are not canonical''
      else rbind (rmap sigil_spec sequence) (\<lambda>specs.
        if ''ka'' \<in> set sequence \<and> length sequence > 1 \<and> hd sequence \<noteq> ''ka'' then
          raise UniverseKernelError ''ka is the genesis boundary and must be first''
        else Inr \<lparr>plan_sigils = sequence,
                  plan_semantic_domains = map spec_semantic_domain specs,
                  plan_activated_modules = sorted_set (concat (map spec_activates specs)),
                  plan_obligations = sorted_set (concat (map spec_obligations specs)),
                  plan_digest = canonical_digest hash (universe_digest_parts sequence specs)\<rparr>))"

section \<open>Interactions between sigils\<close>

record interaction_rule =
  rule_id :: string
  rule_requires :: "string list"
  rule_invariants :: "string list"
  rule_obligations :: "string list"
  rule_may_grant_authority :: bool
  rule_fail_closed :: bool

record composed_universe_plan =
  composed_base :: universe_plan
  composed_interaction_ids :: "string list"
  composed_emergent_invariants :: "string list"
  composed_emergent_obligations :: "string list"
  composed_digest :: string

abbreviation mk_rule ::
  "string \<Rightarrow> string list \<Rightarrow> string list \<Rightarrow> string list \<Rightarrow> string \<times> interaction_rule" where
  "mk_rule i rs invs obs \<equiv> (i, \<lparr>rule_id = i, rule_requires = rs, rule_invariants = invs,
     rule_obligations = obs, rule_may_grant_authority = False, rule_fail_closed = True\<rparr>)"

definition INTERACTION_RULES :: "(string \<times> interaction_rule) list" where
  "INTERACTION_RULES =
    [mk_rule ''genesis-authority-seal'' [''ka'', ''vor'']
       [''authority-lineage-must-descend-from-verified-genesis'',
        ''identity-change-invalidates-derived-authority'']
       [''bind-authority-to-genesis-identity'',
        ''invalidate-authority-on-identity-drift''],
     mk_rule ''identity-evidence-binding'' [''ka'', ''shi'']
       [''evidence-without-canonical-subject-identity-is-not-final'']
       [''bind-evidence-to-canonical-subject''],
     mk_rule ''authority-evidence-provenance'' [''ka'', ''vor'', ''shi'']
       [''privileged-effect-must-prove-identity-authority-and-evidence-lineage'',
        ''attestation-cannot-upgrade-authority'']
       [''seal-authorization-provenance'',
        ''prove-effect-authority-before-attestation-finality''],
     mk_rule ''authority-visibility-separation'' [''vor'', ''nur'']
       [''hidden-state-is-not-granted-authority'',
        ''visibility-expansion-cannot-expand-capability'',
        ''capability-expansion-cannot-bypass-visibility-policy'']
       [''evaluate-authority-and-visibility-independently''],
     mk_rule ''evidence-bound-recovery'' [''shi'', ''thal'']
       [''recovery-finality-requires-evidence-finality'',
        ''conflicting-evidence-blocks-recovery-commit'']
       [''bind-recovery-commit-to-attested-effect'',
        ''abort-on-evidence-conflict''],
     mk_rule ''non-escalating-recovery'' [''vor'', ''thal'']
       [''recovery-cannot-create-authority-absent-before-failure'',
        ''replacement-writer-must-reenter-through-canonical-fencing'']
       [''prove-recovery-authority-is-non-escalating''],
     mk_rule ''private-observation-continuity'' [''shi'', ''nur'']
       [''evidence-continuity-must-survive-visibility-rotation'',
        ''attestation-cannot-force-broader-observer-visibility'']
       [''preserve-evidence-through-compartment-rotation''],
     mk_rule ''whole-universe-conservation'' [''ka'', ''vor'', ''shi'', ''thal'', ''nur'']
       [''no-composition-may-create-ambient-authority'',
        ''no-composition-may-weaken-component-fail-closed-rules'',
        ''identity-authority-evidence-recovery-and-visibility-remain-separable'']
       [''seal-whole-universe-conservation-proof'']]"

definition interactions_ctx :: string where
  "interactions_ctx = ''koschei.universe-interactions/v1'' @ [CHR 0x00]"

definition interaction_parts :: "string \<Rightarrow> string list \<Rightarrow> string list \<Rightarrow> string list \<Rightarrow> string list" where
  "interaction_parts base_digest ids invariants obligations =
     kv ''base'' base_digest
     # map (kv ''interaction'') ids
     @ map (kv ''invariant'') invariants
     @ map (kv ''obligation'') obligations"

definition applicable_interactions :: "string list \<Rightarrow> interaction_rule list result" where
  "applicable_interactions sigils =
     (if sigils = [] then
        raise UniverseInteractionError ''interaction graph requires at least one sigil''
      else Inr (filter (\<lambda>rule. set (rule_requires rule) \<subseteq> set sigils)
                  (map snd (sort_key fst INTERACTION_RULES))))"

definition compose_universe :: "(string \<Rightarrow> string) \<Rightarrow> string list \<Rightarrow> composed_universe_plan result" where
  "compose_universe hash sequence =
     rbind (compile_universe_plan hash sequence) (\<lambda>base.
     rbind (applicable_interactions sequence) (\<lambda>interactions.
       if list_ex rule_may_grant_authority interactions then
         raise UniverseInteractionError ''interaction rule attempted to create authority''
       else if list_ex (\<lambda>rule. \<not> rule_fail_closed rule) interactions then
         raise UniverseInteractionError ''non-fail-closed interaction is not canonical''
       else
         let invariants = sorted_set (concat (map rule_invariants interactions));
             obligations = sorted_set (concat (map rule_obligations interactions));
             ids = map rule_id interactions
         in Inr \<lparr>composed_base = base, composed_interaction_ids = ids,
                 composed_emergent_invariants = invariants,
                 composed_emergent_obligations = obligations,
                 composed_digest = digest_of hash interactions_ctx
                   (join nl (interaction_parts (plan_digest base) ids invariants obligations))\<rparr>))"

section \<open>The activation schedule\<close>

record activation_step =
  step_id :: string
  step_phase :: string
  step_obligation :: string
  step_requires :: "string list"

record universe_activation_plan =
  act_composed :: composed_universe_plan
  act_steps :: "activation_step list"
  act_digest :: string

definition PHASE_ORDER :: "string list" where
  "PHASE_ORDER = [''genesis'', ''authority'', ''evidence'', ''containment'', ''visibility'', ''conservation'']"

fun index_of :: "'a \<Rightarrow> 'a list \<Rightarrow> nat" where
  "index_of x [] = 0"
| "index_of x (y # ys) = (if x = y then 0 else Suc (index_of x ys))"

definition phase_rank :: "string \<Rightarrow> nat" where
  "phase_rank phase = index_of phase PHASE_ORDER"

definition activation_ctx :: string where
  "activation_ctx = ''koschei.universe-activation-engine/v1'' @ [CHR 0x00]"

definition mentions :: "string list \<Rightarrow> string \<Rightarrow> bool" where
  "mentions tokens obligation = list_ex (\<lambda>token. py_in token obligation) tokens"

definition phase_for :: "string \<Rightarrow> string result" where
  "phase_for obligation =
     (if mentions [''identity'', ''genesis'', ''integrity'', ''lineage''] obligation then Inr ''genesis''
      else if mentions [''authority'', ''authorization'', ''effect-contract'', ''least-authority''] obligation
        then Inr ''authority''
      else if mentions [''evidence'', ''attest'', ''observation''] obligation then Inr ''evidence''
      else if mentions [''recovery'', ''containment'', ''fence'', ''exactly-once'', ''commit'', ''abort''] obligation
        then Inr ''containment''
      else if mentions [''visibility'', ''knowledge'', ''compartment'', ''observer''] obligation
        then Inr ''visibility''
      else if mentions [''conservation''] obligation then Inr ''conservation''
      else raisef UniverseActivationError ''unclassified universe obligation: {}'' [obligation])"

definition step_id_of :: "(string \<Rightarrow> string) \<Rightarrow> string \<Rightarrow> string \<Rightarrow> string" where
  "step_id_of hash phase obligation =
     phase @ '':'' @ take 16 (digest_of hash activation_ctx (phase @ [CHR 0x00] @ obligation))"

text \<open>
  The scheduling loop: \<open>plast\<close> is the dictionary \<open>phase_last\<close>; a step depends on the
  last step of its own phase and of every earlier phase.
\<close>

definition dependencies :: "(string \<rightharpoonup> string) \<Rightarrow> string \<Rightarrow> string list" where
  "dependencies plast phase =
     first_occurrences
       ((case plast phase of Some i \<Rightarrow> [i] | None \<Rightarrow> [])
        @ List.map_filter plast (take (phase_rank phase) PHASE_ORDER))"

fun schedule_steps ::
  "(string \<Rightarrow> string) \<Rightarrow> (string \<rightharpoonup> string) \<Rightarrow> (string \<times> string) list \<Rightarrow> activation_step list" where
  "schedule_steps hash plast [] = []"
| "schedule_steps hash plast ((obligation, phase) # rest) =
     (let i = step_id_of hash phase obligation
      in \<lparr>step_id = i, step_phase = phase, step_obligation = obligation,
          step_requires = dependencies plast phase\<rparr>
         # schedule_steps hash (plast(phase \<mapsto> i)) rest)"

definition activation_payload :: "composed_universe_plan \<Rightarrow> activation_step list \<Rightarrow> string" where
  "activation_payload composed steps =
     join nl (kv ''composed'' (composed_digest composed)
       # map (\<lambda>s. kv ''step'' (step_id s @ ''|'' @ step_phase s @ ''|'' @ step_obligation s
                    @ ''|'' @ join '','' (step_requires s))) steps)"

definition compile_activation_plan ::
  "(string \<Rightarrow> string) \<Rightarrow> string list \<Rightarrow> universe_activation_plan result" where
  "compile_activation_plan hash sigils =
     rbind (compose_universe hash sigils) (\<lambda>composed.
       let obligations = sorted_set (plan_obligations (composed_base composed)
                                     @ composed_emergent_obligations composed)
       in rbind (rmap (\<lambda>obligation. rbind (phase_for obligation) (\<lambda>phase. Inr (obligation, phase)))
                 obligations) (\<lambda>classified.
          let steps = schedule_steps hash Map.empty
                        (sort_key (\<lambda>item. (phase_rank (snd item), fst item)) classified)
          in if steps = [] then
               raise UniverseActivationError ''universe activation plan has no executable obligations''
             else if list_ex (\<lambda>s. step_phase s = ''conservation'') steps
                     \<and> step_phase (last steps) \<noteq> ''conservation'' then
               raise UniverseActivationError ''whole-universe conservation must seal the activation plan''
             else Inr \<lparr>act_composed = composed, act_steps = steps,
                       act_digest = digest_of hash activation_ctx (activation_payload composed steps)\<rparr>))"

section \<open>Which sequences compile\<close>

definition canonical_sequence :: "string list \<Rightarrow> bool" where
  "canonical_sequence s \<longleftrightarrow> s \<noteq> [] \<and> distinct s \<and> set s \<subseteq> set CANONICAL_SIGIL_ORDER
     \<and> (hd s = ''ka'') = (''ka'' \<in> set s)"

definition specs_of :: "string list \<Rightarrow> sigilspec list" where
  "specs_of s = map (\<lambda>x. the (map_of SIGILS x)) s"

definition universe_plan_of :: "(string \<Rightarrow> string) \<Rightarrow> string list \<Rightarrow> universe_plan" where
  "universe_plan_of hash s =
     \<lparr>plan_sigils = s,
      plan_semantic_domains = map spec_semantic_domain (specs_of s),
      plan_activated_modules = sorted_set (concat (map spec_activates (specs_of s))),
      plan_obligations = sorted_set (concat (map spec_obligations (specs_of s))),
      plan_digest = canonical_digest hash (universe_digest_parts s (specs_of s))\<rparr>"

lemma length_card_distinct [simp]: "length xs = card (set xs) \<longleftrightarrow> distinct xs"
  by (metis card_distinct distinct_card)

lemma dom_SIGILS: "dom (map_of SIGILS) = set CANONICAL_SIGIL_ORDER"
  by (simp add: dom_map_of_conv_image_fst SIGILS_def CANONICAL_SIGIL_ORDER_def)

lemma sigil_spec_ok: "is_ok (sigil_spec s) \<longleftrightarrow> s \<in> set CANONICAL_SIGIL_ORDER"
  by (auto simp: sigil_spec_def dom_SIGILS [symmetric] split: option.splits)

lemma sigil_spec_eq: "s \<in> set CANONICAL_SIGIL_ORDER \<Longrightarrow> sigil_spec s = Inr (the (map_of SIGILS s))"
  by (auto simp: sigil_spec_def dom_SIGILS [symmetric])

lemma sigil_spec_Inr: "sigil_spec s = Inr x \<Longrightarrow> s \<in> set CANONICAL_SIGIL_ORDER"
  using sigil_spec_ok [of s] by simp

lemma rmap_sigil_spec:
  "set s \<subseteq> set CANONICAL_SIGIL_ORDER \<Longrightarrow> rmap sigil_spec s = Inr (specs_of s)"
  unfolding specs_of_def by (rule rmap_total) (auto simp: sigil_spec_eq)

lemma rmap_sigil_spec_Inr:
  assumes "rmap sigil_spec s = Inr specs"
  shows "set s \<subseteq> set CANONICAL_SIGIL_ORDER"
proof
  fix x assume "x \<in> set s"
  then obtain i where i: "i < length s" "x = s ! i" by (auto simp: in_set_conv_nth)
  with assms have "sigil_spec x = Inr (specs ! i)"
    by (auto simp: rmap_eq_Inr list_all2_conv_all_nth)
  then show "x \<in> set CANONICAL_SIGIL_ORDER" by (rule sigil_spec_Inr)
qed

lemma hd_ka_cases:
  "s \<noteq> [] \<Longrightarrow> (''ka'' \<in> set s \<and> length s > 1 \<and> hd s \<noteq> ''ka'') \<longleftrightarrow> (hd s = ''ka'') \<noteq> (''ka'' \<in> set s)"
  by (cases s) (auto simp: length_greater_0_conv)

lemma compile_universe_plan_canonical:
  "canonical_sequence s \<Longrightarrow> compile_universe_plan hash s = Inr (universe_plan_of hash s)"
  by (auto simp: canonical_sequence_def compile_universe_plan_def universe_plan_of_def rmap_sigil_spec)

lemma compile_universe_plan_Inr:
  assumes "compile_universe_plan hash s = Inr plan"
  shows "canonical_sequence s" and "plan = universe_plan_of hash s"
proof -
  from assms have s: "s \<noteq> []" "distinct s"
    and specs: "set s \<subseteq> set CANONICAL_SIGIL_ORDER"
    and ka: "\<not> (''ka'' \<in> set s \<and> length s > 1 \<and> hd s \<noteq> ''ka'')"
    by (auto simp: compile_universe_plan_def result_simps dest: rmap_sigil_spec_Inr)
  then show c: "canonical_sequence s"
    using hd_ka_cases [of s] unfolding canonical_sequence_def by blast
  show "plan = universe_plan_of hash s"
    using compile_universe_plan_canonical [OF c, of hash] assms by simp
qed

lemma compile_universe_plan_eq_Inr:
  "compile_universe_plan hash s = Inr plan \<longleftrightarrow> canonical_sequence s \<and> plan = universe_plan_of hash s"
  using compile_universe_plan_Inr compile_universe_plan_canonical by blast

subsection \<open>Composition and activation add no failure\<close>

definition all_obligations :: "string list" where
  "all_obligations = concat (map (spec_obligations \<circ> snd) SIGILS)
                     @ concat (map (rule_obligations \<circ> snd) INTERACTION_RULES)"

lemma rules_conservative:
  "r \<in> set INTERACTION_RULES \<Longrightarrow> \<not> rule_may_grant_authority (snd r) \<and> rule_fail_closed (snd r)"
  by (auto simp: INTERACTION_RULES_def)

definition rules_for :: "string list \<Rightarrow> interaction_rule list" where
  "rules_for s = filter (\<lambda>rule. set (rule_requires rule) \<subseteq> set s)
                   (map snd (sort_key fst INTERACTION_RULES))"

lemma rules_for_in: "r \<in> set (rules_for s) \<Longrightarrow> \<exists>i. (i, r) \<in> set INTERACTION_RULES"
  by (auto simp: rules_for_def)

definition composed_plan_of :: "(string \<Rightarrow> string) \<Rightarrow> string list \<Rightarrow> composed_universe_plan" where
  "composed_plan_of hash s =
     (let invariants = sorted_set (concat (map rule_invariants (rules_for s)));
          obligations = sorted_set (concat (map rule_obligations (rules_for s)));
          ids = map rule_id (rules_for s)
      in \<lparr>composed_base = universe_plan_of hash s, composed_interaction_ids = ids,
          composed_emergent_invariants = invariants,
          composed_emergent_obligations = obligations,
          composed_digest = digest_of hash interactions_ctx
            (join nl (interaction_parts (plan_digest (universe_plan_of hash s)) ids invariants obligations))\<rparr>)"

lemma compose_universe_canonical:
  assumes "canonical_sequence s"
  shows "compose_universe hash s = Inr (composed_plan_of hash s)"
proof -
  have "\<not> list_ex rule_may_grant_authority (rules_for s)"
    and "\<not> list_ex (\<lambda>r. \<not> rule_fail_closed r) (rules_for s)"
    using rules_for_in rules_conservative by (fastforce simp: list_ex_iff)+
  with assms show ?thesis
    by (simp add: compose_universe_def compile_universe_plan_canonical applicable_interactions_def
        rules_for_def [symmetric] composed_plan_of_def Let_def canonical_sequence_def)
qed

lemma compose_universe_eq_Inr:
  "compose_universe hash s = Inr c \<longleftrightarrow> canonical_sequence s \<and> c = composed_plan_of hash s"
proof
  assume a: "compose_universe hash s = Inr c"
  then have "canonical_sequence s"
    by (auto simp: compose_universe_def rbind_eq_Inr compile_universe_plan_eq_Inr)
  with a show "canonical_sequence s \<and> c = composed_plan_of hash s"
    by (simp add: compose_universe_canonical)
qed (simp add: compose_universe_canonical)

subsection \<open>Classification of obligations\<close>

definition phase_of :: "string \<Rightarrow> string" where
  "phase_of obligation = (case phase_for obligation of Inl _ \<Rightarrow> [] | Inr phase \<Rightarrow> phase)"

lemma phase_for_PHASE_ORDER: "phase_for ob = Inr p \<Longrightarrow> p \<in> set PHASE_ORDER"
  by (auto simp: phase_for_def PHASE_ORDER_def split: if_splits)

lemma all_obligations_classified: "list_all (\<lambda>ob. is_ok (phase_for ob)) all_obligations"
  by code_simp

lemma phase_for_all_obligations:
  "ob \<in> set all_obligations \<Longrightarrow> phase_for ob = Inr (phase_of ob)"
  using all_obligations_classified by (auto simp: list_all_iff is_ok_iff phase_of_def)

definition obligations_of :: "string list \<Rightarrow> string list" where
  "obligations_of s = sorted_set (concat (map spec_obligations (specs_of s))
                                  @ concat (map rule_obligations (rules_for s)))"

lemma map_of_SIGILS_obligations:
  "x \<in> set CANONICAL_SIGIL_ORDER \<Longrightarrow>
     spec_obligations (the (map_of SIGILS x)) \<noteq> []
     \<and> set (spec_obligations (the (map_of SIGILS x))) \<subseteq> set all_obligations"
  by (auto simp: CANONICAL_SIGIL_ORDER_def SIGILS_def all_obligations_def)

lemma obligations_of_known:
  assumes "canonical_sequence s"
  shows "set (obligations_of s) \<subseteq> set all_obligations"
proof -
  have "set (concat (map spec_obligations (specs_of s))) \<subseteq> set all_obligations"
    using assms map_of_SIGILS_obligations by (fastforce simp: canonical_sequence_def specs_of_def)
  moreover have "set (concat (map rule_obligations (rules_for s))) \<subseteq> set all_obligations"
    using rules_for_in [of _ s] by (fastforce simp: all_obligations_def)
  ultimately show ?thesis by (simp add: obligations_of_def)
qed

lemma obligations_of_nonempty:
  assumes "canonical_sequence s"
  shows "obligations_of s \<noteq> []"
proof -
  from assms obtain x where "x \<in> set s" "x \<in> set CANONICAL_SIGIL_ORDER"
    by (cases s) (auto simp: canonical_sequence_def)
  then have "set (concat (map spec_obligations (specs_of s))) \<noteq> {}"
    using map_of_SIGILS_obligations [of x] by (auto simp: specs_of_def)
  then show ?thesis
    by (metis Un_empty obligations_of_def set_append set_empty set_sorted_set)
qed

definition items_of :: "string list \<Rightarrow> (string \<times> string) list" where
  "items_of s = sort_key (\<lambda>item. (phase_rank (snd item), fst item))
                  (map (\<lambda>ob. (ob, phase_of ob)) (obligations_of s))"

definition steps_of :: "(string \<Rightarrow> string) \<Rightarrow> string list \<Rightarrow> activation_step list" where
  "steps_of hash s = schedule_steps hash Map.empty (items_of s)"

lemma set_items_of: "set (items_of s) = (\<lambda>ob. (ob, phase_of ob)) ` set (obligations_of s)"
  by (simp add: items_of_def)

lemma sorted_items_of: "sorted (map (\<lambda>item. phase_rank (snd item)) (items_of s))"
proof -
  have "sorted (map (\<lambda>item. (phase_rank (snd item), fst item)) (items_of s))"
    by (simp add: items_of_def)
  then show ?thesis
    unfolding sorted_map
    by (rule sorted_wrt_mono_rel [rotated]) (auto simp: less_eq_prod_def)
qed

lemma phases_items_of:
  "canonical_sequence s \<Longrightarrow> set (map snd (items_of s)) \<subseteq> set PHASE_ORDER"
  using obligations_of_known [of s] phase_for_all_obligations phase_for_PHASE_ORDER
  by (fastforce simp: set_items_of)

subsection \<open>The schedule\<close>

lemma schedule_steps_fields:
  "map step_obligation (schedule_steps hash L xs) = map fst xs"
  "map step_phase (schedule_steps hash L xs) = map snd xs"
  "map step_id (schedule_steps hash L xs) = map (\<lambda>(ob, p). step_id_of hash p ob) xs"
  "length (schedule_steps hash L xs) = length xs"
  by (induction hash L xs rule: schedule_steps.induct) (simp_all add: Let_def)

lemma dependencies_ran: "set (dependencies L p) \<subseteq> ran L"
  by (auto simp: dependencies_def List.map_filter_def ran_def split: option.splits)

lemma nth_index_of: "x \<in> set xs \<Longrightarrow> index_of x xs < length xs \<and> xs ! index_of x xs = x"
  by (induction xs) auto

lemma phase_rank_less:
  assumes "p \<in> set PHASE_ORDER" and "q \<in> set PHASE_ORDER"
    and "phase_rank p \<le> phase_rank q" and "p \<noteq> q"
  shows "p \<in> set (take (phase_rank q) PHASE_ORDER)"
proof -
  have "phase_rank p \<noteq> phase_rank q"
    using assms(1,2,4) nth_index_of unfolding phase_rank_def by metis
  with assms(3) have "phase_rank p < phase_rank q" by simp
  then show ?thesis
    using nth_index_of [OF assms(1)] by (force simp: phase_rank_def in_set_conv_nth)
qed

lemma dependencies_last:
  assumes "p \<in> set PHASE_ORDER" and "phase_rank p \<le> phase_rank q" and "q \<in> set PHASE_ORDER"
    and "L p = Some i"
  shows "i \<in> set (dependencies L q)"
proof (cases "p = q")
  case True
  with assms show ?thesis by (simp add: dependencies_def)
next
  case False
  with assms(1-3) have "p \<in> set (take (phase_rank q) PHASE_ORDER)"
    by (intro phase_rank_less)
  with assms(4) show ?thesis
    by (force simp: dependencies_def List.map_filter_def)
qed

text \<open>A step only depends on steps before it.\<close>

lemma schedule_steps_requires:
  "i < length xs \<Longrightarrow>
     set (step_requires (schedule_steps hash L xs ! i))
       \<subseteq> ran L \<union> set (map step_id (take i (schedule_steps hash L xs)))"
proof (induction hash L xs arbitrary: i rule: schedule_steps.induct)
  case (2 hash L ob p rest)
  show ?case
  proof (cases i)
    case 0
    then show ?thesis using dependencies_ran [of L p] by (auto simp: Let_def)
  next
    case (Suc j)
    let ?id = "step_id_of hash p ob"
    have "set (step_requires (schedule_steps hash (L(p \<mapsto> ?id)) rest ! j))
        \<subseteq> ran (L(p \<mapsto> ?id)) \<union> set (map step_id (take j (schedule_steps hash (L(p \<mapsto> ?id)) rest)))"
      by (rule "2.IH" [OF refl]) (use "2.prems" Suc in simp)
    moreover have "ran (L(p \<mapsto> ?id)) \<subseteq> insert ?id (ran L)"
      by (auto simp: ran_def)
    ultimately show ?thesis using Suc by (auto simp: Let_def)
  qed
qed simp

text \<open>Every step depends on the one right before it.\<close>

lemma schedule_steps_chain:
  assumes "sorted (map (\<lambda>item. phase_rank (snd item)) xs)"
    and "set (map snd xs) \<subseteq> set PHASE_ORDER" and "Suc i < length xs"
  shows "step_id (schedule_steps hash L xs ! i)
           \<in> set (step_requires (schedule_steps hash L xs ! Suc i))"
  using assms
proof (induction hash L xs arbitrary: i rule: schedule_steps.induct)
  case (2 hash L ob p rest)
  show ?case
  proof (cases i)
    case 0
    with "2.prems"(3) obtain ob' q rest' where rest: "rest = (ob', q) # rest'"
      by (cases rest) auto
    with "2.prems"(1,2) have "step_id_of hash p ob
        \<in> set (dependencies (L(p \<mapsto> step_id_of hash p ob)) q)"
      by (intro dependencies_last [of p]) auto
    with 0 rest show ?thesis by (simp add: Let_def)
  next
    case (Suc j)
    have "step_id (schedule_steps hash (L(p \<mapsto> step_id_of hash p ob)) rest ! j)
        \<in> set (step_requires (schedule_steps hash (L(p \<mapsto> step_id_of hash p ob)) rest ! Suc j))"
      by (rule "2.IH" [OF refl]) (use "2.prems" Suc in simp_all)
    with Suc show ?thesis by (simp add: Let_def)
  qed
qed simp

lemma steps_of_fields:
  "map step_obligation (steps_of hash s) = map fst (items_of s)"
  "map step_phase (steps_of hash s) = map snd (items_of s)"
  "map step_id (steps_of hash s) = map (\<lambda>(ob, p). step_id_of hash p ob) (items_of s)"
  "length (steps_of hash s) = length (items_of s)"
  by (simp_all add: steps_of_def schedule_steps_fields)

lemma set_step_obligations: "step_obligation ` set (steps_of hash s) = set (obligations_of s)"
proof -
  have "step_obligation ` set (steps_of hash s) = fst ` set (items_of s)"
    using steps_of_fields(1) [of hash s] by (metis list.set_map)
  then show ?thesis by (simp add: set_items_of image_image)
qed

lemma distinct_step_obligations: "distinct (map step_obligation (steps_of hash s))"
proof -
  have "distinct (map fst (items_of s)) \<longleftrightarrow> distinct (obligations_of s)"
    by (simp add: items_of_def distinct_map comp_def inj_on_def obligations_of_def)
  then show ?thesis by (simp add: steps_of_fields(1) obligations_of_def)
qed

lemma steps_of_nonempty: "canonical_sequence s \<Longrightarrow> steps_of hash s \<noteq> []"
  using obligations_of_nonempty [of s] steps_of_fields(4) [of hash s]
  by (auto simp: items_of_def)

lemma sorted_step_phases: "sorted (map (\<lambda>st. phase_rank (step_phase st)) (steps_of hash s))"
proof -
  have "map (\<lambda>st. phase_rank (step_phase st)) (steps_of hash s)
      = map phase_rank (map step_phase (steps_of hash s))" by simp
  also have "\<dots> = map (\<lambda>item. phase_rank (snd item)) (items_of s)"
    by (simp add: steps_of_fields(2))
  finally show ?thesis using sorted_items_of by simp
qed

lemma step_phase_PHASE_ORDER:
  "canonical_sequence s \<Longrightarrow> st \<in> set (steps_of hash s) \<Longrightarrow> step_phase st \<in> set PHASE_ORDER"
  using phases_items_of [of s] steps_of_fields(2) [of hash s]
  by (metis image_eqI list.set_map subsetD)

lemma rank_conservation: "p \<in> set PHASE_ORDER \<Longrightarrow> phase_rank ''conservation'' \<le> phase_rank p \<Longrightarrow> p = ''conservation''"
  by (auto simp: PHASE_ORDER_def phase_rank_def)

lemma conservation_last:
  assumes "canonical_sequence s" and "st \<in> set (steps_of hash s)" and "step_phase st = ''conservation''"
  shows "step_phase (last (steps_of hash s)) = ''conservation''"
proof -
  let ?ss = "steps_of hash s"
  from assms(2) obtain i where i: "i < length ?ss" "?ss ! i = st" by (auto simp: in_set_conv_nth)
  then have "phase_rank (step_phase st) \<le> phase_rank (step_phase (?ss ! (length ?ss - 1)))"
    using sorted_nth_mono [OF sorted_step_phases [of hash s], of i "length ?ss - 1"] by simp
  with i have "phase_rank ''conservation'' \<le> phase_rank (step_phase (last ?ss))"
    using assms(3) by (metis last_conv_nth length_0_conv not_less_zero)
  moreover have "step_phase (last ?ss) \<in> set PHASE_ORDER"
    by (rule step_phase_PHASE_ORDER [OF assms(1), where hash = hash]) (simp add: steps_of_nonempty [OF assms(1)])
  ultimately show ?thesis by (intro rank_conservation)
qed

definition activation_plan_of :: "(string \<Rightarrow> string) \<Rightarrow> string list \<Rightarrow> universe_activation_plan" where
  "activation_plan_of hash s =
     \<lparr>act_composed = composed_plan_of hash s, act_steps = steps_of hash s,
      act_digest = digest_of hash activation_ctx
        (activation_payload (composed_plan_of hash s) (steps_of hash s))\<rparr>"

lemma sorted_set_sorted_set:
  "sorted_set (sorted_set xs @ sorted_set ys) = sorted_set (xs @ ys)"
  by (rule sorted_set_cong) simp

lemma composed_plan_obligations:
  "sorted_set (plan_obligations (composed_base (composed_plan_of hash s))
     @ composed_emergent_obligations (composed_plan_of hash s)) = obligations_of s"
  by (simp add: composed_plan_of_def universe_plan_of_def Let_def sorted_set_sorted_set obligations_of_def)

lemma compile_activation_plan_canonical:
  assumes "canonical_sequence s"
  shows "compile_activation_plan hash s = Inr (activation_plan_of hash s)"
proof -
  have "rmap (\<lambda>ob. rbind (phase_for ob) (\<lambda>phase. Inr (ob, phase))) (obligations_of s)
      = Inr (map (\<lambda>ob. (ob, phase_of ob)) (obligations_of s))"
    by (rule rmap_total) (use obligations_of_known [OF assms] phase_for_all_obligations in auto)
  moreover have "\<not> (list_ex (\<lambda>st. step_phase st = ''conservation'') (steps_of hash s)
      \<and> step_phase (last (steps_of hash s)) \<noteq> ''conservation'')"
    using conservation_last [OF assms] by (auto simp: list_ex_iff)
  ultimately show ?thesis
    using steps_of_nonempty [OF assms]
    by (simp add: compile_activation_plan_def compose_universe_canonical [OF assms]
        composed_plan_obligations items_of_def [symmetric] steps_of_def [symmetric]
        activation_plan_of_def Let_def)
qed

lemma compile_activation_plan_eq_Inr:
  "compile_activation_plan hash s = Inr p \<longleftrightarrow> canonical_sequence s \<and> p = activation_plan_of hash s"
proof
  assume a: "compile_activation_plan hash s = Inr p"
  then have "canonical_sequence s"
    by (auto simp: compile_activation_plan_def rbind_eq_Inr compose_universe_eq_Inr)
  with a show "canonical_sequence s \<and> p = activation_plan_of hash s"
    by (simp add: compile_activation_plan_canonical)
qed (simp add: compile_activation_plan_canonical)

section \<open>What a plan digest identifies\<close>

lemma canonical_sigil_chars:
  "x \<in> set CANONICAL_SIGIL_ORDER \<Longrightarrow> CHR '','' \<notin> set x \<and> CHR 0x0A \<notin> set x"
  by (auto simp: CANONICAL_SIGIL_ORDER_def)

lemma set_join: "set (join sep xs) \<subseteq> set sep \<union> \<Union> (set ` set xs)"
  by (induction sep xs rule: join.induct) auto

definition universe_payload :: "string list \<Rightarrow> string" where
  "universe_payload s = join nl (universe_digest_parts s (specs_of s))"

lemma universe_payload_inj:
  assumes "canonical_sequence s" and "canonical_sequence t" and "universe_payload s = universe_payload t"
  shows "s = t"
proof -
  have clean: "CHR 0x0A \<notin> set (kv ''sigils'' (join '','' u))" if "canonical_sequence u" for u
    using that set_join [of "'',''" u] canonical_sigil_chars by (fastforce simp: canonical_sequence_def)
  have "kv ''sigils'' (join '','' s) = kv ''sigils'' (join '','' t)"
    by (rule join_first_row [OF clean [OF assms(1)] clean [OF assms(2)]
          assms(3) [unfolded universe_payload_def universe_digest_parts_def Let_def nl_def append_Cons]])
  then have "join '','' s = join '','' t" by simp
  then show ?thesis
    by (rule join_inj_nonempty [rotated -1])
      (use assms(1,2) canonical_sigil_chars in \<open>auto simp: canonical_sequence_def\<close>)
qed

interpretation universe_seal: sealing hash kernel_ctx universe_payload canonical_sequence for hash
  by unfold_locales (rule universe_payload_inj)

lemma universe_plan_digest:
  "plan_digest (universe_plan_of hash s) = digest_of hash kernel_ctx (universe_payload s)"
  by (simp add: universe_plan_of_def canonical_digest_def universe_payload_def)

text \<open>The three byte strings hashed on the way to the digest of an activation plan.\<close>

definition activation_preimages :: "(string \<Rightarrow> string) \<Rightarrow> string list \<Rightarrow> string list" where
  "activation_preimages hash s =
     (let c = composed_plan_of hash s in
      [kernel_ctx @ utf8 (universe_payload s),
       interactions_ctx @ utf8 (join nl (interaction_parts (plan_digest (universe_plan_of hash s))
         (composed_interaction_ids c) (composed_emergent_invariants c) (composed_emergent_obligations c))),
       activation_ctx @ utf8 (activation_payload c (steps_of hash s))])"

definition preimage_collision :: "(string \<Rightarrow> string) \<Rightarrow> string list \<Rightarrow> string list \<Rightarrow> bool" where
  "preimage_collision hash xs ys \<longleftrightarrow> list_ex (\<lambda>(x, y). collision hash x y) (zip xs ys)"

lemma activation_digest_binds:
  assumes hex: "\<And>m. hex64 (hash m)"
    and "canonical_sequence s" and "canonical_sequence t"
    and "act_digest (activation_plan_of hash s) = act_digest (activation_plan_of hash t)"
  shows "s = t \<or> preimage_collision hash (activation_preimages hash s) (activation_preimages hash t)"
proof (rule disjCI)
  from hex have h: "hexdigest hash" by unfold_locales
  note clean = hexdigest.digest_no_newline [OF h]
  let ?c = "composed_plan_of hash"
  assume "\<not> preimage_collision hash (activation_preimages hash s) (activation_preimages hash t)"
  then have no1: "\<not> collision hash (kernel_ctx @ utf8 (universe_payload s)) (kernel_ctx @ utf8 (universe_payload t))"
    and no2: "\<not> collision hash (activation_preimages hash s ! 1) (activation_preimages hash t ! 1)"
    and no3: "\<not> collision hash (activation_preimages hash s ! 2) (activation_preimages hash t ! 2)"
    by (auto simp: preimage_collision_def activation_preimages_def Let_def)
  from no3 assms(4) have "activation_payload (?c s) (steps_of hash s) = activation_payload (?c t) (steps_of hash t)"
    by (auto simp: activation_preimages_def activation_plan_of_def Let_def dest: digest_of_eq)
  then have "kv ''composed'' (composed_digest (?c s)) = kv ''composed'' (composed_digest (?c t))"
    unfolding activation_payload_def nl_def
    by (rule join_first_row [rotated 2]) (simp_all add: composed_plan_of_def Let_def clean)
  then have "composed_digest (?c s) = composed_digest (?c t)" by simp
  with no2 have "join nl (interaction_parts (plan_digest (universe_plan_of hash s))
        (composed_interaction_ids (?c s)) (composed_emergent_invariants (?c s)) (composed_emergent_obligations (?c s)))
      = join nl (interaction_parts (plan_digest (universe_plan_of hash t))
        (composed_interaction_ids (?c t)) (composed_emergent_invariants (?c t)) (composed_emergent_obligations (?c t)))"
    by (auto simp: activation_preimages_def composed_plan_of_def Let_def dest: digest_of_eq)
  then have "kv ''base'' (plan_digest (universe_plan_of hash s)) = kv ''base'' (plan_digest (universe_plan_of hash t))"
    unfolding interaction_parts_def nl_def
    by (rule join_first_row [rotated 2]) (simp_all add: universe_plan_digest clean)
  then have "plan_digest (universe_plan_of hash s) = plan_digest (universe_plan_of hash t)" by simp
  with no1 assms(2,3) show "s = t"
    using universe_seal.seal_binds [of s t hash] by (auto simp: universe_plan_digest)
qed

section \<open>Properties\<close>

text \<open>
  The three compilers of a sigil sequence (universe plan, composed plan, activation plan)
  accept exactly the same sequences: non-empty, without duplicates, of the five canonical
  sigils, with \<open>ka\<close> first whenever it occurs. In particular no accepted sequence can run
  into the later errors (an unclassified obligation, an authority-creating interaction, a
  schedule that conservation does not seal).
\<close>

theorem compilers_accept_canonical:
  "is_ok (compile_universe_plan hash s) = canonical_sequence s
   \<and> is_ok (compose_universe hash s) = canonical_sequence s
   \<and> is_ok (compile_activation_plan hash s) = canonical_sequence s"
  by (auto simp: is_ok_iff compile_universe_plan_eq_Inr compose_universe_eq_Inr
      compile_activation_plan_eq_Inr)

definition schedule_ordered :: "activation_step list \<Rightarrow> bool" where
  "schedule_ordered steps \<longleftrightarrow>
     list_all (\<lambda>i. set (step_requires (steps ! i)) \<subseteq> set (map step_id (take i steps))) [0..<length steps]
     \<and> list_all (\<lambda>i. step_id (steps ! i) \<in> set (step_requires (steps ! Suc i))) [0..<length steps - 1]
     \<and> sorted (map (\<lambda>st. phase_rank (step_phase st)) steps)"

lemma steps_of_ordered:
  assumes "canonical_sequence s"
  shows "schedule_ordered (steps_of hash s)"
proof -
  let ?ss = "steps_of hash s"
  have "set (step_requires (?ss ! i)) \<subseteq> set (map step_id (take i ?ss))" if "i < length ?ss" for i
    using schedule_steps_requires [of i "items_of s" hash Map.empty] that
    by (simp add: steps_of_def schedule_steps_fields)
  moreover have "step_id (?ss ! i) \<in> set (step_requires (?ss ! Suc i))" if "i < length ?ss - 1" for i
    using schedule_steps_chain [OF sorted_items_of phases_items_of [OF assms], of i hash Map.empty] that
    by (simp add: steps_of_def schedule_steps_fields)
  ultimately show ?thesis
    using sorted_step_phases by (auto simp: schedule_ordered_def list_all_iff)
qed

text \<open>
  The activation schedule of every plan that compiles covers each obligation of the
  sigils and of their interactions exactly once, orders the steps by phase, lets a step depend
  only on earlier steps, and makes every step depend on the one right before it, so the plan
  can only be executed in one order.
\<close>

theorem activation_schedule_ordered:
  assumes "compile_activation_plan hash s = Inr plan"
  shows "distinct (map step_obligation (act_steps plan))
    \<and> set (map step_obligation (act_steps plan))
        = set (plan_obligations (composed_base (act_composed plan)))
          \<union> set (composed_emergent_obligations (act_composed plan))
    \<and> schedule_ordered (act_steps plan)"
proof -
  from assms have c: "canonical_sequence s" and plan: "plan = activation_plan_of hash s"
    by (simp_all add: compile_activation_plan_eq_Inr)
  have "set (obligations_of s) = set (plan_obligations (composed_base (composed_plan_of hash s)))
      \<union> set (composed_emergent_obligations (composed_plan_of hash s))"
    using composed_plan_obligations [of hash s] by (metis set_append set_sorted_set)
  with plan show ?thesis
    using distinct_step_obligations set_step_obligations steps_of_ordered [OF c]
    by (simp add: activation_plan_of_def)
qed

lemma canonical_ka_vor: "canonical_sequence [''ka'', ''vor'']"
  by (simp add: canonical_sequence_def CANONICAL_SIGIL_ORDER_def)

theorem activation_schedule_ordered_witness:
  "compile_activation_plan (\<lambda>m. rev m) [''ka'', ''vor'']
     = Inr (activation_plan_of (\<lambda>m. rev m) [''ka'', ''vor''])
   \<and> schedule_ordered (act_steps (activation_plan_of (\<lambda>m. rev m) [''ka'', ''vor'']))"
proof -
  have h: "compile_activation_plan (\<lambda>m. rev m) [''ka'', ''vor'']
     = Inr (activation_plan_of (\<lambda>m. rev m) [''ka'', ''vor''])"
    by (rule compile_activation_plan_canonical [OF canonical_ka_vor])
  from activation_schedule_ordered [OF h] h show ?thesis by simp
qed

text \<open>
  The digest of an activation plan identifies the sigil sequence it was compiled from: two
  plans that compile with the same digest come from the same sequence, unless one of the three
  hash computations on the way exhibits a collision of the hash function.
\<close>

theorem activation_digest_identifies_sigils:
  assumes "\<And>m. hex64 (hash m)"
    and "compile_activation_plan hash s = Inr p" and "compile_activation_plan hash t = Inr q"
    and "act_digest p = act_digest q"
  shows "s = t \<or> preimage_collision hash (activation_preimages hash s) (activation_preimages hash t)"
  using assms activation_digest_binds [of hash s t] by (simp add: compile_activation_plan_eq_Inr)

theorem activation_digest_identifies_sigils_witness:
  "preimage_collision (\<lambda>m. replicate 64 (CHR ''a''))
     (activation_preimages (\<lambda>m. replicate 64 (CHR ''a'')) [''ka'', ''vor''])
     (activation_preimages (\<lambda>m. replicate 64 (CHR ''a'')) [''vor''])"
proof -
  have hex: "hex64 (replicate 64 (CHR ''a''))"
    by (simp add: hex64_def list_all_iff hex_char_def cp_def)
  have vor: "canonical_sequence [''vor'']"
    by (simp add: canonical_sequence_def CANONICAL_SIGIL_ORDER_def)
  have "[''ka'', ''vor''] = [''vor''] \<or> preimage_collision (\<lambda>m. replicate 64 (CHR ''a''))
     (activation_preimages (\<lambda>m. replicate 64 (CHR ''a'')) [''ka'', ''vor''])
     (activation_preimages (\<lambda>m. replicate 64 (CHR ''a'')) [''vor''])"
    by (rule activation_digest_identifies_sigils
        [OF hex compile_activation_plan_canonical [OF canonical_ka_vor]
            compile_activation_plan_canonical [OF vor]])
      (simp add: activation_plan_of_def digest_of_def)
  then show ?thesis by simp
qed

end
