(* ===== verification/Sigil_Semantics.thy ===== *)
theory Sigil_Semantics
  imports Universe_Kernel
begin

text \<open>
  From parsed sigil declarations to sealed MIR: the native AST
  (\<open>koschei/native_sigils_v1.py\<close>, \<open>koschei/native_sigil_ast_v1.py\<close>), the semantic checker
  (\<open>koschei/native_sigil_semantics_v1.py\<close>) and the lowering
  (\<open>koschei/native_sigil_mir_v1.py\<close>).
\<close>

section \<open>The native AST\<close>

record source_location =
  loc_line :: int
  loc_column :: int

record sigil_declaration =
  sd_sigil :: string
  sd_subject :: string
  sd_location :: source_location

definition CANONICAL_SIGILS :: "string set" where
  "CANONICAL_SIGILS = {''ka'', ''vor'', ''shi'', ''thal'', ''nur''}"

text \<open>The checks of \<open>__post_init__\<close>, in the two classes that have them.\<close>

definition mk_SigilDeclaration :: "string \<Rightarrow> string \<Rightarrow> source_location \<Rightarrow> sigil_declaration result" where
  "mk_SigilDeclaration sigil subject location =
     (if sigil \<notin> CANONICAL_SIGILS then raisef ValueError ''unknown Koschei sigil: {}'' [sigil]
      else if subject = [] then raise ValueError ''Koschei sigil subject cannot be empty''
      else Inr \<lparr>sd_sigil = sigil, sd_subject = subject, sd_location = location\<rparr>)"

definition mk_NativeSigilDeclaration :: "string \<Rightarrow> string \<Rightarrow> source_location \<Rightarrow> sigil_declaration result" where
  "mk_NativeSigilDeclaration sigil subject location =
     (if sigil \<notin> CANONICAL_SIGILS then raisef ValueError ''unknown canonical Koschei sigil: {}'' [sigil]
      else if subject = [] then raise ValueError ''native sigil declaration requires a subject''
      else Inr \<lparr>sd_sigil = sigil, sd_subject = subject, sd_location = location\<rparr>)"

definition mk_NativeSigilProgram :: "sigil_declaration list \<Rightarrow> sigil_declaration list result" where
  "mk_NativeSigilProgram declarations =
     (if declarations = [] then raise ValueError ''native sigil program requires at least one declaration''
      else Inr declarations)"

text \<open>
  \<open>NativeProgram\<close> extends the base \<open>Program\<close>; the modules below read only the
  sigil declarations it adds.
\<close>

record native_program =
  np_sigils :: "sigil_declaration list"

section \<open>The semantic checker\<close>

record typed_sigil_declaration =
  td_sigil :: string
  td_subject :: string
  td_semantic_domain :: string
  td_obligations :: "string list"
  td_may_grant_authority :: bool
  td_fail_closed :: bool
  td_digest :: string

record typed_sigil_program =
  tp_declarations :: "typed_sigil_declaration list"
  tp_universe_plan_digest :: string
  tp_digest :: string

definition semantics_ctx :: string where
  "semantics_ctx = ''koschei.native-sigil-semantics/v1'' @ [CHR 0x00]"

definition declaration_digest :: "(string \<Rightarrow> string) \<Rightarrow> sigil_declaration \<Rightarrow> string result" where
  "declaration_digest hash d =
     rbind (sigil_spec (sd_sigil d)) (\<lambda>spec.
       Inr (digest_of hash semantics_ctx (join ''|''
         [sd_sigil d, sd_subject d, spec_semantic_domain spec, join '','' (spec_obligations spec),
          str_bool (spec_may_grant_authority spec), str_bool (spec_fail_closed spec)])))"

fun require_admitted_subject_lineage :: "string set \<Rightarrow> sigil_declaration list \<Rightarrow> unit result" where
  "require_admitted_subject_lineage admitted [] = Inr ()"
| "require_admitted_subject_lineage admitted (d # ds) =
     (if sd_sigil d = ''ka'' then require_admitted_subject_lineage (insert (sd_subject d) admitted) ds
      else if sd_subject d \<notin> admitted then
        raisef NativeSigilSemanticError ''{} subject {!r} has no preceding ka admission''
          [sd_sigil d, sd_subject d]
      else require_admitted_subject_lineage admitted ds)"

fun reject_duplicates :: "(string \<times> string) set \<Rightarrow> sigil_declaration list \<Rightarrow> unit result" where
  "reject_duplicates seen [] = Inr ()"
| "reject_duplicates seen (d # ds) =
     (if (sd_sigil d, sd_subject d) \<in> seen then
        raisef NativeSigilSemanticError ''duplicate native sigil subject: {} {}'' [sd_sigil d, sd_subject d]
      else reject_duplicates (insert (sd_sigil d, sd_subject d) seen) ds)"

definition type_declaration :: "(string \<Rightarrow> string) \<Rightarrow> sigil_declaration \<Rightarrow> typed_sigil_declaration result" where
  "type_declaration hash d =
     rbind (sigil_spec (sd_sigil d)) (\<lambda>spec.
     rbind (declaration_digest hash d) (\<lambda>digest.
       Inr \<lparr>td_sigil = sd_sigil d, td_subject = sd_subject d,
            td_semantic_domain = spec_semantic_domain spec, td_obligations = spec_obligations spec,
            td_may_grant_authority = spec_may_grant_authority spec,
            td_fail_closed = spec_fail_closed spec, td_digest = digest\<rparr>))"

text \<open>\<open>except UniverseKernelError as error: raise NativeSigilSemanticError(str(error))\<close>.\<close>

definition reraise_kernel :: "'a result \<Rightarrow> 'a result" where
  "reraise_kernel m = (case m of
     Inl e \<Rightarrow> if exc_of e = UniverseKernelError
             then raisef NativeSigilSemanticError (exc_format e) (exc_args e) else Inl e
   | Inr x \<Rightarrow> Inr x)"

definition check_native_sigils :: "(string \<Rightarrow> string) \<Rightarrow> native_program \<Rightarrow> typed_sigil_program result" where
  "check_native_sigils hash program =
     (if np_sigils program = [] then
        Inr \<lparr>tp_declarations = [], tp_universe_plan_digest = [], tp_digest = hash semantics_ctx\<rparr>
      else
        rbind (reject_duplicates {} (np_sigils program)) (\<lambda>_.
        rbind (reraise_kernel (compile_universe_plan hash (map sd_sigil (np_sigils program)))) (\<lambda>plan.
        rbind (require_admitted_subject_lineage {} (np_sigils program)) (\<lambda>_.
        rbind (rmap (type_declaration hash) (np_sigils program)) (\<lambda>typed.
          Inr \<lparr>tp_declarations = typed, tp_universe_plan_digest = plan_digest plan,
               tp_digest = digest_of hash semantics_ctx (join nl
                 (kv ''universe'' (plan_digest plan) # map (\<lambda>item. kv ''decl'' (td_digest item)) typed))\<rparr>)))))"

section \<open>The sealed MIR\<close>

record mir_sigil_binding =
  mb_sigil :: string
  mb_subject :: string
  mb_semantic_domain :: string
  mb_may_grant_authority :: bool
  mb_obligations :: "string list"
  mb_source_line :: int
  mb_source_column :: int

record native_sigil_mir =
  mir_bindings :: "mir_sigil_binding list"
  mir_universe_plan_digest :: string
  mir_fingerprint :: string
  mir_version :: int

definition mir_ctx :: string where
  "mir_ctx = ''koschei.native-sigil-mir/v1'' @ [CHR 0x00]"

definition binding_row :: "mir_sigil_binding \<Rightarrow> string" where
  "binding_row b = join ''|''
     [kv ''sigil'' (mb_sigil b), kv ''subject'' (mb_subject b), kv ''domain'' (mb_semantic_domain b),
      kv ''authority'' (str_bool (mb_may_grant_authority b)),
      kv ''obligations'' (join '','' (mb_obligations b))]"

definition fingerprint :: "(string \<Rightarrow> string) \<Rightarrow> mir_sigil_binding list \<Rightarrow> string \<Rightarrow> string" where
  "fingerprint hash bindings universe =
     digest_of hash mir_ctx (join nl (kv ''universe'' universe # map binding_row bindings))"

definition mir_assert_sealed :: "(string \<Rightarrow> string) \<Rightarrow> native_sigil_mir \<Rightarrow> unit result" where
  "mir_assert_sealed hash mir =
     (if mir_bindings mir = [] then
        raise NativeSigilMirError ''native sigil MIR requires at least one binding''
      else if mir_fingerprint mir \<noteq> fingerprint hash (mir_bindings mir) (mir_universe_plan_digest mir) then
        raise NativeSigilMirError ''native sigil MIR fingerprint mismatch''
      else Inr ())"

definition require_report_matches_program ::
  "(string \<Rightarrow> string) \<Rightarrow> native_program \<Rightarrow> typed_sigil_program \<Rightarrow> typed_sigil_program result" where
  "require_report_matches_program hash program report =
     rbind (check_native_sigils hash program) (\<lambda>canonical.
       if report \<noteq> canonical then
         raise NativeSigilMirError ''native sigil semantic report does not match the supplied program''
       else Inr report)"

definition bind_typed :: "sigil_declaration \<times> typed_sigil_declaration \<Rightarrow> mir_sigil_binding result" where
  "bind_typed = (\<lambda>(declaration, typed).
     if (sd_sigil declaration, sd_subject declaration) \<noteq> (td_sigil typed, td_subject typed) then
       raise NativeSigilMirError ''native sigil semantic declaration identity mismatch''
     else Inr \<lparr>mb_sigil = td_sigil typed, mb_subject = td_subject typed,
               mb_semantic_domain = td_semantic_domain typed,
               mb_may_grant_authority = td_may_grant_authority typed,
               mb_obligations = td_obligations typed,
               mb_source_line = loc_line (sd_location declaration),
               mb_source_column = loc_column (sd_location declaration)\<rparr>)"

definition lower_native_sigils ::
  "(string \<Rightarrow> string) \<Rightarrow> native_program \<Rightarrow> typed_sigil_program option \<Rightarrow> native_sigil_mir result" where
  "lower_native_sigils hash program report =
     rbind (case report of None \<Rightarrow> check_native_sigils hash program
            | Some r \<Rightarrow> require_report_matches_program hash program r) (\<lambda>semantic.
       if tp_declarations semantic = [] then
         raise NativeSigilMirError ''native program contains no sigil semantics''
       else if length (tp_declarations semantic) \<noteq> length (np_sigils program) then
         raise NativeSigilMirError ''native sigil semantic declaration count mismatch''
       else rbind (rmap bind_typed (zip (np_sigils program) (tp_declarations semantic))) (\<lambda>bindings.
         let result = \<lparr>mir_bindings = bindings,
               mir_universe_plan_digest = tp_universe_plan_digest semantic,
               mir_fingerprint = fingerprint hash bindings (tp_universe_plan_digest semantic),
               mir_version = 1\<rparr>
         in rbind (mir_assert_sealed hash result) (\<lambda>_. Inr result)))"

section \<open>What the checker accepts\<close>

text \<open>One subject, admitted by the \<open>ka\<close> that opens the program.\<close>

definition wf_sigil_program :: "sigil_declaration list \<Rightarrow> bool" where
  "wf_sigil_program ds \<longleftrightarrow> canonical_sequence (map sd_sigil ds) \<and> sd_sigil (hd ds) = ''ka''
     \<and> (\<forall>d \<in> set ds. sd_subject d = sd_subject (hd ds))"

lemma reject_duplicates_ok:
  "is_ok (reject_duplicates seen ds) \<longleftrightarrow>
     distinct (map (\<lambda>d. (sd_sigil d, sd_subject d)) ds)
     \<and> (\<forall>d \<in> set ds. (sd_sigil d, sd_subject d) \<notin> seen)"
proof (induction ds arbitrary: seen)
  case (Cons d ds)
  then show ?case by (auto simp: image_iff)
qed simp

lemma lineage_without_ka:
  assumes "''ka'' \<notin> sd_sigil ` set ds"
  shows "is_ok (require_admitted_subject_lineage admitted ds) \<longleftrightarrow> sd_subject ` set ds \<subseteq> admitted"
  using assms by (induction ds) auto

lemma lineage_ok:
  assumes "canonical_sequence (map sd_sigil ds)"
  shows "is_ok (require_admitted_subject_lineage {} ds) \<longleftrightarrow> wf_sigil_program ds"
proof -
  from assms obtain d es where ds: "ds = d # es" by (cases ds) (auto simp: canonical_sequence_def)
  show ?thesis
  proof (cases "sd_sigil d = ''ka''")
    case True
    with assms ds have "''ka'' \<notin> sd_sigil ` set es" by (auto simp: canonical_sequence_def)
    with True assms ds show ?thesis by (auto simp: lineage_without_ka wf_sigil_program_def)
  next
    case False
    then show ?thesis by (simp add: ds wf_sigil_program_def)
  qed
qed

lemma reraise_kernel_Inr [simp]: "reraise_kernel m = Inr x \<longleftrightarrow> m = Inr x"
  by (auto simp: reraise_kernel_def split: sum.splits)

definition spec_of :: "string \<Rightarrow> sigilspec" where
  "spec_of s = the (map_of SIGILS s)"

definition typed_of :: "(string \<Rightarrow> string) \<Rightarrow> sigil_declaration \<Rightarrow> typed_sigil_declaration" where
  "typed_of hash d = (let spec = spec_of (sd_sigil d) in
     \<lparr>td_sigil = sd_sigil d, td_subject = sd_subject d,
      td_semantic_domain = spec_semantic_domain spec, td_obligations = spec_obligations spec,
      td_may_grant_authority = spec_may_grant_authority spec, td_fail_closed = spec_fail_closed spec,
      td_digest = digest_of hash semantics_ctx (join ''|''
         [sd_sigil d, sd_subject d, spec_semantic_domain spec, join '','' (spec_obligations spec),
          str_bool (spec_may_grant_authority spec), str_bool (spec_fail_closed spec)])\<rparr>)"

lemma type_declaration_known:
  assumes "sd_sigil d \<in> set CANONICAL_SIGIL_ORDER"
  shows "type_declaration hash d = Inr (typed_of hash d)"
  using sigil_spec_eq [OF assms]
  by (simp add: type_declaration_def declaration_digest_def typed_of_def spec_of_def Let_def)

lemma rmap_type_declaration:
  "canonical_sequence (map sd_sigil ds) \<Longrightarrow> rmap (type_declaration hash) ds = Inr (map (typed_of hash) ds)"
  by (rule rmap_total) (auto intro!: type_declaration_known simp: canonical_sequence_def)

definition typed_program_of :: "(string \<Rightarrow> string) \<Rightarrow> sigil_declaration list \<Rightarrow> typed_sigil_program" where
  "typed_program_of hash ds = (let plan = universe_plan_of hash (map sd_sigil ds) in
     \<lparr>tp_declarations = map (typed_of hash) ds, tp_universe_plan_digest = plan_digest plan,
      tp_digest = digest_of hash semantics_ctx (join nl
        (kv ''universe'' (plan_digest plan) # map (\<lambda>d. kv ''decl'' (td_digest (typed_of hash d))) ds))\<rparr>)"

lemma distinct_keys:
  "canonical_sequence (map sd_sigil ds) \<Longrightarrow> distinct (map (\<lambda>d. (sd_sigil d, sd_subject d)) ds)"
  by (auto simp: canonical_sequence_def distinct_map inj_on_def)

lemma check_native_sigils_eq_Inr:
  assumes "np_sigils p \<noteq> []"
  shows "check_native_sigils hash p = Inr t \<longleftrightarrow>
     wf_sigil_program (np_sigils p) \<and> t = typed_program_of hash (np_sigils p)"
proof (cases "canonical_sequence (map sd_sigil (np_sigils p))")
  case True
  from distinct_keys [OF True] have "reject_duplicates {} (np_sigils p) = Inr ()"
    by (simp add: unit_result_eq reject_duplicates_ok)
  with assms True show ?thesis
    by (auto simp: check_native_sigils_def rbind_eq_Inr unit_result_eq compile_universe_plan_eq_Inr
        lineage_ok rmap_type_declaration typed_program_of_def Let_def comp_def)
next
  case False
  with assms show ?thesis
    by (auto simp: check_native_sigils_def rbind_eq_Inr compile_universe_plan_eq_Inr wf_sigil_program_def)
qed

text \<open>The bindings of an accepted program, and the MIR it lowers to.\<close>

definition binding_of :: "sigil_declaration \<Rightarrow> mir_sigil_binding" where
  "binding_of d = (let spec = spec_of (sd_sigil d) in
     \<lparr>mb_sigil = sd_sigil d, mb_subject = sd_subject d,
      mb_semantic_domain = spec_semantic_domain spec,
      mb_may_grant_authority = spec_may_grant_authority spec,
      mb_obligations = spec_obligations spec,
      mb_source_line = loc_line (sd_location d), mb_source_column = loc_column (sd_location d)\<rparr>)"

definition mir_of :: "(string \<Rightarrow> string) \<Rightarrow> sigil_declaration list \<Rightarrow> native_sigil_mir" where
  "mir_of hash ds = (let universe = plan_digest (universe_plan_of hash (map sd_sigil ds)) in
     \<lparr>mir_bindings = map binding_of ds, mir_universe_plan_digest = universe,
      mir_fingerprint = fingerprint hash (map binding_of ds) universe, mir_version = 1\<rparr>)"

lemma rmap_bind_typed:
  "rmap bind_typed (zip ds (map (typed_of hash) ds)) = Inr (map binding_of ds)"
  by (induction ds) (simp_all add: bind_typed_def typed_of_def binding_of_def Let_def)

lemma mir_of_sealed: "ds \<noteq> [] \<Longrightarrow> mir_assert_sealed hash (mir_of hash ds) = Inr ()"
  by (simp add: mir_assert_sealed_def mir_of_def Let_def)

lemma lower_typed_program:
  assumes "ds \<noteq> []" and "np_sigils p = ds"
    and "(case report of None \<Rightarrow> check_native_sigils hash p
            | Some r \<Rightarrow> require_report_matches_program hash p r) = Inr (typed_program_of hash ds)"
  shows "lower_native_sigils hash p report = Inr (mir_of hash ds)"
  using assms mir_of_sealed [OF assms(1), of hash]
  by (simp add: lower_native_sigils_def rmap_bind_typed Let_def typed_program_of_def mir_of_def)

lemma lowering_characterised:
  "lower_native_sigils hash program report = Inr mir \<longleftrightarrow>
     wf_sigil_program (np_sigils program)
     \<and> report \<in> {None, Some (typed_program_of hash (np_sigils program))}
     \<and> mir = mir_of hash (np_sigils program)"
proof (cases "np_sigils program = []")
  case True
  then show ?thesis
    by (auto simp: lower_native_sigils_def check_native_sigils_def require_report_matches_program_def
        wf_sigil_program_def canonical_sequence_def rbind_eq_Inr split: option.splits)
next
  case False
  note check = check_native_sigils_eq_Inr [OF False]
  have report: "(case report of None \<Rightarrow> check_native_sigils hash program
            | Some r \<Rightarrow> require_report_matches_program hash program r) = Inr t \<longleftrightarrow>
      wf_sigil_program (np_sigils program) \<and> t = typed_program_of hash (np_sigils program)
      \<and> report \<in> {None, Some (typed_program_of hash (np_sigils program))}" for t
    by (auto simp: require_report_matches_program_def rbind_eq_Inr check split: option.splits)
  show ?thesis
  proof
    assume l: "lower_native_sigils hash program report = Inr mir"
    then obtain t where t: "(case report of None \<Rightarrow> check_native_sigils hash program
            | Some r \<Rightarrow> require_report_matches_program hash program r) = Inr t"
      by (auto simp: lower_native_sigils_def rbind_eq_Inr)
    with report [of t] lower_typed_program [OF False refl] l
    show "wf_sigil_program (np_sigils program)
     \<and> report \<in> {None, Some (typed_program_of hash (np_sigils program))}
     \<and> mir = mir_of hash (np_sigils program)" by auto
  next
    assume "wf_sigil_program (np_sigils program)
     \<and> report \<in> {None, Some (typed_program_of hash (np_sigils program))}
     \<and> mir = mir_of hash (np_sigils program)"
    with report lower_typed_program [OF False refl] show "lower_native_sigils hash program report = Inr mir"
      by blast
  qed
qed

text \<open>
  Lowering accepts exactly the programs whose sigils form a canonical sequence opened by
  \<open>ka\<close> and whose declarations all name the subject that this \<open>ka\<close> admitted; a supplied semantic
  report must be the one the checker derives. The MIR it returns is sealed and carries the canonical
  meaning of every declaration.
\<close>

theorem lowering_exact:
  "(lower_native_sigils hash program report = Inr mir \<longleftrightarrow>
     wf_sigil_program (np_sigils program)
     \<and> report \<in> {None, Some (typed_program_of hash (np_sigils program))}
     \<and> mir = mir_of hash (np_sigils program))
   \<and> is_ok (mir_assert_sealed hash (mir_of hash (d # ds)))"
  using lowering_characterised mir_of_sealed [of "d # ds" hash] by simp

section \<open>What the fingerprint binds\<close>

definition meaning :: "sigil_declaration list \<Rightarrow> (string \<times> string) list" where
  "meaning ds = map (\<lambda>d. (sd_sigil d, sd_subject d)) ds"

definition mir_payload :: "(string \<Rightarrow> string) \<Rightarrow> sigil_declaration list \<Rightarrow> string" where
  "mir_payload hash ds = join nl (kv ''universe'' (plan_digest (universe_plan_of hash (map sd_sigil ds)))
     # map binding_row (map binding_of ds))"

lemma mir_of_fingerprint: "mir_fingerprint (mir_of hash ds) = digest_of hash mir_ctx (mir_payload hash ds)"
  by (simp add: mir_of_def fingerprint_def mir_payload_def Let_def)

definition meaning_parts :: "string \<times> string \<Rightarrow> string list" where
  "meaning_parts = (\<lambda>(sigil, subject). let spec = spec_of sigil in
     [kv ''sigil'' sigil, kv ''subject'' subject, kv ''domain'' (spec_semantic_domain spec),
      kv ''authority'' (str_bool (spec_may_grant_authority spec)),
      kv ''obligations'' (join '','' (spec_obligations spec))])"

lemma binding_row_of: "binding_row (binding_of d) = join ''|'' (meaning_parts (sd_sigil d, sd_subject d))"
  by (simp add: binding_row_def binding_of_def meaning_parts_def Let_def)

lemma mir_payload_meaning:
  "mir_payload hash ds = join nl (kv ''universe'' (plan_digest (universe_plan_of hash (map fst (meaning ds))))
     # map (\<lambda>m. join ''|'' (meaning_parts m)) (meaning ds))"
  by (simp add: mir_payload_def meaning_def comp_def binding_row_of)

definition clean :: "string \<Rightarrow> bool" where
  "clean s \<longleftrightarrow> CHR ''|'' \<notin> set s \<and> CHR 0x0A \<notin> set s"

lemma spec_texts_clean:
  "list_all (\<lambda>(sigil, spec). clean sigil \<and> clean (spec_semantic_domain spec)
     \<and> clean (join '','' (spec_obligations spec))) SIGILS"
  by code_simp

lemma spec_of_clean:
  assumes "sigil \<in> set CANONICAL_SIGIL_ORDER"
  shows "clean sigil" and "clean (spec_semantic_domain (spec_of sigil))"
    and "clean (join '','' (spec_obligations (spec_of sigil)))"
proof -
  from assms obtain spec where "map_of SIGILS sigil = Some spec" using dom_SIGILS by blast
  then have "(sigil, spec) \<in> set SIGILS" and "spec_of sigil = spec"
    by (simp_all add: map_of_SomeD spec_of_def)
  with spec_texts_clean show "clean sigil" "clean (spec_semantic_domain (spec_of sigil))"
    "clean (join '','' (spec_obligations (spec_of sigil)))" by (auto simp: list_all_iff)
qed

lemma meaning_parts_clean:
  assumes "sigil \<in> set CANONICAL_SIGIL_ORDER" and "clean subject"
  shows "\<forall>part \<in> set (meaning_parts (sigil, subject)). clean part"
  using spec_of_clean [OF assms(1)] assms(2)
  by (auto simp: meaning_parts_def Let_def clean_def kv_def str_bool_def)

lemma meaning_parts_inj: "meaning_parts m = meaning_parts n \<Longrightarrow> m = n"
  by (cases m; cases n) (simp add: meaning_parts_def Let_def)

lemma meaning_parts_join_inj:
  assumes "\<forall>part \<in> set (meaning_parts m). clean part" and "\<forall>part \<in> set (meaning_parts n). clean part"
    and "join ''|'' (meaning_parts m) = join ''|'' (meaning_parts n)"
  shows "m = n"
proof (rule meaning_parts_inj, rule join_inj [of _ "CHR ''|''"])
  show "length (meaning_parts m) = length (meaning_parts n)"
    by (cases m; cases n) (simp add: meaning_parts_def Let_def)
qed (use assms in \<open>auto simp: clean_def\<close>)

lemma join_no_newline:
  assumes "\<forall>part \<in> set parts. clean part" shows "CHR 0x0A \<notin> set (join ''|'' parts)"
  using assms set_join [of "''|''" parts] by (auto simp: clean_def)

definition clean_program :: "sigil_declaration list \<Rightarrow> bool" where
  "clean_program ds \<longleftrightarrow> wf_sigil_program ds \<and> (\<forall>d \<in> set ds. clean (sd_subject d))"

lemma clean_program_rows:
  assumes "clean_program ds" and "m \<in> set (meaning ds)"
  shows "\<forall>part \<in> set (meaning_parts m). clean part"
proof -
  from assms(2) obtain d where d: "d \<in> set ds" and m: "m = (sd_sigil d, sd_subject d)"
    by (auto simp: meaning_def)
  from assms(1) d have "clean (sd_subject d)" by (simp add: clean_program_def)
  moreover from assms(1) have "set (map sd_sigil ds) \<subseteq> set CANONICAL_SIGIL_ORDER"
    by (simp add: clean_program_def wf_sigil_program_def canonical_sequence_def)
  with d have "sd_sigil d \<in> set CANONICAL_SIGIL_ORDER" by auto
  ultimately show ?thesis unfolding m by (intro meaning_parts_clean)
qed

lemma mir_payload_inj:
  assumes hx: "hexdigest hash" and ds: "clean_program ds" and es: "clean_program es"
    and eq: "mir_payload hash ds = mir_payload hash es"
  shows "meaning ds = meaning es"
proof -
  let ?row = "\<lambda>m. join ''|'' (meaning_parts m)"
  have head: "CHR 0x0A \<notin> set (kv ''universe'' (plan_digest (universe_plan_of hash s)))" for s
    using hexdigest.digest_no_newline [OF hx]
    by (simp add: universe_plan_of_def canonical_digest_def Let_def)
  let ?rows = "\<lambda>xs. kv ''universe'' (plan_digest (universe_plan_of hash (map fst (meaning xs))))
      # map ?row (meaning xs)"
  have rows: "\<forall>x \<in> set (?rows xs). CHR 0x0A \<notin> set x" if "clean_program xs" for xs
    using clean_program_rows [OF that] join_no_newline head by auto
  have "join [CHR 0x0A] (?rows ds) = join [CHR 0x0A] (?rows es)"
    using eq unfolding mir_payload_meaning nl_def .
  from join_inj_nonempty [OF rows [OF ds] rows [OF es] list.distinct(2) list.distinct(2) this]
  have "map ?row (meaning ds) = map ?row (meaning es)" by (rule list.inject [THEN iffD1, THEN conjunct2])
  moreover have "inj_on ?row (set (meaning ds) \<union> set (meaning es))"
    using clean_program_rows [OF ds] clean_program_rows [OF es] meaning_parts_join_inj
    by (intro inj_onI) blast
  ultimately show ?thesis by (rule map_inj_on)
qed

text \<open>
  The fingerprint of a lowered program is its meaning: programs that differ only in source
  locations get the same fingerprint, and two accepted programs with the same fingerprint declare the
  same sigils of the same subjects, unless their two payloads collide under the hash. Subjects are
  taken free of the row delimiters, as identifiers are.
\<close>

theorem fingerprint_is_meaning:
  assumes "hexdigest hash"
    and "lower_native_sigils hash p r = Inr m" and "lower_native_sigils hash q r' = Inr n"
    and "\<forall>d \<in> set (np_sigils p @ np_sigils q). clean (sd_subject d)"
  shows "(meaning (np_sigils p) = meaning (np_sigils q) \<longrightarrow> mir_fingerprint m = mir_fingerprint n)
    \<and> (mir_fingerprint m = mir_fingerprint n \<longrightarrow> meaning (np_sigils p) = meaning (np_sigils q)
        \<or> collision hash (mir_ctx @ utf8 (mir_payload hash (np_sigils p)))
            (mir_ctx @ utf8 (mir_payload hash (np_sigils q))))"
proof -
  from assms(2-4) have "clean_program (np_sigils p)" "clean_program (np_sigils q)"
    and mn: "m = mir_of hash (np_sigils p)" "n = mir_of hash (np_sigils q)"
    by (auto simp: lowering_characterised clean_program_def)
  with mir_payload_inj [OF assms(1)] show ?thesis
    by (auto simp: mir_of_fingerprint mir_payload_meaning dest: digest_of_eq)
qed

definition decl_at :: "string \<Rightarrow> string \<Rightarrow> int \<Rightarrow> sigil_declaration" where
  "decl_at sigil subject line = \<lparr>sd_sigil = sigil, sd_subject = subject,
     sd_location = \<lparr>loc_line = line, loc_column = 1\<rparr>\<rparr>"

theorem fingerprint_is_meaning_witness:
  "\<exists>m n. lower_native_sigils tail_hash \<lparr>np_sigils = [decl_at ''ka'' ''door'' 1, decl_at ''vor'' ''door'' 2]\<rparr> None = Inr m
     \<and> lower_native_sigils tail_hash \<lparr>np_sigils = [decl_at ''ka'' ''door'' 4, decl_at ''vor'' ''door'' 9]\<rparr> None = Inr n
     \<and> m \<noteq> n \<and> mir_fingerprint m = mir_fingerprint n"
proof -
  let ?p = "\<lparr>np_sigils = [decl_at ''ka'' ''door'' 1, decl_at ''vor'' ''door'' 2]\<rparr>"
  let ?q = "\<lparr>np_sigils = [decl_at ''ka'' ''door'' 4, decl_at ''vor'' ''door'' 9]\<rparr>"
  have m: "lower_native_sigils tail_hash ?p None = Inr (mir_of tail_hash (np_sigils ?p))"
    and n: "lower_native_sigils tail_hash ?q None = Inr (mir_of tail_hash (np_sigils ?q))"
    using canonical_ka_vor by (simp_all add: lowering_characterised wf_sigil_program_def decl_at_def)
  have "\<forall>d \<in> set (np_sigils ?p @ np_sigils ?q). clean (sd_subject d)"
    by (simp add: decl_at_def clean_def)
  from fingerprint_is_meaning [OF tail_hash.hexdigest_axioms m n this]
  have "mir_fingerprint (mir_of tail_hash (np_sigils ?p)) = mir_fingerprint (mir_of tail_hash (np_sigils ?q))"
    by (simp add: meaning_def decl_at_def)
  moreover have "mir_of tail_hash (np_sigils ?p) \<noteq> mir_of tail_hash (np_sigils ?q)"
    by (simp add: mir_of_def Let_def binding_of_def decl_at_def)
  ultimately show ?thesis using m n by blast
qed

end
