(* ===== verification/Syntax_Tree.thy ===== *)
theory Syntax_Tree
  imports Lexer Sigil_Semantics
begin

text \<open>
  The syntax tree of the language (\<open>koschei/ast_nodes.py\<close>, with the declaration nodes of
  \<open>koschei/generic_nodes.py\<close>), and \<open>NativeProgram\<close>, what the parser returns.
\<close>

record type_ref =
  tr_names :: "string list"
  tr_location :: source_location

datatype literal = Str_Lit string | Int_Lit int | Float_Lit string | Bool_Lit bool

datatype expression =
    Identifier string source_location
  | Literal literal source_location
  | InterpolatedString "expression list" source_location
  | StructLiteral string "(string \<times> expression) list" source_location
  | ListLiteral "expression list" source_location
  | MapLiteral "(expression \<times> expression) list" source_location
  | MemberExpression expression string source_location
  | CallExpression expression "expression list" source_location
  | AssignmentExpression expression expression source_location
  | BinaryExpression expression string expression source_location
  | UnaryExpression string expression source_location
  | OrReturnExpression expression "expression option" source_location
  | OrElseExpression expression expression source_location
  | OrBlockExpression expression block source_location
  | MatchExpression expression "match_arm list" source_location
and match_arm = MatchArm string "string option" arm_body source_location
and arm_body = Expression_Body expression | Block_Body block
and statement =
    LetStatement string bool expression source_location "type_ref option"
  | ReturnStatement "expression option" source_location
  | ExpressionStatement expression source_location
  | IfStatement expression block "else_branch option" source_location
  | WhileStatement expression block source_location
  | ForStatement string expression block source_location
  | BreakStatement source_location
  | ContinueStatement source_location
and else_branch = Else_Block block | Else_If statement
and block = Block "statement list"

fun location_of :: "expression \<Rightarrow> source_location" where
  "location_of (Identifier _ l) = l"
| "location_of (Literal _ l) = l"
| "location_of (InterpolatedString _ l) = l"
| "location_of (StructLiteral _ _ l) = l"
| "location_of (ListLiteral _ l) = l"
| "location_of (MapLiteral _ l) = l"
| "location_of (MemberExpression _ _ l) = l"
| "location_of (CallExpression _ _ l) = l"
| "location_of (AssignmentExpression _ _ l) = l"
| "location_of (BinaryExpression _ _ _ l) = l"
| "location_of (UnaryExpression _ _ l) = l"
| "location_of (OrReturnExpression _ _ l) = l"
| "location_of (OrElseExpression _ _ l) = l"
| "location_of (OrBlockExpression _ _ l) = l"
| "location_of (MatchExpression _ _ l) = l"

record parameter =
  pm_name :: string
  pm_type_ref :: type_ref
  pm_location :: source_location

record import_declaration =
  im_name :: string
  im_location :: source_location

record struct_field =
  sf_name :: string
  sf_type_ref :: type_ref
  sf_location :: source_location

record struct_declaration =
  st_name :: string
  st_fields :: "struct_field list"
  st_location :: source_location
  st_type_parameters :: "string list"
  st_is_stateful :: bool
  st_initial_state :: "string option"

record enum_variant =
  ev_name :: string
  ev_payload_type :: "type_ref option"
  ev_location :: source_location

record enum_declaration =
  en_name :: string
  en_variants :: "enum_variant list"
  en_location :: source_location
  en_type_parameters :: "string list"

record function_declaration =
  fn_name :: string
  fn_parameters :: "parameter list"
  fn_return_type :: "type_ref option"
  fn_body :: block
  fn_location :: source_location
  fn_is_pure :: bool
  fn_type_parameters :: "string list"
  fn_is_transition :: bool

text \<open>\<open>NativeProgram\<close>; its sigil declarations are the \<open>native_program\<close> part that the
  semantic checker reads.\<close>

record program =
  pr_declarations :: "function_declaration list"
  pr_structs :: "struct_declaration list"
  pr_imports :: "import_declaration list"
  pr_enums :: "enum_declaration list"
  pr_sigils :: "sigil_declaration list"

end
