(* ===== verification/Sigil_Parser.thy ===== *)
theory Sigil_Parser
  imports Lexer Sigil_Semantics
begin

text \<open>
  The parser of native sigil declarations (\<open>koschei/native_sigil_parser_v1.py\<close>): a cursor
  over the token list of the scanner. The grammar is a non-empty sequence of
  \<open>sigil name ;\<close>.
\<close>

section \<open>The parser\<close>

definition SIGIL_TOKEN_TO_TEXT :: "(TokenType \<times> string) list" where
  "SIGIL_TOKEN_TO_TEXT =
     [(T_KA, ''ka''), (T_VOR, ''vor''), (T_SHI, ''shi''), (T_THAL, ''thal''), (T_NUR, ''nur'')]"

text \<open>The parser object: the tokens and the cursor.\<close>

definition parser_peek :: "token list \<Rightarrow> nat \<Rightarrow> token result" where
  "parser_peek tokens current =
     (if current < length tokens then Inr (tokens ! current)
      else raise IndexError ''list index out of range'')"

definition parser_advance :: "token list \<Rightarrow> nat \<Rightarrow> nat result" where
  "parser_advance tokens current =
     rbind (parser_peek tokens current) (\<lambda>token.
       Inr (if tk_type token \<noteq> T_EOF then current + 1 else current))"

definition parser_check :: "token list \<Rightarrow> nat \<Rightarrow> TokenType \<Rightarrow> bool result" where
  "parser_check tokens current token_type =
     rbind (parser_peek tokens current) (\<lambda>token. Inr (tk_type token = token_type))"

definition parser_error :: "token \<Rightarrow> string \<Rightarrow> string list \<Rightarrow> 'a result" where
  "parser_error token message args =
     raisef NativeSigilParserError (''[line {}, column {}] '' @ message)
       (str_int (tk_line token) # str_int (tk_column token) # args)"

definition parser_consume :: "token list \<Rightarrow> nat \<Rightarrow> TokenType \<Rightarrow> string \<Rightarrow> nat result" where
  "parser_consume tokens current token_type message =
     rbind (parser_check tokens current token_type) (\<lambda>ok.
       if ok then parser_advance tokens current
       else rbind (parser_peek tokens current) (\<lambda>token. parser_error token message []))"

text \<open>\<open>str(subject.value)\<close>: the scanner gives every name token a string value.\<close>

fun str_value :: "token_value \<Rightarrow> string" where
  "str_value (Str_Value s) = s"
| "str_value (Int_Value i) = str_int i"
| "str_value (Float_Value s) = s"
| "str_value _ = ''None''"

definition parse_declaration :: "token list \<Rightarrow> nat \<Rightarrow> (sigil_declaration \<times> nat) result" where
  "parse_declaration tokens current =
     rbind (parser_peek tokens current) (\<lambda>token.
     case map_of SIGIL_TOKEN_TO_TEXT (tk_type token) of
       None \<Rightarrow> parser_error token ''ka/vor/shi/thal/nur declaration expected'' []
     | Some sigil \<Rightarrow>
     rbind (parser_advance tokens current) (\<lambda>current.
     rbind (parser_peek tokens current) (\<lambda>subject.
     if tk_type subject \<notin> {T_IDENTIFIER, T_TYPE} then
       parser_error subject ''{} requires a subject name'' [sigil]
     else
     rbind (parser_advance tokens current) (\<lambda>current.
     rbind (parser_consume tokens current T_SEMICOLON (''native sigil declaration must end with ';'' @ [CHR 0x27])) (\<lambda>current.
     rbind (mk_NativeSigilDeclaration sigil (str_value (tk_value subject))
              \<lparr>loc_line = tk_line token, loc_column = tk_column token\<rparr>) (\<lambda>declaration.
       Inr (declaration, current)))))))"

text \<open>The three tokens of a declaration and what they spell.\<close>

definition spells :: "token list \<Rightarrow> sigil_declaration \<Rightarrow> bool" where
  "spells ts d \<longleftrightarrow> (\<exists>a b c.
     ts = [a, b, c] \<and> map_of SIGIL_TOKEN_TO_TEXT (tk_type a) = Some (sd_sigil d)
   \<and> tk_type b \<in> {T_IDENTIFIER, T_TYPE} \<and> str_value (tk_value b) = sd_subject d \<and> sd_subject d \<noteq> []
   \<and> tk_type c = T_SEMICOLON \<and> sd_location d = \<lparr>loc_line = tk_line a, loc_column = tk_column a\<rparr>)"

lemma sigil_text_canonical: "map_of SIGIL_TOKEN_TO_TEXT ty = Some s \<Longrightarrow> s \<in> CANONICAL_SIGILS"
  by (drule map_of_SomeD) (auto simp: SIGIL_TOKEN_TO_TEXT_def CANONICAL_SIGILS_def)

lemma sigil_token_not_eof [simp]: "map_of SIGIL_TOKEN_TO_TEXT T_EOF = None"
  by (simp add: SIGIL_TOKEN_TO_TEXT_def)

lemmas parser_defs = parse_declaration_def parser_peek_def parser_advance_def parser_consume_def
  parser_check_def parser_error_def mk_NativeSigilDeclaration_def

lemma parse_declaration_spells:
  "parse_declaration (pre @ ts) (length pre) = Inr (d, n) \<longleftrightarrow> spells (take 3 ts) d \<and> n = length pre + 3"
proof
  assume "parse_declaration (pre @ ts) (length pre) = Inr (d, n)"
  then show "spells (take 3 ts) d \<and> n = length pre + 3"
    by (cases ts; cases "tl ts"; cases "tl (tl ts)")
       (auto simp: parser_defs rbind_eq_Inr nth_append spells_def split: option.splits if_splits)
next
  assume "spells (take 3 ts) d \<and> n = length pre + 3"
  then show "parse_declaration (pre @ ts) (length pre) = Inr (d, n)"
    by (cases ts; cases "tl ts"; cases "tl (tl ts)")
       (auto simp: spells_def parser_defs nth_append sigil_text_canonical)
qed

lemma parse_declaration_advances:
  assumes "parse_declaration tokens current = Inr (d, n)"
  shows "current < length tokens \<and> n = current + 3"
proof -
  have "current < length tokens"
    using assms by (auto simp: parse_declaration_def parser_peek_def split: if_splits)
  then show ?thesis
    using assms parse_declaration_spells [of "take current tokens" "drop current tokens" d n] by simp
qed

text \<open>\<open>while not self._check(TokenType.EOF): declarations.append(self._declaration())\<close>.\<close>

function parse_loop :: "token list \<Rightarrow> nat \<Rightarrow> sigil_declaration list \<Rightarrow> sigil_declaration list result" where
  "parse_loop tokens current declarations =
     rbind (parser_check tokens current T_EOF) (\<lambda>at_eof.
       if at_eof then Inr declarations
       else rbind (parse_declaration tokens current) (\<lambda>(d, current').
         parse_loop tokens current' (declarations @ [d])))"
  by pat_completeness auto
termination
  by (relation "measure (\<lambda>(tokens, current, _). length tokens - current)")
     (auto dest!: parse_declaration_advances)

declare parse_loop.simps [simp del]

definition parse_program :: "token list \<Rightarrow> sigil_declaration list result" where
  "parse_program tokens =
     rbind (parse_loop tokens 0 []) (\<lambda>declarations.
       case mk_NativeSigilProgram declarations of
         Inl e \<Rightarrow> if exc_of e = ValueError
                 then raisef NativeSigilParserError (exc_format e) (exc_args e) else Inl e
       | Inr program \<Rightarrow> Inr program)"

definition parse_native_sigils :: "string \<Rightarrow> sigil_declaration list result" where
  "parse_native_sigils source = rbind (tokenize source False) parse_program"

section \<open>What is accepted\<close>

lemma spells_length: "spells ts d \<Longrightarrow> length ts = 3"
  by (auto simp: spells_def)

lemma spells_hd_not_eof: "spells (take 3 ts) d \<Longrightarrow> ts \<noteq> [] \<and> tk_type (hd ts) \<noteq> T_EOF"
  by (cases ts) (auto simp: spells_def)

inductive phrases :: "token list \<Rightarrow> sigil_declaration list \<Rightarrow> bool" where
  phrases_end: "tk_type eof = T_EOF \<Longrightarrow> phrases (eof # rest) []"
| phrases_step: "spells abc d \<Longrightarrow> phrases ts ds \<Longrightarrow> phrases (abc @ ts) (d # ds)"

lemma phrases_unfold:
  assumes "ts \<noteq> []" "tk_type (hd ts) \<noteq> T_EOF"
  shows "phrases ts ds \<longleftrightarrow> (\<exists>d ds'. ds = d # ds' \<and> spells (take 3 ts) d \<and> phrases (drop 3 ts) ds')"
proof
  assume "phrases ts ds"
  then show "\<exists>d ds'. ds = d # ds' \<and> spells (take 3 ts) d \<and> phrases (drop 3 ts) ds'"
    using assms by cases (auto simp: spells_length)
next
  assume "\<exists>d ds'. ds = d # ds' \<and> spells (take 3 ts) d \<and> phrases (drop 3 ts) ds'"
  then show "phrases ts ds"
    by (metis append_take_drop_id phrases_step)
qed

inductive_cases phrases_ConsE: "phrases (t # ts) ds"
inductive_cases phrases_NilE: "phrases [] ds"

lemma phrases_eof: "tk_type eof = T_EOF \<Longrightarrow> phrases (eof # rest) ds \<longleftrightarrow> ds = []"
  by (auto intro: phrases_end) (erule phrases_ConsE; auto simp: spells_def)

lemma not_phrases_Nil [simp]: "\<not> phrases [] ds"
  by (auto simp: spells_def elim: phrases_NilE)

lemma parse_loop_phrases:
  "parse_loop (pre @ ts) (length pre) acc = Inr ds \<longleftrightarrow> (\<exists>ds'. ds = acc @ ds' \<and> phrases ts ds')"
proof (induction "length ts" arbitrary: pre ts acc rule: less_induct)
  case less
  show ?case
  proof (cases ts)
    case Nil
    then show ?thesis by (simp add: parse_loop.simps [of pre "length pre"] parser_check_def parser_peek_def)
  next
    case (Cons a rest)
    show ?thesis
    proof (cases "tk_type a = T_EOF")
      case True
      then show ?thesis
        using Cons by (auto simp: parse_loop.simps [of "pre @ a # rest"] parser_check_def parser_peek_def phrases_eof)
    next
      case False
      have step: "parse_loop (pre @ ts) (length pre + 3) acc' = Inr ds \<longleftrightarrow> (\<exists>ds'. ds = acc' @ ds' \<and> phrases (drop 3 ts) ds')"
        if "spells (take 3 ts) d" for d acc'
      proof -
        have "length (pre @ take 3 ts) = length pre + 3" "(pre @ take 3 ts) @ drop 3 ts = pre @ ts"
          using spells_length [OF that] by auto
        moreover have "length (drop 3 ts) < length ts"
          using Cons by simp
        ultimately show ?thesis
          using less [of "drop 3 ts" "pre @ take 3 ts" acc'] by metis
      qed
      have "parse_loop (pre @ ts) (length pre) acc = Inr ds
          \<longleftrightarrow> (\<exists>d. spells (take 3 ts) d \<and> parse_loop (pre @ ts) (length pre + 3) (acc @ [d]) = Inr ds)"
        using Cons False
        by (simp add: parse_loop.simps [of "pre @ a # rest" "length pre"] parser_check_def parser_peek_def
            rbind_eq_Inr parse_declaration_spells)
      then show ?thesis
        using step phrases_unfold [of ts] Cons False by auto
    qed
  qed
qed

lemma parse_program_phrases: "parse_program ts = Inr ds \<longleftrightarrow> phrases ts ds \<and> ds \<noteq> []"
  using parse_loop_phrases [of "[]" ts "[]" ds]
  by (cases "parse_loop ts 0 []") (auto simp: parse_program_def mk_NativeSigilProgram_def)

text \<open>
  The parser accepts exactly the declared grammar. A source is parsed to the declarations
  \<open>ds\<close> exactly when it scans to tokens that spell them one after the other (a sigil word, a
  name, a semicolon), in order, up to the end-of-file token, and there is at least one; each
  declaration carries the position of its sigil word.
\<close>

theorem parser_accepts_exactly_declarations:
  "parse_native_sigils source = Inr ds
   \<longleftrightarrow> ds \<noteq> [] \<and> (\<exists>ts. tokenize source False = Inr ts \<and> phrases ts ds)"
  by (auto simp: parse_native_sigils_def rbind_eq_Inr parse_program_phrases)

section \<open>Errors\<close>

text \<open>What the scanner guarantees of its tokens and the parser relies on.\<close>

definition scanned :: "token list \<Rightarrow> bool" where
  "scanned ts \<longleftrightarrow> ts \<noteq> [] \<and> tk_type (last ts) = T_EOF
     \<and> list_all (\<lambda>t. tk_type t \<in> {T_IDENTIFIER, T_TYPE} \<longrightarrow> str_value (tk_value t) \<noteq> []) ts"

lemma scanned_Cons: "scanned (t # ts) \<Longrightarrow> tk_type t \<noteq> T_EOF \<Longrightarrow> scanned ts"
  by (auto simp: scanned_def split: if_splits)

lemma scanned_drop: "scanned ts \<Longrightarrow> spells (take 3 ts) d \<Longrightarrow> scanned (drop 3 ts)"
  by (cases ts; cases "tl ts"; cases "tl (tl ts)") (auto simp: spells_def dest!: scanned_Cons)

lemma parse_declaration_error:
  assumes "parse_declaration (pre @ ts) (length pre) = Inl e" "scanned ts"
  shows "exc_of e = NativeSigilParserError"
  using assms
  by (cases ts; cases "tl ts"; cases "tl (tl ts)")
     (auto simp: parser_defs scanned_def nth_append sigil_text_canonical split: option.splits if_splits)

lemma parse_loop_error:
  "parse_loop (pre @ ts) (length pre) acc = Inl e \<Longrightarrow> scanned ts \<Longrightarrow> exc_of e = NativeSigilParserError"
proof (induction "length ts" arbitrary: pre ts acc rule: less_induct)
  case less
  have ne: "ts \<noteq> []"
    using less.prems(2) by (simp add: scanned_def)
  show ?case
  proof (cases "parse_declaration (pre @ ts) (length pre)")
    case (Inl e')
    then show ?thesis
      using less.prems ne parse_declaration_error [of pre ts e']
      by (simp add: parse_loop.simps [of "pre @ ts" "length pre"] parser_check_def parser_peek_def split: if_splits)
  next
    case (Inr r)
    obtain d n where r: "r = (d, n)" by force
    then have d: "spells (take 3 ts) d" "n = length pre + 3"
      using Inr parse_declaration_spells [of pre ts d n] by simp_all
    have "length (pre @ take 3 ts) = n" "(pre @ take 3 ts) @ drop 3 ts = pre @ ts" "length (drop 3 ts) < length ts"
      using spells_length [OF d(1)] d(2) ne by auto
    moreover have "parse_loop (pre @ ts) n (acc @ [d]) = Inl e"
      using less.prems ne Inr r
      by (simp add: parse_loop.simps [of "pre @ ts" "length pre"] parser_check_def parser_peek_def split: if_splits)
    ultimately show ?thesis
      using less.hyps [of "drop 3 ts" "pre @ take 3 ts"] scanned_drop [OF less.prems(2) d(1)] by metis
  qed
qed

lemma scanned_tokenize:
  assumes "tokenize source keep_comments = Inr ts"
  shows "scanned ts"
proof -
  obtain body eof "is" where ts: "ts = body @ [eof]" "tk_type eof = T_EOF" "list_all2 (token_at source) ts is"
    using tokenize_lexed [OF assms] by metis
  have "str_value (tk_value t) \<noteq> []" if "token_at source t i" "tk_type t \<in> {T_IDENTIFIER, T_TYPE}" for t i
    using that by (auto simp: token_at_def token_meaning_def slice_at_def split: token_value.splits)
  then have "\<forall>t \<in> set ts. tk_type t \<in> {T_IDENTIFIER, T_TYPE} \<longrightarrow> str_value (tk_value t) \<noteq> []"
    using ts(3) by (metis in_set_conv_nth list_all2_conv_all_nth)
  then show ?thesis
    using ts(1,2) by (simp add: scanned_def list_all_iff)
qed

text \<open>
  The error contract of the front end: a source that is not accepted is rejected by a
  \<open>NativeSigilParserError\<close>, or by an error of the scanner, and no \<open>IndexError\<close> or
  other builtin exception of the parser itself escapes.
\<close>

theorem parser_error_contract:
  assumes "parse_native_sigils source = Inl e"
  shows "exc_of e = NativeSigilParserError \<or> tokenize source False = Inl e"
proof (cases "tokenize source False")
  case (Inr ts)
  then have "parse_program ts = Inl e" "scanned ts"
    using assms by (simp_all add: parse_native_sigils_def scanned_tokenize)
  then show ?thesis
    using parse_loop_error [of "[]" ts "[]"]
    by (cases "parse_loop ts 0 []")
       (auto simp: parse_program_def mk_NativeSigilProgram_def split: if_splits)
qed (use assms in \<open>simp add: parse_native_sigils_def\<close>)

theorem parser_error_contract_witness:
  "\<exists>e. parse_native_sigils ''ka ;'' = Inl e \<and> exc_of e = NativeSigilParserError"
proof -
  have "\<not> is_ok (parse_native_sigils ''ka ;'') \<and> is_ok (tokenize ''ka ;'' False)" by code_simp
  then obtain e where "parse_native_sigils ''ka ;'' = Inl e" "tokenize ''ka ;'' False \<noteq> Inl e"
    by (auto simp: is_ok_def split: sum.splits)
  with parser_error_contract [OF this(1)] show ?thesis by blast
qed

section \<open>Printing and parsing back\<close>

text \<open>The run of the main loop from a state, and the states between tokens.\<close>

definition run :: "lexer \<Rightarrow> token list result" where
  "run lx = rbind (tokenize_loop lx) (\<lambda>lx. Inr (lx_tokens lx @ [eof_token lx]))"

definition between :: "string \<Rightarrow> nat \<Rightarrow> int \<Rightarrow> int \<Rightarrow> token list \<Rightarrow> lexer" where
  "between source n l c ts =
     \<lparr>lx_source = source, lx_keep_comments = False, lx_start = n, lx_current = n, lx_line = l, lx_column = c,
      lx_start_line = l, lx_start_column = c, lx_tokens = ts\<rparr>"

lemma run_begin_token: "run (begin_token lx) = run lx"
proof -
  have "begin_token (begin_token lx) = begin_token lx"
    by (simp add: begin_token_def)
  then show ?thesis
    by (cases "is_at_end lx")
       (simp_all add: run_def tokenize_loop.simps [of lx] tokenize_loop.simps [of "begin_token lx"]
         eof_token_def, simp add: begin_token_def)
qed

lemma begin_token_between [simp]: "begin_token (between source n l c ts) = between source n l c ts"
  by (simp add: begin_token_def between_def)

lemma run_step:
  assumes "scan_token (between source n l c ts) = Inr lx" "n < length source"
    and "begin_token lx = between source' n' l' c' ts'"
  shows "run (between source n l c ts) = run (between source' n' l' c' ts')"
proof -
  have "\<not> is_at_end (between source n l c ts)"
    using assms(2) by (simp add: is_at_end_def between_def)
  then have "run (between source n l c ts) = run lx"
    using assms(1) by (simp add: run_def tokenize_loop.simps [of "between source n l c ts"])
  then show ?thesis
    using run_begin_token [of lx] assms(3) by simp
qed

lemma drop_Cons:
  assumes "drop n s = x # r"
  shows "n < length s" "s ! n = x" "drop (Suc n) s = r"
proof -
  show lt: "n < length s"
    using assms by (metis drop_all list.distinct(1) not_le)
  show "s ! n = x" "drop (Suc n) s = r"
    using assms Cons_nth_drop_Suc [OF lt] by simp_all
qed

lemma advance_while_run:
  assumes "drop (lx_current lx) (lx_source lx) = xs @ d # rest" "list_all P xs" "\<not> P d" "CHR 0x0A \<notin> set xs"
  shows "advance_while P lx = lx\<lparr>lx_current := lx_current lx + length xs, lx_column := lx_column lx + int (length xs)\<rparr>"
  using assms
proof (induction xs arbitrary: lx)
  case Nil
  then show ?case
    using drop_Cons [of "lx_current lx" "lx_source lx" d rest]
    by (subst advance_while.simps) (simp add: is_at_end_def peek_def)
next
  case (Cons x xs)
  note x = drop_Cons [of "lx_current lx" "lx_source lx" x "xs @ d # rest"]
  have "advance_while P lx = advance_while P (advance lx)"
    using Cons.prems x by (subst advance_while.simps) (simp add: is_at_end_def peek_def)
  also have "\<dots> = (advance lx)\<lparr>lx_current := lx_current (advance lx) + length xs,
      lx_column := lx_column (advance lx) + int (length xs)\<rparr>"
    using Cons.prems x by (intro Cons.IH) auto
  moreover have "x \<noteq> CHR 0x0A"
    using Cons.prems(4) by auto
  ultimately show ?case
    using Cons.prems x by (simp add: advance_def peek_def is_at_end_def)
qed

lemma word_start:
  assumes "py_isalpha x \<or> x = CHR ''_''"
  shows "x \<notin> {CHR '' '', CHR 0x0D, CHR 0x09, CHR 0x0A}" "x \<noteq> CHR ''/''" "x \<noteq> CHR 0x22" "\<not> py_isdigit x"
  using assms by (auto simp: py_isalpha_def py_isdigit_def is_digit_char_def cp_def)

lemma identifier_char_not_newline: "\<not> identifier_char (CHR 0x0A)"
  by (simp add: identifier_char_def py_isalnum_def py_isalpha_def py_isdigit_def is_digit_char_def cp_def)

text \<open>A name: a letter or an underscore, then letters, digits and underscores.\<close>

definition name_text :: "string \<Rightarrow> bool" where
  "name_text s \<longleftrightarrow> s \<noteq> [] \<and> (py_isalpha (hd s) \<or> hd s = CHR ''_'') \<and> list_all identifier_char s"

lemma run_word:
  assumes "drop n source = w @ d # rest" "name_text w" "\<not> identifier_char d"
  shows "run (between source n l c ts) = run (between source (n + length w) l (c + int (length w))
           (ts @ [\<lparr>tk_type = word_type w, tk_value = Str_Value w, tk_line = l, tk_column = c\<rparr>]))"
proof -
  obtain x xs where w: "w = x # xs" "py_isalpha x \<or> x = CHR ''_''" "list_all identifier_char xs"
    using assms(2) by (cases w) (auto simp: name_text_def)
  let ?b = "between source n l c ts"
  note dr = drop_Cons [OF assms(1) [unfolded w append_Cons]]
  have peek: "peek ?b = x"
    using dr by (simp add: peek_def is_at_end_def between_def)
  have nl: "CHR 0x0A \<notin> set xs" "x \<noteq> CHR 0x0A"
    using w identifier_char_not_newline word_start by (auto simp: list_all_iff)
  have adv: "advance ?b = ?b\<lparr>lx_current := Suc n, lx_column := c + 1\<rparr>"
    using peek nl by (simp add: advance_def) (simp add: between_def)
  have "advance_while identifier_char (advance ?b)
      = (advance ?b)\<lparr>lx_current := Suc n + length xs, lx_column := c + 1 + int (length xs)\<rparr>"
    using advance_while_run [of "advance ?b" xs d rest identifier_char] dr(3) w(3) assms(3) nl
    by (simp add: adv) (simp add: between_def)
  then have while: "advance_while identifier_char (advance ?b)
      = ?b\<lparr>lx_current := n + length w, lx_column := c + int (length w)\<rparr>"
    by (simp add: adv w)
  have lexeme: "lexeme (?b\<lparr>lx_current := n + length w, lx_column := c + int (length w)\<rparr>) = w"
    using assms(1) by (simp add: lexeme_def between_def)
  have "scan_token ?b = Inr (scan_identifier (advance ?b))"
    using word_start [OF w(2)] w(2) by (simp add: scan_token_def Let_def peek)
  then show ?thesis
    using dr(1)
    by (intro run_step) (auto simp: scan_identifier_def while lexeme, simp add: add_token_def between_def begin_token_def)
qed

lemma run_char:
  assumes "drop n source = d # rest"
  shows "d = CHR '' '' \<Longrightarrow> run (between source n l c ts) = run (between source (n + 1) l (c + 1) ts)"
    and "d = CHR 0x0A \<Longrightarrow> run (between source n l c ts) = run (between source (n + 1) (l + 1) 1 ts)"
    and "d = CHR '';'' \<Longrightarrow> run (between source n l c ts) = run (between source (n + 1) l (c + 1)
           (ts @ [\<lparr>tk_type = T_SEMICOLON, tk_value = Str_Value '';'', tk_line = l, tk_column = c\<rparr>]))"
proof -
  have peek: "peek (between source n l c ts) = d" and lt: "n < length source"
    using drop_Cons [OF assms] by (simp_all add: peek_def is_at_end_def between_def)
  show "d = CHR '' '' \<Longrightarrow> run (between source n l c ts) = run (between source (n + 1) l (c + 1) ts)"
    using lt by (intro run_step) (auto simp: scan_token_def Let_def peek, simp add: advance_def peek begin_token_def,
        simp add: between_def)
  show "d = CHR 0x0A \<Longrightarrow> run (between source n l c ts) = run (between source (n + 1) (l + 1) 1 ts)"
    using lt by (intro run_step) (auto simp: scan_token_def Let_def peek, simp add: advance_def peek begin_token_def,
        simp add: between_def)
  show "d = CHR '';'' \<Longrightarrow> run (between source n l c ts) = run (between source (n + 1) l (c + 1)
           (ts @ [\<lparr>tk_type = T_SEMICOLON, tk_value = Str_Value '';'', tk_line = l, tk_column = c\<rparr>]))"
    using lt by (intro run_step)
      (auto simp: scan_token_def Let_def peek py_isdigit_def py_isalpha_def is_digit_char_def cp_def
        SINGLE_CHAR_TOKENS_def, simp add: advance_def peek begin_token_def add_token_def, simp add: between_def)
qed

text \<open>The canonical source text of declarations: one per line.\<close>

definition print_declaration :: "sigil_declaration \<Rightarrow> string" where
  "print_declaration d = sd_sigil d @ '' '' @ sd_subject d @ '';'' @ [CHR 0x0A]"

definition print_sigils :: "sigil_declaration list \<Rightarrow> string" where
  "print_sigils ds = concat (map print_declaration ds)"

definition printable :: "sigil_declaration \<Rightarrow> bool" where
  "printable d \<longleftrightarrow> sd_sigil d \<in> CANONICAL_SIGILS \<and> name_text (sd_subject d) \<and> map_of KEYWORDS (sd_subject d) = None"

fun relocate :: "int \<Rightarrow> sigil_declaration list \<Rightarrow> sigil_declaration list" where
  "relocate l [] = []"
| "relocate l (d # ds) = d\<lparr>sd_location := \<lparr>loc_line = l, loc_column = 1\<rparr>\<rparr> # relocate (l + 1) ds"

definition word_token :: "string \<Rightarrow> int \<Rightarrow> int \<Rightarrow> token" where
  "word_token s l c = \<lparr>tk_type = word_type s, tk_value = Str_Value s, tk_line = l, tk_column = c\<rparr>"

fun printed_tokens :: "int \<Rightarrow> sigil_declaration list \<Rightarrow> token list" where
  "printed_tokens l [] = [\<lparr>tk_type = T_EOF, tk_value = No_Value, tk_line = l, tk_column = 1\<rparr>]"
| "printed_tokens l (d # ds) =
     (let s = int (length (sd_sigil d)); n = int (length (sd_subject d)) in
      [word_token (sd_sigil d) l 1, word_token (sd_subject d) l (1 + s + 1),
       \<lparr>tk_type = T_SEMICOLON, tk_value = Str_Value '';'', tk_line = l, tk_column = 1 + s + 1 + n\<rparr>])
     @ printed_tokens (l + 1) ds"

lemma sigil_word:
  assumes "s \<in> CANONICAL_SIGILS"
  shows "name_text s" "map_of SIGIL_TOKEN_TO_TEXT (word_type s) = Some s"
proof -
  have "list_all (\<lambda>s. name_text s \<and> map_of SIGIL_TOKEN_TO_TEXT (word_type s) = Some s)
          [''ka'', ''vor'', ''shi'', ''thal'', ''nur'']"
    by code_simp
  then show "name_text s" "map_of SIGIL_TOKEN_TO_TEXT (word_type s) = Some s"
    using assms by (auto simp: CANONICAL_SIGILS_def)
qed

lemma separators [simp]:
  "\<not> identifier_char (CHR '' '')" "\<not> identifier_char (CHR '';'')"
  by code_simp+

lemma run_printed:
  "drop n source = print_sigils ds \<Longrightarrow> list_all printable ds
   \<Longrightarrow> run (between source n l 1 ts) = Inr (ts @ printed_tokens l ds)"
proof (induction ds arbitrary: n l ts)
  case Nil
  then have "is_at_end (between source n l 1 ts)"
    by (simp add: print_sigils_def is_at_end_def between_def)
  then show ?case
    by (simp add: run_def tokenize_loop.simps [of "between source n l 1 ts"])
       (simp add: eof_token_def between_def)
next
  case (Cons d ds)
  let ?s = "sd_sigil d" and ?n = "sd_subject d"
  have ok: "name_text ?s" "name_text ?n" "list_all printable ds"
    using Cons.prems(2) printable_def [of d] sigil_word by auto
  have d0: "drop n source = ?s @ CHR '' '' # ?n @ CHR '';'' # CHR 0x0A # print_sigils ds"
    using Cons.prems(1) by (simp add: print_sigils_def print_declaration_def)
  let ?n1 = "n + length ?s" and ?c1 = "1 + int (length ?s)"
  let ?n2 = "?n1 + 1 + length ?n" and ?c2 = "?c1 + 1 + int (length ?n)"
  have d1: "drop ?n1 source = CHR '' '' # ?n @ CHR '';'' # CHR 0x0A # print_sigils ds"
    using d0 by (metis add.commute append_eq_conv_conj drop_drop)
  note d2 = drop_Cons(3) [OF d1, folded Suc_eq_plus1]
  have d3: "drop ?n2 source = CHR '';'' # CHR 0x0A # print_sigils ds"
    using d2 by (metis Suc_eq_plus1 add.commute append_eq_conv_conj drop_drop)
  note d4 = drop_Cons(3) [OF d3] note d5 = drop_Cons(3) [OF d4]
  have "run (between source n l 1 ts) = run (between source ?n1 l ?c1 (ts @ [word_token ?s l 1]))"
    unfolding word_token_def using run_word [OF d0 ok(1) separators(1)] .
  also have "\<dots> = run (between source (?n1 + 1) l (?c1 + 1) (ts @ [word_token ?s l 1]))"
    using run_char(1) [OF d1 refl] .
  also have "\<dots> = run (between source ?n2 l ?c2 ((ts @ [word_token ?s l 1]) @ [word_token ?n l (?c1 + 1)]))"
    unfolding word_token_def using run_word [OF d2 [unfolded Suc_eq_plus1] ok(2) separators(2)] .
  finally show ?case
    using run_char(3) [OF d3 refl] run_char(2) [OF d4 refl] Cons.IH [OF _ ok(3)] d5
    by (simp add: Let_def)
qed

lemma phrases_printed: "list_all printable ds \<Longrightarrow> phrases (printed_tokens l ds) (relocate l ds)"
proof (induction ds arbitrary: l)
  case Nil
  then show ?case by (simp add: phrases_end)
next
  case (Cons d ds)
  have "word_type (sd_subject d) \<in> {T_IDENTIFIER, T_TYPE}"
    using Cons.prems by (simp add: printable_def word_type_def)
  then have "spells [word_token (sd_sigil d) l c1, word_token (sd_subject d) l c2,
      \<lparr>tk_type = T_SEMICOLON, tk_value = Str_Value '';'', tk_line = l, tk_column = c3\<rparr>]
      (d\<lparr>sd_location := \<lparr>loc_line = l, loc_column = c1\<rparr>\<rparr>)" for c1 c2 c3
    using Cons.prems by (auto simp: spells_def word_token_def printable_def sigil_word name_text_def)
  then show ?case
    using Cons by (simp only: printed_tokens.simps relocate.simps Let_def phrases_step list.pred_inject)
qed

text \<open>
  Printing and parsing back: for every non-empty list of declarations whose sigils are
  canonical and whose subjects are names and not reserved words, the front end parses their
  canonical text to the same declarations, with the line each is on.
\<close>

theorem parse_print_round_trip:
  assumes "ds \<noteq> []" "list_all printable ds"
  shows "parse_native_sigils (print_sigils ds) = Inr (relocate 1 ds)"
proof -
  have "tokenize (print_sigils ds) False = Inr (printed_tokens 1 ds)"
    using run_printed [of 0 "print_sigils ds" ds 1 "[]"] assms(2)
    by (simp add: tokenize_def run_def new_lexer_def between_def)
  moreover have "relocate 1 ds \<noteq> []"
    using assms(1) by (cases ds) simp_all
  ultimately show ?thesis
    using phrases_printed [OF assms(2), of 1] by (simp add: parse_native_sigils_def parse_program_phrases)
qed

definition door_declarations :: "sigil_declaration list" where
  "door_declarations =
     [\<lparr>sd_sigil = ''ka'', sd_subject = ''door'', sd_location = \<lparr>loc_line = 7, loc_column = 7\<rparr>\<rparr>,
      \<lparr>sd_sigil = ''vor'', sd_subject = ''door'', sd_location = \<lparr>loc_line = 7, loc_column = 7\<rparr>\<rparr>]"

theorem parse_print_round_trip_witness:
  "door_declarations \<noteq> [] \<and> list_all printable door_declarations
   \<and> parse_native_sigils (print_sigils door_declarations) = Inr (relocate 1 door_declarations)"
proof -
  have "door_declarations \<noteq> []" "list_all printable door_declarations"
    by code_simp+
  with parse_print_round_trip [OF this] show ?thesis by simp
qed

end
