(* ===== verification/Parser_Total.thy ===== *)
theory Parser_Total
  imports Parser
begin

text \<open>
  The parser always comes back: with the depth the entry points give it, no loop count and no
  recursion depth runs out, no index leaves the token list, and every rejection is one of the
  documented errors.
\<close>

section \<open>What the parser relies on\<close>

text \<open>
  The interface between the scanner and the parser: the token lists \<open>G\<close> it may be given, and
  the errors \<open>X\<close> it may end in. \<open>nested\<close> parses the contents of interpolated strings.
\<close>

locale token_stream =
  fixes G :: "token list \<Rightarrow> bool" and X :: "pyexc \<Rightarrow> bool" and nested :: "string \<Rightarrow> expression result"
  assumes stream_nonempty: "G ts \<Longrightarrow> ts \<noteq> []"
    and stream_advance: "G (t # ts) \<Longrightarrow> tk_type t \<noteq> T_EOF \<Longrightarrow> G ts"
    and stream_names: "G (t # ts) \<Longrightarrow> tk_type t \<in> {T_IDENTIFIER, T_TYPE} \<Longrightarrow> text_of t \<noteq> []"
    and parser_errors: "exc_of e = ParserError \<Longrightarrow> X e"
    and nested_errors: "G (t # ts) \<Longrightarrow> tk_value t = Segments_Value segs \<Longrightarrow> Expr_Segment c \<in> set segs
      \<Longrightarrow> nested c = Inl e \<Longrightarrow> X e \<or> exc_of e \<in> {ParserError, LexerError}"

text \<open>
  \<open>takes G X n N p\<close>: on every admitted list of at most \<open>N\<close> tokens, the parser consumes at
  least \<open>n\<close> of them and leaves an admitted list, or fails with an admitted error.
  \<open>takes_at\<close> is the same for the lists that begin with a given token.
\<close>

definition takes_on ::
  "(token list \<Rightarrow> bool) \<Rightarrow> (pyexc \<Rightarrow> bool) \<Rightarrow> nat \<Rightarrow> 'a parser \<Rightarrow> token list \<Rightarrow> bool" where
  "takes_on G X n p ts \<longleftrightarrow> (case p ts of
     Inl e \<Rightarrow> X e
   | Inr (x, ts') \<Rightarrow> G ts' \<and> length ts' + n \<le> length ts)"

definition takes :: "(token list \<Rightarrow> bool) \<Rightarrow> (pyexc \<Rightarrow> bool) \<Rightarrow> nat \<Rightarrow> nat \<Rightarrow> 'a parser \<Rightarrow> bool" where
  "takes G X n N p \<longleftrightarrow> (\<forall>ts. G ts \<and> length ts \<le> N \<longrightarrow> takes_on G X n p ts)"

definition takes_at ::
  "(token list \<Rightarrow> bool) \<Rightarrow> (pyexc \<Rightarrow> bool) \<Rightarrow> token \<Rightarrow> nat \<Rightarrow> nat \<Rightarrow> 'a parser \<Rightarrow> bool" where
  "takes_at G X t n N p \<longleftrightarrow> (\<forall>ts. G (t # ts) \<and> length ts < N \<longrightarrow> takes_on G X n p (t # ts))"

lemma takes_on_Inr: "p ts = Inr (x, ts') \<Longrightarrow> takes_on G X n p ts \<longleftrightarrow> G ts' \<and> length ts' + n \<le> length ts"
  by (simp add: takes_on_def)

lemma takes_on_Inl: "p ts = Inl e \<Longrightarrow> takes_on G X n p ts \<longleftrightarrow> X e"
  by (simp add: takes_on_def)

lemma takes_on_mono: "takes_on G X m p ts \<Longrightarrow> n \<le> m \<Longrightarrow> takes_on G X n p ts"
  by (auto simp: takes_on_def split: sum.splits)

lemma takes_mono: "takes G X m M p \<Longrightarrow> n \<le> m \<Longrightarrow> N \<le> M \<Longrightarrow> takes G X n N p"
  by (auto simp: takes_def intro: takes_on_mono)

lemma takes_le: "takes G X n M p \<Longrightarrow> N \<le> M \<Longrightarrow> takes G X n N p"
  by (erule takes_mono) simp_all

lemma takes_weak: "takes G X n N p \<Longrightarrow> takes G X 0 N p"
  by (erule takes_mono) simp_all

lemma takes_on_bind:
  assumes "takes_on G X m p ts" "\<And>x ts'. G ts' \<Longrightarrow> length ts' + m \<le> length ts \<Longrightarrow> takes_on G X n (k x) ts'"
  shows "takes_on G X (m + n) (pbind p k) ts"
proof (cases "p ts")
  case (Inl e)
  with assms(1) show ?thesis by (simp add: takes_on_def pbind_def)
next
  case (Inr r)
  obtain x ts' where r: "r = (x, ts')" by force
  then have "G ts'" "length ts' + m \<le> length ts"
    using assms(1) Inr by (simp_all add: takes_on_def)
  with assms(2) [of ts' x] Inr r show ?thesis
    by (auto simp: takes_on_def pbind_def split: sum.splits)
qed

lemma takes_bind:
  assumes "takes G X m N p" "\<And>x. takes G X n (N - m) (k x)"
  shows "takes G X (m + n) N (pbind p k)"
  unfolding takes_def
proof (intro allI impI)
  fix ts
  assume ts: "G ts \<and> length ts \<le> N"
  show "takes_on G X (m + n) (pbind p k) ts"
    by (rule takes_on_bind) (use assms ts in \<open>auto simp: takes_def\<close>)
qed

text \<open>The forms in which the rule is used: the first parser takes one token, or none.\<close>

lemma takes_bind1: "takes G X 1 N p \<Longrightarrow> (\<And>x. takes G X (n - 1) (N - 1) (k x)) \<Longrightarrow> takes G X n N (pbind p k)"
  using takes_bind [of G X 1 N p "n - 1" k] by (rule takes_mono) auto

lemma takes_bind0: "takes G X 0 N p \<Longrightarrow> (\<And>x. takes G X n N (k x)) \<Longrightarrow> takes G X n N (pbind p k)"
  using takes_bind [of G X 0 N p n k] by simp

lemma takes_pret [simp, intro]: "takes G X 0 N (pret x)"
  by (simp add: takes_def takes_on_def pret_def)

lemma takes_at_takes: "takes G X n N p \<Longrightarrow> takes_at G X t n N p"
  by (simp add: takes_def takes_at_def)

lemma takes_at_if:
  "(c \<Longrightarrow> takes_at G X t n N p) \<Longrightarrow> (\<not> c \<Longrightarrow> takes_at G X t n N q) \<Longrightarrow> takes_at G X t n N (if c then p else q)"
  by simp

text \<open>Every parser as a tree of steps.\<close>

lemma pbind_assoc: "pbind (pbind p f) k = pbind p (\<lambda>x. pbind (f x) k)"
  by (rule ext) (auto simp: pbind_def rbind_def split: sum.splits)

lemma pbind_pret: "pbind (pret x) k = k x"
  by (rule ext) (simp add: pbind_def pret_def)

lemma pbind_if: "pbind (if c then p else q) k = (if c then pbind p k else pbind q k)"
  by simp

lemma pbind_option: "pbind (case c of None \<Rightarrow> p | Some x \<Rightarrow> q x) k = (case c of None \<Rightarrow> pbind p k | Some x \<Rightarrow> pbind (q x) k)"
  by (simp split: option.split)

lemma pbind_p_error: "pbind (p_error t m) k = p_error t m"
  by (rule ext) (simp add: pbind_def p_error_def pfail_def)

lemmas pbind_norm = pbind_assoc pbind_pret pbind_if pbind_option pbind_p_error

text \<open>A parser given the number of tokens that are left.\<close>

lemma takes_length: "(\<And>M. M \<le> N \<Longrightarrow> takes G X n M (f M)) \<Longrightarrow> takes G X n N (\<lambda>ts. f (length ts) ts)"
  by (auto simp: takes_def takes_on_def)

context token_stream
begin

abbreviation T :: "nat \<Rightarrow> nat \<Rightarrow> 'a parser \<Rightarrow> bool" where
  "T \<equiv> takes G X"

abbreviation T_at :: "token \<Rightarrow> nat \<Rightarrow> nat \<Rightarrow> 'a parser \<Rightarrow> bool" where
  "T_at \<equiv> takes_at G X"

lemma takes_zero: "T n 0 p"
  by (auto simp: takes_def dest: stream_nonempty)

lemma takes_p_error [simp]: "T n N (p_error t m)"
  by (simp add: takes_def takes_on_def p_error_def pfail_def parser_errors)

lemma takes_at_p_error [simp]: "T_at t n N (p_error u m)"
  by (simp add: takes_at_takes)

lemma takes_peek_bind:
  assumes "\<And>t. T_at t n N (k t)"
  shows "T n N (pbind p_peek k)"
  unfolding takes_def
proof (intro allI impI)
  fix ts
  assume ts: "G ts \<and> length ts \<le> N"
  then obtain t ts' where "ts = t # ts'"
    using stream_nonempty by (cases ts) auto
  then show "takes_on G X n (pbind p_peek k) ts"
    using assms [of t] ts by (simp add: takes_at_def takes_on_def pbind_def p_peek_def)
qed

lemma takes_check [simp]: "T 0 N (p_check ty)"
  unfolding p_check_def by (intro takes_peek_bind takes_at_takes takes_pret)

lemma takes_is_at_end [simp]: "T 0 N p_is_at_end"
  by (simp add: p_is_at_end_def)

lemma takes_at_advance:
  assumes "tk_type t \<noteq> T_EOF" "T (n - 1) (N - 1) (k t)"
  shows "T_at t n N (pbind p_advance k)"
  unfolding takes_at_def
proof (intro allI impI)
  fix ts
  assume ts: "G (t # ts) \<and> length ts < N"
  then have "takes_on G X (n - 1) (k t) ts"
    using assms stream_advance by (auto simp: takes_def)
  then show "takes_on G X n (pbind p_advance k) (t # ts)"
    by (auto simp: takes_on_def pbind_def p_advance_def split: sum.splits)
qed

lemma takes_match_bind:
  assumes "T_EOF \<notin> set tys" "\<And>t. T (n - 1) (N - 1) (k (Some t))" "T n N (k None)"
  shows "T n N (pbind (p_match tys) k)"
proof -
  have "pbind (p_match tys) k = pbind p_peek (\<lambda>t. if tk_type t \<in> set tys then pbind p_advance (\<lambda>t. k (Some t)) else k None)"
    by (rule ext) (auto simp: p_match_def pbind_def pret_def p_peek_def p_advance_def split: list.splits)
  moreover have "T_at t n N (if tk_type t \<in> set tys then pbind p_advance (\<lambda>t. k (Some t)) else k None)" for t
    using assms by (intro takes_at_if takes_at_advance takes_at_takes) auto
  ultimately show ?thesis
    by (simp add: takes_peek_bind)
qed

lemma takes_consume: "ty \<noteq> T_EOF \<Longrightarrow> T 1 N (p_consume ty m)"
  unfolding takes_def
proof (intro allI impI)
  fix ts
  assume ty: "ty \<noteq> T_EOF" and ts: "G ts \<and> length ts \<le> N"
  then obtain t ts' where "ts = t # ts'"
    using stream_nonempty by (cases ts) auto
  then show "takes_on G X 1 (p_consume ty m) ts"
    using ts ty stream_advance
    by (auto simp: takes_on_def p_consume_def p_check_def p_peek_def p_advance_def pbind_def pret_def
        p_error_def pfail_def parser_errors)
qed

lemma takes_consume_bind:
  "ty \<noteq> T_EOF \<Longrightarrow> (\<And>t. T (n - 1) (N - 1) (k t)) \<Longrightarrow> T n N (pbind (p_consume ty m) k)"
  by (rule takes_bind1 [OF takes_consume])

text \<open>The loops.\<close>

lemma takes_comma_loop: "T 1 N item \<Longrightarrow> N \<le> k \<Longrightarrow> T 1 N (comma_loop k close item)"
proof (induction k arbitrary: N)
  case 0
  then show ?case by (simp add: takes_zero)
next
  case (Suc k)
  have "T 1 (N - 1 - 1) (comma_loop k close item)"
    using Suc.prems by (intro Suc.IH takes_mono [OF Suc.prems(1)]) auto
  then have "T 0 (N - 1 - 1) (comma_loop k close item)"
    by (rule takes_weak)
  then show ?case
    using Suc.prems(1)
    by (auto intro!: takes_bind1 [where p = item] takes_match_bind takes_bind0 [OF takes_check] takes_bind0 [where p = "comma_loop k close item"])
qed

lemma takes_comma_items: "T 1 N item \<Longrightarrow> T 0 N (comma_items close item)"
proof -
  assume item: "T 1 N item"
  have "T 0 M (pbind (p_check close) (\<lambda>closed. if closed then pret [] else comma_loop M close item))" if "M \<le> N" for M
    using takes_weak [OF takes_comma_loop [OF takes_le [OF item that] order.refl]]
    by (auto intro!: takes_bind0 [OF takes_check])
  then show ?thesis
    unfolding comma_items_def by (rule takes_length)
qed

lemma takes_brace_loop: "T 1 N item \<Longrightarrow> N \<le> k \<Longrightarrow> T 0 N (brace_loop k item)"
proof (induction k arbitrary: N)
  case 0
  then show ?case by (simp add: takes_zero)
next
  case (Suc k)
  have "T 0 (N - 1) (brace_loop k item)"
    using Suc.prems by (intro Suc.IH takes_mono [OF Suc.prems(1)]) auto
  then show ?case
    using Suc.prems(1)
    by (auto intro!: takes_bind0 [OF takes_check] takes_bind0 [OF takes_is_at_end] takes_bind1 [where p = item]
        takes_bind0 [where p = "brace_loop k item"] split: prod.splits)
qed

lemma takes_brace_items: "T 1 N item \<Longrightarrow> T 0 N (brace_items item)"
  unfolding brace_items_def by (rule takes_length) (rule takes_brace_loop [OF takes_le], simp_all)

lemma takes_binary_loop: "T 1 N operand \<Longrightarrow> N \<le> k \<Longrightarrow> T 0 N (binary_loop k tys name operand left)"
  if "T_EOF \<notin> set tys"
proof (induction k arbitrary: N left)
  case 0
  then show ?case by (simp add: takes_zero)
next
  case (Suc k)
  have "T 0 (N - 1 - 1) (binary_loop k tys name operand left')" for left'
    using Suc.prems by (intro Suc.IH takes_mono [OF Suc.prems(1)]) auto
  then show ?case
    using takes_le [OF Suc.prems(1), of "N - 1"] that
    by (auto intro!: takes_match_bind takes_bind1 [where p = operand])
qed

lemma takes_binary_level:
  assumes "T 1 N operand" "T_EOF \<notin> set tys"
  shows "T 1 N (binary_level tys name operand)"
  unfolding binary_level_def
proof (rule takes_bind1 [OF assms(1)])
  fix left
  show "T (1 - 1) (N - 1) (\<lambda>ts. binary_loop (length ts) tys name operand left ts)"
    by (rule takes_length) (simp add: takes_binary_loop [OF assms(2) takes_le [OF assms(1)]])
qed

lemma takes_logical_or: "T 1 N unary \<Longrightarrow> T 1 N (p_logical_or unary)"
  unfolding p_logical_or_def p_logical_and_def p_equality_def p_comparison_def p_term_def p_factor_def
  by (intro takes_binary_level) simp_all

text \<open>Expressions. Parsers are brought into the form of a tree of steps; one rule per step.\<close>

lemma takes_mono_rule: "T m M p \<Longrightarrow> N \<le> M \<Longrightarrow> n \<le> m \<Longrightarrow> T n N p"
  by (erule takes_mono)

lemma takes_step: "T 1 M p \<Longrightarrow> N \<le> M \<Longrightarrow> (\<And>x. T (n - 1) (N - 1) (k x)) \<Longrightarrow> T n N (pbind p k)"
  by (rule takes_bind1 [OF takes_le])

lemma takes_any: "T m M p \<Longrightarrow> N \<le> M \<Longrightarrow> (\<And>x. T n N (k x)) \<Longrightarrow> T n N (pbind p k)"
  by (rule takes_bind0 [OF takes_weak [OF takes_le]])

lemma takes_done: "n = 0 \<Longrightarrow> T n N (pret x)"
  by simp

lemma takes_if: "(c \<Longrightarrow> T n N p) \<Longrightarrow> (\<not> c \<Longrightarrow> T n N q) \<Longrightarrow> T n N (if c then p else q)"
  by simp

lemma takes_option: "(c = None \<Longrightarrow> T n N p) \<Longrightarrow> (\<And>x. c = Some x \<Longrightarrow> T n N (q x)) \<Longrightarrow> T n N (case c of None \<Rightarrow> p | Some x \<Rightarrow> q x)"
  by (simp split: option.split)

lemma takes_comma_bind:
  "T 1 M item \<Longrightarrow> N \<le> M \<Longrightarrow> (\<And>x. T n N (k x)) \<Longrightarrow> T n N (pbind (comma_items close item) k)"
  by (rule takes_any [OF takes_comma_items])

lemma takes_brace_bind:
  "T 1 M item \<Longrightarrow> N \<le> M \<Longrightarrow> (\<And>x. T n N (k x)) \<Longrightarrow> T n N (pbind (brace_items item) k)"
  by (rule takes_any [OF takes_brace_items])

lemmas takes_rules = takes_done takes_p_error takes_at_p_error takes_if takes_option takes_match_bind takes_consume_bind takes_peek_bind
  takes_bind0 [OF takes_check] takes_bind0 [OF takes_is_at_end] takes_at_if takes_at_advance

lemma takes_or_loop:
  "T 1 N lo \<Longrightarrow> T 1 (N - 1) blk \<Longrightarrow> N \<le> k \<Longrightarrow> T 0 N (or_loop v5 k lo blk left)"
proof (induction k arbitrary: N left)
  case 0
  then show ?case by (simp add: takes_zero)
next
  case (Suc k)
  have ih: "T 0 (N - 1) (or_loop v5 k lo blk left')" for left'
    using Suc.prems by (intro Suc.IH takes_le [OF Suc.prems(1)] takes_le [OF Suc.prems(2)]) auto
  show ?case
    unfolding or_loop.simps pbind_norm
    by (intro takes_rules takes_any [OF Suc.prems(1)] takes_any [OF Suc.prems(2)] takes_mono_rule [OF ih] takes_at_takes; simp)
qed

lemma takes_or_handler:
  assumes "T 1 N unary" "T 1 (N - 1) blk"
  shows "T 1 N (p_or_handler v5 unary blk)"
  unfolding p_or_handler_def
proof (rule takes_bind1 [OF takes_logical_or [OF assms(1)]])
  fix left
  show "T (1 - 1) (N - 1) (\<lambda>ts. or_loop v5 (length ts) (p_logical_or unary) blk left ts)"
    unfolding diff_self_eq_0
    by (rule takes_length, rule takes_or_loop [OF takes_le [OF takes_logical_or [OF assms(1)]] takes_le [OF assms(2)]]) auto
qed

lemma takes_assignment:
  assumes "T 1 N unary" "T 1 (N - 1) expr" "T 1 (N - 1) blk"
  shows "T 1 N (p_assignment v5 unary expr blk)"
  unfolding p_assignment_def
  by (intro takes_rules takes_step [OF takes_or_handler [OF assms(1,3)]] takes_any [OF assms(2)]; simp)

lemma takes_finish_call:
  assumes "T 1 N expr" shows "T 1 N (p_finish_call expr callee t)"
  unfolding p_finish_call_def by (intro takes_rules takes_comma_bind [OF assms]; simp)

lemma takes_list_literal:
  assumes "T 1 N expr" shows "T 1 N (p_list_literal expr t)"
  unfolding p_list_literal_def by (intro takes_rules takes_comma_bind [OF assms]; simp)

lemma takes_map_entry:
  assumes "T 1 N expr" shows "T 1 N (p_map_entry expr)"
  unfolding p_map_entry_def by (intro takes_rules takes_step [OF assms]; simp)

lemma takes_map_literal:
  assumes "T 1 N expr" shows "T 1 N (p_map_literal expr t)"
  unfolding p_map_literal_def by (intro takes_rules takes_comma_bind [OF takes_map_entry [OF assms]]; simp)

lemma takes_struct_entry:
  assumes "T 1 N expr" shows "T 1 N (p_struct_entry expr)"
  unfolding p_struct_entry_def by (intro takes_rules takes_step [OF assms]; simp)

lemma takes_struct_literal:
  assumes "T 1 N expr" shows "T 1 N (p_struct_literal expr t)"
  unfolding p_struct_literal_def by (intro takes_rules takes_brace_bind [OF takes_struct_entry [OF assms]]; simp)

lemma takes_match_arm:
  assumes "T 1 N expr" "T 1 N blk" shows "T 1 N (p_match_arm expr blk)"
  unfolding p_match_arm_def pbind_norm
  by (intro takes_rules takes_step [OF assms(1)] takes_step [OF assms(2)]; simp)

lemma takes_scrutinee:
  assumes "T 1 N expr"
  shows "T 1 N (\<lambda>ts. case ts of
         t # u # _ \<Rightarrow>
           if tk_type t = T_TYPE \<and> tk_type u = T_LEFT_BRACE
           then pbind p_advance (\<lambda>t. pret (Identifier (text_of t) (p_location t))) ts else expr ts
       | _ \<Rightarrow> expr ts)" (is "T 1 N ?p")
  unfolding takes_def
proof (intro allI impI)
  fix ts
  assume ts: "G ts \<and> length ts \<le> N"
  show "takes_on G X 1 ?p ts"
  proof (cases "\<exists>a b r. ts = a # b # r \<and> tk_type a = T_TYPE \<and> tk_type b = T_LEFT_BRACE")
    case True
    then show ?thesis
      using ts stream_advance by (auto simp: takes_on_def pbind_def p_advance_def pret_def)
  next
    case False
    then have "?p ts = expr ts"
      by (auto split: list.splits)
    then show ?thesis
      using assms ts by (simp add: takes_def takes_on_def)
  qed
qed

lemma takes_match_expression:
  assumes "T 1 N expr" "T 1 N blk" shows "T 1 N (p_match_expression expr blk t)"
  unfolding p_match_expression_def
  by (intro takes_rules takes_step [OF takes_scrutinee [OF assms(1)]] takes_brace_bind [OF takes_match_arm [OF assms]]; simp)

lemma takes_at_interpolated:
  assumes "tk_type t \<noteq> T_EOF"
  shows "T_at t 1 N (pbind p_advance (\<lambda>_. p_interpolated_string nested t))"
  unfolding takes_at_def
proof (intro allI impI)
  fix ts
  assume ts: "G (t # ts) \<and> length ts < N"
  have step: "X e" if "rmap (p_segment nested loc) segs = Inl e" "set segs \<subseteq> set segs'"
      "tk_value t = Segments_Value segs'" for loc segs segs' e
    using that ts nested_errors [of t ts segs']
    by (induction segs) (auto simp: p_segment_def rbind_def parser_errors
        split: sum.splits segment.splits if_splits)
  have "X e" if "tk_value t = Segments_Value segs" "rmap (p_segment nested loc) segs = Inl e" for loc segs e
    using step [OF that(2) order.refl that(1)] .
  then show "takes_on G X 1 (pbind p_advance (\<lambda>_. p_interpolated_string nested t)) (t # ts)"
    using ts assms stream_advance
    by (auto simp: takes_on_def pbind_def p_advance_def p_interpolated_string_def rbind_def
        split: token_value.splits sum.splits)
qed

lemma takes_primary:
  assumes "T 1 (N - 1) expr" "T 1 (N - 1) blk"
  shows "T 1 N (p_primary nested expr blk)"
  unfolding p_primary_def
  by (intro takes_at_interpolated takes_rules takes_step [OF assms(1)]
      takes_mono_rule [OF takes_match_expression [OF assms]] takes_mono_rule [OF takes_list_literal [OF assms(1)]]
      takes_mono_rule [OF takes_map_literal [OF assms(1)]] takes_mono_rule [OF takes_struct_literal [OF assms(1)]]; auto)

lemma takes_call_loop:
  "T 1 N expr \<Longrightarrow> N \<le> k \<Longrightarrow> T 0 N (call_loop k expr e)"
proof (induction k arbitrary: N e)
  case 0
  then show ?case by (simp add: takes_zero)
next
  case (Suc k)
  have ih: "T 0 (N - 1) (call_loop k expr e')" for e'
    using Suc.prems by (intro Suc.IH takes_le [OF Suc.prems(1)]) auto
  show ?case
    unfolding call_loop.simps
    by (intro takes_rules takes_any [OF takes_finish_call [OF Suc.prems(1)]] takes_mono_rule [OF ih]; simp)
qed

lemma takes_call:
  assumes "T 1 (N - 1) expr" "T 1 (N - 1) blk"
  shows "T 1 N (p_call nested expr blk)"
  unfolding p_call_def
proof (rule takes_bind1 [OF takes_primary [OF assms]])
  fix e
  show "T (1 - 1) (N - 1) (\<lambda>ts. call_loop (length ts) expr e ts)"
    unfolding diff_self_eq_0
    by (rule takes_length, rule takes_call_loop [OF takes_le [OF assms(1)]]) auto
qed

lemma takes_unary:
  assumes "T 1 (N - 1) unary" "T 1 (N - 1) expr" "T 1 (N - 1) blk"
  shows "T 1 N (p_unary nested unary expr blk)"
  unfolding p_unary_def
  by (intro takes_rules takes_step [OF assms(1)] takes_call [OF assms(2,3)]; simp)

text \<open>Types.\<close>

lemma takes_type_atom_loop: "T 1 N atom \<Longrightarrow> N \<le> k \<Longrightarrow> T 1 N (type_atom_loop k atom)"
proof (induction k arbitrary: N)
  case 0
  then show ?case by (simp add: takes_zero)
next
  case (Suc k)
  have ih: "T 1 (N - 1) (type_atom_loop k atom)"
    using Suc.prems by (intro Suc.IH takes_le [OF Suc.prems(1)]) auto
  show ?case
    unfolding type_atom_loop.simps by (intro takes_rules takes_step [OF Suc.prems(1)] takes_any [OF ih]; simp)
qed

lemma takes_type_atom: "N \<le> d \<Longrightarrow> T 1 N (type_atom d)"
proof (induction d arbitrary: N)
  case 0
  then show ?case by (simp add: takes_zero)
next
  case (Suc d)
  have "T 1 M (type_atom_loop M (type_atom d))" if "M \<le> N - 1" for M
    using Suc.prems that by (intro takes_type_atom_loop Suc.IH) auto
  then have arguments: "T 1 (N - 1) (\<lambda>ts. type_atom_loop (length ts) (type_atom d) ts)"
    by (rule takes_length)
  show ?case
    unfolding type_atom.simps by (intro takes_rules takes_any [OF arguments]; simp)
qed

lemma takes_type_or_loop: "N \<le> k \<Longrightarrow> N \<le> d \<Longrightarrow> T 0 N (type_or_loop k d)"
proof (induction k arbitrary: N)
  case 0
  then show ?case by (simp add: takes_zero)
next
  case (Suc k)
  have ih: "T 0 (N - 1) (type_or_loop k d)"
    using Suc.prems by (intro Suc.IH) auto
  show ?case
    unfolding type_or_loop.simps by (intro takes_rules takes_any [OF takes_type_atom [OF Suc.prems(2)]] takes_any [OF ih]; simp)
qed

lemma takes_type_ref: "T 1 N p_type_ref"
proof -
  have "T 1 M (pbind p_peek (\<lambda>first. pbind (type_atom M) (\<lambda>name. pbind (type_or_loop M M) (\<lambda>names.
       pret \<lparr>tr_names = name # names, tr_location = p_location first\<rparr>))))" for M
    by (intro takes_peek_bind takes_at_takes takes_step [OF takes_type_atom [OF order.refl]]
        takes_any [OF takes_type_or_loop [OF order.refl order.refl]] takes_done; simp)
  then show ?thesis
    unfolding p_type_ref_def by (rule takes_length)
qed

lemmas takes_type_bind = takes_step [OF takes_type_ref order.refl]

text \<open>Statements.\<close>

lemma takes_let_statement:
  assumes "T 1 N expr" shows "T 1 N (p_let_statement expr t)"
  unfolding p_let_statement_def pbind_norm
  by (intro takes_rules takes_type_bind takes_step [OF assms]; simp)

lemma takes_return_statement:
  assumes "T 1 N expr" shows "T 0 N (p_return_statement expr t)"
  unfolding p_return_statement_def pbind_norm
  by (intro takes_rules takes_any [OF assms] takes_at_takes; simp)

lemma takes_if_statement:
  assumes "T 1 N expr" "T 1 N blk" "\<And>u. T 1 (N - 1) (rec u)"
  shows "T 1 N (p_if_statement expr blk rec t)"
  unfolding p_if_statement_def pbind_norm
  by (intro takes_rules takes_step [OF assms(1)] takes_step [OF assms(2)] takes_any [OF assms(3)]; simp)

lemma takes_while_statement:
  assumes "T 1 N expr" "T 1 N blk" shows "T 1 N (p_while_statement expr blk t)"
  unfolding p_while_statement_def by (intro takes_rules takes_step [OF assms(1)] takes_step [OF assms(2)]; simp)

lemma takes_for_statement:
  assumes "T 1 N expr" "T 1 N blk" shows "T 1 N (p_for_statement expr blk t)"
  unfolding p_for_statement_def by (intro takes_rules takes_step [OF assms(1)] takes_step [OF assms(2)]; simp)

lemma takes_statement:
  assumes "T 1 N expr" "T 1 (N - 1) blk" "\<And>u. T 1 (N - 1) (rec u)"
  shows "T 1 N (p_statement expr blk rec)"
proof -
  note expr = takes_le [OF assms(1) diff_le_self [of N 1]]
  show ?thesis
    unfolding p_statement_def
    by (intro takes_rules takes_mono_rule [OF takes_let_statement [OF expr]]
        takes_mono_rule [OF takes_return_statement [OF expr]] takes_mono_rule [OF assms(3)]
        takes_mono_rule [OF takes_while_statement [OF expr assms(2)]]
        takes_mono_rule [OF takes_for_statement [OF expr assms(2)]]
        takes_at_takes [where p = "pbind expr k" for k] takes_step [OF assms(1)]; simp)
qed

lemma takes_block:
  assumes "T 1 (N - 1) expr" "T 1 (N - 1 - 1) blk" "\<And>u. T 1 (N - 1 - 1) (rec u)"
  shows "T 1 N (p_block expr blk rec)"
proof -
  have item: "T 1 (N - 1) (pbind (p_statement expr blk rec) (\<lambda>s. pret (s, True)))"
    by (intro takes_step [OF takes_statement [OF assms]] takes_done; simp)
  show ?thesis
    unfolding p_block_def by (intro takes_rules takes_brace_bind [OF item]; simp)
qed

text \<open>The recursion: two levels of depth for each token suffice.\<close>

lemma takes_recursion:
  "(2 * N + 2 \<le> d \<longrightarrow> T 1 N (parse_expr v5 nested d)) \<and> (2 * N + 1 \<le> d \<longrightarrow> T 1 N (parse_unary v5 nested d))
   \<and> (2 * N + 1 \<le> d \<longrightarrow> T 1 N (parse_block v5 nested d)) \<and> (N = 0 \<or> 2 * N + 3 \<le> d \<longrightarrow> T 1 N (parse_if v5 nested d t))"
proof (induction d arbitrary: N t)
  case (Suc d)
  show ?case
  proof (cases N)
    case (Suc M)
    have eqs: "parse_expr v5 nested (Suc d) = p_assignment v5 (parse_unary v5 nested d) (parse_expr v5 nested d) (parse_block v5 nested d)"
      "parse_unary v5 nested (Suc d) = p_unary nested (parse_unary v5 nested d) (parse_expr v5 nested d) (parse_block v5 nested d)"
      "parse_block v5 nested (Suc d) = p_block (parse_expr v5 nested d) (parse_block v5 nested d) (parse_if v5 nested d)"
      "parse_if v5 nested (Suc d) t = p_if_statement (parse_expr v5 nested d) (parse_block v5 nested d) (parse_if v5 nested d) t"
      by (simp_all add: fun_eq_iff)
    show ?thesis
      unfolding eqs
      by (intro conjI impI takes_assignment takes_unary takes_block takes_if_statement Suc.IH [THEN conjunct1, THEN mp]
          Suc.IH [THEN conjunct2, THEN conjunct1, THEN mp] Suc.IH [THEN conjunct2, THEN conjunct2, THEN conjunct1, THEN mp]
          Suc.IH [THEN conjunct2, THEN conjunct2, THEN conjunct2, THEN mp]) (auto simp: Suc)
  qed (simp add: takes_zero)
qed (simp add: takes_zero)

lemmas takes_expr = takes_recursion [THEN conjunct1, THEN mp]
  and takes_blk = takes_recursion [THEN conjunct2, THEN conjunct2, THEN conjunct1, THEN mp]

text \<open>Declarations.\<close>

lemma takes_at_name:
  "tk_type t \<in> {T_IDENTIFIER, T_TYPE} \<Longrightarrow> (text_of t \<noteq> [] \<Longrightarrow> T_at t n N p) \<Longrightarrow> T_at t n N p"
  using stream_names by (auto simp: takes_at_def)

lemma takes_contextual_bind:
  "(\<And>t. T (n - 1) (N - 1) (k (Some t))) \<Longrightarrow> T n N (k None) \<Longrightarrow> T n N (pbind (p_match_contextual v) k)"
  unfolding p_match_contextual_def pbind_norm
  by (intro takes_rules takes_at_takes) auto

lemma takes_consume_contextual_bind:
  "(\<And>t. T (n - 1) (N - 1) (k t)) \<Longrightarrow> T n N (pbind (p_consume_contextual v m) k)"
  unfolding p_consume_contextual_def pbind_norm
  by (intro takes_contextual_bind takes_option takes_peek_bind; simp)

lemma takes_built:
  "sigil \<in> CANONICAL_SIGILS \<Longrightarrow> text_of s \<noteq> []
   \<Longrightarrow> T 0 N (\<lambda>ts. rbind (mk_SigilDeclaration sigil (text_of s) loc) (\<lambda>d. Inr (d, ts)))"
  by (simp add: takes_def takes_on_def mk_SigilDeclaration_def)

lemma takes_at_sigil:
  assumes "tk_type t \<in> fst ` set SIGIL_TOKEN_TO_TEXT"
  shows "T_at t 1 N p_sigil_declaration"
proof -
  obtain sigil where sigil: "map_of SIGIL_TOKEN_TO_TEXT (tk_type t) = Some sigil"
    using assms by (cases "map_of SIGIL_TOKEN_TO_TEXT (tk_type t)") (auto simp: map_of_eq_None_iff)
  then have "sigil \<in> CANONICAL_SIGILS" "tk_type t \<noteq> T_EOF"
    by (auto dest: sigil_text_canonical)
  have subject: "T_at s (1 - 1) (N - 1) (if tk_type s \<notin> {T_IDENTIFIER, T_TYPE} then p_error s m else
      pbind p_advance (\<lambda>_. pbind (p_match [T_SEMICOLON]) (\<lambda>_. \<lambda>ts. rbind (mk_SigilDeclaration sigil (text_of s) loc) (\<lambda>d. Inr (d, ts)))))"
    for s m loc
  proof (intro takes_at_if takes_at_p_error, rule takes_at_name)
    assume s: "\<not> tk_type s \<notin> {T_IDENTIFIER, T_TYPE}" "text_of s \<noteq> []"
    show "T_at s (1 - 1) (N - 1) (pbind p_advance (\<lambda>_. pbind (p_match [T_SEMICOLON]) (\<lambda>_. \<lambda>ts. rbind (mk_SigilDeclaration sigil (text_of s) loc) (\<lambda>d. Inr (d, ts)))))"
      using s by (intro takes_at_advance takes_match_bind) (auto intro: takes_built \<open>sigil \<in> CANONICAL_SIGILS\<close>)
  qed simp
  show ?thesis
    unfolding p_sigil_declaration_def
    by (intro takes_at_advance \<open>tk_type t \<noteq> T_EOF\<close>) (simp only: sigil option.case, intro takes_peek_bind subject)
qed

lemma takes_type_parameter_loop: "N \<le> k \<Longrightarrow> T 1 N (type_parameter_loop k)"
proof (induction k arbitrary: N)
  case 0
  then show ?case by (simp add: takes_zero)
next
  case (Suc k)
  have ih: "T 1 (N - 1) (type_parameter_loop k)"
    using Suc.prems by (intro Suc.IH) auto
  show ?case
    unfolding type_parameter_loop.simps by (intro takes_rules takes_any [OF ih]; simp)
qed

lemma takes_type_parameters: "T 0 N p_type_parameters"
proof -
  have loop: "T 1 N (\<lambda>ts. type_parameter_loop (length ts) ts)"
    by (rule takes_length) (rule takes_type_parameter_loop, simp)
  show ?thesis
    unfolding p_type_parameters_def by (intro takes_rules takes_any [OF loop]; simp)
qed

lemmas takes_type_parameters_bind = takes_bind0 [OF takes_type_parameters]

lemma takes_import: "T 1 N p_import_declaration"
  unfolding p_import_declaration_def by (intro takes_rules; simp)

lemma takes_struct_field: "T 1 N p_struct_field"
  unfolding p_struct_field_def by (intro takes_rules takes_type_bind; simp)

lemma takes_struct_declaration: "T 1 N p_struct_declaration"
  unfolding p_struct_declaration_def pbind_norm
  by (intro takes_rules takes_consume_contextual_bind takes_type_parameters_bind takes_brace_bind [OF takes_struct_field order.refl]; simp)

lemma takes_enum_variant: "T 1 N p_enum_variant"
  unfolding p_enum_variant_def pbind_norm by (intro takes_rules takes_type_bind; simp)

lemma takes_enum_declaration: "T 1 N p_enum_declaration"
  unfolding p_enum_declaration_def
  by (intro takes_rules takes_type_parameters_bind takes_brace_bind [OF takes_enum_variant order.refl]; simp)

lemma takes_parameter: "T 1 N p_parameter"
  unfolding p_parameter_def by (intro takes_rules takes_type_bind; simp)

lemma takes_function_declaration:
  assumes "T 1 N blk" shows "T 1 N (p_function_declaration blk)"
  unfolding p_function_declaration_def pbind_norm
  by (intro takes_rules takes_contextual_bind takes_type_parameters_bind takes_type_bind
      takes_comma_bind [OF takes_parameter order.refl] takes_step [OF assms]; simp)

lemma takes_declaration:
  assumes "T 1 N blk" shows "T 1 N (p_declaration blk pr)"
proof -
  have sigil: "T_at t 1 N (pbind p_sigil_declaration (\<lambda>d. pret (f d)))"
    if "tk_type t \<in> fst ` set SIGIL_TOKEN_TO_TEXT" for t and f :: "sigil_declaration \<Rightarrow> program"
    using takes_at_sigil [OF that, of N]
    by (auto simp: takes_at_def takes_on_def pbind_def pret_def rbind_def split: sum.splits)
  show ?thesis
    unfolding p_declaration_def
    by (intro takes_peek_bind takes_at_if sigil takes_at_takes takes_step [OF takes_import order.refl]
        takes_step [OF takes_struct_declaration order.refl] takes_step [OF takes_enum_declaration order.refl]
        takes_step [OF takes_function_declaration [OF assms] order.refl] takes_done; simp)
qed

lemma takes_program_loop: "T 1 N blk \<Longrightarrow> N \<le> k \<Longrightarrow> T 0 N (program_loop k blk pr)"
proof (induction k arbitrary: N pr)
  case 0
  then show ?case by (simp add: takes_zero)
next
  case (Suc k)
  have ih: "T 0 (N - 1) (program_loop k blk pr')" for pr'
    using Suc.prems by (intro Suc.IH takes_le [OF Suc.prems(1)]) auto
  show ?case
    unfolding program_loop.simps
    by (intro takes_rules takes_step [OF takes_declaration [OF Suc.prems(1)] order.refl] takes_mono_rule [OF ih]; simp)
qed

text \<open>What a client of the parser relies on.\<close>

lemma expression_parsed:
  assumes "G ts" "parse_expr v5 nested (depth_for ts) ts = Inr (e, rest)"
  shows "G rest \<and> length rest < length ts"
  using takes_expr [of "length ts" "depth_for ts" v5] assms
  by (auto simp: depth_for_def takes_def takes_on_def)

lemma expression_rejected:
  assumes "G ts" "parse_expr v5 nested (depth_for ts) ts = Inl e"
  shows "X e"
  using takes_expr [of "length ts" "depth_for ts" v5] assms
  by (auto simp: depth_for_def takes_def takes_on_def)

lemma program_rejected:
  assumes "G ts" "parse_tokens nested ts = Inl e"
  shows "X e"
proof -
  have "T 1 (length ts) (parse_block True nested (depth_for ts))"
    by (rule takes_blk) (simp add: depth_for_def)
  from takes_program_loop [OF this order.refl, of empty_program] assms show ?thesis
    by (auto simp: parse_tokens_def takes_def takes_on_def rbind_def split: sum.splits)
qed

end

section \<open>The streams of the scanner\<close>

definition stream_of :: "string \<Rightarrow> token list \<Rightarrow> bool" where
  "stream_of source ts \<longleftrightarrow> scanned ts \<and> (\<forall>t \<in> set ts. \<forall>segs. tk_value t = Segments_Value segs \<longrightarrow> inside source segs)"

definition syntax_rejected :: "string \<Rightarrow> pyexc \<Rightarrow> bool" where
  "syntax_rejected source e \<longleftrightarrow> exc_of e = ParserError \<or> exc_of e = ValueError \<and> awkward_number source"

lemma stream_of_tokenize:
  assumes "tokenize source keep_comments = Inr ts"
  shows "stream_of source ts"
proof -
  obtain body eof "is" where ts: "ts = body @ [eof]" "tk_type eof = T_EOF" "list_all2 (token_at source) ts is"
    using tokenize_lexed [OF assms] by metis
  have "inside source segs" if "token_at source t i" "tk_value t = Segments_Value segs" for t i segs
    using that by (auto simp: token_at_def token_meaning_def)
  then have "\<forall>t \<in> set ts. \<forall>segs. tk_value t = Segments_Value segs \<longrightarrow> inside source segs"
    using ts(3) by (metis in_set_conv_nth list_all2_conv_all_nth)
  then show ?thesis
    using scanned_tokenize [OF assms] by (simp add: stream_of_def)
qed

lemma awkward_inside:
  "inside source segs \<Longrightarrow> Expr_Segment c \<in> set segs
   \<Longrightarrow> length c < length source \<and> (awkward_number c \<longrightarrow> awkward_number source)"
  by (force simp: inside_def list_all_iff list_ex_iff awkward_number_def)

lemma token_stream_of:
  assumes "\<And>c e. length c < length source \<Longrightarrow> nested c = Inl e
    \<Longrightarrow> exc_of e \<in> {ParserError, LexerError} \<or> exc_of e = ValueError \<and> awkward_number c"
  shows "token_stream (stream_of source) (syntax_rejected source) nested"
proof
  fix t ts segs c e
  assume "stream_of source (t # ts)" "tk_value t = Segments_Value segs" "Expr_Segment c \<in> set segs" "nested c = Inl e"
  then show "syntax_rejected source e \<or> exc_of e \<in> {ParserError, LexerError}"
    using assms [of c e] awkward_inside [of source segs c] by (auto simp: stream_of_def syntax_rejected_def)
qed (auto simp: stream_of_def scanned_def syntax_rejected_def split: if_splits)

lemma parse_expression_at_errors:
  "length source < k \<Longrightarrow> parse_expression_at v5 k source = Inl e
   \<Longrightarrow> exc_of e \<in> {ParserError, LexerError} \<or> exc_of e = ValueError \<and> awkward_number source"
proof (induction k arbitrary: v5 source e)
  case (Suc k)
  have stream: "token_stream (stream_of source) (syntax_rejected source) (parse_expression_at False k)"
    using Suc.prems(1) by (intro token_stream_of Suc.IH) auto
  show ?case
  proof (cases "tokenize source False")
    case (Inl e')
    then show ?thesis
      using Suc.prems(2) tokenize_error by auto
  next
    case (Inr ts)
    note ts = stream_of_tokenize [OF Inr]
    show ?thesis
    proof (cases "parse_expr v5 (parse_expression_at False k) (depth_for ts) ts")
      case (Inl e')
      with token_stream.expression_rejected [OF stream ts Inl] Inr Suc.prems(2) show ?thesis
        by (auto simp: syntax_rejected_def)
    next
      case (Inr r)
      obtain x rest where "r = (x, rest)" by force
      moreover have "rest \<noteq> []"
        using token_stream.expression_parsed [OF stream ts Inr [unfolded calculation]] by (simp add: stream_of_def scanned_def)
      ultimately show ?thesis
        using Inr \<open>tokenize source False = Inr ts\<close> Suc.prems(2)
        by (cases rest) (auto simp: p_is_at_end_def p_check_def pbind_def pret_def p_peek_def p_error_def pfail_def split: if_splits)
    qed
  qed
qed simp

interpretation source: token_stream "stream_of source" "syntax_rejected source" "parse_expression_at False (Suc (length source))"
  for source
  by (rule token_stream_of, rule parse_expression_at_errors, rule less_SucI)



end
