(* ===== verification/Parser_Grammar.thy ===== *)
theory Parser_Grammar
  imports Parser_Total
begin

text \<open>
  What the parser accepts: its agreement with the parser of native sigil programs, and the printing
  of syntax trees that it parses back.
\<close>

section \<open>The native sigil language is a part of the language\<close>

lemma sigil_phrase_parsed:
  assumes "spells abc d"
  shows "p_declaration blk pr (abc @ ts) = Inr (pr\<lparr>pr_sigils := pr_sigils pr @ [d]\<rparr>, ts)"
proof -
  obtain a b c where abc: "abc = [a, b, c]" and a: "map_of SIGIL_TOKEN_TO_TEXT (tk_type a) = Some (sd_sigil d)"
    and b: "tk_type b \<in> {T_IDENTIFIER, T_TYPE}" "text_of b = sd_subject d" "sd_subject d \<noteq> []"
    and c: "tk_type c = T_SEMICOLON" and d: "sd_location d = p_location a"
    using assms by (auto simp: spells_def p_location_def)
  have "tk_type a \<in> fst ` set SIGIL_TOKEN_TO_TEXT"
    using map_of_SomeD [OF a] by force
  then show ?thesis
    using a b c d sigil_text_canonical [OF a]
    by (auto simp: abc p_declaration_def p_sigil_declaration_def p_match_def pbind_def pret_def p_peek_def p_advance_def
        mk_SigilDeclaration_def)
qed

lemma spells_not_eof: "spells abc d \<Longrightarrow> \<exists>t ts. abc = t # ts \<and> tk_type t \<noteq> T_EOF"
  by (auto simp: spells_def)

lemma program_loop_phrases:
  "phrases ts ds \<Longrightarrow> length ts \<le> k
   \<Longrightarrow> \<exists>rest. program_loop k blk pr ts = Inr (pr\<lparr>pr_sigils := pr_sigils pr @ ds\<rparr>, rest)"
proof (induction arbitrary: k pr rule: phrases.induct)
  case (phrases_end eof rest)
  then show ?case
    by (cases k) (auto simp: p_is_at_end_def p_check_def p_peek_def pbind_def pret_def)
next
  case (phrases_step abc d ts ds)
  obtain j where k: "k = Suc j" "length ts \<le> j"
    using phrases_step.prems spells_length [OF phrases_step.hyps(1)] by (cases k) auto
  have "program_loop k blk pr (abc @ ts) = program_loop j blk (pr\<lparr>pr_sigils := pr_sigils pr @ [d]\<rparr>) ts"
    using spells_not_eof [OF phrases_step.hyps(1)] sigil_phrase_parsed [OF phrases_step.hyps(1), of blk pr ts]
    by (auto simp: k(1) pbind_def p_is_at_end_def p_check_def p_peek_def pret_def)
  then show ?case
    using phrases_step.IH [OF k(2), of "pr\<lparr>pr_sigils := pr_sigils pr @ [d]\<rparr>"] by simp
qed

text \<open>
  C28. The two front ends agree on the native sigil language: every source that
  \<open>parse_native_sigils\<close> accepts, the parser of the language accepts too, with exactly the same
  sigil declarations, positions included, and no other declaration.
\<close>

theorem native_programs_parse_alike:
  assumes "parse_native_sigils source = Inr ds"
  shows "parse_source source = Inr (empty_program\<lparr>pr_sigils := ds\<rparr>)"
proof -
  obtain ts where ts: "tokenize source False = Inr ts" "phrases ts ds"
    using assms by (auto simp: parse_native_sigils_def rbind_eq_Inr parse_program_phrases)
  then obtain rest where "program_loop (length ts) (parse_block True (parse_expression_at False (Suc (length source))) (depth_for ts)) empty_program ts
      = Inr (empty_program\<lparr>pr_sigils := ds\<rparr>, rest)"
    using program_loop_phrases [OF ts(2) order.refl, of _ empty_program] by (auto simp: empty_program_def)
  then show ?thesis
    by (simp add: parse_source_def ts(1) parse_tokens_def)
qed

theorem native_programs_parse_alike_witness:
  "\<exists>ds. parse_native_sigils ''ka door; thal Gate;'' = Inr ds
     \<and> parse_source ''ka door; thal Gate;'' = Inr (empty_program\<lparr>pr_sigils := ds\<rparr>)"
proof -
  have "is_ok (parse_native_sigils ''ka door; thal Gate;'')" by code_simp
  then obtain ds where "parse_native_sigils ''ka door; thal Gate;'' = Inr ds" by (auto simp: is_ok_iff)
  with native_programs_parse_alike [OF this] show ?thesis by blast
qed

end
