(* ===== verification/Parser_Print.thy ===== *)
theory Parser_Print
  imports Parser_Grammar
begin

text \<open>
  Expressions printed to tokens with the fewest parentheses that the precedence table asks for,
  and parsed back. The levels are those of the methods of the parser: 0 assignment, 1 \<open>or\<close>, 2 to 7 the
  binary operators, 8 unary, 9 calls and members, 10 primary.
\<close>

section \<open>Printing\<close>

definition tok :: "TokenType \<Rightarrow> token_value \<Rightarrow> source_location \<Rightarrow> token" where
  "tok ty v l = \<lparr>tk_type = ty, tk_value = v, tk_line = loc_line l, tk_column = loc_column l\<rparr>"

definition mark :: "TokenType \<Rightarrow> token" where
  "mark ty = tok ty No_Value \<lparr>loc_line = 0, loc_column = 0\<rparr>"

lemma tok_simps [simp]:
  "tk_type (tok ty v l) = ty" "tk_value (tok ty v l) = v" "tk_line (tok ty v l) = loc_line l" "p_location (tok ty v l) = l"
  "tk_type (mark ty) = ty"
  by (simp_all add: tok_def mark_def p_location_def)

definition BINARY_OPERATORS :: "(string \<times> TokenType \<times> nat) list" where
  "BINARY_OPERATORS =
     [(''||'', T_PIPE_PIPE, 2), (''&&'', T_AMP_AMP, 3), (''=='', T_EQUAL_EQUAL, 4), (''!='', T_BANG_EQUAL, 4),
      (''<'', T_LESS, 5), (''<='', T_LESS_EQUAL, 5), (''>'', T_GREATER, 5), (''>='', T_GREATER_EQUAL, 5),
      (''+'', T_PLUS, 6), (''-'', T_MINUS, 6), (''*'', T_STAR, 7), (''/'', T_SLASH, 7), (''%'', T_PERCENT, 7)]"

definition operator_type :: "string \<Rightarrow> TokenType" where
  "operator_type op = (case map_of BINARY_OPERATORS op of Some (ty, _) \<Rightarrow> ty | None \<Rightarrow> T_EOF)"

definition operator_level :: "string \<Rightarrow> nat" where
  "operator_level op = (case map_of BINARY_OPERATORS op of Some (_, p) \<Rightarrow> p | None \<Rightarrow> 0)"

fun level_of :: "expression \<Rightarrow> nat" where
  "level_of (AssignmentExpression _ _ _) = 0"
| "level_of (OrReturnExpression _ _ _) = 1"
| "level_of (OrElseExpression _ _ _) = 1"
| "level_of (OrBlockExpression _ _ _) = 1"
| "level_of (BinaryExpression _ op _ _) = operator_level op"
| "level_of (UnaryExpression _ _ _) = 8"
| "level_of (MemberExpression _ _ _) = 9"
| "level_of (CallExpression _ _ _) = 9"
| "level_of _ = 10"

definition parens :: "bool \<Rightarrow> token list \<Rightarrow> token list" where
  "parens c ts = (if c then mark T_LEFT_PAREN # ts @ [mark T_RIGHT_PAREN] else ts)"

fun literal_token :: "literal \<Rightarrow> source_location \<Rightarrow> token" where
  "literal_token (Str_Lit s) l = tok T_STRING (Str_Value s) l"
| "literal_token (Int_Lit i) l = tok T_NUMBER (Int_Value i) l"
| "literal_token (Float_Lit s) l = tok T_NUMBER (Float_Value s) l"
| "literal_token (Bool_Lit b) l = (if b then tok T_TRUE (Str_Value ''true'') l else tok T_FALSE (Str_Value ''false'') l)"

definition name_token :: "string \<Rightarrow> source_location \<Rightarrow> token" where
  "name_token n l = tok (word_type n) (Str_Value n) l"

definition somewhere :: source_location where
  "somewhere = \<lparr>loc_line = 0, loc_column = 0\<rparr>"

text \<open>
  The tokens of an expression. After \<open>or\<close> a brace begins a block, so a fallback that begins
  with one is put in parentheses; the \<open>return\<close> of \<open>or return\<close> stands on the line of its error.
\<close>

fun spell :: "expression \<Rightarrow> token list" where
  "spell (Identifier n l) = [name_token n l]"
| "spell (Literal v l) = [literal_token v l]"
| "spell (StructLiteral n fs l) =
     [name_token n l, mark T_LEFT_BRACE]
     @ concat (map (\<lambda>(f, e). [name_token f somewhere, mark T_COLON] @ spell e @ [mark T_COMMA]) fs) @ [mark T_RIGHT_BRACE]"
| "spell (ListLiteral es l) =
     [tok T_LEFT_BRACKET No_Value l] @ concat (map (\<lambda>e. spell e @ [mark T_COMMA]) es) @ [mark T_RIGHT_BRACKET]"
| "spell (MapLiteral kvs l) =
     [tok T_LEFT_BRACE No_Value l]
     @ concat (map (\<lambda>(k, e). spell k @ [mark T_COLON] @ spell e @ [mark T_COMMA]) kvs) @ [mark T_RIGHT_BRACE]"
| "spell (MemberExpression e n l) = parens (level_of e < 9) (spell e) @ [mark T_DOT, name_token n l]"
| "spell (CallExpression e args l) =
     parens (level_of e < 9) (spell e) @ [tok T_LEFT_PAREN No_Value l]
     @ concat (map (\<lambda>e. spell e @ [mark T_COMMA]) args) @ [mark T_RIGHT_PAREN]"
| "spell (AssignmentExpression t e l) = parens (level_of t < 1) (spell t) @ [tok T_EQUAL No_Value l] @ spell e"
| "spell (BinaryExpression a op b l) =
     parens (level_of a < operator_level op) (spell a) @ [tok (operator_type op) (Str_Value op) l]
     @ parens (level_of b \<le> operator_level op) (spell b)"
| "spell (UnaryExpression op e l) =
     [tok (if op = ''!'' then T_BANG else T_MINUS) (Str_Value op) l] @ parens (level_of e < 8) (spell e)"
| "spell (OrReturnExpression a (Some e) l) =
     parens (level_of a < 1) (spell a)
     @ [tok T_OR No_Value l, tok T_RETURN No_Value \<lparr>loc_line = tk_line (hd (parens (level_of e < 2) (spell e))), loc_column = 0\<rparr>]
     @ parens (level_of e < 2) (spell e)"
| "spell (OrReturnExpression a None l) = []"
| "spell (OrElseExpression a e l) =
     parens (level_of a < 1) (spell a) @ [tok T_OR No_Value l]
     @ parens (level_of e < 2 \<or> tk_type (hd (spell e)) = T_LEFT_BRACE) (spell e)"
| "spell (OrBlockExpression a h l) = []"
| "spell (InterpolatedString ps l) = []"
| "spell (MatchExpression e as l) = []"

text \<open>
  The trees that are spelled: names are names and operators are operators, an assignment has a
  target, and there is no block inside and no interpolated string.
\<close>

fun spellable :: "expression \<Rightarrow> bool" where
  "spellable (Identifier n l) = (word_type n \<in> {T_IDENTIFIER, T_TYPE})"
| "spellable (Literal v l) = True"
| "spellable (StructLiteral n fs l) = (word_type n = T_TYPE \<and> list_all (\<lambda>(f, e). word_type f = T_IDENTIFIER \<and> spellable e) fs)"
| "spellable (ListLiteral es l) = list_all spellable es"
| "spellable (MapLiteral kvs l) = list_all (\<lambda>(k, e). spellable k \<and> spellable e) kvs"
| "spellable (MemberExpression e n l) = (spellable e \<and> word_type n = T_IDENTIFIER)"
| "spellable (CallExpression e args l) = (spellable e \<and> list_all spellable args)"
| "spellable (AssignmentExpression t e l) = (is_target t \<and> spellable t \<and> spellable e)"
| "spellable (BinaryExpression a op b l) = (op \<in> fst ` set BINARY_OPERATORS \<and> spellable a \<and> spellable b)"
| "spellable (UnaryExpression op e l) = (op \<in> {''!'', ''-''} \<and> spellable e)"
| "spellable (OrReturnExpression a err l) = (spellable a \<and> (case err of Some e \<Rightarrow> spellable e | None \<Rightarrow> False))"
| "spellable (OrElseExpression a e l) = (spellable a \<and> spellable e)"
| "spellable (OrBlockExpression a h l) = False"
| "spellable (InterpolatedString ps l) = False"
| "spellable (MatchExpression e as l) = False"

definition tokens_at :: "nat \<Rightarrow> expression \<Rightarrow> token list" where
  "tokens_at p e = parens (level_of e < p) (spell e)"

section \<open>The levels of the parser\<close>

definition level_tokens :: "nat \<Rightarrow> TokenType list" where
  "level_tokens p = (if p = 0 then [T_EQUAL] else if p = 1 then [T_OR] else if p = 2 then [T_PIPE_PIPE] else if p = 3 then [T_AMP_AMP]
     else if p = 4 then [T_EQUAL_EQUAL, T_BANG_EQUAL] else if p = 5 then [T_LESS, T_LESS_EQUAL, T_GREATER, T_GREATER_EQUAL]
     else if p = 6 then [T_PLUS, T_MINUS] else if p = 7 then [T_STAR, T_SLASH, T_PERCENT] else if p = 8 then []
     else if p = 9 then [T_LEFT_PAREN, T_DOT] else [])"

definition operator_name :: "nat \<Rightarrow> token \<Rightarrow> string" where
  "operator_name p = (if p = 2 then (\<lambda>_. ''||'') else if p = 3 then (\<lambda>_. ''&&'') else (\<lambda>t. text_of t))"

text \<open>The parser of each level, at depth \<open>d\<close>, and the loop it is in after its first operand.\<close>

definition level_parser :: "bool \<Rightarrow> (string \<Rightarrow> expression result) \<Rightarrow> nat \<Rightarrow> nat \<Rightarrow> expression parser" where
  "level_parser v5 nested d p =
     (if p = 0 then p_assignment v5 (parse_unary v5 nested d) (parse_expr v5 nested d) (parse_block v5 nested d)
      else if p = 1 then p_or_handler v5 (parse_unary v5 nested d) (parse_block v5 nested d)
      else if p = 2 then p_logical_or (parse_unary v5 nested d) else if p = 3 then p_logical_and (parse_unary v5 nested d)
      else if p = 4 then p_equality (parse_unary v5 nested d) else if p = 5 then p_comparison (parse_unary v5 nested d)
      else if p = 6 then p_term (parse_unary v5 nested d) else if p = 7 then p_factor (parse_unary v5 nested d)
      else if p = 8 then parse_unary v5 nested d
      else if p = 9 then p_call nested (parse_expr v5 nested (d - 1)) (parse_block v5 nested (d - 1))
      else p_primary nested (parse_expr v5 nested (d - 1)) (parse_block v5 nested (d - 1)))"

definition level_loop :: "bool \<Rightarrow> (string \<Rightarrow> expression result) \<Rightarrow> nat \<Rightarrow> nat \<Rightarrow> nat \<Rightarrow> expression \<Rightarrow> expression parser" where
  "level_loop v5 nested d p k e =
     (if p = 0 then pbind (p_match [T_EQUAL]) (\<lambda>m. case m of
        None \<Rightarrow> pret e
      | Some equals \<Rightarrow>
          pbind (parse_expr v5 nested d) (\<lambda>val.
            if \<not> is_target e then p_error equals ''Gecersiz atama hedefi.''
            else pret (AssignmentExpression e val (p_location equals))))
      else if p = 1 then or_loop v5 k (p_logical_or (parse_unary v5 nested d)) (parse_block v5 nested d) e
      else if p < 8 then binary_loop k (level_tokens p) (operator_name p) (level_parser v5 nested d (Suc p)) e
      else if p = 9 then call_loop k (parse_expr v5 nested (d - 1)) e
      else pret e)"

lemma level_binary:
  assumes "2 \<le> p" "p < 8"
  shows "level_parser v5 nested d p = binary_level (level_tokens p) (operator_name p) (level_parser v5 nested d (Suc p))"
proof -
  have "p = 2 \<or> p = 3 \<or> p = 4 \<or> p = 5 \<or> p = 6 \<or> p = 7"
    using assms by linarith
  then show ?thesis
    by (elim disjE) (simp_all add: level_parser_def level_tokens_def operator_name_def p_logical_or_def p_logical_and_def
        p_equality_def p_comparison_def p_term_def p_factor_def)
qed

definition head_type :: "token list \<Rightarrow> TokenType" where
  "head_type ts = (case ts of [] \<Rightarrow> T_EOF | t # _ \<Rightarrow> tk_type t)"

lemma head_type_simps [simp]: "head_type (t # ts) = tk_type t" "ts \<noteq> [] \<Longrightarrow> head_type (ts @ us) = head_type ts"
  by (auto simp: head_type_def split: list.split)

text \<open>From the operand of a level into its loop, and out of it where no operator follows.\<close>

lemma level_enter:
  assumes "level_parser v5 nested (Suc d) (Suc p) ts = Inr (e, rest)" "p < 10"
    and "p = 8 \<Longrightarrow> head_type ts \<notin> {T_BANG, T_MINUS} \<and> ts \<noteq> []"
  shows "\<exists>k. length rest \<le> k \<and> level_parser v5 nested (Suc d) p ts = level_loop v5 nested (Suc d) p k e rest"
proof (intro exI conjI)
  show "length rest \<le> length rest" by simp
  consider "p = 0" | "p = 1" | "2 \<le> p \<and> p < 8" | "p = 8" | "p = 9"
    using assms(2) by linarith
  then show "level_parser v5 nested (Suc d) p ts = level_loop v5 nested (Suc d) p (length rest) e rest"
  proof cases
    case 3
    then show ?thesis
      using assms(1) by (simp add: level_binary level_loop_def binary_level_def pbind_def)
  next
    case 4
    then show ?thesis
      using assms(1,3)
      by (cases ts) (simp_all add: level_parser_def level_loop_def p_unary_def p_match_def p_peek_def pbind_def pret_def)
  qed (use assms(1) in \<open>simp_all add: level_parser_def level_loop_def p_assignment_def p_or_handler_def p_call_def pbind_def\<close>)
qed

lemma match_none:
  "rest \<noteq> [] \<Longrightarrow> head_type rest \<notin> set tys \<Longrightarrow> pbind (p_match tys) f rest = f None rest"
  by (cases rest) (simp_all add: p_match_def p_peek_def pbind_def pret_def)

lemma match_some:
  "tk_type t \<in> set tys \<Longrightarrow> pbind (p_match tys) f (t # rest) = f (Some t) rest"
  by (simp add: p_match_def p_peek_def p_advance_def pbind_def pret_def)

lemma level_exit:
  assumes "length rest \<le> k" "rest \<noteq> []" "head_type rest \<notin> set (level_tokens p)"
  shows "level_loop v5 nested d p k e rest = Inr (e, rest)"
proof -
  obtain j where k: "k = Suc j"
    using assms by (cases k) auto
  consider "p = 0" | "p = 1" | "2 \<le> p \<and> p < 8" | "p = 9" | "p = 8 \<or> 9 < p"
    by linarith
  then show ?thesis
    by cases (use assms in \<open>auto simp: k level_loop_def match_none level_tokens_def [of 0] level_tokens_def [of "Suc 0"]
        level_tokens_def [of 9] pret_def\<close>)
qed

lemma level_pass:
  assumes "level_parser v5 nested (Suc d) q ts = Inr (e, rest)" "p \<le> q" "q \<le> 10" "rest \<noteq> []"
    and "\<And>j. p \<le> j \<Longrightarrow> j < q \<Longrightarrow> head_type rest \<notin> set (level_tokens j)"
    and "8 < q \<Longrightarrow> head_type ts \<notin> {T_BANG, T_MINUS} \<and> ts \<noteq> []"
  shows "level_parser v5 nested (Suc d) p ts = Inr (e, rest)"
  using assms(2) assms(5)
proof (induction rule: inc_induct)
  case base
  show ?case by (rule assms(1))
next
  case (step n)
  have "level_parser v5 nested (Suc d) (Suc n) ts = Inr (e, rest)"
    using step by simp
  from level_enter [OF this] step.hyps assms(3,6)
  obtain k where "length rest \<le> k" "level_parser v5 nested (Suc d) n ts = level_loop v5 nested (Suc d) n k e rest"
    by auto
  then show ?case
    using level_exit [of rest k n v5 nested "Suc d" e] step assms(4) by simp
qed

section \<open>Spelled expressions\<close>

definition starts :: "TokenType set" where
  "starts = {T_STRING, T_NUMBER, T_TRUE, T_FALSE, T_LEFT_BRACKET, T_LEFT_BRACE, T_IDENTIFIER, T_TYPE, T_LEFT_PAREN}"

lemma head_type_parens: "ts \<noteq> [] \<Longrightarrow> head_type (parens c ts) = (if c then T_LEFT_PAREN else head_type ts)"
  by (simp add: parens_def)

lemma parens_Nil [simp]: "parens c ts = [] \<longleftrightarrow> \<not> c \<and> ts = []"
  by (simp add: parens_def)

lemma literal_token_head [simp]: "tk_type (literal_token v l) \<in> {T_STRING, T_NUMBER, T_TRUE, T_FALSE}"
  by (cases v) auto

lemma spell_head:
  "spellable e \<Longrightarrow> spell e \<noteq> [] \<and> head_type (spell e) \<in> starts \<union> (if level_of e < 9 then {T_BANG, T_MINUS} else {})"
  by (induction e rule: spell.induct)
     (use literal_token_head in \<open>auto simp: head_type_parens starts_def name_token_def split: if_splits\<close>)

text \<open>What may not follow an expression of level \<open>p\<close>: an operator of a higher level, or a brace, which would make a
  struct literal of a type name.\<close>

definition above :: "nat \<Rightarrow> TokenType set" where
  "above p = {T_LEFT_BRACE} \<union> (if p = 0 then {T_EQUAL} else {}) \<union> (\<Union>q \<in> {Suc p..10}. set (level_tokens q))"

text \<open>The claim about an expression: its tokens at a level bring the parser into the loop of that level.\<close>

definition deep :: "nat \<Rightarrow> token list \<Rightarrow> bool" where
  "deep d ts \<longleftrightarrow> 2 * length ts + 1 \<le> d"

definition parsed_at :: "bool \<Rightarrow> (string \<Rightarrow> expression result) \<Rightarrow> expression \<Rightarrow> nat \<Rightarrow> token list \<Rightarrow> bool" where
  "parsed_at v5 nested e p ts \<longleftrightarrow> (\<forall>d rest. rest \<noteq> [] \<longrightarrow> deep d (ts @ rest) \<longrightarrow> head_type rest \<notin> above p \<longrightarrow>
     (\<exists>k. length rest \<le> k \<and> level_parser v5 nested d p (ts @ rest) = level_loop v5 nested d p k e rest))"

lemma parsed_atD:
  assumes "parsed_at v5 nested e p ts" "rest \<noteq> []" "deep d (ts @ rest)" "head_type rest \<notin> above p"
  obtains k where "length rest \<le> k" "level_parser v5 nested d p (ts @ rest) = level_loop v5 nested d p k e rest"
  using assms by (auto simp: parsed_at_def)

lemma parsed_at_exact:
  assumes "parsed_at v5 nested e p ts" "rest \<noteq> []" "deep d (ts @ rest)" "head_type rest \<notin> above p" "head_type rest \<notin> set (level_tokens p)"
  shows "level_parser v5 nested d p (ts @ rest) = Inr (e, rest)"
  using parsed_atD [OF assms(1-4)] level_exit [OF _ assms(2,5)] by metis

lemma above_mono: "p \<le> q \<Longrightarrow> above q \<subseteq> above p"
  unfolding above_def by (intro Un_mono UN_mono) auto

lemma above_level: "p < j \<Longrightarrow> j \<le> 10 \<Longrightarrow> set (level_tokens j) \<subseteq> above p"
  by (fastforce simp: above_def)

lemma parsed_at_lower:
  assumes "parsed_at v5 nested e q ts" "p \<le> q" "q \<le> 10" "ts \<noteq> []" "8 < q \<Longrightarrow> head_type ts \<notin> {T_BANG, T_MINUS}"
  shows "parsed_at v5 nested e p ts"
proof (cases "p = q")
  case False
  then have lt: "p < q" using assms(2) by simp
  show ?thesis
    unfolding parsed_at_def
  proof (intro allI impI)
    fix d rest
    assume rest: "rest \<noteq> []" "deep d (ts @ rest)" "head_type rest \<notin> above p"
    obtain d' where d: "d = Suc d'"
      using rest(2) by (cases d) (auto simp: deep_def)
    have not: "head_type rest \<notin> set (level_tokens j)" if "p < j" "j \<le> q" for j
      using above_level [of p j] that rest(3) assms(3) by auto
    have "level_parser v5 nested d q (ts @ rest) = Inr (e, rest)"
      using rest above_mono [of p q] lt not [OF lt] by (intro parsed_at_exact [OF assms(1)]) auto
    then have "level_parser v5 nested d (Suc p) (ts @ rest) = Inr (e, rest)"
      unfolding d by (rule level_pass) (use lt assms rest(1) not in auto)
    then show "\<exists>k. length rest \<le> k \<and> level_parser v5 nested d p (ts @ rest) = level_loop v5 nested d p k e rest"
      unfolding d by (rule level_enter) (use lt assms(3-5) in auto)
  qed
qed (use assms(1) in simp)

lemma advance_bind: "pbind p_advance f (t # rest) = f t rest"
  by (simp add: pbind_def p_advance_def)

lemma consume_bind: "tk_type t = ty \<Longrightarrow> pbind (p_consume ty m) f (t # rest) = f t rest"
  by (simp add: pbind_def p_consume_def p_check_def p_peek_def p_advance_def pret_def)

lemma peek_bind: "pbind p_peek f (t # rest) = f t (t # rest)"
  by (simp add: pbind_def p_peek_def)

lemma check_bind: "rest \<noteq> [] \<Longrightarrow> pbind (p_check ty) f rest = f (head_type rest = ty) rest"
  by (cases rest) (simp_all add: pbind_def p_check_def p_peek_def pret_def)

lemma bind_ok: "p ts = Inr (x, rest) \<Longrightarrow> pbind p f ts = f x rest"
  by (simp add: pbind_def)

lemma level_zero: "0 < d \<Longrightarrow> parse_expr v5 nested d = level_parser v5 nested (d - 1) 0"
  by (cases d) (auto simp: level_parser_def)

lemmas cursor_simps = advance_bind consume_bind peek_bind check_bind match_some match_none pret_def

text \<open>Parentheses reset the level.\<close>

lemma closing_not_above [simp]:
  "T_RIGHT_PAREN \<notin> above p" "T_RIGHT_BRACKET \<notin> above p" "T_RIGHT_BRACE \<notin> above p" "T_COMMA \<notin> above p" "T_COLON \<notin> above p"
  by (auto simp: above_def level_tokens_def split: if_splits)

lemma closing_not_level [simp]:
  "T_RIGHT_PAREN \<notin> set (level_tokens p)" "T_RIGHT_BRACKET \<notin> set (level_tokens p)" "T_RIGHT_BRACE \<notin> set (level_tokens p)"
  "T_COMMA \<notin> set (level_tokens p)" "T_COLON \<notin> set (level_tokens p)"
  by (auto simp: level_tokens_def split: if_splits)

lemma inner_expression:
  assumes "parsed_at v5 nested e 0 ts" "deep d (ts @ t # rest)" "tk_type t \<in> {T_RIGHT_PAREN, T_COMMA, T_COLON}"
  shows "parse_expr v5 nested (Suc d) (ts @ t # rest) = Inr (e, t # rest)"
  using parsed_at_exact [OF assms(1) _ assms(2)] assms(3)
  by (auto simp: level_zero simp del: parse_expr.simps)

lemma parsed_at_parens:
  assumes "parsed_at v5 nested e 0 ts"
  shows "parsed_at v5 nested e 10 (mark T_LEFT_PAREN # ts @ [mark T_RIGHT_PAREN])"
  unfolding parsed_at_def
proof (intro allI impI exI conjI)
  fix d rest
  assume rest: "rest \<noteq> []" "deep d ((mark T_LEFT_PAREN # ts @ [mark T_RIGHT_PAREN]) @ rest)"
  obtain d' where d: "d = Suc (Suc d')" "deep d' (ts @ mark T_RIGHT_PAREN # rest)"
    using rest(2) by (cases d; cases "d - 1") (auto simp: deep_def)
  show "level_parser v5 nested d 10 ((mark T_LEFT_PAREN # ts @ [mark T_RIGHT_PAREN]) @ rest)
      = level_loop v5 nested d 10 (length rest) e rest"
    using inner_expression [OF assms d(2)] by (simp add: d level_parser_def level_loop_def p_primary_def cursor_simps bind_ok del: parse_expr.simps)
qed simp

lemma parsed_at_all:
  assumes "spellable e" "parsed_at v5 nested e (level_of e) (spell e)" "level_of e \<le> 10" "p \<le> 10"
  shows "parsed_at v5 nested e p (tokens_at p e)"
proof -
  have head: "spell e \<noteq> []" "8 < level_of e \<Longrightarrow> head_type (spell e) \<notin> {T_BANG, T_MINUS}"
    using spell_head [OF assms(1)] by (auto simp: starts_def)
  have low: "parsed_at v5 nested e q (spell e)" if "q \<le> level_of e" for q
    by (rule parsed_at_lower [OF assms(2) that assms(3) head])
  show ?thesis
  proof (cases "level_of e < p")
    case True
    have "parsed_at v5 nested e p (mark T_LEFT_PAREN # spell e @ [mark T_RIGHT_PAREN])"
      by (rule parsed_at_lower [OF parsed_at_parens [OF low]]) (simp_all add: assms(4))
    then show ?thesis
      using True by (simp add: tokens_at_def parens_def)
  qed (simp add: tokens_at_def parens_def low)
qed

section \<open>Each construct at its own level\<close>

lemma deep_step: "deep d (t # us) \<Longrightarrow> \<exists>d'. d = Suc (Suc d') \<and> deep d' us"
  by (cases d; cases "d - 1") (auto simp: deep_def)

lemma operator_simps:
  assumes "op \<in> fst ` set BINARY_OPERATORS"
  shows "2 \<le> operator_level op \<and> operator_level op < 8" "operator_type op \<in> set (level_tokens (operator_level op))"
    "operator_type op \<notin> above (operator_level op)"
    "operator_name (operator_level op) (tok (operator_type op) (Str_Value op) l) = op"
  using assms
  by (auto simp: BINARY_OPERATORS_def operator_level_def operator_type_def level_tokens_def operator_name_def above_def)

lemma parsed_binary:
  assumes "op \<in> fst ` set BINARY_OPERATORS"
    and "parsed_at v5 nested a (operator_level op) ts" "parsed_at v5 nested b (Suc (operator_level op)) us"
  shows "parsed_at v5 nested (BinaryExpression a op b l) (operator_level op) (ts @ [tok (operator_type op) (Str_Value op) l] @ us)"
  unfolding parsed_at_def
proof (intro allI impI)
  let ?p = "operator_level op" and ?t = "tok (operator_type op) (Str_Value op) l"
  note op = operator_simps [OF assms(1)]
  fix d rest
  assume rest: "rest \<noteq> []" "deep d ((ts @ [?t] @ us) @ rest)" "head_type rest \<notin> above ?p"
  have "head_type rest \<notin> above (Suc ?p)" "head_type rest \<notin> set (level_tokens (Suc ?p))"
    using rest(3) above_mono [of ?p "Suc ?p"] above_level [of ?p "Suc ?p"] op(1) by auto
  then have right: "level_parser v5 nested d (Suc ?p) (us @ rest) = Inr (b, rest)"
    using rest(1,2) by (intro parsed_at_exact [OF assms(3)]) (auto simp: deep_def)
  obtain k where k: "length (?t # us @ rest) \<le> k"
    "level_parser v5 nested d ?p (ts @ ?t # us @ rest) = level_loop v5 nested d ?p k a (?t # us @ rest)"
    using rest(2) op by (auto intro: parsed_atD [OF assms(2), of "?t # us @ rest" d])
  then obtain j where j: "k = Suc j" by (cases k) auto
  have "level_loop v5 nested d ?p k a (?t # us @ rest) = level_loop v5 nested d ?p j (BinaryExpression a op b l) rest"
    using op right by (simp add: level_loop_def j match_some bind_ok)
  then show "\<exists>k. length rest \<le> k \<and> level_parser v5 nested d ?p ((ts @ [?t] @ us) @ rest)
      = level_loop v5 nested d ?p k (BinaryExpression a op b l) rest"
    using k j by (intro exI [of _ j]) simp
qed

lemma parsed_unary:
  assumes "op \<in> {''!'', ''-''}" "parsed_at v5 nested e 8 ts"
  shows "parsed_at v5 nested (UnaryExpression op e l) 8 ([tok (if op = ''!'' then T_BANG else T_MINUS) (Str_Value op) l] @ ts)"
  unfolding parsed_at_def
proof (intro allI impI exI conjI)
  let ?t = "tok (if op = ''!'' then T_BANG else T_MINUS) (Str_Value op) l"
  fix d rest
  assume rest: "rest \<noteq> []" "deep d (([?t] @ ts) @ rest)" "head_type rest \<notin> above 8"
  obtain d' where d: "d = Suc (Suc d')" "deep d' (ts @ rest)"
    using deep_step [of d ?t "ts @ rest"] rest(2) by auto
  have "level_parser v5 nested (Suc d') 8 (ts @ rest) = Inr (e, rest)"
    using rest d(2) by (intro parsed_at_exact [OF assms(2)]) (auto simp: deep_def level_tokens_def)
  then show "level_parser v5 nested d 8 (([?t] @ ts) @ rest) = level_loop v5 nested d 8 (length rest) (UnaryExpression op e l) rest"
    using assms(1) by (auto simp: d level_parser_def level_loop_def p_unary_def match_some bind_ok pret_def simp del: parse_unary.simps)
      (simp_all add: parse_unary.simps(2) p_unary_def match_some bind_ok pret_def)
qed simp

lemma call_tokens_not_above [simp]: "T_LEFT_PAREN \<notin> above 9" "T_DOT \<notin> above 9" "T_EQUAL \<notin> above (Suc 0)" "T_OR \<notin> above (Suc 0)" "T_EQUAL \<notin> set (level_tokens (Suc 0))"
  by (auto simp: above_def level_tokens_def split: if_splits)

lemma parsed_member:
  assumes "parsed_at v5 nested e 9 ts" "word_type n = T_IDENTIFIER"
  shows "parsed_at v5 nested (MemberExpression e n l) 9 (ts @ [mark T_DOT, name_token n l])"
  unfolding parsed_at_def
proof (intro allI impI)
  let ?us = "[mark T_DOT, name_token n l]"
  fix d rest
  assume rest: "rest \<noteq> []" "deep d ((ts @ ?us) @ rest)"
  obtain k where k: "length (?us @ rest) \<le> k"
    "level_parser v5 nested d 9 (ts @ ?us @ rest) = level_loop v5 nested d 9 k e (?us @ rest)"
    using rest(2) by (auto intro: parsed_atD [OF assms(1), of "?us @ rest" d])
  then obtain j where j: "k = Suc j" by (cases k) auto
  have "level_loop v5 nested d 9 k e (?us @ rest) = level_loop v5 nested d 9 j (MemberExpression e n l) rest"
    using assms(2) by (simp add: level_loop_def j match_some match_none consume_bind name_token_def)
  then show "\<exists>k. length rest \<le> k \<and> level_parser v5 nested d 9 ((ts @ ?us) @ rest) = level_loop v5 nested d 9 k (MemberExpression e n l) rest"
    using k j by (intro exI [of _ j]) simp
qed

text \<open>Sequences, every item followed by a comma.\<close>

definition listed :: "('a \<Rightarrow> token list) \<Rightarrow> 'a list \<Rightarrow> token list" where
  "listed f xs = concat (map (\<lambda>x. f x @ [mark T_COMMA]) xs)"

lemma listed_simps [simp]: "listed f [] = []" "listed f (x # xs) = f x @ mark T_COMMA # listed f xs"
  by (simp_all add: listed_def)

lemma comma_loop_listed:
  assumes "tk_type c = close" "close \<noteq> T_COMMA"
    and "\<And>x us. x \<in> set xs \<Longrightarrow> deep d (f x @ mark T_COMMA # us) \<Longrightarrow> item (f x @ mark T_COMMA # us) = Inr (x, mark T_COMMA # us)"
    and "\<And>x. x \<in> set xs \<Longrightarrow> f x \<noteq> [] \<and> head_type (f x) \<noteq> close"
    and "deep d (listed f xs @ c # rest)" "xs \<noteq> []" "length xs \<le> k"
  shows "comma_loop k close item (listed f xs @ c # rest) = Inr (xs, c # rest)"
  using assms(3-)
proof (induction xs arbitrary: k)
  case (Cons x xs)
  obtain j where k: "k = Suc j" "length xs \<le> j"
    using Cons.prems(5) by (cases k) auto
  let ?us = "listed f xs @ c # rest"
  have item: "item (f x @ mark T_COMMA # ?us) = Inr (x, mark T_COMMA # ?us)"
    using Cons.prems(1,3) by simp
  show ?case
  proof (cases xs)
    case Nil
    then show ?thesis
      using item assms(1) by (simp add: k bind_ok match_some check_bind pret_def)
  next
    case (Cons y ys)
    have "comma_loop j close item ?us = Inr (xs, c # rest)"
      using Cons.prems Cons k(2) by (intro Cons.IH) (auto simp: deep_def)
    moreover have "head_type ?us \<noteq> close"
      using Cons.prems(2) [of y] Cons by simp
    moreover have "?us \<noteq> []" by simp
    ultimately show ?thesis
      using item by (simp add: k bind_ok match_some check_bind pret_def)
  qed
qed simp

lemma comma_items_listed:
  assumes "tk_type c = close" "close \<noteq> T_COMMA"
    and "\<And>x us. x \<in> set xs \<Longrightarrow> deep d (f x @ mark T_COMMA # us) \<Longrightarrow> item (f x @ mark T_COMMA # us) = Inr (x, mark T_COMMA # us)"
    and "\<And>x. x \<in> set xs \<Longrightarrow> f x \<noteq> [] \<and> head_type (f x) \<noteq> close"
    and "deep d (listed f xs @ c # rest)"
  shows "comma_items close item (listed f xs @ c # rest) = Inr (xs, c # rest)"
proof (cases xs)
  case Nil
  then show ?thesis
    using assms(1) by (simp add: comma_items_def check_bind pret_def)
next
  case (Cons x ys)
  have len: "length xs \<le> length (listed f xs @ c # rest)"
    by (induction xs) auto
  have "comma_loop (length (listed f xs @ c # rest)) close item (listed f xs @ c # rest) = Inr (xs, c # rest)"
    by (rule comma_loop_listed [OF assms(1-5)]) (use Cons len in auto)
  moreover have "head_type (listed f xs @ c # rest) \<noteq> close"
    using assms(4) [of x] Cons by simp
  ultimately show ?thesis
    by (simp add: comma_items_def check_bind)
qed

lemma brace_loop_listed:
  assumes "tk_type c = T_RIGHT_BRACE"
    and "\<And>x us. x \<in> set xs \<Longrightarrow> deep d (f x @ mark T_COMMA # us) \<Longrightarrow> item (f x @ mark T_COMMA # us) = Inr ((x, True), us)"
    and "\<And>x. x \<in> set xs \<Longrightarrow> f x \<noteq> [] \<and> head_type (f x) \<notin> {T_RIGHT_BRACE, T_EOF}"
    and "deep d (listed f xs @ c # rest)" "length xs < k"
  shows "brace_loop k item (listed f xs @ c # rest) = Inr (xs, c # rest)"
  using assms(2-)
proof (induction xs arbitrary: k)
  case Nil
  then show ?case
    using assms(1) by (cases k) (simp_all add: check_bind pret_def p_is_at_end_def)
next
  case (Cons x xs)
  obtain j where k: "k = Suc j" "length xs < j"
    using Cons.prems(4) by (cases k) auto
  let ?us = "listed f xs @ c # rest"
  have "item (f x @ mark T_COMMA # ?us) = Inr ((x, True), ?us)"
    using Cons.prems(1,3) by simp
  moreover have "brace_loop j item ?us = Inr (xs, c # rest)"
    using Cons.prems k(2) by (intro Cons.IH) (auto simp: deep_def)
  moreover have "f x \<noteq> []" "head_type (f x) \<noteq> T_RIGHT_BRACE" "head_type (f x) \<noteq> T_EOF"
    using Cons.prems(2) [of x] by auto
  ultimately show ?case
    by (simp add: k check_bind p_is_at_end_def bind_ok pret_def)
qed

lemma brace_items_listed:
  assumes "tk_type c = T_RIGHT_BRACE"
    and "\<And>x us. x \<in> set xs \<Longrightarrow> deep d (f x @ mark T_COMMA # us) \<Longrightarrow> item (f x @ mark T_COMMA # us) = Inr ((x, True), us)"
    and "\<And>x. x \<in> set xs \<Longrightarrow> f x \<noteq> [] \<and> head_type (f x) \<notin> {T_RIGHT_BRACE, T_EOF}"
    and "deep d (listed f xs @ c # rest)"
  shows "brace_items item (listed f xs @ c # rest) = Inr (xs, c # rest)"
proof -
  have "length xs < length (listed f xs @ c # rest)"
    by (induction xs) auto
  then show ?thesis
    unfolding brace_items_def by (intro brace_loop_listed [OF assms]) auto
qed

lemma starts_not [simp]:
  "T_RIGHT_PAREN \<notin> starts" "T_RIGHT_BRACKET \<notin> starts" "T_RIGHT_BRACE \<notin> starts" "T_EOF \<notin> starts" "T_COMMA \<notin> starts"
  by (simp_all add: starts_def)

lemma spell_not_closing:
  assumes "spellable e" "ty \<in> {T_RIGHT_PAREN, T_RIGHT_BRACKET, T_RIGHT_BRACE, T_EOF}"
  shows "spell e \<noteq> [] \<and> head_type (spell e) \<noteq> ty"
  using spell_head [OF assms(1)] assms(2) by (auto split: if_splits)

lemma arguments_listed:
  assumes "\<And>e. e \<in> set es \<Longrightarrow> spellable e \<and> parsed_at v5 nested e 0 (spell e)"
    and "tk_type c = close" "close \<in> {T_RIGHT_PAREN, T_RIGHT_BRACKET}" "deep d (listed spell es @ c # rest)"
  shows "comma_items close (parse_expr v5 nested (Suc d)) (listed spell es @ c # rest) = Inr (es, c # rest)"
  using assms spell_not_closing
  by (intro comma_items_listed [where d = d and f = spell] inner_expression) auto

lemma parsed_primary:
  assumes "\<And>d rest. rest \<noteq> [] \<Longrightarrow> deep (Suc (Suc d)) (ts @ rest) \<Longrightarrow> head_type rest \<noteq> T_LEFT_BRACE
    \<Longrightarrow> p_primary nested (parse_expr v5 nested (Suc d)) (parse_block v5 nested (Suc d)) (ts @ rest) = Inr (e, rest)"
    and "ts \<noteq> []"
  shows "parsed_at v5 nested e 10 ts"
  unfolding parsed_at_def
proof (intro allI impI exI conjI)
  fix d rest
  assume rest: "rest \<noteq> []" "deep d (ts @ rest)" "head_type rest \<notin> above 10"
  obtain t us where "ts = t # us" using assms(2) by (cases ts) auto
  then obtain d' where d: "d = Suc (Suc d')"
    using deep_step [of d t "us @ rest"] rest(2) by auto
  show "level_parser v5 nested d 10 (ts @ rest) = level_loop v5 nested d 10 (length rest) e rest"
    using assms(1) [of rest d'] rest by (simp add: d level_parser_def level_loop_def above_def pret_def del: parse_expr.simps)
qed simp

lemma parsed_identifier:
  "word_type n \<in> {T_IDENTIFIER, T_TYPE} \<Longrightarrow> parsed_at v5 nested (Identifier n l) 10 [name_token n l]"
  by (intro parsed_primary) (auto simp: p_primary_def cursor_simps name_token_def)

lemma parsed_literal: "parsed_at v5 nested (Literal v l) 10 [literal_token v l]"
  by (intro parsed_primary; cases v) (simp_all add: p_primary_def cursor_simps literal_of_def)

lemma parsed_list:
  assumes "\<And>e. e \<in> set es \<Longrightarrow> spellable e \<and> parsed_at v5 nested e 0 (spell e)"
  shows "parsed_at v5 nested (ListLiteral es l) 10 ([tok T_LEFT_BRACKET No_Value l] @ listed spell es @ [mark T_RIGHT_BRACKET])"
proof (rule parsed_primary)
  fix d rest
  assume "deep (Suc (Suc d)) (([tok T_LEFT_BRACKET No_Value l] @ listed spell es @ [mark T_RIGHT_BRACKET]) @ rest)"
  then have "deep d (listed spell es @ mark T_RIGHT_BRACKET # rest)" by (simp add: deep_def)
  from arguments_listed [OF assms _ _ this]
  show "p_primary nested (parse_expr v5 nested (Suc d)) (parse_block v5 nested (Suc d))
      (([tok T_LEFT_BRACKET No_Value l] @ listed spell es @ [mark T_RIGHT_BRACKET]) @ rest) = Inr (ListLiteral es l, rest)"
    by (simp add: p_primary_def cursor_simps p_list_literal_def bind_ok del: parse_expr.simps)
qed simp

lemma parsed_map:
  assumes "\<And>k e. (k, e) \<in> set kvs \<Longrightarrow> spellable k \<and> parsed_at v5 nested k 0 (spell k) \<and> parsed_at v5 nested e 0 (spell e)"
  shows "parsed_at v5 nested (MapLiteral kvs l) 10
    ([tok T_LEFT_BRACE No_Value l] @ listed (\<lambda>(k, e). spell k @ [mark T_COLON] @ spell e) kvs @ [mark T_RIGHT_BRACE])"
    (is "parsed_at _ _ _ _ ([?t] @ listed ?f kvs @ _)")
proof (rule parsed_primary)
  fix d rest
  assume "deep (Suc (Suc d)) (([?t] @ listed ?f kvs @ [mark T_RIGHT_BRACE]) @ rest)"
  then have "deep d (listed ?f kvs @ mark T_RIGHT_BRACE # rest)" by (simp add: deep_def)
  moreover have "p_map_entry (parse_expr v5 nested (Suc d)) (?f x @ mark T_COMMA # us) = Inr (x, mark T_COMMA # us)"
    if "x \<in> set kvs" "deep d (?f x @ mark T_COMMA # us)" for x us
  proof -
    obtain k e where x: "x = (k, e)" by force
    have "deep d (spell k @ mark T_COLON # spell e @ mark T_COMMA # us)" "deep d (spell e @ mark T_COMMA # us)"
      using that(2) by (simp_all add: x deep_def)
    then show ?thesis
      using assms [of k e] that(1) inner_expression [of v5 nested k "spell k" d "mark T_COLON"]
        inner_expression [of v5 nested e "spell e" d "mark T_COMMA"]
      by (simp add: x p_map_entry_def bind_ok consume_bind pret_def del: parse_expr.simps)
  qed
  moreover have "?f x \<noteq> [] \<and> head_type (?f x) \<noteq> T_RIGHT_BRACE" if "x \<in> set kvs" for x
    using that assms [of "fst x" "snd x"] spell_not_closing [of "fst x" T_RIGHT_BRACE] by (auto simp: case_prod_beta)
  ultimately have "comma_items T_RIGHT_BRACE (p_map_entry (parse_expr v5 nested (Suc d))) (listed ?f kvs @ mark T_RIGHT_BRACE # rest)
      = Inr (kvs, mark T_RIGHT_BRACE # rest)"
    by (intro comma_items_listed [where d = d]) auto
  then show "p_primary nested (parse_expr v5 nested (Suc d)) (parse_block v5 nested (Suc d))
      (([?t] @ listed ?f kvs @ [mark T_RIGHT_BRACE]) @ rest) = Inr (MapLiteral kvs l, rest)"
    by (simp add: p_primary_def cursor_simps p_map_literal_def bind_ok del: parse_expr.simps)
qed simp

lemma parsed_struct:
  assumes "word_type n = T_TYPE"
    and "\<And>f e. (f, e) \<in> set fs \<Longrightarrow> word_type f = T_IDENTIFIER \<and> parsed_at v5 nested e 0 (spell e)"
  shows "parsed_at v5 nested (StructLiteral n fs l) 10
    ([name_token n l, mark T_LEFT_BRACE] @ listed (\<lambda>(f, e). [name_token f somewhere, mark T_COLON] @ spell e) fs @ [mark T_RIGHT_BRACE])"
    (is "parsed_at _ _ _ _ ([?t, ?b] @ listed ?f fs @ _)")
proof (rule parsed_primary)
  fix d rest
  assume "deep (Suc (Suc d)) (([?t, ?b] @ listed ?f fs @ [mark T_RIGHT_BRACE]) @ rest)"
  then have "deep d (listed ?f fs @ mark T_RIGHT_BRACE # rest)" by (simp add: deep_def)
  moreover have "p_struct_entry (parse_expr v5 nested (Suc d)) (?f x @ mark T_COMMA # us) = Inr ((x, True), us)"
    if "x \<in> set fs" "deep d (?f x @ mark T_COMMA # us)" for x us
  proof -
    obtain f e where x: "x = (f, e)" by force
    have "deep d (spell e @ mark T_COMMA # us)"
      using that(2) by (simp add: x deep_def)
    then show ?thesis
      using assms(2) [of f e] that(1) inner_expression [of v5 nested e "spell e" d "mark T_COMMA"]
      by (simp add: x p_struct_entry_def bind_ok cursor_simps name_token_def del: parse_expr.simps)
  qed
  moreover have "?f x \<noteq> [] \<and> head_type (?f x) \<notin> {T_RIGHT_BRACE, T_EOF}" if "x \<in> set fs" for x
    using that assms(2) [of "fst x" "snd x"] by (auto simp: case_prod_beta name_token_def)
  ultimately have "brace_items (p_struct_entry (parse_expr v5 nested (Suc d))) (listed ?f fs @ mark T_RIGHT_BRACE # rest)
      = Inr (fs, mark T_RIGHT_BRACE # rest)"
    by (intro brace_items_listed [where d = d]) auto
  then show "p_primary nested (parse_expr v5 nested (Suc d)) (parse_block v5 nested (Suc d))
      (([?t, ?b] @ listed ?f fs @ [mark T_RIGHT_BRACE]) @ rest) = Inr (StructLiteral n fs l, rest)"
    using assms(1) by (simp add: p_primary_def cursor_simps p_struct_literal_def bind_ok name_token_def del: parse_expr.simps)
qed simp

lemma parsed_call:
  assumes "parsed_at v5 nested e 9 ts" "ts \<noteq> []" "\<And>e. e \<in> set es \<Longrightarrow> spellable e \<and> parsed_at v5 nested e 0 (spell e)"
  shows "parsed_at v5 nested (CallExpression e es l) 9 (ts @ [tok T_LEFT_PAREN No_Value l] @ listed spell es @ [mark T_RIGHT_PAREN])"
  unfolding parsed_at_def
proof (intro allI impI)
  let ?t = "tok T_LEFT_PAREN No_Value l"
  let ?us = "?t # listed spell es @ [mark T_RIGHT_PAREN]"
  fix d rest
  assume rest: "rest \<noteq> []" "deep d ((ts @ [?t] @ listed spell es @ [mark T_RIGHT_PAREN]) @ rest)"
  obtain t ts' where "ts = t # ts'" using assms(2) by (cases ts) auto
  then obtain d' where d: "d = Suc (Suc d')" "deep d' (listed spell es @ mark T_RIGHT_PAREN # rest)"
    using deep_step [of d t "ts' @ ?us @ rest"] rest(2) by (auto simp: deep_def)
  obtain k where k: "length (?us @ rest) \<le> k"
    "level_parser v5 nested d 9 (ts @ ?us @ rest) = level_loop v5 nested d 9 k e (?us @ rest)"
    using rest(2) by (auto intro: parsed_atD [OF assms(1), of "?us @ rest" d])
  then obtain j where j: "k = Suc j" by (cases k) auto
  have "level_loop v5 nested d 9 k e (?us @ rest) = level_loop v5 nested d 9 j (CallExpression e es l) rest"
    using arguments_listed [OF assms(3) _ _ d(2)]
    by (simp add: level_loop_def j d(1) match_some p_finish_call_def bind_ok consume_bind pret_def pbind_assoc pbind_pret del: parse_expr.simps)
  then show "\<exists>k. length rest \<le> k \<and> level_parser v5 nested d 9 ((ts @ [?t] @ listed spell es @ [mark T_RIGHT_PAREN]) @ rest)
      = level_loop v5 nested d 9 k (CallExpression e es l) rest"
    using k j by (intro exI [of _ j]) simp
qed

lemma parsed_assignment:
  assumes "is_target t" "parsed_at v5 nested t 1 ts" "ts \<noteq> []" "parsed_at v5 nested e 0 us"
  shows "parsed_at v5 nested (AssignmentExpression t e l) 0 (ts @ [tok T_EQUAL No_Value l] @ us)"
  unfolding parsed_at_def
proof (intro allI impI exI conjI)
  let ?t = "tok T_EQUAL No_Value l"
  fix d rest
  assume rest: "rest \<noteq> []" "deep d ((ts @ [?t] @ us) @ rest)" "head_type rest \<notin> above 0"
  obtain a ts' where "ts = a # ts'" using assms(3) by (cases ts) auto
  then obtain d' where d: "d = Suc d'" "deep d' (us @ rest)"
    using deep_step [of d a "ts' @ ?t # us @ rest"] rest(2) by (auto simp: deep_def)
  have target: "level_parser v5 nested d 1 (ts @ ?t # us @ rest) = Inr (t, ?t # us @ rest)"
    using rest(2) by (intro parsed_at_exact [OF assms(2)]) auto
  have "parse_expr v5 nested d (us @ rest) = Inr (e, rest)"
    using parsed_at_exact [OF assms(4) rest(1) d(2) rest(3)] rest(3)
    by (simp add: d(1) level_zero above_def level_tokens_def del: parse_expr.simps)
  then show "level_parser v5 nested d 0 ((ts @ [?t] @ us) @ rest) = level_loop v5 nested d 0 (length rest) (AssignmentExpression t e l) rest"
    using target assms(1) rest(1,3)
    by (simp add: level_parser_def level_loop_def p_assignment_def bind_ok match_some match_none pret_def above_def del: parse_expr.simps)
qed simp

text \<open>The operands of \<open>or\<close>.\<close>

lemma parsed_or:
  assumes "parsed_at v5 nested a 1 ts" "parsed_at v5 nested e 2 us" "us \<noteq> []"
    and "\<And>k d rest. or_loop v5 (Suc k) (p_logical_or (parse_unary v5 nested d)) (parse_block v5 nested d) a (os @ us @ rest)
      = pbind (p_logical_or (parse_unary v5 nested d)) (\<lambda>e. or_loop v5 k (p_logical_or (parse_unary v5 nested d)) (parse_block v5 nested d) (f e)) (us @ rest)"
    and "os = tok T_OR No_Value l # os'"
  shows "parsed_at v5 nested (f e) 1 (ts @ os @ us)"
  unfolding parsed_at_def
proof (intro allI impI)
  fix d rest
  assume rest: "rest \<noteq> []" "deep d ((ts @ os @ us) @ rest)" "head_type rest \<notin> above 1"
  have "head_type rest \<notin> above 2" "head_type rest \<notin> set (level_tokens 2)"
    using rest(3) above_mono [of 1 2] above_level [of 1 2] by auto
  then have right: "p_logical_or (parse_unary v5 nested d) (us @ rest) = Inr (e, rest)"
    using parsed_at_exact [OF assms(2) rest(1), of d] rest(2) by (simp add: level_parser_def deep_def)
  obtain k where k: "length (os @ us @ rest) \<le> k"
    "level_parser v5 nested d 1 (ts @ os @ us @ rest) = level_loop v5 nested d 1 k a (os @ us @ rest)"
    using rest(2) by (auto simp: assms(5) intro: parsed_atD [OF assms(1), of "os @ us @ rest" d])
  then obtain j where j: "k = Suc j" by (cases k) (auto simp: assms(5))
  have "level_loop v5 nested d 1 k a (os @ us @ rest) = level_loop v5 nested d 1 j (f e) rest"
    using right by (simp add: level_loop_def j assms(4) bind_ok del: or_loop.simps)
  then show "\<exists>k. length rest \<le> k \<and> level_parser v5 nested d 1 ((ts @ os @ us) @ rest) = level_loop v5 nested d 1 k (f e) rest"
    using k j by (intro exI [of _ j]) (simp add: assms(5))
qed

lemma parsed_or_else:
  assumes "parsed_at v5 nested a 1 ts" "parsed_at v5 nested e 2 us" "us \<noteq> []" "head_type us \<in> starts \<union> {T_BANG, T_MINUS}" "head_type us \<noteq> T_LEFT_BRACE"
  shows "parsed_at v5 nested (OrElseExpression a e l) 1 (ts @ [tok T_OR No_Value l] @ us)"
proof (rule parsed_or [where f = "\<lambda>e. OrElseExpression a e l", OF assms(1-3)])
  fix k d rest
  have "head_type us \<noteq> T_RETURN"
    using assms(4) by (auto simp: starts_def)
  then show "or_loop v5 (Suc k) (p_logical_or (parse_unary v5 nested d)) (parse_block v5 nested d) a ([tok T_OR No_Value l] @ us @ rest)
    = pbind (p_logical_or (parse_unary v5 nested d)) (\<lambda>e. or_loop v5 k (p_logical_or (parse_unary v5 nested d)) (parse_block v5 nested d)
        (OrElseExpression a e l)) (us @ rest)"
    using assms(3,5) by (simp add: match_some match_none check_bind)
qed simp

lemma parsed_or_return:
  assumes "parsed_at v5 nested a 1 ts" "parsed_at v5 nested e 2 us" "us \<noteq> []" "head_type us \<in> starts \<union> {T_BANG, T_MINUS}"
  shows "parsed_at v5 nested (OrReturnExpression a (Some e) l) 1
    (ts @ [tok T_OR No_Value l, tok T_RETURN No_Value \<lparr>loc_line = tk_line (hd us), loc_column = 0\<rparr>] @ us)"
proof (rule parsed_or [where f = "\<lambda>e. OrReturnExpression a (Some e) l", OF assms(1-3)])
  fix k d rest
  obtain u us' where us: "us = u # us'" using assms(3) by (cases us) auto
  have "tk_type u \<notin> set OR_RETURN_STOP"
    using assms(4) by (auto simp: us starts_def OR_RETURN_STOP_def)
  then show "or_loop v5 (Suc k) (p_logical_or (parse_unary v5 nested d)) (parse_block v5 nested d) a
      ([tok T_OR No_Value l, tok T_RETURN No_Value \<lparr>loc_line = tk_line (hd us), loc_column = 0\<rparr>] @ us @ rest)
    = pbind (p_logical_or (parse_unary v5 nested d)) (\<lambda>e. or_loop v5 k (p_logical_or (parse_unary v5 nested d)) (parse_block v5 nested d)
        (OrReturnExpression a (Some e) l)) (us @ rest)"
    by (simp add: us match_some peek_bind pbind_assoc pbind_pret)
qed simp

section \<open>The round trip\<close>

lemma level_of_le: "spellable e \<Longrightarrow> level_of e \<le> 10"
  using operator_simps(1) by (cases e) fastforce+

lemma tokens_at_zero [simp]: "tokens_at 0 e = spell e"
  by (simp add: tokens_at_def parens_def)

lemma parsed_parens:
  assumes "spellable e" "parsed_at v5 nested e (level_of e) (spell e)" "p \<le> 10"
  shows "parsed_at v5 nested e p (parens (level_of e < p \<or> c) (spell e))"
proof (cases "level_of e < p")
  case False
  have "parsed_at v5 nested e 0 (spell e)"
    using parsed_at_all [OF assms(1,2) level_of_le [OF assms(1)], of 0] by simp
  from parsed_at_lower [OF parsed_at_parens [OF this], of p]
  have "parsed_at v5 nested e p (mark T_LEFT_PAREN # spell e @ [mark T_RIGHT_PAREN])"
    using assms(3) by simp
  then show ?thesis
    using parsed_at_all [OF assms(1,2) level_of_le [OF assms(1)] assms(3)] False by (simp add: tokens_at_def parens_def)
qed (use parsed_at_all [OF assms(1,2) level_of_le [OF assms(1)] assms(3)] in \<open>simp add: tokens_at_def\<close>)

lemmas parsed_sub = parsed_parens [where c = False, simplified]

lemma parsed_sub_zero: "spellable e \<Longrightarrow> parsed_at v5 nested e (level_of e) (spell e) \<Longrightarrow> parsed_at v5 nested e 0 (spell e)"
  using parsed_sub [of e v5 nested 0] by (simp add: parens_def)

lemma parens_head:
  assumes "spellable e"
  shows "parens c (spell e) \<noteq> []" "head_type (parens c (spell e)) \<in> starts \<union> {T_BANG, T_MINUS}"
    "head_type (spell e) = T_LEFT_BRACE \<Longrightarrow> c \<Longrightarrow> head_type (parens c (spell e)) \<noteq> T_LEFT_BRACE"
  using spell_head [OF assms] by (auto simp: head_type_parens starts_def split: if_splits)

lemma hd_head_type: "ts \<noteq> [] \<Longrightarrow> tk_type (hd ts) = head_type ts"
  by (cases ts) auto

lemma spell_parsed: "spellable e \<Longrightarrow> parsed_at v5 nested e (level_of e) (spell e)"
proof (induction e rule: spell.induct)
  case (1 n l)
  then show ?case using parsed_identifier by simp
next
  case (2 v l)
  then show ?case using parsed_literal by simp
next
  case (3 n fs l)
  have "word_type f = T_IDENTIFIER \<and> parsed_at v5 nested e 0 (spell e)" if "(f, e) \<in> set fs" for f e
    using 3 that parsed_sub_zero by (fastforce simp: list_all_iff)
  then show ?case
    using 3(2) parsed_struct [of n fs v5 nested l] by (simp add: listed_def split_def)
next
  case (4 es l)
  have "spellable e \<and> parsed_at v5 nested e 0 (spell e)" if "e \<in> set es" for e
    using 4 that parsed_sub_zero by (auto simp: list_all_iff)
  then show ?case
    using parsed_list [of es v5 nested l] by (auto simp: listed_def)
next
  case (5 kvs l)
  have "spellable k \<and> parsed_at v5 nested k 0 (spell k) \<and> parsed_at v5 nested e 0 (spell e)" if "(k, e) \<in> set kvs" for k e
    using 5 that parsed_sub_zero by (fastforce simp: list_all_iff)
  then show ?case
    using parsed_map [of kvs v5 nested l] by (simp add: listed_def split_def)
next
  case (6 e n l)
  then show ?case using parsed_member [OF parsed_sub [of e v5 nested 9]] by simp
next
  case (7 e es l)
  have "spellable e \<and> parsed_at v5 nested e 0 (spell e)" if "e \<in> set es" for e
    using 7 that parsed_sub_zero by (auto simp: list_all_iff)
  then show ?case
    using 7 parsed_call [OF parsed_sub [of e v5 nested 9], of es l] parens_head [of e] by (simp add: listed_def)
next
  case (8 t e l)
  then show ?case
    using parsed_assignment [OF _ parsed_sub [of t v5 nested 1] _ parsed_sub_zero [of e v5 nested], of l] parens_head [of t] by simp
next
  case (9 a op b l)
  then have op: "op \<in> fst ` set BINARY_OPERATORS" "operator_level op < 8"
    using operator_simps(1) [of op] by auto
  then show ?case
    using 9 parsed_binary [OF op(1) parsed_sub [of a v5 nested] parsed_sub [of b v5 nested "Suc (operator_level op)"], of l]
    by (simp add: less_Suc_eq_le)
next
  case (10 op e l)
  then show ?case using parsed_unary [OF _ parsed_sub [of e v5 nested 8], of op l] by simp
next
  case (11 a e l)
  then show ?case
    using parsed_or_return [OF parsed_sub [of a v5 nested 1] parsed_sub [of e v5 nested 2], of l] parens_head [of e] by simp
next
  case (13 a e l)
  let ?c = "head_type (spell e) = T_LEFT_BRACE"
  have "parsed_at v5 nested e 2 (parens (level_of e < 2 \<or> ?c) (spell e))"
    using 13 by (intro parsed_parens) auto
  moreover have "head_type (parens (level_of e < 2 \<or> ?c) (spell e)) \<noteq> T_LEFT_BRACE"
    using 13 spell_head [of e] by (auto simp: head_type_parens)
  ultimately show ?case
    using 13 parsed_or_else [OF parsed_sub [of a v5 nested 1], of e "parens (level_of e < 2 \<or> ?c) (spell e)" l] parens_head [of e]
      spell_head [of e] by (simp add: hd_head_type)
qed simp_all

text \<open>
  C29. Precedence and associativity: every expression tree (without blocks and interpolated strings)
  is spelled with parentheses only where the precedence table of the parser asks for them, and
  \<open>_expression\<close> reads the tokens back to exactly that tree, source positions included, and
  stops at the token that follows. So the binary operators associate to the left in six levels,
  unary operators, calls and members bind tighter, \<open>or\<close> and assignment looser.
\<close>

theorem expression_round_trip:
  assumes "spellable e" "rest \<noteq> []"
    and "head_type rest \<in> {T_EOF, T_SEMICOLON, T_COMMA, T_COLON, T_RIGHT_PAREN, T_RIGHT_BRACKET, T_RIGHT_BRACE}"
  shows "parse_expr v5 nested (depth_for (spell e @ rest)) (spell e @ rest) = Inr (e, rest)"
proof -
  have "parsed_at v5 nested e 0 (spell e)"
    using assms(1) by (intro parsed_sub_zero spell_parsed)
  moreover have "deep (depth_for (spell e @ rest) - 1) (spell e @ rest)"
    by (simp add: deep_def depth_for_def)
  moreover have "head_type rest \<notin> above 0 \<union> set (level_tokens 0)"
    using assms(3) by (auto simp: above_def level_tokens_def split: if_splits)
  ultimately have "level_parser v5 nested (depth_for (spell e @ rest) - 1) 0 (spell e @ rest) = Inr (e, rest)"
    using assms(2) by (intro parsed_at_exact) auto
  then show ?thesis
    by (simp add: level_zero depth_for_def del: parse_expr.simps)
qed

theorem expression_round_trip_witness:
  "let here = \<lparr>loc_line = 3, loc_column = 7\<rparr>;
       e = BinaryExpression (BinaryExpression (Identifier ''a'' here) ''-'' (UnaryExpression ''-'' (Literal (Int_Lit 2) here) here) here) ''-''
             (BinaryExpression (CallExpression (Identifier ''f'' here) [Identifier ''b'' here] here) ''*'' (Identifier ''Limit'' here) here) here
   in length (spell e) = 12 \<and> parse_expr True (parse_expression False) (depth_for (spell e @ [mark T_EOF])) (spell e @ [mark T_EOF]) = Inr (e, [mark T_EOF])"
proof -
  let ?here = "\<lparr>loc_line = 3, loc_column = 7\<rparr>"
  let ?e = "BinaryExpression (BinaryExpression (Identifier ''a'' ?here) ''-'' (UnaryExpression ''-'' (Literal (Int_Lit 2) ?here) ?here) ?here) ''-''
             (BinaryExpression (CallExpression (Identifier ''f'' ?here) [Identifier ''b'' ?here] ?here) ''*'' (Identifier ''Limit'' ?here) ?here) ?here"
  have "spellable ?e" "length (spell ?e) = 12"
    by code_simp+
  then show ?thesis
    using expression_round_trip [of ?e "[mark T_EOF]"] by (simp add: Let_def del: parse_expr.simps spell.simps)
qed

end
