(* ===== verification/Type_System.thy ===== *)
theory Type_System
  imports Syntax_Tree
begin

text \<open>
  Structural types (\<open>koschei/type_system.py\<close>): the text of a type annotation is parsed into a
  tree, unions are flattened, sorted and freed of duplicates, type variables are bound and substituted.
\<close>

section \<open>Type nodes\<close>

datatype type_node =
    UnknownType
  | NamedType string
  | TypeVariable string
  | GenericType string "type_node list"
  | UnionType "type_node list"

definition VOID :: type_node where "VOID = NamedType ''Void''"
definition STRING :: type_node where "STRING = NamedType ''String''"

fun render_type :: "type_node \<Rightarrow> string" where
  "render_type UnknownType = ''_''"
| "render_type (NamedType n) = n"
| "render_type (TypeVariable n) = n"
| "render_type (GenericType n as) = n @ ''<'' @ join '', '' (map render_type as) @ ''>''"
| "render_type (UnionType os) = join '' or '' (map render_type os)"

fun alternatives :: "type_node \<Rightarrow> type_node list" where
  "alternatives (UnionType os) = os"
| "alternatives t = [t]"

text \<open>
  \<open>union_type\<close>: the known alternatives, one for each rendering (the first), in the order of the
  renderings.
\<close>

fun first_by :: "('a \<Rightarrow> 'b) \<Rightarrow> 'a list \<Rightarrow> 'a list" where
  "first_by f [] = []"
| "first_by f (x # xs) = x # first_by f (filter (\<lambda>y. f y \<noteq> f x) xs)"

definition flattened :: "type_node list \<Rightarrow> type_node list" where
  "flattened types = concat (map (\<lambda>t. if t = UnknownType then [] else alternatives t) types)"

definition union_type :: "type_node list \<Rightarrow> type_node" where
  "union_type types =
     (case sort_key render_type (first_by render_type (flattened types)) of
        [] \<Rightarrow> UnknownType
      | [t] \<Rightarrow> t
      | ordered \<Rightarrow> UnionType ordered)"

section \<open>Parsing type expressions\<close>

text \<open>
  \<open>split_top_level(text, separator)\<close>: the loop over the characters, with the bracket depth, the
  characters since \<open>start\<close> and the parts so far. The separators of the callers are not empty.
\<close>

definition push_part :: "string \<Rightarrow> string list \<Rightarrow> string list" where
  "push_part part parts = (if strip part = [] then parts else parts @ [strip part])"

fun split_loop :: "string \<Rightarrow> string \<Rightarrow> nat \<Rightarrow> string \<Rightarrow> string list \<Rightarrow> string \<Rightarrow> string list result" where
  "split_loop text sep depth cur parts [] =
     (if depth \<noteq> 0 then raisef ValueError ''Unbalanced type expression: {!r}'' [text] else Inr (push_part cur parts))"
| "split_loop text sep depth cur parts (c # rest) =
     (if c = CHR ''<'' then split_loop text sep (depth + 1) (cur @ [c]) parts rest
      else if c = CHR ''>'' then
        if depth = 0 then raisef ValueError ''Unbalanced type expression: {!r}'' [text]
        else split_loop text sep (depth - 1) (cur @ [c]) parts rest
      else if depth = 0 \<and> take (length sep) (c # rest) = sep then
        split_loop text sep depth [] (push_part cur parts) (drop (length sep - 1) rest)
      else split_loop text sep depth (cur @ [c]) parts rest)"

definition split_top_level :: "string \<Rightarrow> string \<Rightarrow> string list result" where
  "split_top_level text sep = split_loop text sep 0 [] [] text"

text \<open>The parts are shorter than the text, strictly when there are several.\<close>

lemma length_strip_le: "length (strip s) \<le> length s"
  by (rule length_strip)

lemma length_push_part:
  "sum_list (map length (push_part cur parts)) \<le> length cur + sum_list (map length parts)"
  using length_strip [of cur] by (auto simp: push_part_def)

lemma split_loop_length:
  assumes "split_loop text sep depth cur parts rest = Inr ps"
  shows "sum_list (map length ps) \<le> sum_list (map length parts) + length cur + length rest"
  using assms
proof (induction "text" sep depth cur parts rest rule: split_loop.induct)
  case (1 tx sep depth cur parts)
  then show ?case
    using length_push_part [of cur parts] by (auto split: if_splits)
next
  case (2 tx sep depth cur parts c rest)
  then show ?case
    using length_push_part [of cur parts] by (fastforce split: if_splits)
qed

lemma push_part_nonempty: "[] \<notin> set parts \<Longrightarrow> [] \<notin> set (push_part cur parts)"
  by (auto simp: push_part_def)

lemma split_loop_nonempty:
  "split_loop text sep depth cur parts rest = Inr ps \<Longrightarrow> [] \<notin> set parts \<Longrightarrow> [] \<notin> set ps"
  by (induction "text" sep depth cur parts rest rule: split_loop.induct) (auto simp: push_part_nonempty split: if_splits)

lemma split_part_length:
  assumes "split_top_level text sep = Inr ps" "p \<in> set ps"
  shows "length p \<le> length text" "1 < length ps \<Longrightarrow> length p < length text"
proof -
  have total: "sum_list (map length ps) \<le> length text"
    using split_loop_length [OF assms(1) [unfolded split_top_level_def]] by simp
  then show "length p \<le> length text"
    using assms(2) member_le_sum_list [of "length p" "map length ps"] by simp
  assume many: "1 < length ps"
  have pos: "[] \<notin> set ps"
    using split_loop_nonempty [OF assms(1) [unfolded split_top_level_def]] by simp
  obtain as bs where ps: "ps = as @ p # bs"
    using assms(2) by (meson split_list)
  with many have "as @ bs \<noteq> []" by (cases as) auto
  then obtain q where "q \<in> set (as @ bs)" using hd_in_set by blast
  then have "length q \<le> sum_list (map length (as @ bs))" "q \<noteq> []"
    using member_le_sum_list [of "length q" "map length (as @ bs)"] pos ps by auto
  then show "length p < length text"
    using total ps by (cases q) auto
qed

function parse_type_text :: "string \<Rightarrow> type_node result" where
  "parse_type_text source = (let text = strip source in
     if text = [] \<or> text = ''_'' then Inr UnknownType
     else rbind (split_top_level text '' or '') (\<lambda>union_parts.
       if 1 < length union_parts then rbind (rmap parse_type_text union_parts) (\<lambda>ts. Inr (union_type ts))
       else if CHR ''<'' \<notin> set text then Inr (NamedType text)
       else if last text \<noteq> CHR ''>'' then raisef ValueError ''Invalid generic type expression: {!r}'' [text]
       else
         let name = strip (takeWhile (\<lambda>c. c \<noteq> CHR ''<'') text);
             inner = butlast (tl (dropWhile (\<lambda>c. c \<noteq> CHR ''<'') text))
         in if name = [] then raisef ValueError ''Generic type has no name: {!r}'' [text]
            else rbind (split_top_level inner '','') (\<lambda>parts.
              rbind (rmap parse_type_text parts) (\<lambda>arguments.
                if arguments = [] then raisef ValueError ''Generic type has no arguments: {!r}'' [text]
                else Inr (GenericType name arguments)))))"
  by pat_completeness auto
termination
proof (relation "measure length")
  fix source tx union_parts p
  assume tx: "tx = strip source" and "split_top_level tx '' or '' = Inr union_parts" "1 < length union_parts" "p \<in> set union_parts"
  then have "length p < length tx"
    using split_part_length by metis
  then show "(p, source) \<in> measure length"
    using tx length_strip [of source] by simp
next
  fix source tx union_parts name inner parts p
  assume tx: "tx = strip source" "\<not> (tx = [] \<or> tx = ''_'')" "\<not> CHR ''<'' \<notin> set tx"
    and inner: "inner = butlast (tl (dropWhile (\<lambda>c. c \<noteq> CHR ''<'') tx))"
    and "split_top_level inner '','' = Inr parts" "p \<in> set parts"
  then have "length p \<le> length inner"
    using split_part_length(1) by metis
  also have "length inner < length tx"
    using tx(2) length_dropWhile_le [of "\<lambda>c. c \<noteq> CHR ''<''" tx] by (cases tx) (auto simp: inner)
  finally show "(p, source) \<in> measure length"
    using tx(1) length_strip [of source] by simp
qed auto

declare parse_type_text.simps [simp del]

definition parse_type_ref :: "type_ref option \<Rightarrow> type_node result" where
  "parse_type_ref r = (case r of
     None \<Rightarrow> Inr VOID
   | Some r \<Rightarrow> rbind (rmap parse_type_text (tr_names r)) (\<lambda>ts. Inr (union_type ts)))"

section \<open>Queries and substitution\<close>

definition is_named :: "type_node \<Rightarrow> string \<Rightarrow> bool" where
  "is_named t name \<longleftrightarrow> t = NamedType name"

fun bind_type_variables :: "type_node \<Rightarrow> string list \<Rightarrow> type_node" where
  "bind_type_variables (NamedType n) names = (if n \<in> set names then TypeVariable n else NamedType n)"
| "bind_type_variables (GenericType n as) names = GenericType n (map (\<lambda>a. bind_type_variables a names) as)"
| "bind_type_variables (UnionType os) names = union_type (map (\<lambda>x. bind_type_variables x names) os)"
| "bind_type_variables t names = t"

fun substitute_type :: "type_node \<Rightarrow> (string \<times> type_node) list \<Rightarrow> type_node" where
  "substitute_type (TypeVariable n) mapping = (case map_of mapping n of None \<Rightarrow> TypeVariable n | Some t \<Rightarrow> t)"
| "substitute_type (GenericType n as) mapping = GenericType n (map (\<lambda>a. substitute_type a mapping) as)"
| "substitute_type (UnionType os) mapping = union_type (map (\<lambda>x. substitute_type x mapping) os)"
| "substitute_type t mapping = t"

fun unresolved_type_variables :: "type_node \<Rightarrow> string list" where
  "unresolved_type_variables (TypeVariable n) = [n]"
| "unresolved_type_variables (GenericType n as) = concat (map unresolved_type_variables as)"
| "unresolved_type_variables (UnionType os) = concat (map unresolved_type_variables os)"
| "unresolved_type_variables t = []"

fun success_type :: "type_node \<Rightarrow> type_node" where
  "success_type (GenericType n as) =
     (if n = ''Option'' \<and> length as = 1 then as ! 0
      else if n = ''Result'' \<and> length as = 2 then as ! 0
      else GenericType n as)"
| "success_type (UnionType os) = union_type (filter (\<lambda>t. \<not> is_named t ''Error'') os)"
| "success_type t = t"

fun contains_named :: "type_node \<Rightarrow> string list \<Rightarrow> bool" where
  "contains_named (NamedType n) names = (n \<in> set names)"
| "contains_named (GenericType n as) names = (n \<in> set names \<or> list_ex (\<lambda>a. contains_named a names) as)"
| "contains_named (UnionType os) names = list_ex (\<lambda>x. contains_named x names) os"
| "contains_named t names = False"

section \<open>Rendering and parsing back\<close>

text \<open>
  The types in canonical form: names are names, a generic type has arguments, a union has at least
  two alternatives, known and no unions themselves, in the order of their renderings and without
  repetition; no type variables.
\<close>

definition type_name :: "string \<Rightarrow> bool" where
  "type_name n \<longleftrightarrow> n \<noteq> [] \<and> n \<noteq> ''_'' \<and> list_all identifier_char n"

fun simple :: "type_node \<Rightarrow> bool" where
  "simple UnknownType = False"
| "simple (UnionType _) = False"
| "simple _ = True"

fun canonical :: "type_node \<Rightarrow> bool" where
  "canonical UnknownType = True"
| "canonical (NamedType n) = type_name n"
| "canonical (TypeVariable n) = False"
| "canonical (GenericType n as) = (type_name n \<and> as \<noteq> [] \<and> list_all canonical as)"
| "canonical (UnionType os) =
     (1 < length os \<and> list_all simple os \<and> list_all canonical os \<and> sorted_wrt (<) (map render_type os))"

text \<open>\<open>scan c d s\<close>: the bracket depth after \<open>s\<close>, from depth \<open>d\<close>, if \<open>c\<close> never stands outside brackets.\<close>

fun scan :: "char \<Rightarrow> nat \<Rightarrow> string \<Rightarrow> nat option" where
  "scan c d [] = Some d"
| "scan c d (x # xs) =
     (if x = CHR ''<'' then scan c (d + 1) xs
      else if x = CHR ''>'' then if d = 0 then None else scan c (d - 1) xs
      else if d = 0 \<and> x = c then None
      else scan c d xs)"

lemma scan_append: "scan c d (s @ t) = (case scan c d s of None \<Rightarrow> None | Some d' \<Rightarrow> scan c d' t)"
  by (induction s arbitrary: d) auto

lemma split_loop_scan:
  assumes "sep \<noteq> []" "scan (hd sep) d s = Some d'"
  shows "split_loop tx sep d cur parts (s @ rest) = split_loop tx sep d' (cur @ s) parts rest"
  using assms(2)
proof (induction s arbitrary: d cur)
  case (Cons x xs)
  have "take (length sep) (x # xs @ rest) = sep \<Longrightarrow> x = hd sep"
    using assms(1) by (cases sep) auto
  then show ?case
    using Cons by (auto split: if_splits)
qed simp

lemma split_loop_join:
  assumes "sep \<noteq> []" "hd sep \<notin> {CHR ''<'', CHR ''>''}" "\<And>p. p \<in> set ps \<Longrightarrow> scan (hd sep) 0 p = Some 0 \<and> strip p \<noteq> []" "ps \<noteq> []"
  shows "split_loop tx sep 0 [] parts (join sep ps) = Inr (parts @ map strip ps)"
  using assms(3,4)
proof (induction ps arbitrary: parts)
  case (Cons x xs)
  show ?case
  proof (cases xs)
    case Nil
    then show ?thesis
      using Cons.prems(1) split_loop_scan [OF assms(1), of 0 x 0 tx "[]" parts "[]"] by (simp add: push_part_def)
  next
    case tail: (Cons y ys)
    obtain a as where sep: "sep = a # as" using assms(1) by (cases sep) auto
    have x: "scan (hd sep) 0 x = Some 0" "strip x \<noteq> []"
      using Cons.prems(1) by auto
    have "split_loop tx sep 0 x parts (sep @ join sep xs) = split_loop tx sep 0 [] (push_part x parts) (join sep xs)"
      using assms(2) by (simp add: sep)
    then have "split_loop tx sep 0 [] parts (join sep (x # xs)) = split_loop tx sep 0 [] (push_part x parts) (join sep xs)"
      using split_loop_scan [OF assms(1) x(1), of tx "[]" parts "sep @ join sep xs"] tail by simp
    also have "\<dots> = Inr (push_part x parts @ map strip xs)"
      using Cons.prems tail by (intro Cons.IH) auto
    finally show ?thesis
      using x(2) by (simp add: push_part_def)
  qed
qed simp

lemma split_join:
  assumes "sep \<noteq> []" "hd sep \<notin> {CHR ''<'', CHR ''>''}" "\<And>p. p \<in> set ps \<Longrightarrow> scan (hd sep) 0 p = Some 0 \<and> strip p \<noteq> []" "ps \<noteq> []"
  shows "split_top_level (join sep ps) sep = Inr (map strip ps)"
  using split_loop_join [OF assms] by (simp add: split_top_level_def)

lemma join_rec: "join sep (x # xs) = (if xs = [] then x else x @ sep @ join sep xs)"
  by (cases xs) simp_all

lemma join_padded: "join (s @ t) (x # xs) = join s (x # map (\<lambda>y. t @ y) xs)"
proof (induction xs arbitrary: x)
  case (Cons y ys)
  have "t @ join s (y # map (\<lambda>y. t @ y) ys) = join s ((t @ y) # map (\<lambda>y. t @ y) ys)"
    by (cases ys) simp_all
  then show ?case
    using Cons by (simp add: join_rec [of _ x])
qed simp

lemma identifier_char_plain:
  "identifier_char c \<Longrightarrow> \<not> py_isspace c \<and> c \<notin> {CHR ''<'', CHR ''>'', CHR '','', CHR '' ''}"
  by (auto simp: identifier_char_def py_isalnum_def py_isalpha_def py_isdigit_def is_digit_char_def py_isspace_def cp_def)

lemma scan_identifier: "list_all identifier_char s \<Longrightarrow> c \<in> {CHR '','', CHR '' ''} \<Longrightarrow> scan c d s = Some d"
  by (induction s) (auto dest!: identifier_char_plain)

lemma scan_join:
  assumes "\<And>x. x \<in> set xs \<Longrightarrow> scan c (Suc d) x = Some (Suc d)" "set sep \<inter> {CHR ''<'', CHR ''>''} = {}"
  shows "scan c (Suc d) (join sep xs) = Some (Suc d)"
proof -
  have "scan c (Suc d) sep = Some (Suc d)"
    using assms(2) by (induction sep) auto
  then show ?thesis
    using assms(1) by (induction xs) (auto simp: join_rec scan_append)
qed

lemma scan_render_inside:
  "canonical t \<Longrightarrow> c \<in> {CHR '','', CHR '' ''} \<Longrightarrow> scan c (Suc d) (render_type t) = Some (Suc d)"
proof (induction t arbitrary: d rule: render_type.induct)
  case (4 n as)
  have "scan c (Suc (Suc d)) (join '', '' (map render_type as)) = Some (Suc (Suc d))"
    using 4 by (intro scan_join) (auto simp: list_all_iff)
  then show ?case
    using 4 scan_identifier [of n c "Suc d"] by (auto simp: scan_append type_name_def)
next
  case (5 os)
  then show ?case
    by (simp only: render_type.simps) (intro scan_join, auto simp: list_all_iff)
qed (auto simp: type_name_def scan_identifier)

lemma scan_render:
  assumes "canonical t" "c \<in> {CHR '','', CHR '' ''}" "c = CHR '' '' \<Longrightarrow> simple t"
  shows "scan c 0 (render_type t) = Some 0"
  using assms
proof (induction t rule: render_type.induct)
  case (4 n as)
  have "scan c (Suc 0) (join '', '' (map render_type as)) = Some (Suc 0)"
    using 4(2,3) by (intro scan_join) (auto simp: list_all_iff scan_render_inside)
  then show ?case
    using 4(2,3) scan_identifier [of n c 0] by (auto simp: scan_append type_name_def)
next
  case (5 os)
  have comma: "c = CHR '',''"
    using 5 by auto
  have joined: "scan c 0 (join '' or '' xs) = Some 0" if "\<And>x. x \<in> set xs \<Longrightarrow> scan c 0 x = Some 0" for xs
    using that by (induction xs) (auto simp: join_rec scan_append comma)
  have "scan c 0 (join '' or '' (map render_type os)) = Some 0"
    by (rule joined) (use 5 comma in \<open>auto simp: list_all_iff\<close>)
  then show ?case by simp
qed (auto simp: type_name_def scan_identifier)

lemma strip_id: "s \<noteq> [] \<Longrightarrow> \<not> py_isspace (hd s) \<Longrightarrow> \<not> py_isspace (last s) \<Longrightarrow> strip s = s"
  by (simp add: strip_def dropWhile_eq_self_iff [THEN iffD2] hd_rev)

lemma strip_space: "strip (CHR '' '' # s) = strip s"
  by (simp add: strip_def py_isspace_def cp_def)

lemma join_ends:
  assumes "xs \<noteq> []" "\<And>x. x \<in> set xs \<Longrightarrow> x \<noteq> [] \<and> P (hd x) \<and> Q (last x)"
  shows "join sep xs \<noteq> [] \<and> P (hd (join sep xs)) \<and> Q (last (join sep xs))"
  using assms by (induction xs) (auto simp: join_rec)

lemma render_ends:
  "canonical t \<Longrightarrow> render_type t \<noteq> [] \<and> \<not> py_isspace (hd (render_type t)) \<and> \<not> py_isspace (last (render_type t))"
proof (induction t rule: render_type.induct)
  case (5 os)
  show ?case
    unfolding render_type.simps by (rule join_ends) (use 5 in \<open>auto simp: list_all_iff\<close>)
next
  case (4 n as)
  then have "n \<noteq> []" "\<not> py_isspace (hd n)"
    using identifier_char_plain by (auto simp: type_name_def list_all_iff)
  then show ?case
    by (simp add: py_isspace_def cp_def)
qed (use identifier_char_plain in \<open>auto simp: type_name_def list_all_iff py_isspace_def cp_def\<close>)

lemma strip_render: "canonical t \<Longrightarrow> strip (render_type t) = render_type t"
  using render_ends by (intro strip_id) auto

lemma first_by_distinct: "distinct (map f xs) \<Longrightarrow> first_by f xs = xs"
proof (induction xs)
  case (Cons x xs)
  have "filter (\<lambda>y. f y \<noteq> f x) xs = xs"
    using Cons.prems by (auto simp: filter_id_conv image_iff)
  then show ?case using Cons by simp
qed simp

lemma sorted_wrt_less_distinct: "sorted_wrt (<) xs \<Longrightarrow> distinct (xs :: 'a :: linorder list)"
  by (simp add: strict_sorted_iff)

lemma flattened_simple: "list_all simple os \<Longrightarrow> flattened os = os"
proof (induction os)
  case (Cons t ts)
  then show ?case by (cases t) (simp_all add: flattened_def)
qed (simp add: flattened_def)

lemma union_type_canonical: "canonical (UnionType os) \<Longrightarrow> union_type os = UnionType os"
proof -
  assume os: "canonical (UnionType os)"
  then have sorted: "sorted (map render_type os)" "distinct (map render_type os)"
    by (simp_all add: strict_sorted_iff)
  then have "sort_key render_type (first_by render_type (flattened os)) = os"
    using os by (simp add: flattened_simple first_by_distinct sort_key_id_if_sorted)
  then show ?thesis
    using os by (auto simp: union_type_def split: list.splits)
qed

lemma takeWhile_name: "list_all identifier_char n \<Longrightarrow> takeWhile (\<lambda>c. c \<noteq> CHR ''<'') (n @ CHR ''<'' # r) = n"
  "list_all identifier_char n \<Longrightarrow> dropWhile (\<lambda>c. c \<noteq> CHR ''<'') (n @ CHR ''<'' # r) = CHR ''<'' # r"
  by (induction n) (auto dest!: identifier_char_plain)

lemma split_single:
  assumes "canonical t" "simple t"
  shows "split_top_level (render_type t) '' or '' = Inr [render_type t]"
  using split_join [of "'' or ''" "[render_type t]"] scan_render [OF assms(1), of "CHR '' ''"] assms strip_render render_ends [OF assms(1)]
  by simp

lemma parse_generic:
  assumes "strip tx = tx" "tx \<noteq> []" "tx \<noteq> ''_''" "split_top_level tx '' or '' = Inr [tx]" "CHR ''<'' \<in> set tx" "last tx = CHR ''>''"
    and "strip (takeWhile (\<lambda>c. c \<noteq> CHR ''<'') tx) = n" "n \<noteq> []"
    and "split_top_level (butlast (tl (dropWhile (\<lambda>c. c \<noteq> CHR ''<'') tx))) '','' = Inr ps" "rmap parse_type_text ps = Inr as" "as \<noteq> []"
  shows "parse_type_text tx = Inr (GenericType n as)"
  using assms by (simp add: parse_type_text.simps [of tx] Let_def)

lemma render_not_unknown: "canonical t \<Longrightarrow> t \<noteq> UnknownType \<Longrightarrow> render_type t \<noteq> ''_''"
proof (induction t rule: render_type.induct)
  case (5 os)
  then obtain a b cs where "os = a # b # cs"
    by (metis canonical.simps(5) length_0_conv length_Suc_conv less_numeral_extra(4) neq_Nil_conv not_less_zero One_nat_def)
  then show ?case
    using 5 render_ends [of a] by (auto simp: join_rec append_eq_Cons_conv)
qed (auto simp: type_name_def append_eq_Cons_conv)

lemma parse_render:
  assumes "canonical t"
  shows "parse_type_text (render_type t) = Inr t"
  using assms
proof (induction t rule: render_type.induct)
  case 1
  show ?case by code_simp
next
  case (2 n)
  then show ?case
    using split_single [of "NamedType n"] strip_render [of "NamedType n"] render_not_unknown [of "NamedType n"] identifier_char_plain
    by (auto simp: parse_type_text.simps [of n] type_name_def list_all_iff Let_def)
next
  case (4 n as)
  let ?text = "render_type (GenericType n as)"
  let ?inner = "join '', '' (map render_type as)"
  have n: "list_all identifier_char n" "n \<noteq> []" "strip n = n"
    using 4(2) strip_render [of "NamedType n"] by (simp_all add: type_name_def)
  have "as \<noteq> []" using 4(2) by simp
  then obtain b bs where as: "as = b # bs" by (cases as) auto
  have args: "canonical a" if "a \<in> set as" for a
    using 4(2) that by (simp add: list_all_iff)
  have "?inner = join '','' (render_type b # map (\<lambda>a. CHR '' '' # render_type a) bs)"
    using join_padded [of "'',''" "'' ''" "render_type b" "map render_type bs"] by (simp add: as comp_def)
  moreover have "scan (CHR '','') 0 (render_type a) = Some 0" "strip (render_type a) \<noteq> []" if "a \<in> set as" for a
    using scan_render [OF args [OF that], of "CHR '',''"] strip_render [OF args [OF that]] render_ends [OF args [OF that]] by simp_all
  ultimately have "split_top_level ?inner '','' = Inr (map strip (render_type b # map (\<lambda>a. CHR '' '' # render_type a) bs))"
    by (simp only:) (rule split_join, auto simp: as strip_space)
  then have "split_top_level ?inner '','' = Inr (map render_type as)"
    using strip_render args by (simp add: as strip_space)
  moreover have "rmap parse_type_text (map render_type as) = Inr as"
    using 4(1) args by (auto simp: rmap_eq_Inr list_all2_conv_all_nth)
  moreover have "takeWhile (\<lambda>c. c \<noteq> CHR ''<'') ?text = n" "butlast (tl (dropWhile (\<lambda>c. c \<noteq> CHR ''<'') ?text)) = ?inner"
    using takeWhile_name [OF n(1)] by simp_all
  moreover have "strip ?text = ?text" "?text \<noteq> ''_''" "?text \<noteq> []" "split_top_level ?text '' or '' = Inr [?text]"
    using 4(2) strip_render [OF 4(2)] split_single [OF 4(2)] render_not_unknown [OF 4(2)] by simp_all
  ultimately show ?case
    using n(2,3) \<open>as \<noteq> []\<close> by (intro parse_generic) simp_all
next
  case (5 os)
  let ?text = "render_type (UnionType os)"
  have args: "canonical a" "simple a" if "a \<in> set os" for a
    using 5(2) that by (auto simp: list_all_iff)
  have "split_top_level ?text '' or '' = Inr (map strip (map render_type os))"
    unfolding render_type.simps
  proof (rule split_join)
    fix p assume "p \<in> set (map render_type os)"
    then show "scan (hd '' or '') 0 p = Some 0 \<and> strip p \<noteq> []"
      using args scan_render [of _ "CHR '' ''"] strip_render render_ends by auto
  qed (use 5(2) in auto)
  moreover have "map strip (map render_type os) = map render_type os"
    using args strip_render by auto
  ultimately have "split_top_level ?text '' or '' = Inr (map render_type os)" by simp
  moreover have "rmap parse_type_text (map render_type os) = Inr os"
    using 5(1) args by (auto simp: rmap_eq_Inr list_all2_conv_all_nth)
  moreover have "strip ?text = ?text" "?text \<noteq> ''_''" "?text \<noteq> []"
    using 5(2) strip_render [OF 5(2)] render_not_unknown [OF 5(2)] render_ends [OF 5(2)] by simp_all
  ultimately show ?case
    using 5(2) union_type_canonical [OF 5(2)]
    by (simp add: parse_type_text.simps [of ?text] Let_def del: render_type.simps)
qed simp

lemma render_inj: "canonical s \<Longrightarrow> canonical t \<Longrightarrow> render_type s = render_type t \<Longrightarrow> s = t"
  by (metis parse_render sum.inject(2))

text \<open>What \<open>union_type\<close> builds is canonical, and depends on the set of the alternatives only.\<close>

lemma set_first_by: "set (first_by f xs) \<subseteq> set xs"
  by (induction f xs rule: first_by.induct) auto

lemma first_by_covers: "y \<in> set xs \<Longrightarrow> \<exists>z \<in> set (first_by f xs). f z = f y"
proof (induction f xs rule: first_by.induct)
  case (2 f x xs)
  then show ?case by (cases "f y = f x") auto
qed simp

lemma distinct_first_by: "distinct (map f (first_by f xs))"
proof (induction f xs rule: first_by.induct)
  case (2 f x xs)
  have "f x \<notin> f ` set (first_by f (filter (\<lambda>y. f y \<noteq> f x) xs))"
    using set_first_by [of f "filter (\<lambda>y. f y \<noteq> f x) xs"] by auto
  then show ?case using 2 by simp
qed simp

lemma alternatives_canonical: "canonical u \<Longrightarrow> u \<noteq> UnknownType \<Longrightarrow> t \<in> set (alternatives u) \<Longrightarrow> canonical t \<and> simple t"
  by (cases u) (auto simp: list_all_iff)

lemma flattened_canonical:
  "list_all canonical ts \<Longrightarrow> t \<in> set (flattened ts) \<Longrightarrow> canonical t \<and> simple t"
  by (auto simp: flattened_def list_all_iff split: if_splits dest: alternatives_canonical)

lemma canonical_options:
  assumes "list_all canonical os" "list_all simple os" "sorted_wrt (<) (map render_type os)"
  shows "canonical (case os of [] \<Rightarrow> UnknownType | [t] \<Rightarrow> t | _ \<Rightarrow> UnionType os)"
  using assms by (auto split: list.splits)

definition options_of :: "type_node list \<Rightarrow> type_node list" where
  "options_of ts = sort_key render_type (first_by render_type (flattened ts))"

lemma options_of_canonical:
  assumes "list_all canonical ts"
  shows "list_all canonical (options_of ts)" "list_all simple (options_of ts)" "sorted_wrt (<) (map render_type (options_of ts))"
proof -
  have "canonical t \<and> simple t" if "t \<in> set (options_of ts)" for t
    using that flattened_canonical [OF assms] set_first_by [of render_type "flattened ts"] by (auto simp: options_of_def)
  then show "list_all canonical (options_of ts)" "list_all simple (options_of ts)"
    by (simp_all add: list_all_iff)
  have "distinct (map render_type (options_of ts))"
    using distinct_first_by [of render_type "flattened ts"] by (simp add: distinct_map options_of_def)
  then show "sorted_wrt (<) (map render_type (options_of ts))"
    by (simp add: strict_sorted_iff options_of_def)
qed

lemma union_type_options: "union_type ts = (case options_of ts of [] \<Rightarrow> UnknownType | [t] \<Rightarrow> t | _ \<Rightarrow> UnionType (options_of ts))"
  by (auto simp: union_type_def options_of_def split: list.splits)

lemma canonical_union_type: "list_all canonical ts \<Longrightarrow> canonical (union_type ts)"
  unfolding union_type_options by (intro canonical_options options_of_canonical)

lemma set_options_of:
  assumes "list_all canonical ts"
  shows "set (options_of ts) = set (flattened ts)"
proof
  show "set (flattened ts) \<subseteq> set (options_of ts)"
  proof
    fix t assume t: "t \<in> set (flattened ts)"
    then obtain u where u: "u \<in> set (first_by render_type (flattened ts))" "render_type u = render_type t"
      using first_by_covers [of t "flattened ts" render_type] by blast
    then have "u \<in> set (flattened ts)"
      using set_first_by [of render_type "flattened ts"] by auto
    then have "u = t"
      using t u(2) flattened_canonical [OF assms] by (intro render_inj) auto
    then show "t \<in> set (options_of ts)"
      using u(1) by (simp add: options_of_def)
  qed
qed (use set_first_by [of render_type "flattened ts"] in \<open>auto simp: options_of_def\<close>)

text \<open>
  Unions are sets: on canonical types \<open>union_type\<close> gives a canonical type, and two unions are
  the same type exactly when they have the same known alternatives, whatever their order, nesting
  and repetition.
\<close>

theorem unions_are_sets:
  assumes "list_all canonical ts" "list_all canonical us"
  shows "canonical (union_type ts) \<and> (union_type ts = union_type us \<longleftrightarrow> set (flattened ts) = set (flattened us))"
proof -
  have flat: "flattened [union_type xs] = options_of xs" if "list_all canonical xs" for xs
  proof (cases "options_of xs" rule: remdups_adj.cases)
    case (2 t)
    then have "simple t" using options_of_canonical(2) [OF that] by simp
    then show ?thesis using 2 by (cases t) (auto simp: union_type_options flattened_def)
  qed (auto simp: union_type_options flattened_def)
  have "options_of ts = options_of us" if same: "set (flattened ts) = set (flattened us)"
  proof -
    have sets: "set (options_of ts) = set (options_of us)"
      using same set_options_of assms by simp
    then have "map render_type (options_of ts) = map render_type (options_of us)"
      using options_of_canonical(3) assms by (intro strict_sorted_equal) (simp_all add: sets)
    moreover have "inj_on render_type (set (options_of ts) \<union> set (options_of us))"
      using options_of_canonical(1) assms render_inj by (auto simp: inj_on_def list_all_iff)
    ultimately show ?thesis
      by (simp add: inj_on_map_eq_map)
  qed
  then show ?thesis
    using canonical_union_type [OF assms(1)] flat [OF assms(1)] flat [OF assms(2)] set_options_of assms
    by (metis union_type_options)
qed

theorem unions_are_sets_witness:
  "union_type [NamedType ''Int'', UnionType [NamedType ''Error'', NamedType ''Int'']]
   = union_type [NamedType ''Error'', UnknownType, NamedType ''Int'']"
proof -
  have "list_all canonical [NamedType ''Int'', UnionType [NamedType ''Error'', NamedType ''Int'']]"
    "list_all canonical [NamedType ''Error'', UnknownType, NamedType ''Int'']"
    by code_simp+
  from unions_are_sets [OF this] show ?thesis by (auto simp: flattened_def)
qed

text \<open>
  Types survive their rendering: parsing the text of a canonical type gives that type back. (The
  runtime stores and compares types as text, so two of them are the same text only when they are
  the same type.)
\<close>

theorem parse_render_round_trip:
  assumes "canonical t"
  shows "parse_type_text (render_type t) = Inr t"
  using assms by (rule parse_render)

theorem parse_render_round_trip_witness:
  "parse_type_text ''Result<List<Int or String>, Error>''
   = Inr (GenericType ''Result'' [GenericType ''List'' [UnionType [NamedType ''Int'', NamedType ''String'']], NamedType ''Error''])"
proof -
  let ?t = "GenericType ''Result'' [GenericType ''List'' [UnionType [NamedType ''Int'', NamedType ''String'']], NamedType ''Error'']"
  have "canonical ?t" "render_type ?t = ''Result<List<Int or String>, Error>''"
    by code_simp+
  with parse_render_round_trip [of ?t] show ?thesis by simp
qed

end
