(* ===== verification/Capabilities.thy ===== *)
theory Capabilities
  imports Prelude
begin

text \<open>
  The capability contract (\<open>koschei/capability_effect_contract_v1.py\<close>): which capability types
  there are, how a root is narrowed, which operations a narrowed capability has, and the power domain
  of every capability and effect.
\<close>

section \<open>The tables\<close>

definition AUTHORITY_DERIVE :: string where
  "AUTHORITY_DERIVE = ''authority.derive''"

definition SYSTEM_CAPABILITY_MEMBERS :: "(string \<times> string) list" where
  "SYSTEM_CAPABILITY_MEMBERS =
     [(''net'', ''NetRoot''), (''disk'', ''DiskRoot''), (''env'', ''EnvRoot''), (''process'', ''ProcessRoot''),
      (''persist'', ''PersistRoot''), (''serve'', ''ServeRoot'')]"

definition ROOT_NARROWING :: "(string \<times> (string \<times> string) list) list" where
  "ROOT_NARROWING =
     [(''NetRoot'', [(''allow'', ''NetCaps'')]),
      (''DiskRoot'', [(''allow'', ''DiskCaps''), (''allow_read_only'', ''DiskReadCaps'')]),
      (''EnvRoot'', [(''allow'', ''EnvCaps'')]),
      (''ProcessRoot'', [(''allow'', ''ProcessCaps'')]),
      (''PersistRoot'', [(''allow'', ''PersistCaps'')]),
      (''ServeRoot'', [(''allow'', ''ServeCaps'')])]"

definition NARROWED_OPERATIONS :: "(string \<times> string list) list" where
  "NARROWED_OPERATIONS =
     [(''NetCaps'', [''get'', ''post'', ''put'', ''delete'', ''request'']),
      (''DiskCaps'', [''read'', ''write'', ''delete'', ''list'', ''read_file'', ''write_file'']),
      (''DiskReadCaps'', [''read'', ''list'', ''read_file'']),
      (''EnvCaps'', [''get'']),
      (''ProcessCaps'', [''run'', ''spawn'']),
      (''PersistCaps'', [''load'', ''commit'']),
      (''ServeCaps'', [''exchange''])]"

definition CAPABILITY_METHOD_EFFECTS :: "(string \<times> (string \<times> string) list) list" where
  "CAPABILITY_METHOD_EFFECTS =
     [(''NetRoot'', [(''allow'', AUTHORITY_DERIVE)]),
      (''DiskRoot'', [(''allow'', AUTHORITY_DERIVE), (''allow_read_only'', AUTHORITY_DERIVE)]),
      (''EnvRoot'', [(''allow'', AUTHORITY_DERIVE)]),
      (''ProcessRoot'', [(''allow'', AUTHORITY_DERIVE)]),
      (''PersistRoot'', [(''allow'', AUTHORITY_DERIVE)]),
      (''ServeRoot'', [(''allow'', AUTHORITY_DERIVE)]),
      (''NetCaps'', [(''get'', ''net.io''), (''post'', ''net.io''), (''put'', ''net.io''), (''delete'', ''net.io''), (''request'', ''net.io'')]),
      (''DiskReadCaps'', [(''read'', ''disk.read''), (''read_file'', ''disk.read''), (''list'', ''disk.read'')]),
      (''DiskCaps'', [(''read'', ''disk.read''), (''read_file'', ''disk.read''), (''list'', ''disk.read''),
                      (''write'', ''disk.write''), (''write_file'', ''disk.write''), (''delete'', ''disk.write'')]),
      (''EnvCaps'', [(''get'', ''env.read'')]),
      (''ProcessCaps'', [(''run'', ''process.exec''), (''spawn'', ''process.exec'')]),
      (''PersistCaps'', [(''load'', ''persist.read''), (''commit'', ''persist.write'')]),
      (''ServeCaps'', [(''exchange'', ''serve.exchange'')])]"

definition CAPABILITY_POWER_DOMAINS :: "(string \<times> string) list" where
  "CAPABILITY_POWER_DOMAINS =
     [(''SystemCaps'', ''authority''), (''NetRoot'', ''network''), (''NetCaps'', ''network''), (''DiskRoot'', ''data''),
      (''DiskCaps'', ''data''), (''DiskReadCaps'', ''data''), (''EnvRoot'', ''data''), (''EnvCaps'', ''data''),
      (''ProcessRoot'', ''compute''), (''ProcessCaps'', ''compute''), (''PersistRoot'', ''continuity''),
      (''PersistCaps'', ''continuity''), (''ServeRoot'', ''network''), (''ServeCaps'', ''network'')]"

definition EFFECT_POWER_DOMAINS :: "(string \<times> string) list" where
  "EFFECT_POWER_DOMAINS =
     [(''net.io'', ''network''), (''disk.read'', ''data''), (''disk.write'', ''data''), (''env.read'', ''data''),
      (''process.exec'', ''compute''), (''persist.read'', ''continuity''), (''persist.write'', ''continuity''),
      (''serve.exchange'', ''network'')]"

definition ROOT_CAPABILITY_TYPES :: "string list" where
  "ROOT_CAPABILITY_TYPES = map fst ROOT_NARROWING @ [''SystemCaps'']"

definition CAPABILITY_TYPES :: "string list" where
  "CAPABILITY_TYPES = ROOT_CAPABILITY_TYPES @ map fst NARROWED_OPERATIONS"

section \<open>The queries\<close>

text \<open>\<open>table.get(key, {}).get(method)\<close>.\<close>

definition get2 :: "(string \<times> (string \<times> string) list) list \<Rightarrow> string \<Rightarrow> string \<Rightarrow> string option" where
  "get2 table key method = (case map_of table key of None \<Rightarrow> None | Some row \<Rightarrow> map_of row method)"

definition narrowed_type_for :: "string \<Rightarrow> string \<Rightarrow> string option" where
  "narrowed_type_for root_type method = get2 ROOT_NARROWING root_type method"

definition operation_allowed :: "string \<Rightarrow> string \<Rightarrow> bool" where
  "operation_allowed capability_type method =
     (case map_of NARROWED_OPERATIONS capability_type of None \<Rightarrow> False | Some ops \<Rightarrow> method \<in> set ops)"

definition effect_for :: "string \<Rightarrow> string \<Rightarrow> string option" where
  "effect_for capability_type method = get2 CAPABILITY_METHOD_EFFECTS capability_type method"

definition power_domain_for_capability_type :: "string \<Rightarrow> string option" where
  "power_domain_for_capability_type capability_type = map_of CAPABILITY_POWER_DOMAINS capability_type"

definition power_domain_for_effect :: "string \<Rightarrow> string option \<Rightarrow> string option" where
  "power_domain_for_effect effect capability_type =
     (if effect = AUTHORITY_DERIVE then
        (case capability_type of None \<Rightarrow> None | Some c \<Rightarrow> power_domain_for_capability_type c)
      else map_of EFFECT_POWER_DOMAINS effect)"

definition capability_method_stays_within_power_domain :: "string \<Rightarrow> string \<Rightarrow> bool" where
  "capability_method_stays_within_power_domain capability_type method =
     (case effect_for capability_type method of
        None \<Rightarrow> False
      | Some effect \<Rightarrow>
          let source_domain = power_domain_for_capability_type capability_type;
              target_domain = power_domain_for_effect effect (Some capability_type)
          in source_domain \<noteq> None \<and> target_domain \<noteq> None \<and> source_domain = target_domain)"

definition require_capability_method_same_power_domain :: "string \<Rightarrow> string \<Rightarrow> (string \<times> string) result" where
  "require_capability_method_same_power_domain capability_type method =
     (case effect_for capability_type method of
        None \<Rightarrow> raise CapabilityPowerDomainError ''unknown capability method cannot cross the power-domain boundary''
      | Some effect \<Rightarrow>
          (case (power_domain_for_capability_type capability_type, power_domain_for_effect effect (Some capability_type)) of
             (Some source_domain, Some target_domain) \<Rightarrow>
               if source_domain \<noteq> target_domain then
                 raisef CapabilityPowerDomainError ''cross-domain capability escalation denied: {} -> {}'' [source_domain, target_domain]
               else Inr (effect, source_domain)
           | _ \<Rightarrow> raise CapabilityPowerDomainError ''unclassified capability effect cannot cross the power-domain boundary''))"

section \<open>Attenuation\<close>

lemma get2_member: "get2 table k m = Some v \<Longrightarrow> \<exists>row. (k, row) \<in> set table \<and> (m, v) \<in> set row"
  by (auto simp: get2_def split: option.splits dest: map_of_SomeD)

text \<open>The tables, entry by entry.\<close>

lemma narrowing_entries:
  "list_all (\<lambda>(root, methods). root \<in> set ROOT_CAPABILITY_TYPES \<and> list_all (\<lambda>(m, c).
       c \<notin> set ROOT_CAPABILITY_TYPES \<and> c \<in> set CAPABILITY_TYPES \<and> map_of NARROWED_OPERATIONS c \<noteq> None
     \<and> power_domain_for_capability_type c = power_domain_for_capability_type root
     \<and> effect_for root m = Some AUTHORITY_DERIVE) methods) ROOT_NARROWING"
  by code_simp

lemma operation_entries:
  "list_all (\<lambda>(c, methods). map_of ROOT_NARROWING c = None \<and> list_all (\<lambda>m.
       is_ok (require_capability_method_same_power_domain c m) \<and> effect_for c m \<noteq> Some AUTHORITY_DERIVE) methods) NARROWED_OPERATIONS"
  by code_simp

lemma effect_entries:
  "list_all (\<lambda>(c, row). c \<in> set CAPABILITY_TYPES \<and> list_all (\<lambda>(m, e).
       require_capability_method_same_power_domain c m = Inr (e, the (power_domain_for_capability_type c))
     \<and> (if e = AUTHORITY_DERIVE then narrowed_type_for c m \<noteq> None else operation_allowed c m)) row) CAPABILITY_METHOD_EFFECTS"
  by code_simp

text \<open>
  Authority only attenuates: what narrowing a root capability yields is a narrowed capability of
  the same power domain; it is no root, no method narrows it again or turns it into another
  capability, and each of its operations has an effect inside that same domain.
\<close>

theorem narrowing_attenuates:
  assumes "narrowed_type_for root_type method = Some c"
  shows "root_type \<in> set ROOT_CAPABILITY_TYPES \<and> c \<in> set CAPABILITY_TYPES \<and> c \<notin> set ROOT_CAPABILITY_TYPES
    \<and> power_domain_for_capability_type c = power_domain_for_capability_type root_type
    \<and> (\<forall>m. narrowed_type_for c m = None)
    \<and> (\<forall>m. operation_allowed c m \<longrightarrow> (\<exists>e d. effect_for c m = Some e \<and> e \<noteq> AUTHORITY_DERIVE
         \<and> require_capability_method_same_power_domain c m = Inr (e, d)
         \<and> power_domain_for_capability_type root_type = Some d))"
proof -
  obtain row where "(root_type, row) \<in> set ROOT_NARROWING" "(method, c) \<in> set row"
    using get2_member [OF assms [unfolded narrowed_type_for_def]] by blast
  then have c: "root_type \<in> set ROOT_CAPABILITY_TYPES" "c \<in> set CAPABILITY_TYPES" "c \<notin> set ROOT_CAPABILITY_TYPES"
      "power_domain_for_capability_type c = power_domain_for_capability_type root_type"
      "map_of NARROWED_OPERATIONS c \<noteq> None"
    using narrowing_entries by (fastforce simp: list_all_iff)+
  obtain ops where ops: "map_of NARROWED_OPERATIONS c = Some ops"
    using c(5) by auto
  then have entry: "map_of ROOT_NARROWING c = None"
      "\<And>m. m \<in> set ops \<Longrightarrow> is_ok (require_capability_method_same_power_domain c m) \<and> effect_for c m \<noteq> Some AUTHORITY_DERIVE"
    using operation_entries map_of_SomeD [OF ops] by (auto simp: list_all_iff)
  have "\<exists>e d. effect_for c m = Some e \<and> e \<noteq> AUTHORITY_DERIVE \<and> require_capability_method_same_power_domain c m = Inr (e, d)
      \<and> power_domain_for_capability_type root_type = Some d" if "m \<in> set ops" for m
    using entry(2) [OF that] c(4)
    by (auto simp: require_capability_method_same_power_domain_def is_ok_def split: option.splits if_splits)
  moreover have "narrowed_type_for c m = None" for m
    using entry(1) by (simp add: narrowed_type_for_def get2_def)
  ultimately show ?thesis
    using c(1-4) ops by (simp add: operation_allowed_def)
qed

theorem narrowing_attenuates_witness:
  "narrowed_type_for ''DiskRoot'' ''allow_read_only'' = Some ''DiskReadCaps'' \<and> narrowed_type_for ''DiskReadCaps'' ''allow'' = None
   \<and> power_domain_for_capability_type ''DiskReadCaps'' = power_domain_for_capability_type ''DiskRoot''"
proof -
  have "narrowed_type_for ''DiskRoot'' ''allow_read_only'' = Some ''DiskReadCaps''" by code_simp
  with narrowing_attenuates [OF this] show ?thesis by blast
qed

lemma same_domain_exact:
  "require_capability_method_same_power_domain c m = Inr (e, d)
   \<longleftrightarrow> effect_for c m = Some e \<and> power_domain_for_capability_type c = Some d"
proof (cases "effect_for c m")
  case (Some e')
  then obtain row where "(c, row) \<in> set CAPABILITY_METHOD_EFFECTS" "(m, e') \<in> set row"
    using get2_member [of CAPABILITY_METHOD_EFFECTS c m e'] by (auto simp: effect_for_def)
  then have "require_capability_method_same_power_domain c m = Inr (e', the (power_domain_for_capability_type c))"
    using effect_entries by (fastforce simp: list_all_iff)
  with Some show ?thesis
    by (auto simp: require_capability_method_same_power_domain_def split: option.splits if_splits)
qed (simp add: require_capability_method_same_power_domain_def)

lemma stays_iff_required:
  "capability_method_stays_within_power_domain c m \<longleftrightarrow> is_ok (require_capability_method_same_power_domain c m)"
  by (auto simp: capability_method_stays_within_power_domain_def require_capability_method_same_power_domain_def
      Let_def is_ok_def split: option.splits)

end
