(* ===== verification/Type_Contracts.thy ===== *)
theory Type_Contracts
  imports Type_System Capabilities Parser_Total
begin

text \<open>
  Type contracts and generic inference (\<open>koschei/type_contracts.py\<close>, with the entries that
  \<open>bounded_queue_v1.py\<close>, \<open>bounded_queue_contract_gate.py\<close>, \<open>financial_decimal_v1.py\<close> and
  \<open>structured_tasks_v1.py\<close> add to its tables): when a type is assignable to another, how the type
  parameters of a generic call are inferred, and the validator that keeps capabilities out of
  generic arguments.
\<close>

section \<open>Tables and errors\<close>

definition GENERIC_ARITY :: "(string \<times> nat) list" where
  "GENERIC_ARITY = [(''Option'', 1), (''Result'', 2), (''List'', 1), (''Map'', 2), (''BoundedQueue'', 1)]"

definition RESERVED_TYPE_PARAMETERS :: "string list" where
  "RESERVED_TYPE_PARAMETERS =
     [''Int'', ''Float'', ''String'', ''Bool'', ''Void'', ''Error'', ''Option'', ''Result'', ''List'', ''Map'']
     @ CAPABILITY_TYPES @ [''Decimal'', ''BoundedQueue'', ''TaskScope'']"

definition semantic_error :: "string \<Rightarrow> string \<Rightarrow> string list \<Rightarrow> source_location \<Rightarrow> 'a result" where
  "semantic_error code message args location =
     raisef SemanticError (code @ '' [satir {}, sutun {}]: '' @ message)
       (str_int (loc_line location) # str_int (loc_column location) # args)"

section \<open>Assignability\<close>

text \<open>\<open>declaration_type\<close> and \<open>function_type\<close>: parse the annotation, bind the declared parameters.\<close>

definition declaration_type :: "string list \<Rightarrow> type_ref option \<Rightarrow> type_node result" where
  "declaration_type parameters r = rbind (parse_type_ref r) (\<lambda>t. Inr (bind_type_variables t parameters))"

definition function_type :: "function_declaration \<Rightarrow> type_ref option \<Rightarrow> type_node result" where
  "function_type f r = declaration_type (fn_type_parameters f) r"

text \<open>\<open>is_assignable\<close>; an actual type that is no union is its only alternative.\<close>

lemma member_size: "x \<in> set xs \<Longrightarrow> size x < Suc (size_list size xs)"
  using size_list_estimation' [of x xs "size x" size] by simp

lemma zip_size:
  assumes "(x, y) \<in> set (zip xs ys)"
  shows "size x + size y < Suc (Suc (size_list size xs + size_list size ys))"
  using member_size [OF set_zip_leftD [OF assms]] member_size [OF set_zip_rightD [OF assms]] by simp

lemma filter_single: "filter P xs = [x] \<Longrightarrow> x \<in> set xs"
  by (metis filter_is_subset list.set_intros(1) subsetD)

function is_assignable :: "type_node \<Rightarrow> type_node \<Rightarrow> bool" where
  "is_assignable expected actual =
     (if expected = UnknownType \<or> actual = UnknownType then True
      else case actual of
        UnionType options \<Rightarrow> list_all (\<lambda>option. is_assignable expected option) options
      | _ \<Rightarrow>
        (case expected of
           UnionType options \<Rightarrow> list_ex (\<lambda>option. is_assignable option actual) options
         | _ \<Rightarrow>
           if expected = actual then True
           else case (expected, actual) of
             (NamedType n, GenericType m _) \<Rightarrow> n = m
           | (GenericType n _, NamedType m) \<Rightarrow> n = m
           | (GenericType n es, GenericType m as) \<Rightarrow>
               n = m \<and> length es = length as \<and> list_all (\<lambda>(e, a). is_assignable e a) (zip es as)
           | _ \<Rightarrow> False))"
  by pat_completeness auto
termination
proof (relation "measure (\<lambda>(e, a). size e + size a)")
  show "wf (measure (\<lambda>(e, a). size e + size (a :: type_node)))" by simp
qed (auto dest!: zip_size dest: member_size)

declare is_assignable.simps [simp del]

definition require_assignable :: "type_node \<Rightarrow> type_node \<Rightarrow> string \<Rightarrow> source_location \<Rightarrow> unit result" where
  "require_assignable expected actual subject location =
     (if is_assignable expected actual then Inr ()
      else semantic_error ''KS1301'' ''{} {} bekler, {} bulundu.'' [subject, render_type expected, render_type actual] location)"

section \<open>Inference\<close>

text \<open>A mapping from type parameters to types, in the order of its insertions.\<close>

type_synonym bindings = "(string \<times> type_node) list"

definition same_inference :: "type_node \<Rightarrow> type_node \<Rightarrow> bool" where
  "same_inference left right \<longleftrightarrow> is_assignable left right \<and> is_assignable right left"

text \<open>\<open>for x in xs: m = f(m, x)\<close>.\<close>

fun rfold :: "('s \<Rightarrow> 'a \<Rightarrow> 's result) \<Rightarrow> 's \<Rightarrow> 'a list \<Rightarrow> 's result" where
  "rfold f m [] = Inr m"
| "rfold f m (x # xs) = rbind (f m x) (\<lambda>m'. rfold f m' xs)"

lemma rfold_cong [fundef_cong]:
  "m = m' \<Longrightarrow> xs = ys \<Longrightarrow> (\<And>x s. x \<in> set ys \<Longrightarrow> f s x = g s x) \<Longrightarrow> rfold f m xs = rfold g m' ys"
  by (induction xs arbitrary: ys m m') (auto intro!: rbind_cong)

function infer_pattern :: "string \<Rightarrow> source_location \<Rightarrow> bindings \<Rightarrow> type_node \<times> type_node \<Rightarrow> bindings result" where
  "infer_pattern subject location mapping (pattern, actual) =
     (case pattern of
        TypeVariable n \<Rightarrow>
          if actual = UnknownType then Inr mapping
          else (case map_of mapping n of
            None \<Rightarrow> Inr (mapping @ [(n, actual)])
          | Some previous \<Rightarrow>
              if \<not> same_inference previous actual then
                semantic_error ''KS1307'' ''{}: {} icin hem {} hem {} cikarildi.''
                  [subject, n, render_type previous, render_type actual] location
              else Inr mapping)
      | GenericType n ps \<Rightarrow>
          (case actual of
             GenericType m as \<Rightarrow>
               if n \<noteq> m \<or> length ps \<noteq> length as then Inr mapping
               else rfold (\<lambda>mapping x. infer_pattern subject location mapping x) mapping (zip ps as)
           | _ \<Rightarrow> Inr mapping)
      | UnionType options \<Rightarrow>
          (case filter (\<lambda>option. is_assignable option actual) options of
             [candidate] \<Rightarrow> infer_pattern subject location mapping (candidate, actual)
           | _ \<Rightarrow> Inr mapping)
      | _ \<Rightarrow> Inr mapping)"
  by pat_completeness auto
termination
proof (relation "measure (\<lambda>(_, _, _, p, _). size p)")
  show "wf (measure (\<lambda>(_, _, _, p, _). size (p :: type_node)))" by simp
qed (auto dest: member_size set_zip_leftD dest!: filter_single)

declare infer_pattern.simps [simp del]

definition infer_function_mapping :: "function_declaration \<Rightarrow> type_node list \<Rightarrow> source_location \<Rightarrow> bindings result" where
  "infer_function_mapping f arguments location =
     (if length arguments \<noteq> length (fn_parameters f) then
        semantic_error ''KS1301'' ''{} {} arguman bekler, {} verildi.''
          [fn_name f, str_int (int (length (fn_parameters f))), str_int (int (length arguments))] location
      else rfold (\<lambda>mapping (index, parameter, actual).
          rbind (function_type f (Some (pm_type_ref parameter))) (\<lambda>pattern.
            infer_pattern (fn_name f @ '' cagrisinin '' @ str_int index @ ''. argumani'') location mapping (pattern, actual)))
        [] (zip (map int [1..<Suc (length arguments)]) (zip (fn_parameters f) arguments)))"

text \<open>
  What the inference asks of its validator: \<open>is_sensitive\<close>, whether a type carries a capability,
  and \<open>validate_type\<close>.
\<close>

record validator =
  vd_is_sensitive :: "type_node \<Rightarrow> bool result"
  vd_validate_type :: "type_node \<Rightarrow> source_location \<Rightarrow> string \<Rightarrow> unit result"

definition refuse_sensitive :: "validator \<Rightarrow> string \<Rightarrow> source_location \<Rightarrow> bindings \<Rightarrow> unit result" where
  "refuse_sensitive v subject location mapping =
     rfor (\<lambda>(name, actual).
       rbind (vd_is_sensitive v actual) (\<lambda>sensitive.
         if sensitive then
           semantic_error ''KS2402'' ''{}: {} capability tasiyan {} olamaz.'' [subject, name, render_type actual] location
         else Inr ())) mapping"

definition check_expected :: "validator \<Rightarrow> string \<Rightarrow> string \<Rightarrow> source_location \<Rightarrow> type_node \<Rightarrow> type_node \<Rightarrow> unit result" where
  "check_expected v subject subject' location actual expected =
     rbind (require_assignable expected actual subject location) (\<lambda>_. vd_validate_type v expected location subject')"

definition infer_declaration_mapping ::
  "validator \<Rightarrow> string list \<Rightarrow> (type_ref \<times> type_node) list \<Rightarrow> source_location \<Rightarrow> string \<Rightarrow> bool \<Rightarrow> bindings result" where
  "infer_declaration_mapping v parameters pairs location subject allow_missing =
     (if parameters = [] then
        rbind (rfor (\<lambda>(r, actual).
          rbind (declaration_type parameters (Some r)) (check_expected v subject subject location actual)) pairs) (\<lambda>_. Inr [])
      else
        rbind (rfold (\<lambda>mapping (r, actual).
          rbind (declaration_type parameters (Some r)) (\<lambda>pattern. infer_pattern subject location mapping (pattern, actual))) [] pairs) (\<lambda>found.
        let missing = filter (\<lambda>name. name \<notin> fst ` set found) parameters in
        if missing \<noteq> [] \<and> \<not> allow_missing then
          semantic_error ''KS1307'' ''{}: su tip parametreleri cikarilamadi: {}.'' [subject, join '', '' missing] location
        else
          let mapping = found @ map (\<lambda>name. (name, UnknownType)) (remdups missing) in
          rbind (refuse_sensitive v subject location mapping) (\<lambda>_.
          rbind (rfor (\<lambda>(r, actual).
            rbind (declaration_type parameters (Some r)) (\<lambda>pattern.
              check_expected v subject subject location actual (substitute_type pattern mapping))) pairs) (\<lambda>_.
            Inr mapping))))"

definition instantiated_declaration_type :: "string \<Rightarrow> string list \<Rightarrow> bindings \<Rightarrow> type_node" where
  "instantiated_declaration_type name parameters mapping =
     (if parameters = [] then NamedType name
      else GenericType name (map (\<lambda>p. case map_of mapping p of None \<Rightarrow> UnknownType | Some t \<Rightarrow> t) parameters))"

definition instantiate_function :: "validator \<Rightarrow> function_declaration \<Rightarrow> type_node list \<Rightarrow> source_location \<Rightarrow> type_node result" where
  "instantiate_function v f arguments location =
     rbind (infer_function_mapping f arguments location) (\<lambda>mapping.
     let missing = filter (\<lambda>name. name \<notin> fst ` set mapping) (fn_type_parameters f) in
     if missing \<noteq> [] then
       semantic_error ''KS1307'' ''{} cagrisinda su tip parametreleri cikarilamadi: {}.'' [fn_name f, join '', '' missing] location
     else
     rbind (refuse_sensitive v (fn_name f) location mapping) (\<lambda>_.
     rbind (rfor (\<lambda>(index, parameter, actual).
         rbind (function_type f (Some (pm_type_ref parameter))) (\<lambda>pattern.
           check_expected v (fn_name f @ '' cagrisinin '' @ str_int index @ ''. argumani'') (fn_name f @ '' parametresi'') location
             actual (substitute_type pattern mapping)))
       (zip (map int [1..<Suc (length arguments)]) (zip (fn_parameters f) arguments))) (\<lambda>_.
     rbind (function_type f (fn_return_type f)) (\<lambda>return_pattern.
     let result = substitute_type return_pattern mapping;
         unresolved = unresolved_type_variables result
     in if unresolved \<noteq> [] then
          semantic_error ''KS1307'' ''{} donus tipinde cozulemeyen tip parametresi: {}''
            [fn_name f, join '', '' (sorted_set unresolved)] location
        else
          rbind (vd_validate_type v result location (fn_name f @ '' donus tipi'')) (\<lambda>_. Inr result)))))"

section \<open>The validator\<close>

text \<open>
  \<open>TypeContractValidator\<close>: the structs and enums of the program and of the modules it
  imports, a later declaration of a name in the place of an earlier one.
\<close>

record contracts =
  ct_structs :: "string \<rightharpoonup> struct_declaration"
  ct_enums :: "string \<rightharpoonup> enum_declaration"

definition mk_contracts :: "program \<Rightarrow> contracts list \<Rightarrow> contracts" where
  "mk_contracts program imports =
     foldl (\<lambda>c m. \<lparr>ct_structs = ct_structs c ++ ct_structs m, ct_enums = ct_enums c ++ ct_enums m\<rparr>)
       \<lparr>ct_structs = map_of (rev (map (\<lambda>d. (st_name d, d)) (pr_structs program))),
        ct_enums = map_of (rev (map (\<lambda>d. (en_name d, d)) (pr_enums program)))\<rparr> imports"

definition payload_refs :: "enum_declaration \<Rightarrow> type_ref list" where
  "payload_refs d = concat (map (\<lambda>v. case ev_payload_type v of None \<Rightarrow> [] | Some r \<Rightarrow> [r]) (en_variants d))"

text \<open>\<open>_generic_declaration\<close>: the type parameters of the declaration and the types of its fields or payloads.\<close>

definition generic_declaration :: "contracts \<Rightarrow> string \<Rightarrow> (string list \<times> type_ref list) option" where
  "generic_declaration c name = (case ct_structs c name of
     Some d \<Rightarrow> Some (st_type_parameters d, map sf_type_ref (st_fields d))
   | None \<Rightarrow> (case ct_enums c name of
       Some d \<Rightarrow> Some (en_type_parameters d, payload_refs d)
     | None \<Rightarrow> None))"

text \<open>\<open>is_sensitive\<close>, on a bound for the depth of its recursion; \<open>seen\<close> are the types being looked into.\<close>

fun is_sensitive :: "contracts \<Rightarrow> nat \<Rightarrow> type_node \<Rightarrow> string list \<Rightarrow> bool result" where
  "is_sensitive c 0 t seen = raise RecursionError ''maximum recursion depth exceeded''"
| "is_sensitive c (Suc n) t seen = (case t of
     UnknownType \<Rightarrow> Inr False
   | TypeVariable _ \<Rightarrow> Inr False
   | UnionType options \<Rightarrow> rany (\<lambda>option. is_sensitive c n option seen) options
   | GenericType name arguments \<Rightarrow>
       rbind (rany (\<lambda>argument. is_sensitive c n argument seen) arguments) (\<lambda>inside.
       if inside then Inr True
       else (case generic_declaration c name of
         None \<Rightarrow> Inr False
       | Some (parameters, refs) \<Rightarrow>
           let key = render_type t; mapping = rev (zip parameters arguments) in
           if key \<in> set seen then Inr False
           else rany (\<lambda>r. rbind (declaration_type parameters (Some r)) (\<lambda>pattern.
                  is_sensitive c n (substitute_type pattern mapping) (key # seen))) refs))
   | NamedType name \<Rightarrow>
       if name \<in> set CAPABILITY_TYPES then Inr True
       else if name \<in> set seen then Inr False
       else (case generic_declaration c name of
         None \<Rightarrow> Inr False
       | Some (parameters, refs) \<Rightarrow>
           rany (\<lambda>r. rbind (declaration_type parameters (Some r)) (\<lambda>t. is_sensitive c n t (name # seen))) refs))"

text \<open>\<open>validate_type\<close>, with the gate of \<open>bounded_queue_contract_gate.py\<close> before it.\<close>

fun validate_type :: "contracts \<Rightarrow> nat \<Rightarrow> type_node \<Rightarrow> source_location \<Rightarrow> string \<Rightarrow> unit result" where
  "validate_type c n UnknownType location subject = Inr ()"
| "validate_type c n (TypeVariable _) location subject = Inr ()"
| "validate_type c n (UnionType options) location subject =
     rfor (\<lambda>option. validate_type c n option location subject) options"
| "validate_type c n (NamedType name) location subject =
     (if name = ''BoundedQueue'' then
        semantic_error ''KS1301'' ''{}: BoundedQueue tipi BoundedQueue<T> biciminde kullanilmalidir.'' [subject] location
      else case generic_declaration c name of
        Some (p # ps, _) \<Rightarrow>
          semantic_error ''KS1307'' ''{}: generic {} tipi {} tip argumani ister.''
            [subject, name, str_int (int (length (p # ps)))] location
      | _ \<Rightarrow> Inr ())"
| "validate_type c n (GenericType name arguments) location subject =
     (let declaration = generic_declaration c name;
          expected = (case map_of GENERIC_ARITY name of
            Some k \<Rightarrow> Some k
          | None \<Rightarrow> (case declaration of Some (ps, _) \<Rightarrow> Some (length ps) | None \<Rightarrow> None))
      in case expected of
        None \<Rightarrow> semantic_error ''KS1301'' ''{}: {} generic tip degildir.'' [subject, name] location
      | Some k \<Rightarrow>
        if declaration \<noteq> None \<and> k = 0 then
          semantic_error ''KS1301'' ''{}: {} generic tip degildir.'' [subject, name] location
        else if length arguments \<noteq> k then
          semantic_error ''KS1301'' ''{}: {} {} tip argumani bekler, {} verildi.''
            [subject, name, str_int (int k), str_int (int (length arguments))] location
        else if name = ''Map'' \<and> (case arguments ! 0 of TypeVariable _ \<Rightarrow> False | UnknownType \<Rightarrow> False | key \<Rightarrow> key \<noteq> STRING) then
          semantic_error ''KS1301'' ''{}: Map anahtar tipi String olmalidir, {} bulundu.'' [subject, render_type (arguments ! 0)] location
        else
          rbind (rfor (\<lambda>argument. validate_type c n argument location subject) arguments) (\<lambda>_.
          rbind (rany (\<lambda>argument. is_sensitive c n argument []) arguments) (\<lambda>sensitive.
            if sensitive then
              semantic_error ''KS2402'' ''{}: capability degeri {} generic argumaninda gizlenemez.'' [subject, name] location
            else Inr ())))"

definition contract_validator :: "contracts \<Rightarrow> nat \<Rightarrow> validator" where
  "contract_validator c n =
     \<lparr>vd_is_sensitive = (\<lambda>t. is_sensitive c n t []), vd_validate_type = (\<lambda>t l s. validate_type c n t l s)\<rparr>"

fun validate_parameter_names :: "string \<Rightarrow> string list \<Rightarrow> string list \<Rightarrow> source_location \<Rightarrow> unit result" where
  "validate_parameter_names owner seen [] location = Inr ()"
| "validate_parameter_names owner seen (name # names) location =
     (if name \<in> set seen then
        semantic_error ''KS1307'' ''{} icinde {} tip parametresi birden fazla tanimlandi.'' [owner, name] location
      else if name \<in> set RESERVED_TYPE_PARAMETERS then
        semantic_error ''KS1307'' ''{} yerlesik veya capability tipi oldugu icin tip parametresi olamaz.'' [name] location
      else validate_parameter_names owner (name # seen) names location)"

definition validate_declaration_parameters ::
  "string \<Rightarrow> string list \<Rightarrow> source_location \<Rightarrow> type_ref list \<Rightarrow> string \<Rightarrow> unit result" where
  "validate_declaration_parameters name parameters location refs kind =
     rbind (validate_parameter_names name [] parameters location) (\<lambda>_.
     if parameters = [] then Inr ()
     else rbind (rmap (\<lambda>r. declaration_type parameters (Some r)) refs) (\<lambda>types.
       let unused = filter (\<lambda>p. p \<notin> set (concat (map unresolved_type_variables types))) parameters in
       if unused \<noteq> [] then
         semantic_error ''KS1307'' ''{} {} bildiriminde kullanilmayan tip parametresi: {}.'' [name, kind, join '', '' unused] location
       else Inr ()))"

definition validate_struct :: "contracts \<Rightarrow> nat \<Rightarrow> struct_declaration \<Rightarrow> unit result" where
  "validate_struct c n d =
     rbind (validate_declaration_parameters (st_name d) (st_type_parameters d) (st_location d) (map sf_type_ref (st_fields d)) ''struct'') (\<lambda>_.
     rfor (\<lambda>f. rbind (declaration_type (st_type_parameters d) (Some (sf_type_ref f))) (\<lambda>t.
       validate_type c n t (sf_location f) (st_name d @ ''.'' @ sf_name f @ '' alani''))) (st_fields d))"

definition validate_enum :: "contracts \<Rightarrow> nat \<Rightarrow> enum_declaration \<Rightarrow> unit result" where
  "validate_enum c n d =
     rbind (validate_declaration_parameters (en_name d) (en_type_parameters d) (en_location d) (payload_refs d) ''enum'') (\<lambda>_.
     rfor (\<lambda>v. case ev_payload_type v of
         None \<Rightarrow> Inr ()
       | Some r \<Rightarrow> rbind (declaration_type (en_type_parameters d) (Some r)) (\<lambda>t.
           validate_type c n t (ev_location v) (en_name d @ ''.'' @ ev_name v @ '' payload''))) (en_variants d))"

definition validate_function :: "contracts \<Rightarrow> nat \<Rightarrow> function_declaration \<Rightarrow> unit result" where
  "validate_function c n f =
     rbind (validate_parameter_names (fn_name f) [] (fn_type_parameters f) (fn_location f)) (\<lambda>_.
     if fn_name f = ''main'' \<and> fn_type_parameters f \<noteq> [] then
       semantic_error ''KS1307'' ''main generic olamaz; runtime giris tiplerini cikaramaz.'' [] (fn_location f)
     else
     rbind (rfor (\<lambda>p. rbind (function_type f (Some (pm_type_ref p))) (\<lambda>t.
       validate_type c n t (pm_location p) (fn_name f @ ''.'' @ pm_name p @ '' parametresi''))) (fn_parameters f)) (\<lambda>_.
     case fn_return_type f of
       None \<Rightarrow> Inr ()
     | Some r \<Rightarrow> rbind (function_type f (Some r)) (\<lambda>t.
         validate_type c n t (tr_location r) (fn_name f @ '' donus tipi''))))"

definition validate_program :: "contracts \<Rightarrow> nat \<Rightarrow> program \<Rightarrow> unit result" where
  "validate_program c n program =
     rbind (rfor (validate_struct c n) (pr_structs program)) (\<lambda>_.
     rbind (rfor (validate_enum c n) (pr_enums program)) (\<lambda>_.
     rfor (validate_function c n) (pr_declarations program)))"

end
