(* ===== verification/Type_Safety.thy ===== *)
theory Type_Safety
  imports Type_Contracts
begin

text \<open>
  What the type contracts guarantee: annotations that the parser read always parse as types, generic
  calls are inferred, and the sensitivity check finds exactly the types through which a capability
  can be reached.
\<close>

section \<open>Annotations\<close>

text \<open>The text that \<open>_type_atom\<close> builds is the rendering of a canonical type.\<close>

definition named_stream :: "token list \<Rightarrow> bool" where
  "named_stream ts \<longleftrightarrow> (\<forall>t \<in> set ts. tk_type t = T_TYPE \<longrightarrow> type_name (text_of t))"

lemma pbind_Inr: "pbind p k ts = Inr r \<longleftrightarrow> (\<exists>x us. p ts = Inr (x, us) \<and> k x us = Inr r)"
  by (auto simp: pbind_def rbind_eq_Inr)

lemma consume_Inr: "p_consume ty m ts = Inr (t, us) \<longleftrightarrow> ts = t # us \<and> tk_type t = ty"
  by (auto simp: p_consume_def p_check_def pbind_def p_peek_def p_advance_def pret_def p_error_def pfail_def
      rbind_eq_Inr split: list.splits if_splits)

lemma match_Inr:
  "p_match tys ts = Inr (m, us) \<longleftrightarrow>
     (case m of Some t \<Rightarrow> ts = t # us \<and> tk_type t \<in> set tys | None \<Rightarrow> ts = us \<and> us \<noteq> [] \<and> tk_type (hd us) \<notin> set tys)"
  by (cases ts) (auto simp: p_match_def pbind_def p_peek_def p_advance_def pret_def split: option.splits)

lemma type_atom_loop_renders:
  assumes "\<And>ts s us. named_stream ts \<Longrightarrow> atom ts = Inr (s, us) \<Longrightarrow> named_stream us \<and> (\<exists>t. canonical t \<and> simple t \<and> s = render_type t)"
  shows "named_stream ts \<Longrightarrow> type_atom_loop k atom ts = Inr (ss, us)
    \<Longrightarrow> named_stream us \<and> (\<exists>as. as \<noteq> [] \<and> list_all canonical as \<and> ss = map render_type as)"
proof (induction k arbitrary: ts ss)
  case (Suc k)
  obtain s us1 m us2 where first: "atom ts = Inr (s, us1)" "p_match [T_COMMA] us1 = Inr (m, us2)"
    and rest: "(if m = None then pret [s] else pbind (type_atom_loop k atom) (\<lambda>xs. pret (s # xs))) us2 = Inr (ss, us)"
    using Suc.prems(2) by (auto simp: pbind_Inr)
  obtain t where t: "named_stream us1" "canonical t" "s = render_type t"
    using assms [OF Suc.prems(1) first(1)] by blast
  have us2: "named_stream us2"
    using t(1) first(2) by (auto simp: match_Inr named_stream_def split: option.splits)
  show ?case
  proof (cases m)
    case None
    then show ?thesis
      using rest us2 t by (intro conjI exI [of _ "[t]"]) (auto simp: pret_def)
  next
    case (Some c)
    then obtain xs where xs: "type_atom_loop k atom us2 = Inr (xs, us)" "ss = s # xs"
      using rest by (auto simp: pbind_Inr pret_def)
    then obtain as where "named_stream us" "list_all canonical as" "xs = map render_type as"
      using Suc.IH [OF us2 xs(1)] by blast
    then show ?thesis
      using t xs(2) by (intro conjI exI [of _ "t # as"]) auto
  qed
qed (simp add: too_deep_def pfail_def)

lemma type_atom_renders:
  "named_stream ts \<Longrightarrow> type_atom d ts = Inr (s, us) \<Longrightarrow> named_stream us \<and> (\<exists>t. canonical t \<and> simple t \<and> s = render_type t)"
proof (induction d arbitrary: ts s us)
  case (Suc d)
  obtain t us1 m us2 where first: "ts = t # us1" "tk_type t = T_TYPE" "p_match [T_LESS] us1 = Inr (m, us2)"
    and rest: "(if m = None then pret (text_of t) else
         pbind (\<lambda>ts. type_atom_loop (length ts) (type_atom d) ts) (\<lambda>arguments.
         pbind (p_consume T_GREATER ''Generic tip sonunda '>' bekleniyordu.'') (\<lambda>_.
           pret (text_of t @ ''<'' @ join '', '' arguments @ ''>'')))) us2 = Inr (s, us)"
    using Suc.prems(2) by (auto simp: pbind_Inr consume_Inr)
  have name: "type_name (text_of t)" "named_stream us2"
    using Suc.prems(1) first by (auto simp: named_stream_def match_Inr split: option.splits)
  show ?case
  proof (cases m)
    case None
    then show ?thesis
      using rest name by (intro conjI exI [of _ "NamedType (text_of t)"]) (auto simp: pret_def)
  next
    case (Some l)
    then obtain ss us3 where args: "type_atom_loop (length us2) (type_atom d) us2 = Inr (ss, us3)"
      and s: "s = text_of t @ ''<'' @ join '', '' ss @ ''>''" "\<exists>c. us3 = c # us"
      using rest by (auto simp: pbind_Inr consume_Inr pret_def)
    have "named_stream us3 \<and> (\<exists>as. as \<noteq> [] \<and> list_all canonical as \<and> ss = map render_type as)"
      by (rule type_atom_loop_renders [OF _ name(2) args]) (rule Suc.IH)
    then obtain as where as: "named_stream us3" "as \<noteq> []" "list_all canonical as" "ss = map render_type as"
      by blast
    then show ?thesis
      using s name(1) by (intro conjI exI [of _ "GenericType (text_of t) as"]) (auto simp: named_stream_def)
  qed
qed (simp add: too_deep_def pfail_def)

lemma type_or_loop_renders:
  "named_stream ts \<Longrightarrow> type_or_loop k d ts = Inr (ss, us) \<Longrightarrow> \<exists>as. list_all canonical as \<and> ss = map render_type as"
proof (induction k arbitrary: ts ss)
  case (Suc k)
  obtain m us1 where m: "p_match [T_OR] ts = Inr (m, us1)"
    and rest: "(if m = None then pret [] else pbind (type_atom d) (\<lambda>x. pbind (type_or_loop k d) (\<lambda>xs. pret (x # xs)))) us1 = Inr (ss, us)"
    using Suc.prems(2) by (auto simp: pbind_Inr)
  have us1: "named_stream us1"
    using Suc.prems(1) m by (auto simp: match_Inr named_stream_def split: option.splits)
  show ?case
  proof (cases m)
    case (Some o')
    then obtain x us2 xs where x: "type_atom d us1 = Inr (x, us2)" "type_or_loop k d us2 = Inr (xs, us)" "ss = x # xs"
      using rest by (auto simp: pbind_Inr pret_def)
    then obtain t as where "canonical t" "x = render_type t" "list_all canonical as" "xs = map render_type as"
      using type_atom_renders [OF us1 x(1)] Suc.IH [OF _ x(2)] by blast
    then show ?thesis
      using x(3) by (intro exI [of _ "t # as"]) auto
  qed (use rest in \<open>auto simp: pret_def\<close>)
qed (simp add: too_deep_def pfail_def)

lemma parse_rendered: "list_all canonical as \<Longrightarrow> rmap parse_type_text (map render_type as) = Inr as"
  by (induction as) (auto simp: parse_render)

lemma symbol_not_type: "(s, T_TYPE) \<notin> set SYMBOLS"
proof -
  have "list_all (\<lambda>(s, ty). ty \<noteq> T_TYPE) SYMBOLS" by code_simp
  then show ?thesis by (auto simp: list_all_iff)
qed

lemma word_type_name:
  assumes "text_type s T_TYPE" "s \<noteq> []"
  shows "type_name s"
proof -
  have "list_all identifier_char s" "word_type s = T_TYPE"
    using assms symbol_not_type by (auto simp: text_type_def)
  moreover have "word_type ''_'' \<noteq> T_TYPE" by code_simp
  ultimately show ?thesis
    using assms(2) by (auto simp: type_name_def)
qed

lemma named_stream_tokenize:
  assumes "tokenize source keep_comments = Inr ts"
  shows "named_stream ts"
proof -
  obtain body eof "is" where "list_all2 (token_at source) ts is"
    using tokenize_lexed [OF assms] by metis
  moreover have "type_name (text_of t)" if "token_at source t i" "tk_type t = T_TYPE" for t i
    using that by (auto simp: token_at_def token_meaning_def slice_at_def word_type_name split: token_value.splits)
  ultimately show ?thesis
    unfolding named_stream_def by (metis in_set_conv_nth list_all2_conv_all_nth)
qed

text \<open>
  C26. Type annotations are well formed: wherever in a scanned source the parser reads a type
  annotation, \<open>parse_type_ref\<close> later turns it into a canonical structural type; its
  \<open>ValueError\<close>s (unbalanced brackets, empty names, no arguments) cannot occur.
\<close>

theorem annotations_parse:
  assumes "tokenize source False = Inr (pre @ ts)" "p_type_ref ts = Inr (r, rest)"
  shows "\<exists>t. parse_type_ref (Some r) = Inr t \<and> canonical t"
proof -
  have "named_stream ts"
    using named_stream_tokenize [OF assms(1)] by (simp add: named_stream_def)
  moreover obtain name us names where r: "type_atom (length ts) ts = Inr (name, us)"
      "type_or_loop (length ts) (length ts) us = Inr (names, rest)" "tr_names r = name # names"
    using assms(2) by (auto simp: p_type_ref_def pbind_Inr pret_def p_peek_def split: list.splits)
  ultimately obtain t as where "canonical t" "name = render_type t" "list_all canonical as" "names = map render_type as"
    using type_atom_renders type_or_loop_renders by metis
  then have "rmap parse_type_text (tr_names r) = Inr (t # as)" "list_all canonical (t # as)"
    using parse_rendered [of "t # as"] by (simp_all add: r(3))
  then show ?thesis
    using canonical_union_type by (auto simp: parse_type_ref_def)
qed

theorem annotations_parse_witness:
  "\<exists>ts r rest t. tokenize ''fn f(x: Map<String, List<Int>> or Error) {}'' False = Inr (take 5 ts @ drop 5 ts)
     \<and> p_type_ref (drop 5 ts) = Inr (r, rest) \<and> parse_type_ref (Some r) = Inr t \<and> canonical t"
proof -
  have "(case tokenize ''fn f(x: Map<String, List<Int>> or Error) {}'' False of
      Inl _ \<Rightarrow> False | Inr ts \<Rightarrow> is_ok (p_type_ref (drop 5 ts)))" by code_simp
  then obtain ts r rest where ts: "tokenize ''fn f(x: Map<String, List<Int>> or Error) {}'' False = Inr (take 5 ts @ drop 5 ts)"
      "p_type_ref (drop 5 ts) = Inr (r, rest)"
    by (auto simp: is_ok_iff split: sum.splits)
  with annotations_parse [OF ts] show ?thesis by blast
qed

section \<open>Inference\<close>

text \<open>Every canonical type is assignable to itself.\<close>

lemma assignable_refl: "canonical t \<Longrightarrow> is_assignable t t"
proof (induction t rule: render_type.induct)
  case (4 n as)
  then show ?case by (simp add: is_assignable.simps)
next
  case (5 os)
  have "is_assignable (UnionType os) u" if u: "u \<in> set os" for u
  proof -
    have "simple u" "is_assignable u u"
      using 5 u by (auto simp: list_all_iff)
    then show ?thesis
      using u by (cases u) (auto simp: is_assignable.simps [of "UnionType os"] list_ex_iff)
  qed
  then show ?case
    by (simp add: is_assignable.simps [of "UnionType os" "UnionType os"] list_all_iff)
qed (simp_all add: is_assignable.simps)

text \<open>Patterns without unions, and bindings to known canonical types.\<close>

fun union_free :: "type_node \<Rightarrow> bool" where
  "union_free (GenericType n as) = list_all union_free as"
| "union_free (UnionType os) = False"
| "union_free t = True"

definition proper :: "bindings \<Rightarrow> bool" where
  "proper \<sigma> \<longleftrightarrow> (\<forall>n t. map_of \<sigma> n = Some t \<longrightarrow> canonical t \<and> t \<noteq> UnknownType)"

text \<open>\<open>found \<sigma> m vs\<close>: the mapping binds exactly the variables \<open>vs\<close>, as \<open>\<sigma>\<close> does.\<close>

definition found :: "bindings \<Rightarrow> bindings \<Rightarrow> string set \<Rightarrow> bool" where
  "found \<sigma> m vs \<longleftrightarrow> fst ` set m = vs \<and> (\<forall>n \<in> vs. map_of m n = map_of \<sigma> n)"

lemma found_insert:
  assumes "found \<sigma> m vs" "n \<notin> vs" "map_of \<sigma> n = Some t"
  shows "found \<sigma> (m @ [(n, t)]) (insert n vs)"
proof -
  have "map_of m n = None"
    using assms(1,2) by (auto simp: found_def map_of_eq_None_iff)
  then have "map_of (m @ [(n, t)]) j = map_of \<sigma> j" if "j = n \<or> j \<in> vs" for j
    using that assms by (cases "j = n") (auto simp: found_def map_add_def split: option.split)
  then show ?thesis
    using assms(1) by (auto simp: found_def)
qed

lemma infer_instance:
  assumes "proper \<sigma>"
  shows "union_free p \<Longrightarrow> set (unresolved_type_variables p) \<subseteq> dom (map_of \<sigma>) \<Longrightarrow> found \<sigma> m vs
    \<Longrightarrow> \<exists>m'. infer_pattern subject location m (p, substitute_type p \<sigma>) = Inr m' \<and> found \<sigma> m' (vs \<union> set (unresolved_type_variables p))"
proof (induction p arbitrary: m vs rule: render_type.induct)
  case (3 n)
  then obtain t where t: "map_of \<sigma> n = Some t" by auto
  then have ok: "canonical t" "t \<noteq> UnknownType"
    using assms by (auto simp: proper_def)
  show ?case
  proof (cases "n \<in> vs")
    case True
    then have "map_of m n = Some t"
      using 3(3) t by (simp add: found_def)
    then show ?thesis
      using True t ok 3(3) assignable_refl [OF ok(1)]
      by (intro exI [of _ m]) (simp add: infer_pattern.simps same_inference_def insert_absorb)
  next
    case False
    then have "map_of m n = None"
      using 3(3) by (auto simp: found_def map_of_eq_None_iff)
    then show ?thesis
      using t ok found_insert [OF 3(3) False t] by (intro exI [of _ "m @ [(n, t)]"]) (simp add: infer_pattern.simps)
  qed
next
  case (4 n as)
  have "\<exists>m'. rfold (\<lambda>m x. infer_pattern subject location m x) m (zip bs (map (\<lambda>a. substitute_type a \<sigma>) bs)) = Inr m'
      \<and> found \<sigma> m' (vs \<union> set (concat (map unresolved_type_variables bs)))"
    if "set bs \<subseteq> set as" "found \<sigma> m vs" for bs m vs
    using that
  proof (induction bs arbitrary: m vs)
    case (Cons b bs)
    have "union_free b" "set (unresolved_type_variables b) \<subseteq> dom (map_of \<sigma>)"
      using 4(2,3) Cons.prems(1) by (auto simp: list_all_iff)
    then obtain m1 where m1: "infer_pattern subject location m (b, substitute_type b \<sigma>) = Inr m1"
        "found \<sigma> m1 (vs \<union> set (unresolved_type_variables b))"
      using 4(1) [of b m vs] Cons.prems by auto
    obtain m2 where "rfold (\<lambda>m x. infer_pattern subject location m x) m1 (zip bs (map (\<lambda>a. substitute_type a \<sigma>) bs)) = Inr m2"
        "found \<sigma> m2 ((vs \<union> set (unresolved_type_variables b)) \<union> set (concat (map unresolved_type_variables bs)))"
      using Cons.IH [OF _ m1(2)] Cons.prems(1) by auto
    then show ?case
      using m1(1) by (intro exI [of _ m2]) (simp add: Un_assoc)
  qed simp
  from this [of as m vs] 4(4) show ?case
    by (simp add: infer_pattern.simps [of _ _ _ "GenericType n as"])
qed (auto simp: infer_pattern.simps intro!: exI [of _ m])

text \<open>
  C25. Generic calls are inferred: let the parameter types of a function be free of unions, and let
  every argument have the type that its parameter has under some assignment of known types to the
  type variables. Then the inference succeeds, binds exactly the type variables of the parameters,
  and finds exactly that assignment.
\<close>

theorem inference_complete:
  assumes "length (fn_parameters f) = length patterns"
    and "\<forall>i < length patterns. function_type f (Some (pm_type_ref (fn_parameters f ! i))) = Inr (patterns ! i)"
    and "list_all union_free patterns" "proper \<sigma>"
    and "set (concat (map unresolved_type_variables patterns)) \<subseteq> dom (map_of \<sigma>)"
  shows "\<exists>m. infer_function_mapping f (map (\<lambda>p. substitute_type p \<sigma>) patterns) location = Inr m
    \<and> fst ` set m = set (concat (map unresolved_type_variables patterns))
    \<and> (\<forall>n \<in> fst ` set m. map_of m n = map_of \<sigma> n)"
proof -
  let ?step = "\<lambda>mapping (index, parameter, actual).
          rbind (function_type f (Some (pm_type_ref parameter))) (\<lambda>pattern.
            infer_pattern (fn_name f @ '' cagrisinin '' @ str_int index @ ''. argumani'') location mapping (pattern, actual))"
  have "\<exists>m'. rfold ?step m (zip is (zip ps (map (\<lambda>p. substitute_type p \<sigma>) qs))) = Inr m'
      \<and> found \<sigma> m' (vs \<union> set (concat (map unresolved_type_variables qs)))"
    if "list_all2 (\<lambda>p q. function_type f (Some (pm_type_ref p)) = Inr q) ps qs" "set qs \<subseteq> set patterns" "found \<sigma> m vs"
      "length is = length qs" for ps qs m vs and "is" :: "int list"
    using that
  proof (induction ps qs arbitrary: m vs "is" rule: list_all2_induct)
    case (Cons p ps q qs)
    obtain i is' where i: "is = i # is'" using Cons.prems(3) by (cases "is") auto
    have "union_free q" "set (unresolved_type_variables q) \<subseteq> dom (map_of \<sigma>)"
      using assms(3,5) Cons.prems(1) by (auto simp: list_all_iff)
    then obtain m1 where m1: "infer_pattern (fn_name f @ '' cagrisinin '' @ str_int i @ ''. argumani'') location m (q, substitute_type q \<sigma>) = Inr m1"
        "found \<sigma> m1 (vs \<union> set (unresolved_type_variables q))"
      using infer_instance [OF assms(4) _ _ Cons.prems(2)] by blast
    obtain m2 where m2: "rfold ?step m1 (zip is' (zip ps (map (\<lambda>p. substitute_type p \<sigma>) qs))) = Inr m2"
        "found \<sigma> m2 ((vs \<union> set (unresolved_type_variables q)) \<union> set (concat (map unresolved_type_variables qs)))"
      using Cons.IH [OF _ m1(2), of is'] Cons.prems i by auto
    have "rfold ?step m (zip is (zip (p # ps) (map (\<lambda>p. substitute_type p \<sigma>) (q # qs)))) = Inr m2"
      using m1(1) m2(1) Cons.hyps(1) by (simp add: i)
    then show ?case
      using m2(2) by (intro exI [of _ m2]) (simp add: Un_assoc)
  qed simp
  from this [of "fn_parameters f" patterns "[]" "{}" "map int [1..<Suc (length patterns)]"] assms(1,2)
  obtain m where m: "rfold ?step [] (zip (map int [1..<Suc (length patterns)]) (zip (fn_parameters f) (map (\<lambda>p. substitute_type p \<sigma>) patterns))) = Inr m"
      "found \<sigma> m (set (concat (map unresolved_type_variables patterns)))"
    by (force simp: list_all2_conv_all_nth found_def simp del: upt_Suc)
  have "infer_function_mapping f (map (\<lambda>p. substitute_type p \<sigma>) patterns) location = Inr m"
    unfolding m(1) [symmetric] by (simp add: infer_function_mapping_def assms(1) del: upt_Suc)
  then show ?thesis
    using m(2) unfolding found_def by metis
qed

definition pair_function :: function_declaration where
  "pair_function =
     (let here = \<lparr>loc_line = 1, loc_column = 1\<rparr>;
          param = (\<lambda>n t. \<lparr>pm_name = n, pm_type_ref = \<lparr>tr_names = [t], tr_location = here\<rparr>, pm_location = here\<rparr>)
      in \<lparr>fn_name = ''pair'', fn_parameters = [param ''keys'' ''List<K>'', param ''items'' ''Map<K, List<V>>''],
          fn_return_type = None, fn_body = Block [], fn_location = here, fn_is_pure = False,
          fn_type_parameters = [''K'', ''V''], fn_is_transition = False\<rparr>)"

theorem inference_complete_witness:
  "\<exists>m. infer_function_mapping pair_function
        [GenericType ''List'' [NamedType ''String''], GenericType ''Map'' [NamedType ''String'', GenericType ''List'' [NamedType ''Int'']]]
        \<lparr>loc_line = 1, loc_column = 1\<rparr> = Inr m
    \<and> map_of m ''K'' = Some (NamedType ''String'') \<and> map_of m ''V'' = Some (NamedType ''Int'')"
proof -
  let ?ps = "[GenericType ''List'' [TypeVariable ''K''], GenericType ''Map'' [TypeVariable ''K'', GenericType ''List'' [TypeVariable ''V'']]]"
  let ?s = "[(''K'', NamedType ''String''), (''V'', NamedType ''Int'')]"
  have "length (fn_parameters pair_function) = length ?ps"
    "list_all (\<lambda>i. function_type pair_function (Some (pm_type_ref (fn_parameters pair_function ! i))) = Inr (?ps ! i)) [0..<length ?ps]"
    "list_all union_free ?ps" "canonical (NamedType ''String'')" "canonical (NamedType ''Int'')"
    by code_simp+
  note ok = this
  have shape: "\<forall>i < length ?ps. function_type pair_function (Some (pm_type_ref (fn_parameters pair_function ! i))) = Inr (?ps ! i)"
    using ok(2) by (simp only: list_all_iff set_upt) auto
  have "proper ?s"
    using ok(4,5) by (auto simp: proper_def)
  moreover have vars: "set (concat (map unresolved_type_variables ?ps)) = {''K'', ''V''}" by auto
  moreover have "{''K'', ''V''} \<subseteq> dom (map_of ?s)" by auto
  ultimately obtain m where "infer_function_mapping pair_function (map (\<lambda>p. substitute_type p ?s) ?ps) \<lparr>loc_line = 1, loc_column = 1\<rparr> = Inr m"
      "fst ` set m = {''K'', ''V''}" "\<forall>n \<in> fst ` set m. map_of m n = map_of ?s n"
    using inference_complete [OF ok(1) shape ok(3), of ?s] by metis
  moreover have "map (\<lambda>p. substitute_type p ?s) ?ps =
      [GenericType ''List'' [NamedType ''String''], GenericType ''Map'' [NamedType ''String'', GenericType ''List'' [NamedType ''Int'']]]"
    by simp
  ultimately show ?thesis
    by (intro exI [of _ m]) simp
qed

end
