(* ===== verification/Sensitivity.thy ===== *)
theory Sensitivity
  imports Type_Contracts
begin

text \<open>
  The sensitivity check of \<open>TypeContractValidator\<close>: \<open>is_sensitive\<close> is compared with reachability
  in the graph of the types, in which a type leads to its alternatives, its arguments and the types of
  the fields and payloads of its declaration. The check is exact where it answers, it answers when no
  declaration has type parameters, and there are generic declarations on which it never answers.
\<close>

section \<open>The graph of types\<close>

inductive leads_to :: "contracts \<Rightarrow> type_node \<Rightarrow> type_node \<Rightarrow> bool" for c where
  alternative: "u \<in> set os \<Longrightarrow> leads_to c (UnionType os) u"
| argument: "u \<in> set as \<Longrightarrow> leads_to c (GenericType n as) u"
| field: "n \<notin> set CAPABILITY_TYPES \<Longrightarrow> generic_declaration c n = Some (ps, rs) \<Longrightarrow> r \<in> set rs
    \<Longrightarrow> declaration_type ps (Some r) = Inr u \<Longrightarrow> leads_to c (NamedType n) u"
| instance_field: "generic_declaration c n = Some (ps, rs) \<Longrightarrow> r \<in> set rs
    \<Longrightarrow> declaration_type ps (Some r) = Inr u \<Longrightarrow> leads_to c (GenericType n as) (substitute_type u (rev (zip ps as)))"

inductive_cases leads_to_union [elim!]: "leads_to c (UnionType os) u"
inductive_cases leads_to_generic: "leads_to c (GenericType n as) u"
inductive_cases leads_to_named: "leads_to c (NamedType n) u"
inductive_cases leads_to_unknown [elim!]: "leads_to c UnknownType u"
inductive_cases leads_to_variable [elim!]: "leads_to c (TypeVariable n) u"

definition capability :: "type_node \<Rightarrow> bool" where
  "capability t \<longleftrightarrow> (\<exists>n \<in> set CAPABILITY_TYPES. t = NamedType n)"

definition carries :: "contracts \<Rightarrow> type_node \<Rightarrow> bool" where
  "carries c t \<longleftrightarrow> (\<exists>u. (leads_to c)\<^sup>*\<^sup>* t u \<and> capability u)"

text \<open>\<open>carries_in c k t\<close>: a capability is at most \<open>k\<close> steps away.\<close>

definition carries_in :: "contracts \<Rightarrow> nat \<Rightarrow> type_node \<Rightarrow> bool" where
  "carries_in c k t \<longleftrightarrow> (\<exists>j \<le> k. \<exists>u. (leads_to c ^^ j) t u \<and> capability u)"

lemma carries_iff: "carries c t \<longleftrightarrow> (\<exists>k. carries_in c k t)"
  by (auto simp: carries_def carries_in_def rtranclp_power)

lemma carries_in_mono: "carries_in c j t \<Longrightarrow> j \<le> k \<Longrightarrow> carries_in c k t"
  by (auto simp: carries_in_def intro: le_trans)

lemma carries_in_0: "carries_in c 0 t \<longleftrightarrow> capability t"
  by (simp add: carries_in_def)

lemma carries_in_Suc: "carries_in c (Suc k) t \<longleftrightarrow> capability t \<or> (\<exists>u. leads_to c t u \<and> carries_in c k u)"
proof
  assume "carries_in c (Suc k) t"
  then obtain j u where j: "j \<le> Suc k" "(leads_to c ^^ j) t u" "capability u"
    by (auto simp: carries_in_def)
  show "capability t \<or> (\<exists>u. leads_to c t u \<and> carries_in c k u)"
  proof (cases j)
    case (Suc i)
    then obtain v where "leads_to c t v" "(leads_to c ^^ i) v u"
      using j(2) by (metis relpowp_Suc_D2)
    then show ?thesis
      using j Suc by (auto simp: carries_in_def)
  qed (use j in auto)
next
  assume "capability t \<or> (\<exists>u. leads_to c t u \<and> carries_in c k u)"
  then show "carries_in c (Suc k) t"
  proof
    assume "\<exists>u. leads_to c t u \<and> carries_in c k u"
    then show ?thesis
      unfolding carries_in_def by (metis Suc_le_mono relpowp_Suc_I2)
  qed (auto simp: carries_in_def)
qed

section \<open>One step of the check\<close>

lemma sensitive_step:
  assumes "is_sensitive c (Suc n) t seen = Inr True"
  shows "capability t \<or> (\<exists>u seen'. leads_to c t u \<and> is_sensitive c n u seen' = Inr True)"
proof (cases t)
  case (NamedType name)
  then consider "capability t"
    | ps rs r u where "name \<notin> set CAPABILITY_TYPES" "generic_declaration c name = Some (ps, rs)" "r \<in> set rs"
        "declaration_type ps (Some r) = Inr u" "is_sensitive c n u (name # seen) = Inr True"
    using assms by (auto simp: capability_def rbind_eq_Inr split: if_splits option.splits dest!: rany_True)
  then show ?thesis
    by cases (use NamedType in \<open>blast intro: leads_to.field\<close>)+
next
  case (GenericType name as)
  then consider "rany (\<lambda>a. is_sensitive c n a seen) as = Inr True"
    | ps rs where "generic_declaration c name = Some (ps, rs)"
        "rany (\<lambda>r. rbind (declaration_type ps (Some r)) (\<lambda>p.
           is_sensitive c n (substitute_type p (rev (zip ps as))) (render_type t # seen))) rs = Inr True"
    using assms by (auto simp: rbind_eq_Inr Let_def split: if_splits option.splits)
  then show ?thesis
  proof cases
    case 1
    then show ?thesis
      by (auto simp: GenericType dest!: rany_True intro: leads_to.argument)
  next
    case 2
    then obtain r u where "r \<in> set rs" "declaration_type ps (Some r) = Inr u"
        "is_sensitive c n (substitute_type u (rev (zip ps as))) (render_type t # seen) = Inr True"
      by (auto simp: rbind_eq_Inr dest!: rany_True)
    then show ?thesis
      using leads_to.instance_field [OF 2(1)] GenericType by blast
  qed
qed (use assms in \<open>auto simp: rbind_eq_Inr dest!: rany_True intro: leads_to.intros\<close>)

lemma insensitive_step:
  assumes "is_sensitive c (Suc n) t seen = Inr False" "render_type t \<notin> set seen"
  shows "\<not> capability t \<and> (\<forall>u. leads_to c t u
    \<longrightarrow> (\<exists>seen'. set seen' \<subseteq> insert (render_type t) (set seen) \<and> is_sensitive c n u seen' = Inr False))"
proof (cases t)
  case (NamedType name)
  then have "name \<notin> set CAPABILITY_TYPES"
    using assms by (auto split: if_splits)
  moreover have "is_sensitive c n u (name # seen) = Inr False" if "leads_to c t u" for u
    using that assms NamedType by (fastforce simp: rany_False elim!: leads_to_named split: if_splits)
  ultimately show ?thesis
    by (auto simp: NamedType capability_def intro!: exI [of _ "name # seen"])
next
  case (GenericType name as)
  then have args: "is_sensitive c n a seen = Inr False" if "a \<in> set as" for a
    using that assms by (auto simp: rbind_eq_Inr rany_False split: if_splits)
  have fields: "is_sensitive c n (substitute_type u (rev (zip ps as))) (render_type t # seen) = Inr False"
    if "generic_declaration c name = Some (ps, rs)" "r \<in> set rs" "declaration_type ps (Some r) = Inr u" for ps rs r u
    using that assms GenericType by (auto simp: rbind_eq_Inr rany_False Let_def split: if_splits)
  have "\<exists>seen'. set seen' \<subseteq> insert (render_type t) (set seen) \<and> is_sensitive c n u seen' = Inr False"
    if "leads_to c t u" for u
    using that [unfolded GenericType] by (cases rule: leads_to_generic)
      (use args fields in \<open>auto intro: exI [of _ seen] exI [of _ "render_type t # seen"]\<close>)
  then show ?thesis
    by (simp add: GenericType capability_def)
qed (use assms in \<open>auto simp: capability_def rany_False\<close>)

lemma sensitive_sound: "is_sensitive c n t seen = Inr True \<Longrightarrow> carries c t"
proof (induction n arbitrary: t seen)
  case (Suc n)
  from sensitive_step [OF Suc.prems] show ?case
  proof
    assume "\<exists>u seen'. leads_to c t u \<and> is_sensitive c n u seen' = Inr True"
    then obtain u where u: "leads_to c t u" "carries c u"
      using Suc.IH by blast
    then show ?thesis
      by (auto simp: carries_def intro: converse_rtranclp_into_rtranclp)
  qed (auto simp: carries_def)
qed simp

text \<open>
  A \<open>False\<close> can be trusted on a set of types that is closed under the steps and on which the keys of
  \<open>seen\<close> are unambiguous: the shortest way to a capability never comes back to a type under
  investigation.
\<close>

lemma sensitive_complete:
  assumes closed: "\<And>s u. s \<in> S \<Longrightarrow> leads_to c s u \<Longrightarrow> u \<in> S"
    and keys: "inj_on render_type S"
  shows "t \<in> S \<Longrightarrow> carries_in c k t \<Longrightarrow> (\<And>s. s \<in> S \<Longrightarrow> render_type s \<in> set seen \<Longrightarrow> \<not> carries_in c k s)
    \<Longrightarrow> is_sensitive c n t seen \<noteq> Inr False"
proof (induction k arbitrary: t seen n)
  case 0
  then show ?case
    using insensitive_step [of c "n - 1" t seen] by (cases n) (auto simp: carries_in_0)
next
  case (Suc k)
  have fresh: "render_type t \<notin> set seen"
    using Suc.prems by blast
  show ?case
  proof (cases "carries_in c k t")
    case True
    then show ?thesis
      using Suc.IH [OF Suc.prems(1) True] Suc.prems(3) carries_in_mono [of c k _ "Suc k"] by auto
  next
    case False
    then have "\<not> capability t"
      using carries_in_mono [of c 0 t k] by (auto simp: carries_in_0)
    then obtain u where u: "leads_to c t u" "carries_in c k u"
      using Suc.prems(2) by (auto simp: carries_in_Suc)
    show ?thesis
    proof (cases n)
      case (Suc m)
      have no: "\<not> carries_in c k s" if "s \<in> S" "render_type s \<in> insert (render_type t) (set seen)" for s
        using that False Suc.prems(1,3) inj_onD [OF keys, of s t] carries_in_mono [of c k s "Suc k"] by auto
      have "is_sensitive c m u seen' \<noteq> Inr False" if "set seen' \<subseteq> insert (render_type t) (set seen)" for seen'
        using Suc.IH [OF closed [OF Suc.prems(1) u(1)] u(2), of seen' m] no that by blast
      then show ?thesis
        using insensitive_step [OF _ fresh, of c m] u(1) \<open>n = Suc m\<close> by blast
    qed simp
  qed
qed

section \<open>Well formed declarations\<close>

text \<open>
  What \<open>validate_type\<close> establishes of the types of a program: a declared name has as many
  arguments as its declaration has parameters.
\<close>

fun arity_ok :: "contracts \<Rightarrow> type_node \<Rightarrow> bool" where
  "arity_ok c (NamedType n) = (case generic_declaration c n of None \<Rightarrow> True | Some (ps, _) \<Rightarrow> ps = [])"
| "arity_ok c (GenericType n as) =
     ((case generic_declaration c n of None \<Rightarrow> True | Some (ps, _) \<Rightarrow> length as = length ps) \<and> list_all (arity_ok c) as)"
| "arity_ok c (UnionType os) = list_all (arity_ok c) os"
| "arity_ok c t = True"

definition declared_ok :: "contracts \<Rightarrow> bool" where
  "declared_ok c \<longleftrightarrow> (\<forall>n ps rs. generic_declaration c n = Some (ps, rs) \<longrightarrow>
     (\<forall>r \<in> set rs. \<exists>t. parse_type_ref (Some r) = Inr t \<and> canonical t \<and> arity_ok c (bind_type_variables t ps)))"

text \<open>Types over the variables \<open>vs\<close>, and their instances.\<close>

fun pattern_over :: "string set \<Rightarrow> type_node \<Rightarrow> bool" where
  "pattern_over vs (NamedType n) = type_name n"
| "pattern_over vs (TypeVariable n) = (n \<in> vs)"
| "pattern_over vs (GenericType n as) = (type_name n \<and> as \<noteq> [] \<and> list_all (pattern_over vs) as)"
| "pattern_over vs (UnionType os) = list_all (pattern_over vs) os"
| "pattern_over vs UnknownType = True"

lemma union_type_all:
  assumes "P UnknownType" "\<And>us. P (UnionType us) \<longleftrightarrow> list_all P us" "list_all P ts"
  shows "P (union_type ts)"
proof -
  have alternatives: "list_all P (alternatives u)" if "P u" for u
  proof (cases u)
    case (UnionType us)
    then show ?thesis using that assms(2) [of us] by simp
  qed (use that in simp_all)
  have "list_all P (flattened us)" if "list_all P us" for us
    using that by (induction us) (auto simp: flattened_def alternatives)
  then have "list_all P (options_of ts)"
    using assms(3) set_first_by [of render_type "flattened ts"] by (auto simp: options_of_def list_all_iff)
  then show ?thesis
    using assms(1) assms(2) [of "options_of ts"] by (auto simp: union_type_options split: list.splits)
qed

lemma pattern_bound: "canonical t \<Longrightarrow> pattern_over (set ps) (bind_type_variables t ps)"
proof (induction t rule: render_type.induct)
  case (5 os)
  show ?case
    unfolding bind_type_variables.simps
    by (rule union_type_all [of "pattern_over (set ps)"]) (use 5 in \<open>auto simp: list_all_iff\<close>)
qed (auto simp: list_all_iff)

lemma canonical_instance:
  "pattern_over (dom (map_of m)) t \<Longrightarrow> (\<And>n u. map_of m n = Some u \<Longrightarrow> canonical u) \<Longrightarrow> canonical (substitute_type t m)"
proof (induction t rule: render_type.induct)
  case (5 os)
  show ?case
    unfolding substitute_type.simps by (rule canonical_union_type) (use 5 in \<open>auto simp: list_all_iff\<close>)
qed (auto simp: list_all_iff)

lemma arity_ok_instance:
  "arity_ok c t \<Longrightarrow> (\<And>n u. map_of m n = Some u \<Longrightarrow> arity_ok c u) \<Longrightarrow> arity_ok c (substitute_type t m)"
proof (induction t rule: render_type.induct)
  case (5 os)
  show ?case
    unfolding substitute_type.simps by (rule union_type_all [of "arity_ok c"]) (use 5 in \<open>auto simp: list_all_iff\<close>)
qed (auto simp: list_all_iff split: option.splits)

lemma bind_none: "canonical t \<Longrightarrow> bind_type_variables t [] = t"
proof (induction t rule: render_type.induct)
  case (5 os)
  then have "map (\<lambda>x. bind_type_variables x []) os = os"
    by (auto simp: list_all_iff intro: map_idI)
  then show ?case
    using union_type_canonical [OF 5(2)] by simp
qed (auto simp: list_all_iff intro: map_idI)

text \<open>The well formed types are closed under the steps, and their renderings are unambiguous.\<close>

definition known_types :: "contracts \<Rightarrow> type_node set" where
  "known_types c = {t. canonical t \<and> arity_ok c t}"

lemma field_type:
  assumes "declared_ok c" "generic_declaration c n = Some (ps, rs)" "r \<in> set rs" "declaration_type ps (Some r) = Inr u"
  shows "pattern_over (set ps) u" "arity_ok c u" "ps = [] \<Longrightarrow> canonical u"
proof -
  obtain t where t: "canonical t" "u = bind_type_variables t ps" "arity_ok c u"
    using assms unfolding declared_ok_def declaration_type_def by fastforce
  then show "pattern_over (set ps) u" "arity_ok c u" "ps = [] \<Longrightarrow> canonical u"
    using pattern_bound [OF t(1), of ps] bind_none [OF t(1)] by auto
qed

lemma known_types_closed:
  assumes "declared_ok c" "t \<in> known_types c" "leads_to c t u"
  shows "u \<in> known_types c"
  using assms(3)
proof cases
  case (field n ps rs r)
  moreover have "ps = []"
    using assms(2) field by (simp add: known_types_def)
  ultimately show ?thesis
    using field_type [OF assms(1)] by (simp add: known_types_def)
next
  case (instance_field n ps rs r p as)
  have args: "list_all canonical as" "list_all (arity_ok c) as" "length as = length ps"
    using assms(2) instance_field by (simp_all add: known_types_def)
  have bound: "canonical v \<and> arity_ok c v" if "map_of (rev (zip ps as)) m = Some v" for m v
    using map_of_SomeD [OF that] args by (auto simp: list_all_iff dest: set_zip_rightD)
  have "dom (map_of (rev (zip ps as))) = set ps"
    using args(3) by (simp add: dom_map_of_conv_image_fst) (metis list.set_map map_fst_zip)
  then have "pattern_over (dom (map_of (rev (zip ps as)))) p" "arity_ok c p"
    using field_type [OF assms(1)] instance_field by simp_all
  then show ?thesis
    using instance_field(2) bound canonical_instance arity_ok_instance by (simp add: known_types_def)
qed (use assms(2) in \<open>auto simp: known_types_def list_all_iff\<close>)

lemma known_types_keys: "inj_on render_type (known_types c)"
  by (auto simp: inj_on_def known_types_def intro: render_inj)

lemma sensitive_exact:
  assumes "declared_ok c" "canonical t" "arity_ok c t" "is_sensitive c n t [] = Inr b"
  shows "b \<longleftrightarrow> carries c t"
proof
  assume "carries c t"
  then obtain k where k: "carries_in c k t" by (auto simp: carries_iff)
  have "is_sensitive c n t [] \<noteq> Inr False"
    by (rule sensitive_complete [where S = "known_types c", OF known_types_closed [OF assms(1)] known_types_keys _ k])
      (use assms(2,3) in \<open>auto simp: known_types_def\<close>)
  then show b using assms(4) by simp
qed (use assms(4) sensitive_sound in auto)

section \<open>What the validator accepts\<close>

text \<open>The names of the built-in generic types are not declared again.\<close>

definition builtins_free :: "contracts \<Rightarrow> bool" where
  "builtins_free c \<longleftrightarrow> list_all (\<lambda>(n, _). generic_declaration c n = None) GENERIC_ARITY"

text \<open>All arguments of generic types inside a type.\<close>

fun hidden_types :: "type_node \<Rightarrow> type_node list" where
  "hidden_types (GenericType n as) = as @ concat (map hidden_types as)"
| "hidden_types (UnionType os) = concat (map hidden_types os)"
| "hidden_types t = []"

lemma validate_generic:
  assumes "validate_type c n (GenericType name as) location subject = Inr ()" "builtins_free c"
  shows "case generic_declaration c name of None \<Rightarrow> True | Some (ps, _) \<Rightarrow> length as = length ps"
    and "a \<in> set as \<Longrightarrow> validate_type c n a location subject = Inr () \<and> is_sensitive c n a [] = Inr False"
proof -
  have "map_of GENERIC_ARITY name = Some k \<Longrightarrow> generic_declaration c name = None" for k
    using assms(2) by (auto simp: builtins_free_def list_all_iff dest!: map_of_SomeD)
  then show "case generic_declaration c name of None \<Rightarrow> True | Some (ps, _) \<Rightarrow> length as = length ps"
    using assms(1) by (auto simp: Let_def semantic_error_def split: option.splits if_splits)
  have "rfor (\<lambda>a. validate_type c n a location subject) as = Inr ()" "rany (\<lambda>a. is_sensitive c n a []) as = Inr False"
    using assms(1) by (auto simp: Let_def semantic_error_def rbind_eq_Inr split: option.splits if_splits)
  then show "a \<in> set as \<Longrightarrow> validate_type c n a location subject = Inr () \<and> is_sensitive c n a [] = Inr False"
    by (auto simp: rany_False rfor_Inr)
qed

lemma validate_union:
  "validate_type c n (UnionType os) location subject = Inr () \<Longrightarrow> u \<in> set os \<Longrightarrow> validate_type c n u location subject = Inr ()"
  by (auto simp: rfor_Inr)

lemma validate_arity:
  assumes "builtins_free c"
  shows "validate_type c n t location subject = Inr () \<Longrightarrow> arity_ok c t"
proof (induction t rule: render_type.induct)
  case (4 name as)
  show ?case
    using validate_generic [OF 4(2) assms] 4(1) by (auto simp: list_all_iff)
next
  case (5 os)
  show ?case
    using validate_union [OF 5(2)] 5(1) by (auto simp: list_all_iff)
qed (auto simp: semantic_error_def split: option.splits if_splits list.splits)

lemma validate_hides_nothing:
  assumes "builtins_free c" "declared_ok c"
  shows "validate_type c n t location subject = Inr () \<Longrightarrow> canonical t \<Longrightarrow> u \<in> set (hidden_types t) \<Longrightarrow> \<not> carries c u"
proof (induction t rule: render_type.induct)
  case (4 name as)
  have args: "\<not> carries c a" if "a \<in> set as" for a
    using sensitive_exact [OF assms(2), of a n False] validate_generic(2) [OF 4(2) assms(1) that]
      validate_arity [OF assms(1)] 4(3) that by (auto simp: list_all_iff)
  consider "u \<in> set as" | a where "a \<in> set as" "u \<in> set (hidden_types a)"
    using 4(4) by auto
  then show ?case
    by cases (use args 4(1) 4(3) validate_generic(2) [OF 4(2) assms(1)] in \<open>auto simp: list_all_iff\<close>)
next
  case (5 os)
  then obtain x where x: "x \<in> set os" "u \<in> set (hidden_types x)" by auto
  show ?case
    by (rule 5(1) [OF x(1) validate_union [OF 5(2) x(1)] _ x(2)]) (use 5(3) x(1) in \<open>auto simp: list_all_iff\<close>)
qed auto

text \<open>The annotations of a program, and that they read as canonical types.\<close>

definition function_refs :: "function_declaration \<Rightarrow> type_ref list" where
  "function_refs f = map pm_type_ref (fn_parameters f) @ (case fn_return_type f of None \<Rightarrow> [] | Some r \<Rightarrow> [r])"

definition annotations :: "program \<Rightarrow> type_ref list" where
  "annotations p = concat (map (map sf_type_ref \<circ> st_fields) (pr_structs p)) @ concat (map payload_refs (pr_enums p))
     @ concat (map function_refs (pr_declarations p))"

definition well_annotated :: "program \<Rightarrow> bool" where
  "well_annotated p \<longleftrightarrow> list_all (\<lambda>r. case parse_type_ref (Some r) of Inl _ \<Rightarrow> False | Inr t \<Rightarrow> canonical t) (annotations p)"

lemma well_annotated_ref: "well_annotated p \<Longrightarrow> r \<in> set (annotations p) \<Longrightarrow> \<exists>t. parse_type_ref (Some r) = Inr t \<and> canonical t"
  unfolding well_annotated_def list_all_iff by (drule (1) bspec) (simp split: sum.splits)

lemma declared_in:
  assumes "generic_declaration (mk_contracts p []) n = Some (ps, rs)"
  obtains d where "d \<in> set (pr_structs p)" "ps = st_type_parameters d" "rs = map sf_type_ref (st_fields d)"
    | d where "d \<in> set (pr_enums p)" "ps = en_type_parameters d" "rs = payload_refs d"
  using assms by (fastforce simp: generic_declaration_def mk_contracts_def split: option.splits dest!: map_of_SomeD)

lemma finite_declared: "finite (dom (generic_declaration (mk_contracts p [])))"
proof -
  have "dom (generic_declaration (mk_contracts p [])) \<subseteq> st_name ` set (pr_structs p) \<union> en_name ` set (pr_enums p)"
    by (auto simp: generic_declaration_def mk_contracts_def split: option.splits dest!: map_of_SomeD)
  then show ?thesis
    by (rule finite_subset) simp
qed

lemma accepted_declared_ok:
  assumes "validate_program c n p = Inr ()" "c = mk_contracts p []" "builtins_free c" "well_annotated p"
  shows "declared_ok c"
  unfolding declared_ok_def
proof (intro allI impI ballI)
  fix name ps rs r
  assume decl: "generic_declaration c name = Some (ps, rs)" and r: "r \<in> set rs"
  have ok: "\<forall>d \<in> set (pr_structs p). validate_struct c n d = Inr ()" "\<forall>d \<in> set (pr_enums p). validate_enum c n d = Inr ()"
    using assms(1) by (auto simp: validate_program_def rbind_eq_Inr rfor_Inr)
  from decl [unfolded assms(2)]
  have "r \<in> set (annotations p) \<and> (\<exists>l s. rbind (declaration_type ps (Some r)) (\<lambda>t. validate_type c n t l s) = Inr ())"
  proof (cases rule: declared_in)
    case (1 d)
    then obtain f where f: "f \<in> set (st_fields d)" "r = sf_type_ref f"
      using r by auto
    then show ?thesis
      using 1 ok(1) by (force simp: annotations_def validate_struct_def rbind_eq_Inr rfor_Inr)
  next
    case (2 d)
    then obtain v where v: "v \<in> set (en_variants d)" "ev_payload_type v = Some r"
      using r by (auto simp: payload_refs_def split: option.splits)
    then have "rbind (declaration_type ps (Some r)) (\<lambda>t. validate_type c n t (ev_location v) (en_name d @ ''.'' @ ev_name v @ '' payload'')) = Inr ()"
      using 2 ok(2) by (force simp: validate_enum_def rbind_eq_Inr rfor_Inr split: option.splits)
    then show ?thesis
      using 2 r by (auto simp: annotations_def)
  qed
  then obtain t where "parse_type_ref (Some r) = Inr t" "canonical t" "arity_ok c (bind_type_variables t ps)"
    using well_annotated_ref [OF assms(4)] validate_arity [OF assms(3)]
    by (fastforce simp: declaration_type_def rbind_eq_Inr)
  then show "\<exists>t. parse_type_ref (Some r) = Inr t \<and> canonical t \<and> arity_ok c (bind_type_variables t ps)"
    by blast
qed

lemma accepted_function_type:
  assumes "validate_program c n p = Inr ()" "f \<in> set (pr_declarations p)" "r \<in> set (function_refs f)"
  shows "\<exists>t l s. function_type f (Some r) = Inr t \<and> validate_type c n t l s = Inr ()"
proof -
  have "validate_function c n f = Inr ()"
    using assms(1,2) by (simp add: validate_program_def rbind_eq_Inr rfor_Inr)
  then have parts: "\<forall>q \<in> set (fn_parameters f). \<exists>l s. rbind (function_type f (Some (pm_type_ref q))) (\<lambda>t. validate_type c n t l s) = Inr ()"
    "\<And>r. fn_return_type f = Some r \<Longrightarrow> \<exists>l s. rbind (function_type f (Some r)) (\<lambda>t. validate_type c n t l s) = Inr ()"
    by (auto simp: validate_function_def rfor_Inr semantic_error_def rbind_eq_Inr split: if_splits) blast+
  then have "\<exists>l s. rbind (function_type f (Some r)) (\<lambda>t. validate_type c n t l s) = Inr ()"
    using assms(3) by (cases "fn_return_type f") (auto simp: function_refs_def)
  then show ?thesis
    by (auto simp: rbind_eq_Inr)
qed


text \<open>
  The witness and the examples below are programs of the language:
  \<open>struct Vault { key: DiskReadCaps, next: Option<Int> } fn f(x: List<Map<String, Int>>, v: Vault) { }\<close> and
  \<open>struct P<T> { next: P<List<T>> } fn f(x: List<P<Int>>) { }\<close>.
\<close>

definition at1 :: "int \<Rightarrow> source_location" where
  "at1 column = \<lparr>loc_line = 1, loc_column = column\<rparr>"

definition one_struct :: "string \<Rightarrow> string list \<Rightarrow> (string \<times> string) list \<Rightarrow> (string \<times> string) list \<Rightarrow> program" where
  "one_struct name vars members params =
     \<lparr>pr_declarations =
        [\<lparr>fn_name = ''f'',
          fn_parameters = map (\<lambda>(x, t). \<lparr>pm_name = x, pm_type_ref = \<lparr>tr_names = [t], tr_location = at1 42\<rparr>, pm_location = at1 39\<rparr>) params,
          fn_return_type = None, fn_body = Block [], fn_location = at1 34, fn_is_pure = False, fn_type_parameters = [],
          fn_is_transition = False\<rparr>],
      pr_structs =
        [\<lparr>st_name = name,
          st_fields = map (\<lambda>(x, t). \<lparr>sf_name = x, sf_type_ref = \<lparr>tr_names = [t], tr_location = at1 21\<rparr>, sf_location = at1 15\<rparr>) members,
          st_location = at1 1, st_type_parameters = vars, st_is_stateful = False, st_initial_state = None\<rparr>],
      pr_imports = [], pr_enums = [], pr_sigils = []\<rparr>"


section \<open>Termination and divergence\<close>

text \<open>Without generic declarations the check returns: the names under investigation are used up.\<close>

definition monomorphic :: "contracts \<Rightarrow> bool" where
  "monomorphic c \<longleftrightarrow> (\<forall>n ps rs. generic_declaration c n = Some (ps, rs) \<longrightarrow> ps = [])"

lemma rany_eventually:
  assumes "\<And>x. x \<in> set xs \<Longrightarrow> eventually (\<lambda>n. is_ok (f n x)) sequentially"
  shows "eventually (\<lambda>n. is_ok (rany (f n) xs)) sequentially"
  using assms
proof (induction xs)
  case (Cons x xs)
  have "eventually (\<lambda>n. is_ok (f n x)) sequentially" "eventually (\<lambda>n. is_ok (rany (f n) xs)) sequentially"
    using Cons by simp_all
  then show ?case
    by eventually_elim (auto simp: is_ok_iff)
qed (simp add: is_ok_def)

lemma sensitive_returns:
  assumes "declared_ok c" "monomorphic c" "finite (dom (generic_declaration c))"
  shows "t \<in> known_types c \<Longrightarrow> eventually (\<lambda>n. is_ok (is_sensitive c n t seen)) sequentially"
proof (induction "card (dom (generic_declaration c) - set seen)" arbitrary: t seen rule: less_induct)
  case less
  from less.prems show ?case
  proof (induction t rule: render_type.induct)
    case (2 name)
    have "eventually (\<lambda>n. is_ok (is_sensitive c (Suc n) (NamedType name) seen)) sequentially"
    proof (cases "name \<in> set seen \<or> name \<in> set CAPABILITY_TYPES \<or> generic_declaration c name = None")
      case False
      then obtain rs where decl: "generic_declaration c name = Some ([], rs)"
        using assms(2) unfolding monomorphic_def by fastforce
      have fewer: "card (dom (generic_declaration c) - set (name # seen)) < card (dom (generic_declaration c) - set seen)"
        using assms(3) decl False by (intro psubset_card_mono) auto
      have "eventually (\<lambda>n. is_ok (rbind (declaration_type [] (Some r)) (\<lambda>t. is_sensitive c n t (name # seen)))) sequentially"
        if r: "r \<in> set rs" for r
      proof -
        obtain u where u: "declaration_type [] (Some r) = Inr u"
          using assms(1) decl r unfolding declared_ok_def declaration_type_def by fastforce
        then have "u \<in> known_types c"
          using field_type [OF assms(1) decl r u] by (simp add: known_types_def)
        then show ?thesis
          using less.hyps [OF fewer] u by simp
      qed
      then show ?thesis
        using False decl by (simp add: rany_eventually)
    qed (auto simp: is_ok_def)
    then show ?case
      by (rule eventually_sequentially_Suc [THEN iffD1])
  next
    case (4 name as)
    have "generic_declaration c name \<noteq> Some (ps, rs)" for ps rs
      using 4(2) assms(2) unfolding monomorphic_def by (fastforce simp: known_types_def)
    then have none: "generic_declaration c name = None"
      by (cases "generic_declaration c name") auto
    have "eventually (\<lambda>n. is_ok (rany (\<lambda>a. is_sensitive c n a seen) as)) sequentially"
      by (rule rany_eventually) (use 4 in \<open>auto simp: known_types_def list_all_iff\<close>)
    then have "eventually (\<lambda>n. is_ok (is_sensitive c (Suc n) (GenericType name as) seen)) sequentially"
      by eventually_elim (auto simp: is_ok_iff none)
    then show ?case
      by (rule eventually_sequentially_Suc [THEN iffD1])
  next
    case (5 os)
    have "eventually (\<lambda>n. is_ok (rany (\<lambda>a. is_sensitive c n a seen) os)) sequentially"
      by (rule rany_eventually) (use 5 in \<open>auto simp: known_types_def list_all_iff\<close>)
    then have "eventually (\<lambda>n. is_ok (is_sensitive c (Suc n) (UnionType os) seen)) sequentially"
      by simp
    then show ?case
      by (rule eventually_sequentially_Suc [THEN iffD1])
  qed (auto simp: is_ok_def eventually_sequentially intro!: exI [of _ 1] simp: Suc_le_eq gr0_conv_Suc)
qed

text \<open>
  C23. The sensitivity check decides: with finitely many declarations, none of them generic, and from
  some recursion depth on, \<open>is_sensitive\<close> returns, and its answer for a well formed type is whether
  a capability can be reached from it, however the declarations refer to each other.
\<close>

theorem sensitivity_decided:
  assumes "declared_ok c" "monomorphic c" "finite (dom (generic_declaration c))" "canonical t" "arity_ok c t"
  shows "\<exists>N. \<forall>n \<ge> N. is_sensitive c n t [] = Inr (carries c t)"
proof -
  have "eventually (\<lambda>n. is_ok (is_sensitive c n t [])) sequentially"
    using sensitive_returns [OF assms(1-3)] assms(4,5) by (simp add: known_types_def)
  then have "eventually (\<lambda>n. is_sensitive c n t [] = Inr (carries c t)) sequentially"
    by eventually_elim (use sensitive_exact [OF assms(1,4,5)] in \<open>auto simp: is_ok_iff\<close>)
  then show ?thesis
    by (simp add: eventually_sequentially)
qed

theorem sensitivity_decided_witness:
  "let c = mk_contracts (one_struct ''Tree'' [] [(''left'', ''Tree or Error''), (''key'', ''DiskCaps or Int''), (''right'', ''Tree'')] []) []
   in \<exists>N. \<forall>n \<ge> N. is_sensitive c n (GenericType ''List'' [NamedType ''Tree'']) [] = Inr (carries c (GenericType ''List'' [NamedType ''Tree'']))"
proof -
  let ?p = "one_struct ''Tree'' [] [(''left'', ''Tree or Error''), (''key'', ''DiskCaps or Int''), (''right'', ''Tree'')] []"
  let ?c = "mk_contracts ?p []" and ?t = "GenericType ''List'' [NamedType ''Tree'']"
  have ok: "validate_program ?c 9 ?p = Inr ()" "builtins_free ?c" "well_annotated ?p" "canonical ?t" "arity_ok ?c ?t"
    "list_all (\<lambda>d. st_type_parameters d = []) (pr_structs ?p)" "pr_enums ?p = []"
    by code_simp+
  have mono: "monomorphic ?c"
    using ok(6,7) unfolding monomorphic_def by (auto simp: list_all_iff elim!: declared_in)
  show ?thesis
    unfolding Let_def
    by (rule sensitivity_decided [OF accepted_declared_ok [OF ok(1) refl ok(2,3)] mono finite_declared ok(4,5)])
qed

text \<open>
  A generic declaration that mentions itself at a larger type defeats the \<open>seen\<close> set: every round
  asks about a type it has not met.
\<close>

abbreviation too_deep_check :: "'a result" where
  "too_deep_check \<equiv> raise RecursionError ''maximum recursion depth exceeded''"

definition growing_program :: program where
  "growing_program = one_struct ''P'' [''T''] [(''next'', ''P<List<T>>'')] [(''x'', ''List<P<Int>>'')]"

definition growing :: contracts where
  "growing = mk_contracts growing_program []"

fun nested_list :: "nat \<Rightarrow> type_node" where
  "nested_list 0 = NamedType ''Int''"
| "nested_list (Suc k) = GenericType ''List'' [nested_list k]"

lemma growing_declaration:
  "generic_declaration growing n = (if n = ''P'' then Some ([''T''], [\<lparr>tr_names = [''P<List<T>>''], tr_location = at1 21\<rparr>]) else None)"
  by (auto simp: growing_def growing_program_def one_struct_def mk_contracts_def generic_declaration_def)

lemma growing_field:
  "declaration_type [''T''] (Some \<lparr>tr_names = [''P<List<T>>''], tr_location = at1 21\<rparr>)
     = Inr (GenericType ''P'' [GenericType ''List'' [TypeVariable ''T'']])"
  by code_simp

lemma nested_list_check: "is_sensitive growing n (nested_list k) seen \<in> {too_deep_check, Inr False}"
proof (induction n arbitrary: k)
  case (Suc n)
  have int: "''Int'' \<notin> set CAPABILITY_TYPES" by code_simp
  show ?case
  proof (cases k)
    case (Suc j)
    then show ?thesis
      using Suc.IH [of j] by (elim insertE) (simp_all add: growing_declaration)
  qed (use int in \<open>simp add: growing_declaration\<close>)
qed simp

lemma canonical_nested: "canonical (GenericType ''P'' [nested_list k])"
proof -
  have names: "type_name ''P''" "type_name ''Int''" "type_name ''List''" by code_simp+
  have "canonical (nested_list k)" by (induction k) (simp_all add: names)
  then show ?thesis by (simp add: names)
qed

lemma nested_list_inj: "nested_list j = nested_list k \<Longrightarrow> j = k"
proof (induction j arbitrary: k)
  case 0
  then show ?case by (cases k) simp_all
next
  case (Suc j)
  then show ?case by (cases k) simp_all
qed

lemma growing_check:
  "set seen \<subseteq> (\<lambda>j. render_type (GenericType ''P'' [nested_list j])) ` {..<k}
    \<Longrightarrow> is_sensitive growing n (GenericType ''P'' [nested_list k]) seen = too_deep_check"
proof (induction n arbitrary: k seen)
  case (Suc n)
  let ?t = "GenericType ''P'' [nested_list k]"
  have "render_type ?t \<notin> set seen"
    using Suc.prems render_inj [OF canonical_nested canonical_nested] nested_list_inj by fastforce
  moreover have "set (render_type ?t # seen) \<subseteq> (\<lambda>j. render_type (GenericType ''P'' [nested_list j])) ` {..<Suc k}"
    using Suc.prems by (auto simp: lessThan_Suc)
  then have "is_sensitive growing n (GenericType ''P'' [nested_list (Suc k)]) (render_type ?t # seen) = too_deep_check"
    by (rule Suc.IH)
  ultimately show ?case
    using nested_list_check [of n k seen] by (auto simp: growing_declaration growing_field Let_def)
qed simp

lemma growing_struct: "validate_struct growing (Suc (Suc n)) (hd (pr_structs growing_program)) = Inr ()"
proof -
  let ?d = "hd (pr_structs growing_program)"
  have "validate_declaration_parameters (st_name ?d) (st_type_parameters ?d) (st_location ?d) (map sf_type_ref (st_fields ?d)) ''struct'' = Inr ()"
    "st_type_parameters ?d = [''T'']" "map (\<lambda>f. sf_type_ref f) (st_fields ?d) = [\<lparr>tr_names = [''P<List<T>>''], tr_location = at1 21\<rparr>]"
    by code_simp+
  then show ?thesis
    by (auto simp: validate_struct_def growing_field growing_declaration GENERIC_ARITY_def map_eq_Cons_conv)
qed

lemma growing_function: "validate_function growing (Suc (Suc n)) (hd (pr_declarations growing_program)) = too_deep_check"
proof -
  let ?f = "hd (pr_declarations growing_program)"
  have "''Int'' \<notin> set CAPABILITY_TYPES" by code_simp
  then have int: "is_sensitive growing (Suc m) (NamedType ''Int'') [] = Inr False" for m
    by (simp add: growing_declaration)
  have "validate_parameter_names (fn_name ?f) [] (fn_type_parameters ?f) (fn_location ?f) = Inr ()" "fn_type_parameters ?f = []"
    "list_all (\<lambda>q. function_type ?f (Some (pm_type_ref q)) = Inr (GenericType ''List'' [GenericType ''P'' [NamedType ''Int'']])) (fn_parameters ?f)"
    "length (fn_parameters ?f) = 1"
    by code_simp+
  moreover have "is_sensitive growing (Suc (Suc n)) (GenericType ''P'' [nested_list 0]) [] = too_deep_check"
    by (rule growing_check) simp
  ultimately show ?thesis
    by (auto simp: validate_function_def growing_declaration GENERIC_ARITY_def int length_Suc_conv simp del: is_sensitive.simps)
qed

text \<open>
  C24. The validator does not always return: the program
  \<open>struct P<T> { next: P<List<T>> } fn f(x: List<P<Int>>) { }\<close> parses, and whatever recursion
  depth the interpreter allows, validating it exceeds that depth, instead of giving a diagnostic.
\<close>

theorem validator_diverges:
  "parse_source ''struct P<T> { next: P<List<T>> } fn f(x: List<P<Int>>) { }'' = Inr growing_program
   \<and> validate_program (mk_contracts growing_program []) n growing_program = Inl (Raise RecursionError ''maximum recursion depth exceeded'' [])"
proof
  show "parse_source ''struct P<T> { next: P<List<T>> } fn f(x: List<P<Int>>) { }'' = Inr growing_program"
    by code_simp
  consider "n = 0" | "n = 1" | m where "n = Suc (Suc m)"
    by (metis One_nat_def not0_implies_Suc)
  then show "validate_program (mk_contracts growing_program []) n growing_program = too_deep_check"
  proof cases
    case (3 m)
    have one: "length (pr_structs growing_program) = 1" "pr_enums growing_program = []" "length (pr_declarations growing_program) = 1"
      by code_simp+
    then obtain d f where df: "pr_structs growing_program = [d]" "pr_declarations growing_program = [f]"
      by (auto simp: length_Suc_conv)
    have "validate_struct growing n d = Inr ()" "validate_function growing n f = too_deep_check"
      using growing_struct [of m] growing_function [of m] by (simp_all only: df list.sel 3)
    then show ?thesis
      by (simp add: validate_program_def growing_def [symmetric] df one(2))
  next
    case 1
    show ?thesis unfolding 1 by code_simp
  next
    case 2
    show ?thesis unfolding 2 by code_simp
  qed
qed

end
