(* ===== verification/Effect_Contracts.thy ===== *)
theory Effect_Contracts
  imports Type_Contracts "HOL-Library.While_Combinator"
begin

text \<open>
  Effect contracts (\<open>koschei/effect_contracts_v1.py\<close>): the effects of a function are inferred from
  its signature and the calls of its body, and propagated along the calls between the
  functions of the program until nothing changes; a \<open>pure fn\<close> must have none. The typed report of the
  pass before is an argument of the pass, here the function \<open>types\<close> from expressions to their types.
\<close>

section \<open>Walking the tree\<close>

text \<open>\<open>_walk(value)\<close>: the nodes below a value, here those that are expressions, each before its parts.\<close>

fun walk_expression :: "expression \<Rightarrow> expression list"
  and walk_arm :: "match_arm \<Rightarrow> expression list"
  and walk_body :: "arm_body \<Rightarrow> expression list"
  and walk_statement :: "statement \<Rightarrow> expression list"
  and walk_else :: "else_branch \<Rightarrow> expression list"
  and walk_block :: "block \<Rightarrow> expression list" where
  "walk_expression (Identifier n l) = [Identifier n l]"
| "walk_expression (Literal v l) = [Literal v l]"
| "walk_expression (InterpolatedString ps l) = InterpolatedString ps l # concat (map walk_expression ps)"
| "walk_expression (StructLiteral t fs l) = StructLiteral t fs l # concat (map (\<lambda>(_, e). walk_expression e) fs)"
| "walk_expression (ListLiteral xs l) = ListLiteral xs l # concat (map walk_expression xs)"
| "walk_expression (MapLiteral es l) = MapLiteral es l # concat (map (\<lambda>(k, v). walk_expression k @ walk_expression v) es)"
| "walk_expression (MemberExpression ob m l) = MemberExpression ob m l # walk_expression ob"
| "walk_expression (CallExpression f as l) = CallExpression f as l # walk_expression f @ concat (map walk_expression as)"
| "walk_expression (AssignmentExpression t v l) = AssignmentExpression t v l # walk_expression t @ walk_expression v"
| "walk_expression (BinaryExpression a op b l) = BinaryExpression a op b l # walk_expression a @ walk_expression b"
| "walk_expression (UnaryExpression op a l) = UnaryExpression op a l # walk_expression a"
| "walk_expression (OrReturnExpression v er l) =
     OrReturnExpression v er l # walk_expression v @ (case er of None \<Rightarrow> [] | Some e \<Rightarrow> walk_expression e)"
| "walk_expression (OrElseExpression v fb l) = OrElseExpression v fb l # walk_expression v @ walk_expression fb"
| "walk_expression (OrBlockExpression v b l) = OrBlockExpression v b l # walk_expression v @ walk_block b"
| "walk_expression (MatchExpression v arms l) = MatchExpression v arms l # walk_expression v @ concat (map walk_arm arms)"
| "walk_arm (MatchArm v b body l) = walk_body body"
| "walk_body (Expression_Body e) = walk_expression e"
| "walk_body (Block_Body b) = walk_block b"
| "walk_statement (LetStatement n m v l t) = walk_expression v"
| "walk_statement (ReturnStatement v l) = (case v of None \<Rightarrow> [] | Some e \<Rightarrow> walk_expression e)"
| "walk_statement (ExpressionStatement e l) = walk_expression e"
| "walk_statement (IfStatement c t el l) =
     walk_expression c @ walk_block t @ (case el of None \<Rightarrow> [] | Some e \<Rightarrow> walk_else e)"
| "walk_statement (WhileStatement c b l) = walk_expression c @ walk_block b"
| "walk_statement (ForStatement x it b l) = walk_expression it @ walk_block b"
| "walk_statement (BreakStatement l) = []"
| "walk_statement (ContinueStatement l) = []"
| "walk_else (Else_Block b) = walk_block b"
| "walk_else (Else_If s) = walk_statement s"
| "walk_block (Block ss) = concat (map walk_statement ss)"

section \<open>Direct effects\<close>

definition CONSOLE_BUILTINS :: "string list" where
  "CONSOLE_BUILTINS = [''print'', ''println'']"

definition QUEUE_BUILTINS :: "string list" where
  "QUEUE_BUILTINS = [''bounded_queue'', ''queue_try_send'', ''queue_try_recv'', ''queue_len'', ''queue_capacity'']"

definition TASK_BUILTINS :: "string list" where
  "TASK_BUILTINS = [''task_scope'', ''task_spawn'', ''task_join_all'', ''task_pending'', ''task_capacity'',
     ''task_closed'', ''task_cancel'', ''task_cancel_all'']"

definition PURE_BUILTINS :: "string list" where
  "PURE_BUILTINS = [''Error'', ''Some'', ''None'', ''Ok'', ''Err'', ''parse_json'', ''decimal'', ''decimal_add'',
     ''decimal_sub'', ''decimal_cmp'', ''decimal_text'', ''parallel_map'']"

definition PURE_VALUE_METHODS :: "string list" where
  "PURE_VALUE_METHODS = [''length'', ''to_int'', ''to_float'', ''contains'', ''trim'', ''split'', ''join'', ''get'',
     ''push'', ''sort'', ''keys'', ''set'', ''status'', ''text'']"

record function_effects =
  fe_direct_calls :: "string list"
  fe_imported_calls :: "string list"
  fe_direct_effects :: "string list"
  fe_effects :: "string list"

type_synonym effect_report = "string \<rightharpoonup> function_effects"

text \<open>\<open>_base_name\<close>: unions and the unknown type have no name.\<close>

fun base_name :: "type_node \<Rightarrow> string option" where
  "base_name (NamedType n) = Some n"
| "base_name (TypeVariable n) = Some n"
| "base_name (GenericType n _) = Some n"
| "base_name _ = None"

definition signature_effects :: "contracts \<Rightarrow> nat \<Rightarrow> function_declaration \<Rightarrow> string set result" where
  "signature_effects c n f =
     rbind (rmap (\<lambda>p. rbind (function_type f (Some (pm_type_ref p))) (\<lambda>t. is_sensitive c n t [])) (fn_parameters f)) (\<lambda>inputs.
     rbind (case fn_return_type f of
         None \<Rightarrow> Inr False
       | Some r \<Rightarrow> rbind (function_type f (Some r)) (\<lambda>t. is_sensitive c n t [])) (\<lambda>output.
       Inr ((if True \<in> set inputs then {''authority.input''} else {}) \<union> (if output then {''authority.output''} else {}))))"

text \<open>
  What one call adds: effects, calls of functions of the program, calls of functions of imported
  modules. \<open>local_names\<close>, \<open>variants\<close> and \<open>aliases\<close> are the functions and enum variants of the
  program and the modules it imports.
\<close>

record call_summary =
  cs_effects :: "string set"
  cs_calls :: "string set"
  cs_foreign :: "(string \<times> string) set"

definition no_summary :: call_summary where
  "no_summary = \<lparr>cs_effects = {}, cs_calls = {}, cs_foreign = {}\<rparr>"

definition an_effect :: "string \<Rightarrow> call_summary" where
  "an_effect e = no_summary\<lparr>cs_effects := {e}\<rparr>"

definition identifier_call :: "string list \<Rightarrow> string list \<Rightarrow> string \<Rightarrow> expression list \<Rightarrow> call_summary" where
  "identifier_call local_names variants name arguments =
     (if name \<in> set local_names then no_summary\<lparr>cs_calls := {name}\<rparr>
      else if name \<in> set CONSOLE_BUILTINS then an_effect ''console.write''
      else if name \<in> set QUEUE_BUILTINS then an_effect ''shared-memory.queue''
      else if name \<in> set TASK_BUILTINS then an_effect ''concurrency.task''
      else if name = ''parallel_map'' then
        (case arguments of
           _ # Identifier worker _ # _ \<Rightarrow>
             if worker \<in> set local_names then no_summary\<lparr>cs_calls := {worker}\<rparr> else an_effect ''unknown.parallel-worker''
         | _ \<Rightarrow> an_effect ''unknown.parallel-worker'')
      else if name \<in> set PURE_BUILTINS then no_summary
      else if name \<in> set variants then no_summary
      else an_effect (''unknown.call:'' @ name))"

definition imported_alias :: "string list \<Rightarrow> expression \<Rightarrow> string option" where
  "imported_alias aliases receiver =
     (case receiver of Identifier a _ \<Rightarrow> if a \<in> set aliases then Some a else None | _ \<Rightarrow> None)"

definition method_call :: "(expression \<Rightarrow> type_node option) \<Rightarrow> string list \<Rightarrow> expression \<Rightarrow> string \<Rightarrow> call_summary" where
  "method_call types aliases receiver member =
     (case imported_alias aliases receiver of
        Some alias \<Rightarrow> no_summary\<lparr>cs_foreign := {(alias, member)}\<rparr>
      | None \<Rightarrow>
          let type_name = (case types receiver of None \<Rightarrow> None | Some t \<Rightarrow> base_name t) in
          (case effect_for (case type_name of None \<Rightarrow> [] | Some n \<Rightarrow> n) member of
             Some e \<Rightarrow> an_effect e
           | None \<Rightarrow>
               if member = ''filter'' then an_effect ''unknown.higher-order''
               else if member \<in> set PURE_VALUE_METHODS then no_summary
               else an_effect (''unknown.method:'' @ member)))"

definition call_effects ::
  "(expression \<Rightarrow> type_node option) \<Rightarrow> string list \<Rightarrow> string list \<Rightarrow> string list \<Rightarrow> expression \<Rightarrow> call_summary" where
  "call_effects types local_names variants aliases node =
     (case node of
        CallExpression (Identifier name _) arguments _ \<Rightarrow> identifier_call local_names variants name arguments
      | CallExpression (MemberExpression receiver member _) _ _ \<Rightarrow> method_call types aliases receiver member
      | CallExpression _ _ _ \<Rightarrow> an_effect ''unknown.indirect-call''
      | _ \<Rightarrow> no_summary)"

definition variant_names :: "program \<Rightarrow> string list" where
  "variant_names p = concat (map (\<lambda>d. map ev_name (en_variants d)) (pr_enums p))"

text \<open>The loop over the nodes of the body of one function, after its signature.\<close>

definition function_summary ::
  "(expression \<Rightarrow> type_node option) \<Rightarrow> contracts \<Rightarrow> nat \<Rightarrow> string list \<Rightarrow> program \<Rightarrow> function_declaration \<Rightarrow> call_summary result" where
  "function_summary types c n aliases p f =
     rbind (signature_effects c n f) (\<lambda>effects.
     let ss = map (call_effects types (map fn_name (pr_declarations p)) (variant_names p) aliases) (walk_block (fn_body f)) in
     Inr \<lparr>cs_effects = effects \<union> \<Union> (set (map cs_effects ss)), cs_calls = \<Union> (set (map cs_calls ss)),
          cs_foreign = \<Union> (set (map cs_foreign ss))\<rparr>)"

section \<open>Propagation\<close>

text \<open>
  The dictionaries over the function names are functions; the last declaration of a name counts. One
  round over the names, with whether anything changed, and the loop.
\<close>

definition expand :: "(string \<Rightarrow> string set) \<Rightarrow> (string \<Rightarrow> string set) \<Rightarrow> string \<Rightarrow> string set" where
  "expand calls resolved name = resolved name \<union> \<Union> (resolved ` calls name)"

definition propagate_one ::
  "(string \<Rightarrow> string set) \<Rightarrow> (string \<Rightarrow> string set) \<times> bool \<Rightarrow> string \<Rightarrow> (string \<Rightarrow> string set) \<times> bool" where
  "propagate_one calls = (\<lambda>(resolved, changed) name.
     let expanded = expand calls resolved name in
     if expanded \<noteq> resolved name then (resolved(name := expanded), True) else (resolved, changed))"

definition propagate_round ::
  "string list \<Rightarrow> (string \<Rightarrow> string set) \<Rightarrow> (string \<Rightarrow> string set) \<Rightarrow> (string \<Rightarrow> string set) \<times> bool" where
  "propagate_round names calls resolved = foldl (propagate_one calls) (resolved, False) names"

definition propagate ::
  "string list \<Rightarrow> (string \<Rightarrow> string set) \<Rightarrow> (string \<Rightarrow> string set) \<Rightarrow> (string \<Rightarrow> string set) option" where
  "propagate names calls resolved =
     map_option fst (while_option snd (\<lambda>(resolved, _). propagate_round names calls resolved) (resolved, True))"

text \<open>The effects that the calls into imported modules bring, each module analysed before.\<close>

definition foreign_effects :: "(string \<rightharpoonup> effect_report) \<Rightarrow> string \<times> string \<Rightarrow> string set" where
  "foreign_effects reports = (\<lambda>(alias, name).
     case (case reports alias of None \<Rightarrow> None | Some report \<Rightarrow> report name) of
       None \<Rightarrow> {''unknown.import:'' @ alias @ ''.'' @ name}
     | Some summary \<Rightarrow> set (fe_effects summary))"

text \<open>
  \<open>infer_effect_contracts\<close>: \<open>None\<close> is a loop that does not end.
\<close>

definition summaries ::
  "(expression \<Rightarrow> type_node option) \<Rightarrow> nat \<Rightarrow> (string \<times> contracts) list \<Rightarrow> program \<Rightarrow> (string \<times> call_summary) list result" where
  "summaries types n imports p =
     rmap (\<lambda>f. rbind (function_summary types (mk_contracts p (map snd imports)) n (map fst imports) p f) (\<lambda>s. Inr (fn_name f, s)))
       (pr_declarations p)"

definition summary_of :: "(string \<times> call_summary) list \<Rightarrow> string \<Rightarrow> call_summary" where
  "summary_of ss name = (case map_of (rev ss) name of None \<Rightarrow> no_summary | Some s \<Rightarrow> s)"

definition infer_effect_contracts ::
  "(expression \<Rightarrow> type_node option) \<Rightarrow> nat \<Rightarrow> (string \<times> contracts) list \<Rightarrow> (string \<rightharpoonup> effect_report) \<Rightarrow> program
    \<Rightarrow> effect_report option result" where
  "infer_effect_contracts types n imports reports p =
     rbind (summaries types n imports p) (\<lambda>ss.
     let names = sorted_set (map fst ss);
         start = (\<lambda>name. cs_effects (summary_of ss name) \<union> \<Union> (foreign_effects reports ` cs_foreign (summary_of ss name)))
     in Inr (map_option (\<lambda>resolved name.
          if name \<in> set names then
            Some \<lparr>fe_direct_calls = sorted_list_of_set (cs_calls (summary_of ss name)),
                  fe_imported_calls = sort (map (\<lambda>(alias, f). alias @ ''.'' @ f) (sorted_list_of_set (cs_foreign (summary_of ss name)))),
                  fe_direct_effects = sorted_list_of_set (cs_effects (summary_of ss name)),
                  fe_effects = sorted_list_of_set (resolved name)\<rparr>
          else None)
        (propagate names (\<lambda>name. cs_calls (summary_of ss name)) start)))"

definition check_effect_contracts ::
  "(expression \<Rightarrow> type_node option) \<Rightarrow> nat \<Rightarrow> (string \<times> contracts) list \<Rightarrow> (string \<rightharpoonup> effect_report) \<Rightarrow> program
    \<Rightarrow> effect_report option result" where
  "check_effect_contracts types n imports reports p =
     rbind (infer_effect_contracts types n imports reports p) (\<lambda>report.
     case report of
       None \<Rightarrow> Inr None
     | Some report \<Rightarrow>
         rbind (rfor (\<lambda>name.
           case (map_of (rev (map (\<lambda>f. (fn_name f, f)) (pr_declarations p))) name, report name) of
             (Some f, Some summary) \<Rightarrow>
               if fn_is_pure f \<and> fe_effects summary \<noteq> [] then
                 semantic_error ''KS3940'' ''pure fn {} effect-free olmak zorundadir; bulunan effect seti: {}''
                   [name, join '', '' (fe_effects summary)] (fn_location f)
               else Inr ()
           | _ \<Rightarrow> Inr ()) (sorted_set (map fn_name (pr_declarations p)))) (\<lambda>_. Inr (Some report)))"

section \<open>Propagation computes reachability\<close>

lemma propagate_one_facts:
  assumes "propagate_one calls (R, ch) name = (R', ch')"
  shows "R f \<subseteq> R' f" "f \<noteq> name \<Longrightarrow> R' f = R f" "ch' \<longleftrightarrow> ch \<or> R' \<noteq> R" "R' = R \<Longrightarrow> expand calls R name = R name"
    "(\<And>g. R g \<subseteq> L g) \<Longrightarrow> (\<And>g h. h \<in> calls g \<Longrightarrow> L h \<subseteq> L g) \<Longrightarrow> R' f \<subseteq> L f"
proof -
  have "(if expand calls R name = R name then R' = R \<and> ch' = ch else R' = R(name := expand calls R name) \<and> ch')"
    using assms by (simp add: propagate_one_def Let_def split: if_splits)
  moreover have "R name \<subseteq> expand calls R name"
    by (auto simp: expand_def)
  ultimately show "R f \<subseteq> R' f" "f \<noteq> name \<Longrightarrow> R' f = R f" "ch' \<longleftrightarrow> ch \<or> R' \<noteq> R" "R' = R \<Longrightarrow> expand calls R name = R name"
    by (auto simp: fun_upd_idem_iff split: if_splits)
  assume "\<And>g. R g \<subseteq> L g" "\<And>g h. h \<in> calls g \<Longrightarrow> L h \<subseteq> L g"
  then have "expand calls R name \<subseteq> L name" "R f \<subseteq> L f"
    unfolding expand_def by blast+
  then show "R' f \<subseteq> L f"
    using assms by (auto simp: propagate_one_def Let_def split: if_splits)
qed

lemma propagate_fold_upper:
  assumes "\<And>g h. h \<in> calls g \<Longrightarrow> L h \<subseteq> L g"
  shows "foldl (propagate_one calls) (R, ch) names = (R', ch') \<Longrightarrow> (\<And>g. R g \<subseteq> L g) \<Longrightarrow> R' f \<subseteq> L f"
proof (induction names arbitrary: R ch)
  case (Cons name names)
  obtain R1 ch1 where one: "propagate_one calls (R, ch) name = (R1, ch1)" by fastforce
  have "R1 g \<subseteq> L g" for g
    using propagate_one_facts(5) [OF one Cons.prems(2) assms] by blast
  then show ?case
    using Cons.IH [of R1 ch1] Cons.prems(1) one by simp
qed simp

lemma propagate_fold_facts:
  assumes "foldl (propagate_one calls) (R, ch) names = (R', ch')"
  shows "(\<forall>f. R f \<subseteq> R' f) \<and> (\<forall>f. f \<notin> set names \<longrightarrow> R' f = R f) \<and> (ch' \<longleftrightarrow> ch \<or> R' \<noteq> R)
    \<and> (R' = R \<longrightarrow> (\<forall>f \<in> set names. expand calls R f = R f))"
  using assms
proof (induction names arbitrary: R ch)
  case (Cons name names)
  obtain R1 ch1 where one: "propagate_one calls (R, ch) name = (R1, ch1)" by fastforce
  note first = propagate_one_facts(1-4) [OF one]
  have rest: "foldl (propagate_one calls) (R1, ch1) names = (R', ch')"
    using Cons.prems one by simp
  note ih = Cons.IH [OF rest]
  have same: "R' = R \<longleftrightarrow> R1 = R \<and> R' = R1"
  proof
    assume eq: "R' = R"
    have "R1 g = R g" for g
      using first(1) [of g] ih eq by auto
    then show "R1 = R \<and> R' = R1" using eq by auto
  qed simp
  have "expand calls R f = R f" if eq: "R' = R" "f \<in> set (name # names)" for f
  proof -
    have "R1 = R" "R' = R1" using same eq(1) by blast+
    then show ?thesis
      using ih first(4) eq(2) by (cases "f = name") auto
  qed
  moreover have "ch' \<longleftrightarrow> ch \<or> R' \<noteq> R"
    using ih first(3) same by blast
  moreover have "R f \<subseteq> R' f" "f \<notin> set (name # names) \<Longrightarrow> R' f = R f" for f
    using ih first(1,2) [of f] by auto
  ultimately show ?case by blast
qed simp

definition reaches :: "(string \<Rightarrow> string set) \<Rightarrow> string \<Rightarrow> string \<Rightarrow> bool" where
  "reaches calls = (\<lambda>f g. g \<in> calls f)\<^sup>*\<^sup>*"

definition reachable_effects :: "(string \<Rightarrow> string set) \<Rightarrow> (string \<Rightarrow> string set) \<Rightarrow> string \<Rightarrow> string set" where
  "reachable_effects calls R f = \<Union> {R g |g. reaches calls f g}"

lemma reachable_effects_closed: "h \<in> calls g \<Longrightarrow> reachable_effects calls R h \<subseteq> reachable_effects calls R g"
  unfolding reachable_effects_def reaches_def by (blast intro: converse_rtranclp_into_rtranclp)

lemma reachable_effects_self: "R g \<subseteq> reachable_effects calls R g"
  unfolding reachable_effects_def reaches_def by blast

text \<open>The sizes of what is still missing, below a bound on all sets.\<close>

definition missing_effects :: "string list \<Rightarrow> string set \<Rightarrow> (string \<Rightarrow> string set) \<Rightarrow> nat" where
  "missing_effects names U R = (\<Sum>f \<in> set names. card (U - R f))"

lemma missing_effects_less:
  assumes "finite U" "\<And>f. R f \<subseteq> R' f" "\<And>f. f \<in> set names \<Longrightarrow> R' f \<subseteq> U" "\<And>f. f \<notin> set names \<Longrightarrow> R' f = R f" "R' \<noteq> R"
  shows "missing_effects names U R' < missing_effects names U R"
proof -
  obtain f where "R' f \<noteq> R f" using assms(5) by blast
  then have f: "f \<in> set names" "R f \<subset> R' f"
    using assms(2,4) by blast+
  then have "card (U - R' f) < card (U - R f)"
    using assms(1,3) by (intro psubset_card_mono) auto
  moreover have "card (U - R' g) \<le> card (U - R g)" for g
    using assms(1,2) by (intro card_mono) auto
  ultimately show ?thesis
    unfolding missing_effects_def using f(1) by (intro sum_strict_mono_ex1) auto
qed

lemma propagate_exact:
  assumes "\<And>f. f \<in> set names \<Longrightarrow> finite (R f)" "\<And>f. calls f \<subseteq> set names" "\<And>f. f \<notin> set names \<Longrightarrow> calls f = {}"
  shows "propagate names calls R = Some (reachable_effects calls R)"
proof -
  let ?U = "\<Union> (R ` set names)"
  let ?step = "\<lambda>(resolved, _). propagate_round names calls resolved"
  define ok where "ok s \<longleftrightarrow> (\<forall>f. R f \<subseteq> fst s f \<and> fst s f \<subseteq> reachable_effects calls R f)
    \<and> (\<not> snd s \<longrightarrow> (\<forall>f. expand calls (fst s) f = fst s f))" for s :: "(string \<Rightarrow> string set) \<times> bool"
  have U: "finite ?U" using assms(1) by simp
  have inside: "reachable_effects calls R f \<subseteq> ?U" if "f \<in> set names" for f
  proof -
    have "g \<in> set names" if "reaches calls f g" for g
      using that \<open>f \<in> set names\<close> assms(2) unfolding reaches_def by (induction) auto
    then show ?thesis unfolding reachable_effects_def by blast
  qed
  have step: "ok (?step s) \<and> 2 * missing_effects names ?U (fst (?step s)) + of_bool (snd (?step s))
      < 2 * missing_effects names ?U (fst s) + (of_bool (snd s) :: nat)" if cur: "ok s" "snd s" for s
  proof -
    obtain S where s: "s = (S, True)" using cur(2) by (cases s) auto
    obtain S' ch' where round: "foldl (propagate_one calls) (S, False) names = (S', ch')" by fastforce
    have facts: "\<And>f. S f \<subseteq> S' f" "\<And>f. f \<notin> set names \<Longrightarrow> S' f = S f" "ch' \<longleftrightarrow> S' \<noteq> S"
        "\<And>f. S' = S \<Longrightarrow> f \<in> set names \<Longrightarrow> expand calls S f = S f"
      using propagate_fold_facts [OF round] by blast+
    have upper: "S' f \<subseteq> reachable_effects calls R f" for f
      by (rule propagate_fold_upper [OF reachable_effects_closed round]) (use cur(1) s in \<open>auto simp: ok_def\<close>)
    moreover have "R f \<subseteq> S' f" for f
      using cur(1) facts(1) [of f] s by (auto simp: ok_def)
    moreover have "expand calls S f = S f" if "S' = S" for f
      using facts(4) [OF that, of f] assms(3) by (cases "f \<in> set names") (auto simp: expand_def)
    ultimately have "ok (S', ch')"
      using facts(3) by (auto simp: ok_def)
    moreover have "missing_effects names ?U S' < missing_effects names ?U S" if "ch'"
    proof (rule missing_effects_less [OF U facts(1) _ facts(2)])
      show "S' f \<subseteq> ?U" if "f \<in> set names" for f
        using upper [of f] inside [OF that] by (rule subset_trans)
      show "S' \<noteq> S" using facts(3) \<open>ch'\<close> by simp
    qed
    ultimately show ?thesis
      using facts(3) by (cases ch') (auto simp: s propagate_round_def round)
  qed
  have start: "ok (R, True)"
    using reachable_effects_self by (auto simp: ok_def)
  have "\<exists>t. while_option snd ?step (R, True) = Some t"
    by (rule measure_while_option_Some [where P = ok and f = "\<lambda>s. 2 * missing_effects names ?U (fst s) + of_bool (snd s)"])
      (erule (1) step, rule start)
  then obtain t where t: "while_option snd ?step (R, True) = Some t" by blast
  have "ok t"
    by (rule while_option_rule [where P = ok, OF _ t start]) (use step in blast)
  moreover have "\<not> snd t"
    by (rule while_option_stop [OF t])
  ultimately have fixed: "expand calls (fst t) f = fst t f" "R f \<subseteq> fst t f" "fst t f \<subseteq> reachable_effects calls R f" for f
    by (auto simp: ok_def)
  have "fst t g \<subseteq> fst t f" if "reaches calls f g" for f g
    using that unfolding reaches_def
  proof (induction rule: converse_rtranclp_induct)
    case (step f h)
    have "fst t h \<subseteq> expand calls (fst t) f"
      using step(1) unfolding expand_def by blast
    then show ?case using fixed(1) step(3) by auto
  qed simp
  then have "reachable_effects calls R f \<subseteq> fst t f" for f
    using fixed(2) unfolding reachable_effects_def by blast
  then have "fst t = reachable_effects calls R"
    using fixed(3) by blast
  then show ?thesis
    unfolding propagate_def by (simp add: t)
qed

section \<open>The report\<close>

lemma call_effects_local: "cs_calls (call_effects types names variants aliases node) \<subseteq> set names"
  unfolding call_effects_def identifier_call_def method_call_def an_effect_def no_summary_def Let_def
  by (auto split: expression.splits option.splits list.splits if_splits)

lemma call_effects_finite:
  "finite (cs_effects (call_effects types names variants aliases node))" "finite (cs_foreign (call_effects types names variants aliases node))"
  unfolding call_effects_def identifier_call_def method_call_def an_effect_def no_summary_def Let_def
  by (auto split: expression.splits option.splits list.splits if_splits)

lemma function_summary_facts:
  assumes "function_summary types c n aliases p f = Inr s"
  shows "cs_calls s \<subseteq> set (map fn_name (pr_declarations p))" "finite (cs_effects s)" "finite (cs_foreign s)"
proof -
  obtain e where e: "signature_effects c n f = Inr e"
    using assms by (auto simp: function_summary_def rbind_eq_Inr)
  have "finite e"
    using e by (auto simp: signature_effects_def rbind_eq_Inr)
  then show "cs_calls s \<subseteq> set (map fn_name (pr_declarations p))" "finite (cs_effects s)" "finite (cs_foreign s)"
    using assms e call_effects_local call_effects_finite by (fastforce simp: function_summary_def Let_def)+
qed

lemma summaries_Inr:
  "summaries types n imports p = Inr ss \<longleftrightarrow> list_all2 (\<lambda>f (name, s). name = fn_name f
     \<and> function_summary types (mk_contracts p (map snd imports)) n (map fst imports) p f = Inr s) (pr_declarations p) ss"
  unfolding summaries_def rmap_eq_Inr by (rule arg_cong [where f = "\<lambda>P. list_all2 P _ _"]) (auto simp: rbind_eq_Inr fun_eq_iff)

lemma summaries_names:
  assumes "summaries types n imports p = Inr ss"
  shows "map fst ss = map fn_name (pr_declarations p)" "fst ` set ss = fn_name ` set (pr_declarations p)"
proof -
  show names: "map fst ss = map fn_name (pr_declarations p)"
    using assms unfolding summaries_Inr by (induction rule: list_all2_induct) auto
  show "fst ` set ss = fn_name ` set (pr_declarations p)"
    using arg_cong [OF names, of set] by simp
qed

lemma summary_of_cases:
  assumes "summaries types n imports p = Inr ss"
  obtains "name \<notin> set (map fst ss)" "summary_of ss name = no_summary"
    | f where "f \<in> set (pr_declarations p)" "fn_name f = name"
        "function_summary types (mk_contracts p (map snd imports)) n (map fst imports) p f = Inr (summary_of ss name)"
proof (cases "map_of (rev ss) name")
  case None
  then have "name \<notin> set (map fst ss)" by (simp add: map_of_eq_None_iff)
  then show ?thesis
    using that(1) None by (simp add: summary_of_def)
next
  case (Some s)
  then have "(name, s) \<in> set ss" by (auto dest: map_of_SomeD)
  then obtain f where "f \<in> set (pr_declarations p)" "fn_name f = name"
      "function_summary types (mk_contracts p (map snd imports)) n (map fst imports) p f = Inr s"
    using assms unfolding summaries_Inr by (fastforce simp: list_all2_conv_all_nth in_set_conv_nth)
  then show ?thesis
    using that(2) Some by (simp add: summary_of_def)
qed

definition start_effects :: "(string \<rightharpoonup> effect_report) \<Rightarrow> (string \<times> call_summary) list \<Rightarrow> string \<Rightarrow> string set" where
  "start_effects reports ss name =
     cs_effects (summary_of ss name) \<union> \<Union> (foreign_effects reports ` cs_foreign (summary_of ss name))"

lemma start_finite:
  assumes "summaries types n imports p = Inr ss"
  shows "finite (start_effects reports ss name)"
proof -
  have "finite (foreign_effects reports x)" for x
    by (auto simp: foreign_effects_def split: prod.splits option.splits)
  moreover have "finite (cs_effects (summary_of ss name))" "finite (cs_foreign (summary_of ss name))"
    by (rule summary_of_cases [OF assms, of name]; auto simp: no_summary_def dest: function_summary_facts)+
  ultimately show ?thesis
    by (simp add: start_effects_def)
qed

lemma summary_calls:
  assumes "summaries types n imports p = Inr ss"
  shows "cs_calls (summary_of ss name) \<subseteq> set (map fst ss)" "name \<notin> set (map fst ss) \<Longrightarrow> cs_calls (summary_of ss name) = {}"
proof -
  show "cs_calls (summary_of ss name) \<subseteq> set (map fst ss)"
    by (rule summary_of_cases [OF assms, of name])
      (auto simp: no_summary_def summaries_names [OF assms] dest!: function_summary_facts(1))
  show "cs_calls (summary_of ss name) = {}" if "name \<notin> set (map fst ss)"
  proof -
    have "map_of (rev ss) name = None"
      using that by (simp add: map_of_eq_None_iff)
    then show ?thesis
      by (simp add: summary_of_def no_summary_def)
  qed
qed

lemma infer_effects:
  assumes "summaries types n imports p = Inr ss"
  shows "\<exists>report. infer_effect_contracts types n imports reports p = Inr (Some report)
    \<and> (\<forall>name. (report name = None \<longleftrightarrow> name \<notin> set (map fn_name (pr_declarations p)))
      \<and> (\<forall>s. report name = Some s
          \<longrightarrow> set (fe_effects s) = reachable_effects (\<lambda>g. cs_calls (summary_of ss g)) (start_effects reports ss) name))"
proof -
  let ?calls = "\<lambda>g. cs_calls (summary_of ss g)" and ?start = "start_effects reports ss"
  let ?names = "sorted_set (map fst ss)"
  have "propagate ?names ?calls ?start = Some (reachable_effects ?calls ?start)"
    by (rule propagate_exact) (use start_finite [OF assms] summary_calls [OF assms] in \<open>auto simp: summaries_names [OF assms]\<close>)
  moreover have "finite (reachable_effects ?calls ?start name)" for name
  proof -
    have "g = name \<or> g \<in> set (map fst ss)" if "reaches ?calls name g" for g
      using that summary_calls(1) [OF assms] unfolding reaches_def by (induction) auto
    then have "reachable_effects ?calls ?start name \<subseteq> ?start name \<union> \<Union> (?start ` set (map fst ss))"
      unfolding reachable_effects_def by blast
    then show ?thesis
      by (rule finite_subset) (use start_finite [OF assms] in auto)
  qed
  ultimately show ?thesis
    by (auto simp: infer_effect_contracts_def assms start_effects_def [abs_def] summaries_names [OF assms])
qed

text \<open>
  C37. Effect inference terminates and is exact: whenever the types of the signatures can be checked, the
  fixed point loop ends, and the effects it reports for a function are precisely the direct and imported
  effects of the functions that can be reached from it through calls, recursive ones included.
\<close>

theorem effect_inference_exact:
  assumes "summaries types n imports p = Inr ss"
  shows "\<exists>report. infer_effect_contracts types n imports reports p = Inr (Some report)
    \<and> (\<forall>f \<in> set (pr_declarations p). \<exists>s. report (fn_name f) = Some s
      \<and> set (fe_effects s) = \<Union> {start_effects reports ss g |g. (\<lambda>f g. g \<in> cs_calls (summary_of ss f))\<^sup>*\<^sup>* (fn_name f) g})"
proof -
  obtain report where report: "infer_effect_contracts types n imports reports p = Inr (Some report)"
      "\<And>name. report name = None \<longleftrightarrow> name \<notin> set (map fn_name (pr_declarations p))"
      "\<And>name s. report name = Some s
        \<Longrightarrow> set (fe_effects s) = reachable_effects (\<lambda>g. cs_calls (summary_of ss g)) (start_effects reports ss) name"
    using infer_effects [OF assms, of reports] by blast
  have "\<exists>s. report (fn_name f) = Some s
      \<and> set (fe_effects s) = reachable_effects (\<lambda>g. cs_calls (summary_of ss g)) (start_effects reports ss) (fn_name f)"
    if "f \<in> set (pr_declarations p)" for f
    using that report(2) [of "fn_name f"] report(3) [of "fn_name f"] by (cases "report (fn_name f)") auto
  with report(1) show ?thesis
    unfolding reachable_effects_def reaches_def by blast
qed

text \<open>One function calls another: by its name, or as the worker of \<open>parallel_map\<close>.\<close>

inductive calls_function :: "program \<Rightarrow> function_declaration \<Rightarrow> function_declaration \<Rightarrow> bool" for p where
  direct: "f \<in> set (pr_declarations p) \<Longrightarrow> g \<in> set (pr_declarations p)
    \<Longrightarrow> CallExpression (Identifier (fn_name g) l) as l' \<in> set (walk_block (fn_body f)) \<Longrightarrow> calls_function p f g"
| worker: "f \<in> set (pr_declarations p) \<Longrightarrow> g \<in> set (pr_declarations p) \<Longrightarrow> ''parallel_map'' \<notin> fn_name ` set (pr_declarations p)
    \<Longrightarrow> CallExpression (Identifier ''parallel_map'' l) (items # Identifier (fn_name g) l' # as) l'' \<in> set (walk_block (fn_body f))
    \<Longrightarrow> calls_function p f g"

lemma summary_of_function:
  assumes "summaries types n imports p = Inr ss" "distinct (map fn_name (pr_declarations p))" "f \<in> set (pr_declarations p)"
  shows "function_summary types (mk_contracts p (map snd imports)) n (map fst imports) p f = Inr (summary_of ss (fn_name f))"
proof (rule summary_of_cases [OF assms(1), of "fn_name f"])
  show "fn_name f \<notin> set (map fst ss) \<Longrightarrow> ?thesis"
    using assms(3) by (auto simp: summaries_names [OF assms(1)])
  show "?thesis" if "g \<in> set (pr_declarations p)" "fn_name g = fn_name f"
      "function_summary types (mk_contracts p (map snd imports)) n (map fst imports) p g = Inr (summary_of ss (fn_name f))" for g
    using that assms(2,3) by (auto simp: distinct_map dest: inj_onD)
qed

lemma summary_covers:
  assumes "function_summary types c n aliases p f = Inr s" "node \<in> set (walk_block (fn_body f))"
  shows "cs_effects (call_effects types (map fn_name (pr_declarations p)) (variant_names p) aliases node) \<subseteq> cs_effects s"
    "cs_calls (call_effects types (map fn_name (pr_declarations p)) (variant_names p) aliases node) \<subseteq> cs_calls s"
    "cs_foreign (call_effects types (map fn_name (pr_declarations p)) (variant_names p) aliases node) \<subseteq> cs_foreign s"
  using assms by (auto simp: function_summary_def Let_def rbind_eq_Inr)

lemma summary_signature:
  "function_summary types c n aliases p f = Inr s \<Longrightarrow> \<exists>e. signature_effects c n f = Inr e \<and> e \<subseteq> cs_effects s"
  by (auto simp: function_summary_def Let_def rbind_eq_Inr)

lemma signature_insensitive:
  assumes "signature_effects c n f = Inr {}" "q \<in> set (fn_parameters f)" "function_type f (Some (pm_type_ref q)) = Inr t"
  shows "is_sensitive c n t [] = Inr False"
proof -
  obtain inputs where inputs: "rmap (\<lambda>q. rbind (function_type f (Some (pm_type_ref q))) (\<lambda>t. is_sensitive c n t [])) (fn_parameters f) = Inr inputs"
      "True \<notin> set inputs"
    using assms(1) by (auto simp: signature_effects_def rbind_eq_Inr split: if_splits)
  then obtain b where "is_sensitive c n t [] = Inr b" "b \<in> set inputs"
    using assms(2,3) by (fastforce simp: rmap_eq_Inr list_all2_conv_all_nth in_set_conv_nth)
  then show ?thesis using inputs(2) by (cases b) auto
qed

lemma builtin_not_console: "''parallel_map'' \<notin> set CONSOLE_BUILTINS \<union> set QUEUE_BUILTINS \<union> set TASK_BUILTINS"
  by code_simp

lemma calls_function_summary:
  assumes "calls_function p f g" "function_summary types c n aliases p f = Inr s"
  shows "fn_name g \<in> cs_calls s"
  using assms(1)
proof cases
  case (direct l as l')
  then show ?thesis
    using summary_covers(2) [OF assms(2) direct(3)] by (auto simp: call_effects_def identifier_call_def)
next
  case (worker l items l' as l'')
  then show ?thesis
    using summary_covers(2) [OF assms(2) worker(4)] builtin_not_console by (auto simp: call_effects_def identifier_call_def)
qed

lemma calls_reach:
  assumes "summaries types n imports p = Inr ss" "distinct (map fn_name (pr_declarations p))" "(calls_function p)\<^sup>*\<^sup>* f g"
  shows "reaches (\<lambda>name. cs_calls (summary_of ss name)) (fn_name f) (fn_name g)"
  using assms(3)
proof (induction rule: rtranclp_induct)
  case (step g h)
  have "g \<in> set (pr_declarations p)" using step(2) by cases auto
  then have "fn_name h \<in> cs_calls (summary_of ss (fn_name g))"
    using calls_function_summary [OF step(2) summary_of_function [OF assms(1,2)]] by blast
  then show ?case
    using step(3) unfolding reaches_def by (rule rtranclp.rtrancl_into_rtrancl [rotated])
qed (simp add: reaches_def)

lemma accepted_pure_start:
  assumes "check_effect_contracts types n imports reports p = Inr r" "distinct (map fn_name (pr_declarations p))"
    and "f \<in> set (pr_declarations p)" "fn_is_pure f" "(calls_function p)\<^sup>*\<^sup>* f g"
  shows "\<exists>ss. summaries types n imports p = Inr ss \<and> start_effects reports ss (fn_name g) = {}"
proof -
  obtain ss where ss: "summaries types n imports p = Inr ss"
    using assms(1) by (auto simp: check_effect_contracts_def infer_effect_contracts_def rbind_eq_Inr)
  obtain report where report: "infer_effect_contracts types n imports reports p = Inr (Some report)"
      "\<And>name. report name = None \<longleftrightarrow> name \<notin> set (map fn_name (pr_declarations p))"
      "\<And>name s. report name = Some s
        \<Longrightarrow> set (fe_effects s) = reachable_effects (\<lambda>g. cs_calls (summary_of ss g)) (start_effects reports ss) name"
    using infer_effects [OF ss, of reports] by blast
  obtain s where s: "report (fn_name f) = Some s"
    using report(2) [of "fn_name f"] assms(3) by (cases "report (fn_name f)") auto
  have "map_of (rev (map (\<lambda>f. (fn_name f, f)) (pr_declarations p))) (fn_name f) = Some f"
    using assms(2,3) by (intro map_of_is_SomeI) (auto simp: rev_map [symmetric] distinct_map comp_def)
  then have "fe_effects s = []"
    using assms(1,3,4) s by (fastforce simp: check_effect_contracts_def report(1) rbind_eq_Inr rfor_Inr semantic_error_def split: if_splits)
  then have "start_effects reports ss (fn_name g) = {}"
    using report(3) [OF s] calls_reach [OF ss assms(2,5)] unfolding reachable_effects_def by auto
  then show ?thesis using ss by blast
qed


text \<open>Witnesses on \<open>pure fn a(x: Int) { b(x) } fn b(x: Int) { a(x) } fn main() { println(1) }\<close>.\<close>

definition one_call :: "bool \<Rightarrow> string \<Rightarrow> string list \<Rightarrow> string \<Rightarrow> function_declaration" where
  "one_call pure name params callee =
     (let here = \<lparr>loc_line = 1, loc_column = 1\<rparr> in
      \<lparr>fn_name = name,
       fn_parameters = map (\<lambda>x. \<lparr>pm_name = x, pm_type_ref = \<lparr>tr_names = [''Int''], tr_location = here\<rparr>, pm_location = here\<rparr>) params,
       fn_return_type = None,
       fn_body = Block [ExpressionStatement (CallExpression (Identifier callee here) [Literal (Int_Lit 1) here] here) here],
       fn_location = here, fn_is_pure = pure, fn_type_parameters = [], fn_is_transition = False\<rparr>)"

definition mutual_program :: program where
  "mutual_program = empty_program\<lparr>pr_declarations :=
     [one_call True ''a'' [''x''] ''b'', one_call False ''b'' [''x''] ''a'', one_call False ''main'' [] ''println'']\<rparr>"

theorem effect_inference_exact_witness:
  "\<exists>report s. infer_effect_contracts (\<lambda>_. None) 5 [] Map.empty mutual_program = Inr (Some report)
    \<and> report ''main'' = Some s \<and> ''console.write'' \<in> set (fe_effects s)"
proof -
  have "(case summaries (\<lambda>_. None) 5 [] mutual_program of Inl _ \<Rightarrow> False
      | Inr ss \<Rightarrow> ''console.write'' \<in> cs_effects (summary_of ss ''main''))" by code_simp
  then obtain ss where ss: "summaries (\<lambda>_. None) 5 [] mutual_program = Inr ss" "''console.write'' \<in> start_effects Map.empty ss ''main''"
    by (auto simp: start_effects_def split: sum.splits)
  have main: "one_call False ''main'' [] ''println'' \<in> set (pr_declarations mutual_program)" "fn_name (one_call False ''main'' [] ''println'') = ''main''"
    by (simp_all add: mutual_program_def one_call_def Let_def)
  from effect_inference_exact [OF ss(1), of Map.empty] ss(2) main show ?thesis by fastforce
qed


end
