(* ===== verification/Typestate_Resources.thy ===== *)
theory Typestate_Resources
  imports Effect_Contracts
begin

text \<open>
  Typestate resources (\<open>koschei/typestate_resources_v1.py\<close>): a \<open>stateful struct\<close> has one type parameter,
  its state, and a declared initial state. Functions construct it in the initial state only; a \<open>transition fn\<close>
  takes it in one state and constructs it in another as its result. The typed report of the pass before is an
  argument: the list of the typed expressions, in order.
\<close>

section \<open>Stateful types\<close>

definition CONTAINER_TYPES :: "string list" where
  "CONTAINER_TYPES = [''List'', ''Map'', ''Option'', ''Result'', ''BoundedQueue'']"

definition stateful_declaration :: "type_node \<Rightarrow> contracts \<Rightarrow> struct_declaration option" where
  "stateful_declaration t c = (case base_name t of
     None \<Rightarrow> None
   | Some name \<Rightarrow> (case ct_structs c name of
       None \<Rightarrow> None
     | Some d \<Rightarrow> if st_is_stateful d then Some d else None))"

definition stateful_instance :: "type_node \<Rightarrow> contracts \<Rightarrow> (struct_declaration \<times> string) option" where
  "stateful_instance t c = (case t of
     GenericType name arguments \<Rightarrow> (case stateful_declaration t c of
       None \<Rightarrow> None
     | Some d \<Rightarrow> (case arguments of [NamedType marker] \<Rightarrow> Some (d, marker) | _ \<Rightarrow> None))
   | _ \<Rightarrow> None)"

text \<open>\<open>is_typestate_affine\<close>, on a bound for the depth of its recursion.\<close>

fun is_typestate_affine :: "contracts \<Rightarrow> nat \<Rightarrow> type_node \<Rightarrow> string list \<Rightarrow> bool result" where
  "is_typestate_affine c 0 t seen = raise RecursionError ''maximum recursion depth exceeded''"
| "is_typestate_affine c (Suc n) t seen = (case t of
     UnknownType \<Rightarrow> Inr False
   | TypeVariable _ \<Rightarrow> Inr False
   | UnionType options \<Rightarrow> rany (\<lambda>option. is_typestate_affine c n option seen) options
   | GenericType name arguments \<Rightarrow>
       if stateful_declaration t c \<noteq> None then Inr True
       else rbind (rany (\<lambda>argument. is_typestate_affine c n argument seen) arguments) (\<lambda>inside.
         if inside then Inr True
         else (case ct_structs c name of
           None \<Rightarrow> Inr False
         | Some d \<Rightarrow>
             let key = render_type t; mapping = rev (zip (st_type_parameters d) arguments) in
             if key \<in> set seen then Inr False
             else rany (\<lambda>f. rbind (declaration_type (st_type_parameters d) (Some (sf_type_ref f))) (\<lambda>pattern.
                    is_typestate_affine c n (substitute_type pattern mapping) (key # seen))) (st_fields d)))
   | NamedType name \<Rightarrow>
       if stateful_declaration t c \<noteq> None then Inr True
       else if name \<in> set seen then Inr False
       else (case ct_structs c name of
         None \<Rightarrow> Inr False
       | Some d \<Rightarrow> rany (\<lambda>f. rbind (declaration_type (st_type_parameters d) (Some (sf_type_ref f))) (\<lambda>t.
                     is_typestate_affine c n t (name # seen))) (st_fields d)))"

section \<open>Declarations and types\<close>

definition validate_marker :: "contracts \<Rightarrow> type_node \<Rightarrow> source_location \<Rightarrow> string \<Rightarrow> unit result" where
  "validate_marker c marker location subject = (case marker of
     NamedType name \<Rightarrow>
       (case ct_structs c name of
          Some d \<Rightarrow>
            if st_fields d \<noteq> [] \<or> st_type_parameters d \<noteq> [] \<or> st_is_stateful d then
              semantic_error ''KS3951'' ''{}: {} zero-field, non-generic state-marker struct olmalidir.'' [subject, name] location
            else Inr ()
        | None \<Rightarrow>
            semantic_error ''KS3951'' ''{}: {} zero-field, non-generic state-marker struct olmalidir.'' [subject, name] location)
   | _ \<Rightarrow> semantic_error ''KS3951'' ''{}: typestate marker zero-field somut struct olmalidir.'' [subject] location)"

definition validate_stateful_declaration :: "contracts \<Rightarrow> struct_declaration \<Rightarrow> unit result" where
  "validate_stateful_declaration c d = (case st_type_parameters d of
     [parameter] \<Rightarrow>
       (case filter (\<lambda>f. sf_name f = ''state'') (st_fields d) of
          [state_field] \<Rightarrow>
            rbind (declaration_type (st_type_parameters d) (Some (sf_type_ref state_field))) (\<lambda>state_type.
            if state_type \<noteq> TypeVariable parameter then
              semantic_error ''KS3950'' ''{}.state dogrudan state parametresi {} olmalidir.'' [st_name d, parameter] (sf_location state_field)
            else if st_initial_state d = None \<or> st_initial_state d = Some [] then
              semantic_error ''KS3950'' ''stateful struct {} starts InitialState ilan etmelidir.'' [st_name d] (st_location d)
            else validate_marker c (NamedType (the (st_initial_state d))) (st_location d)
              (''stateful struct '' @ st_name d @ '' baslangic state'' ))
        | _ \<Rightarrow> semantic_error ''KS3950'' ''stateful struct {} tam bir state: {} alani tasimalidir.'' [st_name d, parameter] (st_location d))
   | _ \<Rightarrow> semantic_error ''KS3950'' ''stateful struct {} tam 1 state tip parametresi istemelidir.'' [st_name d] (st_location d))"

text \<open>\<open>_validate_type\<close>.\<close>

fun validate_state_type :: "contracts \<Rightarrow> nat \<Rightarrow> type_node \<Rightarrow> source_location \<Rightarrow> string \<Rightarrow> unit result" where
  "validate_state_type c n UnknownType location subject = Inr ()"
| "validate_state_type c n (TypeVariable _) location subject = Inr ()"
| "validate_state_type c n (NamedType _) location subject = Inr ()"
| "validate_state_type c n (UnionType options) location subject =
     rfor (\<lambda>option. validate_state_type c n option location subject) options"
| "validate_state_type c n (GenericType name arguments) location subject =
     (if stateful_declaration (GenericType name arguments) c \<noteq> None then
        (case arguments of
           [marker] \<Rightarrow> validate_marker c marker location subject
         | _ \<Rightarrow> semantic_error ''KS3950'' ''{}: stateful {} tam 1 state argumani ister.'' [subject, name] location)
      else
        rbind (if name \<in> set CONTAINER_TYPES then rany (\<lambda>argument. is_typestate_affine c n argument []) arguments else Inr False) (\<lambda>hidden.
        if hidden then
          semantic_error ''KS3952'' ''{}: stateful resource {} generic container icinde saklanamaz; container element ownership v1 icinde move-aware degil.'' [subject, name] location
        else rfor (\<lambda>argument. validate_state_type c n argument location subject) arguments))"

definition validate_payload :: "contracts \<Rightarrow> nat \<Rightarrow> enum_declaration \<Rightarrow> enum_variant \<Rightarrow> unit result" where
  "validate_payload c n d v = (case ev_payload_type v of
     None \<Rightarrow> Inr ()
   | Some r \<Rightarrow>
       rbind (declaration_type (en_type_parameters d) (Some r)) (\<lambda>payload.
       rbind (is_typestate_affine c n payload []) (\<lambda>affine.
       if affine then semantic_error ''KS3952'' ''Stateful resource enum payload icinde saklanamaz; v1 match payload ownership partial-move olarak modellemiyor.'' [] (ev_location v)
       else validate_state_type c n payload (ev_location v) (en_name d @ ''.'' @ ev_name v @ '' payload''))))"

section \<open>Construction and transitions\<close>

text \<open>
  \<open>_stateful_literals\<close>: the struct literals of the body (in the order of \<open>_walk\<close>, which this file repeats from
  \<open>effect_contracts_v1.py\<close>) whose type is a stateful struct in a named state.
\<close>

definition type_of :: "(expression \<Rightarrow> type_node option) \<Rightarrow> expression \<Rightarrow> type_node" where
  "type_of types e = (case types e of None \<Rightarrow> UnknownType | Some t \<Rightarrow> t)"

fun is_struct_literal :: "expression \<Rightarrow> bool" where
  "is_struct_literal (StructLiteral _ _ _) = True"
| "is_struct_literal _ = False"

definition stateful_literals ::
  "(expression \<Rightarrow> type_node option) \<Rightarrow> contracts \<Rightarrow> function_declaration \<Rightarrow> (expression \<times> struct_declaration \<times> string) list" where
  "stateful_literals types c f =
     concat (map (\<lambda>e. case stateful_instance (type_of types e) c of None \<Rightarrow> [] | Some (d, marker) \<Rightarrow> [(e, d, marker)])
       (filter is_struct_literal (walk_block (fn_body f))))"

definition validate_ordinary_construction ::
  "(expression \<Rightarrow> type_node option) \<Rightarrow> contracts \<Rightarrow> function_declaration \<Rightarrow> unit result" where
  "validate_ordinary_construction types c f =
     rfor (\<lambda>(e, d, marker).
       if st_initial_state d \<noteq> Some marker then
         semantic_error ''KS3953'' ''{}<{}> non-initial state normal fn icinde dogrudan forge edilemez; {declaration.name}<{initial}> ile baslayin ve transition fn kullanin.'' [st_name d, marker] (location_of e)
       else Inr ()) (stateful_literals types c f)"

text \<open>
  \<open>_reject_source_escape\<close>: the source may only stand as the object of a member expression; \<open>borrowed\<close> is
  this position (\<open>parent\<close> and \<open>role\<close>).
\<close>

fun escape_expression :: "string \<Rightarrow> bool \<Rightarrow> expression \<Rightarrow> unit result"
  and escape_arm :: "string \<Rightarrow> match_arm \<Rightarrow> unit result"
  and escape_body :: "string \<Rightarrow> arm_body \<Rightarrow> unit result"
  and escape_statement :: "string \<Rightarrow> statement \<Rightarrow> unit result"
  and escape_else :: "string \<Rightarrow> else_branch \<Rightarrow> unit result"
  and escape_block :: "string \<Rightarrow> block \<Rightarrow> unit result" where
  "escape_expression src borrowed (Identifier n l) =
     (if n = src \<and> \<not> borrowed then
        semantic_error ''KS3953'' ''transition source {} butun deger olarak baska yere move/alias edilemez; yalniz field borrow ile target kurulabilir.'' [src] l
      else Inr ())"
| "escape_expression src borrowed (Literal v l) = Inr ()"
| "escape_expression src borrowed (InterpolatedString ps l) = rfor (escape_expression src False) ps"
| "escape_expression src borrowed (StructLiteral t fs l) = rfor (\<lambda>(_, e). escape_expression src False e) fs"
| "escape_expression src borrowed (ListLiteral xs l) = rfor (escape_expression src False) xs"
| "escape_expression src borrowed (MapLiteral es l) =
     rfor (\<lambda>(k, v). rbind (escape_expression src False k) (\<lambda>_. escape_expression src False v)) es"
| "escape_expression src borrowed (MemberExpression ob m l) = escape_expression src True ob"
| "escape_expression src borrowed (CallExpression f as l) =
     rbind (escape_expression src False f) (\<lambda>_. rfor (escape_expression src False) as)"
| "escape_expression src borrowed (AssignmentExpression t v l) =
     rbind (escape_expression src False t) (\<lambda>_. escape_expression src False v)"
| "escape_expression src borrowed (BinaryExpression a op b l) =
     rbind (escape_expression src False a) (\<lambda>_. escape_expression src False b)"
| "escape_expression src borrowed (UnaryExpression op a l) = escape_expression src False a"
| "escape_expression src borrowed (OrReturnExpression v er l) =
     rbind (escape_expression src False v) (\<lambda>_. case er of None \<Rightarrow> Inr () | Some e \<Rightarrow> escape_expression src False e)"
| "escape_expression src borrowed (OrElseExpression v fb l) =
     rbind (escape_expression src False v) (\<lambda>_. escape_expression src False fb)"
| "escape_expression src borrowed (OrBlockExpression v b l) = rbind (escape_expression src False v) (\<lambda>_. escape_block src b)"
| "escape_expression src borrowed (MatchExpression v arms l) =
     rbind (escape_expression src False v) (\<lambda>_. rfor (escape_arm src) arms)"
| "escape_arm src (MatchArm v b body l) = escape_body src body"
| "escape_body src (Expression_Body e) = escape_expression src False e"
| "escape_body src (Block_Body b) = escape_block src b"
| "escape_statement src (LetStatement n m v l t) = escape_expression src False v"
| "escape_statement src (ReturnStatement v l) = (case v of None \<Rightarrow> Inr () | Some e \<Rightarrow> escape_expression src False e)"
| "escape_statement src (ExpressionStatement e l) = escape_expression src False e"
| "escape_statement src (IfStatement c t el l) =
     rbind (escape_expression src False c) (\<lambda>_. rbind (escape_block src t) (\<lambda>_.
       case el of None \<Rightarrow> Inr () | Some e \<Rightarrow> escape_else src e))"
| "escape_statement src (WhileStatement c b l) = rbind (escape_expression src False c) (\<lambda>_. escape_block src b)"
| "escape_statement src (ForStatement x it b l) = rbind (escape_expression src False it) (\<lambda>_. escape_block src b)"
| "escape_statement src (BreakStatement l) = Inr ()"
| "escape_statement src (ContinueStatement l) = Inr ()"
| "escape_else src (Else_Block b) = escape_block src b"
| "escape_else src (Else_If s) = escape_statement src s"
| "escape_block src (Block ss) = rfor (escape_statement src) ss"

text \<open>\<open>_validate_transition\<close>: the signature (the source parameter with its state, and the type of the result), and the body.\<close>

definition transition_sources :: "contracts \<Rightarrow> function_declaration \<Rightarrow> (parameter \<times> type_node \<times> struct_declaration \<times> string) list result" where
  "transition_sources c f =
     rbind (rmap (\<lambda>p. rbind (function_type f (Some (pm_type_ref p))) (\<lambda>t.
         Inr (case stateful_instance t c of None \<Rightarrow> [] | Some (d, marker) \<Rightarrow> [(p, t, d, marker)])))
       (fn_parameters f)) (\<lambda>found. Inr (concat found))"

definition transition_source ::
  "contracts \<Rightarrow> function_declaration \<Rightarrow> struct_declaration \<Rightarrow> string \<Rightarrow> (parameter \<times> type_node \<times> struct_declaration \<times> string) list \<Rightarrow> parameter result" where
  "transition_source c f target target_marker sources =
     (if length sources \<noteq> 1 then
        semantic_error ''KS3953'' ''transition fn v1 tam 1 dogrudan stateful source parametresi almalidir.'' [] (fn_location f)
      else
        let (parameter, source_type, source, source_marker) = sources ! 0 in
        if st_name source \<noteq> st_name target then
          semantic_error ''KS3953'' ''transition fn source ve target ayni stateful resource ailesine ait olmalidir.'' [] (fn_location f)
        else
          rbind (validate_marker c (NamedType source_marker) (pm_location parameter) ''transition source state'') (\<lambda>_.
          if source_marker = target_marker then
            semantic_error ''KS3953'' ''transition fn state degistirmelidir; source ve target ikisi de {}.'' [render_type source_type] (fn_location f)
          else Inr parameter))"

definition transition_signature :: "contracts \<Rightarrow> function_declaration \<Rightarrow> (parameter \<times> type_node) result" where
  "transition_signature c f =
     (case fn_return_type f of
        None \<Rightarrow> semantic_error ''KS3953'' ''transition fn main olamaz ve somut stateful donus tipi tasimalidir.'' [] (fn_location f)
      | Some r \<Rightarrow>
        if fn_name f = ''main'' then
          semantic_error ''KS3953'' ''transition fn main olamaz ve somut stateful donus tipi tasimalidir.'' [] (fn_location f)
        else
          rbind (function_type f (Some r)) (\<lambda>return_type.
          case stateful_instance return_type c of
            None \<Rightarrow> semantic_error ''KS3953'' ''transition fn donus tipi somut stateful Resource<State> olmalidir.'' [] (tr_location r)
          | Some (target, target_marker) \<Rightarrow>
            rbind (validate_marker c (NamedType target_marker) (tr_location r) ''transition target state'') (\<lambda>_.
            rbind (transition_sources c f) (\<lambda>sources.
            rbind (transition_source c f target target_marker sources) (\<lambda>parameter. Inr (parameter, return_type))))))"

definition block_statements :: "block \<Rightarrow> statement list" where
  "block_statements b = (case b of Block ss \<Rightarrow> ss)"

definition transition_body ::
  "(expression \<Rightarrow> type_node option) \<Rightarrow> contracts \<Rightarrow> function_declaration \<Rightarrow> type_node \<Rightarrow> unit result" where
  "transition_body types c f return_type =
     (case rev (block_statements (fn_body f)) of
        ReturnStatement v location # _ \<Rightarrow>
          (case v of
             Some (StructLiteral t fs l) \<Rightarrow>
               let final = StructLiteral t fs l in
               if map fst (stateful_literals types c f) \<noteq> [final] then
                 semantic_error ''KS3953'' ''transition fn v1 tam 1 stateful target literal uretmelidir; ara/ek stateful constructor yasaktir.''
                   [] (fn_location f)
               else if type_of types final \<noteq> return_type then
                 semantic_error ''KS3953'' ''transition final literal {} olmali, {} bulundu.''
                   [render_type return_type, render_type (type_of types final)] location
               else Inr ()
           | _ \<Rightarrow> semantic_error ''KS3953'' ''transition fn v1 final return icinde stateful target struct literalini dogrudan uretmelidir.'' [] location)
      | _ \<Rightarrow> semantic_error ''KS3953'' ''transition fn v1 final statement olarak target state return etmelidir.'' [] (fn_location f))"

definition validate_transition :: "(expression \<Rightarrow> type_node option) \<Rightarrow> contracts \<Rightarrow> function_declaration \<Rightarrow> unit result" where
  "validate_transition types c f =
     rbind (transition_signature c f) (\<lambda>(parameter, return_type).
     rbind (transition_body types c f return_type) (\<lambda>_.
     escape_block (pm_name parameter) (fn_body f)))"

section \<open>The checker\<close>

definition validate_state_function :: "(expression \<Rightarrow> type_node option) \<Rightarrow> contracts \<Rightarrow> nat \<Rightarrow> function_declaration \<Rightarrow> unit result" where
  "validate_state_function types c n f =
     rbind (rfor (\<lambda>p. rbind (function_type f (Some (pm_type_ref p))) (\<lambda>t.
       validate_state_type c n t (pm_location p) (fn_name f @ ''.'' @ pm_name p @ '' parametresi''))) (fn_parameters f)) (\<lambda>_.
     rbind (case fn_return_type f of
         None \<Rightarrow> Inr ()
       | Some r \<Rightarrow> rbind (function_type f (Some r)) (\<lambda>t. validate_state_type c n t (tr_location r) (fn_name f @ '' donus tipi''))) (\<lambda>_.
     if fn_is_transition f then validate_transition types c f else validate_ordinary_construction types c f))"

definition check_typestate_resources :: "nat \<Rightarrow> contracts list \<Rightarrow> (expression \<times> type_node) list \<Rightarrow> program \<Rightarrow> unit result" where
  "check_typestate_resources n imports report p =
     (let c = mk_contracts p imports; types = map_of (rev report) in
      rbind (rfor (\<lambda>d. if st_is_stateful d then validate_stateful_declaration c d else Inr ()) (pr_structs p)) (\<lambda>_.
      rbind (rfor (\<lambda>d. if st_is_stateful d then Inr ()
          else rfor (\<lambda>f. rbind (declaration_type (st_type_parameters d) (Some (sf_type_ref f))) (\<lambda>t.
            validate_state_type c n t (sf_location f) (st_name d @ ''.'' @ sf_name f @ '' alani''))) (st_fields d)) (pr_structs p)) (\<lambda>_.
      rbind (rfor (\<lambda>d. rfor (validate_payload c n d) (en_variants d)) (pr_enums p)) (\<lambda>_.
      rbind (rfor (validate_state_function types c n) (pr_declarations p)) (\<lambda>_.
      rfor (\<lambda>(e, t). validate_state_type c n t (location_of e) ''ifade'') report)))))"

section \<open>States change by transitions only\<close>

text \<open>A name occurs in a list of nodes only as the object of member expressions.\<close>

fun names_it :: "string \<Rightarrow> expression \<Rightarrow> bool" where
  "names_it src (Identifier n l) = (n = src)"
| "names_it src _ = False"

fun borrows_it :: "string \<Rightarrow> expression \<Rightarrow> bool" where
  "borrows_it src (MemberExpression ob m l) = names_it src ob"
| "borrows_it src _ = False"

definition only_borrowed :: "string \<Rightarrow> expression list \<Rightarrow> bool" where
  "only_borrowed src nodes \<longleftrightarrow> length (filter (names_it src) nodes) = length (filter (borrows_it src) nodes)"

lemma only_borrowed_Nil: "only_borrowed src []"
  by (simp add: only_borrowed_def)

lemma only_borrowed_append: "only_borrowed src xs \<Longrightarrow> only_borrowed src ys \<Longrightarrow> only_borrowed src (xs @ ys)"
  by (simp add: only_borrowed_def)

lemma only_borrowed_concat: "(\<And>x. x \<in> set xs \<Longrightarrow> only_borrowed src (f x)) \<Longrightarrow> only_borrowed src (concat (map f xs))"
  by (induction xs) (auto simp: only_borrowed_Nil intro: only_borrowed_append)

lemma only_borrowed_Cons: "\<not> names_it src e \<Longrightarrow> \<not> borrows_it src e \<Longrightarrow> only_borrowed src xs \<Longrightarrow> only_borrowed src (e # xs)"
  by (simp add: only_borrowed_def)

lemmas only_borrowed_intros =
  only_borrowed_Nil only_borrowed_append only_borrowed_concat only_borrowed_Cons

lemma only_borrowed_member:
  "only_borrowed src (walk_expression ob) \<or> names_it src ob \<Longrightarrow> only_borrowed src (MemberExpression ob m l # walk_expression ob)"
  by (cases ob) (auto simp: only_borrowed_def)

lemma escape_only_borrowed:
  "escape_expression src b e = Inr () \<Longrightarrow> only_borrowed src (walk_expression e) \<or> b \<and> names_it src e"
  "escape_arm src arm = Inr () \<Longrightarrow> only_borrowed src (walk_arm arm)"
  "escape_body src body = Inr () \<Longrightarrow> only_borrowed src (walk_body body)"
  "escape_statement src s = Inr () \<Longrightarrow> only_borrowed src (walk_statement s)"
  "escape_else src el = Inr () \<Longrightarrow> only_borrowed src (walk_else el)"
  "escape_block src block = Inr () \<Longrightarrow> only_borrowed src (walk_block block)"
proof (induction src b e and src arm and src body and src s and src el and src block
    rule: escape_expression_escape_arm_escape_body_escape_statement_escape_else_escape_block.induct)
  case (7 src borrowed ob m l)
  then show ?case using only_borrowed_member by auto
qed (auto simp: rbind_eq_Inr rfor_Inr semantic_error_def intro!: only_borrowed_intros only_borrowed_Cons split: option.splits if_splits)

definition state_marker :: "contracts \<Rightarrow> string \<Rightarrow> bool" where
  "state_marker c name \<longleftrightarrow> (\<exists>d. ct_structs c name = Some d \<and> st_fields d = [] \<and> st_type_parameters d = [] \<and> \<not> st_is_stateful d)"

lemma validate_marker_ok: "validate_marker c (NamedType name) l subject = Inr () \<Longrightarrow> state_marker c name"
  by (auto simp: validate_marker_def state_marker_def semantic_error_def split: option.splits if_splits)

lemma stateful_instance_iff:
  "stateful_instance t c = Some (d, marker)
    \<longleftrightarrow> (\<exists>name. t = GenericType name [NamedType marker] \<and> ct_structs c name = Some d \<and> st_is_stateful d)"
  by (auto simp: stateful_instance_def stateful_declaration_def split: type_node.splits option.splits list.splits if_splits)

lemma stateful_literals_iff:
  "(e, d, marker) \<in> set (stateful_literals types c f)
    \<longleftrightarrow> e \<in> set (walk_block (fn_body f)) \<and> is_struct_literal e \<and> stateful_instance (type_of types e) c = Some (d, marker)"
  by (auto simp: stateful_literals_def split: option.splits)

lemma transition_sources_mem:
  assumes "transition_sources c f = Inr sources" "(p, t, d, marker) \<in> set sources"
  shows "p \<in> set (fn_parameters f)" "function_type f (Some (pm_type_ref p)) = Inr t" "stateful_instance t c = Some (d, marker)"
proof -
  obtain found where found: "sources = concat found"
    "list_all2 (\<lambda>p x. rbind (function_type f (Some (pm_type_ref p))) (\<lambda>t.
         Inr (case stateful_instance t c of None \<Rightarrow> [] | Some (d, marker) \<Rightarrow> [(p, t, d, marker)])) = Inr x) (fn_parameters f) found"
    using assms(1) by (auto simp: transition_sources_def rbind_eq_Inr rmap_eq_Inr)
  obtain x where x: "x \<in> set found" "(p, t, d, marker) \<in> set x"
    using assms(2) unfolding found(1) by auto
  then obtain i where i: "i < length found" "found ! i = x" by (auto simp: in_set_conv_nth)
  let ?q = "fn_parameters f ! i"
  have q: "?q \<in> set (fn_parameters f)"
    using list_all2_lengthD [OF found(2)] i(1) by simp
  obtain u where "function_type f (Some (pm_type_ref ?q)) = Inr u"
      "(case stateful_instance u c of None \<Rightarrow> [] | Some (d, marker) \<Rightarrow> [(?q, u, d, marker)]) = x"
    using list_all2_nthD2 [OF found(2) i(1)] i(2) by (auto simp: rbind_eq_Inr)
  with x(2) q show "p \<in> set (fn_parameters f)" "function_type f (Some (pm_type_ref p)) = Inr t" "stateful_instance t c = Some (d, marker)"
    by (auto split: option.splits)
qed

lemma transition_source_ok:
  assumes "transition_source c f target target_marker sources = Inr p"
  obtains t source marker where "sources = [(p, t, source, marker)]" "st_name source = st_name target" "marker \<noteq> target_marker"
    "state_marker c marker"
proof -
  obtain x where "sources = [x]"
    using assms by (auto simp: transition_source_def semantic_error_def length_Suc_conv split: if_splits)
  then show ?thesis
    using assms that
    by (cases x) (auto simp: transition_source_def semantic_error_def rbind_eq_Inr dest: validate_marker_ok split: if_splits)
qed

lemma transition_signature_ok:
  assumes "transition_signature c f = Inr (p, t)"
  obtains d marker d' marker' t' where "function_type f (fn_return_type f) = Inr t" "stateful_instance t c = Some (d, marker)"
    "p \<in> set (fn_parameters f)" "function_type f (Some (pm_type_ref p)) = Inr t'" "stateful_instance t' c = Some (d', marker')"
    "st_name d' = st_name d" "marker' \<noteq> marker" "state_marker c marker" "state_marker c marker'"
proof -
  obtain r d marker sources where r: "fn_return_type f = Some r" "function_type f (Some r) = Inr t" "stateful_instance t c = Some (d, marker)"
      "validate_marker c (NamedType marker) (tr_location r) ''transition target state'' = Inr ()"
      "transition_sources c f = Inr sources" "transition_source c f d marker sources = Inr p"
    using assms by (auto simp: transition_signature_def rbind_eq_Inr semantic_error_def split: option.splits if_splits)
  obtain t' d' marker' where source: "sources = [(p, t', d', marker')]" "st_name d' = st_name d" "marker' \<noteq> marker" "state_marker c marker'"
    by (rule transition_source_ok [OF r(6)])
  show ?thesis
    using that [OF _ r(3) _ _ _ source(2,3) validate_marker_ok [OF r(4)] source(4)]
      transition_sources_mem [OF r(5), of p t' d' marker'] r source(1) by simp
qed

lemma transition_body_ok:
  assumes "transition_body types c f t = Inr ()"
  obtains ss e l where "block_statements (fn_body f) = ss @ [ReturnStatement (Some e) l]"
    "map fst (stateful_literals types c f) = [e]" "type_of types e = t"
proof -
  obtain v l rest where rev: "rev (block_statements (fn_body f)) = ReturnStatement v l # rest"
    using assms by (auto simp: transition_body_def semantic_error_def split: list.splits statement.splits)
  then have "block_statements (fn_body f) = rev rest @ [ReturnStatement v l]"
    by (simp add: rev_eq_Cons_iff)
  moreover obtain e where "v = Some e" "map fst (stateful_literals types c f) = [e]" "type_of types e = t"
    using assms rev by (auto simp: transition_body_def semantic_error_def Let_def split: option.splits expression.splits if_splits)
  ultimately show ?thesis using that by simp
qed

lemma initial_state_marker:
  assumes "validate_stateful_declaration c d = Inr ()"
  shows "\<exists>marker. st_initial_state d = Some marker \<and> state_marker c marker"
  using assms
  by (auto simp: validate_stateful_declaration_def rbind_eq_Inr semantic_error_def dest: validate_marker_ok split: list.splits if_splits)

text \<open>
  C35. A state is only left by a transition: in a program the typestate checker accepts, every literal of a
  stateful struct stands in an ordinary function and has the initial state, or is the returned value of a
  transition of exactly its type, whose source parameter is of the same family in another
  state (both states being plain marker structs) and is used in the body for reading its fields only.
\<close>

theorem states_change_by_transitions_only:
  assumes "check_typestate_resources n imports report p = Inr ()" "f \<in> set (pr_declarations p)"
    and "StructLiteral s fs l \<in> set (walk_block (fn_body f))"
    and "map_of (rev report) (StructLiteral s fs l) = Some (GenericType name [NamedType state])"
    and "ct_structs (mk_contracts p imports) name = Some d" "st_is_stateful d"
  shows "if fn_is_transition f
    then (\<exists>ss l'. block_statements (fn_body f) = ss @ [ReturnStatement (Some (StructLiteral s fs l)) l'])
      \<and> function_type f (fn_return_type f) = Inr (GenericType name [NamedType state])
      \<and> (\<exists>source family d' state'. source \<in> set (fn_parameters f)
          \<and> function_type f (Some (pm_type_ref source)) = Inr (GenericType family [NamedType state'])
          \<and> ct_structs (mk_contracts p imports) family = Some d' \<and> st_name d' = st_name d \<and> state' \<noteq> state
          \<and> state_marker (mk_contracts p imports) state \<and> state_marker (mk_contracts p imports) state'
          \<and> only_borrowed (pm_name source) (walk_block (fn_body f)))
    else st_initial_state d = Some state"
proof -
  let ?c = "mk_contracts p imports" and ?types = "map_of (rev report)" and ?e = "StructLiteral s fs l"
  have ty: "type_of ?types ?e = GenericType name [NamedType state]"
    using assms(4) by (simp add: type_of_def)
  then have inst: "stateful_instance (type_of ?types ?e) ?c = Some (d, state)"
    using assms(5,6) by (simp add: stateful_instance_iff)
  then have literal: "(?e, d, state) \<in> set (stateful_literals ?types ?c f)"
    using assms(3) by (simp add: stateful_literals_iff)
  have fun_ok: "validate_state_function ?types ?c n f = Inr ()"
    using assms(1,2) by (simp add: check_typestate_resources_def Let_def rbind_eq_Inr rfor_Inr)
  show ?thesis
  proof (cases "fn_is_transition f")
    case False
    then show ?thesis
      using fun_ok literal
      by (fastforce simp: validate_state_function_def rbind_eq_Inr validate_ordinary_construction_def rfor_Inr semantic_error_def split: if_splits)
  next
    case True
    then obtain q t where sig: "transition_signature ?c f = Inr (q, t)" and body: "transition_body ?types ?c f t = Inr ()"
      and escape: "escape_block (pm_name q) (fn_body f) = Inr ()"
      using fun_ok by (auto simp: validate_state_function_def rbind_eq_Inr validate_transition_def)
    obtain ss e l' where last: "block_statements (fn_body f) = ss @ [ReturnStatement (Some e) l']"
        "map fst (stateful_literals ?types ?c f) = [e]" "type_of ?types e = t"
      by (rule transition_body_ok [OF body])
    have "fst (?e, d, state) \<in> fst ` set (stateful_literals ?types ?c f)"
      using literal by (rule imageI)
    then have e: "e = ?e"
      using last(2) by (simp flip: set_map)
    obtain d1 m1 d' state' t' where sig: "function_type f (fn_return_type f) = Inr t" "stateful_instance t ?c = Some (d1, m1)"
        "q \<in> set (fn_parameters f)" "function_type f (Some (pm_type_ref q)) = Inr t'" "stateful_instance t' ?c = Some (d', state')"
        "st_name d' = st_name d1" "state' \<noteq> m1" "state_marker ?c m1" "state_marker ?c state'"
      by (rule transition_signature_ok [OF sig])
    have t: "t = GenericType name [NamedType state]" "d1 = d" "m1 = state"
      using last(3) ty inst sig(2) by (simp_all add: e)
    obtain family where "t' = GenericType family [NamedType state']" "ct_structs ?c family = Some d'"
      using sig(5) by (auto simp: stateful_instance_iff)
    with True last(1) sig(1,3,4,6-9) escape_only_borrowed(6) [OF escape] show ?thesis
      unfolding t e by auto
  qed
qed

text \<open>
  The witness is the example at the head of the source file: \<open>stateful struct Tx<S> starts Open { state: S }\<close> with
  \<open>transition fn settle(tx: Tx<Open>) -> Tx<Settled> { return Tx { state: Settled {} } }\<close>.
\<close>

definition loc :: "int \<Rightarrow> source_location" where "loc column = \<lparr>loc_line = 1, loc_column = column\<rparr>"

definition type_name :: "string \<Rightarrow> type_ref" where "type_name name = \<lparr>tr_names = [name], tr_location = loc 1\<rparr>"

definition settled_literal :: expression where
  "settled_literal = StructLiteral ''Tx'' [(''state'', StructLiteral ''Settled'' [] (loc 9))] (loc 5)"

definition settle :: function_declaration where
  "settle = \<lparr>fn_name = ''settle'', fn_parameters = [\<lparr>pm_name = ''tx'', pm_type_ref = type_name ''Tx<Open>'', pm_location = loc 1\<rparr>],
     fn_return_type = Some (type_name ''Tx<Settled>''), fn_body = Block [ReturnStatement (Some settled_literal) (loc 3)],
     fn_location = loc 1, fn_is_pure = False, fn_type_parameters = [], fn_is_transition = True\<rparr>"

definition plain_struct :: "string \<Rightarrow> struct_declaration" where
  "plain_struct name = \<lparr>st_name = name, st_fields = [], st_location = loc 1, st_type_parameters = [], st_is_stateful = False, st_initial_state = None\<rparr>"

definition tx_struct :: struct_declaration where
  "tx_struct = \<lparr>st_name = ''Tx'', st_fields = [\<lparr>sf_name = ''state'', sf_type_ref = type_name ''S'', sf_location = loc 1\<rparr>], st_location = loc 1,
     st_type_parameters = [''S''], st_is_stateful = True, st_initial_state = Some ''Open''\<rparr>"

definition tx_program :: program where
  "tx_program = empty_program\<lparr>pr_structs := [plain_struct ''Open'', plain_struct ''Settled'', tx_struct], pr_declarations := [settle]\<rparr>"

definition tx_report :: "(expression \<times> type_node) list" where
  "tx_report = [(StructLiteral ''Settled'' [] (loc 9), NamedType ''Settled''), (settled_literal, GenericType ''Tx'' [NamedType ''Settled''])]"

theorem states_change_by_transitions_only_witness:
  "check_typestate_resources 5 [] tx_report tx_program = Inr ()
    \<and> (\<exists>source family d' state'. source \<in> set (fn_parameters settle)
          \<and> function_type settle (Some (pm_type_ref source)) = Inr (GenericType family [NamedType state'])
          \<and> ct_structs (mk_contracts tx_program []) family = Some d' \<and> st_name d' = ''Tx'' \<and> state' \<noteq> ''Settled'')"
proof -
  have accepted: "check_typestate_resources 5 [] tx_report tx_program = Inr ()" by code_simp
  have facts: "settle \<in> set (pr_declarations tx_program)" "settled_literal \<in> set (walk_block (fn_body settle))"
    "map_of (rev tx_report) settled_literal = Some (GenericType ''Tx'' [NamedType ''Settled''])"
    "ct_structs (mk_contracts tx_program []) ''Tx'' = Some tx_struct" "st_is_stateful tx_struct" "fn_is_transition settle" "st_name tx_struct = ''Tx''"
    by (simp_all add: tx_program_def settle_def tx_report_def mk_contracts_def tx_struct_def plain_struct_def settled_literal_def)
  from states_change_by_transitions_only [OF accepted facts(1) _ _ facts(4,5), unfolded if_P [OF facts(6)] facts(7)]
  show ?thesis
    using accepted facts(2,3) unfolding settled_literal_def by blast
qed

end
