(* ===== verification/Affine_Resources.thy ===== *)
theory Affine_Resources
  imports Typestate_Resources "HOL-Library.AList"
begin

text \<open>
  Affine ownership (\<open>koschei/affine_resources_v1.py\<close>, with the typestate resources that
  \<open>typestate_affine_alignment.py\<close> adds): a value that carries a capability or a stateful resource
  has one owner. Giving it to a \<open>let\<close>, a call, a result or an aggregate moves it, and the old binding is dead.
\<close>

section \<open>The state of the checker\<close>

datatype usage = Move | Borrow

record affine_binding =
  ab_id :: nat
  ab_name :: string
  ab_type :: type_node
  ab_location :: source_location

text \<open>The innermost scope is the first one.\<close>

type_synonym affine_scope = "(string \<times> affine_binding) list"

record affine_state =
  af_scopes :: "affine_scope list"
  af_moved :: "nat set"
  af_locations :: "nat \<rightharpoonup> source_location"
  af_next :: nat

type_synonym affinity = "type_node \<Rightarrow> bool result"

definition declare_binding :: "affinity \<Rightarrow> string \<Rightarrow> type_node \<Rightarrow> source_location \<Rightarrow> bool \<Rightarrow> affine_state \<Rightarrow> affine_state result" where
  "declare_binding is_affine name t location mutable s =
     rbind (if mutable then is_affine t else Inr False) (\<lambda>refused.
     if refused then
       semantic_error ''KS3930'' ''{} affine bir resource ({}); let mut ile alias/reassignment yuzeyi acilamaz.'' [name, render_type t] location
     else (case af_scopes s of
         [] \<Rightarrow> raise IndexError ''list index out of range''
       | scope # scopes \<Rightarrow>
           Inr (s\<lparr>af_scopes := AList.update name \<lparr>ab_id = af_next s, ab_name = name, ab_type = t, ab_location = location\<rparr> scope # scopes,
                  af_next := af_next s + 1\<rparr>)))"

fun resolve_in :: "affine_scope list \<Rightarrow> string \<Rightarrow> affine_binding option" where
  "resolve_in [] name = None"
| "resolve_in (scope # scopes) name = (case map_of scope name of Some b \<Rightarrow> Some b | None \<Rightarrow> resolve_in scopes name)"

definition scope_ids :: "affine_scope \<Rightarrow> nat set" where
  "scope_ids scope = set (map (\<lambda>(_, b). ab_id b) scope)"

definition outer_binding_ids :: "affine_scope list \<Rightarrow> nat set" where
  "outer_binding_ids scopes = \<Union> (set (map scope_ids scopes))"

definition first_move :: "affine_binding \<Rightarrow> affine_state \<Rightarrow> string list" where
  "first_move b s =
     (let first = (case af_locations s (ab_id b) of None \<Rightarrow> ab_location b | Some l \<Rightarrow> l) in
      [ab_name b, str_int (loc_line first), str_int (loc_column first)])"

definition mark_move :: "affine_binding \<Rightarrow> source_location \<Rightarrow> affine_state \<Rightarrow> affine_state result" where
  "mark_move b location s =
     (if ab_id b \<in> af_moved s then
        semantic_error ''KS3931''
          ''{} affine resource daha once move edildi (ilk move: satir {}, sutun {}); eski binding tekrar kullanilamaz.''
          (first_move b s) location
      else Inr (s\<lparr>af_moved := insert (ab_id b) (af_moved s), af_locations := (af_locations s)(ab_id b \<mapsto> location)\<rparr>))"

definition use_identifier :: "affinity \<Rightarrow> string \<Rightarrow> source_location \<Rightarrow> usage \<Rightarrow> affine_state \<Rightarrow> affine_state result" where
  "use_identifier is_affine name location context s =
     (case resolve_in (af_scopes s) name of
        None \<Rightarrow> Inr s
      | Some b \<Rightarrow>
          rbind (is_affine (ab_type b)) (\<lambda>affine.
          if \<not> affine then Inr s
          else if ab_id b \<in> af_moved s then
            semantic_error ''KS3931'' ''{} affine resource move sonrasi kullaniliyor (ilk move: satir {}, sutun {}).''
              (first_move b s) location
          else if context = Move then mark_move b location s
          else Inr s))"

fun root_identifier :: "expression \<Rightarrow> string option" where
  "root_identifier (MemberExpression ob _ _) = root_identifier ob"
| "root_identifier (Identifier name _) = Some name"
| "root_identifier _ = None"

text \<open>Moving a member moves the binding it hangs on, unless it is a projection of \<open>SystemCaps\<close>.\<close>

definition move_member ::
  "(expression \<Rightarrow> type_node option) \<Rightarrow> affinity \<Rightarrow> expression \<Rightarrow> expression \<Rightarrow> source_location \<Rightarrow> usage \<Rightarrow> affine_state \<Rightarrow> affine_state result" where
  "move_member types is_affine member ob location context s =
     rbind (if context = Move then is_affine (type_of types member) else Inr False) (\<lambda>moves.
     if moves \<and> type_of types ob \<noteq> NamedType ''SystemCaps'' then
       (case root_identifier ob of
          None \<Rightarrow> Inr s
        | Some root \<Rightarrow>
            (case resolve_in (af_scopes s) root of
               None \<Rightarrow> Inr s
             | Some b \<Rightarrow> rbind (is_affine (ab_type b)) (\<lambda>affine. if affine then mark_move b location s else Inr s)))
     else Inr s)"

definition push_scope :: "affine_state \<Rightarrow> affine_state" where
  "push_scope s = s\<lparr>af_scopes := [] # af_scopes s\<rparr>"

definition pop_scope :: "affine_state \<Rightarrow> affine_state" where
  "pop_scope s = s\<lparr>af_scopes := tl (af_scopes s)\<rparr>"

text \<open>What \<open>_check_block\<close> forgets at the end of a nested block.\<close>

definition leave_block :: "affine_state \<Rightarrow> affine_state" where
  "leave_block s =
     (let local_ids = scope_ids (hd (af_scopes s)) in
      pop_scope (s\<lparr>af_moved := af_moved s - local_ids, af_locations := af_locations s |` (- local_ids)\<rparr>))"

text \<open>\<open>setdefault\<close> for the locations of the identities moved in a branch.\<close>

definition join_locations ::
  "(nat \<rightharpoonup> source_location) \<Rightarrow> (nat \<rightharpoonup> source_location) \<Rightarrow> nat set \<Rightarrow> (nat \<rightharpoonup> source_location)" where
  "join_locations base found ids = (\<lambda>i. case base i of Some l \<Rightarrow> Some l | None \<Rightarrow> if i \<in> ids then found i else None)"

definition restore_moves :: "affine_state \<Rightarrow> affine_state \<Rightarrow> affine_state" where
  "restore_moves before s = s\<lparr>af_moved := af_moved before, af_locations := af_locations before\<rparr>"

fun binding_by_id :: "affine_scope list \<Rightarrow> nat \<Rightarrow> affine_binding result" where
  "binding_by_id [] i = raisef AssertionError ''unknown affine binding id {}'' [str_int (int i)]"
| "binding_by_id (scope # scopes) i =
     (case filter (\<lambda>b. ab_id b = i) (map snd scope) of b # _ \<Rightarrow> Inr b | [] \<Rightarrow> binding_by_id scopes i)"

text \<open>A loop body must not move a binding from outside.\<close>

definition reject_loop_moves :: "string \<Rightarrow> affine_state \<Rightarrow> source_location \<Rightarrow> affine_state \<Rightarrow> unit result" where
  "reject_loop_moves message before location s =
     (let newly_moved = (af_moved s - af_moved before) \<inter> outer_binding_ids (af_scopes before) in
      if newly_moved = {} then Inr ()
      else
        let i = Min newly_moved in
        rbind (binding_by_id (rev (af_scopes s)) i) (\<lambda>b.
        semantic_error ''KS3932'' message [ab_name b] (case af_locations s i of Some l \<Rightarrow> l | None \<Rightarrow> location)))"

definition item_type_of :: "type_node \<Rightarrow> type_node" where
  "item_type_of t = (case t of GenericType _ (item # _) \<Rightarrow> item | _ \<Rightarrow> UnknownType)"

definition usage_of :: "bool \<Rightarrow> usage" where
  "usage_of affine = (if affine then Move else Borrow)"

definition join_branches :: "affine_state \<Rightarrow> affine_state \<Rightarrow> affine_state \<Rightarrow> affine_state" where
  "join_branches before first second =
     (let outer = outer_binding_ids (af_scopes before) in
      second\<lparr>af_moved := af_moved before \<union> (af_moved first \<inter> outer) \<union> (af_moved second \<inter> outer),
             af_locations := join_locations (join_locations (af_locations before) (af_locations first) (af_moved first \<inter> outer))
               (af_locations second) (af_moved second \<inter> outer)\<rparr>)"

section \<open>The checker\<close>

text \<open>\<open>for x in xs: f(x)\<close>, on the state of the checker.\<close>

fun rthread :: "('a \<Rightarrow> 's \<Rightarrow> 's result) \<Rightarrow> 'a list \<Rightarrow> 's \<Rightarrow> 's result" where
  "rthread f [] s = Inr s"
| "rthread f (x # xs) s = rbind (f x s) (\<lambda>s. rthread f xs s)"

lemma rthread_cong [fundef_cong]:
  "xs = ys \<Longrightarrow> s = t \<Longrightarrow> (\<And>x s. x \<in> set ys \<Longrightarrow> f x s = g x s) \<Longrightarrow> rthread f xs s = rthread g ys t"
proof (induction xs arbitrary: ys s t)
  case (Cons x xs)
  then have "f x s = g x s" by auto
  then show ?case using Cons by (auto intro!: rbind_cong)
qed auto

fun is_if :: "statement \<Rightarrow> bool" where
  "is_if (IfStatement _ _ _ _) = True"
| "is_if _ = False"

text \<open>Where a method is called, its receiver is checked in the place of the callee.\<close>

fun called :: "expression \<Rightarrow> expression" where
  "called (MemberExpression ob m l) = ob"
| "called e = e"

lemma called_size: "size (called e) \<le> size e"
  by (cases e) auto

definition arm_start :: "affinity \<Rightarrow> string option \<Rightarrow> source_location \<Rightarrow> affine_state \<Rightarrow> affine_state \<Rightarrow> affine_state result" where
  "arm_start af binding l before joined =
     (let start = push_scope (restore_moves before joined) in
      case binding of None \<Rightarrow> Inr start | Some n \<Rightarrow> declare_binding af n UnknownType l False start)"

definition join_arm :: "affine_state \<Rightarrow> affine_state \<Rightarrow> affine_state \<Rightarrow> affine_state" where
  "join_arm before joined s =
     (let arm_moved = af_moved s \<inter> outer_binding_ids (af_scopes before) in
      (pop_scope s)\<lparr>af_moved := af_moved joined \<union> arm_moved,
                    af_locations := join_locations (af_locations joined) (af_locations s) arm_moved\<rparr>)"

function (sequential) check_expression ::
    "(expression \<Rightarrow> type_node option) \<Rightarrow> affinity \<Rightarrow> expression \<Rightarrow> usage \<Rightarrow> affine_state \<Rightarrow> affine_state result"
  and check_arm :: "(expression \<Rightarrow> type_node option) \<Rightarrow> affinity \<Rightarrow> match_arm \<Rightarrow> usage \<Rightarrow> affine_state \<Rightarrow> affine_state \<Rightarrow> affine_state result"
  and check_body :: "(expression \<Rightarrow> type_node option) \<Rightarrow> affinity \<Rightarrow> arm_body \<Rightarrow> usage \<Rightarrow> affine_state \<Rightarrow> affine_state result"
  and check_statement :: "(expression \<Rightarrow> type_node option) \<Rightarrow> affinity \<Rightarrow> statement \<Rightarrow> affine_state \<Rightarrow> affine_state result"
  and check_else :: "(expression \<Rightarrow> type_node option) \<Rightarrow> affinity \<Rightarrow> else_branch \<Rightarrow> affine_state \<Rightarrow> affine_state result"
  and check_block :: "(expression \<Rightarrow> type_node option) \<Rightarrow> affinity \<Rightarrow> bool \<Rightarrow> block \<Rightarrow> affine_state \<Rightarrow> affine_state result" where
  "check_expression types af (Literal v l) context s = Inr s"
| "check_expression types af (Identifier name l) context s = use_identifier af name l context s"
| "check_expression types af (InterpolatedString ps l) context s = rthread (\<lambda>e s. check_expression types af e Borrow s) ps s"
| "check_expression types af (ListLiteral xs l) context s =
     rthread (\<lambda>e s. rbind (af (type_of types e)) (\<lambda>affine. check_expression types af e (usage_of affine) s)) xs s"
| "check_expression types af (MapLiteral es l) context s =
     rthread (\<lambda>(k, v) s. rbind (check_expression types af k Borrow s) (\<lambda>s.
       rbind (af (type_of types v)) (\<lambda>affine. check_expression types af v (usage_of affine) s))) es s"
| "check_expression types af (StructLiteral t fs l) context s =
     rthread (\<lambda>(n, e) s. rbind (af (type_of types e)) (\<lambda>affine. check_expression types af e (usage_of affine) s)) fs s"
| "check_expression types af (MemberExpression ob m l) context s =
     rbind (check_expression types af ob Borrow s) (move_member types af (MemberExpression ob m l) ob l context)"
| "check_expression types af (CallExpression callee as l) context s =
     rbind (check_expression types af (called callee) Borrow s) (\<lambda>s.
     rthread (\<lambda>e s. rbind (af (type_of types e)) (\<lambda>affine. check_expression types af e (usage_of affine) s)) as s)"
| "check_expression types af (BinaryExpression a op b l) context s =
     rbind (check_expression types af a Borrow s) (\<lambda>s. check_expression types af b Borrow s)"
| "check_expression types af (UnaryExpression op a l) context s = check_expression types af a Borrow s"
| "check_expression types af (OrReturnExpression v er l) context s =
     rbind (af (type_of types v)) (\<lambda>affine.
     rbind (check_expression types af v (if affine then context else Borrow) s) (\<lambda>s.
     case er of
       None \<Rightarrow> Inr s
     | Some e \<Rightarrow> rbind (af (type_of types e)) (\<lambda>affine. check_expression types af e (usage_of affine) s)))"
| "check_expression types af (OrElseExpression v fb l) context s =
     rbind (af (type_of types v)) (\<lambda>affine.
     rbind (check_expression types af v (if affine then context else Borrow) s) (\<lambda>s.
     rbind (af (type_of types fb)) (\<lambda>affine. check_expression types af fb (if affine then context else Borrow) s)))"
| "check_expression types af (OrBlockExpression v b l) context s =
     rbind (af (type_of types v)) (\<lambda>affine.
     rbind (check_expression types af v (if affine then context else Borrow) s) (\<lambda>s. check_block types af True b s))"
| "check_expression types af (MatchExpression v arms l) context s =
     rbind (check_expression types af v Borrow s) (\<lambda>before.
     rthread (\<lambda>arm joined. check_arm types af arm context before joined) arms before)"
| "check_expression types af (AssignmentExpression t v l) context s =
     rbind (af (type_of types v)) (\<lambda>affine.
     rbind (check_expression types af v (usage_of affine) s) (\<lambda>s. check_expression types af t Borrow s))"
| "check_arm types af (MatchArm variant binding body l) context before joined =
     rbind (arm_start af binding l before joined) (\<lambda>s.
     rbind (check_body types af body context s) (\<lambda>s. Inr (join_arm before joined s)))"
| "check_body types af (Block_Body b) context s = check_block types af False b s"
| "check_body types af (Expression_Body e) context s =
     rbind (af (type_of types e)) (\<lambda>affine. check_expression types af e (if affine then context else Borrow) s)"
| "check_statement types af (LetStatement n m v l t) s =
     rbind (af (type_of types v)) (\<lambda>affine.
     rbind (check_expression types af v (usage_of affine) s) (declare_binding af n (type_of types v) l m))"
| "check_statement types af (ReturnStatement v l) s =
     (case v of
        None \<Rightarrow> Inr s
      | Some e \<Rightarrow> rbind (af (type_of types e)) (\<lambda>affine. check_expression types af e (usage_of affine) s))"
| "check_statement types af (ExpressionStatement e l) s = check_expression types af e Borrow s"
| "check_statement types af (IfStatement c t el l) s =
     rbind (check_expression types af c Borrow s) (\<lambda>before.
     rbind (check_block types af True t before) (\<lambda>first.
     rbind (case el of None \<Rightarrow> Inr (restore_moves before first) | Some e \<Rightarrow> check_else types af e (restore_moves before first)) (\<lambda>second.
     Inr (join_branches before first second))))"
| "check_statement types af (WhileStatement c b l) s =
     rbind (check_expression types af c Borrow s) (\<lambda>before.
     rbind (check_block types af True b before) (\<lambda>s.
     rbind (reject_loop_moves
       ''{} outer-scope affine resource repeating loop icinde move edilemez; iterasyon sayisi ownership icin statik olarak guvenli degil.''
       before l s) (\<lambda>_. Inr (restore_moves before s))))"
| "check_statement types af (ForStatement x it b l) s =
     rbind (check_expression types af it Borrow s) (\<lambda>before.
     rbind (declare_binding af x (item_type_of (type_of types it)) l False (push_scope before)) (\<lambda>s.
     rbind (check_block types af False b s) (\<lambda>s.
     rbind (reject_loop_moves
       ''{} outer-scope affine resource repeating for govdesi icinde move edilemez; ikinci iterasyon double-move uretebilir.''
       before l s) (\<lambda>_. Inr (restore_moves before (pop_scope s))))))"
| "check_statement types af (BreakStatement l) s = Inr s"
| "check_statement types af (ContinueStatement l) s = Inr s"
| "check_else types af (Else_Block b) s = check_block types af True b s"
| "check_else types af (Else_If st) s = (if is_if st then check_statement types af st s else Inr s)"
| "check_block types af nested (Block ss) s =
     rbind (rthread (\<lambda>st s. check_statement types af st s) ss (if nested then push_scope s else s)) (\<lambda>s.
     Inr (if nested then leave_block s else s))"
  by pat_completeness auto
termination
  by (relation "measure (\<lambda>x. case x of
      Inl (Inl (_, _, e, _)) \<Rightarrow> size e | Inl (Inr (Inl (_, _, a, _))) \<Rightarrow> size a | Inl (Inr (Inr (_, _, b, _))) \<Rightarrow> size b
    | Inr (Inl (_, _, st, _)) \<Rightarrow> size st | Inr (Inr (Inl (_, _, el, _))) \<Rightarrow> size el | Inr (Inr (Inr (_, _, _, bl, _))) \<Rightarrow> size bl)")
    (auto simp: less_Suc_eq_le size_list_estimation' intro: le_trans [OF called_size] trans_le_add1 [OF size_list_estimation'])

definition check_function :: "(expression \<Rightarrow> type_node option) \<Rightarrow> affinity \<Rightarrow> nat \<Rightarrow> function_declaration \<Rightarrow> nat result" where
  "check_function types af next f =
     rbind (foldl (\<lambda>r p. rbind r (\<lambda>s. rbind (function_type f (Some (pm_type_ref p))) (\<lambda>t.
         declare_binding af (pm_name p) t (pm_location p) False s)))
       (Inr \<lparr>af_scopes = [[]], af_moved = {}, af_locations = Map.empty, af_next = next\<rparr>) (fn_parameters f)) (\<lambda>s.
     rbind (check_block types af False (fn_body f) s) (\<lambda>s. Inr (af_next s)))"

definition is_affine :: "contracts \<Rightarrow> nat \<Rightarrow> affinity" where
  "is_affine c n t = rbind (is_sensitive c n t []) (\<lambda>sensitive. if sensitive then Inr True else is_typestate_affine c n t [])"

definition check_affine_resources :: "(expression \<Rightarrow> type_node option) \<Rightarrow> nat \<Rightarrow> contracts list \<Rightarrow> program \<Rightarrow> unit result" where
  "check_affine_resources types n imports p =
     rbind (foldl (\<lambda>r f. rbind r (\<lambda>next. check_function types (is_affine (mk_contracts p imports) n) next f)) (Inr 1) (pr_declarations p))
       (\<lambda>_. Inr ())"

end
