(* ===== verification/Affine_Soundness.thy ===== *)
theory Affine_Soundness
  imports Affine_Resources
begin

text \<open>
  What the affine checker is for: along every path that control can take through an accepted function,
  no binding is used after its value was moved. A path keeps, for every binding in scope, whether its value
  was moved away; it chooses freely at every branch, runs loops any number of times, and may leave
  early where the code can (\<open>return\<close>, \<open>or return\<close>, \<open>break\<close>, \<open>continue\<close>).
\<close>

section \<open>Paths\<close>

type_synonym owned = "string \<rightharpoonup> type_node \<times> bool"

datatype outcome = Done "owned list" | Jump "owned list" | Wrong

type_synonym path = "owned list \<Rightarrow> outcome \<Rightarrow> bool"

fun lookup :: "owned list \<Rightarrow> string \<Rightarrow> (type_node \<times> bool) option" where
  "lookup [] n = None"
| "lookup (f # E) n = (case f n of Some x \<Rightarrow> Some x | None \<Rightarrow> lookup E n)"

fun give_away :: "string \<Rightarrow> owned list \<Rightarrow> owned list" where
  "give_away n [] = []"
| "give_away n (f # E) = (case f n of Some (t, _) \<Rightarrow> f(n \<mapsto> (t, True)) # E | None \<Rightarrow> f # give_away n E)"

definition pdone :: path where "pdone E r \<longleftrightarrow> r = Done E"
definition pjump :: path where "pjump E r \<longleftrightarrow> r = Jump E"

definition pseq :: "path \<Rightarrow> path \<Rightarrow> path" where
  "pseq p q E r \<longleftrightarrow> (\<exists>E'. p E (Done E') \<and> q E' r) \<or> (\<exists>E'. p E (Jump E') \<and> r = Jump E') \<or> p E Wrong \<and> r = Wrong"

definition peither :: "path \<Rightarrow> path \<Rightarrow> path" where
  "peither p q E r \<longleftrightarrow> p E r \<or> q E r"

definition pany :: "('a \<Rightarrow> path) \<Rightarrow> 'a list \<Rightarrow> path" where
  "pany f xs E r \<longleftrightarrow> r = Done E \<or> (\<exists>x \<in> set xs. f x E r)"

fun pmany :: "('a \<Rightarrow> path) \<Rightarrow> 'a list \<Rightarrow> path" where
  "pmany f [] = pdone"
| "pmany f (x # xs) = pseq (f x) (pmany f xs)"

text \<open>A scope of its own for the path, left with the path.\<close>

fun pop_outcome :: "outcome \<Rightarrow> outcome" where
  "pop_outcome (Done E) = Done (tl E)"
| "pop_outcome (Jump E) = Jump (tl E)"
| "pop_outcome Wrong = Wrong"

definition pframe :: "owned \<Rightarrow> path \<Rightarrow> path" where
  "pframe f p E r \<longleftrightarrow> (\<exists>r'. p (f # E) r' \<and> r = pop_outcome r')"

text \<open>A loop: its body may be left by a jump that ends the iteration, the loop or the function.\<close>

inductive ploop :: "path \<Rightarrow> path" for p :: path where
  stop: "ploop p E (Done E)"
| again: "p E (Done E') \<or> p E (Jump E') \<Longrightarrow> ploop p E' r \<Longrightarrow> ploop p E r"
| leave: "p E (Jump E') \<Longrightarrow> ploop p E (Jump E')"
| wrong: "p E Wrong \<Longrightarrow> ploop p E Wrong"

text \<open>A use of a binding whose value can be moved goes wrong when it was moved before.\<close>

definition puse :: "affinity \<Rightarrow> string \<Rightarrow> usage \<Rightarrow> path" where
  "puse af n u E r \<longleftrightarrow> (case lookup E n of
     None \<Rightarrow> r = Done E
   | Some (t, moved) \<Rightarrow>
       if af t \<noteq> Inr True then r = Done E
       else if moved then r = Wrong
       else r = Done (if u = Move then give_away n E else E))"

definition pdeclare :: "string \<Rightarrow> type_node \<Rightarrow> path" where
  "pdeclare n t E r \<longleftrightarrow> r = Done ((hd E)(n \<mapsto> (t, False)) # tl E)"

definition moving :: "affinity \<Rightarrow> type_node \<Rightarrow> usage \<Rightarrow> usage" where
  "moving af t u = (if af t = Inr True then u else Borrow)"

lemma pmany_cong [fundef_cong]: "xs = ys \<Longrightarrow> (\<And>x. x \<in> set ys \<Longrightarrow> f x = g x) \<Longrightarrow> pmany f xs = pmany g ys"
  by (induction xs arbitrary: ys) auto

lemma pany_cong [fundef_cong]: "xs = ys \<Longrightarrow> (\<And>x. x \<in> set ys \<Longrightarrow> f x = g x) \<Longrightarrow> pany f xs = pany g ys"
  by (auto simp: pany_def fun_eq_iff)

text \<open>
  The paths through a tree. \<open>let\<close>, arguments, results, and the parts of aggregates move; everything else borrows.
  \<open>payload t v\<close> is the type of the payload of variant \<open>v\<close> of type \<open>t\<close>.
\<close>

function (sequential) expression_paths ::
    "(expression \<Rightarrow> type_node option) \<Rightarrow> affinity \<Rightarrow> (type_node \<Rightarrow> string \<Rightarrow> type_node) \<Rightarrow> expression \<Rightarrow> usage \<Rightarrow> path"
  and arm_paths :: "(expression \<Rightarrow> type_node option) \<Rightarrow> affinity \<Rightarrow> (type_node \<Rightarrow> string \<Rightarrow> type_node) \<Rightarrow> type_node \<Rightarrow> match_arm \<Rightarrow> usage \<Rightarrow> path"
  and body_paths :: "(expression \<Rightarrow> type_node option) \<Rightarrow> affinity \<Rightarrow> (type_node \<Rightarrow> string \<Rightarrow> type_node) \<Rightarrow> arm_body \<Rightarrow> usage \<Rightarrow> path"
  and statement_paths :: "(expression \<Rightarrow> type_node option) \<Rightarrow> affinity \<Rightarrow> (type_node \<Rightarrow> string \<Rightarrow> type_node) \<Rightarrow> statement \<Rightarrow> path"
  and else_paths :: "(expression \<Rightarrow> type_node option) \<Rightarrow> affinity \<Rightarrow> (type_node \<Rightarrow> string \<Rightarrow> type_node) \<Rightarrow> else_branch \<Rightarrow> path"
  and block_paths :: "(expression \<Rightarrow> type_node option) \<Rightarrow> affinity \<Rightarrow> (type_node \<Rightarrow> string \<Rightarrow> type_node) \<Rightarrow> block \<Rightarrow> path" where
  "expression_paths types af pay (Literal v l) u = pdone"
| "expression_paths types af pay (Identifier n l) u = puse af n u"
| "expression_paths types af pay (InterpolatedString ps l) u = pmany (\<lambda>e. expression_paths types af pay e Borrow) ps"
| "expression_paths types af pay (ListLiteral xs l) u =
     pmany (\<lambda>e. expression_paths types af pay e (moving af (type_of types e) Move)) xs"
| "expression_paths types af pay (MapLiteral es l) u =
     pmany (\<lambda>(k, v). pseq (expression_paths types af pay k Borrow) (expression_paths types af pay v (moving af (type_of types v) Move))) es"
| "expression_paths types af pay (StructLiteral t fs l) u =
     pmany (\<lambda>(n, e). expression_paths types af pay e (moving af (type_of types e) Move)) fs"
| "expression_paths types af pay (MemberExpression ob m l) u =
     pseq (expression_paths types af pay ob Borrow)
       (if u = Move \<and> af (type_of types (MemberExpression ob m l)) = Inr True \<and> type_of types ob \<noteq> NamedType ''SystemCaps''
        then (case root_identifier ob of None \<Rightarrow> pdone | Some root \<Rightarrow> puse af root Move) else pdone)"
| "expression_paths types af pay (CallExpression callee as l) u =
     pseq (expression_paths types af pay (called callee) Borrow)
       (pmany (\<lambda>e. expression_paths types af pay e (moving af (type_of types e) Move)) as)"
| "expression_paths types af pay (BinaryExpression a op b l) u =
     pseq (expression_paths types af pay a Borrow) (peither pdone (expression_paths types af pay b Borrow))"
| "expression_paths types af pay (UnaryExpression op a l) u = expression_paths types af pay a Borrow"
| "expression_paths types af pay (OrReturnExpression v er l) u =
     pseq (expression_paths types af pay v (moving af (type_of types v) u))
       (peither pdone (case er of
          None \<Rightarrow> pjump
        | Some e \<Rightarrow> pseq (expression_paths types af pay e (moving af (type_of types e) Move)) pjump))"
| "expression_paths types af pay (OrElseExpression v fb l) u =
     pseq (expression_paths types af pay v (moving af (type_of types v) u))
       (peither pdone (expression_paths types af pay fb (moving af (type_of types fb) u)))"
| "expression_paths types af pay (OrBlockExpression v b l) u =
     pseq (expression_paths types af pay v (moving af (type_of types v) u)) (peither pdone (pframe Map.empty (block_paths types af pay b)))"
| "expression_paths types af pay (MatchExpression v arms l) u =
     pseq (expression_paths types af pay v Borrow) (pany (\<lambda>arm. arm_paths types af pay (type_of types v) arm u) arms)"
| "expression_paths types af pay (AssignmentExpression t v l) u =
     pseq (expression_paths types af pay v (moving af (type_of types v) Move)) (expression_paths types af pay t Borrow)"
| "arm_paths types af pay t (MatchArm variant binding body l) u =
     pframe (case binding of None \<Rightarrow> Map.empty | Some n \<Rightarrow> [n \<mapsto> (pay t variant, False)]) (body_paths types af pay body u)"
| "body_paths types af pay (Block_Body b) u = block_paths types af pay b"
| "body_paths types af pay (Expression_Body e) u = expression_paths types af pay e (moving af (type_of types e) u)"
| "statement_paths types af pay (LetStatement n m v l t) =
     pseq (expression_paths types af pay v (moving af (type_of types v) Move)) (pdeclare n (type_of types v))"
| "statement_paths types af pay (ReturnStatement v l) =
     (case v of None \<Rightarrow> pjump | Some e \<Rightarrow> pseq (expression_paths types af pay e (moving af (type_of types e) Move)) pjump)"
| "statement_paths types af pay (ExpressionStatement e l) = expression_paths types af pay e Borrow"
| "statement_paths types af pay (IfStatement c t el l) =
     pseq (expression_paths types af pay c Borrow)
       (peither (pframe Map.empty (block_paths types af pay t)) (case el of None \<Rightarrow> pdone | Some e \<Rightarrow> else_paths types af pay e))"
| "statement_paths types af pay (WhileStatement c b l) =
     pseq (ploop (pseq (expression_paths types af pay c Borrow) (pframe Map.empty (block_paths types af pay b))))
       (peither pdone (expression_paths types af pay c Borrow))"
| "statement_paths types af pay (ForStatement x it b l) =
     pseq (expression_paths types af pay it Borrow)
       (ploop (pframe [x \<mapsto> (item_type_of (type_of types it), False)] (block_paths types af pay b)))"
| "statement_paths types af pay (BreakStatement l) = pjump"
| "statement_paths types af pay (ContinueStatement l) = pjump"
| "else_paths types af pay (Else_Block b) = pframe Map.empty (block_paths types af pay b)"
| "else_paths types af pay (Else_If st) = (if is_if st then statement_paths types af pay st else pdone)"
| "block_paths types af pay (Block ss) = pmany (statement_paths types af pay) ss"
  by pat_completeness auto
termination
  by (relation "measure (\<lambda>x. case x of
      Inl (Inl (_, _, _, e, _)) \<Rightarrow> size e | Inl (Inr (Inl (_, _, _, _, a, _))) \<Rightarrow> size a | Inl (Inr (Inr (_, _, _, b, _))) \<Rightarrow> size b
    | Inr (Inl (_, _, _, st)) \<Rightarrow> size st | Inr (Inr (Inl (_, _, _, el))) \<Rightarrow> size el | Inr (Inr (Inr (_, _, _, bl))) \<Rightarrow> size bl)")
    (auto simp: less_Suc_eq_le size_list_estimation' intro: le_trans [OF called_size] trans_le_add1 [OF size_list_estimation'])

text \<open>The conditions of the \<open>while\<close> loops in a tree.\<close>

fun expression_conditions :: "expression \<Rightarrow> expression list"
  and arm_conditions :: "match_arm \<Rightarrow> expression list"
  and body_conditions :: "arm_body \<Rightarrow> expression list"
  and statement_conditions :: "statement \<Rightarrow> expression list"
  and else_conditions :: "else_branch \<Rightarrow> expression list"
  and block_conditions :: "block \<Rightarrow> expression list" where
  "expression_conditions (Identifier n l) = []"
| "expression_conditions (Literal v l) = []"
| "expression_conditions (InterpolatedString ps l) = concat (map expression_conditions ps)"
| "expression_conditions (StructLiteral t fs l) = concat (map (\<lambda>(_, e). expression_conditions e) fs)"
| "expression_conditions (ListLiteral xs l) = concat (map expression_conditions xs)"
| "expression_conditions (MapLiteral es l) = concat (map (\<lambda>(k, v). expression_conditions k @ expression_conditions v) es)"
| "expression_conditions (MemberExpression ob m l) = expression_conditions ob"
| "expression_conditions (CallExpression f as l) = expression_conditions f @ concat (map expression_conditions as)"
| "expression_conditions (AssignmentExpression t v l) = expression_conditions t @ expression_conditions v"
| "expression_conditions (BinaryExpression a op b l) = expression_conditions a @ expression_conditions b"
| "expression_conditions (UnaryExpression op a l) = expression_conditions a"
| "expression_conditions (OrReturnExpression v er l) =
     expression_conditions v @ (case er of None \<Rightarrow> [] | Some e \<Rightarrow> expression_conditions e)"
| "expression_conditions (OrElseExpression v fb l) = expression_conditions v @ expression_conditions fb"
| "expression_conditions (OrBlockExpression v b l) = expression_conditions v @ block_conditions b"
| "expression_conditions (MatchExpression v arms l) = expression_conditions v @ concat (map arm_conditions arms)"
| "arm_conditions (MatchArm v b body l) = body_conditions body"
| "body_conditions (Expression_Body e) = expression_conditions e"
| "body_conditions (Block_Body b) = block_conditions b"
| "statement_conditions (LetStatement n m v l t) = expression_conditions v"
| "statement_conditions (ReturnStatement v l) = (case v of None \<Rightarrow> [] | Some e \<Rightarrow> expression_conditions e)"
| "statement_conditions (ExpressionStatement e l) = expression_conditions e"
| "statement_conditions (IfStatement c t el l) =
     expression_conditions c @ block_conditions t @ (case el of None \<Rightarrow> [] | Some e \<Rightarrow> else_conditions e)"
| "statement_conditions (WhileStatement c b l) = c # expression_conditions c @ block_conditions b"
| "statement_conditions (ForStatement x it b l) = expression_conditions it @ block_conditions b"
| "statement_conditions (BreakStatement l) = []"
| "statement_conditions (ContinueStatement l) = []"
| "else_conditions (Else_Block b) = block_conditions b"
| "else_conditions (Else_If s) = statement_conditions s"
| "block_conditions (Block ss) = concat (map statement_conditions ss)"

section \<open>States of the checker and of a path\<close>

text \<open>The identities in different scopes differ, and the next one is new.\<close>

fun disjoint_scopes :: "affine_scope list \<Rightarrow> bool" where
  "disjoint_scopes [] = True"
| "disjoint_scopes (sc # scs) = (scope_ids sc \<inter> outer_binding_ids scs = {} \<and> disjoint_scopes scs)"

definition wf_state :: "affine_state \<Rightarrow> bool" where
  "wf_state s \<longleftrightarrow> disjoint_scopes (af_scopes s) \<and> (\<forall>i \<in> outer_binding_ids (af_scopes s). i < af_next s)"

definition grows :: "affine_state \<Rightarrow> affine_state \<Rightarrow> bool" where
  "grows s s' \<longleftrightarrow> wf_state s' \<and> af_next s \<le> af_next s' \<and> af_moved s \<inter> outer_binding_ids (af_scopes s) \<subseteq> af_moved s'"

definition grows_outer :: "affine_state \<Rightarrow> affine_state \<Rightarrow> bool" where
  "grows_outer s s' \<longleftrightarrow> wf_state s' \<and> af_next s \<le> af_next s' \<and> af_moved s \<inter> outer_binding_ids (tl (af_scopes s)) \<subseteq> af_moved s'"

text \<open>What a path has moved, the checker has marked.\<close>

definition tracks :: "affinity \<Rightarrow> nat set \<Rightarrow> affine_binding \<Rightarrow> type_node \<times> bool \<Rightarrow> bool" where
  "tracks af M b = (\<lambda>(t, moved).
     (af t = Inr True \<longleftrightarrow> af (ab_type b) = Inr True) \<and> (af t = Inr True \<and> moved \<longrightarrow> ab_id b \<in> M))"

definition sim_frame :: "affinity \<Rightarrow> nat set \<Rightarrow> affine_scope \<Rightarrow> owned \<Rightarrow> bool" where
  "sim_frame af M sc f \<longleftrightarrow> (\<forall>n. rel_option (tracks af M) (map_of sc n) (f n))"

definition sim :: "affinity \<Rightarrow> nat set \<Rightarrow> affine_scope list \<Rightarrow> owned list \<Rightarrow> bool" where
  "sim af M = list_all2 (sim_frame af M)"

lemma outer_binding_ids_simps [simp]:
  "outer_binding_ids [] = {}"
  "outer_binding_ids (sc # scs) = scope_ids sc \<union> outer_binding_ids scs"
  by (simp_all add: outer_binding_ids_def)

lemma sim_simps [simp]:
  "sim af M [] E \<longleftrightarrow> E = []"
  "sim af M (sc # scs) E \<longleftrightarrow> (\<exists>f F. E = f # F \<and> sim_frame af M sc f \<and> sim af M scs F)"
  by (auto simp: sim_def list_all2_Cons1)

lemma scope_id_mem: "map_of sc n = Some b \<Longrightarrow> ab_id b \<in> scope_ids sc"
  by (force simp: scope_ids_def dest: map_of_SomeD)

lemma sim_frame_mono:
  assumes "sim_frame af M sc f" "M \<inter> scope_ids sc \<subseteq> M'"
  shows "sim_frame af M' sc f"
  unfolding sim_frame_def
proof
  fix n
  show "rel_option (tracks af M') (map_of sc n) (f n)"
  proof (rule option.rel_mono_strong)
    show "rel_option (tracks af M) (map_of sc n) (f n)"
      using assms(1) by (simp add: sim_frame_def)
    show "tracks af M b x \<Longrightarrow> tracks af M' b x" if "b \<in> set_option (map_of sc n)" for b x
      using that scope_id_mem [of sc n b] assms(2) by (auto simp: tracks_def split: prod.splits)
  qed
qed

lemma sim_mono: "sim af M scs E \<Longrightarrow> M \<inter> outer_binding_ids scs \<subseteq> M' \<Longrightarrow> sim af M' scs E"
proof (induction scs arbitrary: E)
  case (Cons sc scs)
  then have "M \<inter> scope_ids sc \<subseteq> M'" "M \<inter> outer_binding_ids scs \<subseteq> M'" by auto
  then show ?case
    using Cons.IH Cons.prems(1) by (auto intro: sim_frame_mono)
qed simp

lemma sim_insert: "sim af M scs E \<Longrightarrow> sim af (insert i M) scs E"
  by (rule sim_mono) auto

lemma sim_grows: "sim af (af_moved s) (af_scopes s) E \<Longrightarrow> grows s s' \<Longrightarrow> sim af (af_moved s') (af_scopes s) E"
  unfolding grows_def by (blast intro: sim_mono)

lemma sim_resolve: "sim af M scs E \<Longrightarrow> rel_option (tracks af M) (resolve_in scs n) (lookup E n)"
proof (induction scs arbitrary: E)
  case (Cons sc scs)
  then obtain f F where E: "E = f # F" "rel_option (tracks af M) (map_of sc n) (f n)" "sim af M scs F"
    by (auto simp: sim_frame_def)
  then show ?case
    using Cons.IH [OF E(3)] by (cases "map_of sc n"; cases "f n") auto
qed simp

lemma resolve_id: "resolve_in scs n = Some b \<Longrightarrow> ab_id b \<in> outer_binding_ids scs"
  by (induction scs) (auto dest: scope_id_mem split: option.splits)

lemma sim_frame_give_away:
  assumes "sim_frame af M sc f" "map_of sc n = Some b" "f n = Some (t, m)"
  shows "sim_frame af (insert (ab_id b) M) sc (f(n \<mapsto> (t, True)))"
  unfolding sim_frame_def
proof
  fix k
  have "rel_option (tracks af (insert (ab_id b) M)) (map_of sc k) (f k)"
    using sim_frame_mono [OF assms(1), of "insert (ab_id b) M"] unfolding sim_frame_def by blast
  then show "rel_option (tracks af (insert (ab_id b) M)) (map_of sc k) ((f(n \<mapsto> (t, True))) k)"
    using assms(2,3) by (cases "k = n") (auto simp: tracks_def)
qed

lemma sim_give_away: "sim af M scs E \<Longrightarrow> resolve_in scs n = Some b \<Longrightarrow> sim af (insert (ab_id b) M) scs (give_away n E)"
proof (induction scs arbitrary: E)
  case (Cons sc scs)
  then obtain f F where E: "E = f # F" "sim_frame af M sc f" "sim af M scs F" by auto
  have rel: "rel_option (tracks af M) (map_of sc n) (f n)"
    using E(2) by (simp add: sim_frame_def)
  have rest: "sim_frame af (insert (ab_id b) M) sc f" "sim af (insert (ab_id b) M) scs F"
    using E(2,3) by (auto intro: sim_frame_mono sim_insert)
  show ?case
  proof (cases "map_of sc n")
    case None
    then show ?thesis
      using rel Cons.IH [OF E(3)] Cons.prems(2) rest E(1) by auto
  next
    case (Some b')
    then obtain t m where "f n = Some (t, m)"
      using rel by (cases "f n") auto
    then show ?thesis
      using sim_frame_give_away [OF E(2) Some] Some Cons.prems(2) rest(2) E(1) by auto
  qed
qed simp

section \<open>Soundness of the parts\<close>

text \<open>
  A check is sound for paths when it keeps the scopes and the identities and every path through the
  part stays right and moves only what is marked afterwards. A statement may change the innermost scope, which
  a jump leaves anyway.
\<close>

fun safe :: "affinity \<Rightarrow> nat set \<Rightarrow> affine_scope list \<Rightarrow> outcome \<Rightarrow> bool" where
  "safe af M scs (Done E) = sim af M scs E"
| "safe af M scs (Jump E) = sim af M scs E"
| "safe af M scs Wrong = False"

fun safe_statement :: "affinity \<Rightarrow> nat set \<Rightarrow> affine_scope list \<Rightarrow> outcome \<Rightarrow> bool" where
  "safe_statement af M scs (Done E) = sim af M scs E"
| "safe_statement af M scs (Jump E) = (E \<noteq> [] \<and> sim af M (tl scs) (tl E))"
| "safe_statement af M scs Wrong = False"

definition sound_expression :: "affinity \<Rightarrow> (affine_state \<Rightarrow> affine_state result) \<Rightarrow> path \<Rightarrow> bool" where
  "sound_expression af f p \<longleftrightarrow> (\<forall>s s'. wf_state s \<longrightarrow> f s = Inr s' \<longrightarrow> af_scopes s' = af_scopes s \<and> grows s s'
     \<and> (\<forall>E r. sim af (af_moved s) (af_scopes s) E \<longrightarrow> p E r \<longrightarrow> safe af (af_moved s') (af_scopes s) r))"

definition sound_statement :: "affinity \<Rightarrow> (affine_state \<Rightarrow> affine_state result) \<Rightarrow> path \<Rightarrow> bool" where
  "sound_statement af f p \<longleftrightarrow> (\<forall>s s'. wf_state s \<longrightarrow> af_scopes s \<noteq> [] \<longrightarrow> f s = Inr s'
     \<longrightarrow> af_scopes s' \<noteq> [] \<and> tl (af_scopes s') = tl (af_scopes s) \<and> grows_outer s s'
     \<and> (\<forall>E r. sim af (af_moved s) (af_scopes s) E \<longrightarrow> p E r \<longrightarrow> safe_statement af (af_moved s') (af_scopes s') r))"

lemma sound_expressionI:
  assumes "\<And>s s'. wf_state s \<Longrightarrow> f s = Inr s' \<Longrightarrow> af_scopes s' = af_scopes s \<and> grows s s'"
    and "\<And>s s' E r. wf_state s \<Longrightarrow> f s = Inr s' \<Longrightarrow> sim af (af_moved s) (af_scopes s) E \<Longrightarrow> p E r \<Longrightarrow> safe af (af_moved s') (af_scopes s) r"
  shows "sound_expression af f p"
  unfolding sound_expression_def using assms by blast

lemma sound_expressionD:
  assumes "sound_expression af f p" "wf_state s" "f s = Inr s'"
  shows "af_scopes s' = af_scopes s" "grows s s'" "wf_state s'"
    "sim af (af_moved s) (af_scopes s) E \<Longrightarrow> p E r \<Longrightarrow> safe af (af_moved s') (af_scopes s) r"
  using assms unfolding sound_expression_def grows_def by blast+

lemma sound_statementI:
  assumes "\<And>s s'. wf_state s \<Longrightarrow> af_scopes s \<noteq> [] \<Longrightarrow> f s = Inr s'
      \<Longrightarrow> af_scopes s' \<noteq> [] \<and> tl (af_scopes s') = tl (af_scopes s) \<and> grows_outer s s'"
    and "\<And>s s' E r. wf_state s \<Longrightarrow> af_scopes s \<noteq> [] \<Longrightarrow> f s = Inr s' \<Longrightarrow> sim af (af_moved s) (af_scopes s) E
      \<Longrightarrow> p E r \<Longrightarrow> safe_statement af (af_moved s') (af_scopes s') r"
  shows "sound_statement af f p"
  unfolding sound_statement_def using assms by blast

lemma sound_statementD:
  assumes "sound_statement af f p" "wf_state s" "af_scopes s \<noteq> []" "f s = Inr s'"
  shows "af_scopes s' \<noteq> []" "tl (af_scopes s') = tl (af_scopes s)" "grows_outer s s'" "wf_state s'"
    "sim af (af_moved s) (af_scopes s) E \<Longrightarrow> p E r \<Longrightarrow> safe_statement af (af_moved s') (af_scopes s') r"
  using assms unfolding sound_statement_def grows_outer_def by blast+

lemma grows_refl: "wf_state s \<Longrightarrow> grows s s"
  by (simp add: grows_def)

lemma grows_trans: "grows s t \<Longrightarrow> grows t u \<Longrightarrow> af_scopes t = af_scopes s \<Longrightarrow> grows s u"
  unfolding grows_def by (auto dest: le_trans)

lemma safe_grows: "safe af (af_moved s) (af_scopes s) r \<Longrightarrow> grows s s' \<Longrightarrow> safe af (af_moved s') (af_scopes s) r"
  by (cases r) (auto intro: sim_grows)

lemma sound_done: "sound_expression af (\<lambda>s. Inr s) pdone"
  by (auto simp: sound_expression_def pdone_def grows_refl)

lemma sound_jump: "sound_expression af (\<lambda>s. Inr s) pjump"
  by (auto simp: sound_expression_def pjump_def grows_refl)

lemma pseq_cases:
  assumes "pseq p q E r"
  obtains E' where "p E (Done E')" "q E' r" | "p E r" "\<And>E'. r \<noteq> Done E'"
  using assms unfolding pseq_def by blast

lemma sound_seq:
  assumes "sound_expression af f p" "sound_expression af g q"
  shows "sound_expression af (\<lambda>s. rbind (f s) g) (pseq p q)"
proof (rule sound_expressionI)
  fix s s'
  assume wf: "wf_state s" and "rbind (f s) g = Inr s'"
  then obtain t where f: "f s = Inr t" and g: "g t = Inr s'"
    by (auto simp: rbind_eq_Inr)
  note first = sound_expressionD [OF assms(1) wf f]
  note second = sound_expressionD [OF assms(2) first(3) g]
  show "af_scopes s' = af_scopes s \<and> grows s s'"
    using first second by (auto intro: grows_trans)
  fix E r
  assume E: "sim af (af_moved s) (af_scopes s) E" and "pseq p q E r"
  from this(2) show "safe af (af_moved s') (af_scopes s) r"
  proof (cases rule: pseq_cases)
    case (1 E')
    then have "sim af (af_moved t) (af_scopes t) E'"
      using first(4) [OF E 1(1)] first(1) by simp
    then show ?thesis
      using second(4) 1(2) first(1) by simp
  next
    case 2
    then show ?thesis
      using first(4) [OF E 2(1)] first(1) safe_grows [OF _ second(2)] by simp
  qed
qed

lemma sound_optional:
  assumes "sound_expression af f p"
  shows "sound_expression af f (peither pdone p)"
proof (rule sound_expressionI)
  fix s s' E r
  assume run: "wf_state s" "f s = Inr s'"
  note d = sound_expressionD [OF assms run]
  show "af_scopes s' = af_scopes s \<and> grows s s'" using d by blast
  assume E: "sim af (af_moved s) (af_scopes s) E" "peither pdone p E r"
  then consider "r = Done E" | "p E r" by (auto simp: peither_def pdone_def)
  then show "safe af (af_moved s') (af_scopes s) r"
    by cases (use d(4) E(1) sim_grows [OF E(1) d(2)] in auto)
qed

lemma sound_many: "(\<And>x. x \<in> set xs \<Longrightarrow> sound_expression af (f x) (p x)) \<Longrightarrow> sound_expression af (rthread f xs) (pmany p xs)"
proof (induction xs)
  case Nil
  have "rthread f [] = (\<lambda>s. Inr s)" by (simp add: fun_eq_iff)
  then show ?case by (simp add: sound_done)
next
  case (Cons x xs)
  have "rthread f (x # xs) = (\<lambda>s. rbind (f x s) (rthread f xs))" by (simp add: fun_eq_iff)
  then show ?case using Cons by (simp add: sound_seq)
qed

lemma sound_guard:
  assumes "\<And>a. af t = Inr a \<Longrightarrow> sound_expression af (f a) p"
  shows "sound_expression af (\<lambda>s. rbind (af t) (\<lambda>a. f a s)) p"
proof (cases "af t")
  case (Inl e)
  then show ?thesis by (simp add: sound_expression_def)
next
  case (Inr a)
  from assms [OF this] show ?thesis by (simp add: Inr)
qed

lemma sound_weaker: "sound_expression af g p \<Longrightarrow> (\<And>s s'. f s = Inr s' \<Longrightarrow> g s = Inr s') \<Longrightarrow> sound_expression af f p"
  unfolding sound_expression_def by blast

lemma mark_move_grows:
  assumes "mark_move b l s = Inr s'" "wf_state s"
  shows "af_scopes s' = af_scopes s" "grows s s'" "af_moved s' = insert (ab_id b) (af_moved s)" "ab_id b \<notin> af_moved s"
  using assms by (auto simp: mark_move_def semantic_error_def grows_def wf_state_def split: if_splits)

lemma use_identifier_cases:
  assumes "use_identifier af n l u s = Inr s'"
  obtains "resolve_in (af_scopes s) n = None" "s' = s"
  | b where "resolve_in (af_scopes s) n = Some b" "s' = s" "af (ab_type b) \<noteq> Inr True"
  | b where "resolve_in (af_scopes s) n = Some b" "s' = s" "u = Borrow" "ab_id b \<notin> af_moved s"
  | b where "resolve_in (af_scopes s) n = Some b" "u = Move" "mark_move b l s = Inr s'" "af (ab_type b) = Inr True"
  using assms by (cases u) (auto simp: use_identifier_def rbind_eq_Inr semantic_error_def split: if_splits option.splits)

lemma sound_use: "sound_expression af (use_identifier af n l u) (puse af n u)"
proof (rule sound_expressionI)
  fix s s'
  assume wf: "wf_state s" and use: "use_identifier af n l u s = Inr s'"
  from use show "af_scopes s' = af_scopes s \<and> grows s s'"
    by (cases rule: use_identifier_cases) (use wf in \<open>auto simp: grows_refl dest: mark_move_grows\<close>)
  fix E r
  assume E: "sim af (af_moved s) (af_scopes s) E" and r: "puse af n u E r"
  note found = sim_resolve [OF E, of n]
  from use show "safe af (af_moved s') (af_scopes s) r"
  proof (cases rule: use_identifier_cases)
    case (4 b)
    then obtain t where "lookup E n = Some (t, False)" "af t = Inr True"
      using found mark_move_grows(4) [OF 4(3) wf] by (cases "lookup E n") (auto simp: tracks_def)
    then show ?thesis
      using r sim_give_away [OF E 4(1)] mark_move_grows(3) [OF 4(3) wf] 4(2) by (simp add: puse_def)
  qed (use found r E in \<open>auto simp: puse_def tracks_def split: option.splits if_splits\<close>)
qed

lemma sound_member:
  "sound_expression af (move_member types af e ob l u)
     (if u = Move \<and> af (type_of types e) = Inr True \<and> type_of types ob \<noteq> NamedType ''SystemCaps''
      then (case root_identifier ob of None \<Rightarrow> pdone | Some root \<Rightarrow> puse af root Move) else pdone)"
proof (cases "u = Move \<and> af (type_of types e) = Inr True \<and> type_of types ob \<noteq> NamedType ''SystemCaps''")
  case True
  show ?thesis
  proof (cases "root_identifier ob")
    case None
    have "move_member types af e ob l u = (\<lambda>s. Inr s)"
      using True None by (simp add: move_member_def fun_eq_iff)
    then show ?thesis using True None by (simp add: sound_done)
  next
    case (Some root)
    have "use_identifier af root l Move s = Inr s'" if "move_member types af e ob l u s = Inr s'" for s s'
    proof (cases "resolve_in (af_scopes s) root")
      case (Some b)
      then show ?thesis
        using that True \<open>root_identifier ob = Some root\<close>
        by (cases "af (ab_type b)") (auto simp: move_member_def use_identifier_def mark_move_def semantic_error_def split: if_splits)
    qed (use that True Some in \<open>auto simp: move_member_def use_identifier_def split: if_splits\<close>)
    then have "sound_expression af (move_member types af e ob l u) (puse af root Move)"
      by (rule sound_weaker [OF sound_use])
    then show ?thesis using True Some by simp
  qed
next
  case False
  have "Inr s = Inr s'" if "move_member types af e ob l u s = Inr s'" for s s'
    using that False by (auto simp: move_member_def rbind_eq_Inr split: if_splits)
  then have "sound_expression af (move_member types af e ob l u) pdone"
    by (rule sound_weaker [OF sound_done])
  then show ?thesis unfolding if_not_P [OF False] .
qed

subsection \<open>Statements and blocks\<close>

lemma sim_tl: "sim af M scs E \<Longrightarrow> scs \<noteq> [] \<Longrightarrow> E \<noteq> [] \<and> sim af M (tl scs) (tl E)"
  by (cases scs) auto

lemma safe_is_safe_statement: "safe af M scs r \<Longrightarrow> scs \<noteq> [] \<Longrightarrow> safe_statement af M scs r"
  by (cases r) (auto dest: sim_tl)

lemma outer_ids_tl: "outer_binding_ids (tl scs) \<subseteq> outer_binding_ids scs"
  by (cases scs) auto

lemma grows_is_outer: "grows s s' \<Longrightarrow> grows_outer s s'"
  unfolding grows_def grows_outer_def using outer_ids_tl [of "af_scopes s"] by blast

lemma grows_outer_trans: "grows_outer s t \<Longrightarrow> grows_outer t u \<Longrightarrow> tl (af_scopes t) = tl (af_scopes s) \<Longrightarrow> grows_outer s u"
  unfolding grows_outer_def by (auto dest: le_trans)

lemma sim_grows_outer:
  "sim af (af_moved s) (tl (af_scopes s)) E \<Longrightarrow> grows_outer s s' \<Longrightarrow> sim af (af_moved s') (tl (af_scopes s)) E"
  unfolding grows_outer_def by (blast intro: sim_mono)

lemma sound_expression_statement:
  assumes "sound_expression af f p"
  shows "sound_statement af f p"
proof (rule sound_statementI)
  fix s s' E r
  assume run: "wf_state s" "af_scopes s \<noteq> []" "f s = Inr s'"
  note d = sound_expressionD [OF assms run(1,3)]
  show "af_scopes s' \<noteq> [] \<and> tl (af_scopes s') = tl (af_scopes s) \<and> grows_outer s s'"
    using d run(2) grows_is_outer by simp
  assume "sim af (af_moved s) (af_scopes s) E" "p E r"
  then show "safe_statement af (af_moved s') (af_scopes s') r"
    using safe_is_safe_statement [OF d(4)] run(2) d(1) by simp
qed

lemma sound_statement_seq:
  assumes "sound_statement af f p" "sound_statement af g q"
  shows "sound_statement af (\<lambda>s. rbind (f s) g) (pseq p q)"
proof (rule sound_statementI)
  fix s s' E r
  assume wf: "wf_state s" "af_scopes s \<noteq> []" and "rbind (f s) g = Inr s'"
  then obtain t where f: "f s = Inr t" and g: "g t = Inr s'"
    by (auto simp: rbind_eq_Inr)
  note first = sound_statementD [OF assms(1) wf f]
  note second = sound_statementD [OF assms(2) first(4,1) g]
  show "af_scopes s' \<noteq> [] \<and> tl (af_scopes s') = tl (af_scopes s) \<and> grows_outer s s'"
    using first second by (auto intro: grows_outer_trans)
  assume E: "sim af (af_moved s) (af_scopes s) E" and "pseq p q E r"
  from this(2) show "safe_statement af (af_moved s') (af_scopes s') r"
  proof (cases rule: pseq_cases)
    case (1 E')
    then have "sim af (af_moved t) (af_scopes t) E'"
      using first(5) [OF E 1(1)] by simp
    then show ?thesis
      using second(5) 1(2) by simp
  next
    case 2
    then show ?thesis
      using first(5) [OF E 2(1)] sim_grows_outer [OF _ second(3)] second(2) by (cases r) auto
  qed
qed

lemma sound_statement_many:
  "(\<And>x. x \<in> set xs \<Longrightarrow> sound_statement af (f x) (p x)) \<Longrightarrow> sound_statement af (rthread f xs) (pmany p xs)"
proof (induction xs)
  case Nil
  have "rthread f [] = (\<lambda>s. Inr s)" by (simp add: fun_eq_iff)
  then show ?case by (simp add: sound_done sound_expression_statement)
next
  case (Cons x xs)
  have "rthread f (x # xs) = (\<lambda>s. rbind (f x s) (rthread f xs))" by (simp add: fun_eq_iff)
  then show ?case using Cons by (simp add: sound_statement_seq)
qed

lemma scope_ids_update: "scope_ids (AList.update n b sc) \<subseteq> insert (ab_id b) (scope_ids sc)"
  by (induction sc) (auto simp: scope_ids_def)

lemma declare_binding_ok:
  assumes "declare_binding af n t l m s = Inr s'" "wf_state s" "af_scopes s = sc # scs"
  shows "\<exists>b. af_scopes s' = AList.update n b sc # scs \<and> ab_type b = t" "af_moved s' = af_moved s" "grows_outer s s'"
proof -
  let ?b = "\<lparr>ab_id = af_next s, ab_name = n, ab_type = t, ab_location = l\<rparr>"
  have s': "s' = s\<lparr>af_scopes := AList.update n ?b sc # scs, af_next := af_next s + 1\<rparr>"
    using assms(1,3) by (auto simp: declare_binding_def rbind_eq_Inr semantic_error_def split: if_splits)
  let ?new = "scope_ids (AList.update n ?b sc)"
  have ids: "\<And>i. i \<in> scope_ids sc \<Longrightarrow> i < af_next s" "\<And>i. i \<in> outer_binding_ids scs \<Longrightarrow> i < af_next s"
    and apart: "scope_ids sc \<inter> outer_binding_ids scs = {}" "disjoint_scopes scs"
    using assms(2) by (simp_all add: wf_state_def assms(3))
  have new: "i = af_next s \<or> i \<in> scope_ids sc" if "i \<in> ?new" for i
    using scope_ids_update [of n ?b sc] that by auto
  have "?new \<inter> outer_binding_ids scs = {}"
    using new ids(2) apart(1) by (metis (no_types, lifting) disjoint_iff less_irrefl)
  moreover have "i < Suc (af_next s)" if "i \<in> ?new \<union> outer_binding_ids scs" for i
    using that new [of i] ids [of i] by auto
  ultimately have "wf_state s'"
    using apart(2) by (simp add: s' wf_state_def)
  then show "grows_outer s s'"
    by (auto simp: grows_outer_def s')
qed (use assms in \<open>auto simp: declare_binding_def rbind_eq_Inr semantic_error_def split: if_splits\<close>)

lemma sim_frame_update:
  assumes "sim_frame af M sc f" "af t = Inr True \<longleftrightarrow> af (ab_type b) = Inr True"
  shows "sim_frame af M (AList.update n b sc) (f(n \<mapsto> (t, False)))"
  unfolding sim_frame_def
proof
  fix k
  show "rel_option (tracks af M) (map_of (AList.update n b sc) k) ((f(n \<mapsto> (t, False))) k)"
    using assms by (cases "k = n") (auto simp: sim_frame_def tracks_def update_conv')
qed

lemma sound_declare: "sound_statement af (declare_binding af n t l m) (pdeclare n t)"
proof (rule sound_statementI)
  fix s s' E r
  assume run: "wf_state s" "af_scopes s \<noteq> []" "declare_binding af n t l m s = Inr s'"
  then obtain sc scs where scs: "af_scopes s = sc # scs" by (cases "af_scopes s") auto
  note d = declare_binding_ok [OF run(3,1) scs]
  show "af_scopes s' \<noteq> [] \<and> tl (af_scopes s') = tl (af_scopes s) \<and> grows_outer s s'"
    using d scs by auto
  assume E: "sim af (af_moved s) (af_scopes s) E" and "pdeclare n t E r"
  then show "safe_statement af (af_moved s') (af_scopes s') r"
    using d(1,2) scs by (auto simp: pdeclare_def intro: sim_frame_update)
qed

lemma sim_frame_empty: "sim_frame af M [] Map.empty"
  by (simp add: sim_frame_def)

lemma push_scope_simps [simp]:
  "af_scopes (push_scope s) = [] # af_scopes s" "af_moved (push_scope s) = af_moved s" "af_next (push_scope s) = af_next s"
  by (simp_all add: push_scope_def)

lemma scope_ids_Nil [simp]: "scope_ids [] = {}"
  by (simp add: scope_ids_def)

lemma wf_push: "wf_state s \<Longrightarrow> wf_state (push_scope s)"
  by (simp add: wf_state_def)

text \<open>The end of a block: what is marked of the outer scopes stays marked.\<close>

lemma leave_block_ok:
  assumes "wf_state t" "af_scopes t \<noteq> []"
  shows "af_scopes (leave_block t) = tl (af_scopes t)" "wf_state (leave_block t)" "af_next (leave_block t) = af_next t"
    "sim af (af_moved t) (tl (af_scopes t)) E \<Longrightarrow> sim af (af_moved (leave_block t)) (tl (af_scopes t)) E"
    "af_moved t \<inter> outer_binding_ids (tl (af_scopes t)) \<subseteq> af_moved (leave_block t)"
proof -
  obtain sc scs where scs: "af_scopes t = sc # scs" using assms(2) by (cases "af_scopes t") auto
  show 1: "af_scopes (leave_block t) = tl (af_scopes t)" "af_next (leave_block t) = af_next t"
    by (simp_all add: leave_block_def pop_scope_def Let_def)
  show "wf_state (leave_block t)"
    using assms(1) scs unfolding wf_state_def 1 by auto
  show 5: "af_moved t \<inter> outer_binding_ids (tl (af_scopes t)) \<subseteq> af_moved (leave_block t)"
    using assms(1) scs by (auto simp: wf_state_def leave_block_def pop_scope_def Let_def)
  show "sim af (af_moved t) (tl (af_scopes t)) E \<Longrightarrow> sim af (af_moved (leave_block t)) (tl (af_scopes t)) E"
    using 5 by (blast intro: sim_mono)
qed

lemma safe_pop: "safe_statement af M scs r \<Longrightarrow> scs \<noteq> [] \<Longrightarrow> safe af M (tl scs) (pop_outcome r)"
  by (cases r) (auto dest: sim_tl)

lemma sound_block:
  assumes "sound_statement af f p"
  shows "sound_expression af (\<lambda>s. rbind (f (push_scope s)) (\<lambda>s. Inr (leave_block s))) (pframe Map.empty p)"
proof (rule sound_expressionI)
  fix s s' E r
  assume wf: "wf_state s" and "rbind (f (push_scope s)) (\<lambda>s. Inr (leave_block s)) = Inr s'"
  then obtain t where t: "f (push_scope s) = Inr t" and s': "s' = leave_block t"
    by (auto simp: rbind_eq_Inr)
  have "af_scopes (push_scope s) \<noteq> []" by simp
  note d = sound_statementD [OF assms wf_push [OF wf] this t]
  note l = leave_block_ok [OF d(4,1), folded s']
  show "af_scopes s' = af_scopes s \<and> grows s s'"
    using d(2,3) l unfolding grows_def grows_outer_def by auto
  assume E: "sim af (af_moved s) (af_scopes s) E" and "pframe Map.empty p E r"
  then obtain r' where r': "p (Map.empty # E) r'" "r = pop_outcome r'"
    by (auto simp: pframe_def)
  have "sim af (af_moved (push_scope s)) (af_scopes (push_scope s)) (Map.empty # E)"
    using E by (simp add: sim_frame_empty)
  then have "safe_statement af (af_moved t) (af_scopes t) r'"
    using d(5) r'(1) by blast
  then have "safe af (af_moved t) (tl (af_scopes t)) r"
    using safe_pop d(1) r'(2) by simp
  then show "safe af (af_moved s') (af_scopes s) r"
    using l(4) d(2) by (cases r) simp_all
qed

subsection \<open>Branches\<close>

lemma restore_moves_simps [simp]:
  "af_scopes (restore_moves before s) = af_scopes s" "af_moved (restore_moves before s) = af_moved before"
  "af_next (restore_moves before s) = af_next s"
  by (simp_all add: restore_moves_def)

lemma wf_restore [simp]: "wf_state (restore_moves before s) \<longleftrightarrow> wf_state s"
  by (simp add: wf_state_def)

lemma join_branches_simps [simp]:
  "af_scopes (join_branches before first second) = af_scopes second" "af_next (join_branches before first second) = af_next second"
  "af_moved (join_branches before first second)
     = af_moved before \<union> af_moved first \<inter> outer_binding_ids (af_scopes before) \<union> af_moved second \<inter> outer_binding_ids (af_scopes before)"
  by (simp_all add: join_branches_def Let_def)

lemma safe_mono: "safe af M scs r \<Longrightarrow> M \<inter> outer_binding_ids scs \<subseteq> M' \<Longrightarrow> safe af M' scs r"
  by (cases r) (auto intro: sim_mono)

lemma sound_if:
  assumes "sound_expression af f p" "sound_expression af g q"
  shows "sound_expression af (\<lambda>before. rbind (f before) (\<lambda>first. rbind (g (restore_moves before first)) (\<lambda>second.
    Inr (join_branches before first second)))) (peither p q)"
proof (rule sound_expressionI)
  fix s s' E r
  assume wf: "wf_state s"
    and "rbind (f s) (\<lambda>first. rbind (g (restore_moves s first)) (\<lambda>second. Inr (join_branches s first second))) = Inr s'"
  then obtain first second where first: "f s = Inr first" and second: "g (restore_moves s first) = Inr second"
      and s': "s' = join_branches s first second"
    by (auto simp: rbind_eq_Inr)
  note d1 = sound_expressionD [OF assms(1) wf first]
  have wf1: "wf_state (restore_moves s first)" using d1(3) by simp
  note d2 = sound_expressionD [OF assms(2) wf1 second]
  have scopes: "af_scopes second = af_scopes s"
    using d1(1) d2(1) by simp
  then show "af_scopes s' = af_scopes s \<and> grows s s'"
    using d1(2) d2(2,3) by (auto simp: s' grows_def wf_state_def)
  assume E: "sim af (af_moved s) (af_scopes s) E" and "peither p q E r"
  then consider "p E r" | "q E r" by (auto simp: peither_def)
  then show "safe af (af_moved s') (af_scopes s) r"
  proof cases
    case 1
    from d1(4) [OF E this] show ?thesis by (rule safe_mono) (auto simp: s')
  next
    case 2
    have "safe af (af_moved second) (af_scopes s) r"
      using d2(4) [of E r] E 2 d1(1) by simp
    then show ?thesis by (rule safe_mono) (auto simp: s')
  qed
qed

text \<open>The arms of a match: each starts from the state before, the marks are joined.\<close>

definition sound_arm :: "affinity \<Rightarrow> (affine_state \<Rightarrow> affine_state \<Rightarrow> affine_state result) \<Rightarrow> path \<Rightarrow> bool" where
  "sound_arm af g p \<longleftrightarrow> (\<forall>before joined s'. wf_state joined \<longrightarrow> af_scopes joined = af_scopes before \<longrightarrow> g before joined = Inr s'
     \<longrightarrow> af_scopes s' = af_scopes before \<and> wf_state s' \<and> af_next joined \<le> af_next s' \<and> af_moved joined \<subseteq> af_moved s'
     \<and> (\<forall>E r. sim af (af_moved before) (af_scopes before) E \<longrightarrow> p E r \<longrightarrow> safe af (af_moved s') (af_scopes before) r))"

lemma sound_armD:
  assumes "sound_arm af g p" "wf_state joined" "af_scopes joined = af_scopes before" "g before joined = Inr s'"
  shows "af_scopes s' = af_scopes before" "wf_state s'" "af_next joined \<le> af_next s'" "af_moved joined \<subseteq> af_moved s'"
    "sim af (af_moved before) (af_scopes before) E \<Longrightarrow> p E r \<Longrightarrow> safe af (af_moved s') (af_scopes before) r"
  using assms unfolding sound_arm_def by blast+

lemma sound_arms:
  assumes "\<And>arm. arm \<in> set arms \<Longrightarrow> sound_arm af (g arm) (p arm)"
    and "wf_state joined" "af_scopes joined = af_scopes before" "rthread (\<lambda>arm joined. g arm before joined) arms joined = Inr s'"
  shows "af_scopes s' = af_scopes before \<and> wf_state s' \<and> af_next joined \<le> af_next s' \<and> af_moved joined \<subseteq> af_moved s'
    \<and> (\<forall>arm \<in> set arms. \<forall>E r. sim af (af_moved before) (af_scopes before) E \<longrightarrow> p arm E r \<longrightarrow> safe af (af_moved s') (af_scopes before) r)"
  using assms
proof (induction arms arbitrary: joined)
  case (Cons arm arms)
  from Cons.prems(4) obtain t where t: "g arm before joined = Inr t" "rthread (\<lambda>arm joined. g arm before joined) arms t = Inr s'"
    by (auto simp: rbind_eq_Inr)
  have "sound_arm af (g arm) (p arm)" using Cons.prems(1) by simp
  note d = sound_armD [OF this Cons.prems(2,3) t(1)]
  have ih: "af_scopes s' = af_scopes before" "wf_state s'" "af_next t \<le> af_next s'" "af_moved t \<subseteq> af_moved s'"
    "\<And>arm E r. arm \<in> set arms \<Longrightarrow> sim af (af_moved before) (af_scopes before) E \<Longrightarrow> p arm E r \<Longrightarrow> safe af (af_moved s') (af_scopes before) r"
    using Cons.IH [OF Cons.prems(1) d(2,1) t(2)] by auto
  have "safe af (af_moved s') (af_scopes before) r" if "sim af (af_moved before) (af_scopes before) E" "p arm E r" for E r
    using d(5) [OF that] by (rule safe_mono) (use ih(4) in auto)
  then show ?case
    using ih d(3,4) by (auto dest: le_trans)
qed simp

lemma sound_match:
  assumes "\<And>arm. arm \<in> set arms \<Longrightarrow> sound_arm af (g arm) (p arm)"
  shows "sound_expression af (\<lambda>before. rthread (\<lambda>arm joined. g arm before joined) arms before) (pany p arms)"
proof (rule sound_expressionI)
  fix s s' E r
  assume wf: "wf_state s" and run: "rthread (\<lambda>arm joined. g arm s joined) arms s = Inr s'"
  note d = sound_arms [OF assms wf refl run]
  show "af_scopes s' = af_scopes s \<and> grows s s'"
    using d by (auto simp: grows_def)
  assume E: "sim af (af_moved s) (af_scopes s) E" and "pany p arms E r"
  then consider "r = Done E" | arm where "arm \<in> set arms" "p arm E r" by (auto simp: pany_def)
  then show "safe af (af_moved s') (af_scopes s) r"
  proof cases
    case 1
    have "sim af (af_moved s') (af_scopes s) E"
      using E by (rule sim_mono) (use d in auto)
    then show ?thesis by (simp add: 1)
  qed (use d E in blast)
qed

lemma arm_start_ok:
  assumes "arm_start af binding l before joined = Inr t" "wf_state joined" "af_scopes joined = af_scopes before"
    and "af UnknownType = Inr False" "af ty \<noteq> Inr True"
  defines "frame \<equiv> case binding of None \<Rightarrow> Map.empty | Some n \<Rightarrow> [n \<mapsto> (ty, False)]"
  shows "wf_state t \<and> af_scopes t \<noteq> [] \<and> tl (af_scopes t) = af_scopes before \<and> af_moved t = af_moved before \<and> af_next joined \<le> af_next t
    \<and> (\<forall>E. sim af (af_moved before) (af_scopes before) E \<longrightarrow> sim af (af_moved t) (af_scopes t) (frame # E))"
proof -
  let ?start = "push_scope (restore_moves before joined)"
  have start: "wf_state ?start" "af_scopes ?start = [] # af_scopes before" "af_moved ?start = af_moved before" "af_next ?start = af_next joined"
    using assms(2,3) by (simp_all add: wf_push)
  show ?thesis
  proof (cases binding)
    case None
    then show ?thesis
      using assms(1) start by (auto simp: arm_start_def sim_frame_empty frame_def)
  next
    case (Some n)
    then have "declare_binding af n UnknownType l False ?start = Inr t"
      using assms(1) by (simp add: arm_start_def)
    from declare_binding_ok [OF this start(1,2)]
    obtain b where b: "af_scopes t = AList.update n b [] # af_scopes before" "ab_type b = UnknownType" "af_moved t = af_moved before"
        "grows_outer ?start t"
      using start(3) by auto
    have "sim_frame af (af_moved t) (AList.update n b []) frame"
      using sim_frame_update [OF sim_frame_empty, of af ty b] assms(4,5) b(2) by (simp add: Some frame_def)
    then show ?thesis
      using b start(4) by (auto simp: grows_outer_def)
  qed
qed

lemma sound_arm_body:
  assumes "sound_statement af f p" "af UnknownType = Inr False" "af ty \<noteq> Inr True"
  shows "sound_arm af (\<lambda>before joined. rbind (arm_start af binding l before joined) (\<lambda>s. rbind (f s) (\<lambda>s. Inr (join_arm before joined s))))
    (pframe (case binding of None \<Rightarrow> Map.empty | Some n \<Rightarrow> [n \<mapsto> (ty, False)]) p)"
  unfolding sound_arm_def
proof (intro allI impI)
  fix before joined s'
  let ?frame = "case binding of None \<Rightarrow> Map.empty | Some n \<Rightarrow> [n \<mapsto> (ty, False)]"
  assume j: "wf_state joined" "af_scopes joined = af_scopes before"
    and "rbind (arm_start af binding l before joined) (\<lambda>s. rbind (f s) (\<lambda>s. Inr (join_arm before joined s))) = Inr s'"
  then obtain t u where t: "arm_start af binding l before joined = Inr t" and u: "f t = Inr u" and s': "s' = join_arm before joined u"
    by (auto simp: rbind_eq_Inr)
  note start = arm_start_ok [OF t j assms(2,3)]
  have tl: "wf_state t" "af_scopes t \<noteq> []" using start by blast+
  note d = sound_statementD [OF assms(1) tl u]
  have scopes: "af_scopes s' = af_scopes before"
    using d(2) start by (simp add: s' join_arm_def pop_scope_def Let_def)
  have moved: "af_moved s' = af_moved joined \<union> af_moved u \<inter> outer_binding_ids (af_scopes before)" "af_next s' = af_next u"
    by (simp_all add: s' join_arm_def pop_scope_def Let_def)
  have "disjoint_scopes (tl (af_scopes u))" "outer_binding_ids (tl (af_scopes u)) \<subseteq> outer_binding_ids (af_scopes u)"
    using d(4) by (cases "af_scopes u"; simp add: wf_state_def)+
  then have "wf_state s'"
    using d(2,4) start scopes moved(2) by (auto simp: wf_state_def)
  moreover have "af_next joined \<le> af_next s'"
    using start d(3) moved(2) by (auto simp: grows_outer_def)
  moreover have "safe af (af_moved s') (af_scopes before) r" if E: "sim af (af_moved before) (af_scopes before) E" and r: "pframe ?frame p E r" for E r
  proof -
    obtain r' where r': "p (?frame # E) r'" "r = pop_outcome r'"
      using r by (auto simp: pframe_def)
    have "sim af (af_moved t) (af_scopes t) (?frame # E)"
      using start E by blast
    then have "safe_statement af (af_moved u) (af_scopes u) r'"
      using d(5) r'(1) by blast
    then have "safe af (af_moved u) (af_scopes before) r"
      using safe_pop [of af "af_moved u" "af_scopes u" r'] d(1,2) start r'(2) by simp
    then show ?thesis
      by (rule safe_mono) (simp add: moved(1))
  qed
  ultimately show "af_scopes s' = af_scopes before \<and> wf_state s' \<and> af_next joined \<le> af_next s' \<and> af_moved joined \<subseteq> af_moved s'
     \<and> (\<forall>E r. sim af (af_moved before) (af_scopes before) E \<longrightarrow> pframe ?frame p E r \<longrightarrow> safe af (af_moved s') (af_scopes before) r)"
    using scopes moved(1) by blast
qed

subsection \<open>Loops\<close>

lemma ploop_safe:
  assumes "ploop p E r" "sim af M scs E" "\<And>E r. sim af M scs E \<Longrightarrow> p E r \<Longrightarrow> safe af M scs r"
  shows "safe af M scs r"
  using assms(1,2)
proof (induction rule: ploop.induct)
  case (again E E' r)
  then have "sim af M scs E'"
    using assms(3) [OF again.prems] by fastforce
  then show ?case by (rule again.IH)
qed (use assms(3) in fastforce)+

lemma reject_loop_moves_ok:
  "reject_loop_moves m before l s = Inr () \<Longrightarrow> af_moved s \<inter> outer_binding_ids (af_scopes before) \<subseteq> af_moved before"
  by (auto simp: reject_loop_moves_def Let_def rbind_eq_Inr semantic_error_def split: if_splits)

text \<open>A condition that moves nothing can be evaluated any number of times.\<close>

definition steady :: "(expression \<Rightarrow> type_node option) \<Rightarrow> affinity \<Rightarrow> expression \<Rightarrow> bool" where
  "steady types af c \<longleftrightarrow> (\<forall>s s'. check_expression types af c Borrow s = Inr s' \<longrightarrow> af_moved s' = af_moved s)"

lemma sound_while:
  assumes "sound_expression af f p" "\<And>s s'. f s = Inr s' \<Longrightarrow> af_moved s' = af_moved s" "sound_expression af g q"
  shows "sound_expression af (\<lambda>s. rbind (f s) (\<lambda>before. rbind (g before) (\<lambda>s. rbind (reject_loop_moves m before l s) (\<lambda>_.
    Inr (restore_moves before s))))) (pseq (ploop (pseq p q)) (peither pdone p))"
proof (rule sound_expressionI)
  fix s s' E r
  assume wf: "wf_state s" and "rbind (f s) (\<lambda>before. rbind (g before) (\<lambda>s. rbind (reject_loop_moves m before l s) (\<lambda>_.
    Inr (restore_moves before s)))) = Inr s'"
  then obtain before t where before: "f s = Inr before" and t: "g before = Inr t" and ok: "reject_loop_moves m before l t = Inr ()"
      and s': "s' = restore_moves before t"
    by (auto simp: rbind_eq_Inr)
  note d1 = sound_expressionD [OF assms(1) wf before]
  note d2 = sound_expressionD [OF assms(3) d1(3) t]
  note same = assms(2) [OF before]
  show "af_scopes s' = af_scopes s \<and> grows s s'"
    using d1 d2 same by (auto simp: s' grows_def)
  assume E: "sim af (af_moved s) (af_scopes s) E" and r: "pseq (ploop (pseq p q)) (peither pdone p) E r"
  have cond: "safe af (af_moved s) (af_scopes s) r" if "sim af (af_moved s) (af_scopes s) E" "p E r" for E r
    using d1(4) [OF that] same by simp
  have body: "safe af (af_moved s) (af_scopes s) r" if "sim af (af_moved s) (af_scopes s) E" "q E r" for E r
  proof -
    have "safe af (af_moved t) (af_scopes s) r"
      using d2(4) [of E r] that same d1(1) by simp
    then show ?thesis
      by (rule safe_mono) (use reject_loop_moves_ok [OF ok] d1(1) same in auto)
  qed
  have "safe af (af_moved s) (af_scopes s) r" if "sim af (af_moved s) (af_scopes s) E" "pseq p q E r" for E r
    using that(2) cond [OF that(1)] body by (cases rule: pseq_cases) fastforce+
  then have loop: "safe af (af_moved s) (af_scopes s) r" if "ploop (pseq p q) E r" for r
    using ploop_safe [OF that E] by blast
  from r have "safe af (af_moved s) (af_scopes s) r"
  proof (cases rule: pseq_cases)
    case (1 E')
    then have "sim af (af_moved s) (af_scopes s) E'" using loop [of "Done E'"] by simp
    then show ?thesis using 1(2) cond by (auto simp: peither_def pdone_def)
  qed (rule loop)
  then show "safe af (af_moved s') (af_scopes s) r"
    using same by (simp add: s')
qed

lemma sound_for:
  assumes "sound_statement af f p"
  shows "sound_expression af (\<lambda>before. rbind (declare_binding af x ty l False (push_scope before)) (\<lambda>s. rbind (f s) (\<lambda>s.
    rbind (reject_loop_moves m before l s) (\<lambda>_. Inr (restore_moves before (pop_scope s)))))) (ploop (pframe [x \<mapsto> (ty, False)] p))"
proof (rule sound_expressionI)
  fix s s' E r
  assume wf: "wf_state s" and "rbind (declare_binding af x ty l False (push_scope s)) (\<lambda>s'. rbind (f s') (\<lambda>s'.
    rbind (reject_loop_moves m s l s') (\<lambda>_. Inr (restore_moves s (pop_scope s'))))) = Inr s'"
  then obtain t u where t: "declare_binding af x ty l False (push_scope s) = Inr t" and u: "f t = Inr u"
      and ok: "reject_loop_moves m s l u = Inr ()" and s': "s' = restore_moves s (pop_scope u)"
    by (auto simp: rbind_eq_Inr)
  obtain b where b: "af_scopes t = AList.update x b [] # af_scopes s" "ab_type b = ty" "af_moved t = af_moved s" "grows_outer (push_scope s) t"
    using declare_binding_ok [OF t wf_push [OF wf], of "[]" "af_scopes s"] by auto
  have t_ok: "wf_state t" "af_scopes t \<noteq> []"
    using b by (auto simp: grows_outer_def)
  note d = sound_statementD [OF assms t_ok u]
  have scopes: "af_scopes s' = af_scopes s" "tl (af_scopes u) = af_scopes s"
    using d(2) b(1) by (simp_all add: s' pop_scope_def)
  have "disjoint_scopes (tl (af_scopes u))" "outer_binding_ids (tl (af_scopes u)) \<subseteq> outer_binding_ids (af_scopes u)"
    using d(4) by (cases "af_scopes u"; simp add: wf_state_def)+
  then have "wf_state s'"
    using d(4) scopes by (auto simp: wf_state_def s' pop_scope_def)
  then show "af_scopes s' = af_scopes s \<and> grows s s'"
    using scopes d(3) b(4) by (auto simp: grows_def grows_outer_def s' pop_scope_def)
  assume E: "sim af (af_moved s) (af_scopes s) E" and r: "ploop (pframe [x \<mapsto> (ty, False)] p) E r"
  have "safe af (af_moved s) (af_scopes s) r" if E: "sim af (af_moved s) (af_scopes s) E" and r: "pframe [x \<mapsto> (ty, False)] p E r" for E r
  proof -
    obtain r' where r': "p ([x \<mapsto> (ty, False)] # E) r'" "r = pop_outcome r'"
      using r by (auto simp: pframe_def)
    have "sim_frame af (af_moved t) (AList.update x b []) [x \<mapsto> (ty, False)]"
      using sim_frame_update [OF sim_frame_empty, of af ty b] b(2) by simp
    then have "sim af (af_moved t) (af_scopes t) ([x \<mapsto> (ty, False)] # E)"
      using E b(1,3) by auto
    then have "safe_statement af (af_moved u) (af_scopes u) r'"
      using d(5) r'(1) by blast
    then have "safe af (af_moved u) (af_scopes s) r"
      using safe_pop [of af "af_moved u" "af_scopes u" r'] d(1) scopes(2) r'(2) by simp
    then show ?thesis
      by (rule safe_mono) (rule reject_loop_moves_ok [OF ok])
  qed
  then show "safe af (af_moved s') (af_scopes s) r"
    using ploop_safe [OF r E] by (simp add: s')
qed

section \<open>Soundness of the checker\<close>

lemma sound_eq: "(\<And>s. f s = g s) \<Longrightarrow> sound_expression af g p \<Longrightarrow> sound_expression af f p"
  by (simp only: ext [of f g])

lemma sound_statement_eq: "(\<And>s. f s = g s) \<Longrightarrow> sound_statement af g p \<Longrightarrow> sound_statement af f p"
  by (simp only: ext [of f g])

text \<open>The usage that the checker computes from the type is the one of the paths.\<close>

lemma guarded_usage:
  assumes "af t = Inr a"
  shows "usage_of a = moving af t Move" "(if a then u else Borrow) = moving af t u"
  using assms by (simp_all add: moving_def usage_of_def)

lemma sound_moving:
  assumes "sound_expression af (check_expression types af e (moving af (type_of types e) Move)) p"
  shows "sound_expression af (\<lambda>s. rbind (af (type_of types e)) (\<lambda>a. check_expression types af e (usage_of a) s)) p"
  by (rule sound_guard) (simp add: guarded_usage(1) [of af "type_of types e"] assms)

lemma sound_context:
  assumes "sound_expression af (check_expression types af e (moving af (type_of types e) u)) p"
  shows "sound_expression af (\<lambda>s. rbind (af (type_of types e)) (\<lambda>a. check_expression types af e (if a then u else Borrow) s)) p"
  by (rule sound_guard) (simp only: guarded_usage(2) [of af "type_of types e"] assms)

lemma sound_moving_seq:
  assumes "sound_expression af (check_expression types af e (moving af (type_of types e) Move)) p" "sound_expression af g q"
  shows "sound_expression af (\<lambda>s. rbind (af (type_of types e)) (\<lambda>a. rbind (check_expression types af e (usage_of a) s) g)) (pseq p q)"
  by (rule sound_guard) (simp only: guarded_usage(1) [of af "type_of types e"] sound_seq [OF assms])

lemma sound_context_seq:
  assumes "sound_expression af (check_expression types af e (moving af (type_of types e) u)) p" "sound_expression af g q"
  shows "sound_expression af (\<lambda>s. rbind (af (type_of types e)) (\<lambda>a. rbind (check_expression types af e (if a then u else Borrow) s) g)) (pseq p q)"
  by (rule sound_guard) (simp only: guarded_usage(2) [of af "type_of types e"] sound_seq [OF assms])

lemma sound_let:
  assumes "sound_expression af (check_expression types af e (moving af (type_of types e) Move)) p"
  shows "sound_statement af (\<lambda>s. rbind (af (type_of types e)) (\<lambda>a. rbind (check_expression types af e (usage_of a) s)
    (declare_binding af n (type_of types e) l m))) (pseq p (pdeclare n (type_of types e)))"
proof (cases "af (type_of types e)")
  case (Inr a)
  then show ?thesis
    using sound_statement_seq [OF sound_expression_statement [OF assms] sound_declare] by (simp add: guarded_usage(1) [of af "type_of types e"])
qed (simp add: sound_statement_def)

lemma rbind_Inr: "rbind m Inr = m"
  by (cases m) simp_all

lemma sound_then_jump: "sound_expression af f p \<Longrightarrow> sound_expression af f (pseq p pjump)"
  using sound_seq [OF _ sound_jump, of af f p] by (simp add: rbind_Inr)

lemma check_block_nested: "check_block types af True b s = rbind (check_block types af False b (push_scope s)) (\<lambda>s. Inr (leave_block s))"
  by (cases b; cases "check_block types af False b (push_scope s)") (auto simp: rbind_def split: sum.splits)

lemma sound_nested_block:
  "sound_statement af (check_block types af False b) p \<Longrightarrow> sound_expression af (check_block types af True b) (pframe Map.empty p)"
  by (rule sound_eq [OF check_block_nested]) (rule sound_block)

lemma called_conditions: "set (expression_conditions (called e)) \<subseteq> set (expression_conditions e)"
  by (cases e) auto

definition steady_all :: "(expression \<Rightarrow> type_node option) \<Rightarrow> affinity \<Rightarrow> expression list \<Rightarrow> bool" where
  "steady_all types af cs \<longleftrightarrow> (\<forall>c \<in> set cs. steady types af c)"

lemma steady_all_simps [simp]:
  "steady_all types af []" "steady_all types af (c # cs) \<longleftrightarrow> steady types af c \<and> steady_all types af cs"
  "steady_all types af (cs @ ds) \<longleftrightarrow> steady_all types af cs \<and> steady_all types af ds"
  "steady_all types af (concat (map f xs)) \<longleftrightarrow> (\<forall>x \<in> set xs. steady_all types af (f x))"
  by (auto simp: steady_all_def)

lemma steady_called: "steady_all types af (expression_conditions e) \<Longrightarrow> steady_all types af (expression_conditions (called e))"
  using called_conditions [of e] unfolding steady_all_def by blast

definition payloads_free :: "affinity \<Rightarrow> (type_node \<Rightarrow> string \<Rightarrow> type_node) \<Rightarrow> bool" where
  "payloads_free af pay \<longleftrightarrow> af UnknownType = Inr False \<and> (\<forall>t v. af (pay t v) \<noteq> Inr True)"

definition good_expression where
  "good_expression types af pay e u \<longleftrightarrow> (payloads_free af pay \<and> steady_all types af (expression_conditions e)
     \<longrightarrow> sound_expression af (check_expression types af e u) (expression_paths types af pay e u))"

definition good_arm where
  "good_arm types af pay t arm u \<longleftrightarrow> (payloads_free af pay \<and> steady_all types af (arm_conditions arm)
     \<longrightarrow> sound_arm af (check_arm types af arm u) (arm_paths types af pay t arm u))"

definition good_body where
  "good_body types af pay body u \<longleftrightarrow> (payloads_free af pay \<and> steady_all types af (body_conditions body)
     \<longrightarrow> sound_statement af (check_body types af body u) (body_paths types af pay body u))"

definition good_statement where
  "good_statement types af pay st \<longleftrightarrow> (payloads_free af pay \<and> steady_all types af (statement_conditions st)
     \<longrightarrow> sound_statement af (check_statement types af st) (statement_paths types af pay st)
       \<and> (is_if st \<longrightarrow> sound_expression af (check_statement types af st) (statement_paths types af pay st)))"

definition good_else where
  "good_else types af pay el \<longleftrightarrow> (payloads_free af pay \<and> steady_all types af (else_conditions el)
     \<longrightarrow> sound_expression af (check_else types af el) (else_paths types af pay el))"

definition good_block where
  "good_block types af pay b \<longleftrightarrow> (payloads_free af pay \<and> steady_all types af (block_conditions b)
     \<longrightarrow> sound_statement af (check_block types af False b) (block_paths types af pay b))"

lemmas good_defs = good_expression_def good_arm_def good_body_def good_statement_def good_else_def good_block_def

lemma paths_sound:
  "good_expression types af pay e u"
  "good_arm types af pay t arm u'"
  "good_body types af pay body u''"
  "good_statement types af pay st"
  "good_else types af pay el"
  "good_block types af pay b"
proof (induction types af pay e u and types af pay t arm u' and types af pay body u'' and types af pay st and types af pay el and types af pay b
    rule: expression_paths_arm_paths_body_paths_statement_paths_else_paths_block_paths.induct)
  case (1 types af pay v l u)
  show ?case unfolding good_defs expression_paths.simps by (rule impI, rule sound_eq [OF check_expression.simps(1)], rule sound_done)
next
  case (2 types af pay n l u)
  show ?case unfolding good_defs expression_paths.simps by (rule impI, rule sound_eq [OF check_expression.simps(2)], rule sound_use)
next
  case (3 types af pay ps l u)
  show ?case unfolding good_defs expression_paths.simps
    by (rule impI, rule sound_eq [OF check_expression.simps(3)], rule sound_many) (use 3 in \<open>auto simp: good_defs\<close>)
next
  case (4 types af pay xs l u)
  show ?case unfolding good_defs expression_paths.simps
    by (rule impI, rule sound_eq [OF check_expression.simps(4)], intro sound_many sound_moving) (use 4 in \<open>auto simp: good_defs\<close>)
next
  case (5 types af pay es l u)
  show ?case unfolding good_defs expression_paths.simps
    by (rule impI, rule sound_eq [OF check_expression.simps(5)], rule sound_many, clarsimp, intro sound_seq sound_moving) (use 5 in \<open>auto simp: good_defs\<close>)
next
  case (6 types af pay t fs l u)
  show ?case unfolding good_defs expression_paths.simps
    by (rule impI, rule sound_eq [OF check_expression.simps(6)], rule sound_many, clarsimp, intro sound_moving) (use 6 in \<open>auto simp: good_defs\<close>)
next
  case (7 types af pay ob m l u)
  show ?case unfolding good_defs expression_paths.simps
    by (rule impI, rule sound_eq [OF check_expression.simps(7)], intro sound_seq sound_member) (use 7 in \<open>auto simp: good_defs\<close>)
next
  case (8 types af pay callee as l u)
  show ?case unfolding good_defs expression_paths.simps
    by (rule impI, rule sound_eq [OF check_expression.simps(8)], intro sound_seq sound_many sound_moving) (use 8 in \<open>auto simp: good_defs steady_called\<close>)
next
  case (9 types af pay a op b l u)
  show ?case unfolding good_defs expression_paths.simps
    by (rule impI, rule sound_eq [OF check_expression.simps(9)], intro sound_seq sound_optional) (use 9 in \<open>auto simp: good_defs\<close>)
next
  case (10 types af pay op a l u)
  show ?case unfolding good_defs expression_paths.simps
    by (rule impI, rule sound_eq [OF check_expression.simps(10)]) (use 10 in \<open>auto simp: good_defs\<close>)
next
  case (11 types af pay v er l u)
  have "sound_expression af (\<lambda>s. case er of None \<Rightarrow> Inr s
      | Some e \<Rightarrow> rbind (af (type_of types e)) (\<lambda>affine. check_expression types af e (usage_of affine) s))
    (case er of None \<Rightarrow> pjump | Some e \<Rightarrow> pseq (expression_paths types af pay e (moving af (type_of types e) Move)) pjump)"
    if "payloads_free af pay" "steady_all types af (expression_conditions (OrReturnExpression v er l))"
    using 11(2) that by (cases er) (auto simp: good_defs intro!: sound_jump [simplified] sound_moving sound_then_jump)
  then show ?case unfolding good_defs expression_paths.simps
    by (intro impI sound_eq [OF check_expression.simps(11)] sound_context_seq sound_optional) (use 11(1) in \<open>auto simp: good_defs\<close>)
next
  case (12 types af pay v fb l u)
  show ?case unfolding good_defs expression_paths.simps
    by (rule impI, rule sound_eq [OF check_expression.simps(12)], intro sound_context_seq sound_optional sound_context) (use 12 in \<open>auto simp: good_defs\<close>)
next
  case (13 types af pay v b l u)
  show ?case unfolding good_defs expression_paths.simps
    by (rule impI, rule sound_eq [OF check_expression.simps(13)], intro sound_context_seq sound_optional sound_nested_block) (use 13 in \<open>auto simp: good_defs\<close>)
next
  case (14 types af pay v arms l u)
  show ?case unfolding good_defs expression_paths.simps
    by (rule impI, rule sound_eq [OF check_expression.simps(14)], intro sound_seq sound_match) (use 14 in \<open>auto simp: good_defs\<close>)
next
  case (15 types af pay t v l u)
  show ?case unfolding good_defs expression_paths.simps
    by (rule impI, rule sound_eq [OF check_expression.simps(15)], intro sound_moving_seq) (use 15 in \<open>auto simp: good_defs\<close>)
next
  case (16 types af pay t variant binding body l u)
  have "check_arm types af (MatchArm variant binding body l) u = (\<lambda>before joined. rbind (arm_start af binding l before joined) (\<lambda>s.
      rbind (check_body types af body u s) (\<lambda>s. Inr (join_arm before joined s))))"
    by (simp add: fun_eq_iff)
  then show ?case using 16 by (auto simp: good_defs payloads_free_def intro: sound_arm_body)
next
  case (17 types af pay b u)
  show ?case unfolding good_defs body_paths.simps
    by (rule impI, rule sound_statement_eq [OF check_body.simps(1)]) (use 17 in \<open>auto simp: good_defs\<close>)
next
  case (18 types af pay e u)
  show ?case unfolding good_defs body_paths.simps
    by (rule impI, rule sound_statement_eq [OF check_body.simps(2)], intro sound_expression_statement sound_context) (use 18 in \<open>auto simp: good_defs\<close>)
next
  case (19 types af pay n m v l t)
  show ?case unfolding good_defs statement_paths.simps
    by (intro impI conjI, rule sound_statement_eq [OF check_statement.simps(1)], rule sound_let) (use 19 in \<open>auto simp: good_defs\<close>)
next
  case (20 types af pay v l)
  have "sound_expression af (check_statement types af (ReturnStatement v l)) (statement_paths types af pay (ReturnStatement v l))"
    if "payloads_free af pay" "steady_all types af (statement_conditions (ReturnStatement v l))"
    unfolding statement_paths.simps
    by (rule sound_eq [OF check_statement.simps(2)], cases v) (use 20 that in \<open>auto simp: good_defs intro!: sound_jump [simplified] sound_moving sound_then_jump\<close>)
  then show ?case by (simp add: good_defs sound_expression_statement)
next
  case (21 types af pay e l)
  have "sound_expression af (check_statement types af (ExpressionStatement e l)) (statement_paths types af pay (ExpressionStatement e l))"
    if "payloads_free af pay" "steady_all types af (statement_conditions (ExpressionStatement e l))"
    unfolding statement_paths.simps
    by (rule sound_eq [OF check_statement.simps(3)]) (use 21 that in \<open>auto simp: good_defs\<close>)
  then show ?case by (simp add: good_defs sound_expression_statement)
next
  case (22 types af pay c t el l)
  have "sound_expression af (check_statement types af (IfStatement c t el l)) (statement_paths types af pay (IfStatement c t el l))"
    if steady: "payloads_free af pay" "steady_all types af (statement_conditions (IfStatement c t el l))"
  proof -
    have "sound_expression af (\<lambda>s. case el of None \<Rightarrow> Inr s | Some e \<Rightarrow> check_else types af e s)
        (case el of None \<Rightarrow> pdone | Some e \<Rightarrow> else_paths types af pay e)"
      by (cases el) (use 22(3) steady in \<open>auto simp: good_defs intro!: sound_done [simplified]\<close>)
    then show ?thesis unfolding statement_paths.simps
      by (intro sound_eq [OF check_statement.simps(4)] sound_seq sound_if sound_nested_block) (use 22(1,2) steady in \<open>auto simp: good_defs\<close>)
  qed
  then show ?case by (simp add: good_defs sound_expression_statement)
next
  case (23 types af pay c b l)
  have "sound_expression af (check_statement types af (WhileStatement c b l)) (statement_paths types af pay (WhileStatement c b l))"
    if "payloads_free af pay" "steady_all types af (statement_conditions (WhileStatement c b l))"
    unfolding statement_paths.simps
    by (rule sound_eq [OF check_statement.simps(5)], intro sound_while sound_nested_block) (use 23 that in \<open>auto simp: good_defs steady_def\<close>)
  then show ?case by (simp add: good_defs sound_expression_statement)
next
  case (24 types af pay x it b l)
  have "sound_expression af (check_statement types af (ForStatement x it b l)) (statement_paths types af pay (ForStatement x it b l))"
    if "payloads_free af pay" "steady_all types af (statement_conditions (ForStatement x it b l))"
    unfolding statement_paths.simps
    by (rule sound_eq [OF check_statement.simps(6)], intro sound_seq sound_for) (use 24 that in \<open>auto simp: good_defs\<close>)
  then show ?case by (simp add: good_defs sound_expression_statement)
next
  case (25 types af pay l)
  show ?case unfolding good_defs statement_paths.simps
    by (intro impI conjI sound_statement_eq [OF check_statement.simps(7)] sound_expression_statement sound_jump) simp
next
  case (26 types af pay l)
  show ?case unfolding good_defs statement_paths.simps
    by (intro impI conjI sound_statement_eq [OF check_statement.simps(8)] sound_expression_statement sound_jump) simp
next
  case (27 types af pay b)
  show ?case unfolding good_defs else_paths.simps
    by (rule impI, rule sound_eq [OF check_else.simps(1)], intro sound_nested_block) (use 27 in \<open>auto simp: good_defs\<close>)
next
  case (28 types af pay st)
  show ?case unfolding good_defs else_paths.simps
    by (rule impI, rule sound_eq [OF check_else.simps(2)], cases "is_if st") (use 28 in \<open>auto simp: good_defs intro!: sound_done [simplified]\<close>)
next
  case (29 types af pay ss)
  have eq: "check_block types af False (Block ss) = rthread (check_statement types af) ss"
    by (simp add: fun_eq_iff rbind_Inr)
  show ?case unfolding good_defs block_paths.simps eq
    by (intro impI sound_statement_many) (use 29 in \<open>auto simp: good_defs\<close>)
qed

text \<open>The frame of the parameters.\<close>

definition parameter_frame :: "function_declaration \<Rightarrow> owned" where
  "parameter_frame f = (\<lambda>n. case map_of (rev (map (\<lambda>p. (pm_name p, p)) (fn_parameters f))) n of
     None \<Rightarrow> None
   | Some p \<Rightarrow> (case function_type f (Some (pm_type_ref p)) of Inl _ \<Rightarrow> None | Inr t \<Rightarrow> Some (t, False)))"

lemma declared_parameters:
  assumes "foldl (\<lambda>r p. rbind r (\<lambda>s. rbind (function_type f (Some (pm_type_ref p))) (\<lambda>t. declare_binding af (pm_name p) t (pm_location p) False s)))
      (Inr \<lparr>af_scopes = [[]], af_moved = {}, af_locations = Map.empty, af_next = next\<rparr>) ps = Inr s"
  shows "wf_state s \<and> (\<exists>sc. af_scopes s = [sc] \<and> sim_frame af (af_moved s) sc (\<lambda>n. case map_of (rev (map (\<lambda>p. (pm_name p, p)) ps)) n of
     None \<Rightarrow> None | Some p \<Rightarrow> (case function_type f (Some (pm_type_ref p)) of Inl _ \<Rightarrow> None | Inr t \<Rightarrow> Some (t, False))))"
  using assms
proof (induction ps arbitrary: s rule: rev_induct)
  case Nil
  then show ?case by (auto simp: wf_state_def sim_frame_def)
next
  case (snoc p ps)
  let ?frame = "\<lambda>ps n. case map_of (rev (map (\<lambda>p. (pm_name p, p)) ps)) n of
     None \<Rightarrow> None | Some p \<Rightarrow> (case function_type f (Some (pm_type_ref p)) of Inl _ \<Rightarrow> None | Inr t \<Rightarrow> Some (t, False))"
  from snoc.prems obtain s0 t where s0: "foldl (\<lambda>r p. rbind r (\<lambda>s. rbind (function_type f (Some (pm_type_ref p))) (\<lambda>t.
        declare_binding af (pm_name p) t (pm_location p) False s)))
      (Inr \<lparr>af_scopes = [[]], af_moved = {}, af_locations = Map.empty, af_next = next\<rparr>) ps = Inr s0"
      and t: "function_type f (Some (pm_type_ref p)) = Inr t" and s: "declare_binding af (pm_name p) t (pm_location p) False s0 = Inr s"
    by (auto simp: rbind_eq_Inr)
  obtain sc where sc: "wf_state s0" "af_scopes s0 = [sc]" "sim_frame af (af_moved s0) sc (?frame ps)"
    using snoc.IH [OF s0] by blast
  obtain b where b: "af_scopes s = [AList.update (pm_name p) b sc]" "ab_type b = t" "af_moved s = af_moved s0" "grows_outer s0 s"
    using declare_binding_ok [OF s sc(1,2)] by auto
  have "?frame (ps @ [p]) = (?frame ps)(pm_name p \<mapsto> (t, False))"
    by (auto simp: fun_eq_iff t)
  then have "sim_frame af (af_moved s) (AList.update (pm_name p) b sc) (?frame (ps @ [p]))"
    using sim_frame_update [OF sc(3), of t b "pm_name p"] b(2,3) by simp
  then show ?case
    using b(1,4) by (simp add: grows_outer_def)
qed

lemma function_paths_sound:
  assumes "check_function types af next f = Inr next'" "payloads_free af pay" "steady_all types af (block_conditions (fn_body f))"
  shows "\<not> block_paths types af pay (fn_body f) [parameter_frame f] Wrong"
proof
  assume wrong: "block_paths types af pay (fn_body f) [parameter_frame f] Wrong"
  obtain s s' where s: "foldl (\<lambda>r p. rbind r (\<lambda>s. rbind (function_type f (Some (pm_type_ref p))) (\<lambda>t.
        declare_binding af (pm_name p) t (pm_location p) False s)))
      (Inr \<lparr>af_scopes = [[]], af_moved = {}, af_locations = Map.empty, af_next = next\<rparr>) (fn_parameters f) = Inr s"
      and s': "check_block types af False (fn_body f) s = Inr s'"
    using assms(1) by (auto simp: check_function_def rbind_eq_Inr)
  obtain sc where start: "wf_state s" "af_scopes s = [sc]" "sim_frame af (af_moved s) sc (parameter_frame f)"
    using declared_parameters [OF s] by (auto simp: parameter_frame_def)
  have "sound_statement af (check_block types af False (fn_body f)) (block_paths types af pay (fn_body f))"
    using paths_sound(6) [of types af pay "fn_body f"] assms(2,3) by (simp add: good_block_def)
  from sound_statementD(5) [OF this start(1) _ s', of "[parameter_frame f]" Wrong] show False
    using start wrong by simp
qed

lemma checked_functions:
  "foldl (\<lambda>r f. rbind r (\<lambda>next. check_function types af next f)) (Inr start) fs = Inr k \<Longrightarrow> f \<in> set fs
    \<Longrightarrow> \<exists>next next'. check_function types af next f = Inr next'"
proof (induction fs arbitrary: k rule: rev_induct)
  case (snoc g fs)
  then show ?case by (cases "f = g") (auto simp: rbind_eq_Inr)
qed simp

lemma unknown_not_affine: "0 < n \<Longrightarrow> is_affine c n UnknownType = Inr False"
  by (cases n) (simp_all add: is_affine_def)

text \<open>
  C33. Nothing is used after it was moved: along every path through a function of a program that the affine
  checker accepts, a binding whose type carries a capability or a stateful resource is never used after
  its value was given away, whatever branches are taken, however often loops run, and wherever the path
  leaves early. Two things are assumed: the conditions of \<open>while\<close> loops, which run again with every
  iteration, move nothing, and payloads of enum variants are not affine (which other passes enforce).
\<close>

theorem no_use_after_move:
  assumes "0 < n" "check_affine_resources types n imports p = Inr ()" "f \<in> set (pr_declarations p)"
    and "\<forall>c \<in> set (block_conditions (fn_body f)). steady types (is_affine (mk_contracts p imports) n) c"
    and "\<forall>t v. is_affine (mk_contracts p imports) n (payload t v) \<noteq> Inr True"
  shows "\<not> block_paths types (is_affine (mk_contracts p imports) n) payload (fn_body f) [parameter_frame f] Wrong"
proof -
  let ?af = "is_affine (mk_contracts p imports) n"
  obtain k where "foldl (\<lambda>r f. rbind r (\<lambda>next. check_function types ?af next f)) (Inr 1) (pr_declarations p) = Inr k"
    using assms(2) by (auto simp: check_affine_resources_def rbind_eq_Inr)
  then obtain i i' where "check_function types ?af i f = Inr i'"
    using checked_functions [OF _ assms(3)] by blast
  then show ?thesis
    by (rule function_paths_sound) (use assms(1,4,5) in \<open>simp_all add: payloads_free_def steady_all_def unknown_not_affine\<close>)
qed

section \<open>The condition of a loop\<close>

text \<open>A function \<open>fn f(caps: SystemCaps)\<close> with a loop over the condition, then a \<open>let\<close> of the parameter.\<close>

definition here :: source_location where "here = \<lparr>loc_line = 1, loc_column = 1\<rparr>"

definition caps_type :: "expression \<Rightarrow> type_node option" where
  "caps_type e = (case e of Identifier n _ \<Rightarrow> if n = ''caps'' then Some (NamedType ''SystemCaps'') else None | _ \<Rightarrow> None)"

definition looping :: "expression \<Rightarrow> statement list \<Rightarrow> function_declaration" where
  "looping condition after =
     \<lparr>fn_name = ''f'', fn_parameters = [\<lparr>pm_name = ''caps'', pm_type_ref = \<lparr>tr_names = [''SystemCaps''], tr_location = here\<rparr>, pm_location = here\<rparr>],
      fn_return_type = None, fn_body = Block (WhileStatement condition (Block []) here # after),
      fn_location = here, fn_is_pure = False, fn_type_parameters = [], fn_is_transition = False\<rparr>"

definition one_function :: "function_declaration \<Rightarrow> program" where
  "one_function f = empty_program\<lparr>pr_declarations := [f]\<rparr>"

definition flag_loop :: function_declaration where
  "flag_loop = looping (Identifier ''flag'' here) [LetStatement ''kept'' False (Identifier ''caps'' here) here None]"

theorem no_use_after_move_witness:
  "check_affine_resources caps_type 5 [] (one_function flag_loop) = Inr ()
    \<and> \<not> block_paths caps_type (is_affine (mk_contracts (one_function flag_loop) []) 5) (\<lambda>_ _. UnknownType)
        (fn_body flag_loop) [parameter_frame flag_loop] Wrong"
proof -
  let ?af = "is_affine (mk_contracts (one_function flag_loop) []) 5"
  have accepted: "check_affine_resources caps_type 5 [] (one_function flag_loop) = Inr ()"
    by code_simp
  have conditions: "block_conditions (fn_body flag_loop) = [Identifier ''flag'' here]"
    by (simp add: flag_loop_def looping_def)
  have "af_moved s' = af_moved s" if "check_expression caps_type ?af (Identifier ''flag'' here) Borrow s = Inr s'" for s s'
    using that by (auto simp: use_identifier_def rbind_eq_Inr semantic_error_def split: option.splits if_splits)
  then have "\<forall>c \<in> set (block_conditions (fn_body flag_loop)). steady caps_type ?af c"
    by (simp add: conditions steady_def)
  from no_use_after_move [OF _ accepted _ this, of "\<lambda>_ _. UnknownType"] accepted show ?thesis
    by (simp add: one_function_def unknown_not_affine)
qed

definition spending_loop :: function_declaration where
  "spending_loop = looping (CallExpression (Identifier ''spend'' here) [Identifier ''caps'' here] here) []"

lemma caps_affine: "0 < n \<Longrightarrow> is_affine c n (NamedType ''SystemCaps'') = Inr True"
proof (cases n)
  case (Suc k)
  moreover have "''SystemCaps'' \<in> set CAPABILITY_TYPES" by code_simp
  ultimately show ?thesis by (simp add: is_affine_def)
qed simp

text \<open>
  C34. The hypothesis on conditions is needed: the checker accepts \<open>while spend(caps) { }\<close>, which moves \<open>caps\<close>
  in its condition, and in the second round the path uses the moved binding. (The checker looks at the condition once,
  outside of the repeating block.)
\<close>

theorem while_condition_moves_again:
  "check_affine_resources caps_type 5 [] (one_function spending_loop) = Inr ()
    \<and> block_paths caps_type (is_affine (mk_contracts (one_function spending_loop) []) 5) payload
        (fn_body spending_loop) [parameter_frame spending_loop] Wrong"
proof
  let ?af = "is_affine (mk_contracts (one_function spending_loop) []) 5"
  let ?cond = "CallExpression (Identifier ''spend'' here) [Identifier ''caps'' here] here"
  let ?caps = "NamedType ''SystemCaps''"
  let ?alive = "[[''caps'' \<mapsto> (?caps, False)]]" and ?gone = "[[''caps'' \<mapsto> (?caps, True)]]"
  show "check_affine_resources caps_type 5 [] (one_function spending_loop) = Inr ()"
    by code_simp
  have frame: "parameter_frame spending_loop = [''caps'' \<mapsto> (?caps, False)]"
  proof -
    have "function_type spending_loop (Some \<lparr>tr_names = [''SystemCaps''], tr_location = here\<rparr>) = Inr ?caps" by code_simp
    then show ?thesis
      by (simp add: parameter_frame_def spending_loop_def looping_def fun_eq_iff)
  qed
  have caps: "?af ?caps = Inr True" by (rule caps_affine) simp
  then have cond: "expression_paths caps_type ?af payload ?cond Borrow = pseq (puse ?af ''spend'' Borrow) (pseq (puse ?af ''caps'' Move) pdone)"
    by (simp add: moving_def type_of_def caps_type_def)
  have first: "expression_paths caps_type ?af payload ?cond Borrow ?alive (Done ?gone)"
    unfolding cond by (simp add: pseq_def pdone_def puse_def caps)
  have second: "expression_paths caps_type ?af payload ?cond Borrow ?gone Wrong"
    unfolding cond by (simp add: pseq_def pdone_def puse_def caps)
  let ?round = "pseq (expression_paths caps_type ?af payload ?cond Borrow) (pframe Map.empty (block_paths caps_type ?af payload (Block [])))"
  have "?round ?alive (Done ?gone)"
    using first by (auto simp: pseq_def pframe_def pdone_def)
  moreover have "ploop ?round ?gone Wrong"
    by (rule ploop.wrong) (use second in \<open>simp add: pseq_def\<close>)
  ultimately have "ploop ?round ?alive Wrong"
    by (blast intro: ploop.again)
  then show "block_paths caps_type ?af payload (fn_body spending_loop) [parameter_frame spending_loop] Wrong"
    by (simp add: frame) (simp add: spending_loop_def looping_def pseq_def)
qed

end
