(* ===== verification/Bounded_Queue.thy ===== *)
theory Bounded_Queue
  imports Prelude
begin

text \<open>
  Fixed-capacity queues (\<open>koschei/bounded_queue.py\<close>): a ring buffer that is allocated once. Every
  operation holds the lock of the queue from its first to its last access, so a history of
  concurrent calls is a sequence of operations. The interface is the locale \<open>bounded_fifo\<close>; the ring
  buffer implements it.
\<close>

section \<open>The ring buffer\<close>

definition MIN_QUEUE_CAPACITY :: int where "MIN_QUEUE_CAPACITY = 1"
definition MAX_QUEUE_CAPACITY :: int where "MAX_QUEUE_CAPACITY = 65536"

record ('a, 't) bounded_queue =
  bq_capacity :: int
  bq_item_type :: 't
  bq_buffer :: "'a option list"
  bq_head :: int
  bq_tail :: int
  bq_count :: int

definition new_queue :: "int \<Rightarrow> 't \<Rightarrow> ('a, 't) bounded_queue result" where
  "new_queue capacity item_type =
     (if \<not> (MIN_QUEUE_CAPACITY \<le> capacity \<and> capacity \<le> MAX_QUEUE_CAPACITY) then
        raisef BoundedQueueError ''KS3901: queue capacity must be between {} and {}''
          [str_int MIN_QUEUE_CAPACITY, str_int MAX_QUEUE_CAPACITY]
      else Inr \<lparr>bq_capacity = capacity, bq_item_type = item_type, bq_buffer = replicate (nat capacity) None,
                 bq_head = 0, bq_tail = 0, bq_count = 0\<rparr>)"

definition queue_length :: "('a, 't) bounded_queue \<Rightarrow> int" where
  "queue_length q = bq_count q"

definition queue_is_full :: "('a, 't) bounded_queue \<Rightarrow> bool" where
  "queue_is_full q \<longleftrightarrow> bq_count q = bq_capacity q"

definition queue_is_empty :: "('a, 't) bounded_queue \<Rightarrow> bool" where
  "queue_is_empty q \<longleftrightarrow> bq_count q = 0"

text \<open>List accesses of Python, at an index that counts from the front.\<close>

definition list_get :: "'a list \<Rightarrow> int \<Rightarrow> 'a result" where
  "list_get xs i = (if 0 \<le> i \<and> nat i < length xs then Inr (xs ! nat i) else raise IndexError ''list index out of range'')"

definition list_set :: "'a list \<Rightarrow> int \<Rightarrow> 'a \<Rightarrow> 'a list result" where
  "list_set xs i v =
     (if 0 \<le> i \<and> nat i < length xs then Inr (xs[nat i := v]) else raise IndexError ''list assignment index out of range'')"

definition try_send :: "'a \<Rightarrow> ('a, 't) bounded_queue \<Rightarrow> (bool \<times> ('a, 't) bounded_queue) result" where
  "try_send v q =
     (if bq_count q = bq_capacity q then Inr (False, q)
      else rbind (list_set (bq_buffer q) (bq_tail q) (Some v)) (\<lambda>buffer.
        Inr (True, q\<lparr>bq_buffer := buffer, bq_tail := (bq_tail q + 1) mod bq_capacity q, bq_count := bq_count q + 1\<rparr>)))"

text \<open>\<open>try_recv\<close>: \<open>None\<close> for the pair \<open>(False, None)\<close>, \<open>Some v\<close> for \<open>(True, v)\<close>.\<close>

definition try_recv :: "('a, 't) bounded_queue \<Rightarrow> ('a option option \<times> ('a, 't) bounded_queue) result" where
  "try_recv q =
     (if bq_count q = 0 then Inr (None, q)
      else rbind (list_get (bq_buffer q) (bq_head q)) (\<lambda>v.
        rbind (list_set (bq_buffer q) (bq_head q) None) (\<lambda>buffer.
          Inr (Some v, q\<lparr>bq_buffer := buffer, bq_head := (bq_head q + 1) mod bq_capacity q, bq_count := bq_count q - 1\<rparr>))))"

definition snapshot_items :: "('a, 't) bounded_queue \<Rightarrow> 'a option list result" where
  "snapshot_items q =
     rmap (\<lambda>offset. list_get (bq_buffer q) ((bq_head q + int offset) mod bq_capacity q)) [0..<nat (bq_count q)]"

definition queue_str :: "('a, 't) bounded_queue \<Rightarrow> string" where
  "queue_str q = ''BoundedQueue(len='' @ str_int (bq_count q) @ '', capacity='' @ str_int (bq_capacity q) @ '')''"

section \<open>The abstract queue\<close>

text \<open>
  What a bounded queue promises: \<open>holds q xs\<close>, the queue \<open>q\<close> contains \<open>xs\<close>, oldest first; it accepts
  an element unless it is full, gives out the oldest one, and keeps its capacity.
\<close>

locale bounded_fifo =
  fixes holds :: "'s \<Rightarrow> 'a list \<Rightarrow> bool" and bound :: "'s \<Rightarrow> nat"
    and send :: "'a \<Rightarrow> 's \<Rightarrow> (bool \<times> 's) result" and recv :: "'s \<Rightarrow> ('a option option \<times> 's) result"
  assumes capacity_bound: "holds q xs \<Longrightarrow> length xs \<le> bound q"
    and send_full: "holds q xs \<Longrightarrow> length xs = bound q \<Longrightarrow> send v q = Inr (False, q)"
    and send_room: "holds q xs \<Longrightarrow> length xs < bound q
      \<Longrightarrow> \<exists>q'. send v q = Inr (True, q') \<and> holds q' (xs @ [v]) \<and> bound q' = bound q"
    and recv_empty: "holds q [] \<Longrightarrow> recv q = Inr (None, q)"
    and recv_first: "holds q (x # xs) \<Longrightarrow> \<exists>q'. recv q = Inr (Some (Some x), q') \<and> holds q' xs \<and> bound q' = bound q"

text \<open>A history: sends and receives, each with its answer.\<close>

datatype 'a queue_call = Send 'a | Recv
datatype 'a queue_answer = Sent bool | Received "'a option option"

fun run_calls ::
  "('a \<Rightarrow> 's \<Rightarrow> (bool \<times> 's) result) \<Rightarrow> ('s \<Rightarrow> ('a option option \<times> 's) result)
    \<Rightarrow> 'a queue_call list \<Rightarrow> 's \<Rightarrow> ('a queue_answer list \<times> 's) result" where
  "run_calls send recv [] q = Inr ([], q)"
| "run_calls send recv (Send v # cs) q =
     rbind (send v q) (\<lambda>(b, q'). rbind (run_calls send recv cs q') (\<lambda>(as, r). Inr (Sent b # as, r)))"
| "run_calls send recv (Recv # cs) q =
     rbind (recv q) (\<lambda>(out, q'). rbind (run_calls send recv cs q') (\<lambda>(as, r). Inr (Received out # as, r)))"

text \<open>The same history on a list of at most \<open>n\<close> elements.\<close>

fun fifo_calls :: "nat \<Rightarrow> 'a queue_call list \<Rightarrow> 'a list \<Rightarrow> 'a queue_answer list \<times> 'a list" where
  "fifo_calls n [] xs = ([], xs)"
| "fifo_calls n (Send v # cs) xs =
     (let room = length xs < n; (as, ys) = fifo_calls n cs (if room then xs @ [v] else xs) in (Sent room # as, ys))"
| "fifo_calls n (Recv # cs) [] = (let (as, ys) = fifo_calls n cs [] in (Received None # as, ys))"
| "fifo_calls n (Recv # cs) (x # xs) = (let (as, ys) = fifo_calls n cs xs in (Received (Some (Some x)) # as, ys))"

fun accepted :: "'a queue_call list \<Rightarrow> 'a queue_answer list \<Rightarrow> 'a list" where
  "accepted (Send v # cs) (Sent True # as) = v # accepted cs as"
| "accepted (_ # cs) (_ # as) = accepted cs as"
| "accepted _ _ = []"

fun given :: "'a queue_answer list \<Rightarrow> 'a option list" where
  "given (Received (Some v) # as) = v # given as"
| "given (_ # as) = given as"
| "given [] = []"

lemma fifo_calls_order:
  "fifo_calls n cs xs = (as, ys) \<Longrightarrow> length xs \<le> n \<Longrightarrow> map Some (xs @ accepted cs as) = given as @ map Some ys \<and> length ys \<le> n"
proof (induction n cs xs arbitrary: as ys rule: fifo_calls.induct)
  case (2 n v cs xs)
  obtain bs zs where rest: "fifo_calls n cs (if length xs < n then xs @ [v] else xs) = (bs, zs)"
    by fastforce
  moreover have "length (if length xs < n then xs @ [v] else xs) \<le> n"
    using 2(3) by simp
  ultimately have "map Some ((if length xs < n then xs @ [v] else xs) @ accepted cs bs) = given bs @ map Some zs \<and> length zs \<le> n"
    using 2(1) by simp
  then show ?case
    using 2(2) rest by (cases "length xs < n") auto
qed (auto split: prod.splits)

context bounded_fifo
begin

lemma run_calls_fifo:
  "holds q xs \<Longrightarrow> fifo_calls (bound q) cs xs = (as, ys)
    \<Longrightarrow> \<exists>q'. run_calls send recv cs q = Inr (as, q') \<and> holds q' ys \<and> bound q' = bound q"
proof (induction "bound q" cs xs arbitrary: q as ys rule: fifo_calls.induct)
  case (2 v cs xs)
  show ?case
  proof (cases "length xs = bound q")
    case True
    then show ?thesis
      using 2(1) [OF refl refl] 2(2,3) True send_full [OF 2(2) True, of v] by (fastforce split: prod.splits)
  next
    case False
    then have room: "length xs < bound q"
      using capacity_bound [OF 2(2)] by simp
    then obtain q1 where q1: "send v q = Inr (True, q1)" "holds q1 (xs @ [v])" "bound q1 = bound q"
      using send_room [OF 2(2)] by blast
    then show ?thesis
      using 2(1) [OF refl q1(3) [symmetric]] 2(3) room q1 by (fastforce split: prod.splits)
  qed
next
  case (3 cs)
  then show ?case
    using recv_empty [OF 3(2)] by (fastforce split: prod.splits)
next
  case (4 cs x xs)
  obtain q1 where q1: "recv q = Inr (Some (Some x), q1)" "holds q1 xs" "bound q1 = bound q"
    using recv_first [OF 4(2)] by blast
  then show ?case
    using 4(1) [OF q1(3) [symmetric]] 4(3) by (fastforce split: prod.splits)
qed auto

end

section \<open>The ring buffer is a queue\<close>

text \<open>
  \<open>ring q xs\<close>: from the head on, wrapping around, the buffer has \<open>xs\<close> and then free slots.
\<close>

definition slot :: "('a, 't) bounded_queue \<Rightarrow> nat \<Rightarrow> nat" where
  "slot q i = (nat (bq_head q) + i) mod nat (bq_capacity q)"

definition ring :: "('a, 't) bounded_queue \<Rightarrow> 'a list \<Rightarrow> bool" where
  "ring q xs \<longleftrightarrow> MIN_QUEUE_CAPACITY \<le> bq_capacity q \<and> bq_capacity q \<le> MAX_QUEUE_CAPACITY
     \<and> length (bq_buffer q) = nat (bq_capacity q) \<and> 0 \<le> bq_head q \<and> bq_head q < bq_capacity q
     \<and> bq_count q = int (length xs) \<and> length xs \<le> nat (bq_capacity q)
     \<and> bq_tail q = int (slot q (length xs))
     \<and> (\<forall>i < nat (bq_capacity q). bq_buffer q ! slot q i = (if i < length xs then Some (xs ! i) else None))"

lemma new_queue_ring:
  "MIN_QUEUE_CAPACITY \<le> capacity \<Longrightarrow> capacity \<le> MAX_QUEUE_CAPACITY
   \<Longrightarrow> \<exists>q. new_queue capacity item_type = Inr q \<and> ring q [] \<and> bq_capacity q = capacity \<and> bq_item_type q = item_type"
  by (auto simp: new_queue_def ring_def slot_def MIN_QUEUE_CAPACITY_def MAX_QUEUE_CAPACITY_def)

lemma shifted_mod_inj:
  fixes c :: nat
  assumes "i < c" "j < c" "(h + i) mod c = (h + j) mod c"
  shows "i = j"
proof -
  have "b = a" if "a \<le> b" "b < c" "(h + b) mod c = (h + a) mod c" for a b
  proof -
    have "c dvd b - a"
      using that(1,3) mod_eq_dvd_iff_nat [of "h + a" "h + b" c] by simp
    then show ?thesis
      using that(1,2) by (auto dest!: dvd_imp_le)
  qed
  then show ?thesis
    using assms by (metis nat_le_linear)
qed

lemma ring_pos: "ring q xs \<Longrightarrow> 0 < nat (bq_capacity q)"
  by (simp add: ring_def MIN_QUEUE_CAPACITY_def)

lemma slot_less: "ring q xs \<Longrightarrow> slot q i < length (bq_buffer q)"
  using ring_pos [of q xs] by (simp add: ring_def slot_def)

lemma slot_inj:
  "ring q xs \<Longrightarrow> i < nat (bq_capacity q) \<Longrightarrow> j < nat (bq_capacity q) \<Longrightarrow> slot q i = slot q j \<longleftrightarrow> i = j"
  unfolding slot_def using shifted_mod_inj by blast

lemma next_index:
  assumes "ring q xs"
  shows "(int (slot q i) + 1) mod bq_capacity q = int (slot q (Suc i))"
proof -
  have "int (nat (bq_capacity q)) = bq_capacity q"
    using ring_pos [OF assms] by simp
  then show ?thesis
    unfolding slot_def by (metis add_Suc_right int_ops(4) int_ops(9) mod_Suc_Suc_eq mod_Suc_eq)
qed

lemma slot_head: "ring q xs \<Longrightarrow> bq_head q = int (slot q 0)"
  by (auto simp: slot_def ring_def)

lemma slot_wraps: "ring q xs \<Longrightarrow> slot q (nat (bq_capacity q)) = slot q 0"
  by (simp add: slot_def)

lemma slot_update: "slot (q\<lparr>bq_buffer := b, bq_tail := t, bq_count := n\<rparr>) i = slot q i"
  by (simp add: slot_def)

lemma ring_send_room:
  assumes "ring q xs" "length xs < nat (bq_capacity q)"
  shows "\<exists>q'. try_send v q = Inr (True, q') \<and> ring q' (xs @ [v]) \<and> nat (bq_capacity q') = nat (bq_capacity q)"
proof -
  let ?buffer = "(bq_buffer q)[slot q (length xs) := Some v]"
  let ?q = "q\<lparr>bq_buffer := ?buffer, bq_tail := (bq_tail q + 1) mod bq_capacity q, bq_count := bq_count q + 1\<rparr>"
  have tail: "bq_tail q = int (slot q (length xs))" and count: "bq_count q = int (length xs)"
    using assms(1) by (simp_all add: ring_def)
  have "bq_count q \<noteq> bq_capacity q"
    using assms(2) count by linarith
  then have "try_send v q = Inr (True, ?q)"
    using slot_less [OF assms(1), of "length xs"] by (simp add: try_send_def list_set_def tail)
  moreover have "?buffer ! slot q i = (if i < Suc (length xs) then Some ((xs @ [v]) ! i) else None)" if "i < nat (bq_capacity q)" for i
  proof (cases "i = length xs")
    case True
    then show ?thesis
      using slot_less [OF assms(1), of "length xs"] by simp
  next
    case False
    then have "?buffer ! slot q i = bq_buffer q ! slot q i"
      using slot_inj [OF assms(1) that assms(2)] by simp
    then show ?thesis
      using False that assms(1) by (auto simp: ring_def nth_append)
  qed
  then have "ring ?q (xs @ [v])"
    using assms next_index [OF assms(1), of "length xs"] by (simp add: ring_def slot_update tail count)
  ultimately show ?thesis by auto
qed

lemma ring_recv_first:
  assumes "ring q (x # xs)"
  shows "\<exists>q'. try_recv q = Inr (Some (Some x), q') \<and> ring q' xs \<and> nat (bq_capacity q') = nat (bq_capacity q)"
proof -
  let ?c = "nat (bq_capacity q)" and ?buffer = "(bq_buffer q)[slot q 0 := None]"
  let ?q = "q\<lparr>bq_buffer := ?buffer, bq_head := (bq_head q + 1) mod bq_capacity q, bq_count := bq_count q - 1\<rparr>"
  note head = slot_head [OF assms]
  have full: "length (x # xs) \<le> ?c"
    using assms by (simp add: ring_def)
  have "(bq_head q + 1) mod bq_capacity q = int (slot q (Suc 0))"
    using next_index [OF assms, of 0] by (simp only: head [symmetric])
  then have slots: "slot (q\<lparr>bq_buffer := b, bq_head := (bq_head q + 1) mod bq_capacity q, bq_count := n\<rparr>) i = slot q (Suc i)" for b n i
    by (simp add: slot_def [of "q\<lparr>bq_buffer := b, bq_head := h, bq_count := n\<rparr>" for h]) (simp add: slot_def mod_simps)
  have old: "bq_buffer q ! slot q i = (if i < length (x # xs) then Some ((x # xs) ! i) else None)" if "i < ?c" for i
    using assms that by (simp add: ring_def)
  have "try_recv q = Inr (Some (Some x), ?q)"
    using slot_less [OF assms, of 0] old [of 0] ring_pos [OF assms] assms
    by (simp add: try_recv_def list_get_def list_set_def head ring_def)
  moreover have "?buffer ! slot q (Suc i) = (if i < length xs then Some (xs ! i) else None)" if "i < ?c" for i
  proof (cases "Suc i < ?c")
    case True
    then have "slot q (Suc i) \<noteq> slot q 0"
      using slot_inj [OF assms True ring_pos [OF assms]] by simp
    then show ?thesis
      using old [OF True] by simp
  next
    case False
    then have "Suc i = ?c" using that by simp
    then show ?thesis
      using slot_wraps [OF assms] slot_less [OF assms, of 0] full by simp
  qed
  then have "ring ?q xs"
    using assms by (simp add: ring_def slots)
  ultimately show ?thesis by auto
qed

interpretation ring_queue: bounded_fifo ring "\<lambda>q. nat (bq_capacity q)" try_send try_recv
proof unfold_locales
  show "ring q xs \<Longrightarrow> length xs \<le> nat (bq_capacity q)" for q :: "('a, 't) bounded_queue" and xs
    by (simp add: ring_def)
  show "ring q xs \<Longrightarrow> length xs = nat (bq_capacity q) \<Longrightarrow> try_send v q = Inr (False, q)"
    for q :: "('a, 't) bounded_queue" and xs v
    using ring_pos [of q xs] by (simp add: ring_def try_send_def)
  show "ring q [] \<Longrightarrow> try_recv q = Inr (None, q)" for q :: "('a, 't) bounded_queue"
    by (simp add: ring_def try_recv_def)
qed (fact ring_send_room ring_recv_first)+

lemma ring_snapshot:
  assumes "ring q xs"
  shows "snapshot_items q = Inr (map Some xs)"
proof -
  have "int (nat (bq_capacity q)) = bq_capacity q" "int (nat (bq_head q)) = bq_head q"
    using assms by (auto simp: ring_def)
  then have "(bq_head q + int i) mod bq_capacity q = int (slot q i)" for i
    unfolding slot_def by (metis of_nat_add of_nat_mod)
  then have "list_get (bq_buffer q) ((bq_head q + int i) mod bq_capacity q) = Inr (Some (xs ! i))" if "i < length xs" for i
    using that assms slot_less [OF assms, of i] by (auto simp: list_get_def ring_def)
  then show ?thesis
    using assms by (auto simp: snapshot_items_def ring_def rmap_eq_Inr list_all2_conv_all_nth)
qed

text \<open>
  C38. A bounded queue is a bounded first-in first-out queue: on every history of sends and receives,
  by however many tasks, no call raises and every answer is the one of a list of at most the capacity. So
  what was accepted is what was given out followed by what is still inside, in the order of the
  sends, nothing lost or repeated.
\<close>

theorem queue_is_fifo:
  fixes calls :: "'a queue_call list" and item_type :: 't
  assumes "MIN_QUEUE_CAPACITY \<le> capacity" "capacity \<le> MAX_QUEUE_CAPACITY"
  shows "\<exists>q answers q' items. new_queue capacity item_type = Inr q
    \<and> run_calls try_send try_recv calls q = Inr (answers, q') \<and> fifo_calls (nat capacity) calls [] = (answers, items)
    \<and> snapshot_items q' = Inr (map Some items) \<and> map Some (accepted calls answers) = given answers @ map Some items
    \<and> queue_length q' = int (length items) \<and> queue_length q' \<le> capacity"
proof -
  have "\<exists>q :: ('a, 't) bounded_queue. new_queue capacity item_type = Inr q \<and> ring q [] \<and> bq_capacity q = capacity \<and> bq_item_type q = item_type"
    by (rule new_queue_ring [OF assms])
  then obtain q :: "('a, 't) bounded_queue" where q: "new_queue capacity item_type = Inr q" "ring q []" "bq_capacity q = capacity"
    by blast
  obtain answers items where spec: "fifo_calls (nat capacity) calls [] = (answers, items)" by fastforce
  then obtain q' where run: "run_calls try_send try_recv calls q = Inr (answers, q')" "ring q' items" "nat (bq_capacity q') = nat (bq_capacity q)"
    using ring_queue.run_calls_fifo [OF q(2), of calls] q(3) by auto
  have "queue_length q' = int (length items)" "queue_length q' \<le> capacity"
    using run(2,3) q(3) by (auto simp: queue_length_def ring_def)
  with q(1) run(1) spec ring_snapshot [OF run(2)] fifo_calls_order [OF spec] show ?thesis
    by (intro exI [of _ q] exI [of _ answers] exI [of _ q'] exI [of _ items]) simp
qed

theorem queue_is_fifo_witness:
  "\<exists>q q'. new_queue 2 () = Inr q
    \<and> run_calls try_send try_recv [Send ''a'', Send ''b'', Send ''c'', Recv, Send ''d'', Recv] q
       = Inr ([Sent True, Sent True, Sent False, Received (Some (Some ''a'')), Sent True, Received (Some (Some ''b''))], q')
    \<and> snapshot_items q' = Inr [Some ''d'']"
  using queue_is_fifo [of 2 "()" "[Send ''a'', Send ''b'', Send ''c'', Recv, Send ''d'', Recv]"]
  by (auto simp: MIN_QUEUE_CAPACITY_def MAX_QUEUE_CAPACITY_def)

end
