(* ===== verification/Financial_Decimal.thy ===== *)
theory Financial_Decimal
  imports Lexer Complex_Main
begin

text \<open>
  Exact fixed-scale decimals (\<open>koschei/financial_decimal.py\<close>): a signed 64-bit count of atoms with a
  scale of 0 to 18 digits, parsed from and printed as decimal text, added, subtracted and compared.
\<close>

section \<open>Decimals\<close>

definition INT64_MIN :: int where "INT64_MIN = - (2 ^ 63)"
definition INT64_MAX :: int where "INT64_MAX = 2 ^ 63 - 1"
definition MAX_SCALE :: int where "MAX_SCALE = 18"

abbreviation int64 :: "int \<Rightarrow> bool" where
  "int64 i \<equiv> INT64_MIN \<le> i \<and> i \<le> INT64_MAX"

record decimal_value =
  dv_atoms :: int
  dv_scale :: int

text \<open>\<open>DecimalValue(atoms, scale)\<close> with its \<open>__post_init__\<close>.\<close>

definition DecimalValue :: "int \<Rightarrow> int \<Rightarrow> decimal_value result" where
  "DecimalValue atoms scale =
     (if \<not> int64 atoms then raise ValueError ''decimal atoms exceed signed int64''
      else if \<not> (0 \<le> scale \<and> scale \<le> MAX_SCALE) then raisef ValueError ''decimal scale must be 0..{}'' [str_int MAX_SCALE]
      else Inr \<lparr>dv_atoms = atoms, dv_scale = scale\<rparr>)"

definition require_scale :: "int \<Rightarrow> unit result" where
  "require_scale scale =
     (if \<not> (0 \<le> scale \<and> scale \<le> MAX_SCALE) then
        raisef FinancialDecimalError ''KS3801: decimal scale must be 0..{}'' [str_int MAX_SCALE]
      else Inr ())"

text \<open>The pattern \<open>-?(?:0|[1-9][0-9]*)(?:\.[0-9]+)?\<close>, on the whole text.\<close>

definition unsigned :: "string \<Rightarrow> string" where
  "unsigned raw = (case raw of c # cs \<Rightarrow> if c = CHR ''-'' then cs else raw | [] \<Rightarrow> [])"

definition whole_part :: "string \<Rightarrow> string" where
  "whole_part u = takeWhile (\<lambda>c. c \<noteq> CHR ''.'') u"

definition fraction_part :: "string \<Rightarrow> string" where
  "fraction_part u = tl (dropWhile (\<lambda>c. c \<noteq> CHR ''.'') u)"

definition DECIMAL_RE :: "string \<Rightarrow> bool" where
  "DECIMAL_RE raw \<longleftrightarrow> (let u = unsigned raw; w = whole_part u; f = fraction_part u in
     w \<noteq> [] \<and> list_all is_digit_char w \<and> (w = ''0'' \<or> hd w \<noteq> CHR ''0'')
     \<and> (CHR ''.'' \<in> set u \<longrightarrow> f \<noteq> [] \<and> list_all is_digit_char f))"

definition parse_decimal :: "string \<Rightarrow> int \<Rightarrow> decimal_value result" where
  "parse_decimal raw scale =
     rbind (require_scale scale) (\<lambda>_.
     if \<not> DECIMAL_RE raw then
       raise FinancialDecimalError ''KS3801: invalid decimal text; exponent, whitespace, plus sign and non-canonical leading zeroes are forbidden''
     else
       let negative = (raw \<noteq> [] \<and> hd raw = CHR ''-'');
           whole = whole_part (unsigned raw);
           fraction = fraction_part (unsigned raw)
       in if scale < int (length fraction) then
         raise FinancialDecimalError ''KS3801: decimal input has more fractional digits than the declared scale; implicit rounding is forbidden''
       else
         rbind (py_int (whole @ fraction @ replicate (nat (scale - int (length fraction))) (CHR ''0''))) (\<lambda>digits.
         let atoms = (if negative then - digits else digits) in
         if \<not> int64 atoms then raise FinancialDecimalError ''KS3803: decimal atoms overflow signed int64''
         else DecimalValue atoms scale))"

definition rjust :: "string \<Rightarrow> nat \<Rightarrow> char \<Rightarrow> string" where
  "rjust s n c = replicate (n - length s) c @ s"

definition decimal_text :: "decimal_value \<Rightarrow> string" where
  "decimal_text value =
     (let negative = dv_atoms value < 0;
          digits = (if negative then tl (str_int (dv_atoms value)) else str_int (dv_atoms value));
          rendered = (if dv_scale value = 0 then digits
            else let digits = rjust digits (nat (dv_scale value + 1)) (CHR ''0'');
                     cut = length digits - nat (dv_scale value)
                 in take cut digits @ ''.'' @ drop cut digits)
      in if negative \<and> dv_atoms value \<noteq> 0 then ''-'' @ rendered else rendered)"

definition same_scale :: "decimal_value \<Rightarrow> decimal_value \<Rightarrow> unit result" where
  "same_scale left right =
     (if dv_scale left \<noteq> dv_scale right then
        raise FinancialDecimalError ''KS3802: decimal scales differ; implicit rescaling is forbidden''
      else Inr ())"

definition add_decimal :: "decimal_value \<Rightarrow> decimal_value \<Rightarrow> decimal_value result" where
  "add_decimal left right =
     rbind (same_scale left right) (\<lambda>_.
     let result = dv_atoms left + dv_atoms right in
     if \<not> int64 result then raise FinancialDecimalError ''KS3803: decimal addition overflow''
     else DecimalValue result (dv_scale left))"

definition sub_decimal :: "decimal_value \<Rightarrow> decimal_value \<Rightarrow> decimal_value result" where
  "sub_decimal left right =
     rbind (same_scale left right) (\<lambda>_.
     let result = dv_atoms left - dv_atoms right in
     if \<not> int64 result then raise FinancialDecimalError ''KS3803: decimal subtraction overflow''
     else DecimalValue result (dv_scale left))"

definition compare_decimal :: "decimal_value \<Rightarrow> decimal_value \<Rightarrow> int result" where
  "compare_decimal left right =
     rbind (same_scale left right) (\<lambda>_.
       Inr ((if dv_atoms left > dv_atoms right then 1 else 0) - (if dv_atoms left < dv_atoms right then 1 else 0)))"

section \<open>Exactness\<close>

text \<open>The well formed values, and the rational numbers that values and texts stand for.\<close>

definition decimal_ok :: "decimal_value \<Rightarrow> bool" where
  "decimal_ok v \<longleftrightarrow> int64 (dv_atoms v) \<and> 0 \<le> dv_scale v \<and> dv_scale v \<le> MAX_SCALE"

definition amount :: "decimal_value \<Rightarrow> rat" where
  "amount v = of_int (dv_atoms v) / 10 ^ nat (dv_scale v)"

definition text_amount :: "string \<Rightarrow> rat" where
  "text_amount raw = (let u = unsigned raw; w = whole_part u; f = fraction_part u in
     (if raw \<noteq> [] \<and> hd raw = CHR ''-'' then -1 else 1)
       * (of_nat (nat_of_digits 0 w) + of_nat (nat_of_digits 0 f) / 10 ^ length f))"

lemma DecimalValue_ok: "DecimalValue a s = Inr v \<longleftrightarrow> v = \<lparr>dv_atoms = a, dv_scale = s\<rparr> \<and> decimal_ok v"
  by (auto simp: DecimalValue_def decimal_ok_def)

lemma nat_of_digits_scale: "nat_of_digits a s = a * 10 ^ length s + nat_of_digits 0 s"
proof (induction s arbitrary: a)
  case (Cons c s)
  have "nat_of_digits a (c # s) = (10 * a + (cp c - 48)) * 10 ^ length s + nat_of_digits 0 s"
    using Cons.IH [of "10 * a + (cp c - 48)"] by simp
  moreover have "nat_of_digits 0 (c # s) = (cp c - 48) * 10 ^ length s + nat_of_digits 0 s"
    using Cons.IH [of "cp c - 48"] by simp
  ultimately show ?case by (simp add: algebra_simps)
qed simp

lemma nat_of_digits_zeros: "nat_of_digits a (replicate n (CHR ''0'')) = a * 10 ^ n"
  by (induction n arbitrary: a) (simp_all add: cp_def)

text \<open>The digits of a text with its fraction filled up to the scale.\<close>

lemma filled_digits:
  assumes "int (length f) \<le> s"
  shows "of_nat (nat_of_digits 0 (w @ f @ replicate (nat (s - int (length f))) (CHR ''0'')))
    = (of_nat (nat_of_digits 0 w) + of_nat (nat_of_digits 0 f) / 10 ^ length f) * (10 :: rat) ^ nat s"
proof -
  let ?k = "nat (s - int (length f))"
  have s: "nat s = length f + ?k" using assms by simp
  have "nat_of_digits 0 (w @ f @ replicate ?k (CHR ''0'')) = (nat_of_digits 0 w * 10 ^ length f + nat_of_digits 0 f) * 10 ^ ?k"
    by (simp add: nat_of_digits_append nat_of_digits_zeros nat_of_digits_scale [of "nat_of_digits 0 w" f])
  then show ?thesis
    unfolding s by (simp add: power_add field_simps)
qed

text \<open>What \<open>parse_decimal\<close> needs of a text beyond its form.\<close>

definition fits_scale :: "string \<Rightarrow> int \<Rightarrow> bool" where
  "fits_scale raw scale \<longleftrightarrow> 0 \<le> scale \<and> scale \<le> MAX_SCALE \<and> DECIMAL_RE raw \<and> int (length (fraction_part (unsigned raw))) \<le> scale"

lemma fraction_digits: "DECIMAL_RE raw \<Longrightarrow> list_all is_digit_char (fraction_part (unsigned raw))"
proof (cases "CHR ''.'' \<in> set (unsigned raw)")
  case False
  then have "dropWhile (\<lambda>c. c \<noteq> CHR ''.'') (unsigned raw) = []"
    by (intro dropWhile_eq_Nil_conv [THEN iffD2]) auto
  then show ?thesis by (simp only: fraction_part_def list.sel list.pred_inject)
qed (simp add: DECIMAL_RE_def Let_def)

lemma parse_decimal_digits:
  assumes "fits_scale raw scale"
    and "length (whole_part (unsigned raw)) + nat scale \<le> 4300"
  shows "\<exists>n. of_int n = text_amount raw * 10 ^ nat scale
    \<and> parse_decimal raw scale = (if int64 n then Inr \<lparr>dv_atoms = n, dv_scale = scale\<rparr>
         else raise FinancialDecimalError ''KS3803: decimal atoms overflow signed int64'')"
proof -
  let ?w = "whole_part (unsigned raw)" and ?f = "fraction_part (unsigned raw)"
  let ?digits = "?w @ ?f @ replicate (nat (scale - int (length ?f))) (CHR ''0'')"
  let ?n = "(if raw \<noteq> [] \<and> hd raw = CHR ''-'' then -1 else 1) * int (nat_of_digits 0 ?digits)"
  have re: "DECIMAL_RE raw" and short: "int (length ?f) \<le> scale" and scale: "0 \<le> scale" "scale \<le> MAX_SCALE"
    using assms(1) by (simp_all add: fits_scale_def)
  have "list_all is_digit_char ?digits"
    using re fraction_digits [OF re] by (auto simp: DECIMAL_RE_def Let_def list_all_iff is_digit_char_def cp_def)
  moreover have "length ?digits \<le> 4300"
    using assms(2) short by simp
  ultimately have "py_int ?digits = Inr (int (nat_of_digits 0 ?digits))"
    by (simp add: py_int_def)
  then have "parse_decimal raw scale = (if int64 ?n then Inr \<lparr>dv_atoms = ?n, dv_scale = scale\<rparr>
      else raise FinancialDecimalError ''KS3803: decimal atoms overflow signed int64'')"
    using re short scale by (simp add: parse_decimal_def require_scale_def Let_def DecimalValue_def)
  moreover have "of_int ?n = text_amount raw * 10 ^ nat scale"
    using filled_digits [OF short, of ?w] by (simp add: text_amount_def Let_def)
  ultimately show ?thesis by blast
qed

text \<open>
  C39. Parsing is exact: a text in canonical form, with at most the declared number of fraction digits,
  is parsed as the value with exactly its amount, never rounded, or refused as an overflow exactly
  when its atoms do not fit into 64 bits; every other text or scale is refused. (4300 digits are the limit of
  \<open>int\<close>.)
\<close>

theorem parse_decimal_exact:
  assumes "length raw + nat scale \<le> 4300"
  shows "parse_decimal raw scale = Inr v
    \<longleftrightarrow> fits_scale raw scale \<and> dv_scale v = scale \<and> decimal_ok v \<and> amount v = text_amount raw"
proof (cases "fits_scale raw scale")
  case True
  have "length (unsigned raw) \<le> length raw"
    by (cases raw) (simp_all add: unsigned_def)
  then have "length (whole_part (unsigned raw)) \<le> length raw"
    using length_takeWhile_le [of "\<lambda>c. c \<noteq> CHR ''.''" "unsigned raw"] unfolding whole_part_def by linarith
  then obtain n where n: "of_int n = text_amount raw * 10 ^ nat scale"
      "parse_decimal raw scale = (if int64 n then Inr \<lparr>dv_atoms = n, dv_scale = scale\<rparr>
         else raise FinancialDecimalError ''KS3803: decimal atoms overflow signed int64'')"
    using parse_decimal_digits [OF True] assms by auto
  have "amount v = text_amount raw \<longleftrightarrow> dv_atoms v = n" if "dv_scale v = scale"
  proof -
    have "amount v = text_amount raw \<longleftrightarrow> (of_int (dv_atoms v) :: rat) = of_int n"
      unfolding n(1) by (simp add: amount_def that field_simps)
    then show ?thesis by (simp only: of_int_eq_iff)
  qed
  moreover have "v = \<lparr>dv_atoms = n, dv_scale = scale\<rparr> \<longleftrightarrow> dv_atoms v = n \<and> dv_scale v = scale"
    by auto
  ultimately show ?thesis
    using True n(2) by (auto simp: decimal_ok_def fits_scale_def)
next
  case False
  then show ?thesis
    by (auto simp: parse_decimal_def require_scale_def fits_scale_def Let_def rbind_eq_Inr split: if_splits)
qed

theorem parse_decimal_exact_witness:
  "parse_decimal ''-12.5'' 3 = Inr \<lparr>dv_atoms = -12500, dv_scale = 3\<rparr>"
proof -
  have "fits_scale ''-12.5'' 3 \<and> decimal_ok \<lparr>dv_atoms = -12500, dv_scale = 3\<rparr>"
    "amount \<lparr>dv_atoms = -12500, dv_scale = 3\<rparr> = text_amount ''-12.5''"
    by code_simp+
  then show ?thesis
    using parse_decimal_exact [of "''-12.5''" 3 "\<lparr>dv_atoms = -12500, dv_scale = 3\<rparr>"] by simp
qed

section \<open>Printing and parsing back\<close>

text \<open>The digits that \<open>decimal_text\<close> prints around the point.\<close>

definition padded :: "decimal_value \<Rightarrow> string" where
  "padded v = rjust (str_nat (nat \<bar>dv_atoms v\<bar>)) (nat (dv_scale v + 1)) (CHR ''0'')"

definition shown_whole :: "decimal_value \<Rightarrow> string" where
  "shown_whole v = take (length (padded v) - nat (dv_scale v)) (padded v)"

definition shown_fraction :: "decimal_value \<Rightarrow> string" where
  "shown_fraction v = drop (length (padded v) - nat (dv_scale v)) (padded v)"

lemma decimal_text_parts:
  assumes "decimal_ok v"
  shows "decimal_text v = (if dv_atoms v < 0 then ''-'' else []) @ shown_whole v
    @ (if dv_scale v = 0 then [] else ''.'' @ shown_fraction v)"
proof -
  have "dv_scale v = 0 \<Longrightarrow> padded v = str_nat (nat \<bar>dv_atoms v\<bar>)"
    by (cases "str_nat (nat \<bar>dv_atoms v\<bar>)") (simp_all add: padded_def rjust_def)
  moreover have "(if dv_atoms v < 0 then tl (str_int (dv_atoms v)) else str_int (dv_atoms v)) = str_nat (nat \<bar>dv_atoms v\<bar>)"
    by (simp add: str_int_def)
  ultimately show ?thesis
    by (auto simp: decimal_text_def Let_def shown_whole_def shown_fraction_def padded_def)
qed

lemma shown_append: "shown_whole v @ shown_fraction v = padded v"
  by (simp only: shown_whole_def shown_fraction_def append_take_drop_id)

lemma shown_digits:
  assumes "decimal_ok v"
  shows "list_all is_digit_char (shown_whole v)" "list_all is_digit_char (shown_fraction v)" "shown_whole v \<noteq> []"
    "length (shown_fraction v) = nat (dv_scale v)" "nat_of_digits 0 (shown_whole v @ shown_fraction v) = nat \<bar>dv_atoms v\<bar>"
proof -
  have "list_all is_digit_char (padded v)"
    using str_nat_digits by (auto simp: padded_def rjust_def list_all_iff is_digit_char_def cp_def)
  then show "list_all is_digit_char (shown_whole v)" "list_all is_digit_char (shown_fraction v)"
    by (auto simp: shown_whole_def shown_fraction_def list_all_iff dest: in_set_takeD in_set_dropD)
  have len: "nat (dv_scale v) < length (padded v)"
    using assms by (auto simp: padded_def rjust_def decimal_ok_def)
  then show "shown_whole v \<noteq> []" "length (shown_fraction v) = nat (dv_scale v)"
    by (auto simp: shown_whole_def shown_fraction_def)
  show "nat_of_digits 0 (shown_whole v @ shown_fraction v) = nat \<bar>dv_atoms v\<bar>"
    by (simp add: shown_append padded_def rjust_def nat_of_digits_append nat_of_digits_zeros nat_of_digits_str_nat)
qed

lemma str_nat_canonical: "str_nat n = ''0'' \<or> hd (str_nat n) \<noteq> CHR ''0''"
proof (induction n rule: str_nat.induct)
  case (1 n)
  show ?case
  proof (cases "n < 10")
    case True
    have "hd (str_nat n) = CHR ''0'' \<Longrightarrow> n = 0"
      using True nat_of_digits_str_nat [of n] by (auto simp: str_nat.simps [of n] cp_def)
    then show ?thesis by (auto simp: str_nat.simps [of 0])
  next
    case False
    have "str_nat (n div 10) \<noteq> ''0''"
      using False nat_of_digits_str_nat [of "n div 10"] by (auto simp: cp_def)
    then show ?thesis
      using 1 False by (simp add: str_nat.simps [of n])
  qed
qed

lemma shown_whole_canonical:
  assumes "decimal_ok v"
  shows "shown_whole v = ''0'' \<or> hd (shown_whole v) \<noteq> CHR ''0''"
proof (cases "length (str_nat (nat \<bar>dv_atoms v\<bar>)) \<le> nat (dv_scale v)")
  case True
  have "nat (dv_scale v + 1) = Suc (nat (dv_scale v))"
    using assms unfolding decimal_ok_def by linarith
  then have "padded v = CHR ''0'' # replicate (nat (dv_scale v) - length (str_nat (nat \<bar>dv_atoms v\<bar>))) (CHR ''0'') @ str_nat (nat \<bar>dv_atoms v\<bar>)"
    by (simp add: padded_def rjust_def Suc_diff_le [OF True])
  moreover from this have "length (padded v) = Suc (nat (dv_scale v))"
    using True by simp
  ultimately show ?thesis
    by (simp add: shown_whole_def)
next
  case False
  then have "padded v = str_nat (nat \<bar>dv_atoms v\<bar>)"
    using assms by (auto simp: padded_def rjust_def decimal_ok_def)
  moreover have "hd (take k s) = hd s" if "0 < k" for k and s :: string
    using that by (cases s; cases k) auto
  ultimately show ?thesis
    using False str_nat_canonical [of "nat \<bar>dv_atoms v\<bar>"] by (auto simp: shown_whole_def)
qed

lemma digit_not_special: "is_digit_char c \<Longrightarrow> c \<noteq> CHR ''-'' \<and> c \<noteq> CHR ''.''"
  by (auto simp: is_digit_char_def cp_def)

lemma decimal_text_reads:
  assumes "decimal_ok v"
  shows "whole_part (unsigned (decimal_text v)) = shown_whole v"
    and "fraction_part (unsigned (decimal_text v)) = (if dv_scale v = 0 then [] else shown_fraction v)"
    and "CHR ''.'' \<in> set (unsigned (decimal_text v)) \<longrightarrow> dv_scale v \<noteq> 0"
    and "hd (decimal_text v) = CHR ''-'' \<longleftrightarrow> dv_atoms v < 0" "decimal_text v \<noteq> []"
proof -
  let ?rest = "if dv_scale v = 0 then [] else ''.'' @ shown_fraction v"
  obtain c w where w: "shown_whole v = c # w"
    using shown_digits(3) [OF assms] by (cases "shown_whole v") auto
  have plain: "x \<noteq> CHR ''-'' \<and> x \<noteq> CHR ''.''" if "x \<in> set (shown_whole v)" for x
    using shown_digits(1) [OF assms] that digit_not_special by (auto simp: list_all_iff)
  note shape = decimal_text_parts [OF assms]
  have u: "unsigned (decimal_text v) = shown_whole v @ ?rest"
    using plain w by (auto simp: shape unsigned_def)
  show "whole_part (unsigned (decimal_text v)) = shown_whole v"
    unfolding u whole_part_def by (subst takeWhile_append2) (use plain in auto)
  show "fraction_part (unsigned (decimal_text v)) = (if dv_scale v = 0 then [] else shown_fraction v)"
    unfolding u fraction_part_def by (subst dropWhile_append2) (use plain in auto)
  show "CHR ''.'' \<in> set (unsigned (decimal_text v)) \<longrightarrow> dv_scale v \<noteq> 0"
    unfolding u using plain by auto
  show "hd (decimal_text v) = CHR ''-'' \<longleftrightarrow> dv_atoms v < 0" "decimal_text v \<noteq> []"
    using plain w by (auto simp: shape)
qed

lemma decimal_text_fits:
  assumes "decimal_ok v"
  shows "fits_scale (decimal_text v) (dv_scale v)" "text_amount (decimal_text v) = amount v"
proof -
  note reads = decimal_text_reads [OF assms] and shown = shown_digits [OF assms]
  have pos: "dv_scale v \<noteq> 0 \<Longrightarrow> shown_fraction v \<noteq> []"
    using assms shown(4) by (auto simp: decimal_ok_def)
  have scale0: "dv_scale v = 0 \<Longrightarrow> shown_fraction v = []"
    using shown(4) by simp
  have "DECIMAL_RE (decimal_text v)"
    using reads shown(1-3) shown_whole_canonical [OF assms] pos by (auto simp: DECIMAL_RE_def Let_def)
  then show "fits_scale (decimal_text v) (dv_scale v)"
    using assms reads(2) shown(4) by (auto simp: fits_scale_def decimal_ok_def)
  have "nat_of_digits 0 (shown_whole v) * 10 ^ nat (dv_scale v) + nat_of_digits 0 (shown_fraction v) = nat \<bar>dv_atoms v\<bar>"
    using shown(4,5) by (simp add: nat_of_digits_append nat_of_digits_scale [of "nat_of_digits 0 (shown_whole v)"])
  then have "of_nat (nat_of_digits 0 (shown_whole v)) * 10 ^ nat (dv_scale v) + of_nat (nat_of_digits 0 (shown_fraction v))
      = (of_nat (nat \<bar>dv_atoms v\<bar>) :: rat)"
    by (metis (mono_tags) of_nat_add of_nat_mult of_nat_power of_nat_numeral)
  then have "of_nat (nat_of_digits 0 (shown_whole v)) + of_nat (nat_of_digits 0 (shown_fraction v)) / 10 ^ nat (dv_scale v)
      = (of_nat (nat \<bar>dv_atoms v\<bar>) / 10 ^ nat (dv_scale v) :: rat)"
    by (simp add: field_simps)
  moreover have "fraction_part (unsigned (decimal_text v)) = shown_fraction v"
    using reads(2) scale0 by simp
  ultimately show "text_amount (decimal_text v) = amount v"
    using reads(1,4,5) shown(4) by (auto simp: text_amount_def amount_def Let_def)
qed

lemma decimal_text_length:
  assumes "decimal_ok v"
  shows "length (decimal_text v) + nat (dv_scale v) \<le> 4300"
proof -
  have bound: "length (str_nat n) \<le> Suc k" if "n < 10 ^ Suc k" for n k
    using that
  proof (induction k arbitrary: n)
    case (Suc k)
    then have "n div 10 < 10 ^ Suc k" by auto
    with Suc.IH show ?case
      by (cases "n < 10") (auto simp: str_nat.simps [of n])
  qed (simp add: str_nat.simps)
  have "nat \<bar>dv_atoms v\<bar> < 10 ^ Suc 18"
    using assms by (auto simp: decimal_ok_def INT64_MIN_def INT64_MAX_def)
  then have "length (str_nat (nat \<bar>dv_atoms v\<bar>)) \<le> Suc 18"
    by (rule bound)
  moreover have "nat (dv_scale v) \<le> 18"
    using assms unfolding decimal_ok_def MAX_SCALE_def by linarith
  ultimately have "length (padded v) \<le> 38"
    by (auto simp: padded_def rjust_def nat_add_distrib)
  then have "length (shown_whole v) + length (shown_fraction v) \<le> 38"
    by (metis shown_append length_append)
  then show ?thesis
    using \<open>nat (dv_scale v) \<le> 18\<close> by (simp add: decimal_text_parts [OF assms])
qed

text \<open>
  Decimals survive printing: parsing the text of a value, at its scale, gives the value back, the
  smallest and the largest 64-bit counts and the small fractions with their leading zeroes included.
\<close>

theorem decimal_round_trip:
  assumes "decimal_ok v"
  shows "parse_decimal (decimal_text v) (dv_scale v) = Inr v"
proof -
  have "length (whole_part (unsigned (decimal_text v))) + nat (dv_scale v) \<le> 4300"
    using decimal_text_length [OF assms] unfolding decimal_text_reads(1) [OF assms]
    by (simp add: decimal_text_parts [OF assms] split: if_splits)
  then obtain n where n: "of_int n = text_amount (decimal_text v) * 10 ^ nat (dv_scale v)"
      "parse_decimal (decimal_text v) (dv_scale v) = (if int64 n then Inr \<lparr>dv_atoms = n, dv_scale = dv_scale v\<rparr>
         else raise FinancialDecimalError ''KS3803: decimal atoms overflow signed int64'')"
    using parse_decimal_digits [OF decimal_text_fits(1) [OF assms]] by blast
  have "(of_int n :: rat) = of_int (dv_atoms v)"
    by (simp add: n(1) decimal_text_fits(2) [OF assms] amount_def)
  then have "n = dv_atoms v"
    by (simp only: of_int_eq_iff)
  then show ?thesis
    using n(2) assms by (simp add: decimal_ok_def)
qed

theorem decimal_round_trip_witness:
  "decimal_text \<lparr>dv_atoms = - 5, dv_scale = 3\<rparr> = ''-0.005'' \<and> parse_decimal ''-0.005'' 3 = Inr \<lparr>dv_atoms = - 5, dv_scale = 3\<rparr>"
proof -
  let ?v = "\<lparr>dv_atoms = - 5, dv_scale = 3\<rparr>"
  have "decimal_ok ?v" "decimal_text ?v = ''-0.005''" by code_simp+
  with decimal_round_trip [of ?v] show ?thesis by simp
qed

section \<open>Arithmetic\<close>

lemma amount_atoms: "amount c = of_int x / 10 ^ nat (dv_scale c) \<longleftrightarrow> dv_atoms c = x"
  by (simp add: amount_def field_simps)

text \<open>
  Arithmetic is exact or refused: on values of one scale, addition and subtraction return the value
  of exactly that amount when its atoms fit into 64 bits, and never wrap around or round; otherwise they raise
  \<open>FinancialDecimalError\<close>. Comparison is the comparison of the amounts. On values of different
  scales all three are refused.
\<close>

theorem decimal_arithmetic_exact:
  assumes "decimal_ok a" "decimal_ok b"
  shows "(add_decimal a b = Inr c \<longleftrightarrow> dv_scale a = dv_scale b \<and> dv_scale c = dv_scale a \<and> decimal_ok c \<and> amount c = amount a + amount b)
    \<and> (sub_decimal a b = Inr d \<longleftrightarrow> dv_scale a = dv_scale b \<and> dv_scale d = dv_scale a \<and> decimal_ok d \<and> amount d = amount a - amount b)
    \<and> (compare_decimal a b = Inr i \<longleftrightarrow> dv_scale a = dv_scale b
        \<and> (i = 1 \<and> amount b < amount a \<or> i = 0 \<and> amount a = amount b \<or> i = -1 \<and> amount a < amount b))
    \<and> (\<forall>e. add_decimal a b = Inl e \<or> sub_decimal a b = Inl e \<longrightarrow> exc_of e = FinancialDecimalError)"
proof -
  have ops: "amount a + amount b = of_int (dv_atoms a + dv_atoms b) / 10 ^ nat (dv_scale a)"
    "amount a - amount b = of_int (dv_atoms a - dv_atoms b) / 10 ^ nat (dv_scale a)" if "dv_scale a = dv_scale b"
    by (simp_all add: amount_def that add_divide_distrib diff_divide_distrib)
  have "add_decimal a b = Inr c \<longleftrightarrow> dv_scale a = dv_scale b \<and> dv_scale c = dv_scale a \<and> decimal_ok c \<and> amount c = amount a + amount b"
    using assms amount_atoms [of c "dv_atoms a + dv_atoms b"] ops(1)
    by (auto simp: add_decimal_def same_scale_def Let_def DecimalValue_def decimal_ok_def)
  moreover have "sub_decimal a b = Inr d \<longleftrightarrow> dv_scale a = dv_scale b \<and> dv_scale d = dv_scale a \<and> decimal_ok d \<and> amount d = amount a - amount b"
    using assms amount_atoms [of d "dv_atoms a - dv_atoms b"] ops(2)
    by (auto simp: sub_decimal_def same_scale_def Let_def DecimalValue_def decimal_ok_def)
  moreover have "compare_decimal a b = Inr i \<longleftrightarrow> dv_scale a = dv_scale b
      \<and> (i = 1 \<and> amount b < amount a \<or> i = 0 \<and> amount a = amount b \<or> i = -1 \<and> amount a < amount b)"
    by (auto simp: compare_decimal_def same_scale_def amount_def divide_less_cancel)
  moreover have "add_decimal a b = Inl e \<or> sub_decimal a b = Inl e \<Longrightarrow> exc_of e = FinancialDecimalError" for e
    using assms by (auto simp: add_decimal_def sub_decimal_def same_scale_def Let_def DecimalValue_def decimal_ok_def split: if_splits)
  ultimately show ?thesis by blast
qed

theorem decimal_arithmetic_exact_witness:
  "add_decimal \<lparr>dv_atoms = 150, dv_scale = 2\<rparr> \<lparr>dv_atoms = -75, dv_scale = 2\<rparr> = Inr \<lparr>dv_atoms = 75, dv_scale = 2\<rparr>"
proof -
  let ?a = "\<lparr>dv_atoms = 150, dv_scale = 2\<rparr>" and ?b = "\<lparr>dv_atoms = -75, dv_scale = 2\<rparr>" and ?c = "\<lparr>dv_atoms = 75, dv_scale = 2\<rparr>"
  have "decimal_ok ?a" "decimal_ok ?b" "decimal_ok ?c" "amount ?c = amount ?a + amount ?b" by code_simp+
  with decimal_arithmetic_exact [of ?a ?b ?c] show ?thesis by simp
qed

end
