(* ===== verification/Universe_Lifecycle.thy ===== *)
theory Universe_Lifecycle
  imports Universe_Kernel
begin

text \<open>
  The lifecycle of a Universe: the sigil state machine
  (\<open>koschei/universe_state_machine_v1.py\<close>), catastrophic containment
  (\<open>koschei/universe_nuclear_containment_v1.py\<close>), rebirth into a new epoch
  (\<open>koschei/universe_rebirth_v1.py\<close>) and the epoch-bound tokens minted from an active
  state (\<open>koschei/universe_epoch_token_v1.py\<close>).
\<close>

section \<open>The state machine\<close>

datatype sigil_state = INACTIVE | PREPARED | SEALED | ACTIVE | CONTAINED

fun state_value :: "sigil_state \<Rightarrow> string" where
  "state_value INACTIVE = ''inactive''"
| "state_value PREPARED = ''prepared''"
| "state_value SEALED = ''sealed''"
| "state_value ACTIVE = ''active''"
| "state_value CONTAINED = ''contained''"

fun allowed :: "sigil_state \<Rightarrow> sigil_state set" where
  "allowed INACTIVE = {PREPARED}"
| "allowed PREPARED = {SEALED, CONTAINED}"
| "allowed SEALED = {ACTIVE, CONTAINED}"
| "allowed ACTIVE = {CONTAINED}"
| "allowed CONTAINED = {}"

record sigil_lifecycle =
  lc_sigil :: string
  lc_state :: sigil_state
  lc_epoch :: int
  lc_evidence_digest :: string

record universe_state =
  us_activation_plan_digest :: string
  us_sigils :: "sigil_lifecycle list"
  us_digest :: string

definition state_ctx :: string where
  "state_ctx = ''koschei.universe-state-machine/v1'' @ [CHR 0x00]"

definition row_text :: "sigil_lifecycle \<Rightarrow> string" where
  "row_text row = kv ''sigil'' (lc_sigil row) @ ''|'' @ kv ''state'' (state_value (lc_state row))
     @ ''|'' @ kv ''epoch'' (str_int (lc_epoch row)) @ ''|'' @ kv ''evidence'' (lc_evidence_digest row)"

definition state_digest :: "(string \<Rightarrow> string) \<Rightarrow> string \<Rightarrow> sigil_lifecycle list \<Rightarrow> string" where
  "state_digest hash plan rows = digest_of hash state_ctx (join nl (kv ''plan'' plan # map row_text rows))"

definition initial_universe_state ::
  "(string \<Rightarrow> string) \<Rightarrow> string list \<Rightarrow> int \<Rightarrow> universe_state result" where
  "initial_universe_state hash sigils epoch =
     (if epoch < 1 then raise UniverseStateError ''universe epoch must be positive''
      else rbind (compile_activation_plan hash sigils) (\<lambda>plan.
        let rows = map (\<lambda>sigil. \<lparr>lc_sigil = sigil, lc_state = INACTIVE, lc_epoch = epoch,
                                   lc_evidence_digest = []\<rparr>)
                     (plan_sigils (composed_base (act_composed plan)))
        in Inr \<lparr>us_activation_plan_digest = act_digest plan, us_sigils = rows,
                us_digest = state_digest hash (act_digest plan) rows\<rparr>))"

text \<open>\<open>next((i for i, row in enumerate(rows) if row.sigil == sigil), None)\<close>.\<close>

fun row_index :: "string \<Rightarrow> sigil_lifecycle list \<Rightarrow> nat option" where
  "row_index sigil [] = None"
| "row_index sigil (row # rows) =
     (if lc_sigil row = sigil then Some 0 else map_option Suc (row_index sigil rows))"

definition find_row :: "string \<Rightarrow> sigil_lifecycle list \<Rightarrow> sigil_lifecycle option" where
  "find_row sigil rows = find (\<lambda>row. lc_sigil row = sigil) rows"

definition transition_sigil ::
  "(string \<Rightarrow> string) \<Rightarrow> universe_state \<Rightarrow> string \<Rightarrow> sigil_state \<Rightarrow> string \<Rightarrow> universe_state result" where
  "transition_sigil hash state sigil target evidence =
     (if evidence = [] then raise UniverseStateError ''state transition requires evidence digest''
      else case row_index sigil (us_sigils state) of
        None \<Rightarrow> raisef UniverseStateError ''sigil is not part of this universe plan: {}'' [sigil]
      | Some index \<Rightarrow>
          let rows = us_sigils state; current = rows ! index in
          if target \<notin> allowed (lc_state current) then
            raisef UniverseStateError ''non-canonical sigil transition: {} {}->{}''
              [sigil, state_value (lc_state current), state_value target]
          else if target = ACTIVE \<and> sigil \<noteq> ''ka''
                  \<and> (case find_row ''ka'' rows of None \<Rightarrow> False | Some ka \<Rightarrow> lc_state ka \<noteq> ACTIVE) then
            raise UniverseStateError ''ka must be active before another sigil can activate''
          else
            let frozen = rows[index := \<lparr>lc_sigil = sigil, lc_state = target,
                                        lc_epoch = lc_epoch current, lc_evidence_digest = evidence\<rparr>]
            in Inr \<lparr>us_activation_plan_digest = us_activation_plan_digest state, us_sigils = frozen,
                    us_digest = state_digest hash (us_activation_plan_digest state) frozen\<rparr>)"

definition require_fully_active :: "universe_state \<Rightarrow> unit result" where
  "require_fully_active state =
     (let inactive = map lc_sigil (filter (\<lambda>row. lc_state row \<noteq> ACTIVE) (us_sigils state))
      in if inactive \<noteq> [] then
           raisef UniverseStateError ''universe is not fully active: {}'' [join '','' inactive]
         else Inr ())"

definition contain_row :: "string \<Rightarrow> sigil_lifecycle \<Rightarrow> sigil_lifecycle" where
  "contain_row evidence row =
     (if lc_state row = CONTAINED then row
      else \<lparr>lc_sigil = lc_sigil row, lc_state = CONTAINED, lc_epoch = lc_epoch row,
            lc_evidence_digest = evidence\<rparr>)"

definition contain_universe ::
  "(string \<Rightarrow> string) \<Rightarrow> universe_state \<Rightarrow> string \<Rightarrow> universe_state result" where
  "contain_universe hash state evidence =
     (if evidence = [] then raise UniverseStateError ''containment requires evidence digest''
      else
        let rows = map (contain_row evidence) (us_sigils state)
        in Inr \<lparr>us_activation_plan_digest = us_activation_plan_digest state, us_sigils = rows,
                us_digest = state_digest hash (us_activation_plan_digest state) rows\<rparr>)"

section \<open>Nuclear containment\<close>

definition REQUIRED_ACTIONS :: "string list" where
  "REQUIRED_ACTIONS =
    [''freeze-privileged-effects'', ''revoke-active-authority'', ''tombstone-current-epoch'',
     ''isolate-execution-boundaries'', ''preserve-forensic-evidence'',
     ''rotate-visible-compartments'', ''zeroize-ephemeral-secret-handles'',
     ''require-manual-or-independent-rebirth-proof'']"

record nuclear_receipt =
  nr_previous_state_digest :: string
  nr_contained_state_digest :: string
  nr_epoch :: int
  nr_cause_evidence_digest :: string
  nr_completed_actions :: "string list"
  nr_external_effects_attempted :: bool
  nr_digest :: string
  nr_version :: int

definition nuclear_ctx :: string where
  "nuclear_ctx = ''koschei.universe-nuclear-containment/v1'' @ [CHR 0x00]"

definition nuclear_receipt_digest ::
  "(string \<Rightarrow> string) \<Rightarrow> string \<Rightarrow> string \<Rightarrow> int \<Rightarrow> string \<Rightarrow> string list \<Rightarrow> bool \<Rightarrow> string" where
  "nuclear_receipt_digest hash previous contained_state epoch cause actions external =
     digest_of hash nuclear_ctx (join nl
       [kv ''previous'' previous, kv ''contained'' contained_state, kv ''epoch'' (str_int epoch),
        kv ''cause'' cause, kv ''actions'' (join '','' actions),
        kv ''external-effects'' (str_bool external)])"

definition nuclear_assert_sealed :: "(string \<Rightarrow> string) \<Rightarrow> nuclear_receipt \<Rightarrow> unit result" where
  "nuclear_assert_sealed hash r =
     (if nr_epoch r < 1 then
        raise NuclearContainmentError ''nuclear containment epoch must be positive''
      else if nr_cause_evidence_digest r = [] then
        raise NuclearContainmentError ''nuclear containment requires cause evidence''
      else if nr_external_effects_attempted r then
        raise NuclearContainmentError
          ''nuclear containment must never perform retaliatory/external effects''
      else if nr_completed_actions r \<noteq> REQUIRED_ACTIONS then
        raise NuclearContainmentError ''nuclear containment action set incomplete''
      else if nuclear_receipt_digest hash (nr_previous_state_digest r) (nr_contained_state_digest r)
                (nr_epoch r) (nr_cause_evidence_digest r) (nr_completed_actions r)
                (nr_external_effects_attempted r) \<noteq> nr_digest r then
        raise NuclearContainmentError ''nuclear containment receipt seal mismatch''
      else Inr ())"

text \<open>\<open>len({row.epoch for row in rows}) != 1\<close> and \<open>next(iter(epochs))\<close>.\<close>

definition epochs :: "sigil_lifecycle list \<Rightarrow> int list" where
  "epochs rows = remdups (map lc_epoch rows)"

definition enter_nuclear_containment ::
  "(string \<Rightarrow> string) \<Rightarrow> universe_state \<Rightarrow> string \<Rightarrow> (universe_state \<times> nuclear_receipt) result" where
  "enter_nuclear_containment hash state cause =
     (if cause = [] then raise NuclearContainmentError ''nuclear containment requires cause evidence''
      else if us_sigils state = [] then
        raise NuclearContainmentError ''cannot contain an empty universe''
      else case epochs (us_sigils state) of
        [epoch] \<Rightarrow>
          rbind (contain_universe hash state cause) (\<lambda>contained.
          let receipt = \<lparr>nr_previous_state_digest = us_digest state,
                nr_contained_state_digest = us_digest contained, nr_epoch = epoch,
                nr_cause_evidence_digest = cause, nr_completed_actions = REQUIRED_ACTIONS,
                nr_external_effects_attempted = False,
                nr_digest = nuclear_receipt_digest hash (us_digest state) (us_digest contained)
                  epoch cause REQUIRED_ACTIONS False,
                nr_version = 1\<rparr>
          in rbind (nuclear_assert_sealed hash receipt) (\<lambda>_. Inr (contained, receipt)))
      | _ \<Rightarrow> raise NuclearContainmentError ''split-epoch universe cannot enter nuclear containment'')"

definition require_nuclear_containment ::
  "(string \<Rightarrow> string) \<Rightarrow> universe_state \<Rightarrow> universe_state \<Rightarrow> nuclear_receipt \<Rightarrow> unit result" where
  "require_nuclear_containment hash previous frozen receipt =
     rbind (nuclear_assert_sealed hash receipt) (\<lambda>_.
       if nr_previous_state_digest receipt \<noteq> us_digest previous then
         raise NuclearContainmentError ''nuclear receipt previous-state mismatch''
       else if nr_contained_state_digest receipt \<noteq> us_digest frozen then
         raise NuclearContainmentError ''nuclear receipt contained-state mismatch''
       else if list_ex (\<lambda>row. state_value (lc_state row) \<noteq> ''contained'') (us_sigils frozen) then
         raise NuclearContainmentError ''nuclear containment did not contain every sigil''
       else if list_ex (\<lambda>row. lc_epoch row \<noteq> nr_epoch receipt) (us_sigils frozen) then
         raise NuclearContainmentError ''nuclear containment epoch mismatch''
       else Inr ())"

section \<open>Rebirth\<close>

record rebirth_receipt =
  rr_previous_state_digest :: string
  rr_activation_plan_digest :: string
  rr_previous_epoch :: int
  rr_next_epoch :: int
  rr_cause_evidence_digest :: string
  rr_fresh_state_digest :: string
  rr_digest :: string

definition rebirth_ctx :: string where
  "rebirth_ctx = ''koschei.universe-rebirth/v1'' @ [CHR 0x00]"

definition rebirth_receipt_digest ::
  "(string \<Rightarrow> string) \<Rightarrow> string \<Rightarrow> string \<Rightarrow> int \<Rightarrow> int \<Rightarrow> string \<Rightarrow> string \<Rightarrow> string" where
  "rebirth_receipt_digest hash previous plan previous_epoch next_epoch cause fresh =
     digest_of hash rebirth_ctx (join nl
       [kv ''previous'' previous, kv ''plan'' plan, kv ''previous_epoch'' (str_int previous_epoch),
        kv ''next_epoch'' (str_int next_epoch), kv ''cause'' cause, kv ''fresh'' fresh])"

definition rebirth_contained_universe ::
  "(string \<Rightarrow> string) \<Rightarrow> universe_state \<Rightarrow> string \<Rightarrow> (universe_state \<times> rebirth_receipt) result" where
  "rebirth_contained_universe hash state cause =
     (if cause = [] then raise UniverseRebirthError ''rebirth requires containment/recovery evidence''
      else if us_sigils state = [] then raise UniverseRebirthError ''cannot rebirth an empty universe''
      else if list_ex (\<lambda>row. lc_state row \<noteq> CONTAINED) (us_sigils state) then
        raise UniverseRebirthError ''rebirth requires every sigil to be contained''
      else case epochs (us_sigils state) of
        [previous_epoch] \<Rightarrow>
          if previous_epoch < 1 then raise UniverseRebirthError ''invalid previous universe epoch''
          else
            let next_epoch = previous_epoch + 1;
                plan = us_activation_plan_digest state;
                fresh_rows = map (\<lambda>row. \<lparr>lc_sigil = lc_sigil row, lc_state = INACTIVE,
                                 lc_epoch = next_epoch, lc_evidence_digest = []\<rparr>) (us_sigils state);
                fresh_digest = state_digest hash plan fresh_rows
            in Inr (\<lparr>us_activation_plan_digest = plan, us_sigils = fresh_rows, us_digest = fresh_digest\<rparr>,
                    \<lparr>rr_previous_state_digest = us_digest state, rr_activation_plan_digest = plan,
                     rr_previous_epoch = previous_epoch, rr_next_epoch = next_epoch,
                     rr_cause_evidence_digest = cause, rr_fresh_state_digest = fresh_digest,
                     rr_digest = rebirth_receipt_digest hash (us_digest state) plan previous_epoch
                       next_epoch cause fresh_digest\<rparr>)
      | _ \<Rightarrow> raise UniverseRebirthError ''split-epoch universe cannot be reborn'')"

definition require_rebirth_receipt ::
  "(string \<Rightarrow> string) \<Rightarrow> universe_state \<Rightarrow> universe_state \<Rightarrow> rebirth_receipt \<Rightarrow> unit result" where
  "require_rebirth_receipt hash previous fresh receipt =
     (if rr_previous_state_digest receipt \<noteq> us_digest previous then
        raise UniverseRebirthError ''rebirth receipt previous-state mismatch''
      else if rr_activation_plan_digest receipt \<noteq> us_activation_plan_digest previous then
        raise UniverseRebirthError ''rebirth receipt plan mismatch''
      else if us_activation_plan_digest fresh \<noteq> us_activation_plan_digest previous then
        raise UniverseRebirthError ''rebirth changed activation-plan identity''
      else if rr_fresh_state_digest receipt \<noteq> us_digest fresh then
        raise UniverseRebirthError ''rebirth receipt fresh-state mismatch''
      else if rr_next_epoch receipt \<noteq> rr_previous_epoch receipt + 1 then
        raise UniverseRebirthError ''rebirth epoch is not monotonic''
      else if rebirth_receipt_digest hash (rr_previous_state_digest receipt)
                (rr_activation_plan_digest receipt) (rr_previous_epoch receipt) (rr_next_epoch receipt)
                (rr_cause_evidence_digest receipt) (rr_fresh_state_digest receipt) \<noteq> rr_digest receipt then
        raise UniverseRebirthError ''rebirth receipt digest mismatch''
      else if list_ex (\<lambda>row. lc_state row \<noteq> CONTAINED) (us_sigils previous) then
        raise UniverseRebirthError ''previous universe was not fully contained''
      else if list_ex (\<lambda>row. lc_state row \<noteq> INACTIVE) (us_sigils fresh) then
        raise UniverseRebirthError ''fresh universe did not restart inactive''
      else if list_ex (\<lambda>row. lc_epoch row \<noteq> rr_next_epoch receipt) (us_sigils fresh) then
        raise UniverseRebirthError ''fresh universe epoch mismatch''
      else Inr ())"

section \<open>Epoch tokens\<close>

record sigil_epoch_token =
  tk_sigil :: string
  tk_epoch :: int
  tk_activation_plan_digest :: string
  tk_lifecycle_evidence_digest :: string
  tk_state_digest :: string
  tk_token_digest :: string

definition token_ctx :: string where
  "token_ctx = ''koschei.universe-epoch-token/v1'' @ [CHR 0x00]"

definition token_digest :: "(string \<Rightarrow> string) \<Rightarrow> string \<Rightarrow> int \<Rightarrow> string \<Rightarrow> string \<Rightarrow> string \<Rightarrow> string" where
  "token_digest hash sigil epoch plan evidence st =
     digest_of hash token_ctx (join nl
       [kv ''sigil'' sigil, kv ''epoch'' (str_int epoch), kv ''plan'' plan, kv ''evidence'' evidence,
        kv ''state'' st])"

definition mint_sigil_epoch_token ::
  "(string \<Rightarrow> string) \<Rightarrow> universe_state \<Rightarrow> string \<Rightarrow> sigil_epoch_token result" where
  "mint_sigil_epoch_token hash state sigil =
     (case find_row sigil (us_sigils state) of
        None \<Rightarrow> raisef UniverseEpochTokenError ''sigil is not in universe plan: {}'' [sigil]
      | Some row \<Rightarrow>
          if lc_state row \<noteq> ACTIVE then
            raise UniverseEpochTokenError ''sigil epoch token requires active lifecycle state''
          else if lc_evidence_digest row = [] then
            raise UniverseEpochTokenError ''active sigil is missing lifecycle evidence''
          else if lc_epoch row < 1 then raise UniverseEpochTokenError ''invalid sigil epoch''
          else Inr \<lparr>tk_sigil = sigil, tk_epoch = lc_epoch row,
                    tk_activation_plan_digest = us_activation_plan_digest state,
                    tk_lifecycle_evidence_digest = lc_evidence_digest row,
                    tk_state_digest = us_digest state,
                    tk_token_digest = token_digest hash sigil (lc_epoch row)
                      (us_activation_plan_digest state) (lc_evidence_digest row) (us_digest state)\<rparr>)"

definition require_current_sigil_token ::
  "(string \<Rightarrow> string) \<Rightarrow> universe_state \<Rightarrow> sigil_epoch_token \<Rightarrow> string option \<Rightarrow> unit result" where
  "require_current_sigil_token hash state token expected_sigil =
     (if (case expected_sigil of None \<Rightarrow> False | Some e \<Rightarrow> tk_sigil token \<noteq> e) then
        raise UniverseEpochTokenError ''sigil token subject mismatch''
      else if tk_activation_plan_digest token \<noteq> us_activation_plan_digest state then
        raise UniverseEpochTokenError ''sigil token activation-plan mismatch''
      else case find_row (tk_sigil token) (us_sigils state) of
        None \<Rightarrow> raise UniverseEpochTokenError ''sigil token refers to unknown sigil''
      | Some row \<Rightarrow>
          if lc_state row \<noteq> ACTIVE then
            raise UniverseEpochTokenError ''sigil token cannot authorize non-active state''
          else if lc_epoch row \<noteq> tk_epoch token then
            raise UniverseEpochTokenError ''stale sigil token epoch''
          else if lc_evidence_digest row \<noteq> tk_lifecycle_evidence_digest token then
            raise UniverseEpochTokenError ''sigil token lifecycle evidence mismatch''
          else if tk_state_digest token \<noteq> us_digest state then
            raise UniverseEpochTokenError ''sigil token state snapshot is stale''
          else if token_digest hash (tk_sigil token) (tk_epoch token) (tk_activation_plan_digest token)
                    (tk_lifecycle_evidence_digest token) (tk_state_digest token) \<noteq> tk_token_digest token then
            raise UniverseEpochTokenError ''sigil token digest mismatch''
          else Inr ())"

section \<open>Runs of the state machine\<close>

inductive lifecycle_step :: "(string \<Rightarrow> string) \<Rightarrow> universe_state \<Rightarrow> universe_state \<Rightarrow> bool" for hash where
  transition: "transition_sigil hash s sigil target evidence = Inr t \<Longrightarrow> lifecycle_step hash s t"
| containment: "contain_universe hash s evidence = Inr t \<Longrightarrow> lifecycle_step hash s t"

inductive lifecycle_reach :: "(string \<Rightarrow> string) \<Rightarrow> universe_state \<Rightarrow> universe_state \<Rightarrow> bool" for hash s where
  start: "lifecycle_reach hash s s"
| step: "lifecycle_reach hash s t \<Longrightarrow> lifecycle_step hash t u \<Longrightarrow> lifecycle_reach hash s u"

fun level :: "sigil_state \<Rightarrow> nat" where
  "level INACTIVE = 0"
| "level PREPARED = 1"
| "level SEALED = 2"
| "level ACTIVE = 3"
| "level CONTAINED = 4"

lemma allowed_level: "t \<in> allowed s \<Longrightarrow> level s < level t"
  by (cases s) auto

lemma level_bound: "level s \<le> 4"
  by (cases s) auto

text \<open>
  How one row may change along a run: its sigil and epoch never, and whenever it changes its
  state moves strictly forward and carries evidence.
\<close>

definition row_evolves :: "sigil_lifecycle \<Rightarrow> sigil_lifecycle \<Rightarrow> bool" where
  "row_evolves a b \<longleftrightarrow> lc_sigil b = lc_sigil a \<and> lc_epoch b = lc_epoch a
     \<and> (b = a \<or> level (lc_state a) < level (lc_state b) \<and> lc_evidence_digest b \<noteq> [])"

lemma row_evolves_refl [simp]: "row_evolves a a"
  by (simp add: row_evolves_def)

lemma row_evolves_trans: "row_evolves a b \<Longrightarrow> row_evolves b c \<Longrightarrow> row_evolves a c"
  by (auto simp: row_evolves_def)

lemma row_evolves_level: "row_evolves a b \<Longrightarrow> level (lc_state a) \<le> level (lc_state b)"
  by (auto simp: row_evolves_def)

lemma row_evolves_contained: "row_evolves a b \<Longrightarrow> lc_state a = CONTAINED \<Longrightarrow> b = a"
  using level_bound [of "lc_state b"] by (auto simp: row_evolves_def)

lemma row_index_Some:
  "row_index sigil rows = Some i \<Longrightarrow> i < length rows \<and> lc_sigil (rows ! i) = sigil"
  by (induction rows arbitrary: i) (auto split: if_splits)

lemma row_index_find_row:
  "row_index sigil rows = Some i \<Longrightarrow> find_row sigil rows = Some (rows ! i)"
  by (induction rows arbitrary: i) (auto simp: find_row_def split: if_splits)

lemma find_row_Some: "find_row sigil rows = Some r \<Longrightarrow> r \<in> set rows \<and> lc_sigil r = sigil"
  by (auto simp: find_row_def find_Some_iff)

definition sealed_state :: "(string \<Rightarrow> string) \<Rightarrow> universe_state \<Rightarrow> bool" where
  "sealed_state hash s \<longleftrightarrow> us_digest s = state_digest hash (us_activation_plan_digest s) (us_sigils s)"

text \<open>What every step keeps, whichever of the two operations it is.\<close>

lemma transition_sigil_evolves:
  assumes "transition_sigil hash s sigil target evidence = Inr t"
  shows "us_activation_plan_digest t = us_activation_plan_digest s" and "sealed_state hash t"
    and "list_all2 row_evolves (us_sigils s) (us_sigils t)"
proof -
  from assms obtain i where i: "row_index sigil (us_sigils s) = Some i"
    and target: "target \<in> allowed (lc_state (us_sigils s ! i))" and ev: "evidence \<noteq> []"
    and t: "t = \<lparr>us_activation_plan_digest = us_activation_plan_digest s,
        us_sigils = (us_sigils s)[i := \<lparr>lc_sigil = sigil, lc_state = target,
           lc_epoch = lc_epoch (us_sigils s ! i), lc_evidence_digest = evidence\<rparr>],
        us_digest = us_digest t\<rparr>" and d: "sealed_state hash t"
    by (auto simp: transition_sigil_def Let_def sealed_state_def split: if_splits option.splits)
  from t show "us_activation_plan_digest t = us_activation_plan_digest s"
    by (metis universe_state.select_convs(1))
  show "sealed_state hash t" by (rule d)
  from t have "us_sigils t = (us_sigils s)[i := \<lparr>lc_sigil = sigil, lc_state = target,
           lc_epoch = lc_epoch (us_sigils s ! i), lc_evidence_digest = evidence\<rparr>]"
    by (metis universe_state.select_convs(2))
  with row_index_Some [OF i] allowed_level [OF target] ev
  show "list_all2 row_evolves (us_sigils s) (us_sigils t)"
    by (auto simp: list_all2_conv_all_nth nth_list_update row_evolves_def)
qed

lemma contain_universe_evolves:
  assumes "contain_universe hash s evidence = Inr t"
  shows "us_activation_plan_digest t = us_activation_plan_digest s" and "sealed_state hash t"
    and "list_all2 row_evolves (us_sigils s) (us_sigils t)"
proof -
  have "level st \<noteq> 4 \<Longrightarrow> level st < 4" for st using level_bound [of st] by simp
  moreover have "st \<noteq> CONTAINED \<Longrightarrow> level st \<noteq> 4" for st by (cases st) auto
  ultimately have "evidence \<noteq> [] \<Longrightarrow> row_evolves r (contain_row evidence r)" for r
    by (auto simp: row_evolves_def contain_row_def)
  with assms show "list_all2 row_evolves (us_sigils s) (us_sigils t)"
    by (auto simp: contain_universe_def Let_def list_all2_map2 list.rel_refl split: if_splits)
qed (use assms in \<open>auto simp: contain_universe_def Let_def sealed_state_def split: if_splits\<close>)

lemma lifecycle_step_evolves:
  assumes "lifecycle_step hash s t"
  shows "us_activation_plan_digest t = us_activation_plan_digest s \<and> sealed_state hash t
    \<and> list_all2 row_evolves (us_sigils s) (us_sigils t)"
  using assms
  by (cases rule: lifecycle_step.cases) (auto dest: transition_sigil_evolves contain_universe_evolves)

lemma list_all2_row_evolves_trans:
  "list_all2 row_evolves xs ys \<Longrightarrow> list_all2 row_evolves ys zs \<Longrightarrow> list_all2 row_evolves xs zs"
  by (rule list_all2_trans [of row_evolves row_evolves]) (auto intro: row_evolves_trans)

lemma lifecycle_reach_evolves:
  assumes "lifecycle_reach hash s t"
  shows "us_activation_plan_digest t = us_activation_plan_digest s
    \<and> (sealed_state hash s \<longrightarrow> sealed_state hash t)
    \<and> list_all2 row_evolves (us_sigils s) (us_sigils t)"
  using assms
proof (induction rule: lifecycle_reach.induct)
  case start
  show ?case by (simp add: list.rel_refl)
next
  case (step t u)
  with lifecycle_step_evolves [OF step.hyps(2)] show ?case
    by (auto intro: list_all2_row_evolves_trans)
qed

lemma evolves_sigils:
  assumes "list_all2 row_evolves xs ys"
  shows "map lc_sigil ys = map lc_sigil xs" and "map lc_epoch ys = map lc_epoch xs"
  using assms by (induction rule: list_all2_induct) (auto simp: row_evolves_def)

lemma evolves_find_row:
  "list_all2 row_evolves xs ys \<Longrightarrow> rel_option row_evolves (find_row sigil xs) (find_row sigil ys)"
  by (induction rule: list_all2_induct) (auto simp: find_row_def row_evolves_def)

subsection \<open>Genesis first\<close>

text \<open>No other sigil is active while \<open>ka\<close> belongs to the plan and has never been activated.\<close>

definition genesis_first :: "universe_state \<Rightarrow> bool" where
  "genesis_first s \<longleftrightarrow>
     list_all (\<lambda>row. lc_sigil row = ''ka'' \<or> lc_state row \<noteq> ACTIVE) (us_sigils s)
     \<or> (case find_row ''ka'' (us_sigils s) of None \<Rightarrow> True | Some ka \<Rightarrow> 3 \<le> level (lc_state ka))"

lemma level_ACTIVE: "level st = 3 \<longleftrightarrow> st = ACTIVE"
  by (cases st) auto

lemma genesis_first_ka_kept:
  assumes "list_all2 row_evolves (us_sigils s) (us_sigils t)"
    and "case find_row ''ka'' (us_sigils s) of None \<Rightarrow> True | Some ka \<Rightarrow> 3 \<le> level (lc_state ka)"
  shows "genesis_first t"
  using evolves_find_row [OF assms(1), of "''ka''"] assms(2)
  by (auto simp: genesis_first_def dest!: row_evolves_level split: option.splits)

lemma transition_sigil_genesis:
  assumes step: "transition_sigil hash s sigil target evidence = Inr t" and "genesis_first s"
  shows "genesis_first t"
proof (cases "case find_row ''ka'' (us_sigils s) of None \<Rightarrow> True | Some ka \<Rightarrow> 3 \<le> level (lc_state ka)")
  case True
  with transition_sigil_evolves(3) [OF step] show ?thesis by (rule genesis_first_ka_kept)
next
  case False
  with assms(2) have quiet: "list_all (\<lambda>row. lc_sigil row = ''ka'' \<or> lc_state row \<noteq> ACTIVE) (us_sigils s)"
    by (simp add: genesis_first_def)
  from step obtain i where i: "row_index sigil (us_sigils s) = Some i"
    and t: "us_sigils t = (us_sigils s)[i := \<lparr>lc_sigil = sigil, lc_state = target,
        lc_epoch = lc_epoch (us_sigils s ! i), lc_evidence_digest = evidence\<rparr>]"
    and ka: "target = ACTIVE \<Longrightarrow> sigil = ''ka'' \<or>
        (case find_row ''ka'' (us_sigils s) of None \<Rightarrow> True | Some ka \<Rightarrow> lc_state ka = ACTIVE)"
    by (auto simp: transition_sigil_def Let_def split: if_splits option.splits)
  from False ka have "target = ACTIVE \<Longrightarrow> sigil = ''ka''"
    by (auto split: option.splits)
  with quiet have "list_all (\<lambda>row. lc_sigil row = ''ka'' \<or> lc_state row \<noteq> ACTIVE) (us_sigils t)"
    unfolding t by (auto simp: list_all_iff dest!: set_update_subset_insert [THEN subsetD])
  then show ?thesis by (simp add: genesis_first_def)
qed

lemma contain_universe_genesis: "contain_universe hash s evidence = Inr t \<Longrightarrow> genesis_first t"
  by (auto simp: contain_universe_def Let_def genesis_first_def list_all_iff contain_row_def split: if_splits)

lemma lifecycle_reach_genesis:
  "lifecycle_reach hash s t \<Longrightarrow> genesis_first s \<Longrightarrow> genesis_first t"
  by (induction rule: lifecycle_reach.induct)
    (auto elim!: lifecycle_step.cases intro: transition_sigil_genesis contain_universe_genesis)

subsection \<open>Initial states\<close>

definition initial_state_of :: "(string \<Rightarrow> string) \<Rightarrow> string list \<Rightarrow> int \<Rightarrow> universe_state" where
  "initial_state_of hash sigils epoch =
     (let rows = map (\<lambda>sigil. \<lparr>lc_sigil = sigil, lc_state = INACTIVE, lc_epoch = epoch,
                                lc_evidence_digest = []\<rparr>) sigils;
          plan = act_digest (activation_plan_of hash sigils)
      in \<lparr>us_activation_plan_digest = plan, us_sigils = rows, us_digest = state_digest hash plan rows\<rparr>)"

lemma initial_universe_state_eq_Inr:
  "initial_universe_state hash sigils epoch = Inr s \<longleftrightarrow>
     1 \<le> epoch \<and> canonical_sequence sigils \<and> s = initial_state_of hash sigils epoch"
  by (auto simp: initial_universe_state_def initial_state_of_def rbind_eq_Inr Let_def
      compile_activation_plan_eq_Inr activation_plan_of_def composed_plan_of_def universe_plan_of_def)

lemma initial_state_of_rows:
  "map lc_sigil (us_sigils (initial_state_of hash sigils epoch)) = sigils"
  "map lc_epoch (us_sigils (initial_state_of hash sigils epoch)) = map (\<lambda>_. epoch) sigils"
  "sealed_state hash (initial_state_of hash sigils epoch)"
  "genesis_first (initial_state_of hash sigils epoch)"
  by (simp_all add: initial_state_of_def Let_def sealed_state_def genesis_first_def list_all_iff comp_def)

text \<open>Everything the run of one epoch keeps, from its initial state on.\<close>

lemma reach_from_initial:
  assumes "lifecycle_reach hash (initial_state_of hash sigils epoch) s"
  shows "us_activation_plan_digest s = act_digest (activation_plan_of hash sigils)"
    and "map lc_sigil (us_sigils s) = sigils"
    and "map lc_epoch (us_sigils s) = map (\<lambda>_. epoch) sigils"
    and "sealed_state hash s" and "genesis_first s"
  using lifecycle_reach_evolves [OF assms] lifecycle_reach_genesis [OF assms]
    evolves_sigils [of "us_sigils (initial_state_of hash sigils epoch)" "us_sigils s"]
    initial_state_of_rows [of hash sigils epoch]
  by (simp_all) (simp add: initial_state_of_def Let_def)

lemma epochs_uniform:
  assumes "map lc_epoch rows = map (\<lambda>_. e) sigils" and "sigils \<noteq> []"
  shows "epochs rows = [e]"
proof -
  have "set (epochs rows) = {e}" and "distinct (epochs rows)"
    using assms by (simp_all add: epochs_def image_constant_conv flip: list.set_map)
  then have "length (epochs rows) = 1"
    using distinct_card [of "epochs rows"] by simp
  with \<open>set (epochs rows) = {e}\<close> show ?thesis
    by (cases "epochs rows") auto
qed

section \<open>Properties\<close>



text \<open>
  Containment is terminal inside an epoch: along every run a row that is contained keeps
  exactly its contents, and every other row only moves forward in the lifecycle, carrying new
  evidence whenever it moves.
\<close>

theorem containment_is_terminal:
  assumes "lifecycle_reach hash s t" and "i < length (us_sigils s)"
  shows "row_evolves (us_sigils s ! i) (us_sigils t ! i)
    \<and> (lc_state (us_sigils s ! i) = CONTAINED \<longrightarrow> us_sigils t ! i = us_sigils s ! i)"
proof -
  from lifecycle_reach_evolves [OF assms(1)] assms(2)
  have "row_evolves (us_sigils s ! i) (us_sigils t ! i)" by (simp add: list_all2_nthD)
  then show ?thesis using row_evolves_contained by blast
qed

theorem containment_is_terminal_witness:
  "\<exists>t. contain_universe tail_hash (initial_state_of tail_hash [''ka''] 1) ''e'' = Inr t
     \<and> row_evolves (us_sigils (initial_state_of tail_hash [''ka''] 1) ! 0) (us_sigils t ! 0)"
proof -
  let ?s0 = "initial_state_of tail_hash [''ka''] 1"
  obtain t where t: "contain_universe tail_hash ?s0 ''e'' = Inr t"
    by (simp add: contain_universe_def Let_def)
  then have "lifecycle_reach tail_hash ?s0 t"
    by (intro lifecycle_reach.step [OF lifecycle_reach.start] lifecycle_step.containment)
  moreover have "0 < length (us_sigils ?s0)" by (simp add: initial_state_of_def Let_def)
  ultimately show ?thesis using containment_is_terminal t by blast
qed

lemma nuclear_containment_works:
  assumes reach: "lifecycle_reach hash (initial_state_of hash sigils epoch) s"
    and "canonical_sequence sigils" and "1 \<le> epoch" and "cause \<noteq> []"
  obtains c r where "enter_nuclear_containment hash s cause = Inr (c, r)"
    and "require_nuclear_containment hash s c r = Inr ()"
    and "contain_universe hash s cause = Inr c" and "nr_epoch r = epoch"
proof -
  obtain c where c: "contain_universe hash s cause = Inr c"
    using assms(4) by (auto simp: contain_universe_def Let_def)
  have ne: "sigils \<noteq> []" using assms(2) by (simp add: canonical_sequence_def)
  from reach_from_initial(3) [OF reach] ne have e: "epochs (us_sigils s) = [epoch]"
    by (rule epochs_uniform)
  from reach_from_initial(2) [OF reach] ne have s: "us_sigils s \<noteq> []" by auto
  have rows: "us_sigils c = map (contain_row cause) (us_sigils s)"
    using c assms(4) by (auto simp: contain_universe_def Let_def)
  have "\<forall>r \<in> set (us_sigils s). lc_epoch r = epoch"
    using reach_from_initial(3) [OF reach] by (metis image_eqI imageE list.set_map)
  then have ok: "\<not> list_ex (\<lambda>row. state_value (lc_state row) \<noteq> ''contained'') (us_sigils c)"
    "\<not> list_ex (\<lambda>row. lc_epoch row \<noteq> epoch) (us_sigils c)"
    by (auto simp: rows list_ex_iff contain_row_def split: if_splits)
  define r where "r = \<lparr>nr_previous_state_digest = us_digest s,
      nr_contained_state_digest = us_digest c, nr_epoch = epoch, nr_cause_evidence_digest = cause,
      nr_completed_actions = REQUIRED_ACTIONS, nr_external_effects_attempted = False,
      nr_digest = nuclear_receipt_digest hash (us_digest s) (us_digest c) epoch cause REQUIRED_ACTIONS False,
      nr_version = 1\<rparr>"
  have sealed: "nuclear_assert_sealed hash r = Inr ()"
    using assms(3,4) by (simp add: nuclear_assert_sealed_def r_def)
  have "enter_nuclear_containment hash s cause = Inr (c, r)"
    using sealed assms(4) s e c
    by (simp add: enter_nuclear_containment_def Let_def r_def [symmetric])
  moreover have "require_nuclear_containment hash s c r = Inr ()"
    using sealed ok by (simp add: require_nuclear_containment_def) (simp add: r_def)
  moreover have "nr_epoch r = epoch" by (simp add: r_def)
  ultimately show ?thesis using c by (intro that)
qed

lemma rebirth_works:
  assumes reach: "lifecycle_reach hash (initial_state_of hash sigils epoch) s"
    and "canonical_sequence sigils" and "1 \<le> epoch"
    and c: "contain_universe hash s evidence = Inr c" and "cause \<noteq> []"
  obtains r where "rebirth_contained_universe hash c cause = Inr (initial_state_of hash sigils (epoch + 1), r)"
    and "require_rebirth_receipt hash c (initial_state_of hash sigils (epoch + 1)) r = Inr ()"
    and "rr_previous_epoch r = epoch"
proof -
  have ne: "sigils \<noteq> []" using assms(2) by (simp add: canonical_sequence_def)
  have reach': "lifecycle_reach hash (initial_state_of hash sigils epoch) c"
    by (rule lifecycle_reach.step [OF reach]) (rule lifecycle_step.containment [OF c])
  note inv = reach_from_initial [OF reach']
  have rows: "us_sigils c = map (contain_row evidence) (us_sigils s)"
    using c by (auto simp: contain_universe_def Let_def split: if_splits)
  then have all: "\<not> list_ex (\<lambda>row. lc_state row \<noteq> CONTAINED) (us_sigils c)"
    by (auto simp: list_ex_iff contain_row_def)
  have fresh: "map (\<lambda>row. \<lparr>lc_sigil = lc_sigil row, lc_state = INACTIVE, lc_epoch = e,
        lc_evidence_digest = []\<rparr>) (us_sigils c)
      = map (\<lambda>sigil. \<lparr>lc_sigil = sigil, lc_state = INACTIVE, lc_epoch = e, lc_evidence_digest = []\<rparr>) sigils" for e
    by (simp add: inv(2) [symmetric] comp_def)
  have e: "epochs (us_sigils c) = [epoch]" by (rule epochs_uniform [OF inv(3) ne])
  show ?thesis
    by (rule that) (use all fresh e assms(3,5) inv(1,2) ne in
      \<open>auto simp: rebirth_contained_universe_def require_rebirth_receipt_def initial_state_of_def
        Let_def list_ex_iff\<close>)
qed

text \<open>
  From every reachable state of an epoch, nuclear containment succeeds and its receipt
  verifies; rebirth of the contained state then succeeds, its receipt verifies, and the reborn
  state is exactly the initial state of the same plan in the next epoch: nothing of the old
  lifecycle survives.
\<close>

theorem containment_then_rebirth:
  assumes "initial_universe_state hash sigils epoch = Inr s0" and "lifecycle_reach hash s0 s"
    and "cause \<noteq> []" and "proof_of_recovery \<noteq> []"
  shows "\<exists>c nr f rr.
      enter_nuclear_containment hash s cause = Inr (c, nr)
    \<and> require_nuclear_containment hash s c nr = Inr ()
    \<and> rebirth_contained_universe hash c proof_of_recovery = Inr (f, rr)
    \<and> require_rebirth_receipt hash c f rr = Inr ()
    \<and> initial_universe_state hash sigils (epoch + 1) = Inr f"
proof -
  from assms(1) have c: "canonical_sequence sigils" and e: "1 \<le> epoch"
    and s0: "s0 = initial_state_of hash sigils epoch"
    by (simp_all add: initial_universe_state_eq_Inr)
  from assms(2) have reach: "lifecycle_reach hash (initial_state_of hash sigils epoch) s" by (simp add: s0)
  obtain d nr where n: "enter_nuclear_containment hash s cause = Inr (d, nr)"
    "require_nuclear_containment hash s d nr = Inr ()" "contain_universe hash s cause = Inr d"
    using nuclear_containment_works [OF reach c e assms(3)] by metis
  obtain rr where "rebirth_contained_universe hash d proof_of_recovery
        = Inr (initial_state_of hash sigils (epoch + 1), rr)"
    "require_rebirth_receipt hash d (initial_state_of hash sigils (epoch + 1)) rr = Inr ()"
    using rebirth_works [OF reach c e n(3) assms(4)] by metis
  with n(1,2) c e show ?thesis by (auto simp: initial_universe_state_eq_Inr)
qed

theorem containment_then_rebirth_witness:
  "\<exists>c nr f rr.
      enter_nuclear_containment tail_hash (initial_state_of tail_hash [''ka'', ''vor''] 1) ''alarm'' = Inr (c, nr)
    \<and> rebirth_contained_universe tail_hash c ''proof'' = Inr (f, rr)
    \<and> initial_universe_state tail_hash [''ka'', ''vor''] 2 = Inr f"
proof -
  have init: "initial_universe_state tail_hash [''ka'', ''vor''] 1 = Inr (initial_state_of tail_hash [''ka'', ''vor''] 1)"
    by (simp add: initial_universe_state_eq_Inr canonical_ka_vor)
  show ?thesis
    using containment_then_rebirth [OF init lifecycle_reach.start, of "''alarm''" "''proof''"] by auto
qed

section \<open>Histories across epochs\<close>

text \<open>A history continues a run through any number of rebirths.\<close>

inductive universe_history :: "(string \<Rightarrow> string) \<Rightarrow> universe_state \<Rightarrow> universe_state \<Rightarrow> bool" for hash s where
  start: "universe_history hash s s"
| live: "universe_history hash s t \<Longrightarrow> lifecycle_step hash t u \<Longrightarrow> universe_history hash s u"
| reborn: "universe_history hash s t \<Longrightarrow> rebirth_contained_universe hash t cause = Inr (u, r) \<Longrightarrow>
     universe_history hash s u"

definition one_epoch :: "universe_state \<Rightarrow> bool" where
  "one_epoch s \<longleftrightarrow> (\<exists>e. \<forall>row \<in> set (us_sigils s). lc_epoch row = e)"

lemma step_epochs:
  assumes "lifecycle_step hash s t"
  shows "lc_epoch ` set (us_sigils t) = lc_epoch ` set (us_sigils s)"
  using lifecycle_step_evolves [OF assms] evolves_sigils(2) [of "us_sigils s" "us_sigils t"]
  by (metis list.set_map)

lemma rebirth_eq_Inr:
  assumes "rebirth_contained_universe hash s cause = Inr (u, r)"
  obtains e where "epochs (us_sigils s) = [e]" and "1 \<le> e"
    and "us_activation_plan_digest u = us_activation_plan_digest s"
    and "us_sigils u = map (\<lambda>row. \<lparr>lc_sigil = lc_sigil row, lc_state = INACTIVE,
           lc_epoch = e + 1, lc_evidence_digest = []\<rparr>) (us_sigils s)"
  using assms by (auto simp: rebirth_contained_universe_def Let_def split: if_splits list.splits)

lemma epochs_single: "epochs rows = [e] \<Longrightarrow> lc_epoch ` set rows = {e}"
  by (metis epochs_def list.set(1) list.set(2) list.set_map set_remdups)

lemma history_one_epoch: "universe_history hash s t \<Longrightarrow> one_epoch s \<Longrightarrow> one_epoch t"
proof (induction rule: universe_history.induct)
  case (live t u)
  then obtain e where "lc_epoch ` set (us_sigils t) \<subseteq> {e}" by (auto simp: one_epoch_def)
  with step_epochs [OF live.hyps(2)] show ?case by (auto simp: one_epoch_def)
next
  case (reborn t cause u r)
  from reborn.hyps(2) show ?case by (rule rebirth_eq_Inr) (auto simp: one_epoch_def)
qed

text \<open>After containment in epoch \<open>e\<close>, no later row is active in an epoch up to \<open>e\<close>.\<close>

definition past_epoch :: "int \<Rightarrow> universe_state \<Rightarrow> bool" where
  "past_epoch e s \<longleftrightarrow>
     (\<forall>row \<in> set (us_sigils s). lc_epoch row = e \<and> lc_state row = CONTAINED)
     \<or> (\<forall>row \<in> set (us_sigils s). e < lc_epoch row)"

lemma history_past_epoch: "universe_history hash s t \<Longrightarrow> past_epoch e s \<Longrightarrow> past_epoch e t"
proof (induction rule: universe_history.induct)
  case (live t u)
  have evolves: "list_all2 row_evolves (us_sigils t) (us_sigils u)"
    using lifecycle_step_evolves [OF live.hyps(2)] by simp
  have origin: "\<exists>a \<in> set (us_sigils t). row_evolves a b" if "b \<in> set (us_sigils u)" for b
    using evolves that by (metis in_set_conv_nth list_all2_conv_all_nth nth_mem)
  from live.IH [OF live.prems] show ?case unfolding past_epoch_def
    by (metis origin row_evolves_contained row_evolves_def)
next
  case (reborn t cause u r)
  obtain f where f: "epochs (us_sigils t) = [f]" and u: "us_sigils u = map (\<lambda>row. \<lparr>lc_sigil = lc_sigil row,
      lc_state = INACTIVE, lc_epoch = f + 1, lc_evidence_digest = []\<rparr>) (us_sigils t)"
    using rebirth_eq_Inr [OF reborn.hyps(2)] by metis
  from epochs_single [OF f] reborn.IH [OF reborn.prems] have "e \<le> f"
    unfolding past_epoch_def by (metis image_iff insertI1 less_imp_le order_refl)
  then show ?case by (auto simp: past_epoch_def u)
qed simp

lemma contain_universe_past_epoch:
  assumes "contain_universe hash s evidence = Inr c"
    and "\<forall>row \<in> set (us_sigils s). lc_epoch row = e"
  shows "past_epoch e c"
  using assms by (auto simp: past_epoch_def contain_universe_def Let_def contain_row_def split: if_splits)

lemma history_of_reach: "lifecycle_reach hash s t \<Longrightarrow> universe_history hash s t"
  by (induction rule: lifecycle_reach.induct) (auto intro: universe_history.intros)

lemma mint_eq_Inr:
  "mint_sigil_epoch_token hash s sigil = Inr tok \<longleftrightarrow>
     (\<exists>row. find_row sigil (us_sigils s) = Some row \<and> lc_state row = ACTIVE
        \<and> lc_evidence_digest row \<noteq> [] \<and> 1 \<le> lc_epoch row
        \<and> tok = \<lparr>tk_sigil = sigil, tk_epoch = lc_epoch row,
            tk_activation_plan_digest = us_activation_plan_digest s,
            tk_lifecycle_evidence_digest = lc_evidence_digest row, tk_state_digest = us_digest s,
            tk_token_digest = token_digest hash sigil (lc_epoch row) (us_activation_plan_digest s)
              (lc_evidence_digest row) (us_digest s)\<rparr>)"
  by (auto simp: mint_sigil_epoch_token_def split: option.splits)

text \<open>
  The token check is exact: where a token can be minted for a sigil, the only token the check
  accepts for that sigil in that state is the minted one.
\<close>

theorem token_check_exact:
  assumes "mint_sigil_epoch_token hash s sigil = Inr minted"
  shows "require_current_sigil_token hash s tok (Some sigil) = Inr () \<longleftrightarrow> tok = minted"
  using assms
  by (cases tok) (auto simp: mint_eq_Inr require_current_sigil_token_def split: option.splits)

definition ka_active_state :: universe_state where
  "ka_active_state = (let rows = [\<lparr>lc_sigil = ''ka'', lc_state = ACTIVE, lc_epoch = 1, lc_evidence_digest = ''c''\<rparr>]
     in \<lparr>us_activation_plan_digest = act_digest (activation_plan_of tail_hash [''ka'']), us_sigils = rows,
         us_digest = state_digest tail_hash (act_digest (activation_plan_of tail_hash [''ka''])) rows\<rparr>)"

lemma ka_active_reached:
  "lifecycle_reach tail_hash (initial_state_of tail_hash [''ka''] 1) ka_active_state"
proof -
  let ?s = "initial_state_of tail_hash [''ka''] 1"
  have step: "transition_sigil tail_hash s sg t e = Inr u \<Longrightarrow> lifecycle_reach tail_hash ?s s \<Longrightarrow>
      lifecycle_reach tail_hash ?s u" for s sg t e u
    by (blast intro: lifecycle_reach.step lifecycle_step.transition)
  obtain a where a: "transition_sigil tail_hash ?s ''ka'' PREPARED ''a'' = Inr a"
    by (simp add: transition_sigil_def initial_state_of_def Let_def)
  obtain b where b: "transition_sigil tail_hash a ''ka'' SEALED ''b'' = Inr b"
    using a by (auto simp: transition_sigil_def initial_state_of_def Let_def)
  have "transition_sigil tail_hash b ''ka'' ACTIVE ''c'' = Inr ka_active_state"
    using a b by (auto simp: transition_sigil_def initial_state_of_def Let_def ka_active_state_def)
  with a b show ?thesis using step lifecycle_reach.start by metis
qed

lemma initial_ka: "initial_universe_state tail_hash [''ka''] 1 = Inr (initial_state_of tail_hash [''ka''] 1)"
  by (simp add: initial_universe_state_eq_Inr canonical_sequence_def CANONICAL_SIGIL_ORDER_def)

lemma ka_active_mint:
  "\<exists>tok. mint_sigil_epoch_token tail_hash ka_active_state ''ka'' = Inr tok"
  by (simp add: mint_eq_Inr ka_active_state_def Let_def find_row_def)

theorem token_check_exact_witness:
  "\<exists>tok. mint_sigil_epoch_token tail_hash ka_active_state ''ka'' = Inr tok
     \<and> require_current_sigil_token tail_hash ka_active_state tok (Some ''ka'') = Inr ()
     \<and> require_current_sigil_token tail_hash ka_active_state (tok\<lparr>tk_epoch := 2\<rparr>) (Some ''ka'') \<noteq> Inr ()"
proof -
  obtain tok where tok: "mint_sigil_epoch_token tail_hash ka_active_state ''ka'' = Inr tok"
    using ka_active_mint by blast
  then have "tk_epoch tok = 1" by (auto simp: mint_eq_Inr ka_active_state_def Let_def find_row_def)
  then have "tok\<lparr>tk_epoch := 2\<rparr> \<noteq> tok" by (metis one_eq_numeral_iff semiring_norm(83) sigil_epoch_token.select_convs(2) sigil_epoch_token.surjective sigil_epoch_token.update_convs(2))
  with tok token_check_exact [OF tok] show ?thesis by blast
qed

text \<open>
  Containment kills the tokens of its epoch for good: a token minted in a state of a history is
  rejected in the state obtained by containing it and in every later state, through any number of
  further transitions, containments and rebirths.
\<close>

theorem contained_token_never_accepted:
  assumes "initial_universe_state hash sigils epoch = Inr s0" and "universe_history hash s0 s"
    and "mint_sigil_epoch_token hash s sigil = Inr tok"
    and "contain_universe hash s evidence = Inr c" and "universe_history hash c t"
  shows "require_current_sigil_token hash t tok expected \<noteq> Inr ()"
proof -
  have "one_epoch s0"
    using assms(1) by (auto simp: initial_universe_state_eq_Inr initial_state_of_def Let_def one_epoch_def)
  with assms(2) have "one_epoch s" by (rule history_one_epoch)
  moreover obtain row where row: "row \<in> set (us_sigils s)" "tk_epoch tok = lc_epoch row"
    using assms(3) by (auto simp: mint_eq_Inr dest: find_row_Some)
  ultimately have "\<forall>r \<in> set (us_sigils s). lc_epoch r = tk_epoch tok" by (auto simp: one_epoch_def)
  with assms(4) have "past_epoch (tk_epoch tok) c" by (rule contain_universe_past_epoch)
  with assms(5) have "past_epoch (tk_epoch tok) t" by (rule history_past_epoch)
  then have "lc_state r \<noteq> ACTIVE \<or> lc_epoch r \<noteq> tk_epoch tok" if "r \<in> set (us_sigils t)" for r
    using that by (auto simp: past_epoch_def)
  then show ?thesis
    by (auto simp: require_current_sigil_token_def split: option.splits if_splits dest!: find_row_Some)
qed

theorem contained_token_never_accepted_witness:
  "\<exists>tok c. mint_sigil_epoch_token tail_hash ka_active_state ''ka'' = Inr tok
     \<and> contain_universe tail_hash ka_active_state ''alarm'' = Inr c
     \<and> require_current_sigil_token tail_hash c tok None \<noteq> Inr ()"
proof -
  obtain tok where tok: "mint_sigil_epoch_token tail_hash ka_active_state ''ka'' = Inr tok"
    using ka_active_mint by blast
  obtain c where c: "contain_universe tail_hash ka_active_state ''alarm'' = Inr c"
    by (simp add: contain_universe_def Let_def)
  from contained_token_never_accepted [OF initial_ka history_of_reach [OF ka_active_reached] tok c universe_history.start]
  show ?thesis using tok c by blast
qed

end
