(* ===== verification/Sqlite.thy ===== *)
theory Sqlite
  imports Prelude
begin

text \<open>
  The Python statements the durable components are made of, and the part of \<open>sqlite3\<close> they
  use. A method of an object with state is a function from the state to its outcome and the new
  state: the state survives an exception, as it does in Python. The connection is opened with
  \<open>isolation_level=None\<close>, so a transaction exists exactly between \<open>BEGIN IMMEDIATE\<close> and
  \<open>COMMIT\<close> or \<open>ROLLBACK\<close>; a crash followed by reopening the file keeps what was
  committed. Every object serialises its methods with one lock, so a concurrent history is a
  sequence of method calls.
\<close>

section \<open>Statements\<close>

type_synonym ('s, 'a) py = "'s \<Rightarrow> 'a result \<times> 's"

definition sret :: "'a \<Rightarrow> ('s, 'a) py" where
  "sret x s = (Inr x, s)"

definition slift :: "'a result \<Rightarrow> ('s, 'a) py" where
  "slift m s = (m, s)"

definition sthrow :: "pyexc \<Rightarrow> ('s, 'a) py" where
  "sthrow e s = (Inl e, s)"

definition sbind :: "('s, 'a) py \<Rightarrow> ('a \<Rightarrow> ('s, 'b) py) \<Rightarrow> ('s, 'b) py" where
  "sbind m k s = (case m s of (Inl e, t) \<Rightarrow> (Inl e, t) | (Inr x, t) \<Rightarrow> k x t)"

definition sthen :: "('s, 'a) py \<Rightarrow> ('s, 'b) py \<Rightarrow> ('s, 'b) py" where
  "sthen m n = sbind m (\<lambda>_. n)"

text \<open>\<open>try: m except Exception as e: h(e)\<close>.\<close>

definition stry :: "('s, 'a) py \<Rightarrow> (pyexc \<Rightarrow> ('s, 'a) py) \<Rightarrow> ('s, 'a) py" where
  "stry m h s = (case m s of (Inl e, t) \<Rightarrow> h e t | (Inr x, t) \<Rightarrow> (Inr x, t))"

named_theorems py_simps \<open>execution of statements\<close>

lemma py_basic_simps [py_simps]:
  "sret x s = (Inr x, s)" "slift m s = (m, s)" "sthrow e s = (Inl e, s)"
  by (simp_all add: sret_def slift_def sthrow_def)

lemma sbind_run [py_simps]:
  "sbind m k s = (case m s of (Inl e, t) \<Rightarrow> (Inl e, t) | (Inr x, t) \<Rightarrow> k x t)"
  "sthen m n s = (case m s of (Inl e, t) \<Rightarrow> (Inl e, t) | (Inr x, t) \<Rightarrow> n t)"
  "stry m h s = (case m s of (Inl e, t) \<Rightarrow> h e t | (Inr x, t) \<Rightarrow> (Inr x, t))"
  by (simp_all add: sbind_def sthen_def stry_def)

section \<open>Connections\<close>

record 'db conn =
  committed :: 'db
  working :: "'db option"

definition view :: "'db conn \<Rightarrow> 'db" where
  "view c = (case working c of None \<Rightarrow> committed c | Some w \<Rightarrow> w)"

definition idle :: "'db conn \<Rightarrow> bool" where
  "idle c \<longleftrightarrow> working c = None"

definition begin_immediate :: "('db conn, unit) py" where
  "begin_immediate c = (case working c of
     None \<Rightarrow> (Inr (), c\<lparr>working := Some (committed c)\<rparr>)
   | Some _ \<Rightarrow> (raise OperationalError ''cannot start a transaction within a transaction'', c))"

definition commit :: "('db conn, unit) py" where
  "commit c = (case working c of
     None \<Rightarrow> (raise OperationalError ''cannot commit - no transaction is active'', c)
   | Some w \<Rightarrow> (Inr (), \<lparr>committed = w, working = None\<rparr>))"

definition rollback :: "('db conn, unit) py" where
  "rollback c = (case working c of
     None \<Rightarrow> (raise OperationalError ''cannot rollback - no transaction is active'', c)
   | Some _ \<Rightarrow> (Inr (), c\<lparr>working := None\<rparr>))"

text \<open>A query, and a statement that writes; a failed statement changes nothing.\<close>

definition select :: "('db \<Rightarrow> 'a result) \<Rightarrow> ('db conn, 'a) py" where
  "select q c = (q (view c), c)"

definition exec_write :: "('db \<Rightarrow> 'db result) \<Rightarrow> ('db conn, unit) py" where
  "exec_write f c = (case f (view c) of
     Inl e \<Rightarrow> (Inl e, c)
   | Inr db \<Rightarrow> (Inr (), (case working c of
        None \<Rightarrow> \<lparr>committed = db, working = None\<rparr>
      | Some _ \<Rightarrow> c\<lparr>working := Some db\<rparr>)))"

text \<open>The process dies and the database file is opened again.\<close>

definition reopen :: "'db conn \<Rightarrow> 'db conn" where
  "reopen c = c\<lparr>working := None\<rparr>"

text \<open>Integers bound as parameters must fit 64 bits.\<close>

definition fits64 :: "int \<Rightarrow> bool" where
  "fits64 i \<longleftrightarrow> - (2 ^ 63) \<le> i \<and> i < 2 ^ 63"

definition bind_ints :: "int list \<Rightarrow> unit result" where
  "bind_ints is = (if list_all fits64 is then Inr ()
     else raise OverflowError ''Python int too large to convert to SQLite INTEGER'')"

definition insert_row :: "('r \<Rightarrow> 'k) \<Rightarrow> ('r \<Rightarrow> bool) \<Rightarrow> 'r \<Rightarrow> 'r list \<Rightarrow> 'r list result" where
  "insert_row key check r rows =
     (if \<not> check r then raise IntegrityError ''CHECK constraint failed''
      else if list_ex (\<lambda>q. key q = key r) rows then raise IntegrityError ''UNIQUE constraint failed''
      else Inr (rows @ [r]))"

lemma idle_simps [simp]: "idle (reopen c)" "idle \<lparr>committed = db, working = None\<rparr>"
  "idle (c\<lparr>working := None\<rparr>)"
  by (simp_all add: idle_def reopen_def)

lemma idle_eq: "idle c \<Longrightarrow> c = \<lparr>committed = committed c, working = None\<rparr>"
  by (cases c) (simp add: idle_def)

lemma committed_reopen [simp]: "committed (reopen c) = committed c"
  by (simp add: reopen_def)

lemma select_idle [simp]: "idle c \<Longrightarrow> select q c = (q (committed c), c)"
  by (simp add: select_def view_def idle_def)

lemmas statement_simps = begin_immediate_def commit_def rollback_def select_def exec_write_def view_def

text \<open>
  The two transaction shapes of the code, executed once and for all. \<open>transact\<close> is a
  transaction around one written statement, rolled back when the statement raises.
\<close>

definition transact :: "('db \<Rightarrow> 'db result) \<Rightarrow> (pyexc \<Rightarrow> ('db conn, 'a) py) \<Rightarrow> 'a \<Rightarrow> ('db conn, 'a) py" where
  "transact f handler x =
     stry (sthen begin_immediate (sthen (exec_write f) (sthen commit (sret x))))
       (\<lambda>e. sthen rollback (handler e))"

lemma transact_idle:
  assumes "idle c"
  shows "transact f handler x c =
    (case f (committed c) of
       Inl e \<Rightarrow> handler e c
     | Inr db \<Rightarrow> (Inr x, \<lparr>committed = db, working = None\<rparr>))"
  using assms idle_eq [OF assms]
  by (auto simp: transact_def py_simps statement_simps idle_def split: sum.splits)
    (metis conn.surjective conn.update_convs(2) old.unit.exhaust)

lemma insert_row_Inr:
  "insert_row key check r rows = Inr rows' \<longleftrightarrow>
     check r \<and> (\<forall>q \<in> set rows. key q \<noteq> key r) \<and> rows' = rows @ [r]"
  by (auto simp: insert_row_def list_ex_iff)

lemma insert_row_Inl:
  "insert_row key check r rows = Inl e \<Longrightarrow> exc_of e = IntegrityError"
  by (auto simp: insert_row_def split: if_splits)

end
