(* ===== verification/Revocation.thy ===== *)
theory Revocation
  imports Universe_Lifecycle Sqlite
begin

text \<open>
  The durable revocation registry, \<open>koschei/universe_authority_revocation_v1.py\<close>: one SQLite
  table of revocation records, the methods that insert into it and the liveness check of a token.
\<close>

record revocation_record =
  rv_activation_plan_digest :: string
  rv_epoch :: int
  rv_scope :: string
  rv_token_digest :: string
  rv_cause_digest :: string
  rv_record_digest :: string

type_synonym registry = "revocation_record list conn"

definition revocation_ctx :: string where
  "revocation_ctx = ''koschei.universe-authority-revocation/v1'' @ [CHR 0x00]"

definition revocation_digest ::
  "(string \<Rightarrow> string) \<Rightarrow> string \<Rightarrow> int \<Rightarrow> string \<Rightarrow> string \<Rightarrow> string \<Rightarrow> string" where
  "revocation_digest hash plan epoch scope token cause =
     digest_of hash revocation_ctx (join nl
       [kv ''plan'' plan, kv ''epoch'' (str_int epoch), kv ''scope'' scope, kv ''token'' token,
        kv ''cause'' cause])"

definition empty_registry :: registry where
  "empty_registry = \<lparr>committed = [], working = None\<rparr>"

definition revocation_key :: "revocation_record \<Rightarrow> string \<times> int \<times> string \<times> string" where
  "revocation_key r = (rv_activation_plan_digest r, rv_epoch r, rv_scope r, rv_token_digest r)"

definition insert_revocation ::
  "(string \<Rightarrow> string) \<Rightarrow> string \<Rightarrow> int \<Rightarrow> string \<Rightarrow> string \<Rightarrow> string \<Rightarrow> (registry, revocation_record) py" where
  "insert_revocation hash plan epoch scope token0 cause =
     (if plan = [] \<or> cause = [] then
        sthrow (Raise AuthorityRevocationError ''revocation requires plan and cause digests'' [])
      else if epoch < 1 then
        sthrow (Raise AuthorityRevocationError ''revocation epoch must be positive'' [])
      else if scope \<noteq> ''TOKEN'' \<and> scope \<noteq> ''EPOCH'' then
        sthrow (Raise AuthorityRevocationError ''invalid revocation scope'' [])
      else if scope = ''TOKEN'' \<and> token0 = [] then
        sthrow (Raise AuthorityRevocationError ''token revocation requires token digest'' [])
      else
        let token = (if scope = ''EPOCH'' then ''*'' else token0);
            record = \<lparr>rv_activation_plan_digest = plan, rv_epoch = epoch, rv_scope = scope,
                      rv_token_digest = token, rv_cause_digest = cause,
                      rv_record_digest = revocation_digest hash plan epoch scope token cause\<rparr>
        in transact
             (\<lambda>rows. rbind (bind_ints [epoch]) (\<lambda>_. insert_row revocation_key (\<lambda>r. 1 \<le> rv_epoch r) record rows))
             (\<lambda>e. if exc_of e = IntegrityError then
                    sthrow (Raise AuthorityRevocationError ''authority revocation already recorded'' [])
                  else sthrow e)
             record)"

definition revoke_token ::
  "(string \<Rightarrow> string) \<Rightarrow> sigil_epoch_token \<Rightarrow> string \<Rightarrow> (registry, revocation_record) py" where
  "revoke_token hash token cause =
     insert_revocation hash (tk_activation_plan_digest token) (tk_epoch token) ''TOKEN''
       (tk_token_digest token) cause"

definition revoke_epoch ::
  "(string \<Rightarrow> string) \<Rightarrow> string \<Rightarrow> int \<Rightarrow> string \<Rightarrow> (registry, revocation_record) py" where
  "revoke_epoch hash plan epoch cause = insert_revocation hash plan epoch ''EPOCH'' ''*'' cause"

definition apply_nuclear_revocation ::
  "(string \<Rightarrow> string) \<Rightarrow> universe_state \<Rightarrow> universe_state \<Rightarrow> nuclear_receipt
     \<Rightarrow> (registry, revocation_record) py" where
  "apply_nuclear_revocation hash previous frozen receipt =
     sbind (slift (nuclear_assert_sealed hash receipt)) (\<lambda>_.
       if nr_previous_state_digest receipt \<noteq> us_digest previous then
         sthrow (Raise AuthorityRevocationError ''nuclear receipt previous-state mismatch'' [])
       else if nr_contained_state_digest receipt \<noteq> us_digest frozen then
         sthrow (Raise AuthorityRevocationError ''nuclear receipt contained-state mismatch'' [])
       else if us_activation_plan_digest previous \<noteq> us_activation_plan_digest frozen then
         sthrow (Raise AuthorityRevocationError ''nuclear containment changed Universe plan identity'' [])
       else if epochs (us_sigils previous) \<noteq> [nr_epoch receipt] then
         sthrow (Raise AuthorityRevocationError ''nuclear receipt epoch mismatch'' [])
       else revoke_epoch hash (us_activation_plan_digest previous) (nr_epoch receipt) (nr_digest receipt))"

text \<open>The \<open>WHERE\<close> clause of the two queries.\<close>

definition has_revocation :: "string \<Rightarrow> int \<Rightarrow> string \<Rightarrow> string \<Rightarrow> revocation_record list \<Rightarrow> bool" where
  "has_revocation plan epoch scope token rows =
     list_ex (\<lambda>r. revocation_key r = (plan, epoch, scope, token)) rows"

definition is_revoked :: "sigil_epoch_token \<Rightarrow> (registry, bool) py" where
  "is_revoked token =
     sbind (select (\<lambda>rows. rbind (bind_ints [tk_epoch token]) (\<lambda>_.
         Inr (has_revocation (tk_activation_plan_digest token) (tk_epoch token) ''EPOCH'' ''*'' rows))))
       (\<lambda>epoch_row.
         if epoch_row then sret True
         else select (\<lambda>rows. rbind (bind_ints [tk_epoch token]) (\<lambda>_.
           Inr (has_revocation (tk_activation_plan_digest token) (tk_epoch token) ''TOKEN''
                  (tk_token_digest token) rows))))"

definition require_live :: "sigil_epoch_token \<Rightarrow> (registry, unit) py" where
  "require_live token =
     sbind (is_revoked token) (\<lambda>revoked.
       if revoked then sthrow (Raise AuthorityRevocationError ''authority token has been durably revoked'' [])
       else sret ())"

section \<open>Histories of the registry\<close>

text \<open>Any sequence of method calls, successful or not, with crashes anywhere between them.\<close>

inductive registry_reach :: "(string \<Rightarrow> string) \<Rightarrow> registry \<Rightarrow> registry \<Rightarrow> bool" for hash c where
  start: "registry_reach hash c c"
| revoke_token: "registry_reach hash c d \<Longrightarrow> registry_reach hash c (snd (revoke_token hash tok cause d))"
| revoke_epoch: "registry_reach hash c d \<Longrightarrow> registry_reach hash c (snd (revoke_epoch hash plan e cause d))"
| nuclear: "registry_reach hash c d \<Longrightarrow>
     registry_reach hash c (snd (apply_nuclear_revocation hash previous frozen receipt d))"
| query: "registry_reach hash c d \<Longrightarrow> registry_reach hash c (snd (require_live tok d))"
| crash: "registry_reach hash c d \<Longrightarrow> registry_reach hash c (reopen d)"

lemma is_revoked_idle:
  assumes "idle c"
  shows "is_revoked tok c =
    (if fits64 (tk_epoch tok) then
       Inr (has_revocation (tk_activation_plan_digest tok) (tk_epoch tok) ''EPOCH'' ''*'' (committed c)
         \<or> has_revocation (tk_activation_plan_digest tok) (tk_epoch tok) ''TOKEN'' (tk_token_digest tok) (committed c))
     else raise OverflowError ''Python int too large to convert to SQLite INTEGER'', c)"
  using assms by (simp add: is_revoked_def py_simps bind_ints_def)

lemma require_live_state [simp]: "idle c \<Longrightarrow> snd (require_live tok c) = c"
  by (simp add: require_live_def py_simps is_revoked_idle split: sum.splits)

text \<open>Every insertion attempt leaves the connection idle and only adds rows.\<close>

definition grows :: "registry \<Rightarrow> registry \<Rightarrow> bool" where
  "grows c d \<longleftrightarrow> idle d \<and> set (committed c) \<subseteq> set (committed d)"

lemma insert_revocation_grows:
  assumes "idle c" shows "grows c (snd (insert_revocation hash plan epoch scope token cause c))"
  using assms
  by (auto simp: grows_def insert_revocation_def py_simps Let_def transact_idle insert_row_Inr
      rbind_eq_Inr split: sum.splits)

lemma apply_nuclear_grows:
  assumes "idle c" shows "grows c (snd (apply_nuclear_revocation hash previous frozen receipt c))"
  using assms insert_revocation_grows [OF assms]
  by (auto simp: apply_nuclear_revocation_def py_simps revoke_epoch_def grows_def split: sum.splits)

lemma registry_reach_grows: "registry_reach hash c d \<Longrightarrow> idle c \<Longrightarrow> grows c d"
proof (induction rule: registry_reach.induct)
  case start
  then show ?case by (simp add: grows_def)
next
  case (revoke_token d tok cause)
  then have d: "grows c d" "idle d" by (simp_all add: grows_def)
  with insert_revocation_grows [OF d(2)] show ?case unfolding revoke_token_def grows_def by blast
next
  case (revoke_epoch d plan e cause)
  then have d: "grows c d" "idle d" by (simp_all add: grows_def)
  with insert_revocation_grows [OF d(2)] show ?case unfolding revoke_epoch_def grows_def by blast
next
  case (nuclear d previous frozen receipt)
  then have d: "grows c d" "idle d" by (simp_all add: grows_def)
  with apply_nuclear_grows [OF d(2)] show ?case unfolding grows_def by blast
qed (simp_all add: grows_def)

lemma has_revocation_mono:
  "set rows \<subseteq> set rows' \<Longrightarrow> has_revocation p e s t rows \<Longrightarrow> has_revocation p e s t rows'"
  by (auto simp: has_revocation_def list_ex_iff)

lemma enter_nuclear_containment_Inr:
  assumes "enter_nuclear_containment hash s cause = Inr (c, r)"
  shows "contain_universe hash s cause = Inr c" and "epochs (us_sigils s) = [nr_epoch r]"
    and "nr_previous_state_digest r = us_digest s" and "nr_contained_state_digest r = us_digest c"
    and "nuclear_assert_sealed hash r = Inr ()"
    and "\<exists>p. nr_digest r = digest_of hash nuclear_ctx p"
  using assms
  by (auto simp: enter_nuclear_containment_def Let_def rbind_eq_Inr nuclear_receipt_digest_def
      split: if_splits list.splits)

lemma insert_revocation_present:
  assumes "idle c" and "plan \<noteq> []" and "cause \<noteq> []" and "1 \<le> e" and "fits64 e"
    and "scope = ''EPOCH'' \<and> token = ''*'' \<or> scope = ''TOKEN'' \<and> token \<noteq> []"
  shows "has_revocation plan e scope token
    (committed (snd (insert_revocation hash plan e scope token cause c)))"
  using assms
  by (auto simp: insert_revocation_def Let_def py_simps transact_idle bind_ints_def insert_row_def
      revocation_key_def has_revocation_def list_ex_iff)

lemma revocation_permanent_core:
  assumes "idle c" and "fits64 (tk_epoch tok)"
    and "has_revocation (tk_activation_plan_digest tok) (tk_epoch tok) ''EPOCH'' ''*'' (committed c)
      \<or> has_revocation (tk_activation_plan_digest tok) (tk_epoch tok) ''TOKEN'' (tk_token_digest tok) (committed c)"
    and "registry_reach hash c d"
  shows "require_live tok d =
    (raise AuthorityRevocationError ''authority token has been durably revoked'', d)"
proof -
  from registry_reach_grows [OF assms(4,1)] have d: "idle d" and sub: "set (committed c) \<subseteq> set (committed d)"
    by (simp_all add: grows_def)
  from assms(2,3) show ?thesis
    by (auto simp: require_live_def py_simps is_revoked_idle [OF d] dest: has_revocation_mono [OF sub])
qed

section \<open>Properties\<close>


definition some_token :: sigil_epoch_token where
  "some_token = \<lparr>tk_sigil = ''ka'', tk_epoch = 1, tk_activation_plan_digest = ''p'',
     tk_lifecycle_evidence_digest = ''e'', tk_state_digest = ''s'', tk_token_digest = ''t''\<rparr>"


text \<open>
  Nuclear containment kills every token of its epoch: when a Universe reached in an epoch is
  contained and the receipt is applied to the registry, then after any later history of the registry
  every token of that plan and epoch is refused, whatever state snapshot its holder kept.
\<close>

theorem nuclear_revocation_kills_epoch:
  assumes "hexdigest hash" and "initial_universe_state hash sigils epoch = Inr s0"
    and "lifecycle_reach hash s0 s" and "fits64 epoch"
    and "enter_nuclear_containment hash s cause = Inr (c, r)"
    and "idle d" and "registry_reach hash (snd (apply_nuclear_revocation hash s c r d)) d'"
    and "lifecycle_reach hash s0 u" and "mint_sigil_epoch_token hash u sigil = Inr tok"
  shows "require_live tok d' =
    (raise AuthorityRevocationError ''authority token has been durably revoked'', d')"
proof -
  note enter = enter_nuclear_containment_Inr [OF assms(5)]
  from assms(2) have "canonical_sequence sigils" and e: "1 \<le> epoch" and s0: "s0 = initial_state_of hash sigils epoch"
    by (simp_all add: initial_universe_state_eq_Inr)
  then have ne: "sigils \<noteq> []" by (simp add: canonical_sequence_def)
  note inv = reach_from_initial [OF assms(3) [unfolded s0]]
    and inv' = reach_from_initial [OF assms(8) [unfolded s0]]
  have r: "nr_epoch r = epoch" using enter(2) epochs_uniform [OF inv(3) ne] by simp
  have plan: "us_activation_plan_digest s \<noteq> []" unfolding inv(1)
    using hexdigest.digest_nonempty [OF assms(1)] by (simp add: activation_plan_of_def Let_def)
  have dig: "nr_digest r \<noteq> []" using enter(6) hexdigest.digest_nonempty [OF assms(1)] by metis
  have same_plan: "us_activation_plan_digest c = us_activation_plan_digest s"
    using contain_universe_evolves(1) [OF enter(1)] .
  have "has_revocation (us_activation_plan_digest s) epoch ''EPOCH'' ''*''
      (committed (snd (apply_nuclear_revocation hash s c r d)))"
    using enter(2-5) same_plan insert_revocation_present [OF assms(6) plan dig e assms(4)]
    by (simp add: apply_nuclear_revocation_def py_simps r revoke_epoch_def)
  moreover have "idle (snd (apply_nuclear_revocation hash s c r d))"
    using apply_nuclear_grows [OF assms(6)] by (simp add: grows_def)
  moreover obtain row where "row \<in> set (us_sigils u)" and "tk_epoch tok = lc_epoch row"
    and tp: "tk_activation_plan_digest tok = us_activation_plan_digest u"
    using assms(9) by (auto simp: mint_eq_Inr dest: find_row_Some)
  then have "tk_epoch tok = epoch" using inv'(3) by (metis in_set_conv_nth length_map nth_map)
  ultimately show ?thesis
    using assms(4,7) tp inv(1) inv'(1)
    by (intro revocation_permanent_core) simp_all
qed

theorem nuclear_revocation_kills_epoch_witness:
  "\<exists>c r tok. enter_nuclear_containment tail_hash ka_active_state ''alarm'' = Inr (c, r)
     \<and> mint_sigil_epoch_token tail_hash ka_active_state ''ka'' = Inr tok
     \<and> fst (require_live tok (snd (apply_nuclear_revocation tail_hash ka_active_state c r empty_registry)))
       = raise AuthorityRevocationError ''authority token has been durably revoked''"
proof -
  have can: "canonical_sequence [''ka'']"
    by (simp add: canonical_sequence_def CANONICAL_SIGIL_ORDER_def)
  obtain c r where enter: "enter_nuclear_containment tail_hash ka_active_state ''alarm'' = Inr (c, r)"
    by (rule nuclear_containment_works [OF ka_active_reached can, of "''alarm''"]) auto
  obtain tok where tok: "mint_sigil_epoch_token tail_hash ka_active_state ''ka'' = Inr tok"
    using ka_active_mint by blast
  have "fits64 1" "idle empty_registry" by (simp_all add: fits64_def empty_registry_def)
  from nuclear_revocation_kills_epoch [OF tail_hash.hexdigest_axioms initial_ka ka_active_reached
      this(1) enter this(2) registry_reach.start ka_active_reached tok]
  show ?thesis using enter tok by simp
qed

end
