(* ===== verification/Library_Proof.thy ===== *)
theory Library_Proof
  imports Sigil_Semantics
begin

text \<open>
  The Library stage: the expansion of an activation plan into bound obligations
  (\<open>koschei/library_expansion_engine_v1.py\<close>), the proof envelope over one receipt per step
  (\<open>koschei/library_proof_envelope_v1.py\<close>), the bridge from sealed MIR
  (\<open>koschei/native_sigil_library_bridge_v1.py\<close>) and the proof pipeline that binds an envelope
  to the MIR (\<open>koschei/native_sigil_proof_pipeline_v1.py\<close>).
\<close>

section \<open>Library expansion\<close>

record library_binding =
  lb_obligation :: string
  lb_subsystem :: string
  lb_proof_kind :: string
  lb_grants_authority :: bool

record library_expansion_step =
  le_activation_step_id :: string
  le_phase :: string
  le_obligation :: string
  le_subsystem :: string
  le_proof_kind :: string
  le_requires :: "string list"
  le_binding_digest :: string

record library_expansion_plan =
  lp_activation_plan_digest :: string
  lp_sigils :: "string list"
  lp_steps :: "library_expansion_step list"
  lp_digest :: string

abbreviation mk_binding :: "string \<Rightarrow> string \<Rightarrow> string \<Rightarrow> bool \<Rightarrow> library_binding" where
  "mk_binding obligation subsystem kind grants \<equiv>
     \<lparr>lb_obligation = obligation, lb_subsystem = subsystem, lb_proof_kind = kind,
      lb_grants_authority = grants\<rparr>"

definition LIBRARY_BINDINGS :: "(string \<times> library_binding) list" where
  "LIBRARY_BINDINGS =
  [(''establish-canonical-identity'',
      mk_binding ''establish-canonical-identity''
        ''library.identity_genesis'' ''identity-proof'' False),
   (''seal-integrity-lineage'',
      mk_binding ''seal-integrity-lineage''
        ''library.integrity_lineage'' ''integrity-seal'' False),
   (''deny-ambient-authority'',
      mk_binding ''deny-ambient-authority''
        ''library.zero_authority'' ''authority-absence-proof'' False),
   (''derive-least-authority'',
      mk_binding ''derive-least-authority''
        ''library.authority_derivation'' ''capability-proof'' True),
   (''seal-effect-contract'',
      mk_binding ''seal-effect-contract''
        ''library.effect_contract'' ''effect-seal'' False),
   (''validate-runtime-before-authority-injection'',
      mk_binding ''validate-runtime-before-authority-injection''
        ''library.runtime_gate'' ''runtime-attestation'' False),
   (''bind-observation-to-effect-receipt'',
      mk_binding ''bind-observation-to-effect-receipt''
        ''library.evidence_binding'' ''effect-evidence'' False),
   (''require-independent-evidence'',
      mk_binding ''require-independent-evidence''
        ''library.attestation_quorum'' ''quorum-proof'' False),
   (''preserve-evidence-lineage'',
      mk_binding ''preserve-evidence-lineage''
        ''library.evidence_lineage'' ''lineage-proof'' False),
   (''derive-minimum-safe-containment'',
      mk_binding ''derive-minimum-safe-containment''
        ''library.containment'' ''containment-proof'' False),
   (''fence-stale-writers'',
      mk_binding ''fence-stale-writers''
        ''library.recovery_fencing'' ''fencing-proof'' False),
   (''commit-or-abort-recovery'',
      mk_binding ''commit-or-abort-recovery''
        ''library.recovery_transaction'' ''recovery-commit-proof'' False),
   (''prove-exactly-once-effect-lineage'',
      mk_binding ''prove-exactly-once-effect-lineage''
        ''library.exactly_once'' ''effect-receipt-proof'' False),
   (''measure-knowledge-acquisition'',
      mk_binding ''measure-knowledge-acquisition''
        ''library.knowledge_budget'' ''observation-budget-proof'' False),
   (''shrink-visibility-envelope'',
      mk_binding ''shrink-visibility-envelope''
        ''library.visibility_envelope'' ''visibility-policy-proof'' False),
   (''rotate-observer-compartments'',
      mk_binding ''rotate-observer-compartments''
        ''library.compartment_rotation'' ''rotation-proof'' False),
   (''preserve-canonical-state-behind-visibility'',
      mk_binding ''preserve-canonical-state-behind-visibility''
        ''library.canonical_state'' ''state-continuity-proof'' False),
   (''bind-authority-to-genesis-identity'',
      mk_binding ''bind-authority-to-genesis-identity''
        ''library.authority_lineage'' ''genesis-authority-proof'' False),
   (''invalidate-authority-on-identity-drift'',
      mk_binding ''invalidate-authority-on-identity-drift''
        ''library.authority_tombstone'' ''revocation-proof'' False),
   (''bind-evidence-to-canonical-subject'',
      mk_binding ''bind-evidence-to-canonical-subject''
        ''library.subject_evidence'' ''subject-binding-proof'' False),
   (''seal-authorization-provenance'',
      mk_binding ''seal-authorization-provenance''
        ''library.authorization_provenance'' ''authorization-proof'' False),
   (''prove-effect-authority-before-attestation-finality'',
      mk_binding ''prove-effect-authority-before-attestation-finality''
        ''library.effect_authority'' ''effect-authority-proof'' False),
   (''evaluate-authority-and-visibility-independently'',
      mk_binding ''evaluate-authority-and-visibility-independently''
        ''library.authority_visibility_separation'' ''separation-proof'' False),
   (''bind-recovery-commit-to-attested-effect'',
      mk_binding ''bind-recovery-commit-to-attested-effect''
        ''library.recovery_attestation'' ''attested-recovery-proof'' False),
   (''abort-on-evidence-conflict'',
      mk_binding ''abort-on-evidence-conflict''
        ''library.evidence_conflict_gate'' ''conflict-proof'' False),
   (''prove-recovery-authority-is-non-escalating'',
      mk_binding ''prove-recovery-authority-is-non-escalating''
        ''library.recovery_authority'' ''non-escalation-proof'' False),
   (''preserve-evidence-through-compartment-rotation'',
      mk_binding ''preserve-evidence-through-compartment-rotation''
        ''library.private_evidence_continuity'' ''continuity-proof'' False),
   (''seal-whole-universe-conservation-proof'',
      mk_binding ''seal-whole-universe-conservation-proof''
        ''library.universe_conservation'' ''universe-conservation-proof'' False)]"

definition expansion_ctx :: string where
  "expansion_ctx = ''koschei.library-expansion-engine/v1'' @ [CHR 0x00]"

definition binding_digest :: "(string \<Rightarrow> string) \<Rightarrow> string \<Rightarrow> library_binding \<Rightarrow> string" where
  "binding_digest hash step binding =
     digest_of hash expansion_ctx (join ''|''
       [step, lb_obligation binding, lb_subsystem binding, lb_proof_kind binding,
        str_bool (lb_grants_authority binding)])"

definition expand_step :: "(string \<Rightarrow> string) \<Rightarrow> activation_step \<Rightarrow> library_expansion_step result" where
  "expand_step hash step =
     (case map_of LIBRARY_BINDINGS (step_obligation step) of
        None \<Rightarrow> raisef LibraryExpansionError ''unbound Koschei Library obligation: {}'' [step_obligation step]
      | Some binding \<Rightarrow>
          Inr \<lparr>le_activation_step_id = step_id step, le_phase = step_phase step,
               le_obligation = step_obligation step, le_subsystem = lb_subsystem binding,
               le_proof_kind = lb_proof_kind binding, le_requires = step_requires step,
               le_binding_digest = binding_digest hash (step_id step) binding\<rparr>)"

text \<open>\<open>LIBRARY_BINDINGS[item.obligation].grants_authority\<close>.\<close>

definition grants_authority :: "library_expansion_step \<Rightarrow> bool result" where
  "grants_authority item =
     (case map_of LIBRARY_BINDINGS (le_obligation item) of
        None \<Rightarrow> raisef KeyError ''{}'' [le_obligation item]
      | Some binding \<Rightarrow> Inr (lb_grants_authority binding))"

definition expansion_row :: "library_expansion_step \<Rightarrow> string" where
  "expansion_row item = kv ''step'' (join ''|''
     [le_activation_step_id item, le_phase item, le_obligation item, le_subsystem item,
      le_proof_kind item, join '','' (le_requires item), le_binding_digest item])"

definition compile_library_expansion ::
  "(string \<Rightarrow> string) \<Rightarrow> string list \<Rightarrow> library_expansion_plan result" where
  "compile_library_expansion hash sigils =
     rbind (compile_activation_plan hash sigils) (\<lambda>activation.
     rbind (rmap (expand_step hash) (act_steps activation)) (\<lambda>expanded.
     rbind (rmap (\<lambda>item. rbind (grants_authority item) (\<lambda>g. Inr (item, g))) expanded) (\<lambda>flagged.
       let authority_bindings = map fst (filter snd flagged) in
       if list_ex (\<lambda>item. le_obligation item \<noteq> ''derive-least-authority'') authority_bindings then
         raise LibraryExpansionError ''non-canonical Library binding attempted to grant authority''
       else Inr \<lparr>lp_activation_plan_digest = act_digest activation,
                 lp_sigils = plan_sigils (composed_base (act_composed activation)),
                 lp_steps = expanded,
                 lp_digest = digest_of hash expansion_ctx (join nl
                   (kv ''activation'' (act_digest activation) # map expansion_row expanded))\<rparr>)))"

section \<open>The proof envelope\<close>

record library_proof_receipt =
  pr_activation_step_id :: string
  pr_obligation :: string
  pr_subsystem :: string
  pr_proof_kind :: string
  pr_evidence_digest :: string
  pr_success :: bool
  pr_digest :: string

record library_proof_envelope =
  pe_expansion_plan_digest :: string
  pe_activation_plan_digest :: string
  pe_receipts :: "library_proof_receipt list"
  pe_decision :: string
  pe_digest :: string

definition envelope_ctx :: string where
  "envelope_ctx = ''koschei.library-proof-envelope/v1'' @ [CHR 0x00]"

definition receipt_digest ::
  "(string \<Rightarrow> string) \<Rightarrow> string \<Rightarrow> string \<Rightarrow> string \<Rightarrow> string \<Rightarrow> string \<Rightarrow> bool \<Rightarrow> string" where
  "receipt_digest hash step obligation subsystem kind evidence success =
     digest_of hash (envelope_ctx @ ''receipt'' @ [CHR 0x00]) (join ''|''
       [step, obligation, subsystem, kind, evidence, (if success then ''1'' else ''0'')])"

definition make_receipt ::
  "(string \<Rightarrow> string) \<Rightarrow> string \<Rightarrow> string \<Rightarrow> string \<Rightarrow> string \<Rightarrow> string \<Rightarrow> bool \<Rightarrow> library_proof_receipt result" where
  "make_receipt hash step obligation subsystem kind evidence success =
     (if evidence = [] then raise LibraryProofError ''Library proof receipt requires evidence''
      else Inr \<lparr>pr_activation_step_id = step, pr_obligation = obligation, pr_subsystem = subsystem,
                pr_proof_kind = kind, pr_evidence_digest = evidence, pr_success = success,
                pr_digest = receipt_digest hash step obligation subsystem kind evidence success\<rparr>)"

definition envelope_digest ::
  "(string \<Rightarrow> string) \<Rightarrow> library_expansion_plan \<Rightarrow> library_proof_receipt list \<Rightarrow> string \<Rightarrow> string" where
  "envelope_digest hash plan receipts decision =
     digest_of hash (envelope_ctx @ ''envelope'' @ [CHR 0x00]) (join nl
       ([kv ''expansion'' (lp_digest plan), kv ''activation'' (lp_activation_plan_digest plan),
         kv ''decision'' decision] @ map (\<lambda>item. kv ''receipt'' (pr_digest item)) receipts))"

text \<open>The dictionary \<open>by_step\<close>.\<close>

fun index_receipts ::
  "(string \<rightharpoonup> library_proof_receipt) \<Rightarrow> library_proof_receipt list \<Rightarrow> (string \<rightharpoonup> library_proof_receipt) result" where
  "index_receipts by_step [] = Inr by_step"
| "index_receipts by_step (r # rs) =
     (case by_step (pr_activation_step_id r) of
        Some _ \<Rightarrow> raisef LibraryProofError ''duplicate Library proof receipt: {}'' [pr_activation_step_id r]
      | None \<Rightarrow> index_receipts (by_step(pr_activation_step_id r \<mapsto> r)) rs)"

definition match_receipt ::
  "(string \<Rightarrow> string) \<Rightarrow> (string \<rightharpoonup> library_proof_receipt) \<Rightarrow> library_expansion_step \<Rightarrow> library_proof_receipt result" where
  "match_receipt hash by_step step =
     (case by_step (le_activation_step_id step) of
        None \<Rightarrow> raisef LibraryProofError ''missing Library proof receipt: {}'' [le_activation_step_id step]
      | Some receipt \<Rightarrow>
          if pr_obligation receipt \<noteq> le_obligation step then
            raise LibraryProofError ''Library proof obligation mismatch''
          else if pr_subsystem receipt \<noteq> le_subsystem step then
            raise LibraryProofError ''Library proof subsystem mismatch''
          else if pr_proof_kind receipt \<noteq> le_proof_kind step then
            raise LibraryProofError ''Library proof kind mismatch''
          else if pr_digest receipt \<noteq> receipt_digest hash (pr_activation_step_id receipt)
                    (pr_obligation receipt) (pr_subsystem receipt) (pr_proof_kind receipt)
                    (pr_evidence_digest receipt) (pr_success receipt) then
            raise LibraryProofError ''Library proof receipt digest mismatch''
          else Inr receipt)"

definition seal_library_proof_envelope ::
  "(string \<Rightarrow> string) \<Rightarrow> library_expansion_plan \<Rightarrow> library_proof_receipt list \<Rightarrow> library_proof_envelope result" where
  "seal_library_proof_envelope hash plan supplied =
     rbind (index_receipts Map.empty supplied) (\<lambda>by_step.
     rbind (rmap (match_receipt hash by_step) (lp_steps plan)) (\<lambda>ordered.
       if list_ex (\<lambda>r. pr_activation_step_id r \<notin> set (map le_activation_step_id (lp_steps plan))) supplied then
         raise LibraryProofError ''proof envelope contains receipts outside the expansion plan''
       else
         let decision = (if list_all pr_success ordered then ''ALLOW'' else ''DENY'')
         in Inr \<lparr>pe_expansion_plan_digest = lp_digest plan,
                 pe_activation_plan_digest = lp_activation_plan_digest plan,
                 pe_receipts = ordered, pe_decision = decision,
                 pe_digest = envelope_digest hash plan ordered decision\<rparr>))"

definition require_library_proof_envelope ::
  "(string \<Rightarrow> string) \<Rightarrow> library_expansion_plan \<Rightarrow> library_proof_envelope \<Rightarrow> unit result" where
  "require_library_proof_envelope hash plan envelope =
     (if pe_expansion_plan_digest envelope \<noteq> lp_digest plan then
        raise LibraryProofError ''proof envelope expansion-plan mismatch''
      else if pe_activation_plan_digest envelope \<noteq> lp_activation_plan_digest plan then
        raise LibraryProofError ''proof envelope activation-plan mismatch''
      else rbind (seal_library_proof_envelope hash plan (pe_receipts envelope)) (\<lambda>resealed.
        if pe_decision resealed \<noteq> pe_decision envelope then
          raise LibraryProofError ''proof envelope decision mismatch''
        else if pe_digest resealed \<noteq> pe_digest envelope then
          raise LibraryProofError ''proof envelope digest mismatch''
        else Inr ()))"

section \<open>The bridge from MIR\<close>

record native_sigil_library_plan =
  nl_native_mir_fingerprint :: string
  nl_universe_plan_digest :: string
  nl_library_plan :: library_expansion_plan
  nl_digest :: string

definition bridge_ctx :: string where
  "bridge_ctx = ''koschei.native-sigil-library-bridge/v1'' @ [CHR 0x00]"

definition bridge_digest :: "(string \<Rightarrow> string) \<Rightarrow> string \<Rightarrow> string \<Rightarrow> string \<Rightarrow> string" where
  "bridge_digest hash mir universe library =
     digest_of hash bridge_ctx (join nl
       [kv ''mir'' mir, kv ''universe'' universe, kv ''library'' library])"

definition plan_assert_sealed :: "(string \<Rightarrow> string) \<Rightarrow> native_sigil_library_plan \<Rightarrow> unit result" where
  "plan_assert_sealed hash p =
     (if bridge_digest hash (nl_native_mir_fingerprint p) (nl_universe_plan_digest p)
           (lp_digest (nl_library_plan p)) \<noteq> nl_digest p then
        raise NativeSigilLibraryBridgeError ''native sigil Library plan seal mismatch''
      else Inr ())"

definition expand_native_sigil_mir ::
  "(string \<Rightarrow> string) \<Rightarrow> native_sigil_mir \<Rightarrow> native_sigil_library_plan result" where
  "expand_native_sigil_mir hash mir =
     rbind (mir_assert_sealed hash mir) (\<lambda>_.
     let sigils = map mb_sigil (mir_bindings mir) in
     rbind (compile_universe_plan hash sigils) (\<lambda>universe.
     if plan_digest universe \<noteq> mir_universe_plan_digest mir then
       raise NativeSigilLibraryBridgeError
         ''native sigil MIR universe identity no longer matches canonical Universe''
     else rbind (compile_library_expansion hash sigils) (\<lambda>library.
     if lp_sigils library \<noteq> sigils then
       raise NativeSigilLibraryBridgeError
         ''Library expansion sigil sequence differs from compiler-produced MIR''
     else rbind (compile_universe_plan hash (lp_sigils library)) (\<lambda>activation_universe.
     if plan_digest activation_universe \<noteq> mir_universe_plan_digest mir then
       raise NativeSigilLibraryBridgeError ''Library expansion is bound to a different Universe plan''
     else
       let result = \<lparr>nl_native_mir_fingerprint = mir_fingerprint mir,
             nl_universe_plan_digest = mir_universe_plan_digest mir, nl_library_plan = library,
             nl_digest = bridge_digest hash (mir_fingerprint mir) (mir_universe_plan_digest mir)
               (lp_digest library)\<rparr>
       in rbind (plan_assert_sealed hash result) (\<lambda>_. Inr result)))))"

section \<open>The proof pipeline\<close>

record native_sigil_proof_bundle =
  pb_native_mir_fingerprint :: string
  pb_universe_plan_digest :: string
  pb_native_library_plan_digest :: string
  pb_library_proof :: library_proof_envelope
  pb_decision :: string
  pb_digest :: string
  pb_version :: int

definition pipeline_ctx :: string where
  "pipeline_ctx = ''koschei.native-sigil-proof-pipeline/v1'' @ [CHR 0x00]"

definition bundle_digest ::
  "(string \<Rightarrow> string) \<Rightarrow> string \<Rightarrow> string \<Rightarrow> string \<Rightarrow> string \<Rightarrow> string \<Rightarrow> string" where
  "bundle_digest hash mir universe library pfe decision =
     digest_of hash pipeline_ctx (join nl
       [kv ''mir'' mir, kv ''universe'' universe, kv ''native-library'' library, kv ''proof'' pfe,
        kv ''decision'' decision])"

definition bundle_assert_sealed ::
  "(string \<Rightarrow> string) \<Rightarrow> native_sigil_proof_bundle \<Rightarrow> native_sigil_library_plan \<Rightarrow> unit result" where
  "bundle_assert_sealed hash b plan =
     (if pb_native_mir_fingerprint b \<noteq> nl_native_mir_fingerprint plan then
        raise NativeSigilProofPipelineError ''proof bundle MIR fingerprint mismatch''
      else if pb_universe_plan_digest b \<noteq> nl_universe_plan_digest plan then
        raise NativeSigilProofPipelineError ''proof bundle Universe identity mismatch''
      else if pb_native_library_plan_digest b \<noteq> nl_digest plan then
        raise NativeSigilProofPipelineError ''proof bundle Library-plan identity mismatch''
      else rbind (require_library_proof_envelope hash (nl_library_plan plan) (pb_library_proof b)) (\<lambda>_.
        if pb_decision b \<noteq> pe_decision (pb_library_proof b) then
          raise NativeSigilProofPipelineError ''proof bundle decision mismatch''
        else if pb_digest b \<noteq> bundle_digest hash (pb_native_mir_fingerprint b) (pb_universe_plan_digest b)
                  (pb_native_library_plan_digest b) (pe_digest (pb_library_proof b)) (pb_decision b) then
          raise NativeSigilProofPipelineError ''native sigil proof bundle seal mismatch''
        else Inr ()))"

definition seal_native_sigil_proof ::
  "(string \<Rightarrow> string) \<Rightarrow> native_sigil_mir \<Rightarrow> library_proof_receipt list \<Rightarrow> native_sigil_proof_bundle result" where
  "seal_native_sigil_proof hash mir receipts =
     rbind (mir_assert_sealed hash mir) (\<lambda>_.
     rbind (expand_native_sigil_mir hash mir) (\<lambda>plan.
     rbind (plan_assert_sealed hash plan) (\<lambda>_.
     rbind (seal_library_proof_envelope hash (nl_library_plan plan) receipts) (\<lambda>pfe.
     rbind (require_library_proof_envelope hash (nl_library_plan plan) pfe) (\<lambda>_.
       let result = \<lparr>pb_native_mir_fingerprint = mir_fingerprint mir,
             pb_universe_plan_digest = mir_universe_plan_digest mir,
             pb_native_library_plan_digest = nl_digest plan, pb_library_proof = pfe,
             pb_decision = pe_decision pfe,
             pb_digest = bundle_digest hash (mir_fingerprint mir) (mir_universe_plan_digest mir)
               (nl_digest plan) (pe_digest pfe) (pe_decision pfe),
             pb_version = 1\<rparr>
       in rbind (bundle_assert_sealed hash result plan) (\<lambda>_. Inr result))))))"

definition require_native_sigil_proof ::
  "(string \<Rightarrow> string) \<Rightarrow> native_sigil_mir \<Rightarrow> native_sigil_proof_bundle \<Rightarrow> native_sigil_library_plan result" where
  "require_native_sigil_proof hash mir bundle =
     rbind (mir_assert_sealed hash mir) (\<lambda>_.
     rbind (expand_native_sigil_mir hash mir) (\<lambda>plan.
     rbind (bundle_assert_sealed hash bundle plan) (\<lambda>_. Inr plan)))"

section \<open>The expansion succeeds on every canonical sequence\<close>

definition binding_for :: "string \<Rightarrow> library_binding" where
  "binding_for obligation = the (map_of LIBRARY_BINDINGS obligation)"

text \<open>Every obligation of the Universe tables has a binding, under its own name.\<close>

lemma bindings_cover:
  "list_all (\<lambda>ob. case map_of LIBRARY_BINDINGS ob of None \<Rightarrow> False
     | Some b \<Rightarrow> lb_obligation b = ob \<and> (lb_grants_authority b \<longrightarrow> ob = ''derive-least-authority''))
     all_obligations"
  by code_simp

lemma binding_for_known:
  assumes "ob \<in> set all_obligations"
  shows "map_of LIBRARY_BINDINGS ob = Some (binding_for ob)"
    and "lb_obligation (binding_for ob) = ob"
    and "lb_grants_authority (binding_for ob) \<Longrightarrow> ob = ''derive-least-authority''"
  using bindings_cover assms by (auto simp: list_all_iff binding_for_def split: option.splits)

definition expanded_step :: "(string \<Rightarrow> string) \<Rightarrow> activation_step \<Rightarrow> library_expansion_step" where
  "expanded_step hash step = (let binding = binding_for (step_obligation step) in
     \<lparr>le_activation_step_id = step_id step, le_phase = step_phase step,
      le_obligation = step_obligation step, le_subsystem = lb_subsystem binding,
      le_proof_kind = lb_proof_kind binding, le_requires = step_requires step,
      le_binding_digest = binding_digest hash (step_id step) binding\<rparr>)"

definition expansion_of :: "(string \<Rightarrow> string) \<Rightarrow> string list \<Rightarrow> library_expansion_plan" where
  "expansion_of hash s = (let steps = map (expanded_step hash) (steps_of hash s);
       activation = act_digest (activation_plan_of hash s) in
     \<lparr>lp_activation_plan_digest = activation, lp_sigils = s, lp_steps = steps,
      lp_digest = digest_of hash expansion_ctx (join nl (kv ''activation'' activation # map expansion_row steps))\<rparr>)"

lemma step_obligation_known:
  "canonical_sequence s \<Longrightarrow> st \<in> set (steps_of hash s) \<Longrightarrow> step_obligation st \<in> set all_obligations"
  using obligations_of_known set_step_obligations by blast

lemma compile_library_expansion_canonical:
  assumes "canonical_sequence s"
  shows "compile_library_expansion hash s = Inr (expansion_of hash s)"
proof -
  note known = step_obligation_known [OF assms]
  let ?steps = "map (expanded_step hash) (steps_of hash s)"
  let ?grants = "\<lambda>item. lb_grants_authority (binding_for (le_obligation item))"
  have expanded: "rmap (expand_step hash) (steps_of hash s) = Inr ?steps"
    by (rule rmap_total) (simp add: expand_step_def binding_for_known(1) [OF known] expanded_step_def Let_def)
  have "rmap (\<lambda>item. rbind (grants_authority item) (\<lambda>g. Inr (item, g))) ?steps
      = Inr (map (\<lambda>item. (item, ?grants item)) ?steps)"
    by (rule rmap_total)
      (auto simp: grants_authority_def expanded_step_def Let_def binding_for_known(1) [OF known])
  moreover have "\<not> list_ex (\<lambda>item. le_obligation item \<noteq> ''derive-least-authority'')
      (map fst (filter snd (map (\<lambda>item. (item, ?grants item)) ?steps)))"
    using binding_for_known(3) [OF known] by (auto simp: list_ex_iff expanded_step_def Let_def)
  ultimately show ?thesis
    using expanded assms
    by (simp add: compile_library_expansion_def compile_activation_plan_canonical expansion_of_def
        activation_plan_of_def composed_plan_of_def universe_plan_of_def Let_def)
qed

lemma compile_library_expansion_eq_Inr:
  "compile_library_expansion hash s = Inr plan \<longleftrightarrow> canonical_sequence s \<and> plan = expansion_of hash s"
proof
  assume a: "compile_library_expansion hash s = Inr plan"
  then have "canonical_sequence s"
    by (auto simp: compile_library_expansion_def rbind_eq_Inr compile_activation_plan_eq_Inr)
  with a show "canonical_sequence s \<and> plan = expansion_of hash s"
    by (simp add: compile_library_expansion_canonical)
qed (simp add: compile_library_expansion_canonical)

lemma expansion_of_obligations:
  "map le_obligation (lp_steps (expansion_of hash s)) = map step_obligation (steps_of hash s)"
  "map le_activation_step_id (lp_steps (expansion_of hash s)) = map step_id (steps_of hash s)"
  by (simp_all add: expansion_of_def Let_def expanded_step_def)

section \<open>What a sealed envelope contains\<close>

definition fits :: "(string \<Rightarrow> string) \<Rightarrow> library_expansion_step \<Rightarrow> library_proof_receipt \<Rightarrow> bool" where
  "fits hash step r \<longleftrightarrow> pr_activation_step_id r = le_activation_step_id step
     \<and> pr_obligation r = le_obligation step \<and> pr_subsystem r = le_subsystem step
     \<and> pr_proof_kind r = le_proof_kind step
     \<and> pr_digest r = receipt_digest hash (pr_activation_step_id r) (pr_obligation r) (pr_subsystem r)
         (pr_proof_kind r) (pr_evidence_digest r) (pr_success r)"

lemma index_receipts_eq_Inr:
  "index_receipts m rs = Inr m' \<longleftrightarrow>
     distinct (map pr_activation_step_id rs) \<and> (\<forall>r \<in> set rs. m (pr_activation_step_id r) = None)
     \<and> m' = m ++ map_of (map (\<lambda>r. (pr_activation_step_id r, r)) rs)"
proof (induction rs arbitrary: m)
  case (Cons r rs)
  let ?M = "map_of (map (\<lambda>r. (pr_activation_step_id r, r)) rs)"
  show ?case
  proof (cases "m (pr_activation_step_id r)")
    case None
    then have step: "index_receipts m (r # rs) = index_receipts (m(pr_activation_step_id r \<mapsto> r)) rs"
      by simp
    show ?thesis
    proof (cases "pr_activation_step_id r \<in> pr_activation_step_id ` set rs")
      case True
      then show ?thesis unfolding step Cons.IH by auto
    next
      case False
      then have M: "m(pr_activation_step_id r \<mapsto> r) ++ ?M = m ++ ?M(pr_activation_step_id r \<mapsto> r)"
        by (subst map_add_upd_left) (auto simp: dom_map_of_conv_image_fst image_image)
      have "(m(pr_activation_step_id r \<mapsto> r)) (pr_activation_step_id q) = m (pr_activation_step_id q)"
        if "q \<in> set rs" for q using False that by (auto simp: image_iff)
      with None False show ?thesis unfolding step Cons.IH M
        by (auto simp: fun_eq_iff map_add_def split: option.splits)
    qed
  qed auto
qed auto

lemma receipt_lookup:
  assumes "distinct (map pr_activation_step_id rs)"
  shows "map_of (map (\<lambda>r. (pr_activation_step_id r, r)) rs) i = Some r
    \<longleftrightarrow> r \<in> set rs \<and> pr_activation_step_id r = i"
proof -
  have "distinct (map fst (map (\<lambda>r. (pr_activation_step_id r, r)) rs))"
    using assms by (simp add: comp_def)
  from map_of_eq_Some_iff [OF this] show ?thesis by auto
qed

lemma list_all2_member:
  "list_all2 (\<lambda>x y. y \<in> S \<and> P x y) xs ys \<longleftrightarrow> list_all2 P xs ys \<and> set ys \<subseteq> S"
  by (induction xs arbitrary: ys) (auto simp: list_all2_Cons1)

lemma match_receipt_eq_Inr:
  "match_receipt hash m step = Inr r \<longleftrightarrow> m (le_activation_step_id step) = Some r
     \<and> pr_obligation r = le_obligation step \<and> pr_subsystem r = le_subsystem step
     \<and> pr_proof_kind r = le_proof_kind step
     \<and> pr_digest r = receipt_digest hash (pr_activation_step_id r) (pr_obligation r) (pr_subsystem r)
         (pr_proof_kind r) (pr_evidence_digest r) (pr_success r)"
  by (auto simp: match_receipt_def split: option.splits)

definition envelope_over ::
  "(string \<Rightarrow> string) \<Rightarrow> library_expansion_plan \<Rightarrow> library_proof_receipt list \<Rightarrow> library_proof_envelope" where
  "envelope_over hash plan ordered =
     (let decision = (if list_all pr_success ordered then ''ALLOW'' else ''DENY'')
      in \<lparr>pe_expansion_plan_digest = lp_digest plan,
          pe_activation_plan_digest = lp_activation_plan_digest plan, pe_receipts = ordered,
          pe_decision = decision, pe_digest = envelope_digest hash plan ordered decision\<rparr>)"

lemma seal_envelope_eq_Inr:
  "seal_library_proof_envelope hash plan rs = Inr env \<longleftrightarrow>
     (\<exists>ordered. distinct (map pr_activation_step_id rs) \<and> set ordered = set rs
        \<and> list_all2 (fits hash) (lp_steps plan) ordered \<and> env = envelope_over hash plan ordered)"
  (is "?lhs \<longleftrightarrow> ?rhs")
proof (cases "distinct (map pr_activation_step_id rs)")
  case True
  let ?m = "map_of (map (\<lambda>r. (pr_activation_step_id r, r)) rs)"
  have index: "index_receipts Map.empty rs = Inr ?m" using True by (simp add: index_receipts_eq_Inr)
  have match: "match_receipt hash ?m step = Inr r \<longleftrightarrow> r \<in> set rs \<and> fits hash step r" for step r
    by (auto simp: match_receipt_eq_Inr receipt_lookup [OF True] fits_def)
  have ordered: "rmap (match_receipt hash ?m) (lp_steps plan) = Inr ordered \<longleftrightarrow>
      list_all2 (fits hash) (lp_steps plan) ordered \<and> set ordered \<subseteq> set rs" for ordered
    by (simp add: rmap_eq_Inr match list_all2_member)
  have extras: "\<not> list_ex (\<lambda>r. pr_activation_step_id r \<notin> le_activation_step_id ` set (lp_steps plan)) rs
      \<longleftrightarrow> set rs \<subseteq> set ordered"
    if "list_all2 (fits hash) (lp_steps plan) ordered" "set ordered \<subseteq> set rs" for ordered
  proof -
    have ids: "map pr_activation_step_id ordered = map le_activation_step_id (lp_steps plan)"
      using that(1) by (auto simp: list_all2_conv_all_nth fits_def list_eq_iff_nth_eq)
    have "pr_activation_step_id r \<in> pr_activation_step_id ` set ordered \<longleftrightarrow> r \<in> set ordered"
      if "r \<in> set rs" for r
      using True that \<open>set ordered \<subseteq> set rs\<close> by (auto simp: distinct_map dest: inj_onD)
    moreover have "pr_activation_step_id ` set ordered = le_activation_step_id ` set (lp_steps plan)"
      using ids by (metis list.set_map)
    ultimately show ?thesis by (auto simp: list_ex_iff)
  qed
  show ?thesis
    by (simp add: seal_library_proof_envelope_def index rbind_eq_Inr ordered True if_Inl_eq_Inr
        envelope_over_def Let_def) (use extras in blast)
next
  case False
  then show ?thesis by (auto simp: seal_library_proof_envelope_def rbind_eq_Inr index_receipts_eq_Inr)
qed

lemma fits_ids:
  "list_all2 (fits hash) steps ordered \<Longrightarrow>
     map pr_activation_step_id ordered = map le_activation_step_id steps
     \<and> map pr_obligation ordered = map le_obligation steps"
  by (induction rule: list_all2_induct) (auto simp: fits_def)

text \<open>
  Receipts of distinct obligations cannot share a step identifier: identifiers that coincide
  (they are truncated hashes) make sealing fail instead of letting one receipt serve twice.
\<close>

lemma fits_distinct:
  assumes "list_all2 (fits hash) steps ordered" and "distinct (map le_obligation steps)"
    and "distinct (map pr_activation_step_id rs)" and "set ordered = set rs"
  shows "distinct (map pr_activation_step_id ordered)"
proof -
  from fits_ids [OF assms(1)] assms(2) have "distinct (map pr_obligation ordered)" by simp
  then have "distinct ordered" by (rule distinct_map [THEN iffD1, THEN conjunct1])
  moreover have "inj_on pr_activation_step_id (set ordered)"
    using assms(3,4) by (simp add: distinct_map)
  ultimately show ?thesis by (simp add: distinct_map)
qed

lemma require_envelope_eq:
  "require_library_proof_envelope hash plan env = Inr () \<longleftrightarrow>
     (\<exists>ordered. distinct (map pr_activation_step_id (pe_receipts env))
        \<and> set ordered = set (pe_receipts env) \<and> list_all2 (fits hash) (lp_steps plan) ordered
        \<and> env = (envelope_over hash plan ordered)\<lparr>pe_receipts := pe_receipts env\<rparr>)"
proof -
  have over: "pe_expansion_plan_digest env = lp_digest plan
      \<and> pe_activation_plan_digest env = lp_activation_plan_digest plan
      \<and> pe_decision (envelope_over hash plan ordered) = pe_decision env
      \<and> pe_digest (envelope_over hash plan ordered) = pe_digest env \<longleftrightarrow>
      env = (envelope_over hash plan ordered)\<lparr>pe_receipts := pe_receipts env\<rparr>" for ordered
    by (cases env) (auto simp: envelope_over_def Let_def)
  have "require_library_proof_envelope hash plan env = Inr () \<longleftrightarrow>
      (\<exists>sealed. seal_library_proof_envelope hash plan (pe_receipts env) = Inr sealed
        \<and> pe_expansion_plan_digest env = lp_digest plan
        \<and> pe_activation_plan_digest env = lp_activation_plan_digest plan
        \<and> pe_decision sealed = pe_decision env \<and> pe_digest sealed = pe_digest env)"
    by (auto simp: require_library_proof_envelope_def rbind_eq_Inr)
  then show ?thesis unfolding seal_envelope_eq_Inr using over by metis
qed

lemma envelope_round_trip:
  assumes "distinct (map le_obligation (lp_steps plan))"
    and "seal_library_proof_envelope hash plan rs = Inr env"
  shows "require_library_proof_envelope hash plan env = Inr ()"
proof -
  from assms(2) obtain ordered where o: "list_all2 (fits hash) (lp_steps plan) ordered"
    "env = envelope_over hash plan ordered" "distinct (map pr_activation_step_id rs)" "set ordered = set rs"
    by (auto simp: seal_envelope_eq_Inr)
  from fits_distinct [OF o(1) assms(1) o(3,4)] o(1,2) show ?thesis
    unfolding require_envelope_eq by (intro exI [of _ ordered]) (simp add: envelope_over_def Let_def)
qed

section \<open>The plan of a MIR\<close>

definition library_plan_of :: "(string \<Rightarrow> string) \<Rightarrow> native_sigil_mir \<Rightarrow> native_sigil_library_plan" where
  "library_plan_of hash mir = (let library = expansion_of hash (map mb_sigil (mir_bindings mir)) in
     \<lparr>nl_native_mir_fingerprint = mir_fingerprint mir,
      nl_universe_plan_digest = mir_universe_plan_digest mir, nl_library_plan = library,
      nl_digest = bridge_digest hash (mir_fingerprint mir) (mir_universe_plan_digest mir) (lp_digest library)\<rparr>)"

definition genuine_mir :: "(string \<Rightarrow> string) \<Rightarrow> native_sigil_mir \<Rightarrow> bool" where
  "genuine_mir hash mir \<longleftrightarrow> mir_assert_sealed hash mir = Inr ()
     \<and> canonical_sequence (map mb_sigil (mir_bindings mir))
     \<and> mir_universe_plan_digest mir = plan_digest (universe_plan_of hash (map mb_sigil (mir_bindings mir)))"

lemma plan_of_sealed [simp]: "plan_assert_sealed hash (library_plan_of hash mir) = Inr ()"
  by (simp add: plan_assert_sealed_def library_plan_of_def Let_def)

lemma expand_native_sigil_mir_eq_Inr:
  "expand_native_sigil_mir hash mir = Inr plan \<longleftrightarrow> genuine_mir hash mir \<and> plan = library_plan_of hash mir"
proof -
  have "lp_sigils (expansion_of hash s) = s" for s by (simp add: expansion_of_def Let_def)
  then show ?thesis
    by (auto simp: expand_native_sigil_mir_def rbind_eq_Inr Let_def compile_universe_plan_eq_Inr
        compile_library_expansion_eq_Inr genuine_mir_def library_plan_of_def plan_assert_sealed_def)
qed

lemma mir_of_genuine: "wf_sigil_program ds \<Longrightarrow> genuine_mir hash (mir_of hash ds)"
  using mir_of_sealed [of ds hash]
  by (auto simp: genuine_mir_def wf_sigil_program_def canonical_sequence_def mir_of_def binding_of_def
      Let_def comp_def)

lemma plan_obligations_distinct:
  "distinct (map le_obligation (lp_steps (nl_library_plan (library_plan_of hash mir))))"
  by (simp add: library_plan_of_def Let_def expansion_of_obligations distinct_step_obligations)

definition bundle_over :: "(string \<Rightarrow> string) \<Rightarrow> native_sigil_mir \<Rightarrow> library_proof_envelope \<Rightarrow> native_sigil_proof_bundle" where
  "bundle_over hash mir pfe = (let plan = library_plan_of hash mir in
     \<lparr>pb_native_mir_fingerprint = mir_fingerprint mir,
      pb_universe_plan_digest = mir_universe_plan_digest mir,
      pb_native_library_plan_digest = nl_digest plan, pb_library_proof = pfe, pb_decision = pe_decision pfe,
      pb_digest = bundle_digest hash (mir_fingerprint mir) (mir_universe_plan_digest mir) (nl_digest plan)
        (pe_digest pfe) (pe_decision pfe), pb_version = 1\<rparr>)"

lemma bundle_assert_sealed_eq:
  "bundle_assert_sealed hash b (library_plan_of hash mir) = Inr () \<longleftrightarrow>
     require_library_proof_envelope hash (nl_library_plan (library_plan_of hash mir)) (pb_library_proof b) = Inr ()
     \<and> b = (bundle_over hash mir (pb_library_proof b))\<lparr>pb_version := pb_version b\<rparr>"
  by (cases b) (auto simp: bundle_assert_sealed_def bundle_over_def Let_def library_plan_of_def rbind_eq_Inr)

lemma seal_native_sigil_proof_eq_Inr:
  "seal_native_sigil_proof hash mir rs = Inr b \<longleftrightarrow> genuine_mir hash mir
     \<and> (\<exists>pfe. seal_library_proof_envelope hash (nl_library_plan (library_plan_of hash mir)) rs = Inr pfe
          \<and> b = bundle_over hash mir pfe)"
proof (cases "genuine_mir hash mir")
  case True
  then have sealed: "mir_assert_sealed hash mir = Inr ()" by (simp add: genuine_mir_def)
  have exp: "expand_native_sigil_mir hash mir = Inr (library_plan_of hash mir)"
    by (simp add: expand_native_sigil_mir_eq_Inr True)
  let ?lp = "nl_library_plan (library_plan_of hash mir)"
  have ok: "require_library_proof_envelope hash ?lp pfe = Inr ()"
    if "seal_library_proof_envelope hash ?lp rs = Inr pfe" for pfe
    using envelope_round_trip [OF plan_obligations_distinct that] .
  then have "bundle_assert_sealed hash (bundle_over hash mir pfe) (library_plan_of hash mir) = Inr ()"
    if "seal_library_proof_envelope hash ?lp rs = Inr pfe" for pfe
    using that by (simp add: bundle_assert_sealed_eq) (simp add: bundle_over_def Let_def)
  with ok True show ?thesis
    by (auto simp: seal_native_sigil_proof_def sealed exp rbind_eq_Inr bundle_over_def Let_def)
next
  case False
  then show ?thesis
    by (auto simp: seal_native_sigil_proof_def rbind_eq_Inr expand_native_sigil_mir_eq_Inr)
qed

lemma require_native_sigil_proof_eq_Inr:
  "require_native_sigil_proof hash mir b = Inr plan \<longleftrightarrow> genuine_mir hash mir
     \<and> plan = library_plan_of hash mir
     \<and> require_library_proof_envelope hash (nl_library_plan plan) (pb_library_proof b) = Inr ()
     \<and> b = (bundle_over hash mir (pb_library_proof b))\<lparr>pb_version := pb_version b\<rparr>"
  by (auto simp: require_native_sigil_proof_def rbind_eq_Inr expand_native_sigil_mir_eq_Inr
      bundle_assert_sealed_eq) (auto simp: genuine_mir_def bundle_assert_sealed_eq)

section \<open>Properties\<close>

text \<open>
  The Library expands exactly the canonical sigil sequences. The expansion has one step for each
  step of the activation schedule, in the same order, with the same identifiers and dependencies, and
  the only step whose binding grants authority is \<open>derive-least-authority\<close>.
\<close>

theorem library_expansion_faithful:
  "(is_ok (compile_library_expansion hash s) \<longleftrightarrow> canonical_sequence s)
   \<and> (canonical_sequence s \<longrightarrow> (\<exists>activation plan.
        compile_activation_plan hash s = Inr activation \<and> compile_library_expansion hash s = Inr plan
      \<and> map (\<lambda>st. (le_activation_step_id st, le_phase st, le_obligation st, le_requires st)) (lp_steps plan)
        = map (\<lambda>st. (step_id st, step_phase st, step_obligation st, step_requires st)) (act_steps activation)
      \<and> filter (\<lambda>st. grants_authority st \<noteq> Inr False) (lp_steps plan)
        = filter (\<lambda>st. le_obligation st = ''derive-least-authority'') (lp_steps plan)))"
proof -
  have "grants_authority st \<noteq> Inr False \<longleftrightarrow> le_obligation st = ''derive-least-authority''"
    if "canonical_sequence s" "st \<in> set (lp_steps (expansion_of hash s))" for st
  proof -
    from that(2) have "le_obligation st \<in> step_obligation ` set (steps_of hash s)"
      using expansion_of_obligations(1) [of hash s] by (metis image_eqI list.set_map)
    then have "le_obligation st \<in> set all_obligations"
      using step_obligation_known [OF that(1), where hash = hash] by auto
    note k = binding_for_known [OF this]
    have "lb_grants_authority (binding_for ''derive-least-authority'')"
      by (simp add: binding_for_def LIBRARY_BINDINGS_def)
    with k(3) have "lb_grants_authority (binding_for (le_obligation st))
        \<longleftrightarrow> le_obligation st = ''derive-least-authority''" by metis
    then show ?thesis by (simp add: grants_authority_def k(1))
  qed
  then have "canonical_sequence s \<Longrightarrow> filter (\<lambda>st. grants_authority st \<noteq> Inr False) (lp_steps (expansion_of hash s))
      = filter (\<lambda>st. le_obligation st = ''derive-least-authority'') (lp_steps (expansion_of hash s))"
    by (intro filter_cong) auto
  moreover have "map (\<lambda>st. (le_activation_step_id st, le_phase st, le_obligation st, le_requires st))
        (lp_steps (expansion_of hash s))
      = map (\<lambda>st. (step_id st, step_phase st, step_obligation st, step_requires st)) (steps_of hash s)"
    by (simp add: expansion_of_def expanded_step_def Let_def)
  ultimately have "canonical_sequence s \<Longrightarrow> \<exists>activation plan.
        compile_activation_plan hash s = Inr activation \<and> compile_library_expansion hash s = Inr plan
      \<and> map (\<lambda>st. (le_activation_step_id st, le_phase st, le_obligation st, le_requires st)) (lp_steps plan)
        = map (\<lambda>st. (step_id st, step_phase st, step_obligation st, step_requires st)) (act_steps activation)
      \<and> filter (\<lambda>st. grants_authority st \<noteq> Inr False) (lp_steps plan)
        = filter (\<lambda>st. le_obligation st = ''derive-least-authority'') (lp_steps plan)"
    by (intro exI [of _ "activation_plan_of hash s"] exI [of _ "expansion_of hash s"])
      (simp add: compile_library_expansion_eq_Inr compile_activation_plan_eq_Inr activation_plan_of_def)
  moreover have "is_ok (compile_library_expansion hash s) \<longleftrightarrow> canonical_sequence s"
    by (simp add: is_ok_iff compile_library_expansion_eq_Inr)
  ultimately show ?thesis by blast
qed

theorem library_expansion_faithful_witness:
  "\<exists>plan. compile_library_expansion tail_hash [''ka'', ''vor''] = Inr plan"
  using library_expansion_faithful [of tail_hash "[''ka'', ''vor'']"] canonical_ka_vor by blast

text \<open>
  Whatever passes verification says what its evidence says. When the bundle of a MIR is
  accepted, its sigils are canonical, each obligation they entail has exactly one receipt in
  the envelope, made for the subsystem and proof kind that the Library binds to it, there is no other
  receipt, and the decision is \<open>ALLOW\<close> exactly when all those receipts report success.
\<close>

theorem accepted_proof_covers_obligations:
  assumes "require_native_sigil_proof hash mir bundle = Inr plan"
  shows "canonical_sequence (map mb_sigil (mir_bindings mir))
    \<and> (\<forall>ob \<in> set (obligations_of (map mb_sigil (mir_bindings mir))).
         \<exists>!r. r \<in> set (pe_receipts (pb_library_proof bundle)) \<and> pr_obligation r = ob)
    \<and> (\<forall>r \<in> set (pe_receipts (pb_library_proof bundle)).
         pr_obligation r \<in> set (obligations_of (map mb_sigil (mir_bindings mir)))
         \<and> pr_subsystem r = lb_subsystem (binding_for (pr_obligation r))
         \<and> pr_proof_kind r = lb_proof_kind (binding_for (pr_obligation r)))
    \<and> pb_decision bundle =
        (if \<forall>r \<in> set (pe_receipts (pb_library_proof bundle)). pr_success r then ''ALLOW'' else ''DENY'')"
proof -
  let ?s = "map mb_sigil (mir_bindings mir)" and ?rs = "pe_receipts (pb_library_proof bundle)"
  from assms have g: "genuine_mir hash mir" and plan: "plan = library_plan_of hash mir"
    and req: "require_library_proof_envelope hash (nl_library_plan plan) (pb_library_proof bundle) = Inr ()"
    and b: "bundle = (bundle_over hash mir (pb_library_proof bundle))\<lparr>pb_version := pb_version bundle\<rparr>"
    unfolding require_native_sigil_proof_eq_Inr by blast+
  from b have dec: "pb_decision bundle = pe_decision (pb_library_proof bundle)"
    by (metis (no_types, lifting) bundle_over_def native_sigil_proof_bundle.select_convs(5)
        native_sigil_proof_bundle.surjective native_sigil_proof_bundle.update_convs(7))
  have steps: "lp_steps (nl_library_plan plan) = map (expanded_step hash) (steps_of hash ?s)"
    by (simp add: plan library_plan_of_def expansion_of_def Let_def)
  from req obtain ordered where set: "set ordered = set ?rs"
    and fit: "list_all2 (fits hash) (map (expanded_step hash) (steps_of hash ?s)) ordered"
    and env: "pb_library_proof bundle
      = (envelope_over hash (nl_library_plan plan) ordered)\<lparr>pe_receipts := ?rs\<rparr>"
    unfolding require_envelope_eq steps by blast
  have "pe_decision (pb_library_proof bundle) = (if list_all pr_success ordered then ''ALLOW'' else ''DENY'')"
    by (subst env) (simp add: envelope_over_def Let_def)
  then have decision: "pb_decision bundle = (if \<forall>r \<in> set ?rs. pr_success r then ''ALLOW'' else ''DENY'')"
    by (simp add: dec list_all_iff set)
  have obs: "map pr_obligation ordered = map step_obligation (steps_of hash ?s)"
    using fits_ids [OF fit] by (simp add: expanded_step_def Let_def comp_def)
  then have inj: "inj_on pr_obligation (set ?rs)"
    using distinct_step_obligations [of hash ?s] set by (metis distinct_map)
  have img: "pr_obligation ` set ?rs = set (obligations_of ?s)"
    using obs set_step_obligations [of hash ?s] set by (metis list.set_map)
  have sub: "pr_subsystem r = lb_subsystem (binding_for (pr_obligation r))
      \<and> pr_proof_kind r = lb_proof_kind (binding_for (pr_obligation r))" if "r \<in> set ?rs" for r
    using that fit unfolding set [symmetric]
    by (auto simp: list_all2_conv_all_nth in_set_conv_nth fits_def expanded_step_def Let_def)
  have one: "\<exists>!r. r \<in> set ?rs \<and> pr_obligation r = ob" if "ob \<in> set (obligations_of ?s)" for ob
  proof -
    from that have "ob \<in> pr_obligation ` set ?rs" by (simp only: img)
    then obtain r where r: "r \<in> set ?rs" "pr_obligation r = ob" by (elim imageE) simp
    with inj_onD [OF inj] show ?thesis by (intro ex1I [of _ r]) simp_all
  qed
  have mem: "pr_obligation r \<in> set (obligations_of ?s)" if "r \<in> set ?rs" for r
    using that img by blast
  have "canonical_sequence ?s" using g by (simp add: genuine_mir_def)
  then show ?thesis
    by (intro conjI ballI decision) (assumption | erule one mem | rule sub [THEN conjunct1] sub [THEN conjunct2])+
qed

text \<open>One receipt per step of the plan of a program, with the given evidence and outcome.\<close>

definition receipts_for ::
  "(string \<Rightarrow> string) \<Rightarrow> native_sigil_mir \<Rightarrow> (string \<Rightarrow> string) \<Rightarrow> (string \<Rightarrow> bool) \<Rightarrow> library_proof_receipt list result" where
  "receipts_for hash mir evidence outcome =
     rmap (\<lambda>st. make_receipt hash (le_activation_step_id st) (le_obligation st) (le_subsystem st)
              (le_proof_kind st) (evidence (le_obligation st)) (outcome (le_obligation st)))
       (lp_steps (nl_library_plan (library_plan_of hash mir)))"

lemma receipts_for_fit:
  assumes "receipts_for hash mir evidence outcome = Inr rs"
  shows "list_all2 (fits hash) (lp_steps (nl_library_plan (library_plan_of hash mir))) rs"
    and "\<forall>r \<in> set rs. pr_success r = outcome (pr_obligation r)"
proof -
  let ?steps = "lp_steps (nl_library_plan (library_plan_of hash mir))"
  have each: "list_all2 (\<lambda>st r. make_receipt hash (le_activation_step_id st) (le_obligation st) (le_subsystem st)
              (le_proof_kind st) (evidence (le_obligation st)) (outcome (le_obligation st)) = Inr r) ?steps rs"
    using assms by (simp add: receipts_for_def rmap_eq_Inr)
  show "list_all2 (fits hash) ?steps rs"
    by (rule list_all2_mono [OF each]) (auto simp: make_receipt_def fits_def split: if_splits)
  have "list_all2 (\<lambda>st r. pr_success r = outcome (pr_obligation r)) ?steps rs"
    by (rule list_all2_mono [OF each]) (auto simp: make_receipt_def split: if_splits)
  then show "\<forall>r \<in> set rs. pr_success r = outcome (pr_obligation r)"
    by (induction rule: list_all2_induct) auto
qed

text \<open>
  The pipeline completes for every accepted program: lower it, produce a receipt with evidence
  for every step of its Library plan (each succeeding or failing), and supply the receipts in any order;
  then sealing succeeds and the sealed bundle verifies against the MIR, with decision \<open>ALLOW\<close>
  exactly when every obligation succeeded. The step identifiers, which are truncated hashes, are
  assumed not to coincide.
\<close>

theorem proof_pipeline_complete:
  assumes "lower_native_sigils hash program report = Inr mir"
    and "distinct (map step_id (steps_of hash (map sd_sigil (np_sigils program))))"
    and "receipts_for hash mir evidence outcome = Inr rs"
    and "set supplied = set rs" and "length supplied = length rs"
  shows "\<exists>bundle. seal_native_sigil_proof hash mir supplied = Inr bundle
    \<and> is_ok (require_native_sigil_proof hash mir bundle)
    \<and> pb_decision bundle = (if \<forall>ob \<in> set (obligations_of (map sd_sigil (np_sigils program))). outcome ob
                             then ''ALLOW'' else ''DENY'')"
proof -
  let ?s = "map sd_sigil (np_sigils program)" and ?plan = "nl_library_plan (library_plan_of hash mir)"
  from assms(1) have wf: "wf_sigil_program (np_sigils program)" and mir: "mir = mir_of hash (np_sigils program)"
    by (simp_all add: lowering_characterised)
  have sigils: "map mb_sigil (mir_bindings mir) = ?s"
    by (simp add: mir mir_of_def Let_def binding_of_def comp_def)
  have steps: "lp_steps ?plan = map (expanded_step hash) (steps_of hash ?s)"
    by (simp add: library_plan_of_def expansion_of_def Let_def sigils)
  note fit = receipts_for_fit [OF assms(3)]
  from fits_ids [OF fit(1)] have ids: "map pr_activation_step_id rs = map step_id (steps_of hash ?s)"
    and obs: "map pr_obligation rs = map step_obligation (steps_of hash ?s)"
    by (simp_all add: steps comp_def expanded_step_def Let_def)
  from ids assms(2) have d: "distinct (map pr_activation_step_id rs)" by simp
  have "card (set supplied) = length supplied"
    using assms(4,5) d by (simp add: distinct_card distinct_map)
  then have "distinct supplied" by (rule card_distinct)
  with d assms(4) have "distinct (map pr_activation_step_id supplied)" by (simp add: distinct_map)
  with fit(1) assms(4) have seal: "seal_library_proof_envelope hash ?plan supplied = Inr (envelope_over hash ?plan rs)"
    by (auto simp: seal_envelope_eq_Inr)
  let ?b = "bundle_over hash mir (envelope_over hash ?plan rs)"
  have g: "genuine_mir hash mir" unfolding mir by (rule mir_of_genuine [OF wf])
  with seal have b: "seal_native_sigil_proof hash mir supplied = Inr ?b"
    by (simp add: seal_native_sigil_proof_eq_Inr)
  have "require_native_sigil_proof hash mir ?b = Inr (library_plan_of hash mir)"
    using g envelope_round_trip [OF plan_obligations_distinct seal]
    by (simp add: require_native_sigil_proof_eq_Inr) (simp add: bundle_over_def Let_def)
  moreover have img: "set (obligations_of ?s) = pr_obligation ` set rs"
    using obs set_step_obligations [of hash ?s] by (metis list.set_map)
  have "list_all pr_success rs \<longleftrightarrow> (\<forall>ob \<in> set (obligations_of ?s). outcome ob)"
    unfolding img using fit(2) by (simp add: list_all_iff)
  then have "pb_decision ?b = (if \<forall>ob \<in> set (obligations_of ?s). outcome ob then ''ALLOW'' else ''DENY'')"
    by (simp add: bundle_over_def envelope_over_def Let_def)
  ultimately show ?thesis using b by auto
qed

section \<open>A concrete program\<close>

definition door_program :: native_program where
  "door_program = \<lparr>np_sigils = [decl_at ''ka'' ''door'' 1, decl_at ''vor'' ''door'' 2]\<rparr>"

definition door_mir :: native_sigil_mir where
  "door_mir = mir_of tail_hash (np_sigils door_program)"

definition door_receipts :: "library_proof_receipt list" where
  "door_receipts = map (\<lambda>st. \<lparr>pr_activation_step_id = le_activation_step_id st, pr_obligation = le_obligation st,
       pr_subsystem = le_subsystem st, pr_proof_kind = le_proof_kind st, pr_evidence_digest = ''e'',
       pr_success = True, pr_digest = receipt_digest tail_hash (le_activation_step_id st) (le_obligation st)
         (le_subsystem st) (le_proof_kind st) ''e'' True\<rparr>)
     (lp_steps (nl_library_plan (library_plan_of tail_hash door_mir)))"

lemma door_lowered: "lower_native_sigils tail_hash door_program None = Inr door_mir"
  using canonical_ka_vor
  by (simp add: lowering_characterised door_mir_def door_program_def wf_sigil_program_def decl_at_def)

lemma door_ids: "distinct (map step_id (steps_of tail_hash (map sd_sigil (np_sigils door_program))))"
  by code_simp

lemma door_receipts_made: "receipts_for tail_hash door_mir (\<lambda>_. ''e'') (\<lambda>_. True) = Inr door_receipts"
  unfolding receipts_for_def door_receipts_def by (rule rmap_total) (simp add: make_receipt_def)

theorem proof_pipeline_complete_witness:
  "\<exists>bundle. seal_native_sigil_proof tail_hash door_mir door_receipts = Inr bundle
     \<and> is_ok (require_native_sigil_proof tail_hash door_mir bundle) \<and> pb_decision bundle = ''ALLOW''"
  using proof_pipeline_complete [OF door_lowered door_ids door_receipts_made refl refl] by simp

lemma door_bundle:
  obtains pb plan where "seal_native_sigil_proof tail_hash door_mir door_receipts = Inr pb"
    and "require_native_sigil_proof tail_hash door_mir pb = Inr plan"
proof -
  have fit: "list_all2 (fits tail_hash) (lp_steps (nl_library_plan (library_plan_of tail_hash door_mir))) door_receipts"
    by (rule receipts_for_fit(1) [OF door_receipts_made])
  have g: "genuine_mir tail_hash door_mir"
    unfolding door_mir_def by (rule mir_of_genuine) (use door_lowered in \<open>simp add: lowering_characterised\<close>)
  have "map mb_sigil (mir_bindings door_mir) = map sd_sigil (np_sigils door_program)"
    by (simp add: door_mir_def mir_of_def Let_def binding_of_def comp_def)
  with fits_ids [OF fit] door_ids have "distinct (map pr_activation_step_id door_receipts)"
    by (simp add: library_plan_of_def Let_def expansion_of_obligations)
  with fit have seal: "seal_library_proof_envelope tail_hash (nl_library_plan (library_plan_of tail_hash door_mir)) door_receipts
      = Inr (envelope_over tail_hash (nl_library_plan (library_plan_of tail_hash door_mir)) door_receipts)"
    by (auto simp: seal_envelope_eq_Inr)
  then have b: "seal_native_sigil_proof tail_hash door_mir door_receipts = Inr (bundle_over tail_hash door_mir
      (envelope_over tail_hash (nl_library_plan (library_plan_of tail_hash door_mir)) door_receipts))" (is "_ = Inr ?b")
    using g by (simp add: seal_native_sigil_proof_eq_Inr)
  have "require_native_sigil_proof tail_hash door_mir ?b = Inr (library_plan_of tail_hash door_mir)"
    using g envelope_round_trip [OF plan_obligations_distinct seal]
    by (simp add: require_native_sigil_proof_eq_Inr) (simp add: bundle_over_def Let_def)
  with b show ?thesis by (rule that)
qed

theorem accepted_proof_covers_obligations_witness:
  "\<exists>bundle plan. require_native_sigil_proof tail_hash door_mir bundle = Inr plan
     \<and> (\<forall>ob \<in> set (obligations_of [''ka'', ''vor'']). \<exists>!r. r \<in> set (pe_receipts (pb_library_proof bundle)) \<and> pr_obligation r = ob)"
proof -
  obtain pb plan where b: "require_native_sigil_proof tail_hash door_mir pb = Inr plan"
    by (rule door_bundle)
  have "map mb_sigil (mir_bindings door_mir) = [''ka'', ''vor'']"
    by (simp add: door_mir_def mir_of_def Let_def binding_of_def door_program_def decl_at_def)
  with accepted_proof_covers_obligations [OF b] b show ?thesis by auto
qed

end
