(* ===== verification/Enforcement.thy ===== *)
theory Enforcement
  imports Library_Proof Sqlite
begin

text \<open>
  The runtime boundary: the enforcement gate
  (\<open>koschei/native_sigil_enforcement_gate_v1.py\<close>) and the binding of a proof to one canonical
  effect request (\<open>koschei/native_sigil_request_binding_v1.py\<close>). The privileged callback is
  the caller's code: it is a parameter, a statement over the state \<open>'w\<close> of the outside world.
\<close>

section \<open>The enforcement gate\<close>

definition CONTAINMENT_OBLIGATIONS :: "string set" where
  "CONTAINMENT_OBLIGATIONS =
    {''derive-minimum-safe-containment'', ''fence-stale-writers'', ''commit-or-abort-recovery'',
     ''prove-exactly-once-effect-lineage'', ''bind-recovery-commit-to-attested-effect'',
     ''abort-on-evidence-conflict'', ''prove-recovery-authority-is-non-escalating'',
     ''seal-whole-universe-conservation-proof''}"

record effect_intent =
  ei_effect_id :: string
  ei_subject :: string
  ei_operation :: string
  ei_request_digest :: string

definition mk_PrivilegedEffectIntent :: "string \<Rightarrow> string \<Rightarrow> string \<Rightarrow> string \<Rightarrow> effect_intent result" where
  "mk_PrivilegedEffectIntent effect_id subject operation request_digest =
     (if effect_id = [] then raise NativeSigilEnforcementError ''effect intent requires effect_id''
      else if subject = [] then raise NativeSigilEnforcementError ''effect intent requires subject''
      else if operation = [] then raise NativeSigilEnforcementError ''effect intent requires operation''
      else if request_digest = [] then
        raise NativeSigilEnforcementError ''effect intent requires request digest''
      else Inr \<lparr>ei_effect_id = effect_id, ei_subject = subject, ei_operation = operation,
                ei_request_digest = request_digest\<rparr>)"

record enforcement_decision =
  ed_decision :: string
  ed_effect_id :: string
  ed_native_mir_fingerprint :: string
  ed_proof_digest :: string
  ed_failed_obligations :: "string list"
  ed_digest :: string

definition gate_ctx :: string where
  "gate_ctx = ''koschei.native-sigil-enforcement-gate/v1'' @ [CHR 0x00]"

definition decision_digest ::
  "(string \<Rightarrow> string) \<Rightarrow> string \<Rightarrow> string \<Rightarrow> string \<Rightarrow> string \<Rightarrow> string list \<Rightarrow> string" where
  "decision_digest hash decision effect_id mir pfe failed =
     digest_of hash gate_ctx (join nl
       [kv ''decision'' decision, kv ''effect'' effect_id, kv ''mir'' mir, kv ''proof'' pfe,
        kv ''failed'' (join '','' failed)])"

definition decision_assert_sealed :: "(string \<Rightarrow> string) \<Rightarrow> enforcement_decision \<Rightarrow> unit result" where
  "decision_assert_sealed hash d =
     (if ed_digest d \<noteq> decision_digest hash (ed_decision d) (ed_effect_id d) (ed_native_mir_fingerprint d)
           (ed_proof_digest d) (ed_failed_obligations d) then
        raise NativeSigilEnforcementError ''enforcement decision seal mismatch''
      else Inr ())"

definition evaluate_enforcement ::
  "(string \<Rightarrow> string) \<Rightarrow> native_sigil_mir \<Rightarrow> native_sigil_proof_bundle \<Rightarrow> effect_intent \<Rightarrow> enforcement_decision result" where
  "evaluate_enforcement hash mir pb intent =
     rbind (require_native_sigil_proof hash mir pb) (\<lambda>plan.
     rbind (plan_assert_sealed hash plan) (\<lambda>_.
     let failed = map pr_obligation (filter (\<lambda>r. \<not> pr_success r) (pe_receipts (pb_library_proof pb))) in
     rbind
       (if pb_decision pb = ''ALLOW'' then
          (if failed \<noteq> [] then
             raise NativeSigilEnforcementError ''ALLOW proof contains failed Library obligations''
           else Inr ''ALLOW'')
        else
          (if failed = [] then
             raise NativeSigilEnforcementError
               ''non-ALLOW proof does not identify a failed Library obligation''
           else Inr (if list_ex (\<lambda>item. item \<in> CONTAINMENT_OBLIGATIONS) failed then ''CONTAIN'' else ''DENY'')))
       (\<lambda>decision.
     let result = \<lparr>ed_decision = decision, ed_effect_id = ei_effect_id intent,
           ed_native_mir_fingerprint = mir_fingerprint mir, ed_proof_digest = pb_digest pb,
           ed_failed_obligations = failed,
           ed_digest = decision_digest hash decision (ei_effect_id intent) (mir_fingerprint mir)
             (pb_digest pb) failed\<rparr>
     in rbind (decision_assert_sealed hash result) (\<lambda>_. Inr result))))"

definition enforce_effect ::
  "(string \<Rightarrow> string) \<Rightarrow> native_sigil_mir \<Rightarrow> native_sigil_proof_bundle \<Rightarrow> effect_intent
     \<Rightarrow> (effect_intent \<Rightarrow> ('w, 'a) py) \<Rightarrow> ('w, enforcement_decision \<times> 'a option) py" where
  "enforce_effect hash mir pb intent effect =
     sbind (slift (evaluate_enforcement hash mir pb intent)) (\<lambda>decision.
       if ed_decision decision \<noteq> ''ALLOW'' then sret (decision, None)
       else sbind (effect intent) (\<lambda>x. sret (decision, Some x)))"

section \<open>Request binding\<close>

record effect_request =
  rq_effect_id :: string
  rq_subject :: string
  rq_operation :: string
  rq_request_digest :: string
  rq_identity_digest :: string
  rq_epoch :: int
  rq_nonce_digest :: string
  rq_native_mir_fingerprint :: string
  rq_universe_plan_digest :: string
  rq_digest :: string
  rq_activation_plan_digest :: string
  rq_version :: int

record request_bound_proof =
  bp_request_digest :: string
  bp_proof_digest :: string
  bp_native_mir_fingerprint :: string
  bp_universe_plan_digest :: string
  bp_decision :: string
  bp_digest :: string
  bp_version :: int

definition binding_ctx :: string where
  "binding_ctx = ''koschei.native-sigil-request-binding/v1'' @ [CHR 0x00]"

definition request_values :: "effect_request \<Rightarrow> string list" where
  "request_values r =
     [rq_effect_id r, rq_subject r, rq_operation r, rq_request_digest r, rq_identity_digest r,
      str_int (rq_epoch r), rq_nonce_digest r, rq_native_mir_fingerprint r, rq_universe_plan_digest r,
      rq_activation_plan_digest r]"

definition request_digest_of :: "(string \<Rightarrow> string) \<Rightarrow> effect_request \<Rightarrow> string result" where
  "request_digest_of hash r =
     (if list_ex (\<lambda>v. v = []) (request_values r) then
        raise NativeSigilRequestBindingError ''canonical effect request fields cannot be empty''
      else Inr (digest_of hash (binding_ctx @ ''request'' @ [CHR 0x00]) (join nl (request_values r))))"

definition request_assert_sealed ::
  "(string \<Rightarrow> string) \<Rightarrow> effect_request \<Rightarrow> native_sigil_mir \<Rightarrow> unit result" where
  "request_assert_sealed hash r mir =
     rbind (mir_assert_sealed hash mir) (\<lambda>_.
     if rq_native_mir_fingerprint r \<noteq> mir_fingerprint mir then
       raise NativeSigilRequestBindingError ''request MIR fingerprint mismatch''
     else if rq_universe_plan_digest r \<noteq> mir_universe_plan_digest mir then
       raise NativeSigilRequestBindingError ''request Universe identity mismatch''
     else rbind (compile_activation_plan hash (map mb_sigil (mir_bindings mir))) (\<lambda>activation.
     if rq_activation_plan_digest r \<noteq> act_digest activation then
       raise NativeSigilRequestBindingError ''request activation-plan identity mismatch''
     else if rq_epoch r < 0 then
       raise NativeSigilRequestBindingError ''request epoch cannot be negative''
     else if rq_subject r \<notin> set (map mb_subject (filter (\<lambda>item. mb_sigil item = ''vor'') (mir_bindings mir))) then
       raise NativeSigilRequestBindingError ''privileged request subject is not declared by a vor binding''
     else rbind (request_digest_of hash r) (\<lambda>expected.
       if rq_digest r \<noteq> expected then
         raise NativeSigilRequestBindingError ''canonical effect request seal mismatch''
       else Inr ())))"

definition bound_digest ::
  "(string \<Rightarrow> string) \<Rightarrow> string \<Rightarrow> string \<Rightarrow> string \<Rightarrow> string \<Rightarrow> string \<Rightarrow> string" where
  "bound_digest hash request pfe mir universe decision =
     digest_of hash (binding_ctx @ ''bound-proof'' @ [CHR 0x00]) (join nl
       [kv ''request'' request, kv ''proof'' pfe, kv ''mir'' mir, kv ''universe'' universe,
        kv ''decision'' decision])"

definition bound_assert_sealed ::
  "(string \<Rightarrow> string) \<Rightarrow> request_bound_proof \<Rightarrow> native_sigil_mir \<Rightarrow> effect_request \<Rightarrow> native_sigil_proof_bundle
     \<Rightarrow> unit result" where
  "bound_assert_sealed hash b mir request pb =
     rbind (request_assert_sealed hash request mir) (\<lambda>_.
     rbind (require_native_sigil_proof hash mir pb) (\<lambda>_.
     if bp_request_digest b \<noteq> rq_digest request then
       raise NativeSigilRequestBindingError ''bound proof request mismatch''
     else if bp_proof_digest b \<noteq> pb_digest pb then
       raise NativeSigilRequestBindingError ''bound proof proof-digest mismatch''
     else if bp_native_mir_fingerprint b \<noteq> mir_fingerprint mir then
       raise NativeSigilRequestBindingError ''bound proof MIR mismatch''
     else if bp_universe_plan_digest b \<noteq> mir_universe_plan_digest mir then
       raise NativeSigilRequestBindingError ''bound proof Universe mismatch''
     else if bp_decision b \<noteq> pb_decision pb then
       raise NativeSigilRequestBindingError ''bound proof decision mismatch''
     else if bp_digest b \<noteq> bound_digest hash (bp_request_digest b) (bp_proof_digest b)
               (bp_native_mir_fingerprint b) (bp_universe_plan_digest b) (bp_decision b) then
       raise NativeSigilRequestBindingError ''request-bound proof seal mismatch''
     else Inr ()))"

definition seal_effect_request ::
  "(string \<Rightarrow> string) \<Rightarrow> native_sigil_mir \<Rightarrow> string \<Rightarrow> string \<Rightarrow> string \<Rightarrow> string \<Rightarrow> string \<Rightarrow> int \<Rightarrow> string
     \<Rightarrow> effect_request result" where
  "seal_effect_request hash mir effect_id subject operation request_digest identity epoch nonce =
     rbind (mir_assert_sealed hash mir) (\<lambda>_.
     rbind (compile_activation_plan hash (map mb_sigil (mir_bindings mir))) (\<lambda>activation.
     let draft = \<lparr>rq_effect_id = effect_id, rq_subject = subject, rq_operation = operation,
           rq_request_digest = request_digest, rq_identity_digest = identity, rq_epoch = epoch,
           rq_nonce_digest = nonce, rq_native_mir_fingerprint = mir_fingerprint mir,
           rq_universe_plan_digest = mir_universe_plan_digest mir, rq_digest = [],
           rq_activation_plan_digest = act_digest activation, rq_version = 1\<rparr>
     in rbind (request_digest_of hash draft) (\<lambda>digest.
        let result = draft\<lparr>rq_digest := digest\<rparr>
        in rbind (request_assert_sealed hash result mir) (\<lambda>_. Inr result))))"

definition bind_proof_to_request ::
  "(string \<Rightarrow> string) \<Rightarrow> native_sigil_mir \<Rightarrow> effect_request \<Rightarrow> native_sigil_proof_bundle \<Rightarrow> request_bound_proof result" where
  "bind_proof_to_request hash mir request pb =
     rbind (request_assert_sealed hash request mir) (\<lambda>_.
     rbind (require_native_sigil_proof hash mir pb) (\<lambda>_.
     let result = \<lparr>bp_request_digest = rq_digest request, bp_proof_digest = pb_digest pb,
           bp_native_mir_fingerprint = mir_fingerprint mir,
           bp_universe_plan_digest = mir_universe_plan_digest mir, bp_decision = pb_decision pb,
           bp_digest = bound_digest hash (rq_digest request) (pb_digest pb) (mir_fingerprint mir)
             (mir_universe_plan_digest mir) (pb_decision pb),
           bp_version = 1\<rparr>
     in rbind (bound_assert_sealed hash result mir request pb) (\<lambda>_. Inr result)))"

definition enforce_bound_effect ::
  "(string \<Rightarrow> string) \<Rightarrow> native_sigil_mir \<Rightarrow> effect_request \<Rightarrow> native_sigil_proof_bundle \<Rightarrow> request_bound_proof
     \<Rightarrow> (effect_request \<Rightarrow> ('w, 'a) py) \<Rightarrow> ('w, enforcement_decision \<times> 'a option) py" where
  "enforce_bound_effect hash mir request pb bound effect =
     sbind (slift (bound_assert_sealed hash bound mir request pb)) (\<lambda>_.
     sbind (slift (mk_PrivilegedEffectIntent (rq_effect_id request) (rq_subject request)
                    (rq_operation request) (rq_request_digest request))) (\<lambda>intent.
       enforce_effect hash mir pb intent (\<lambda>_. effect request)))"

section \<open>The decision of the gate\<close>

definition failed_obligations :: "native_sigil_proof_bundle \<Rightarrow> string list" where
  "failed_obligations pb = map pr_obligation (filter (\<lambda>r. \<not> pr_success r) (pe_receipts (pb_library_proof pb)))"

definition verdict :: "string list \<Rightarrow> string" where
  "verdict failed = (if failed = [] then ''ALLOW''
     else if \<exists>ob \<in> set failed. ob \<in> CONTAINMENT_OBLIGATIONS then ''CONTAIN'' else ''DENY'')"

definition decision_of ::
  "(string \<Rightarrow> string) \<Rightarrow> native_sigil_mir \<Rightarrow> native_sigil_proof_bundle \<Rightarrow> string \<Rightarrow> enforcement_decision" where
  "decision_of hash mir pb effect_id = (let failed = failed_obligations pb in
     \<lparr>ed_decision = verdict failed, ed_effect_id = effect_id,
      ed_native_mir_fingerprint = mir_fingerprint mir, ed_proof_digest = pb_digest pb,
      ed_failed_obligations = failed,
      ed_digest = decision_digest hash (verdict failed) effect_id (mir_fingerprint mir) (pb_digest pb) failed\<rparr>)"

lemma require_proof_decision:
  assumes "require_native_sigil_proof hash mir pb = Inr plan"
  shows "pb_decision pb = (if failed_obligations pb = [] then ''ALLOW'' else ''DENY'')"
    and "plan_assert_sealed hash plan = Inr ()"
proof -
  from assms have plan: "plan = library_plan_of hash mir"
    and req: "require_library_proof_envelope hash (nl_library_plan plan) (pb_library_proof pb) = Inr ()"
    and pb: "pb = (bundle_over hash mir (pb_library_proof pb))\<lparr>pb_version := pb_version pb\<rparr>"
    unfolding require_native_sigil_proof_eq_Inr by blast+
  from plan show "plan_assert_sealed hash plan = Inr ()" by simp
  from req obtain ordered where o: "set ordered = set (pe_receipts (pb_library_proof pb))"
    "pb_library_proof pb = (envelope_over hash (nl_library_plan plan) ordered)\<lparr>pe_receipts := pe_receipts (pb_library_proof pb)\<rparr>"
    unfolding require_envelope_eq by blast
  have "pb_decision pb = pe_decision (pb_library_proof pb)"
    by (subst pb) (simp add: bundle_over_def Let_def)
  also have "\<dots> = (if list_all pr_success ordered then ''ALLOW'' else ''DENY'')"
    by (subst o(2)) (simp add: envelope_over_def Let_def)
  also have "list_all pr_success ordered \<longleftrightarrow> failed_obligations pb = []"
    by (simp add: failed_obligations_def filter_empty_conv list_all_iff o(1))
  finally show "pb_decision pb = (if failed_obligations pb = [] then ''ALLOW'' else ''DENY'')" .
qed

lemma evaluate_enforcement_eq:
  assumes "require_native_sigil_proof hash mir pb = Inr plan"
  shows "evaluate_enforcement hash mir pb intent = Inr (decision_of hash mir pb (ei_effect_id intent))"
  using assms require_proof_decision [OF assms]
  by (auto simp: evaluate_enforcement_def failed_obligations_def [symmetric] Let_def decision_of_def
      decision_assert_sealed_def verdict_def list_ex_iff)

lemma bound_assert_sealed_Inr:
  assumes "bound_assert_sealed hash b mir request pb = Inr ()"
  shows "request_assert_sealed hash request mir = Inr ()"
    and "\<exists>plan. require_native_sigil_proof hash mir pb = Inr plan"
    and "bp_request_digest b = rq_digest request" and "bp_proof_digest b = pb_digest pb"
  using assms by (auto simp: bound_assert_sealed_def rbind_eq_Inr split: if_splits)

lemma request_assert_sealed_eq:
  "request_assert_sealed hash r mir = Inr () \<longleftrightarrow>
     mir_assert_sealed hash mir = Inr () \<and> rq_native_mir_fingerprint r = mir_fingerprint mir
     \<and> rq_universe_plan_digest r = mir_universe_plan_digest mir
     \<and> canonical_sequence (map mb_sigil (mir_bindings mir))
     \<and> rq_activation_plan_digest r = act_digest (activation_plan_of hash (map mb_sigil (mir_bindings mir)))
     \<and> 0 \<le> rq_epoch r
     \<and> (\<exists>item \<in> set (mir_bindings mir). mb_sigil item = ''vor'' \<and> mb_subject item = rq_subject r)
     \<and> request_digest_of hash r = Inr (rq_digest r)"
  by (auto simp: request_assert_sealed_def rbind_eq_Inr compile_activation_plan_eq_Inr image_iff)

lemma request_fields_nonempty:
  assumes "request_assert_sealed hash r mir = Inr ()"
  shows "rq_effect_id r \<noteq> []" and "rq_subject r \<noteq> []" and "rq_operation r \<noteq> []"
    and "rq_request_digest r \<noteq> []"
  using assms by (auto simp: request_assert_sealed_eq request_digest_of_def request_values_def split: if_splits)

lemma enforce_bound_effect_run:
  "enforce_bound_effect hash mir request pb bound effect w =
     (case bound_assert_sealed hash bound mir request pb of
        Inl e \<Rightarrow> (Inl e, w)
      | Inr _ \<Rightarrow>
          let decision = decision_of hash mir pb (rq_effect_id request) in
          if failed_obligations pb = [] then
            (case effect request w of
               (Inl e, w') \<Rightarrow> (Inl e, w')
             | (Inr x, w') \<Rightarrow> (Inr (decision, Some x), w'))
          else (Inr (decision, None), w))"
proof (cases "bound_assert_sealed hash bound mir request pb")
  case (Inr u)
  then have s: "bound_assert_sealed hash bound mir request pb = Inr ()" by simp
  obtain plan where plan: "require_native_sigil_proof hash mir pb = Inr plan"
    using bound_assert_sealed_Inr(2) [OF s] by blast
  note ne = request_fields_nonempty [OF bound_assert_sealed_Inr(1) [OF s]]
  show ?thesis
    using s ne evaluate_enforcement_eq [OF plan]
    by (auto simp: enforce_bound_effect_def enforce_effect_def mk_PrivilegedEffectIntent_def py_simps
        decision_of_def verdict_def Let_def split: sum.splits prod.splits)
qed (simp add: enforce_bound_effect_def py_simps)

section \<open>Properties\<close>

text \<open>
  C13. The privileged callback runs exactly when it may. If the request, proof and MIR are not
  mutually sealed, enforcement raises and the outside world is untouched. If they are, the decision
  is \<open>ALLOW\<close> when no obligation failed, \<open>CONTAIN\<close> when a failed one is a containment
  obligation and \<open>DENY\<close> otherwise; under \<open>ALLOW\<close> the callback is run, once, on
  the bound request, and otherwise it is not run at all.
\<close>

theorem effect_runs_exactly_when_allowed:
  "enforce_bound_effect hash mir request pb bound effect w =
     (case bound_assert_sealed hash bound mir request pb of
        Inl e \<Rightarrow> (Inl e, w)
      | Inr _ \<Rightarrow>
          let decision = decision_of hash mir pb (rq_effect_id request) in
          if failed_obligations pb = [] then
            (case effect request w of
               (Inl e, w') \<Rightarrow> (Inl e, w')
             | (Inr x, w') \<Rightarrow> (Inr (decision, Some x), w'))
          else (Inr (decision, None), w))"
  by (rule enforce_bound_effect_run)

subsection \<open>What the request digest binds\<close>

abbreviation request_ctx :: string where
  "request_ctx \<equiv> binding_ctx @ ''request'' @ [CHR 0x00]"

interpretation request_seal: sealing hash request_ctx "join nl"
  "\<lambda>vs. length vs = 10 \<and> (\<forall>v \<in> set vs. CHR 0x0A \<notin> set v)" for hash
proof unfold_locales
  fix xs ys :: "string list"
  assume x: "length xs = 10 \<and> (\<forall>v \<in> set xs. CHR 0x0A \<notin> set v)"
    and y: "length ys = 10 \<and> (\<forall>v \<in> set ys. CHR 0x0A \<notin> set v)" and eq: "join nl xs = join nl ys"
  from x y have "length xs = length ys" by simp
  from join_inj [OF conjunct2 [OF x] conjunct2 [OF y] this eq [unfolded nl_def]] show "xs = ys" .
qed

definition clean_request :: "effect_request \<Rightarrow> bool" where
  "clean_request r \<longleftrightarrow> (\<forall>v \<in> set (request_values r). CHR 0x0A \<notin> set v)"

lemma request_digest_of_Inr:
  "request_digest_of hash r = Inr d \<Longrightarrow> d = digest_of hash request_ctx (join nl (request_values r))"
  by (simp add: request_digest_of_def split: if_splits)

lemma request_digest_binds:
  assumes "request_assert_sealed hash r mir = Inr ()" and "request_assert_sealed hash q mir' = Inr ()"
    and "clean_request r" and "clean_request q" and "rq_digest r = rq_digest q"
  shows "request_values r = request_values q
    \<or> collision hash (request_ctx @ utf8 (join nl (request_values r))) (request_ctx @ utf8 (join nl (request_values q)))"
proof (rule request_seal.seal_binds)
  show "digest_of hash request_ctx (join nl (request_values r))
      = digest_of hash request_ctx (join nl (request_values q))"
    using assms(1,2,5) by (auto simp: request_assert_sealed_eq dest!: request_digest_of_Inr)
qed (use assms(3,4) in \<open>simp_all add: clean_request_def request_values_def\<close>)

text \<open>
  C17. A proof bound to one request is not accepted for another: if the same bound proof passes
  verification with two requests whose fields contain no line break, then the requests agree on every
  sealed field (effect, subject, operation, payload, identity, epoch, nonce and plan), unless their two
  payloads collide under the hash.
\<close>

theorem bound_proof_binds_request:
  assumes "bound_assert_sealed hash bound mir r pb = Inr ()"
    and "bound_assert_sealed hash bound mir' q pb' = Inr ()"
    and "clean_request r" and "clean_request q"
  shows "request_values r = request_values q
    \<or> collision hash (request_ctx @ utf8 (join nl (request_values r))) (request_ctx @ utf8 (join nl (request_values q)))"
proof -
  note r = bound_assert_sealed_Inr [OF assms(1)] and q = bound_assert_sealed_Inr [OF assms(2)]
  from r(3) q(3) have "rq_digest r = rq_digest q" by simp
  with r(1) q(1) assms(3,4) show ?thesis by (intro request_digest_binds)
qed

lemma seal_effect_request_eq_Inr:
  "seal_effect_request hash mir e s op d i ep n = Inr r \<longleftrightarrow>
     r = \<lparr>rq_effect_id = e, rq_subject = s, rq_operation = op, rq_request_digest = d, rq_identity_digest = i,
          rq_epoch = ep, rq_nonce_digest = n, rq_native_mir_fingerprint = mir_fingerprint mir,
          rq_universe_plan_digest = mir_universe_plan_digest mir, rq_digest = rq_digest r,
          rq_activation_plan_digest = act_digest (activation_plan_of hash (map mb_sigil (mir_bindings mir))),
          rq_version = 1\<rparr>
     \<and> request_assert_sealed hash r mir = Inr ()"
proof -
  have digest: "request_digest_of hash (r\<lparr>rq_digest := d\<rparr>) = request_digest_of hash r" for r :: effect_request and d
    by (simp add: request_digest_of_def request_values_def)
  show ?thesis
    by (cases r) (auto simp: seal_effect_request_def rbind_eq_Inr Let_def request_assert_sealed_eq
        compile_activation_plan_eq_Inr digest request_digest_of_def request_values_def)
qed

lemma bind_proof_to_request_eq_Inr:
  assumes "bind_proof_to_request hash mir r pb = Inr b"
  shows "bound_assert_sealed hash b mir r pb = Inr ()"
  using assms by (auto simp: bind_proof_to_request_def rbind_eq_Inr Let_def)

lemma bound_assert_sealed_transfer:
  assumes "bound_assert_sealed hash b mir r pb = Inr ()" and "request_assert_sealed hash q mir = Inr ()"
    and "rq_digest q = rq_digest r"
  shows "bound_assert_sealed hash b mir q pb = Inr ()"
  using assms by (auto simp: bound_assert_sealed_def rbind_eq_Inr)

text \<open>
  C18. The condition on line breaks cannot be dropped. The fields of a request are joined by line
  breaks and none of them is checked for one, so a request whose operation is \<open>op\<close>, a line
  break and \<open>x\<close> has the same digest, under every hash, as the request with operation \<open>op\<close> whose
  payload digest carries \<open>x\<close> and a line break in front: the proof bound to the first is accepted
  for the second, which performs another operation.
\<close>

theorem bound_proof_portable_across_line_break:
  assumes "seal_effect_request hash mir e s (op @ nl @ x) d i ep n = Inr r"
    and "bind_proof_to_request hash mir r pb = Inr bound" and "op \<noteq> []"
  shows "\<exists>q. seal_effect_request hash mir e s op (x @ nl @ d) i ep n = Inr q
    \<and> rq_operation q \<noteq> rq_operation r
    \<and> bound_assert_sealed hash bound mir q pb = Inr ()"
proof -
  define q where "q = r\<lparr>rq_operation := op, rq_request_digest := x @ nl @ d\<rparr>"
  from assms(1) have r: "r = \<lparr>rq_effect_id = e, rq_subject = s, rq_operation = op @ nl @ x, rq_request_digest = d,
          rq_identity_digest = i, rq_epoch = ep, rq_nonce_digest = n, rq_native_mir_fingerprint = mir_fingerprint mir,
          rq_universe_plan_digest = mir_universe_plan_digest mir, rq_digest = rq_digest r,
          rq_activation_plan_digest = act_digest (activation_plan_of hash (map mb_sigil (mir_bindings mir))),
          rq_version = 1\<rparr>" and sealed: "request_assert_sealed hash r mir = Inr ()"
    unfolding seal_effect_request_eq_Inr by blast+
  from r have op: "rq_operation r = op @ nl @ x" and d: "rq_request_digest r = d"
    by (metis effect_request.select_convs)+
  have same: "join nl (request_values q) = join nl (request_values r)"
    by (simp add: request_values_def q_def op d)
  have r_full: "\<not> list_ex (\<lambda>v. v = []) (request_values r)"
    and r_digest: "rq_digest r = digest_of hash request_ctx (join nl (request_values r))"
    using sealed by (auto simp: request_assert_sealed_eq request_digest_of_def split: if_splits)
  from r_full assms(3) have "\<not> list_ex (\<lambda>v. v = []) (request_values q)"
    by (simp add: request_values_def q_def nl_def)
  then have "request_digest_of hash q = Inr (rq_digest r)"
    by (simp only: request_digest_of_def if_False same r_digest)
  then have q: "request_assert_sealed hash q mir = Inr ()"
    using sealed by (simp add: request_assert_sealed_eq q_def)
  have "seal_effect_request hash mir e s op (x @ nl @ d) i ep n = Inr q"
    unfolding seal_effect_request_eq_Inr using q by (subst q_def, subst r) (simp add: q_def)
  moreover have "rq_operation q \<noteq> rq_operation r" by (simp add: q_def op nl_def)
  moreover have "bound_assert_sealed hash bound mir q pb = Inr ()"
    using bind_proof_to_request_eq_Inr [OF assms(2)] q
    by (rule bound_assert_sealed_transfer) (simp add: q_def)
  ultimately show ?thesis by blast
qed

section \<open>A concrete request\<close>

lemma bind_proof_to_request_ok:
  assumes "request_assert_sealed hash r mir = Inr ()" and "require_native_sigil_proof hash mir pb = Inr plan"
  obtains b where "bind_proof_to_request hash mir r pb = Inr b"
  using assms by (auto simp: bind_proof_to_request_def bound_assert_sealed_def Let_def)

lemma door_request_for:
  assumes "op \<noteq> []" and "d \<noteq> []" and "0 \<le> ep" and "i \<noteq> []"
  obtains r where "seal_effect_request tail_hash door_mir ''e'' ''door'' op d i ep ''n'' = Inr r"
    and "request_values r = [''e'', ''door'', op, d, i, str_int ep, ''n'', mir_fingerprint door_mir,
      mir_universe_plan_digest door_mir, act_digest (activation_plan_of tail_hash [''ka'', ''vor''])]"
    and "request_assert_sealed tail_hash r door_mir = Inr ()"
proof -
  let ?act = "act_digest (activation_plan_of tail_hash [''ka'', ''vor''])"
  define draft where "draft = \<lparr>rq_effect_id = ''e'', rq_subject = ''door'', rq_operation = op, rq_request_digest = d,
      rq_identity_digest = i, rq_epoch = ep, rq_nonce_digest = ''n'',
      rq_native_mir_fingerprint = mir_fingerprint door_mir,
      rq_universe_plan_digest = mir_universe_plan_digest door_mir, rq_digest = [],
      rq_activation_plan_digest = ?act, rq_version = 1\<rparr>"
  define r where "r = draft\<lparr>rq_digest := digest_of tail_hash request_ctx (join nl (request_values draft))\<rparr>"
  have sigils: "map mb_sigil (mir_bindings door_mir) = [''ka'', ''vor'']"
    by (simp add: door_mir_def mir_of_def Let_def binding_of_def door_program_def decl_at_def)
  have vals: "request_values r = request_values draft" by (simp add: request_values_def r_def)
  have digests: "mir_fingerprint door_mir \<noteq> []" "mir_universe_plan_digest door_mir \<noteq> []" "?act \<noteq> []"
    using tail_hash.digest_nonempty
    by (simp_all add: door_mir_def mir_of_def Let_def fingerprint_def universe_plan_of_def canonical_digest_def
        activation_plan_of_def)
  have "\<not> list_ex (\<lambda>v. v = []) (request_values draft)"
    using digests assms(1,2,4) by (simp add: request_values_def draft_def)
  then have "request_digest_of tail_hash r = Inr (rq_digest r)"
    by (simp add: request_digest_of_def vals) (simp add: r_def)
  moreover have "mir_assert_sealed tail_hash door_mir = Inr ()"
    unfolding door_mir_def by (rule mir_of_sealed) (simp add: door_program_def)
  moreover have "\<exists>item \<in> set (mir_bindings door_mir). mb_sigil item = ''vor'' \<and> mb_subject item = ''door''"
    by (simp add: door_mir_def mir_of_def Let_def binding_of_def door_program_def decl_at_def)
  ultimately have sealed: "request_assert_sealed tail_hash r door_mir = Inr ()"
    using canonical_ka_vor assms(3) by (simp add: request_assert_sealed_eq sigils) (simp add: r_def draft_def)
  moreover have "seal_effect_request tail_hash door_mir ''e'' ''door'' op d i ep ''n'' = Inr r"
    unfolding seal_effect_request_eq_Inr sigils using sealed by (simp add: r_def draft_def)
  moreover have "request_values r = [''e'', ''door'', op, d, i, str_int ep, ''n'', mir_fingerprint door_mir,
      mir_universe_plan_digest door_mir, ?act]"
    by (simp add: vals) (simp add: request_values_def draft_def)
  ultimately show ?thesis by (intro that)
qed

lemma door_request:
  assumes "op \<noteq> []" and "d \<noteq> []" and "0 \<le> ep"
  obtains r where "seal_effect_request tail_hash door_mir ''e'' ''door'' op d ''i'' ep ''n'' = Inr r"
    and "request_values r = [''e'', ''door'', op, d, ''i'', str_int ep, ''n'', mir_fingerprint door_mir,
      mir_universe_plan_digest door_mir, act_digest (activation_plan_of tail_hash [''ka'', ''vor''])]"
    and "request_assert_sealed tail_hash r door_mir = Inr ()"
  by (rule door_request_for [OF assms, of "''i''"]) simp_all

theorem bound_proof_binds_request_witness:
  "\<exists>r q pb b. bound_assert_sealed tail_hash b door_mir r pb = Inr ()
     \<and> bound_assert_sealed tail_hash b door_mir q pb = Inr () \<and> r \<noteq> q
     \<and> (request_values r = request_values q
       \<or> collision tail_hash (request_ctx @ utf8 (join nl (request_values r)))
           (request_ctx @ utf8 (join nl (request_values q))))"
proof -
  obtain pb plan where pb: "require_native_sigil_proof tail_hash door_mir pb = Inr plan" by (rule door_bundle)
  obtain r where r: "request_values r = [''e'', ''door'', ''open'', ''p'', ''i'', str_int 1, ''n'', mir_fingerprint door_mir,
      mir_universe_plan_digest door_mir, act_digest (activation_plan_of tail_hash [''ka'', ''vor''])]"
      "request_assert_sealed tail_hash r door_mir = Inr ()"
    by (rule door_request [of "''open''" "''p''" 1]) simp_all
  obtain b where "bind_proof_to_request tail_hash door_mir r pb = Inr b"
    by (rule bind_proof_to_request_ok [OF r(2) pb])
  then have b: "bound_assert_sealed tail_hash b door_mir r pb = Inr ()" by (rule bind_proof_to_request_eq_Inr)
  define q where "q = r\<lparr>rq_version := rq_version r + 1\<rparr>"
  have vals: "request_values q = request_values r" by (simp add: q_def request_values_def)
  then have "request_digest_of tail_hash q = request_digest_of tail_hash r" by (simp add: request_digest_of_def)
  then have "request_assert_sealed tail_hash q door_mir = Inr ()"
    using r(2) unfolding request_assert_sealed_eq by (simp add: q_def)
  with b have b': "bound_assert_sealed tail_hash b door_mir q pb = Inr ()"
    by (rule bound_assert_sealed_transfer) (simp add: q_def)
  have "rq_version q \<noteq> rq_version r" by (simp add: q_def)
  then have "r \<noteq> q" by blast
  moreover have c: "clean_request r"
    using tail_hash.digest_no_newline
    by (simp add: clean_request_def r(1) door_mir_def mir_of_def Let_def fingerprint_def universe_plan_of_def
        canonical_digest_def activation_plan_of_def)
  moreover from c vals have "clean_request q" by (simp add: clean_request_def)
  ultimately show ?thesis using bound_proof_binds_request [OF b b'] b b' by blast
qed

theorem bound_proof_portable_across_line_break_witness:
  "\<exists>r q pb b. bind_proof_to_request tail_hash door_mir r pb = Inr b
     \<and> rq_operation q \<noteq> rq_operation r \<and> bound_assert_sealed tail_hash b door_mir q pb = Inr ()"
proof -
  obtain pb plan where pb: "require_native_sigil_proof tail_hash door_mir pb = Inr plan" by (rule door_bundle)
  obtain r where r: "seal_effect_request tail_hash door_mir ''e'' ''door'' (''open'' @ nl @ ''x'') ''p'' ''i'' 1 ''n'' = Inr r"
      "request_assert_sealed tail_hash r door_mir = Inr ()"
    by (rule door_request [of "''open'' @ nl @ ''x''" "''p''" 1]) simp_all
  obtain b where b: "bind_proof_to_request tail_hash door_mir r pb = Inr b"
    by (rule bind_proof_to_request_ok [OF r(2) pb])
  have "''open'' \<noteq> []" by simp
  from bound_proof_portable_across_line_break [OF r(1) b this] b show ?thesis by blast
qed

end
