(* ===== verification/Replay.thy ===== *)
theory Replay
  imports Enforcement
begin

text \<open>
  The replay ledgers: the in-memory reference ledger with \<open>enforce_once\<close>
  (\<open>koschei/native_sigil_replay_ledger_v1.py\<close>) and its durable counterpart
  (\<open>koschei/native_sigil_durable_replay_ledger_v1.py\<close>). The contract both promise is the
  locale \<open>claim_ledger\<close>; what follows from it is proved there once and read off its two
  interpretations.
\<close>

section \<open>Records\<close>

record replay_record =
  rp_request_digest :: string
  rp_effect_id :: string
  rp_epoch :: int
  rp_state :: string
  rp_proof_digest :: string
  rp_decision_digest :: string
  rp_digest :: string

definition replay_ctx :: string where
  "replay_ctx = ''koschei.native-sigil-replay-ledger/v1'' @ [CHR 0x00]"

definition record_digest ::
  "(string \<Rightarrow> string) \<Rightarrow> string \<Rightarrow> string \<Rightarrow> int \<Rightarrow> string \<Rightarrow> string \<Rightarrow> string \<Rightarrow> string" where
  "record_digest hash request effect_id epoch state pfe decision =
     digest_of hash replay_ctx (join nl
       [kv ''request'' request, kv ''effect'' effect_id, kv ''epoch'' (str_int epoch),
        kv ''state'' state, kv ''proof'' pfe, kv ''decision'' decision])"

definition mk_record ::
  "(string \<Rightarrow> string) \<Rightarrow> effect_request \<Rightarrow> string \<Rightarrow> string \<Rightarrow> string \<Rightarrow> replay_record" where
  "mk_record hash request pfe decision state =
     \<lparr>rp_request_digest = rq_digest request, rp_effect_id = rq_effect_id request,
      rp_epoch = rq_epoch request, rp_state = state, rp_proof_digest = pfe,
      rp_decision_digest = decision,
      rp_digest = record_digest hash (rq_digest request) (rq_effect_id request) (rq_epoch request)
        state pfe decision\<rparr>"

definition TERMINAL_STATES :: "string set" where
  "TERMINAL_STATES = {''COMMITTED'', ''REJECTED'', ''CONTAINED'', ''UNCERTAIN''}"

section \<open>The in-memory ledger\<close>

type_synonym memory = "string \<rightharpoonup> replay_record"

definition mem_get :: "string \<Rightarrow> (memory, replay_record option) py" where
  "mem_get request_digest records = (Inr (records request_digest), records)"

definition mem_record ::
  "(string \<Rightarrow> string) \<Rightarrow> effect_request \<Rightarrow> string \<Rightarrow> string \<Rightarrow> string \<Rightarrow> (memory, replay_record) py" where
  "mem_record hash request pfe decision state records =
     (let r = mk_record hash request pfe decision state in (Inr r, records(rq_digest request \<mapsto> r)))"

definition mem_claim :: "(string \<Rightarrow> string) \<Rightarrow> effect_request \<Rightarrow> string \<Rightarrow> (memory, replay_record) py" where
  "mem_claim hash request pfe =
     sbind (mem_get (rq_digest request)) (\<lambda>existing.
       case existing of
         Some r \<Rightarrow> sthrow (Raise NativeSigilReplayError
                    ''privileged request already consumed or in-flight: {}'' [rp_state r])
       | None \<Rightarrow> mem_record hash request pfe ''pending'' ''CLAIMED'')"

definition mem_finalize ::
  "(string \<Rightarrow> string) \<Rightarrow> effect_request \<Rightarrow> string \<Rightarrow> enforcement_decision \<Rightarrow> string \<Rightarrow> (memory, replay_record) py" where
  "mem_finalize hash request pfe decision state =
     (if state \<notin> TERMINAL_STATES then
        sthrow (Raise NativeSigilReplayError ''invalid replay final state: {}'' [state])
      else sbind (mem_get (rq_digest request)) (\<lambda>current.
        case current of
          None \<Rightarrow> sthrow (Raise NativeSigilReplayError ''request was not atomically claimed'' [])
        | Some r \<Rightarrow>
            if rp_state r \<noteq> ''CLAIMED'' then
              sthrow (Raise NativeSigilReplayError ''request was not atomically claimed'' [])
            else if rp_proof_digest r \<noteq> pfe then
              sthrow (Raise NativeSigilReplayError ''claimed proof digest changed before finality'' [])
            else mem_record hash request pfe (ed_digest decision) state))"

subsection \<open>Enforcing once\<close>

text \<open>The state of \<open>enforce_once\<close>: the ledger and the outside world the callback acts on.\<close>

definition on_ledger :: "('l, 'a) py \<Rightarrow> ('l \<times> 'w, 'a) py" where
  "on_ledger m s = (case m (fst s) of (x, l) \<Rightarrow> (x, (l, snd s)))"

definition on_world :: "('w, 'a) py \<Rightarrow> ('l \<times> 'w, 'a) py" where
  "on_world m s = (case m (snd s) of (x, w) \<Rightarrow> (x, (fst s, w)))"

definition uncertain_decision ::
  "(string \<Rightarrow> string) \<Rightarrow> native_sigil_mir \<Rightarrow> effect_request \<Rightarrow> native_sigil_proof_bundle \<Rightarrow> enforcement_decision" where
  "uncertain_decision hash mir request pb =
     \<lparr>ed_decision = ''CONTAIN'', ed_effect_id = rq_effect_id request,
      ed_native_mir_fingerprint = mir_fingerprint mir, ed_proof_digest = pb_digest pb,
      ed_failed_obligations = [''effect-finality-uncertain''],
      ed_digest = digest_of hash (replay_ctx @ ''uncertain'' @ [CHR 0x00])
        (join nl [rq_digest request, pb_digest pb, mir_fingerprint mir])\<rparr>"

definition final_state_of :: "string \<Rightarrow> string result" where
  "final_state_of decision =
     (case map_of [(''ALLOW'', ''COMMITTED''), (''DENY'', ''REJECTED''), (''CONTAIN'', ''CONTAINED'')] decision of
        None \<Rightarrow> raisef KeyError ''{}'' [decision]
      | Some state \<Rightarrow> Inr state)"

definition enforce_once ::
  "(string \<Rightarrow> string) \<Rightarrow> native_sigil_mir \<Rightarrow> effect_request \<Rightarrow> native_sigil_proof_bundle \<Rightarrow> request_bound_proof
     \<Rightarrow> (effect_request \<Rightarrow> ('w, 'a) py)
     \<Rightarrow> (memory \<times> 'w, enforcement_decision \<times> 'a option \<times> replay_record) py" where
  "enforce_once hash mir request pb bound effect =
     sbind (slift (request_assert_sealed hash request mir)) (\<lambda>_.
     sbind (slift (bound_assert_sealed hash bound mir request pb)) (\<lambda>_.
     sbind (on_ledger (mem_claim hash request (pb_digest pb))) (\<lambda>_.
     sbind
       (stry (on_world (enforce_bound_effect hash mir request pb bound effect))
          (\<lambda>_. sbind (on_ledger (mem_finalize hash request (pb_digest pb)
                        (uncertain_decision hash mir request pb) ''UNCERTAIN'')) (\<lambda>r.
             sthrow (Raise NativeSigilReplayError
               ''privileged effect finality is uncertain; request tombstoned: {}'' [rp_digest r]))))
       (\<lambda>(decision, result).
     sbind (slift (final_state_of (ed_decision decision))) (\<lambda>state.
     sbind (on_ledger (mem_finalize hash request (pb_digest pb) decision state)) (\<lambda>record.
       sret (decision, result, record)))))))"

section \<open>The durable ledger\<close>

type_synonym durable = "replay_record list conn"

definition empty_durable :: durable where
  "empty_durable = \<lparr>committed = [], working = None\<rparr>"

definition row_to_record :: "(string \<Rightarrow> string) \<Rightarrow> replay_record \<Rightarrow> replay_record result" where
  "row_to_record hash r =
     (if record_digest hash (rp_request_digest r) (rp_effect_id r) (rp_epoch r) (rp_state r)
           (rp_proof_digest r) (rp_decision_digest r) \<noteq> rp_digest r then
        raise NativeSigilReplayError ''durable replay record integrity mismatch''
      else Inr r)"

definition row_of :: "string \<Rightarrow> replay_record list \<Rightarrow> replay_record option" where
  "row_of d rows = find (\<lambda>r. rp_request_digest r = d) rows"

definition dur_get :: "(string \<Rightarrow> string) \<Rightarrow> string \<Rightarrow> (durable, replay_record option) py" where
  "dur_get hash request_digest =
     sbind (select (\<lambda>rows. Inr (row_of request_digest rows))) (\<lambda>row.
       case row of None \<Rightarrow> sret None
       | Some r \<Rightarrow> sbind (slift (row_to_record hash r)) (\<lambda>r'. sret (Some r')))"

definition dur_claim :: "(string \<Rightarrow> string) \<Rightarrow> effect_request \<Rightarrow> string \<Rightarrow> (durable, replay_record) py" where
  "dur_claim hash request pfe =
     (let record = mk_record hash request pfe ''pending'' ''CLAIMED'' in
      transact
        (\<lambda>rows. rbind (bind_ints [rp_epoch record]) (\<lambda>_.
           insert_row rp_request_digest (\<lambda>r. 0 \<le> rp_epoch r) record rows))
        (\<lambda>e. if exc_of e = IntegrityError then
               sbind (dur_get hash (rq_digest request)) (\<lambda>existing.
                 sthrow (Raise NativeSigilReplayError
                   ''privileged request already consumed or in-flight: {}''
                   [case existing of None \<Rightarrow> ''UNKNOWN'' | Some r \<Rightarrow> rp_state r]))
             else sthrow e)
        record)"

text \<open>\<open>UPDATE ... WHERE request_digest=? AND state='CLAIMED'\<close>.\<close>

definition update_claimed :: "string \<Rightarrow> string \<Rightarrow> string \<Rightarrow> string \<Rightarrow> replay_record list \<Rightarrow> replay_record list" where
  "update_claimed d state decision digest rows =
     map (\<lambda>r. if rp_request_digest r = d \<and> rp_state r = ''CLAIMED''
              then r\<lparr>rp_state := state, rp_decision_digest := decision, rp_digest := digest\<rparr> else r) rows"

definition dur_finalize ::
  "(string \<Rightarrow> string) \<Rightarrow> effect_request \<Rightarrow> string \<Rightarrow> enforcement_decision \<Rightarrow> string \<Rightarrow> (durable, replay_record) py" where
  "dur_finalize hash request pfe decision state =
     (if state \<notin> TERMINAL_STATES then
        sthrow (Raise NativeSigilReplayError ''invalid replay final state: {}'' [state])
      else
        let record = mk_record hash request pfe (ed_digest decision) state;
            not_claimed = sthen rollback
              (sthrow (Raise NativeSigilReplayError ''request was not durably claimed'' []))
        in sthen begin_immediate
           (sbind (select (\<lambda>rows. Inr (row_of (rq_digest request) rows))) (\<lambda>current.
              case current of
                None \<Rightarrow> not_claimed
              | Some r \<Rightarrow>
                  if rp_state r \<noteq> ''CLAIMED'' then not_claimed
                  else if rp_proof_digest r \<noteq> pfe then
                    sthen rollback (sthrow (Raise NativeSigilReplayError
                      ''claimed proof digest changed before finality'' []))
                  else
                    sthen (exec_write (\<lambda>rows. Inr (update_claimed (rq_digest request) state
                             (ed_digest decision) (rp_digest record) rows)))
                    (sthen commit (sret record)))))"

definition unresolved_claims :: "(string \<Rightarrow> string) \<Rightarrow> (durable, replay_record list) py" where
  "unresolved_claims hash =
     sbind (select (\<lambda>rows. Inr (sort_key rp_request_digest (filter (\<lambda>r. rp_state r = ''CLAIMED'') rows))))
       (\<lambda>rows. slift (rmap (row_to_record hash) rows))"

definition resolve_uncertain_after_recovery ::
  "(string \<Rightarrow> string) \<Rightarrow> effect_request \<Rightarrow> string \<Rightarrow> enforcement_decision \<Rightarrow> (durable, replay_record) py" where
  "resolve_uncertain_after_recovery hash request pfe decision =
     dur_finalize hash request pfe decision ''UNCERTAIN''"

section \<open>The contract of a claim ledger\<close>

text \<open>
  A ledger is seen through the state and proof digest it records for each request digest.
  \<open>spec_claim\<close> and \<open>spec_finalize\<close> are the abstract operations: \<open>None\<close> where the operation fails.
\<close>

type_synonym ledger_view = "string \<rightharpoonup> string \<times> string"

definition spec_claim :: "effect_request \<Rightarrow> string \<Rightarrow> ledger_view \<Rightarrow> ledger_view option" where
  "spec_claim request pfe v =
     (if v (rq_digest request) = None then Some (v(rq_digest request \<mapsto> (''CLAIMED'', pfe))) else None)"

definition spec_finalize :: "effect_request \<Rightarrow> string \<Rightarrow> string \<Rightarrow> ledger_view \<Rightarrow> ledger_view option" where
  "spec_finalize request pfe state v =
     (if state \<in> TERMINAL_STATES \<and> v (rq_digest request) = Some (''CLAIMED'', pfe)
      then Some (v(rq_digest request \<mapsto> (state, pfe))) else None)"

text \<open>The outcome of a concrete call matches an abstract one.\<close>

definition refines :: "('s \<Rightarrow> ledger_view) \<Rightarrow> 'a result \<times> 's \<Rightarrow> 's \<Rightarrow> ledger_view option \<Rightarrow> bool" where
  "refines view_of out s target =
     (case target of
        None \<Rightarrow> \<not> is_ok (fst out) \<and> view_of (snd out) = view_of s
      | Some v \<Rightarrow> is_ok (fst out) \<and> view_of (snd out) = v)"

datatype ledger_call =
    Claim effect_request string
  | Finalize effect_request string enforcement_decision string
  | Recover

fun run_calls ::
  "(effect_request \<Rightarrow> string \<Rightarrow> ('s, replay_record) py)
   \<Rightarrow> (effect_request \<Rightarrow> string \<Rightarrow> enforcement_decision \<Rightarrow> string \<Rightarrow> ('s, replay_record) py)
   \<Rightarrow> ('s \<Rightarrow> 's) \<Rightarrow> ledger_call list \<Rightarrow> 's \<Rightarrow> ledger_call list \<times> 's" where
  "run_calls claim finalize recover [] s = ([], s)"
| "run_calls claim finalize recover (Claim r p # calls) s =
     (case claim r p s of (out, t) \<Rightarrow>
      case run_calls claim finalize recover calls t of (ok, u) \<Rightarrow>
        (if is_ok out then Claim r p # ok else ok, u))"
| "run_calls claim finalize recover (Finalize r p d st # calls) s =
     (case finalize r p d st s of (out, t) \<Rightarrow>
      case run_calls claim finalize recover calls t of (ok, u) \<Rightarrow>
        (if is_ok out then Finalize r p d st # ok else ok, u))"
| "run_calls claim finalize recover (Recover # calls) s =
     run_calls claim finalize recover calls (recover s)"

fun about :: "string \<Rightarrow> ledger_call \<Rightarrow> bool" where
  "about d (Claim r p) \<longleftrightarrow> rq_digest r = d"
| "about d (Finalize r p e st) \<longleftrightarrow> rq_digest r = d"
| "about d Recover \<longleftrightarrow> False"

fun run_spec :: "ledger_call list \<Rightarrow> ledger_view \<Rightarrow> ledger_call list \<times> ledger_view" where
  "run_spec [] v = ([], v)"
| "run_spec (Claim r p # calls) v =
     (case spec_claim r p v of
        None \<Rightarrow> run_spec calls v
      | Some v' \<Rightarrow> (case run_spec calls v' of (ok, u) \<Rightarrow> (Claim r p # ok, u)))"
| "run_spec (Finalize r p d st # calls) v =
     (case spec_finalize r p st v of
        None \<Rightarrow> run_spec calls v
      | Some v' \<Rightarrow> (case run_spec calls v' of (ok, u) \<Rightarrow> (Finalize r p d st # ok, u)))"
| "run_spec (Recover # calls) v = run_spec calls v"

text \<open>The lives a request digest can have, from each recorded status on.\<close>

fun life :: "(string \<times> string) option \<Rightarrow> ledger_call list \<Rightarrow> bool" where
  "life status [] = True"
| "life None (Claim r p # calls) = life (Some (''CLAIMED'', p)) calls"
| "life (Some (st0, p0)) (Finalize r p d st # calls) =
     (st0 = ''CLAIMED'' \<and> p = p0 \<and> st \<in> TERMINAL_STATES \<and> life (Some (st, p)) calls)"
| "life _ _ = False"

lemma life_terminal: "st \<in> TERMINAL_STATES \<Longrightarrow> life (Some (st, p)) calls \<longleftrightarrow> calls = []"
  by (cases "(Some (st, p), calls)" rule: life.cases) (auto simp: TERMINAL_STATES_def)

lemma life_claimed:
  "life (Some (''CLAIMED'', p)) calls \<longleftrightarrow>
     calls = [] \<or> (\<exists>r d st. calls = [Finalize r p d st] \<and> st \<in> TERMINAL_STATES)"
  by (cases "(Some (''CLAIMED'', p), calls)" rule: life.cases) (auto simp: life_terminal)

lemma life_fresh:
  "life None calls \<longleftrightarrow> calls = [] \<or> (\<exists>r p. calls = [Claim r p])
     \<or> (\<exists>r p r' d st. calls = [Claim r p, Finalize r' p d st] \<and> st \<in> TERMINAL_STATES)"
  by (cases "(None :: (string \<times> string) option, calls)" rule: life.cases) (auto simp: life_claimed)

locale claim_ledger =
  fixes view_of :: "'s \<Rightarrow> ledger_view"
    and inv :: "'s \<Rightarrow> bool"
    and admissible :: "effect_request \<Rightarrow> bool"
    and claim :: "effect_request \<Rightarrow> string \<Rightarrow> ('s, replay_record) py"
    and finalize :: "effect_request \<Rightarrow> string \<Rightarrow> enforcement_decision \<Rightarrow> string \<Rightarrow> ('s, replay_record) py"
    and recover :: "'s \<Rightarrow> 's"
  assumes claim_refines: "inv s \<Longrightarrow> admissible r \<Longrightarrow> refines view_of (claim r p s) s (spec_claim r p (view_of s))"
    and claim_rejects: "inv s \<Longrightarrow> \<not> admissible r \<Longrightarrow> \<not> is_ok (fst (claim r p s)) \<and> view_of (snd (claim r p s)) = view_of s"
    and finalize_refines: "inv s \<Longrightarrow> refines view_of (finalize r p d st s) s (spec_finalize r p st (view_of s))"
    and recover_view: "inv s \<Longrightarrow> view_of (recover s) = view_of s"
    and claim_inv: "inv s \<Longrightarrow> inv (snd (claim r p s))"
    and finalize_inv: "inv s \<Longrightarrow> inv (snd (finalize r p d st s))"
    and recover_inv: "inv s \<Longrightarrow> inv (recover s)"
begin

lemma claim_cases:
  assumes "inv s"
  obtains (ok) "admissible r" "view_of s (rq_digest r) = None" "is_ok (fst (claim r p s))"
      "view_of (snd (claim r p s)) = (view_of s)(rq_digest r \<mapsto> (''CLAIMED'', p))"
    | (refused) "\<not> is_ok (fst (claim r p s))" "view_of (snd (claim r p s)) = view_of s"
  using claim_refines [OF assms, of r p] claim_rejects [OF assms, of r p]
  by (cases "admissible r") (auto simp: refines_def spec_claim_def split: if_splits)

lemma finalize_cases:
  assumes "inv s"
  obtains (ok) "st \<in> TERMINAL_STATES" "view_of s (rq_digest r) = Some (''CLAIMED'', p)"
      "is_ok (fst (finalize r p d st s))"
      "view_of (snd (finalize r p d st s)) = (view_of s)(rq_digest r \<mapsto> (st, p))"
    | (refused) "\<not> is_ok (fst (finalize r p d st s))" "view_of (snd (finalize r p d st s)) = view_of s"
  using finalize_refines [OF assms, of r p d st]
  by (auto simp: refines_def spec_finalize_def split: if_splits)

lemma life_of_run:
  "inv s \<Longrightarrow> life (view_of s d) (filter (about d) (fst (run_calls claim finalize recover calls s)))"
proof (induction calls arbitrary: s)
  case (Cons c calls)
  show ?case
  proof (cases c)
    case (Claim r p)
    note IH = Cons.IH [OF claim_inv [OF Cons.prems, of r p]]
    show ?thesis using Cons.prems
      by (cases rule: claim_cases [of s r p]) (use IH in \<open>auto simp: Claim split: prod.splits\<close>)
  next
    case (Finalize r p e st)
    note IH = Cons.IH [OF finalize_inv [OF Cons.prems, of r p e st]]
    show ?thesis using Cons.prems
      by (cases rule: finalize_cases [of s st r p e]) (use IH in \<open>auto simp: Finalize split: prod.splits\<close>)
  next
    case Recover
    with Cons.IH [OF recover_inv [OF Cons.prems]] show ?thesis
      by (simp add: recover_view [OF Cons.prems])
  qed
qed simp

text \<open>Two ledgers that agree on their views give the same answers to the same calls.\<close>

lemma run_is_spec:
  assumes "inv s" and "\<forall>r p. Claim r p \<in> set calls \<longrightarrow> admissible r"
  shows "(fst (run_calls claim finalize recover calls s), view_of (snd (run_calls claim finalize recover calls s)))
    = run_spec calls (view_of s)"
  using assms
proof (induction calls arbitrary: s)
  case (Cons c calls)
  then have later: "\<forall>r p. Claim r p \<in> set calls \<longrightarrow> admissible r" by simp
  show ?case
  proof (cases c)
    case (Claim r p)
    with Cons.prems have "refines view_of (claim r p s) s (spec_claim r p (view_of s))"
      by (intro claim_refines) auto
    with Cons.IH [OF claim_inv [OF Cons.prems(1), of r p] later] show ?thesis
      by (auto simp: Claim refines_def split: prod.splits option.splits)
  next
    case (Finalize r p e st)
    obtain out t where ft: "finalize r p e st s = (out, t)" by fastforce
    have "refines view_of (finalize r p e st s) s (spec_finalize r p st (view_of s))"
      by (rule finalize_refines [OF Cons.prems(1)])
    with Cons.IH [OF finalize_inv [OF Cons.prems(1), of r p e st] later] ft show ?thesis
      by (cases "spec_finalize r p st (view_of s)")
        (auto simp: Finalize refines_def split: prod.splits)
  next
    case Recover
    with Cons.IH [OF recover_inv [OF Cons.prems(1)] later] show ?thesis
      by (simp add: recover_view [OF Cons.prems(1)])
  qed
qed simp

end

section \<open>Both ledgers keep the contract\<close>

definition mem_view :: "memory \<Rightarrow> ledger_view" where
  "mem_view m = (\<lambda>d. map_option (\<lambda>r. (rp_state r, rp_proof_digest r)) (m d))"

interpretation mem: claim_ledger mem_view "\<lambda>_. True" "\<lambda>_. True" "mem_claim hash" "mem_finalize hash" id for hash
  by unfold_locales
    (auto simp: refines_def spec_claim_def spec_finalize_def mem_claim_def mem_finalize_def mem_get_def
      mem_record_def mem_view_def mk_record_def py_simps Let_def fun_eq_iff split: option.splits)

definition dur_view :: "durable \<Rightarrow> ledger_view" where
  "dur_view c = (\<lambda>d. map_option (\<lambda>r. (rp_state r, rp_proof_digest r)) (row_of d (committed c)))"

definition dur_inv :: "durable \<Rightarrow> bool" where
  "dur_inv c \<longleftrightarrow> idle c \<and> distinct (map rp_request_digest (committed c))"

definition storable :: "effect_request \<Rightarrow> bool" where
  "storable r \<longleftrightarrow> 0 \<le> rq_epoch r \<and> fits64 (rq_epoch r)"

lemma row_of_Some: "row_of d rows = Some r \<Longrightarrow> r \<in> set rows \<and> rp_request_digest r = d"
  by (auto simp: row_of_def find_Some_iff)

lemma row_of_None: "row_of d rows = None \<longleftrightarrow> (\<forall>r \<in> set rows. rp_request_digest r \<noteq> d)"
  by (auto simp: row_of_def find_None_iff)

lemma row_of_append: "row_of d (rows @ [r]) =
    (case row_of d rows of Some q \<Rightarrow> Some q | None \<Rightarrow> if rp_request_digest r = d then Some r else None)"
  by (induction rows) (auto simp: row_of_def)

lemma row_of_update_claimed:
  "row_of e (update_claimed d state decision digest rows) =
     map_option (\<lambda>r. if rp_request_digest r = d \<and> rp_state r = ''CLAIMED''
         then r\<lparr>rp_state := state, rp_decision_digest := decision, rp_digest := digest\<rparr> else r) (row_of e rows)"
  by (induction rows) (auto simp: row_of_def update_claimed_def)

lemma view_update_claimed:
  assumes "row_of d rows = Some q" and "rp_state q = ''CLAIMED''"
  shows "dur_view \<lparr>committed = update_claimed d state decision digest rows, working = None\<rparr>
    = (dur_view \<lparr>committed = rows, working = None\<rparr>)(d \<mapsto> (state, rp_proof_digest q))"
proof
  fix e
  show "dur_view \<lparr>committed = update_claimed d state decision digest rows, working = None\<rparr> e
    = ((dur_view \<lparr>committed = rows, working = None\<rparr>)(d \<mapsto> (state, rp_proof_digest q))) e"
    using assms row_of_Some [of e rows]
    by (cases "row_of e rows") (auto simp: dur_view_def row_of_update_claimed dest: row_of_Some)
qed

lemma update_claimed_keys:
  "map rp_request_digest (update_claimed d state decision digest rows) = map rp_request_digest rows"
  by (simp add: update_claimed_def comp_def)

lemma dur_get_idle: "idle c \<Longrightarrow> snd (dur_get hash d c) = c"
  by (auto simp: dur_get_def py_simps split: option.splits sum.splits)

text \<open>The durable claim on an idle connection: it appends the record or changes nothing.\<close>

lemma claim_row_inserted:
  "rbind (bind_ints [rq_epoch r]) (\<lambda>_. insert_row rp_request_digest (\<lambda>r. 0 \<le> rp_epoch r)
      (mk_record hash r p ''pending'' ''CLAIMED'') rows) = Inr rows' \<longleftrightarrow>
    storable r \<and> row_of (rq_digest r) rows = None \<and> rows' = rows @ [mk_record hash r p ''pending'' ''CLAIMED'']"
  by (auto simp: rbind_eq_Inr bind_ints_def insert_row_Inr storable_def row_of_None mk_record_def)

lemma dur_claim_ok:
  assumes "idle c" and "storable r" and "row_of (rq_digest r) (committed c) = None"
  shows "dur_claim hash r p c = (Inr (mk_record hash r p ''pending'' ''CLAIMED''),
    \<lparr>committed = committed c @ [mk_record hash r p ''pending'' ''CLAIMED''], working = None\<rparr>)"
proof -
  have [simp]: "rp_epoch (mk_record hash r p x y) = rq_epoch r" for x y by (simp add: mk_record_def)
  show ?thesis
    using claim_row_inserted [THEN iffD2, of r "committed c" "committed c @ [mk_record hash r p ''pending'' ''CLAIMED'']" hash p]
      assms
    by (simp add: dur_claim_def Let_def transact_idle)
qed

lemma dur_claim_fails:
  assumes "idle c" and "\<not> (storable r \<and> row_of (rq_digest r) (committed c) = None)"
  obtains e where "dur_claim hash r p c = (Inl e, c)"
proof -
  have [simp]: "rp_epoch (mk_record hash r p x y) = rq_epoch r" for x y by (simp add: mk_record_def)
  let ?w = "rbind (bind_ints [rq_epoch r]) (\<lambda>_. insert_row rp_request_digest (\<lambda>r. 0 \<le> rp_epoch r)
      (mk_record hash r p ''pending'' ''CLAIMED'') (committed c))"
  have "?w \<noteq> Inr rows" for rows using assms(2) claim_row_inserted by blast
  then obtain e where e: "?w = Inl e" by (cases ?w) blast+
  obtain x where x: "dur_get hash (rq_digest r) c = (x, c)"
    using dur_get_idle [OF assms(1), of hash "rq_digest r"] by (metis prod.collapse)
  have "\<exists>e. dur_claim hash r p c = (Inl e, c)"
    using e x by (cases x) (simp_all add: dur_claim_def Let_def transact_idle [OF assms(1)] py_simps)
  then show ?thesis using that by blast
qed

lemma dur_finalize_idle:
  assumes "idle c"
  shows "dur_finalize hash r p d st c =
    (if st \<notin> TERMINAL_STATES then (raisef NativeSigilReplayError ''invalid replay final state: {}'' [st], c)
     else case row_of (rq_digest r) (committed c) of
       None \<Rightarrow> (raise NativeSigilReplayError ''request was not durably claimed'', c)
     | Some q \<Rightarrow>
        if rp_state q \<noteq> ''CLAIMED'' then (raise NativeSigilReplayError ''request was not durably claimed'', c)
        else if rp_proof_digest q \<noteq> p then
          (raise NativeSigilReplayError ''claimed proof digest changed before finality'', c)
        else (Inr (mk_record hash r p (ed_digest d) st),
          \<lparr>committed = update_claimed (rq_digest r) st (ed_digest d)
              (rp_digest (mk_record hash r p (ed_digest d) st)) (committed c), working = None\<rparr>))"
  using assms idle_eq [OF assms]
  by (auto simp: dur_finalize_def Let_def py_simps statement_simps idle_def split: option.splits)

interpretation dur: claim_ledger dur_view dur_inv storable "dur_claim hash" "dur_finalize hash" reopen for hash
proof
  fix s r p d st
  assume inv: "dur_inv s"
  then have idle: "idle s" and keys: "distinct (map rp_request_digest (committed s))"
    by (simp_all add: dur_inv_def)
  note fin = dur_finalize_idle [OF idle, of hash r p d st]
  consider (ok) "storable r" "row_of (rq_digest r) (committed s) = None"
      "dur_claim hash r p s = (Inr (mk_record hash r p ''pending'' ''CLAIMED''),
        \<lparr>committed = committed s @ [mk_record hash r p ''pending'' ''CLAIMED''], working = None\<rparr>)"
    | (no) e where "\<not> (storable r \<and> row_of (rq_digest r) (committed s) = None)" "dur_claim hash r p s = (Inl e, s)"
    using dur_claim_ok [OF idle] dur_claim_fails [OF idle, of r hash p] by metis
  note cl = this
  show "refines dur_view (dur_claim hash r p s) s (spec_claim r p (dur_view s))" if "storable r"
    by (cases rule: cl) (use that in \<open>auto simp: refines_def spec_claim_def dur_view_def fun_eq_iff
      row_of_append mk_record_def split: option.splits\<close>)
  show "\<not> is_ok (fst (dur_claim hash r p s)) \<and> dur_view (snd (dur_claim hash r p s)) = dur_view s" if "\<not> storable r"
    by (cases rule: cl) (use that in simp_all)
  show "refines dur_view (dur_finalize hash r p d st s) s (spec_finalize r p st (dur_view s))"
  proof (cases "row_of (rq_digest r) (committed s)")
    case None
    then show ?thesis by (simp add: refines_def spec_finalize_def fin dur_view_def)
  next
    case (Some q)
    have same: "dur_view \<lparr>committed = committed s, working = None\<rparr> = dur_view s" by (simp add: dur_view_def)
    have q: "dur_view s (rq_digest r) = Some (rp_state q, rp_proof_digest q)" by (simp add: dur_view_def Some)
    show ?thesis
      by (cases "rp_state q = ''CLAIMED''")
        (simp_all add: refines_def spec_finalize_def fin q Some view_update_claimed [OF Some] same)
  qed
  show "dur_view (reopen s) = dur_view s" "dur_inv (reopen s)"
    using keys by (simp_all add: dur_view_def dur_inv_def)
  show "dur_inv (snd (dur_claim hash r p s))"
    by (cases rule: cl) (use inv keys in \<open>auto simp: dur_inv_def row_of_None mk_record_def\<close>)
  show "dur_inv (snd (dur_finalize hash r p d st s))"
    using inv keys by (auto simp: dur_inv_def fin update_claimed_keys split: option.splits)
qed

section \<open>Repeated enforcement\<close>

record attempt =
  at_mir :: native_sigil_mir
  at_request :: effect_request
  at_proof :: native_sigil_proof_bundle
  at_bound :: request_bound_proof

text \<open>
  A process that calls \<open>enforce_once\<close> again and again on one ledger, whatever the outcomes. The
  callback is an arbitrary one, made to note the digest of the request it is run on.
\<close>

definition noting :: "(effect_request \<Rightarrow> ('w, 'a) py) \<Rightarrow> effect_request \<Rightarrow> (string list \<times> 'w, 'a) py" where
  "noting effect r = (\<lambda>(log, w). case effect r w of (x, w') \<Rightarrow> (x, (log @ [rq_digest r], w')))"

fun enforce_all ::
  "(string \<Rightarrow> string) \<Rightarrow> (effect_request \<Rightarrow> ('w, 'a) py) \<Rightarrow> attempt list \<Rightarrow> memory \<times> string list \<times> 'w
     \<Rightarrow> memory \<times> string list \<times> 'w" where
  "enforce_all hash effect [] s = s"
| "enforce_all hash effect (a # as) s =
     enforce_all hash effect as (snd (enforce_once hash (at_mir a) (at_request a) (at_proof a) (at_bound a)
       (noting effect) s))"

lemma final_state_of_verdict: "final_state_of (verdict failed) = Inr (if failed = [] then ''COMMITTED''
    else if \<exists>ob \<in> set failed. ob \<in> CONTAINMENT_OBLIGATIONS then ''CONTAINED'' else ''REJECTED'')"
  by (simp add: verdict_def final_state_of_def)

lemma final_state_terminal:
  obtains st where "st \<in> TERMINAL_STATES" and "final_state_of (verdict failed) = Inr st"
  by (rule that [OF _ final_state_of_verdict]) (simp add: TERMINAL_STATES_def)

text \<open>One call: nothing happens, or a fresh digest becomes terminal, and is noted if the callback ran.\<close>

lemma enforce_once_effect:
  assumes "snd (enforce_once hash mir r pb b (noting effect) (m, log, w)) = (m', log', w')"
  shows "(m' = m \<and> log' = log) \<or> (m (rq_digest r) = None \<and> (\<exists>q. m' = m(rq_digest r \<mapsto> q)
    \<and> rp_state q \<in> TERMINAL_STATES
    \<and> (log' = log \<or> log' = log @ [rq_digest r] \<and> rp_state q \<in> {''COMMITTED'', ''UNCERTAIN''})))"
proof (cases "bound_assert_sealed hash b mir r pb = Inr () \<and> m (rq_digest r) = None")
  case False
  then show ?thesis using assms
    by (auto simp: enforce_once_def py_simps on_ledger_def mem_claim_def mem_get_def
        split: sum.splits option.splits)
next
  case True
  then have sealed: "bound_assert_sealed hash b mir r pb = Inr ()" "request_assert_sealed hash r mir = Inr ()"
    using bound_assert_sealed_Inr(1) [of hash b mir r pb] by blast+
  have d: "ed_decision (decision_of hash mir pb i) = verdict (failed_obligations pb)" for i
    by (simp add: decision_of_def Let_def)
  note run = enforce_bound_effect_run [of hash mir r pb b "noting effect" "(log, w)"]
  show ?thesis
  proof (cases "failed_obligations pb = []")
    case ok: True
    with assms True sealed run show ?thesis
      by (cases "effect r w"; cases "fst (effect r w)")
        (auto simp: enforce_once_def py_simps on_ledger_def on_world_def mem_claim_def mem_get_def mem_record_def
          mem_finalize_def noting_def Let_def mk_record_def d final_state_of_verdict TERMINAL_STATES_def)
  next
    case bad: False
    obtain st where st: "st \<in> TERMINAL_STATES" "final_state_of (verdict (failed_obligations pb)) = Inr st"
      by (rule final_state_terminal)
    from bad assms True sealed run st show ?thesis
      by (auto simp: enforce_once_def py_simps on_ledger_def on_world_def mem_claim_def mem_get_def mem_record_def
          mem_finalize_def Let_def mk_record_def d)
  qed
qed

definition ledger_ok :: "memory \<times> string list \<times> 'w \<Rightarrow> bool" where
  "ledger_ok s \<longleftrightarrow> (case s of (m, log, w) \<Rightarrow> distinct log
     \<and> set log \<subseteq> {d. \<exists>q. m d = Some q \<and> rp_state q \<in> {''COMMITTED'', ''UNCERTAIN''}}
     \<and> (\<forall>d q. m d = Some q \<longrightarrow> rp_state q \<in> TERMINAL_STATES))"

lemma ledger_ok_step:
  assumes "ledger_ok s" shows "ledger_ok (snd (enforce_once hash mir r pb b (noting effect) s))"
proof -
  obtain m log w m' log' w' where s: "s = (m, log, w)"
    and t: "snd (enforce_once hash mir r pb b (noting effect) (m, log, w)) = (m', log', w')"
    by (metis prod_cases3)
  from assms have "rq_digest r \<notin> set log" if "m (rq_digest r) = None"
    using that by (auto simp: s ledger_ok_def)
  with enforce_once_effect [OF t] assms show ?thesis unfolding s t
    by (elim disjE conjE exE) (auto simp: ledger_ok_def)
qed

lemma ledger_ok_all: "ledger_ok s \<Longrightarrow> ledger_ok (enforce_all hash effect as s)"
proof (induction as arbitrary: s)
  case (Cons a as)
  from Cons.IH [OF ledger_ok_step [OF Cons.prems]] show ?case unfolding enforce_all.simps .
qed simp

section \<open>Properties\<close>

text \<open>
  Durable at-most-once: in every history of the durable ledger, with claims and finalizations of
  any requests in any order and crashes anywhere between them, the calls that succeed for a given
  request digest are none, or one claim, or one claim followed by one finalization with the
  claimed proof into a terminal state. In particular no digest is ever claimed twice.
\<close>

theorem durable_claim_at_most_once:
  "filter (about d) (fst (run_calls (dur_claim hash) (dur_finalize hash) reopen calls empty_durable))
     \<in> {[]} \<union> {[Claim r p] |r p. True}
       \<union> {[Claim r p, Finalize r' p e st] |r p r' e st. st \<in> TERMINAL_STATES}"
proof -
  have inv: "dur_inv empty_durable" by (simp add: dur_inv_def empty_durable_def)
  have "dur_view empty_durable d = None" by (simp add: dur_view_def empty_durable_def row_of_def)
  with dur.life_of_run [OF inv, of d hash calls] show ?thesis by (auto simp: life_fresh)
qed

text \<open>
  C15. The durable ledger implements the reference ledger: on every sequence of calls whose claimed
  requests have an epoch that the table accepts, the two answer each call alike and end with the same
  state and proof for every digest; crashes of the durable one do not show.
\<close>

theorem durable_refines_memory:
  assumes "\<forall>r p. Claim r p \<in> set calls \<longrightarrow> storable r"
  shows "fst (run_calls (dur_claim hash) (dur_finalize hash) reopen calls empty_durable)
      = fst (run_calls (mem_claim hash) (mem_finalize hash) id calls Map.empty)
    \<and> dur_view (snd (run_calls (dur_claim hash) (dur_finalize hash) reopen calls empty_durable))
      = mem_view (snd (run_calls (mem_claim hash) (mem_finalize hash) id calls Map.empty))"
proof -
  have inv: "dur_inv empty_durable" by (simp add: dur_inv_def empty_durable_def)
  have "dur_view empty_durable = mem_view Map.empty"
    by (simp add: dur_view_def mem_view_def empty_durable_def row_of_def fun_eq_iff)
  with dur.run_is_spec [OF inv assms, of hash] mem.run_is_spec [of calls hash Map.empty]
  show ?thesis by (metis fst_conv snd_conv)
qed

definition some_request :: effect_request where
  "some_request = \<lparr>rq_effect_id = ''e'', rq_subject = ''door'', rq_operation = ''open'', rq_request_digest = ''p'',
     rq_identity_digest = ''i'', rq_epoch = 1, rq_nonce_digest = ''n'', rq_native_mir_fingerprint = ''m'',
     rq_universe_plan_digest = ''u'', rq_digest = ''d'', rq_activation_plan_digest = ''a'', rq_version = 1\<rparr>"

theorem durable_refines_memory_witness:
  "fst (run_calls (dur_claim tail_hash) (dur_finalize tail_hash) reopen
      [Claim some_request ''p'', Recover, Claim some_request ''p''] empty_durable)
   = fst (run_calls (mem_claim tail_hash) (mem_finalize tail_hash) id
      [Claim some_request ''p'', Recover, Claim some_request ''p''] Map.empty)"
proof -
  have "\<forall>r p. Claim r p \<in> set [Claim some_request ''p'', Recover, Claim some_request ''p''] \<longrightarrow> storable r"
    by (simp add: storable_def fits64_def some_request_def)
  from durable_refines_memory [OF this, of tail_hash] show ?thesis by (rule conjunct1)
qed

text \<open>
  C14. A privileged effect runs at most once per request: however often \<open>enforce_once\<close> is called
  on one ledger, with whatever requests, proofs and callback outcomes, no request digest has its
  callback run twice; a digest whose callback ran is recorded \<open>COMMITTED\<close> or, if the callback
  raised, \<open>UNCERTAIN\<close>; and no digest is left in a non-terminal state.
\<close>

theorem effect_at_most_once:
  "case enforce_all hash effect attempts (Map.empty, [], w) of (m, log, w') \<Rightarrow>
     distinct log
   \<and> set log \<subseteq> {d. \<exists>q. m d = Some q \<and> rp_state q \<in> {''COMMITTED'', ''UNCERTAIN''}}
   \<and> {rp_state q |q. q \<in> ran m} \<subseteq> TERMINAL_STATES"
proof -
  have "ledger_ok (enforce_all hash effect attempts (Map.empty, [], w))"
    by (rule ledger_ok_all) (simp add: ledger_ok_def)
  then show ?thesis by (auto simp: ledger_ok_def ran_def split: prod.splits)
qed

end
