(* ===== verification/Epoch_Fence.thy ===== *)
theory Epoch_Fence
  imports Replay Universe_Lifecycle
begin

text \<open>
  The durable epoch fence, \<open>koschei/native_sigil_epoch_tombstone_v1.py\<close>: the current epoch of
  each activation plan, the tombstones of its closed epochs, and the check that admits a request
  only in the current epoch.
\<close>

section \<open>State and operations\<close>

record epoch_record =
  er_activation_plan_digest :: string
  er_current_epoch :: int
  er_previous_epoch :: "int option"
  er_cause_digest :: string
  er_record_digest :: string

record epoch_tombstone =
  et_activation_plan_digest :: string
  et_epoch :: int
  et_cause_digest :: string

record fence_db =
  fd_heads :: "epoch_record list"
  fd_tombstones :: "epoch_tombstone list"

type_synonym fence = "fence_db conn"

definition empty_fence :: fence where
  "empty_fence = \<lparr>committed = \<lparr>fd_heads = [], fd_tombstones = []\<rparr>, working = None\<rparr>"

definition fence_ctx :: string where
  "fence_ctx = ''koschei.native-sigil-epoch-tombstone/v1'' @ [CHR 0x00]"

definition epoch_digest :: "(string \<Rightarrow> string) \<Rightarrow> string \<Rightarrow> int \<Rightarrow> int option \<Rightarrow> string \<Rightarrow> string" where
  "epoch_digest hash plan current previous cause =
     digest_of hash fence_ctx (join nl
       [kv ''plan'' plan, kv ''current'' (str_int current),
        kv ''previous'' (case previous of None \<Rightarrow> [] | Some p \<Rightarrow> str_int p), kv ''cause'' cause])"

definition fence_request_plan :: "effect_request \<Rightarrow> string result" where
  "fence_request_plan request =
     (if rq_activation_plan_digest request = [] then
        raise EpochTombstoneError ''request is not bound to an activation-plan identity''
      else Inr (rq_activation_plan_digest request))"

definition head_of :: "string \<Rightarrow> fence_db \<Rightarrow> epoch_record option" where
  "head_of plan db = find (\<lambda>h. er_activation_plan_digest h = plan) (fd_heads db)"

definition insert_head :: "epoch_record \<Rightarrow> fence_db \<Rightarrow> fence_db result" where
  "insert_head h db =
     rbind (bind_ints (er_current_epoch h # (case er_previous_epoch h of None \<Rightarrow> [] | Some p \<Rightarrow> [p]))) (\<lambda>_.
     rbind (insert_row er_activation_plan_digest (\<lambda>r. 1 \<le> er_current_epoch r) h (fd_heads db)) (\<lambda>heads.
       Inr (db\<lparr>fd_heads := heads\<rparr>)))"

definition insert_tombstone :: "epoch_tombstone \<Rightarrow> fence_db \<Rightarrow> fence_db result" where
  "insert_tombstone t db =
     rbind (bind_ints [et_epoch t]) (\<lambda>_.
     rbind (insert_row (\<lambda>r. (et_activation_plan_digest r, et_epoch r)) (\<lambda>r. 1 \<le> et_epoch r) t (fd_tombstones db))
       (\<lambda>ts. Inr (db\<lparr>fd_tombstones := ts\<rparr>)))"

definition fence_initialize ::
  "(string \<Rightarrow> string) \<Rightarrow> universe_state \<Rightarrow> string \<Rightarrow> (fence, epoch_record) py" where
  "fence_initialize hash state cause =
     (case epochs (us_sigils state) of
        [epoch] \<Rightarrow>
          let record = \<lparr>er_activation_plan_digest = us_activation_plan_digest state,
                er_current_epoch = epoch, er_previous_epoch = None, er_cause_digest = cause,
                er_record_digest = epoch_digest hash (us_activation_plan_digest state) epoch None cause\<rparr>
          in transact (insert_head record)
               (\<lambda>e. if exc_of e = IntegrityError then
                      sthrow (Raise EpochTombstoneError ''epoch fence already initialized for Universe plan'' [])
                    else sthrow e)
               record
      | _ \<Rightarrow> sthrow (Raise EpochTombstoneError ''cannot initialize epoch fence from split-epoch state'' []))"

definition fence_current :: "(string \<Rightarrow> string) \<Rightarrow> string \<Rightarrow> (fence, epoch_record option) py" where
  "fence_current hash plan =
     sbind (select (\<lambda>db. Inr (head_of plan db))) (\<lambda>row.
       case row of
         None \<Rightarrow> sret None
       | Some r \<Rightarrow>
           if epoch_digest hash (er_activation_plan_digest r) (er_current_epoch r) (er_previous_epoch r)
                (er_cause_digest r) \<noteq> er_record_digest r then
             sthrow (Raise EpochTombstoneError ''durable epoch-head integrity mismatch'' [])
           else sret (Some r))"

text \<open>The \<open>UPDATE\<close> of an advance; its row count is the number of heads that matched.\<close>

definition matching_heads :: "string \<Rightarrow> int \<Rightarrow> fence_db \<Rightarrow> nat" where
  "matching_heads plan epoch db =
     length (filter (\<lambda>h. er_activation_plan_digest h = plan \<and> er_current_epoch h = epoch) (fd_heads db))"

definition update_head :: "epoch_record \<Rightarrow> int \<Rightarrow> fence_db \<Rightarrow> fence_db result" where
  "update_head new epoch db =
     rbind (bind_ints (er_current_epoch new # (case er_previous_epoch new of None \<Rightarrow> [] | Some p \<Rightarrow> [p]) @ [epoch])) (\<lambda>_.
       if matching_heads (er_activation_plan_digest new) epoch db \<noteq> 0 \<and> er_current_epoch new < 1 then
         raise IntegrityError ''CHECK constraint failed''
       else Inr (db\<lparr>fd_heads := map (\<lambda>h. if er_activation_plan_digest h = er_activation_plan_digest new
                                            \<and> er_current_epoch h = epoch then new else h) (fd_heads db)\<rparr>))"

definition fence_advance_rebirth ::
  "(string \<Rightarrow> string) \<Rightarrow> universe_state \<Rightarrow> universe_state \<Rightarrow> rebirth_receipt \<Rightarrow> (fence, epoch_record) py" where
  "fence_advance_rebirth hash previous fresh receipt =
     sbind (slift (require_rebirth_receipt hash previous fresh receipt)) (\<lambda>_.
     let plan = rr_activation_plan_digest receipt;
         record = \<lparr>er_activation_plan_digest = plan, er_current_epoch = rr_next_epoch receipt,
           er_previous_epoch = Some (rr_previous_epoch receipt), er_cause_digest = rr_digest receipt,
           er_record_digest = epoch_digest hash plan (rr_next_epoch receipt)
             (Some (rr_previous_epoch receipt)) (rr_digest receipt)\<rparr>
     in sthen begin_immediate
        (sbind (select (\<lambda>db. Inr (head_of plan db))) (\<lambda>head.
           case head of
             None \<Rightarrow> sthen rollback
               (sthrow (Raise EpochTombstoneError ''epoch fence is not initialized for Universe plan'' []))
           | Some h \<Rightarrow>
               if er_current_epoch h \<noteq> rr_previous_epoch receipt then
                 sthen rollback
                   (sthrow (Raise EpochTombstoneError ''rebirth does not advance the current durable epoch'' []))
               else
                 sthen (exec_write (insert_tombstone \<lparr>et_activation_plan_digest = plan,
                          et_epoch = rr_previous_epoch receipt, et_cause_digest = rr_digest receipt\<rparr>))
                 (sbind (select (\<lambda>db. Inr (matching_heads plan (rr_previous_epoch receipt) db))) (\<lambda>changed.
                  sthen (exec_write (update_head record (rr_previous_epoch receipt)))
                  (if changed \<noteq> 1 then
                     sthen rollback
                       (sthrow (Raise EpochTombstoneError ''concurrent or non-monotonic epoch advance rejected'' []))
                   else sthen commit (sret record)))))))"

definition is_tombstoned :: "string \<Rightarrow> int \<Rightarrow> (fence, bool) py" where
  "is_tombstoned plan epoch =
     select (\<lambda>db. rbind (bind_ints [epoch]) (\<lambda>_.
       Inr (list_ex (\<lambda>t. et_activation_plan_digest t = plan \<and> et_epoch t = epoch) (fd_tombstones db))))"

definition require_current_request :: "(string \<Rightarrow> string) \<Rightarrow> effect_request \<Rightarrow> (fence, unit) py" where
  "require_current_request hash request =
     sbind (slift (fence_request_plan request)) (\<lambda>plan.
     sbind (fence_current hash plan) (\<lambda>head.
       case head of
         None \<Rightarrow> sthrow (Raise EpochTombstoneError ''no durable epoch authority for request activation plan'' [])
       | Some h \<Rightarrow>
           sbind (is_tombstoned plan (rq_epoch request)) (\<lambda>dead.
             if dead then
               sthrow (Raise EpochTombstoneError ''request belongs to a tombstoned Universe epoch'' [])
             else if rq_epoch request \<noteq> er_current_epoch h then
               sthrow (Raise EpochTombstoneError ''request epoch is not current: request={} current={}''
                 [str_int (rq_epoch request), str_int (er_current_epoch h)])
             else sret ())))"

section \<open>Histories of the fence\<close>

inductive fence_reach :: "(string \<Rightarrow> string) \<Rightarrow> fence \<Rightarrow> fence \<Rightarrow> bool" for hash c where
  start: "fence_reach hash c c"
| initialize: "fence_reach hash c d \<Longrightarrow> fence_reach hash c (snd (fence_initialize hash state cause d))"
| advance: "fence_reach hash c d \<Longrightarrow> fence_reach hash c (snd (fence_advance_rebirth hash previous fresh receipt d))"
| query: "fence_reach hash c d \<Longrightarrow> fence_reach hash c (snd (require_current_request hash request d))"
| crash: "fence_reach hash c d \<Longrightarrow> fence_reach hash c (reopen d)"

text \<open>
  The state between method calls. Normally no transaction is open; one that an advance left open
  (below) has changed the tombstones only.
\<close>

definition sealed_head :: "(string \<Rightarrow> string) \<Rightarrow> epoch_record \<Rightarrow> bool" where
  "sealed_head hash h \<longleftrightarrow> er_record_digest h = epoch_digest hash (er_activation_plan_digest h)
     (er_current_epoch h) (er_previous_epoch h) (er_cause_digest h)"

definition fence_db_ok :: "(string \<Rightarrow> string) \<Rightarrow> fence_db \<Rightarrow> bool" where
  "fence_db_ok hash db \<longleftrightarrow> distinct (map er_activation_plan_digest (fd_heads db))
     \<and> (\<forall>h \<in> set (fd_heads db). sealed_head hash h \<and> 1 \<le> er_current_epoch h \<and> fits64 (er_current_epoch h))
     \<and> (\<forall>t \<in> set (fd_tombstones db). \<exists>h \<in> set (fd_heads db).
          er_activation_plan_digest h = et_activation_plan_digest t \<and> et_epoch t < er_current_epoch h)"

definition fence_ok :: "(string \<Rightarrow> string) \<Rightarrow> fence \<Rightarrow> bool" where
  "fence_ok hash c \<longleftrightarrow> fence_db_ok hash (committed c)
     \<and> (\<forall>w. working c = Some w \<longrightarrow> fd_heads w = fd_heads (committed c))"

definition epoch_le :: "fence \<Rightarrow> fence \<Rightarrow> bool" where
  "epoch_le c d \<longleftrightarrow> (\<forall>plan h. head_of plan (committed c) = Some h \<longrightarrow>
     (\<exists>k. head_of plan (committed d) = Some k \<and> er_current_epoch h \<le> er_current_epoch k))"

lemma epoch_le_refl [simp]: "epoch_le c c"
  by (simp add: epoch_le_def)

lemma epoch_le_trans: "epoch_le c d \<Longrightarrow> epoch_le d e \<Longrightarrow> epoch_le c e"
  unfolding epoch_le_def by (metis order_trans)

lemma head_of_Some: "head_of plan db = Some h \<Longrightarrow> h \<in> set (fd_heads db) \<and> er_activation_plan_digest h = plan"
  by (auto simp: head_of_def find_Some_iff)

lemma head_of_member:
  assumes "distinct (map er_activation_plan_digest (fd_heads db))" and "h \<in> set (fd_heads db)"
  shows "head_of (er_activation_plan_digest h) db = Some h"
proof -
  obtain k where k: "head_of (er_activation_plan_digest h) db = Some k"
    using assms(2) by (cases "head_of (er_activation_plan_digest h) db") (auto simp: head_of_def find_None_iff)
  with head_of_Some [OF k] assms show ?thesis by (auto simp: distinct_map dest: inj_onD)
qed

lemma require_current_request_state [simp]: "snd (require_current_request hash r c) = c"
  by (auto simp: require_current_request_def py_simps fence_current_def is_tombstoned_def select_def
      split: sum.splits option.splits)

subsection \<open>Initialization\<close>

lemma insert_head_eq_Inr:
  "insert_head h db = Inr db' \<longleftrightarrow> fits64 (er_current_epoch h)
     \<and> (\<forall>p. er_previous_epoch h = Some p \<longrightarrow> fits64 p) \<and> 1 \<le> er_current_epoch h
     \<and> head_of (er_activation_plan_digest h) db = None \<and> db' = db\<lparr>fd_heads := fd_heads db @ [h]\<rparr>"
  by (auto simp: insert_head_def rbind_eq_Inr bind_ints_def insert_row_Inr head_of_def find_None_iff
      split: option.splits)

lemma transact_wedged:
  assumes "working c = Some w"
  shows "transact f handler x c = handler (Raise OperationalError ''cannot start a transaction within a transaction'' [])
    (c\<lparr>working := None\<rparr>)"
  using assms by (simp add: transact_def py_simps begin_immediate_def rollback_def)

lemma head_of_append:
  "head_of plan (db\<lparr>fd_heads := fd_heads db @ [h]\<rparr>) =
     (case head_of plan db of Some k \<Rightarrow> Some k | None \<Rightarrow> if er_activation_plan_digest h = plan then Some h else None)"
  by (auto simp: head_of_def find_append split: option.splits)

lemma fence_db_ok_insert:
  assumes "fence_db_ok hash db" and "insert_head h db = Inr db'" and "sealed_head hash h"
  shows "fence_db_ok hash db'"
  using assms by (auto simp: fence_db_ok_def insert_head_eq_Inr head_of_def find_None_iff)

lemma fence_initialize_ok:
  assumes "fence_ok hash c"
  shows "fence_ok hash (snd (fence_initialize hash state cause c)) \<and> epoch_le c (snd (fence_initialize hash state cause c))"
proof (cases "working c")
  case (Some w)
  then show ?thesis using assms
    by (auto simp: fence_initialize_def py_simps Let_def transact_wedged fence_ok_def epoch_le_def split: list.splits)
next
  case None
  then have idle: "idle c" by (simp add: idle_def)
  show ?thesis
  proof (cases "epochs (us_sigils state)")
    case (Cons e es)
    let ?h = "\<lparr>er_activation_plan_digest = us_activation_plan_digest state,
                er_current_epoch = e, er_previous_epoch = None, er_cause_digest = cause,
                er_record_digest = epoch_digest hash (us_activation_plan_digest state) e None cause\<rparr>"
    have sealed: "sealed_head hash ?h" by (simp add: sealed_head_def)
    show ?thesis
    proof (cases es)
      case Nil
      show ?thesis
      proof (cases "insert_head ?h (committed c)")
        case (Inl x)
        with assms show ?thesis
          by (auto simp: fence_initialize_def Cons Nil Let_def transact_idle [OF idle] py_simps)
      next
        case (Inr db)
        have "fence_db_ok hash db"
          using assms Inr sealed by (auto simp: fence_ok_def intro: fence_db_ok_insert)
        moreover have "head_of plan db = Some k" if "head_of plan (committed c) = Some k" for plan k
          using Inr that by (auto simp: insert_head_eq_Inr head_of_append)
        ultimately show ?thesis using Inr
          by (auto simp: fence_initialize_def Cons Nil Let_def transact_idle [OF idle] fence_ok_def epoch_le_def)
      qed
    qed (use assms in \<open>simp add: fence_initialize_def Cons py_simps\<close>)
  qed (use assms in \<open>simp add: fence_initialize_def py_simps\<close>)
qed

subsection \<open>Advancing\<close>

definition rebirth_head :: "(string \<Rightarrow> string) \<Rightarrow> rebirth_receipt \<Rightarrow> epoch_record" where
  "rebirth_head hash receipt =
     \<lparr>er_activation_plan_digest = rr_activation_plan_digest receipt, er_current_epoch = rr_next_epoch receipt,
      er_previous_epoch = Some (rr_previous_epoch receipt), er_cause_digest = rr_digest receipt,
      er_record_digest = epoch_digest hash (rr_activation_plan_digest receipt) (rr_next_epoch receipt)
        (Some (rr_previous_epoch receipt)) (rr_digest receipt)\<rparr>"

definition rebirth_tombstone :: "rebirth_receipt \<Rightarrow> epoch_tombstone" where
  "rebirth_tombstone receipt = \<lparr>et_activation_plan_digest = rr_activation_plan_digest receipt,
     et_epoch = rr_previous_epoch receipt, et_cause_digest = rr_digest receipt\<rparr>"

lemma fence_advance_idle:
  assumes "idle c"
  shows "fence_advance_rebirth hash previous fresh receipt c =
    (case require_rebirth_receipt hash previous fresh receipt of
       Inl e \<Rightarrow> (Inl e, c)
     | Inr _ \<Rightarrow>
        (case head_of (rr_activation_plan_digest receipt) (committed c) of
           None \<Rightarrow> (raise EpochTombstoneError ''epoch fence is not initialized for Universe plan'', c)
         | Some h \<Rightarrow>
            if er_current_epoch h \<noteq> rr_previous_epoch receipt then
              (raise EpochTombstoneError ''rebirth does not advance the current durable epoch'', c)
            else (case insert_tombstone (rebirth_tombstone receipt) (committed c) of
               Inl e \<Rightarrow> (Inl e, c\<lparr>working := Some (committed c)\<rparr>)
             | Inr db1 \<Rightarrow> (case update_head (rebirth_head hash receipt) (rr_previous_epoch receipt) db1 of
                 Inl e \<Rightarrow> (Inl e, c\<lparr>working := Some db1\<rparr>)
               | Inr db2 \<Rightarrow>
                   if matching_heads (rr_activation_plan_digest receipt) (rr_previous_epoch receipt) db1 \<noteq> 1 then
                     (raise EpochTombstoneError ''concurrent or non-monotonic epoch advance rejected'', c)
                   else (Inr (rebirth_head hash receipt), \<lparr>committed = db2, working = None\<rparr>)))))"
  using assms idle_eq [OF assms]
  by (auto simp: fence_advance_rebirth_def Let_def py_simps statement_simps idle_def
      rebirth_head_def [symmetric] rebirth_tombstone_def [symmetric] split: sum.splits option.splits)

lemma insert_tombstone_eq_Inr:
  "insert_tombstone t db = Inr db' \<longleftrightarrow> fits64 (et_epoch t) \<and> 1 \<le> et_epoch t
     \<and> (\<forall>q \<in> set (fd_tombstones db). (et_activation_plan_digest q, et_epoch q) \<noteq> (et_activation_plan_digest t, et_epoch t))
     \<and> db' = db\<lparr>fd_tombstones := fd_tombstones db @ [t]\<rparr>"
  by (auto simp: insert_tombstone_def rbind_eq_Inr bind_ints_def insert_row_Inr)

lemma matching_heads_one:
  assumes "distinct (map er_activation_plan_digest (fd_heads db))" and "head_of plan db = Some h"
  shows "matching_heads plan (er_current_epoch h) db = 1"
proof -
  have "filter (\<lambda>k. er_activation_plan_digest k = plan \<and> er_current_epoch k = er_current_epoch h) hs = [h]"
    if "distinct (map er_activation_plan_digest hs)" "find (\<lambda>h. er_activation_plan_digest h = plan) hs = Some h" for hs
    using that
  proof (induction hs)
    case (Cons k ks)
    then show ?case
      by (cases "er_activation_plan_digest k = plan") (auto simp: filter_empty_conv image_iff)
  qed simp
  with assms show ?thesis by (simp add: matching_heads_def head_of_def)
qed

lemma update_head_eq_Inr:
  assumes "er_previous_epoch new = Some epoch" and "1 \<le> er_current_epoch new" and "fits64 epoch"
  shows "update_head new epoch db = (if fits64 (er_current_epoch new)
    then Inr (db\<lparr>fd_heads := map (\<lambda>h. if er_activation_plan_digest h = er_activation_plan_digest new
                                            \<and> er_current_epoch h = epoch then new else h) (fd_heads db)\<rparr>)
    else raise OverflowError ''Python int too large to convert to SQLite INTEGER'')"
  using assms by (auto simp: update_head_def bind_ints_def)

definition advanced_db :: "(string \<Rightarrow> string) \<Rightarrow> rebirth_receipt \<Rightarrow> fence_db \<Rightarrow> fence_db" where
  "advanced_db hash receipt db =
     \<lparr>fd_heads = map (\<lambda>h. if er_activation_plan_digest h = rr_activation_plan_digest receipt
                         \<and> er_current_epoch h = rr_previous_epoch receipt then rebirth_head hash receipt else h) (fd_heads db),
      fd_tombstones = fd_tombstones db @ [rebirth_tombstone receipt]\<rparr>"

text \<open>
  An advance on a sound fence, case by case. The last one is the interesting failure: the tombstone is
  already inserted when the new epoch turns out not to fit the column, and the transaction stays open.
\<close>

lemma fence_advance_cases:
  assumes "idle c" and "fence_db_ok hash (committed c)"
  obtains (advanced) h where "require_rebirth_receipt hash previous fresh receipt = Inr ()"
      "head_of (rr_activation_plan_digest receipt) (committed c) = Some h"
      "er_current_epoch h = rr_previous_epoch receipt" "fits64 (rr_previous_epoch receipt + 1)"
      "fence_advance_rebirth hash previous fresh receipt c
        = (Inr (rebirth_head hash receipt), \<lparr>committed = advanced_db hash receipt (committed c), working = None\<rparr>)"
    | (refused) e where "fence_advance_rebirth hash previous fresh receipt c = (Inl e, c)"
        "exc_of e \<in> {UniverseRebirthError, EpochTombstoneError}"
        "\<not> (require_rebirth_receipt hash previous fresh receipt = Inr ()
            \<and> (\<exists>h. head_of (rr_activation_plan_digest receipt) (committed c) = Some h
                  \<and> er_current_epoch h = rr_previous_epoch receipt))"
    | (wedged) h where "require_rebirth_receipt hash previous fresh receipt = Inr ()"
        "head_of (rr_activation_plan_digest receipt) (committed c) = Some h"
        "er_current_epoch h = rr_previous_epoch receipt" "rr_previous_epoch receipt = 2 ^ 63 - 1"
        "fence_advance_rebirth hash previous fresh receipt c
          = (raise OverflowError ''Python int too large to convert to SQLite INTEGER'',
             c\<lparr>working := Some ((committed c)\<lparr>fd_tombstones := fd_tombstones (committed c) @ [rebirth_tombstone receipt]\<rparr>)\<rparr>)"
proof (cases "require_rebirth_receipt hash previous fresh receipt")
  case (Inl e)
  then have "exc_of e = UniverseRebirthError"
    by (auto simp: require_rebirth_receipt_def split: if_splits)
  with Inl show ?thesis by (intro refused [of e]) (simp_all add: fence_advance_idle [OF assms(1)])
next
  case (Inr u)
  note req = Inr
  let ?plan = "rr_activation_plan_digest receipt" and ?e = "rr_previous_epoch receipt"
  show ?thesis
  proof (cases "\<exists>h. head_of ?plan (committed c) = Some h \<and> er_current_epoch h = ?e")
    case False
    then show ?thesis using req refused
      by (cases "head_of ?plan (committed c)") (simp_all add: fence_advance_idle [OF assms(1)])
  next
    case True
    then obtain h where h: "head_of ?plan (committed c) = Some h" "er_current_epoch h = ?e" by blast
    with assms(2) have e: "1 \<le> ?e" "fits64 ?e" and "h \<in> set (fd_heads (committed c))"
      and plan: "er_activation_plan_digest h = ?plan"
      using head_of_Some [OF h(1)] by (auto simp: fence_db_ok_def)
    have d: "distinct (map er_activation_plan_digest (fd_heads (committed c)))"
      using assms(2) by (simp add: fence_db_ok_def)
    have "(et_activation_plan_digest q, et_epoch q) \<noteq> (?plan, ?e)" if "q \<in> set (fd_tombstones (committed c))" for q
    proof -
      from assms(2) that obtain k where "k \<in> set (fd_heads (committed c))"
        "er_activation_plan_digest k = et_activation_plan_digest q" "et_epoch q < er_current_epoch k"
        by (auto simp: fence_db_ok_def)
      with h head_of_member [OF d] show ?thesis by (metis less_irrefl old.prod.inject option.inject)
    qed
    then have t: "insert_tombstone (rebirth_tombstone receipt) (committed c)
        = Inr ((committed c)\<lparr>fd_tombstones := fd_tombstones (committed c) @ [rebirth_tombstone receipt]\<rparr>)" (is "_ = Inr ?db1")
      using e by (simp add: insert_tombstone_eq_Inr rebirth_tombstone_def)
    have m: "matching_heads ?plan ?e ?db1 = 1"
      using matching_heads_one [OF d h(1)] by (simp add: matching_heads_def h(2))
    have next_epoch: "rr_next_epoch receipt = ?e + 1"
      using req by (auto simp: require_rebirth_receipt_def split: if_splits)
    have up: "update_head (rebirth_head hash receipt) ?e ?db1 = (if fits64 (?e + 1)
        then Inr (advanced_db hash receipt (committed c))
        else raise OverflowError ''Python int too large to convert to SQLite INTEGER'')"
      using e by (subst update_head_eq_Inr) (simp_all add: rebirth_head_def next_epoch advanced_db_def)
    have req': "require_rebirth_receipt hash previous fresh receipt = Inr ()" using req by simp
    show ?thesis
    proof (cases "fits64 (?e + 1)")
      case True
      show ?thesis
        by (rule advanced [OF req' h True]) (simp add: fence_advance_idle [OF assms(1)] req h t up m True)
    next
      case False
      then have "?e = 2 ^ 63 - 1" using e by (auto simp: fits64_def)
      show ?thesis
        by (rule wedged [OF req' h \<open>?e = 2 ^ 63 - 1\<close>]) (simp add: fence_advance_idle [OF assms(1)] req h t up False)
    qed
  qed
qed

lemma head_of_advanced:
  assumes "distinct (map er_activation_plan_digest (fd_heads db))"
    and "head_of (rr_activation_plan_digest receipt) db = Some h" and "er_current_epoch h = rr_previous_epoch receipt"
  shows "head_of plan (advanced_db hash receipt db) =
    (if plan = rr_activation_plan_digest receipt then Some (rebirth_head hash receipt) else head_of plan db)"
proof -
  let ?up = "\<lambda>k. if er_activation_plan_digest k = rr_activation_plan_digest receipt
      \<and> er_current_epoch k = rr_previous_epoch receipt then rebirth_head hash receipt else k"
  have key: "er_activation_plan_digest (?up k) = er_activation_plan_digest k" for k by (simp add: rebirth_head_def)
  have "find (\<lambda>k. er_activation_plan_digest k = plan) (map ?up hs)
      = map_option ?up (find (\<lambda>k. er_activation_plan_digest k = plan) hs)" for hs
    by (induction hs) (auto simp: rebirth_head_def)
  then have "head_of plan (advanced_db hash receipt db) = map_option ?up (head_of plan db)"
    by (simp add: head_of_def advanced_db_def)
  with assms(2,3) head_of_Some [OF assms(2)] show ?thesis
    by (cases "head_of plan db") (auto dest: head_of_Some)
qed

lemma advanced_db_ok:
  assumes ok: "fence_db_ok hash db"
    and h: "head_of (rr_activation_plan_digest receipt) db = Some h" "er_current_epoch h = rr_previous_epoch receipt"
    and e: "rr_next_epoch receipt = rr_previous_epoch receipt + 1" "fits64 (rr_previous_epoch receipt + 1)"
  shows "fence_db_ok hash (advanced_db hash receipt db)"
proof -
  from ok have d: "distinct (map er_activation_plan_digest (fd_heads db))" by (simp add: fence_db_ok_def)
  have heads: "map er_activation_plan_digest (fd_heads (advanced_db hash receipt db))
      = map er_activation_plan_digest (fd_heads db)"
    by (simp add: advanced_db_def comp_def rebirth_head_def)
  have hm: "h \<in> set (fd_heads db)" "er_activation_plan_digest h = rr_activation_plan_digest receipt"
    using head_of_Some [OF h(1)] by simp_all
  have pos: "1 \<le> rr_previous_epoch receipt" using ok hm(1) h(2) by (auto simp: fence_db_ok_def)
  have sealed: "sealed_head hash (rebirth_head hash receipt)" by (simp add: sealed_head_def rebirth_head_def)
  have all: "\<forall>k \<in> set (fd_heads (advanced_db hash receipt db)).
      sealed_head hash k \<and> 1 \<le> er_current_epoch k \<and> fits64 (er_current_epoch k)"
    using ok sealed e pos by (auto simp: advanced_db_def fence_db_ok_def) (simp_all add: rebirth_head_def)
  have "\<exists>k \<in> set (fd_heads (advanced_db hash receipt db)).
      er_activation_plan_digest k = et_activation_plan_digest t \<and> et_epoch t < er_current_epoch k"
    if "t \<in> set (fd_tombstones (advanced_db hash receipt db))" for t
  proof -
    have "rebirth_head hash receipt \<in> set (fd_heads (advanced_db hash receipt db))"
      using hm h(2) by (auto simp: advanced_db_def image_iff)
    moreover have "t = rebirth_tombstone receipt \<or> t \<in> set (fd_tombstones db)"
      using that by (auto simp: advanced_db_def)
    moreover have ?thesis if "t = rebirth_tombstone receipt"
      using that calculation(1) e by (intro bexI [of _ "rebirth_head hash receipt"])
        (simp_all add: rebirth_tombstone_def rebirth_head_def)
    moreover have ?thesis if "t \<in> set (fd_tombstones db)"
    proof -
      from ok that obtain k where k: "k \<in> set (fd_heads db)"
        "er_activation_plan_digest k = et_activation_plan_digest t" "et_epoch t < er_current_epoch k"
        by (auto simp: fence_db_ok_def)
      show ?thesis
      proof (cases "er_activation_plan_digest k = rr_activation_plan_digest receipt
          \<and> er_current_epoch k = rr_previous_epoch receipt")
        case True
        with k calculation(1) e show ?thesis
          by (intro bexI [of _ "rebirth_head hash receipt"]) (simp_all add: rebirth_head_def)
      next
        case False
        with k show ?thesis by (intro bexI [of _ k]) (auto simp: advanced_db_def image_iff)
      qed
    qed
    ultimately show ?thesis by blast
  qed
  with d heads all show ?thesis by (simp only: fence_db_ok_def) blast
qed

lemma fence_advance_ok:
  assumes "fence_ok hash c"
  shows "fence_ok hash (snd (fence_advance_rebirth hash previous fresh receipt c))
    \<and> epoch_le c (snd (fence_advance_rebirth hash previous fresh receipt c))"
proof (cases "working c")
  case (Some w)
  then have "snd (fence_advance_rebirth hash previous fresh receipt c) = c"
    by (simp add: fence_advance_rebirth_def py_simps Let_def begin_immediate_def split: sum.splits)
  with assms show ?thesis by simp
next
  case None
  then have idle: "idle c" by (simp add: idle_def)
  from assms have ok: "fence_db_ok hash (committed c)" by (simp add: fence_ok_def)
  show ?thesis using idle ok
  proof (cases rule: fence_advance_cases [of c hash previous fresh receipt])
    case (advanced h)
    then have e: "rr_next_epoch receipt = rr_previous_epoch receipt + 1"
      by (auto simp: require_rebirth_receipt_def split: if_splits)
    have d: "distinct (map er_activation_plan_digest (fd_heads (committed c)))" using ok by (simp add: fence_db_ok_def)
    have "er_current_epoch (rebirth_head hash receipt) = er_current_epoch h + 1"
      using e advanced(3) by (simp add: rebirth_head_def)
    with advanced advanced_db_ok [OF ok advanced(2,3) e advanced(4)] head_of_advanced [OF d advanced(2,3)]
    show ?thesis by (auto simp: fence_ok_def epoch_le_def)
  next
    case (refused e)
    with assms show ?thesis by simp
  next
    case (wedged h)
    with ok show ?thesis by (simp add: fence_ok_def epoch_le_def)
  qed
qed

lemma fence_reach_ok:
  "fence_reach hash c d \<Longrightarrow> fence_ok hash c \<Longrightarrow> fence_ok hash d \<and> epoch_le c d"
proof (induction rule: fence_reach.induct)
  case (initialize d state cause)
  then have "fence_ok hash d" and le: "epoch_le c d" by simp_all
  from fence_initialize_ok [OF this(1)] epoch_le_trans [OF le] show ?case by blast
next
  case (advance d previous fresh receipt)
  then have "fence_ok hash d" and le: "epoch_le c d" by simp_all
  from fence_advance_ok [OF this(1)] epoch_le_trans [OF le] show ?case by blast
next
  case (crash d)
  then have "fence_ok hash d" and le: "epoch_le c d" by simp_all
  then have "fence_ok hash (reopen d)" by (simp add: fence_ok_def reopen_def)
  moreover from le have "epoch_le c (reopen d)" unfolding epoch_le_def committed_reopen .
  ultimately show ?case ..
qed simp_all

lemma empty_fence_ok: "fence_ok hash empty_fence"
  by (simp add: fence_ok_def fence_db_ok_def empty_fence_def)

lemma head_of_view:
  "fence_ok hash c \<Longrightarrow> head_of plan (view c) = head_of plan (committed c)"
  by (cases "working c") (auto simp: fence_ok_def head_of_def view_def)

lemma admitted_epoch:
  assumes "fence_ok hash c" and "fst (require_current_request hash r c) = Inr ()"
  obtains h where "head_of (rq_activation_plan_digest r) (committed c) = Some h"
    and "er_current_epoch h = rq_epoch r"
  using assms(2) head_of_view [OF assms(1)]
  by (auto simp: require_current_request_def py_simps fence_request_plan_def fence_current_def is_tombstoned_def
      select_def split: if_splits sum.splits option.splits)

section \<open>Properties\<close>

text \<open>
  The fence only moves forward: in every history of initializations, advances, queries and
  crashes, once the durable epoch of a plan is \<open>e\<close>, no later state admits a request of that plan
  with an epoch below \<open>e\<close>; a request is admitted only with the plan's durable current epoch.
\<close>

theorem fence_is_monotone:
  assumes "fence_reach hash empty_fence c" and "head_of plan (committed c) = Some h"
    and "fence_reach hash c d" and "rq_activation_plan_digest r = plan"
    and "fst (require_current_request hash r d) = Inr ()"
  shows "er_current_epoch h \<le> rq_epoch r
    \<and> (\<exists>k. head_of plan (committed d) = Some k \<and> er_current_epoch k = rq_epoch r)"
proof -
  from fence_reach_ok [OF assms(1) empty_fence_ok] have "fence_ok hash c" by simp
  with fence_reach_ok [OF assms(3)] have d: "fence_ok hash d" "epoch_le c d" by simp_all
  obtain k where k: "head_of plan (committed d) = Some k" "er_current_epoch k = rq_epoch r"
    using admitted_epoch [OF d(1) assms(5)] assms(4) by metis
  with d(2) assms(2) show ?thesis unfolding epoch_le_def by (metis option.inject)
qed

text \<open>
  On a fence reached without an interrupted advance, the check is exact: a request of a plan with
  a durable head is admitted if and only if its epoch is the plan's current epoch.
\<close>

theorem fence_admits_exactly_current:
  assumes "fence_reach hash empty_fence c" and "idle c"
    and "head_of (rq_activation_plan_digest r) (committed c) = Some h" and "rq_activation_plan_digest r \<noteq> []"
  shows "fst (require_current_request hash r c) = Inr () \<longleftrightarrow> rq_epoch r = er_current_epoch h"
proof
  from fence_reach_ok [OF assms(1) empty_fence_ok] have ok: "fence_ok hash c" by simp
  show "rq_epoch r = er_current_epoch h" if "fst (require_current_request hash r c) = Inr ()"
    using admitted_epoch [OF ok that] assms(3) by (metis option.inject)
  assume e: "rq_epoch r = er_current_epoch h"
  from ok have db: "fence_db_ok hash (committed c)" by (simp add: fence_ok_def)
  from head_of_Some [OF assms(3)] have h: "h \<in> set (fd_heads (committed c))"
    "er_activation_plan_digest h = rq_activation_plan_digest r" by simp_all
  have "\<not> (et_activation_plan_digest t = rq_activation_plan_digest r \<and> et_epoch t = er_current_epoch h)"
    if "t \<in> set (fd_tombstones (committed c))" for t
  proof
    assume t: "et_activation_plan_digest t = rq_activation_plan_digest r \<and> et_epoch t = er_current_epoch h"
    from db that obtain k where k: "k \<in> set (fd_heads (committed c))"
      "er_activation_plan_digest k = et_activation_plan_digest t" "et_epoch t < er_current_epoch k"
      by (auto simp: fence_db_ok_def)
    have "head_of (er_activation_plan_digest k) (committed c) = Some k"
      using db k(1) by (intro head_of_member) (simp_all add: fence_db_ok_def)
    with k t assms(3) show False by simp
  qed
  moreover from db h(1) have "sealed_head hash h" "fits64 (er_current_epoch h)" by (auto simp: fence_db_ok_def)
  ultimately show "fst (require_current_request hash r c) = Inr ()"
    using assms(2-4) e
    by (auto simp: require_current_request_def py_simps fence_request_plan_def fence_current_def is_tombstoned_def
        sealed_head_def bind_ints_def list_ex_iff)
qed

section \<open>Concrete histories\<close>

definition head_one :: "string \<Rightarrow> epoch_record" where
  "head_one plan = \<lparr>er_activation_plan_digest = plan, er_current_epoch = 1, er_previous_epoch = None,
     er_cause_digest = ''genesis'', er_record_digest = epoch_digest tail_hash plan 1 None ''genesis''\<rparr>"

definition fence_one :: fence where
  "fence_one = snd (fence_initialize tail_hash (initial_state_of tail_hash [''ka''] 1) ''genesis'' empty_fence)"

abbreviation ka_plan :: string where
  "ka_plan \<equiv> act_digest (activation_plan_of tail_hash [''ka''])"

lemma fence_one_eq: "fence_one = \<lparr>committed = \<lparr>fd_heads = [head_one ka_plan], fd_tombstones = []\<rparr>, working = None\<rparr>"
proof -
  have idle: "idle empty_fence" by (simp add: empty_fence_def)
  have e: "epochs (us_sigils (initial_state_of tail_hash [''ka''] 1)) = [1]"
    by (simp add: initial_state_of_def Let_def epochs_def)
  have p: "us_activation_plan_digest (initial_state_of tail_hash [''ka''] 1) = ka_plan"
    by (simp add: initial_state_of_def Let_def)
  show ?thesis unfolding fence_one_def fence_initialize_def e p
    by (simp add: Let_def transact_idle [OF idle])
      (simp add: insert_head_def bind_ints_def fits64_def insert_row_def empty_fence_def head_one_def)
qed

lemma fence_one_reach: "fence_reach tail_hash empty_fence fence_one"
  unfolding fence_one_def by (rule fence_reach.initialize [OF fence_reach.start])

definition ka_request :: "int \<Rightarrow> effect_request" where
  "ka_request e = some_request\<lparr>rq_activation_plan_digest := ka_plan, rq_epoch := e\<rparr>"

lemma ka_plan_nonempty: "ka_plan \<noteq> []"
  using tail_hash.digest_nonempty by (simp add: activation_plan_of_def)

lemma fence_one_head: "head_of ka_plan (committed fence_one) = Some (head_one ka_plan)"
  by (simp add: fence_one_eq head_of_def head_one_def)

theorem fence_admits_exactly_current_witness:
  "fst (require_current_request tail_hash (ka_request 1) fence_one) = Inr ()
   \<and> fst (require_current_request tail_hash (ka_request 2) fence_one) \<noteq> Inr ()"
proof -
  have i: "idle fence_one" by (simp add: fence_one_eq)
  have h: "head_of (rq_activation_plan_digest (ka_request e)) (committed fence_one) = Some (head_one ka_plan)" for e
    using fence_one_head by (simp add: ka_request_def)
  have n: "rq_activation_plan_digest (ka_request e) \<noteq> []" for e by (simp add: ka_request_def ka_plan_nonempty)
  show ?thesis
    using fence_admits_exactly_current [OF fence_one_reach i h n, of 1]
      fence_admits_exactly_current [OF fence_one_reach i h n, of 2]
    by (simp add: ka_request_def head_one_def)
qed

lemma fence_one_admits: "fst (require_current_request tail_hash (ka_request 1) fence_one) = Inr ()"
  by (simp add: require_current_request_def py_simps fence_request_plan_def ka_request_def ka_plan_nonempty
      fence_current_def is_tombstoned_def fence_one_eq select_def view_def head_of_def head_one_def bind_ints_def
      fits64_def)

theorem fence_is_monotone_witness:
  "fst (require_current_request tail_hash (ka_request 1) fence_one) = Inr ()
   \<and> er_current_epoch (head_one ka_plan) \<le> rq_epoch (ka_request 1)"
proof -
  have "rq_activation_plan_digest (ka_request 1) = ka_plan" by (simp add: ka_request_def)
  from fence_is_monotone [OF fence_one_reach fence_one_head fence_reach.start this fence_one_admits]
  show ?thesis using fence_one_admits by blast
qed


lemma ka_rebirth:
  obtains c f r where "contain_universe tail_hash (initial_state_of tail_hash [''ka''] 1) ''alarm'' = Inr c"
    and "require_rebirth_receipt tail_hash c f r = Inr ()"
    and "rr_previous_epoch r = 1" and "rr_activation_plan_digest r = ka_plan"
proof -
  let ?s = "initial_state_of tail_hash [''ka''] 1"
  have can: "canonical_sequence [''ka'']" by (simp add: canonical_sequence_def CANONICAL_SIGIL_ORDER_def)
  obtain c where c: "contain_universe tail_hash ?s ''alarm'' = Inr c" by (simp add: contain_universe_def Let_def)
  obtain r where r: "require_rebirth_receipt tail_hash c (initial_state_of tail_hash [''ka''] (1 + 1)) r = Inr ()"
    "rr_previous_epoch r = 1"
    by (rule rebirth_works [OF lifecycle_reach.start can _ c, of "''proof''"]) auto
  have "rr_activation_plan_digest r = us_activation_plan_digest c"
    using r(1) by (auto simp: require_rebirth_receipt_def split: if_splits)
  also have "\<dots> = ka_plan" using contain_universe_evolves(1) [OF c] by (simp add: initial_state_of_def Let_def)
  finally show ?thesis using c r by (intro that)
qed


end
