(* ===== verification/Coordinator.thy ===== *)
theory Coordinator
  imports Epoch_Fence
begin

text \<open>
  The atomic execution coordinator,
  \<open>koschei/native_sigil_atomic_execution_coordinator_v1.py\<close>: epoch heads, epoch tombstones and
  execution claims in one database, with the epoch check and the claim in one transaction.
\<close>

section \<open>State and operations\<close>

record atomic_claim_row =
  ac_request_digest :: string
  ac_activation_plan_digest :: string
  ac_epoch :: int
  ac_proof_digest :: string
  ac_state :: string
  ac_digest :: string

record execution_head =
  eh_activation_plan_digest :: string
  eh_current_epoch :: int
  eh_frozen :: bool
  eh_cause_digest :: string
  eh_digest :: string

record coordinator_db =
  cd_heads :: "execution_head list"
  cd_tombstones :: "epoch_tombstone list"
  cd_claims :: "atomic_claim_row list"

type_synonym coordinator = "coordinator_db conn"

definition empty_coordinator :: coordinator where
  "empty_coordinator = \<lparr>committed = \<lparr>cd_heads = [], cd_tombstones = [], cd_claims = []\<rparr>, working = None\<rparr>"

definition coordinator_ctx :: string where
  "coordinator_ctx = ''koschei.native-sigil-atomic-execution-coordinator/v1'' @ [CHR 0x00]"

definition head_digest :: "(string \<Rightarrow> string) \<Rightarrow> string \<Rightarrow> int \<Rightarrow> bool \<Rightarrow> string \<Rightarrow> string" where
  "head_digest hash plan epoch frozen cause =
     digest_of hash (coordinator_ctx @ ''head'' @ [CHR 0x00])
       (join nl [plan, str_int epoch, str_bool frozen, cause])"

definition claim_digest :: "(string \<Rightarrow> string) \<Rightarrow> string \<Rightarrow> string \<Rightarrow> int \<Rightarrow> string \<Rightarrow> string \<Rightarrow> string" where
  "claim_digest hash request plan epoch pfe state =
     digest_of hash (coordinator_ctx @ ''claim'' @ [CHR 0x00])
       (join nl [request, plan, str_int epoch, pfe, state])"

definition coordinator_request_plan :: "effect_request \<Rightarrow> string result" where
  "coordinator_request_plan request =
     (if rq_activation_plan_digest request \<noteq> [] then Inr (rq_activation_plan_digest request)
      else if rq_universe_plan_digest request = [] then
        raise AtomicExecutionCoordinatorError ''request has no activation-plan identity''
      else Inr (rq_universe_plan_digest request))"

definition xhead :: "string \<Rightarrow> coordinator_db \<Rightarrow> execution_head option" where
  "xhead plan db = find (\<lambda>h. eh_activation_plan_digest h = plan) (cd_heads db)"

definition xclaim :: "string \<Rightarrow> coordinator_db \<Rightarrow> atomic_claim_row option" where
  "xclaim d db = find (\<lambda>a. ac_request_digest a = d) (cd_claims db)"

definition tombstoned :: "string \<Rightarrow> int \<Rightarrow> coordinator_db \<Rightarrow> bool" where
  "tombstoned plan epoch db =
     list_ex (\<lambda>t. et_activation_plan_digest t = plan \<and> et_epoch t = epoch) (cd_tombstones db)"

definition insert_xhead :: "execution_head \<Rightarrow> coordinator_db \<Rightarrow> coordinator_db result" where
  "insert_xhead h db =
     rbind (bind_ints [eh_current_epoch h]) (\<lambda>_.
     rbind (insert_row eh_activation_plan_digest (\<lambda>r. 1 \<le> eh_current_epoch r) h (cd_heads db)) (\<lambda>heads.
       Inr (db\<lparr>cd_heads := heads\<rparr>)))"

definition insert_xtombstone :: "epoch_tombstone \<Rightarrow> coordinator_db \<Rightarrow> coordinator_db result" where
  "insert_xtombstone t db =
     rbind (bind_ints [et_epoch t]) (\<lambda>_.
     rbind (insert_row (\<lambda>r. (et_activation_plan_digest r, et_epoch r)) (\<lambda>r. 1 \<le> et_epoch r) t (cd_tombstones db))
       (\<lambda>ts. Inr (db\<lparr>cd_tombstones := ts\<rparr>)))"

definition insert_claim :: "atomic_claim_row \<Rightarrow> coordinator_db \<Rightarrow> coordinator_db result" where
  "insert_claim a db =
     rbind (bind_ints [ac_epoch a]) (\<lambda>_.
     rbind (insert_row ac_request_digest (\<lambda>r. 1 \<le> ac_epoch r) a (cd_claims db)) (\<lambda>cs.
       Inr (db\<lparr>cd_claims := cs\<rparr>)))"

text \<open>\<open>UPDATE execution_epoch_heads ... WHERE activation_plan_digest=? AND current_epoch=? AND frozen=?\<close>.\<close>

definition matches :: "string \<Rightarrow> int \<Rightarrow> bool \<Rightarrow> execution_head \<Rightarrow> bool" where
  "matches plan epoch frozen h \<longleftrightarrow> eh_activation_plan_digest h = plan \<and> eh_current_epoch h = epoch
     \<and> eh_frozen h = frozen"

definition matching_xheads :: "string \<Rightarrow> int \<Rightarrow> bool \<Rightarrow> coordinator_db \<Rightarrow> nat" where
  "matching_xheads plan epoch frozen db = length (filter (matches plan epoch frozen) (cd_heads db))"

definition update_xhead :: "string \<Rightarrow> int \<Rightarrow> bool \<Rightarrow> execution_head \<Rightarrow> coordinator_db \<Rightarrow> coordinator_db result" where
  "update_xhead plan epoch frozen new db =
     rbind (bind_ints [eh_current_epoch new, epoch]) (\<lambda>_.
       if matching_xheads plan epoch frozen db \<noteq> 0 \<and> eh_current_epoch new < 1 then
         raise IntegrityError ''CHECK constraint failed''
       else Inr (db\<lparr>cd_heads := map (\<lambda>h. if matches plan epoch frozen h then new else h) (cd_heads db)\<rparr>))"

definition coordinator_initialize ::
  "(string \<Rightarrow> string) \<Rightarrow> universe_state \<Rightarrow> string \<Rightarrow> (coordinator, execution_head) py" where
  "coordinator_initialize hash state cause =
     (case epochs (us_sigils state) of
        [epoch] \<Rightarrow>
          let head = \<lparr>eh_activation_plan_digest = us_activation_plan_digest state, eh_current_epoch = epoch,
                eh_frozen = False, eh_cause_digest = cause,
                eh_digest = head_digest hash (us_activation_plan_digest state) epoch False cause\<rparr>
          in transact (insert_xhead head)
               (\<lambda>e. if exc_of e = IntegrityError then
                      sthrow (Raise AtomicExecutionCoordinatorError ''execution coordinator already initialized'' [])
                    else sthrow e)
               head
      | _ \<Rightarrow> sthrow (Raise AtomicExecutionCoordinatorError
               ''split-epoch Universe cannot initialize execution coordinator'' []))"

definition coordinator_current :: "(string \<Rightarrow> string) \<Rightarrow> string \<Rightarrow> (coordinator, execution_head option) py" where
  "coordinator_current hash plan =
     sbind (select (\<lambda>db. Inr (xhead plan db))) (\<lambda>row.
       case row of
         None \<Rightarrow> sret None
       | Some h \<Rightarrow>
           if eh_digest h \<noteq> head_digest hash (eh_activation_plan_digest h) (eh_current_epoch h) (eh_frozen h)
                (eh_cause_digest h) then
             sthrow (Raise AtomicExecutionCoordinatorError ''execution epoch-head integrity mismatch'' [])
           else sret (Some h))"

definition atomic_claim_of :: "(string \<Rightarrow> string) \<Rightarrow> effect_request \<Rightarrow> string \<Rightarrow> string \<Rightarrow> atomic_claim_row" where
  "atomic_claim_of hash request plan pfe =
     \<lparr>ac_request_digest = rq_digest request, ac_activation_plan_digest = plan, ac_epoch = rq_epoch request,
      ac_proof_digest = pfe, ac_state = ''CLAIMED'',
      ac_digest = claim_digest hash (rq_digest request) plan (rq_epoch request) pfe ''CLAIMED''\<rparr>"

definition atomic_claim_body ::
  "(string \<Rightarrow> string) \<Rightarrow> effect_request \<Rightarrow> string \<Rightarrow> string \<Rightarrow> (coordinator, atomic_claim_row) py" where
  "atomic_claim_body hash request plan pfe =
     sthen begin_immediate
     (sbind (select (\<lambda>db. Inr (xhead plan db))) (\<lambda>head.
        case head of
          None \<Rightarrow> sthrow (Raise AtomicExecutionCoordinatorError
                    ''no durable execution authority for request Universe'' [])
        | Some h \<Rightarrow>
            if eh_frozen h then
              sthrow (Raise AtomicExecutionCoordinatorError ''Universe execution boundary is frozen'' [])
            else if rq_epoch request \<noteq> eh_current_epoch h then
              sthrow (Raise AtomicExecutionCoordinatorError ''request epoch is not current: request={} current={}''
                [str_int (rq_epoch request), str_int (eh_current_epoch h)])
            else
              sbind (select (\<lambda>db. rbind (bind_ints [rq_epoch request]) (\<lambda>_. Inr (tombstoned plan (rq_epoch request) db))))
              (\<lambda>dead.
                if dead then
                  sthrow (Raise AtomicExecutionCoordinatorError ''request belongs to a tombstoned epoch'' [])
                else
                  let a = atomic_claim_of hash request plan pfe in
                  sthen (exec_write (insert_claim a)) (sthen commit (sret a)))))"

definition atomic_claim ::
  "(string \<Rightarrow> string) \<Rightarrow> effect_request \<Rightarrow> string \<Rightarrow> (coordinator, atomic_claim_row) py" where
  "atomic_claim hash request pfe =
     (if pfe = [] then
        sthrow (Raise AtomicExecutionCoordinatorError ''atomic claim requires proof digest'' [])
      else sbind (slift (coordinator_request_plan request)) (\<lambda>plan.
        stry (atomic_claim_body hash request plan pfe)
          (\<lambda>e. sthen rollback
            (if exc_of e = IntegrityError then
               sthrow (Raise AtomicExecutionCoordinatorError ''privileged request already claimed or consumed'' [])
             else sthrow e))))"

definition terminal_proof :: "(string \<Rightarrow> string) \<Rightarrow> string \<Rightarrow> string \<Rightarrow> string" where
  "terminal_proof hash pfe decision =
     digest_of hash (coordinator_ctx @ ''finality'' @ [CHR 0x00]) (pfe @ nl @ decision)"

definition finalized :: "(string \<Rightarrow> string) \<Rightarrow> atomic_claim_row \<Rightarrow> string \<Rightarrow> string \<Rightarrow> atomic_claim_row" where
  "finalized hash a state decision =
     a\<lparr>ac_proof_digest := terminal_proof hash (ac_proof_digest a) decision, ac_state := state,
       ac_digest := claim_digest hash (ac_request_digest a) (ac_activation_plan_digest a) (ac_epoch a)
         (terminal_proof hash (ac_proof_digest a) decision) state\<rparr>"

definition update_xclaim :: "atomic_claim_row \<Rightarrow> coordinator_db \<Rightarrow> coordinator_db" where
  "update_xclaim new db = db\<lparr>cd_claims := map (\<lambda>r.
     if ac_request_digest r = ac_request_digest new \<and> ac_state r = ''CLAIMED''
     then r\<lparr>ac_proof_digest := ac_proof_digest new, ac_state := ac_state new, ac_digest := ac_digest new\<rparr>
     else r) (cd_claims db)\<rparr>"

definition finalize_claim ::
  "(string \<Rightarrow> string) \<Rightarrow> atomic_claim_row \<Rightarrow> string \<Rightarrow> string \<Rightarrow> (coordinator, atomic_claim_row) py" where
  "finalize_claim hash a state decision =
     (if state \<notin> TERMINAL_STATES then
        sthrow (Raise AtomicExecutionCoordinatorError ''invalid claim final state: {}'' [state])
      else if decision = [] then
        sthrow (Raise AtomicExecutionCoordinatorError ''claim finality requires decision digest'' [])
      else
        let new = finalized hash a state decision in
        sthen begin_immediate
        (sbind (select (\<lambda>db. Inr (xclaim (ac_request_digest a) db))) (\<lambda>row.
           if (case row of None \<Rightarrow> True
               | Some r \<Rightarrow> ac_state r \<noteq> ''CLAIMED'' \<or> ac_proof_digest r \<noteq> ac_proof_digest a) then
             sthen rollback (sthrow (Raise AtomicExecutionCoordinatorError
               ''claim is missing, changed, or already finalized'' []))
           else sthen (exec_write (\<lambda>db. Inr (update_xclaim new db))) (sthen commit (sret new)))))"

definition nuclear_head :: "(string \<Rightarrow> string) \<Rightarrow> string \<Rightarrow> nuclear_receipt \<Rightarrow> execution_head" where
  "nuclear_head hash plan receipt =
     \<lparr>eh_activation_plan_digest = plan, eh_current_epoch = nr_epoch receipt, eh_frozen = True,
      eh_cause_digest = nr_digest receipt,
      eh_digest = head_digest hash plan (nr_epoch receipt) True (nr_digest receipt)\<rparr>"

definition apply_nuclear_containment ::
  "(string \<Rightarrow> string) \<Rightarrow> universe_state \<Rightarrow> universe_state \<Rightarrow> nuclear_receipt \<Rightarrow> (coordinator, execution_head) py" where
  "apply_nuclear_containment hash previous frozen receipt =
     sbind (slift (require_nuclear_containment hash previous frozen receipt)) (\<lambda>_.
     let plan = us_activation_plan_digest previous; new = nuclear_head hash plan receipt in
     stry
       (sthen begin_immediate
       (sbind (select (\<lambda>db. Inr (xhead plan db))) (\<lambda>head.
          case head of
            None \<Rightarrow> sthrow (Raise AtomicExecutionCoordinatorError ''execution coordinator is not initialized'' [])
          | Some h \<Rightarrow>
              if eh_current_epoch h \<noteq> nr_epoch receipt then
                sthrow (Raise AtomicExecutionCoordinatorError
                  ''nuclear receipt does not match durable current epoch'' [])
              else if eh_frozen h then
                sthrow (Raise AtomicExecutionCoordinatorError ''Universe execution boundary is already frozen'' [])
              else
                sthen (exec_write (insert_xtombstone \<lparr>et_activation_plan_digest = plan, et_epoch = nr_epoch receipt,
                         et_cause_digest = nr_digest receipt\<rparr>))
                (sbind (select (\<lambda>db. Inr (matching_xheads plan (nr_epoch receipt) False db))) (\<lambda>changed.
                 sthen (exec_write (update_xhead plan (nr_epoch receipt) False new))
                 (if changed \<noteq> 1 then
                    sthrow (Raise AtomicExecutionCoordinatorError ''concurrent nuclear containment rejected'' [])
                  else sthen commit (sret new)))))))
       (\<lambda>e. sthen rollback (sthrow e)))"

definition reborn_head :: "(string \<Rightarrow> string) \<Rightarrow> rebirth_receipt \<Rightarrow> execution_head" where
  "reborn_head hash receipt =
     \<lparr>eh_activation_plan_digest = rr_activation_plan_digest receipt, eh_current_epoch = rr_next_epoch receipt,
      eh_frozen = False, eh_cause_digest = rr_digest receipt,
      eh_digest = head_digest hash (rr_activation_plan_digest receipt) (rr_next_epoch receipt) False (rr_digest receipt)\<rparr>"

definition coordinator_advance_rebirth ::
  "(string \<Rightarrow> string) \<Rightarrow> universe_state \<Rightarrow> universe_state \<Rightarrow> rebirth_receipt \<Rightarrow> (coordinator, execution_head) py" where
  "coordinator_advance_rebirth hash previous fresh receipt =
     sbind (slift (require_rebirth_receipt hash previous fresh receipt)) (\<lambda>_.
     let plan = rr_activation_plan_digest receipt; new = reborn_head hash receipt in
     stry
       (sthen begin_immediate
       (sbind (select (\<lambda>db. Inr (xhead plan db))) (\<lambda>head.
          case head of
            None \<Rightarrow> sthrow (Raise AtomicExecutionCoordinatorError ''execution coordinator is not initialized'' [])
          | Some h \<Rightarrow>
              if eh_current_epoch h \<noteq> rr_previous_epoch receipt \<or> \<not> eh_frozen h then
                sthrow (Raise AtomicExecutionCoordinatorError ''rebirth requires the frozen previous durable epoch'' [])
              else
                sbind (select (\<lambda>db. rbind (bind_ints [rr_previous_epoch receipt]) (\<lambda>_.
                         Inr (tombstoned plan (rr_previous_epoch receipt) db)))) (\<lambda>dead.
                 if \<not> dead then
                   sthrow (Raise AtomicExecutionCoordinatorError ''rebirth requires previous epoch tombstone'' [])
                 else
                   sbind (select (\<lambda>db. Inr (matching_xheads plan (rr_previous_epoch receipt) True db))) (\<lambda>changed.
                   sthen (exec_write (update_xhead plan (rr_previous_epoch receipt) True new))
                   (if changed \<noteq> 1 then
                      sthrow (Raise AtomicExecutionCoordinatorError ''concurrent or non-monotonic rebirth rejected'' [])
                    else sthen commit (sret new)))))))
       (\<lambda>e. sthen rollback (sthrow e)))"

section \<open>Histories of the coordinator\<close>

inductive coordinator_reach :: "(string \<Rightarrow> string) \<Rightarrow> coordinator \<Rightarrow> coordinator \<Rightarrow> bool" for hash c where
  start: "coordinator_reach hash c c"
| initialize: "coordinator_reach hash c d \<Longrightarrow> coordinator_reach hash c (snd (coordinator_initialize hash state cause d))"
| claim: "coordinator_reach hash c d \<Longrightarrow> coordinator_reach hash c (snd (atomic_claim hash request pfe d))"
| finalize: "coordinator_reach hash c d \<Longrightarrow> coordinator_reach hash c (snd (finalize_claim hash a st decision d))"
| nuclear: "coordinator_reach hash c d \<Longrightarrow>
     coordinator_reach hash c (snd (apply_nuclear_containment hash previous frozen receipt d))"
| rebirth: "coordinator_reach hash c d \<Longrightarrow>
     coordinator_reach hash c (snd (coordinator_advance_rebirth hash previous fresh rreceipt d))"
| crash: "coordinator_reach hash c d \<Longrightarrow> coordinator_reach hash c (reopen d)"

subsection \<open>Heads and claims\<close>

lemma xhead_Some: "xhead plan db = Some h \<Longrightarrow> h \<in> set (cd_heads db) \<and> eh_activation_plan_digest h = plan"
  by (auto simp: xhead_def find_Some_iff)

lemma xclaim_Some: "xclaim d db = Some a \<Longrightarrow> a \<in> set (cd_claims db) \<and> ac_request_digest a = d"
  by (auto simp: xclaim_def find_Some_iff)

definition replace_head :: "execution_head \<Rightarrow> execution_head \<Rightarrow> coordinator_db \<Rightarrow> coordinator_db" where
  "replace_head old new db = db\<lparr>cd_heads := map (\<lambda>h.
     if matches (eh_activation_plan_digest old) (eh_current_epoch old) (eh_frozen old) h then new else h) (cd_heads db)\<rparr>"

lemma matching_xheads_one:
  assumes "distinct (map eh_activation_plan_digest (cd_heads db))" and "xhead plan db = Some h"
  shows "matching_xheads plan (eh_current_epoch h) (eh_frozen h) db = 1"
proof -
  have "filter (matches plan (eh_current_epoch h) (eh_frozen h)) hs = [h]"
    if "distinct (map eh_activation_plan_digest hs)" "find (\<lambda>h. eh_activation_plan_digest h = plan) hs = Some h" for hs
    using that
  proof (induction hs)
    case (Cons k ks)
    then show ?case
      by (cases "eh_activation_plan_digest k = plan") (auto simp: filter_empty_conv image_iff matches_def)
  qed simp
  with assms show ?thesis by (simp add: matching_xheads_def xhead_def)
qed

lemma xhead_replace:
  assumes "xhead (eh_activation_plan_digest old) db = Some old"
    and "eh_activation_plan_digest new = eh_activation_plan_digest old"
  shows "xhead plan (replace_head old new db) =
    (if plan = eh_activation_plan_digest old then Some new else xhead plan db)"
proof -
  let ?up = "\<lambda>h. if matches (eh_activation_plan_digest old) (eh_current_epoch old) (eh_frozen old) h then new else h"
  have "find (\<lambda>h. eh_activation_plan_digest h = plan) (map ?up hs)
      = map_option ?up (find (\<lambda>h. eh_activation_plan_digest h = plan) hs)" for hs
    using assms(2) by (induction hs) (auto simp: matches_def)
  then have "xhead plan (replace_head old new db) = map_option ?up (xhead plan db)"
    by (simp add: xhead_def replace_head_def)
  with assms(1) show ?thesis
    by (cases "xhead plan db") (auto simp: matches_def dest: xhead_Some)
qed

lemma replace_head_plans:
  assumes "eh_activation_plan_digest new = eh_activation_plan_digest old"
  shows "map eh_activation_plan_digest (cd_heads (replace_head old new db)) = map eh_activation_plan_digest (cd_heads db)"
  using assms by (auto simp: replace_head_def matches_def)

text \<open>The invariant of the database.\<close>

definition coordinator_ok :: "coordinator_db \<Rightarrow> bool" where
  "coordinator_ok db \<longleftrightarrow> distinct (map eh_activation_plan_digest (cd_heads db))
     \<and> (\<forall>plan h. xhead plan db = Some h \<longrightarrow> 1 \<le> eh_current_epoch h \<and> fits64 (eh_current_epoch h)
          \<and> (eh_frozen h \<longrightarrow> tombstoned plan (eh_current_epoch h) db))
     \<and> (\<forall>plan e. tombstoned plan e db \<longrightarrow>
          (\<exists>h. xhead plan db = Some h \<and> (e < eh_current_epoch h \<or> e = eh_current_epoch h \<and> eh_frozen h)))
     \<and> (\<forall>d a. xclaim d db = Some a \<longrightarrow>
          (\<exists>h. xhead (ac_activation_plan_digest a) db = Some h \<and> ac_epoch a \<le> eh_current_epoch h))"

text \<open>How the database may change from one method call to the next.\<close>

definition head_le :: "execution_head \<Rightarrow> execution_head \<Rightarrow> bool" where
  "head_le h k \<longleftrightarrow> eh_current_epoch h < eh_current_epoch k
     \<or> eh_current_epoch h = eh_current_epoch k \<and> (eh_frozen h \<longrightarrow> eh_frozen k)"

definition claim_le :: "atomic_claim_row \<Rightarrow> atomic_claim_row \<Rightarrow> bool" where
  "claim_le a b \<longleftrightarrow> ac_request_digest b = ac_request_digest a
     \<and> ac_activation_plan_digest b = ac_activation_plan_digest a \<and> ac_epoch b = ac_epoch a
     \<and> (b = a \<or> ac_state a = ''CLAIMED'' \<and> ac_state b \<in> TERMINAL_STATES)"

definition coordinator_le :: "coordinator_db \<Rightarrow> coordinator_db \<Rightarrow> bool" where
  "coordinator_le c d \<longleftrightarrow>
     (\<forall>plan h. xhead plan c = Some h \<longrightarrow> (\<exists>k. xhead plan d = Some k \<and> head_le h k))
     \<and> (\<forall>r a. xclaim r c = Some a \<longrightarrow> (\<exists>b. xclaim r d = Some b \<and> claim_le a b))"

lemma head_le_refl [simp]: "head_le h h" and head_le_trans: "head_le h k \<Longrightarrow> head_le k l \<Longrightarrow> head_le h l"
  by (auto simp: head_le_def)

lemma claimed_not_terminal: "''CLAIMED'' \<notin> TERMINAL_STATES"
  by (simp add: TERMINAL_STATES_def)

lemma claim_le_refl [simp]: "claim_le a a" and claim_le_trans: "claim_le a b \<Longrightarrow> claim_le b c \<Longrightarrow> claim_le a c"
  using claimed_not_terminal by (auto simp: claim_le_def)

lemma coordinator_le_refl [simp]: "coordinator_le c c"
  by (auto simp: coordinator_le_def)

lemma coordinator_le_trans: "coordinator_le c d \<Longrightarrow> coordinator_le d e \<Longrightarrow> coordinator_le c e"
  unfolding coordinator_le_def by (meson claim_le_trans head_le_trans)

lemma coordinator_ok_heads:
  assumes "coordinator_ok db" and "xhead plan db = Some h"
  shows "1 \<le> eh_current_epoch h" and "fits64 (eh_current_epoch h)"
    and "eh_frozen h \<Longrightarrow> tombstoned plan (eh_current_epoch h) db"
    and "matching_xheads plan (eh_current_epoch h) (eh_frozen h) db = 1"
  using assms matching_xheads_one by (auto simp: coordinator_ok_def)

lemma coordinator_ok_tombstoned:
  assumes "coordinator_ok db" and "xhead plan db = Some h" and "tombstoned plan e db"
  shows "e < eh_current_epoch h \<or> e = eh_current_epoch h \<and> eh_frozen h"
  using assms unfolding coordinator_ok_def by (metis option.inject)

lemma coordinator_ok_claims:
  assumes "coordinator_ok db" and "xclaim d db = Some a"
  shows "\<exists>h. xhead (ac_activation_plan_digest a) db = Some h \<and> ac_epoch a \<le> eh_current_epoch h"
  using assms by (simp add: coordinator_ok_def)

subsection \<open>Claiming\<close>

definition claim_ready :: "effect_request \<Rightarrow> string \<Rightarrow> string \<Rightarrow> coordinator_db \<Rightarrow> bool" where
  "claim_ready r p plan db \<longleftrightarrow> p \<noteq> [] \<and> coordinator_request_plan r = Inr plan
     \<and> (\<exists>h. xhead plan db = Some h \<and> \<not> eh_frozen h \<and> rq_epoch r = eh_current_epoch h)
     \<and> xclaim (rq_digest r) db = None"

lemma insert_claim_eq:
  assumes "fits64 (ac_epoch a)" and "1 \<le> ac_epoch a"
  shows "insert_claim a db = (if xclaim (ac_request_digest a) db = None
    then Inr (db\<lparr>cd_claims := cd_claims db @ [a]\<rparr>) else raise IntegrityError ''UNIQUE constraint failed'')"
  using assms by (auto simp: insert_claim_def bind_ints_def insert_row_def list_ex_iff xclaim_def find_None_iff)

lemma atomic_claim_ready:
  assumes "idle c" and "coordinator_ok (committed c)" and "claim_ready r p plan (committed c)"
  shows "atomic_claim hash r p c = (Inr (atomic_claim_of hash r plan p),
    \<lparr>committed = (committed c)\<lparr>cd_claims := cd_claims (committed c) @ [atomic_claim_of hash r plan p]\<rparr>, working = None\<rparr>)"
proof -
  from assms(3) obtain h where h: "xhead plan (committed c) = Some h" "\<not> eh_frozen h" "rq_epoch r = eh_current_epoch h"
    and r: "p \<noteq> []" "coordinator_request_plan r = Inr plan" "xclaim (rq_digest r) (committed c) = None"
    by (auto simp: claim_ready_def)
  note k = coordinator_ok_heads [OF assms(2) h(1)]
  have t: "\<not> tombstoned plan (eh_current_epoch h) (committed c)"
    using coordinator_ok_tombstoned [OF assms(2) h(1)] h(2) by blast
  have "insert_claim (atomic_claim_of hash r plan p) (committed c)
      = Inr ((committed c)\<lparr>cd_claims := cd_claims (committed c) @ [atomic_claim_of hash r plan p]\<rparr>)"
    using k r(3) h(3) by (subst insert_claim_eq) (simp_all add: atomic_claim_of_def)
  with h r t k idle_eq [OF assms(1)] assms(1) show ?thesis
    by (simp add: atomic_claim_def atomic_claim_body_def Let_def py_simps statement_simps bind_ints_def idle_def)
qed

lemma atomic_claim_refused:
  assumes "idle c" and "coordinator_ok (committed c)" and "\<nexists>plan. claim_ready r p plan (committed c)"
  shows "\<exists>e. atomic_claim hash r p c = (Inl e, c)"
proof -
  have restore: "c\<lparr>working := None\<rparr> = c" using idle_eq [OF assms(1)] by (metis conn.update_convs(2))
  show ?thesis
  proof (cases "p = [] \<or> \<not> is_ok (coordinator_request_plan r)")
    case True
    then show ?thesis
      by (cases "p = []"; cases "coordinator_request_plan r") (simp_all add: atomic_claim_def py_simps)
  next
    case False
    then obtain plan where p: "p \<noteq> []" "coordinator_request_plan r = Inr plan" by (auto simp: is_ok_iff)
    show ?thesis
    proof (cases "xhead plan (committed c)")
      case None
      with p assms(1) restore show ?thesis
        by (auto simp: atomic_claim_def atomic_claim_body_def py_simps statement_simps idle_def)
    next
      case (Some h)
      note k = coordinator_ok_heads [OF assms(2) Some]
      show ?thesis
      proof (cases "eh_frozen h \<or> rq_epoch r \<noteq> eh_current_epoch h")
        case True
        with Some p assms(1) restore show ?thesis
          by (auto simp: atomic_claim_def atomic_claim_body_def py_simps statement_simps idle_def)
      next
        case False
        with assms(3) p Some have "xclaim (rq_digest r) (committed c) \<noteq> None" by (auto simp: claim_ready_def)
        moreover have "\<not> tombstoned plan (eh_current_epoch h) (committed c)"
          using coordinator_ok_tombstoned [OF assms(2) Some] False by blast
        moreover have "ac_epoch (atomic_claim_of hash r plan p) = eh_current_epoch h"
          "ac_request_digest (atomic_claim_of hash r plan p) = rq_digest r"
          using False by (simp_all add: atomic_claim_of_def)
        ultimately show ?thesis using False Some p assms(1) restore k
          by (auto simp: atomic_claim_def atomic_claim_body_def py_simps statement_simps idle_def
              bind_ints_def Let_def insert_claim_eq)
      qed
    qed
  qed
qed

lemma xclaim_append:
  "xclaim d (db\<lparr>cd_claims := cd_claims db @ [a]\<rparr>) =
     (case xclaim d db of Some b \<Rightarrow> Some b | None \<Rightarrow> if ac_request_digest a = d then Some a else None)"
  by (auto simp: xclaim_def find_append split: option.splits)

lemma untouched [simp]:
  "xhead plan (db\<lparr>cd_claims := cs\<rparr>) = xhead plan db" "tombstoned plan e (db\<lparr>cd_claims := cs\<rparr>) = tombstoned plan e db"
  "xclaim d (db\<lparr>cd_tombstones := ts\<rparr>) = xclaim d db" "xhead plan (db\<lparr>cd_tombstones := ts\<rparr>) = xhead plan db"
  "xclaim d (db\<lparr>cd_heads := hs\<rparr>) = xclaim d db" "tombstoned plan e (db\<lparr>cd_heads := hs\<rparr>) = tombstoned plan e db"
  "xclaim d (replace_head old new db) = xclaim d db" "tombstoned plan e (replace_head old new db) = tombstoned plan e db"
  by (simp_all add: xhead_def tombstoned_def xclaim_def replace_head_def)

definition sound :: "coordinator \<Rightarrow> bool" where
  "sound c \<longleftrightarrow> idle c \<and> coordinator_ok (committed c)"

text \<open>A method call keeps soundness and moves the database forward.\<close>

definition steps_to :: "coordinator \<Rightarrow> coordinator \<Rightarrow> bool" where
  "steps_to c d \<longleftrightarrow> sound d \<and> coordinator_le (committed c) (committed d)"

lemma steps_to_refl: "sound c \<Longrightarrow> steps_to c c"
  by (simp add: steps_to_def)

lemma steps_toI:
  "coordinator_ok db \<Longrightarrow> coordinator_le (committed c) db \<Longrightarrow> steps_to c \<lparr>committed = db, working = None\<rparr>"
  by (simp add: steps_to_def sound_def)

lemma claim_steps:
  assumes "sound c" shows "steps_to c (snd (atomic_claim hash r p c))"
proof (cases "\<exists>plan. claim_ready r p plan (committed c)")
  case True
  then obtain plan where ready: "claim_ready r p plan (committed c)" by blast
  let ?a = "atomic_claim_of hash r plan p"
  let ?db = "(committed c)\<lparr>cd_claims := cd_claims (committed c) @ [?a]\<rparr>"
  have a: "ac_activation_plan_digest ?a = plan" "ac_epoch ?a = rq_epoch r" "ac_request_digest ?a = rq_digest r"
    by (simp_all add: atomic_claim_of_def)
  have ok: "coordinator_ok (committed c)" using assms by (simp add: sound_def)
  have "\<exists>h. xhead (ac_activation_plan_digest b) ?db = Some h \<and> ac_epoch b \<le> eh_current_epoch h"
    if "xclaim d ?db = Some b" for d b
    using that ok ready a
    by (auto simp: xclaim_append coordinator_ok_def claim_ready_def split: option.splits if_splits)
  then have "coordinator_ok ?db" using ok unfolding coordinator_ok_def by simp
  moreover have "coordinator_le (committed c) ?db"
    by (auto simp: coordinator_le_def xclaim_append)
  ultimately show ?thesis
    using atomic_claim_ready [OF _ ok ready, of hash] assms steps_toI by (simp add: sound_def)
next
  case False
  with assms atomic_claim_refused [of c r p hash] show ?thesis
    by (auto simp: sound_def intro!: steps_to_refl)
qed

subsection \<open>Finalization\<close>

definition finalize_ready :: "atomic_claim_row \<Rightarrow> string \<Rightarrow> string \<Rightarrow> coordinator_db \<Rightarrow> bool" where
  "finalize_ready a st decision db \<longleftrightarrow> st \<in> TERMINAL_STATES \<and> decision \<noteq> []
     \<and> (\<exists>r. xclaim (ac_request_digest a) db = Some r \<and> ac_state r = ''CLAIMED'' \<and> ac_proof_digest r = ac_proof_digest a)"

lemma finalize_claim_idle:
  assumes "idle c"
  shows "finalize_claim hash a st decision c =
    (if finalize_ready a st decision (committed c)
     then (Inr (finalized hash a st decision), \<lparr>committed = update_xclaim (finalized hash a st decision) (committed c), working = None\<rparr>)
     else (fst (finalize_claim hash a st decision c), c))
    \<and> (is_ok (fst (finalize_claim hash a st decision c)) \<longleftrightarrow> finalize_ready a st decision (committed c))"
proof -
  have restore: "c\<lparr>working := None\<rparr> = c" using idle_eq [OF assms] by (metis conn.update_convs(2))
  show ?thesis using assms restore
    by (auto simp: finalize_claim_def finalize_ready_def py_simps statement_simps idle_def Let_def split: option.splits)
qed

lemma xclaim_update:
  "xclaim d (update_xclaim new db) = map_option (\<lambda>r.
     if ac_request_digest r = ac_request_digest new \<and> ac_state r = ''CLAIMED''
     then r\<lparr>ac_proof_digest := ac_proof_digest new, ac_state := ac_state new, ac_digest := ac_digest new\<rparr>
     else r) (xclaim d db)"
proof -
  have "find (\<lambda>a. ac_request_digest a = d) (map (\<lambda>r.
     if ac_request_digest r = ac_request_digest new \<and> ac_state r = ''CLAIMED''
     then r\<lparr>ac_proof_digest := ac_proof_digest new, ac_state := ac_state new, ac_digest := ac_digest new\<rparr>
     else r) cs) = map_option (\<lambda>r.
     if ac_request_digest r = ac_request_digest new \<and> ac_state r = ''CLAIMED''
     then r\<lparr>ac_proof_digest := ac_proof_digest new, ac_state := ac_state new, ac_digest := ac_digest new\<rparr>
     else r) (find (\<lambda>a. ac_request_digest a = d) cs)" for cs
    by (induction cs) auto
  then show ?thesis by (simp add: xclaim_def update_xclaim_def)
qed

lemma finalize_steps:
  assumes "sound c" shows "steps_to c (snd (finalize_claim hash a st decision c))"
proof (cases "finalize_ready a st decision (committed c)")
  case True
  let ?new = "finalized hash a st decision"
  let ?db = "update_xclaim ?new (committed c)"
  have new: "ac_state ?new = st" by (simp add: finalized_def)
  have keep: "xhead plan ?db = xhead plan (committed c)" "tombstoned plan e ?db = tombstoned plan e (committed c)"
    "cd_heads ?db = cd_heads (committed c)" for plan e
    by (simp_all add: update_xclaim_def xhead_def tombstoned_def)
  have later: "\<exists>b. xclaim d ?db = Some b \<and> claim_le r b" if "xclaim d (committed c) = Some r" for d r
    using that True by (auto simp: xclaim_update claim_le_def new finalize_ready_def)
  have fields: "\<exists>r. xclaim d (committed c) = Some r \<and> ac_activation_plan_digest b = ac_activation_plan_digest r
      \<and> ac_epoch b = ac_epoch r" if "xclaim d ?db = Some b" for d b
    using that by (auto simp: xclaim_update)
  have ok: "coordinator_ok (committed c)" using assms by (simp add: sound_def)
  have "\<exists>h. xhead (ac_activation_plan_digest b) (committed c) = Some h \<and> ac_epoch b \<le> eh_current_epoch h"
    if "xclaim d ?db = Some b" for d b
  proof -
    from fields [OF that] obtain r where r: "xclaim d (committed c) = Some r"
      "ac_activation_plan_digest b = ac_activation_plan_digest r" "ac_epoch b = ac_epoch r" by blast
    from coordinator_ok_claims [OF ok r(1)] show ?thesis unfolding r(2,3) .
  qed
  then have "coordinator_ok ?db" using ok unfolding coordinator_ok_def keep by blast
  moreover have "coordinator_le (committed c) ?db" unfolding coordinator_le_def keep using later by auto
  ultimately show ?thesis
    using finalize_claim_idle [of c hash a st decision] assms True steps_toI by (simp add: sound_def)
next
  case False
  then have "snd (finalize_claim hash a st decision c) = c"
    using finalize_claim_idle [of c hash a st decision] assms by (metis snd_conv sound_def)
  with assms show ?thesis by (simp add: steps_to_refl)
qed

subsection \<open>Moving a head\<close>

text \<open>Containment and rebirth both replace the head of one plan, adding tombstones of that plan.\<close>

definition move_head ::
  "execution_head \<Rightarrow> execution_head \<Rightarrow> epoch_tombstone list \<Rightarrow> coordinator_db \<Rightarrow> coordinator_db" where
  "move_head old new ts db = replace_head old new (db\<lparr>cd_tombstones := cd_tombstones db @ ts\<rparr>)"

lemma move_head_xhead:
  assumes "xhead plan db = Some old" and "eh_activation_plan_digest new = plan"
  shows "xhead p (move_head old new ts db) = (if p = plan then Some new else xhead p db)"
proof -
  have "eh_activation_plan_digest old = plan" using xhead_Some [OF assms(1)] by simp
  with assms show ?thesis
    using xhead_replace [of old "db\<lparr>cd_tombstones := cd_tombstones db @ ts\<rparr>" new p] by (simp add: move_head_def)
qed

lemma move_head_tombstoned:
  "tombstoned p e (move_head old new ts db) \<longleftrightarrow>
     tombstoned p e db \<or> (\<exists>t \<in> set ts. et_activation_plan_digest t = p \<and> et_epoch t = e)"
  by (auto simp: move_head_def) (auto simp: tombstoned_def list_ex_iff)

lemma move_head_steps:
  assumes ok: "coordinator_ok db" and h: "xhead plan db = Some old" and p: "eh_activation_plan_digest new = plan"
    and le: "head_le old new" and epoch: "1 \<le> eh_current_epoch new" "fits64 (eh_current_epoch new)"
    and ts: "\<forall>t \<in> set ts. et_activation_plan_digest t = plan
      \<and> (et_epoch t < eh_current_epoch new \<or> et_epoch t = eh_current_epoch new \<and> eh_frozen new)"
    and frozen: "eh_frozen new \<longrightarrow> (\<exists>t \<in> set ts. et_epoch t = eh_current_epoch new)"
  shows "coordinator_ok (move_head old new ts db)" and "coordinator_le db (move_head old new ts db)"
proof -
  let ?db = "move_head old new ts db"
  note xh = move_head_xhead [OF h p, of _ ts]
  have claims: "xclaim d ?db = xclaim d db" for d by (simp add: move_head_def)
  have "map eh_activation_plan_digest (cd_heads ?db) = map eh_activation_plan_digest (cd_heads db)"
    using xhead_Some [OF h] p by (simp add: move_head_def replace_head_plans)
  then have dist: "distinct (map eh_activation_plan_digest (cd_heads ?db))" using ok by (simp add: coordinator_ok_def)
  have heads: "1 \<le> eh_current_epoch k \<and> fits64 (eh_current_epoch k) \<and> (eh_frozen k \<longrightarrow> tombstoned q (eh_current_epoch k) ?db)"
    if "xhead q ?db = Some k" for q k
  proof (cases "q = plan")
    case True
    with that epoch frozen ts show ?thesis unfolding xh move_head_tombstoned by auto
  next
    case False
    with that have "xhead q db = Some k" by (simp add: xh)
    from coordinator_ok_heads(1-3) [OF ok this] show ?thesis by (simp add: move_head_tombstoned)
  qed
  have tombs: "\<exists>k. xhead q ?db = Some k \<and> (e < eh_current_epoch k \<or> e = eh_current_epoch k \<and> eh_frozen k)"
    if "tombstoned q e ?db" for q e
  proof (cases "tombstoned q e db")
    case True
    with ok obtain k where k: "xhead q db = Some k" "e < eh_current_epoch k \<or> e = eh_current_epoch k \<and> eh_frozen k"
      unfolding coordinator_ok_def by blast
    with h le show ?thesis unfolding xh by (cases "q = plan") (auto simp: head_le_def)
  next
    case False
    with that ts show ?thesis by (auto simp: move_head_tombstoned xh)
  qed
  have cl: "\<exists>k. xhead (ac_activation_plan_digest a) ?db = Some k \<and> ac_epoch a \<le> eh_current_epoch k"
    if "xclaim d db = Some a" for d a
  proof -
    from coordinator_ok_claims [OF ok that] obtain k where
      k: "xhead (ac_activation_plan_digest a) db = Some k" "ac_epoch a \<le> eh_current_epoch k" by blast
    with h le show ?thesis unfolding xh
      by (cases "ac_activation_plan_digest a = plan") (auto simp: head_le_def)
  qed
  show "coordinator_ok ?db" unfolding coordinator_ok_def claims using dist heads tombs cl by blast
  have "\<exists>k. xhead q ?db = Some k \<and> head_le j k" if "xhead q db = Some j" for q j
    using that h le unfolding xh by (cases "q = plan") auto
  then show "coordinator_le db ?db" unfolding coordinator_le_def claims by auto
qed

subsection \<open>Nuclear containment\<close>

definition nuclear_ready :: "universe_state \<Rightarrow> nuclear_receipt \<Rightarrow> execution_head \<Rightarrow> coordinator_db \<Rightarrow> bool" where
  "nuclear_ready previous receipt h db \<longleftrightarrow> xhead (us_activation_plan_digest previous) db = Some h
     \<and> eh_current_epoch h = nr_epoch receipt \<and> \<not> eh_frozen h"

definition contained_db :: "(string \<Rightarrow> string) \<Rightarrow> universe_state \<Rightarrow> nuclear_receipt \<Rightarrow> execution_head \<Rightarrow> coordinator_db \<Rightarrow> coordinator_db" where
  "contained_db hash previous receipt h db =
     move_head h (nuclear_head hash (us_activation_plan_digest previous) receipt)
       [\<lparr>et_activation_plan_digest = us_activation_plan_digest previous,
          et_epoch = nr_epoch receipt, et_cause_digest = nr_digest receipt\<rparr>] db"

lemma insert_xtombstone_fresh:
  assumes "\<not> tombstoned (et_activation_plan_digest t) (et_epoch t) db" and "fits64 (et_epoch t)" and "1 \<le> et_epoch t"
  shows "insert_xtombstone t db = Inr (db\<lparr>cd_tombstones := cd_tombstones db @ [t]\<rparr>)"
  using assms by (simp add: insert_xtombstone_def bind_ints_def insert_row_def tombstoned_def)

lemma update_xhead_ok:
  assumes "fits64 (eh_current_epoch new)" and "fits64 (eh_current_epoch old)" and "1 \<le> eh_current_epoch new"
  shows "update_xhead (eh_activation_plan_digest old) (eh_current_epoch old) (eh_frozen old) new db
    = Inr (replace_head old new db)"
  using assms by (simp add: update_xhead_def bind_ints_def replace_head_def)

lemma matching_xheads_cong [simp]:
  "matching_xheads plan e f (db\<lparr>cd_tombstones := ts\<rparr>) = matching_xheads plan e f db"
  by (simp add: matching_xheads_def)

lemma nuclear_applies:
  assumes "idle c" and ok: "coordinator_ok (committed c)"
    and req: "require_nuclear_containment hash previous frozen receipt = Inr ()"
    and ready: "nuclear_ready previous receipt h (committed c)"
  shows "apply_nuclear_containment hash previous frozen receipt c =
    (Inr (nuclear_head hash (us_activation_plan_digest previous) receipt),
     \<lparr>committed = contained_db hash previous receipt h (committed c), working = None\<rparr>)"
proof -
  let ?plan = "us_activation_plan_digest previous" and ?new = "nuclear_head hash (us_activation_plan_digest previous) receipt"
  let ?t = "\<lparr>et_activation_plan_digest = ?plan, et_epoch = nr_epoch receipt, et_cause_digest = nr_digest receipt\<rparr>"
  from ready have h: "xhead ?plan (committed c) = Some h" and e: "eh_current_epoch h = nr_epoch receipt" "\<not> eh_frozen h"
    by (simp_all add: nuclear_ready_def)
  have plan: "eh_activation_plan_digest h = ?plan" using xhead_Some [OF h] by simp
  note k = coordinator_ok_heads [OF ok h]
  have fresh: "\<not> tombstoned ?plan (nr_epoch receipt) (committed c)"
    using coordinator_ok_tombstoned [OF ok h, of "nr_epoch receipt"] e by auto
  have t: "insert_xtombstone ?t (committed c) = Inr ((committed c)\<lparr>cd_tombstones := cd_tombstones (committed c) @ [?t]\<rparr>)"
    using fresh k e by (intro insert_xtombstone_fresh) simp_all
  have u: "update_xhead ?plan (nr_epoch receipt) False ?new ((committed c)\<lparr>cd_tombstones := cd_tombstones (committed c) @ [?t]\<rparr>)
      = Inr (contained_db hash previous receipt h (committed c))"
    using update_xhead_ok [of ?new h] k e plan by (simp add: nuclear_head_def contained_db_def move_head_def)
  have m: "matching_xheads ?plan (nr_epoch receipt) False (committed c) = 1" using k(4) e by simp
  show ?thesis
    using assms(1) idle_eq [OF assms(1)] req h e t u m
    by (simp add: apply_nuclear_containment_def Let_def py_simps statement_simps idle_def)
qed

lemma nuclear_refused:
  assumes "idle c"
    and "\<not> (require_nuclear_containment hash previous frozen receipt = Inr () \<and> (\<exists>h. nuclear_ready previous receipt h (committed c)))"
  shows "\<exists>e. apply_nuclear_containment hash previous frozen receipt c = (Inl e, c)"
proof -
  have restore: "c\<lparr>working := None\<rparr> = c" using idle_eq [OF assms(1)] by (metis conn.update_convs(2))
  show ?thesis
  proof (cases "require_nuclear_containment hash previous frozen receipt")
    case (Inr u)
    with assms restore show ?thesis
      by (cases "xhead (us_activation_plan_digest previous) (committed c)")
        (auto simp: apply_nuclear_containment_def Let_def py_simps statement_simps idle_def nuclear_ready_def)
  qed (simp add: apply_nuclear_containment_def py_simps)
qed

lemma contained_db_steps:
  assumes ok: "coordinator_ok db" and ready: "nuclear_ready previous receipt h db"
  shows "coordinator_ok (contained_db hash previous receipt h db)"
    and "coordinator_le db (contained_db hash previous receipt h db)"
proof -
  from ready have h: "xhead (us_activation_plan_digest previous) db = Some h"
    "eh_current_epoch h = nr_epoch receipt" "\<not> eh_frozen h" by (simp_all add: nuclear_ready_def)
  note moved = move_head_steps [OF ok h(1), where new = "nuclear_head hash (us_activation_plan_digest previous) receipt"
      and ts = "[\<lparr>et_activation_plan_digest = us_activation_plan_digest previous,
          et_epoch = nr_epoch receipt, et_cause_digest = nr_digest receipt\<rparr>]"]
  note facts = coordinator_ok_heads(1,2) [OF ok h(1)] h(2,3)
  show "coordinator_ok (contained_db hash previous receipt h db)"
    unfolding contained_db_def by (rule moved(1)) (use facts in \<open>simp_all add: nuclear_head_def head_le_def\<close>)
  show "coordinator_le db (contained_db hash previous receipt h db)"
    unfolding contained_db_def by (rule moved(2)) (use facts in \<open>simp_all add: nuclear_head_def head_le_def\<close>)
qed

lemma nuclear_steps:
  assumes "sound c" shows "steps_to c (snd (apply_nuclear_containment hash previous frozen receipt c))"
proof (cases "require_nuclear_containment hash previous frozen receipt = Inr () \<and> (\<exists>h. nuclear_ready previous receipt h (committed c))")
  case True
  then obtain h where h: "nuclear_ready previous receipt h (committed c)" by blast
  with True assms nuclear_applies [of c hash previous frozen receipt h]
    contained_db_steps [of "committed c" previous receipt h hash] steps_toI
  show ?thesis by (simp add: sound_def)
next
  case False
  with assms nuclear_refused [of c hash previous frozen receipt] steps_to_refl [of c] show ?thesis
    by (auto simp: sound_def)
qed

subsection \<open>Rebirth\<close>

definition rebirth_ready :: "rebirth_receipt \<Rightarrow> execution_head \<Rightarrow> coordinator_db \<Rightarrow> bool" where
  "rebirth_ready receipt h db \<longleftrightarrow> xhead (rr_activation_plan_digest receipt) db = Some h
     \<and> eh_current_epoch h = rr_previous_epoch receipt \<and> eh_frozen h \<and> fits64 (rr_previous_epoch receipt + 1)"

lemma rebirth_next_epoch:
  "require_rebirth_receipt hash previous fresh receipt = Inr () \<Longrightarrow> rr_next_epoch receipt = rr_previous_epoch receipt + 1"
  by (auto simp: require_rebirth_receipt_def split: if_splits)

lemma rebirth_applies:
  assumes "idle c" and ok: "coordinator_ok (committed c)"
    and req: "require_rebirth_receipt hash previous fresh receipt = Inr ()"
    and ready: "rebirth_ready receipt h (committed c)"
  shows "coordinator_advance_rebirth hash previous fresh receipt c =
    (Inr (reborn_head hash receipt), \<lparr>committed = move_head h (reborn_head hash receipt) [] (committed c), working = None\<rparr>)"
proof -
  let ?plan = "rr_activation_plan_digest receipt" and ?new = "reborn_head hash receipt"
  from ready have h: "xhead ?plan (committed c) = Some h"
    and e: "eh_current_epoch h = rr_previous_epoch receipt" "eh_frozen h" "fits64 (rr_previous_epoch receipt + 1)"
    by (simp_all add: rebirth_ready_def)
  have plan: "eh_activation_plan_digest h = ?plan" using xhead_Some [OF h] by simp
  note k = coordinator_ok_heads [OF ok h] and nx = rebirth_next_epoch [OF req]
  have u: "update_xhead ?plan (rr_previous_epoch receipt) True ?new (committed c) = Inr (move_head h ?new [] (committed c))"
    using update_xhead_ok [of ?new h] k e plan nx by (simp add: reborn_head_def move_head_def)
  show ?thesis
    using assms(1) idle_eq [OF assms(1)] req h e u k
    by (simp add: coordinator_advance_rebirth_def Let_def py_simps statement_simps idle_def bind_ints_def)
qed

lemma rebirth_refused:
  assumes "idle c" and ok: "coordinator_ok (committed c)"
    and "\<not> (require_rebirth_receipt hash previous fresh receipt = Inr () \<and> (\<exists>h. rebirth_ready receipt h (committed c)))"
  shows "\<exists>e. coordinator_advance_rebirth hash previous fresh receipt c = (Inl e, c)"
proof -
  have restore: "c\<lparr>working := None\<rparr> = c" using idle_eq [OF assms(1)] by (metis conn.update_convs(2))
  let ?plan = "rr_activation_plan_digest receipt"
  show ?thesis
  proof (cases "require_rebirth_receipt hash previous fresh receipt")
    case (Inr u)
    then have nx: "rr_next_epoch receipt = rr_previous_epoch receipt + 1" using rebirth_next_epoch by simp
    show ?thesis
    proof (cases "\<exists>h. xhead ?plan (committed c) = Some h \<and> eh_current_epoch h = rr_previous_epoch receipt \<and> eh_frozen h")
      case True
      then obtain h where h: "xhead ?plan (committed c) = Some h" "eh_current_epoch h = rr_previous_epoch receipt" "eh_frozen h"
        by blast
      with assms(3) Inr have "\<not> fits64 (rr_previous_epoch receipt + 1)" by (simp add: rebirth_ready_def)
      then have "\<exists>e. update_xhead ?plan (rr_previous_epoch receipt) True (reborn_head hash receipt) (committed c) = Inl e"
        by (simp add: update_xhead_def bind_ints_def reborn_head_def nx)
      with Inr h coordinator_ok_heads [OF ok h(1)] restore assms(1) show ?thesis
        by (auto simp: coordinator_advance_rebirth_def Let_def py_simps statement_simps idle_def bind_ints_def)
    next
      case False
      with Inr restore assms(1) show ?thesis
        by (cases "xhead ?plan (committed c)")
          (auto simp: coordinator_advance_rebirth_def Let_def py_simps statement_simps idle_def)
    qed
  qed (simp add: coordinator_advance_rebirth_def py_simps)
qed

lemma reborn_db_steps:
  assumes ok: "coordinator_ok db" and ready: "rebirth_ready receipt h db"
    and nx: "rr_next_epoch receipt = rr_previous_epoch receipt + 1"
  shows "coordinator_ok (move_head h (reborn_head hash receipt) [] db)"
    and "coordinator_le db (move_head h (reborn_head hash receipt) [] db)"
proof -
  from ready have h: "xhead (rr_activation_plan_digest receipt) db = Some h"
    "eh_current_epoch h = rr_previous_epoch receipt" "fits64 (rr_previous_epoch receipt + 1)" by (simp_all add: rebirth_ready_def)
  note moved = move_head_steps [OF ok h(1), where new = "reborn_head hash receipt" and ts = "[]"]
  note facts = coordinator_ok_heads(1,2) [OF ok h(1)] h(2,3) nx
  show "coordinator_ok (move_head h (reborn_head hash receipt) [] db)"
    by (rule moved(1)) (use facts in \<open>simp_all add: reborn_head_def head_le_def\<close>)
  show "coordinator_le db (move_head h (reborn_head hash receipt) [] db)"
    by (rule moved(2)) (use facts in \<open>simp_all add: reborn_head_def head_le_def\<close>)
qed

lemma rebirth_steps:
  assumes "sound c" shows "steps_to c (snd (coordinator_advance_rebirth hash previous fresh receipt c))"
proof (cases "require_rebirth_receipt hash previous fresh receipt = Inr () \<and> (\<exists>h. rebirth_ready receipt h (committed c))")
  case True
  then obtain h where h: "rebirth_ready receipt h (committed c)" by blast
  with True assms rebirth_applies [of c hash previous fresh receipt h]
    reborn_db_steps [of "committed c" receipt h hash] rebirth_next_epoch [of hash previous fresh receipt] steps_toI
  show ?thesis by (simp add: sound_def)
next
  case False
  with assms rebirth_refused [of c hash previous fresh receipt] steps_to_refl [of c] show ?thesis
    by (auto simp: sound_def)
qed

subsection \<open>Initialization\<close>

lemma xhead_append:
  "xhead plan (db\<lparr>cd_heads := cd_heads db @ [h]\<rparr>) =
     (case xhead plan db of Some k \<Rightarrow> Some k | None \<Rightarrow> if eh_activation_plan_digest h = plan then Some h else None)"
  by (auto simp: xhead_def find_append split: option.splits)

lemma insert_xhead_eq_Inr:
  "insert_xhead h db = Inr db' \<longleftrightarrow> fits64 (eh_current_epoch h) \<and> 1 \<le> eh_current_epoch h
     \<and> xhead (eh_activation_plan_digest h) db = None \<and> db' = db\<lparr>cd_heads := cd_heads db @ [h]\<rparr>"
  by (auto simp: insert_xhead_def rbind_eq_Inr bind_ints_def insert_row_Inr xhead_def find_None_iff)

lemma inserted_head_steps:
  assumes ok: "coordinator_ok db" and ins: "insert_xhead h db = Inr db'" and "\<not> eh_frozen h"
  shows "coordinator_ok db'" and "coordinator_le db db'"
proof -
  from ins have h: "fits64 (eh_current_epoch h)" "1 \<le> eh_current_epoch h" "xhead (eh_activation_plan_digest h) db = None"
    and db': "db' = db\<lparr>cd_heads := cd_heads db @ [h]\<rparr>" by (auto simp: insert_xhead_eq_Inr)
  have keep: "xhead plan db' = Some k" if "xhead plan db = Some k" for plan k
    using that by (simp add: db' xhead_append)
  have only: "xhead plan db = Some k \<or> k = h" if "xhead plan db' = Some k" for plan k
    using that by (auto simp: db' xhead_append split: option.splits if_splits)
  have same: "xclaim d db' = xclaim d db" "tombstoned plan e db' = tombstoned plan e db" for d plan e
    by (simp_all add: db')
  have dist: "distinct (map eh_activation_plan_digest (cd_heads db'))"
    using ok h(3) by (auto simp: db' coordinator_ok_def xhead_def find_None_iff)
  have heads: "1 \<le> eh_current_epoch k \<and> fits64 (eh_current_epoch k) \<and> (eh_frozen k \<longrightarrow> tombstoned plan (eh_current_epoch k) db)"
    if "xhead plan db' = Some k" for plan k
    using only [OF that] h assms(3) coordinator_ok_heads(1-3) [OF ok, of plan k] by blast
  show "coordinator_ok db'"
    unfolding coordinator_ok_def same using dist heads ok keep unfolding coordinator_ok_def by blast
  show "coordinator_le db db'" unfolding coordinator_le_def same using keep by auto
qed

lemma initialize_steps:
  assumes "sound c" shows "steps_to c (snd (coordinator_initialize hash state cause c))"
proof -
  have idle: "idle c" and ok: "coordinator_ok (committed c)" using assms by (simp_all add: sound_def)
  show ?thesis
  proof (cases "\<exists>e. epochs (us_sigils state) = [e]")
    case True
    then obtain e where e: "epochs (us_sigils state) = [e]" by blast
    let ?h = "\<lparr>eh_activation_plan_digest = us_activation_plan_digest state, eh_current_epoch = e,
                eh_frozen = False, eh_cause_digest = cause,
                eh_digest = head_digest hash (us_activation_plan_digest state) e False cause\<rparr>"
    show ?thesis
    proof (cases "insert_xhead ?h (committed c)")
      case (Inl x)
      then have "snd (coordinator_initialize hash state cause c) = c"
        by (simp add: coordinator_initialize_def e Let_def transact_idle [OF idle] py_simps)
      with assms show ?thesis by (simp add: steps_to_refl)
    next
      case (Inr db)
      then have "snd (coordinator_initialize hash state cause c) = \<lparr>committed = db, working = None\<rparr>"
        by (simp add: coordinator_initialize_def e Let_def transact_idle [OF idle])
      with inserted_head_steps [OF ok Inr] show ?thesis by (simp add: steps_toI)
    qed
  next
    case False
    then have "snd (coordinator_initialize hash state cause c) = c"
      by (auto simp: coordinator_initialize_def py_simps split: list.splits)
    with assms show ?thesis by (simp add: steps_to_refl)
  qed
qed

subsection \<open>Reachable states\<close>

lemma reach_steps:
  assumes "coordinator_reach hash c d" and "sound c" shows "steps_to c d"
proof -
  have trans: "steps_to c e" if "steps_to c d" "steps_to d e" for d e
    using that coordinator_le_trans unfolding steps_to_def by blast
  have sd: "sound d" if "steps_to c d" for d using that by (simp add: steps_to_def)
  from assms show ?thesis
  proof (induction rule: coordinator_reach.induct)
    case start then show ?case by (rule steps_to_refl)
  next
    case (initialize d state cause) then show ?case using trans initialize_steps [OF sd] by blast
  next
    case (claim d request pfe) then show ?case using trans claim_steps [OF sd] by blast
  next
    case (finalize d a st decision) then show ?case using trans finalize_steps [OF sd] by blast
  next
    case (nuclear d previous frozen receipt) then show ?case using trans nuclear_steps [OF sd] by blast
  next
    case (rebirth d previous fresh rreceipt) then show ?case using trans rebirth_steps [OF sd] by blast
  next
    case (crash d)
    then show ?case by (simp add: steps_to_def sound_def)
  qed
qed

lemma empty_sound: "sound empty_coordinator"
  by (simp add: sound_def empty_coordinator_def coordinator_ok_def xhead_def tombstoned_def xclaim_def)

lemma reach_sound: "coordinator_reach hash empty_coordinator c \<Longrightarrow> sound c"
  using reach_steps [OF _ empty_sound] by (simp add: steps_to_def)

lemma closed_epoch_refused:
  assumes "sound e" and "xhead plan (committed e) = Some k"
    and "n < eh_current_epoch k \<or> n = eh_current_epoch k \<and> eh_frozen k"
    and "coordinator_request_plan r = Inr plan" and "rq_epoch r \<le> n"
  shows "\<exists>x. atomic_claim hash r p e = (Inl x, e)"
proof -
  have "\<nexists>q. claim_ready r p q (committed e)" using assms(2-5) by (auto simp: claim_ready_def)
  with assms(1) show ?thesis by (intro atomic_claim_refused) (simp_all add: sound_def)
qed

section \<open>Properties\<close>

text \<open>
  A claim succeeds exactly when it may. In every state reached by initializations, claims,
  finalizations, containments, rebirths and crashes, a claim succeeds if and only if the
  proof digest is not empty, the request names a plan whose durable head is not frozen and has the epoch
  of the request, and the request digest has never been claimed.
\<close>

theorem atomic_claim_exact:
  assumes "coordinator_reach hash empty_coordinator c"
  shows "is_ok (fst (atomic_claim hash r p c)) \<longleftrightarrow> (\<exists>plan. claim_ready r p plan (committed c))"
proof -
  from reach_sound [OF assms] have "idle c" "coordinator_ok (committed c)" by (simp_all add: sound_def)
  with atomic_claim_ready [of c r p] atomic_claim_refused [of c r p hash] show ?thesis by fastforce
qed

text \<open>
  C2. Nuclear containment closes its epoch for good: once a containment receipt has been applied, no
  request of that plan with the contained epoch, or an earlier one, is ever claimed again, with whatever digest,
  nonce or proof, through any later history including rebirths and crashes.
\<close>

theorem containment_closes_epoch:
  assumes "coordinator_reach hash empty_coordinator c"
    and "apply_nuclear_containment hash previous frozen receipt c = (Inr head, d)"
    and "coordinator_reach hash d e"
    and "coordinator_request_plan r = Inr (us_activation_plan_digest previous)" and "rq_epoch r \<le> nr_epoch receipt"
  shows "\<exists>x. atomic_claim hash r p e = (Inl x, e)"
proof -
  let ?plan = "us_activation_plan_digest previous"
  from reach_sound [OF assms(1)] have c: "idle c" "coordinator_ok (committed c)" by (simp_all add: sound_def)
  with assms(2) nuclear_refused [of c hash previous frozen receipt] obtain h where
    req: "require_nuclear_containment hash previous frozen receipt = Inr ()"
    and h: "nuclear_ready previous receipt h (committed c)" by fastforce
  from nuclear_applies [OF c req h] assms(2)
  have d: "d = \<lparr>committed = contained_db hash previous receipt h (committed c), working = None\<rparr>" by simp
  from contained_db_steps [OF c(2) h] have "sound d" by (simp add: d sound_def)
  moreover have "xhead ?plan (committed d) = Some (nuclear_head hash ?plan receipt)"
    using h move_head_xhead [of ?plan "committed c" h "nuclear_head hash ?plan receipt" ?plan]
    by (simp add: d contained_db_def nuclear_ready_def nuclear_head_def)
  ultimately obtain k where "sound e" and k: "xhead ?plan (committed e) = Some k" "head_le (nuclear_head hash ?plan receipt) k"
    using reach_steps [OF assms(3)] unfolding steps_to_def coordinator_le_def by blast
  moreover from k(2) have "nr_epoch receipt < eh_current_epoch k \<or> nr_epoch receipt = eh_current_epoch k \<and> eh_frozen k"
    by (auto simp: head_le_def nuclear_head_def)
  ultimately show ?thesis using assms(4,5) by (intro closed_epoch_refused)
qed


section \<open>Concrete histories\<close>

definition coordinator_one :: coordinator where
  "coordinator_one = snd (coordinator_initialize tail_hash ka_active_state ''genesis'' empty_coordinator)"

lemma coordinator_one_reach: "coordinator_reach tail_hash empty_coordinator coordinator_one"
  unfolding coordinator_one_def by (rule coordinator_reach.initialize [OF coordinator_reach.start])

definition ka_head :: execution_head where
  "ka_head = \<lparr>eh_activation_plan_digest = ka_plan, eh_current_epoch = 1, eh_frozen = False,
     eh_cause_digest = ''genesis'', eh_digest = head_digest tail_hash ka_plan 1 False ''genesis''\<rparr>"

lemma coordinator_one_eq:
  "coordinator_one = \<lparr>committed = \<lparr>cd_heads = [ka_head], cd_tombstones = [], cd_claims = []\<rparr>, working = None\<rparr>"
proof -
  have idle: "idle empty_coordinator" by (simp add: empty_coordinator_def)
  have e: "epochs (us_sigils ka_active_state) = [1]" by (simp add: ka_active_state_def Let_def epochs_def)
  have p: "us_activation_plan_digest ka_active_state = ka_plan" by (simp add: ka_active_state_def Let_def)
  show ?thesis unfolding coordinator_one_def coordinator_initialize_def e p
    by (simp add: Let_def transact_idle [OF idle])
      (simp add: insert_xhead_def bind_ints_def fits64_def insert_row_def empty_coordinator_def ka_head_def)
qed

lemma coordinator_one_ready: "claim_ready (ka_request 1) ''proof'' ka_plan (committed coordinator_one)"
  by (simp add: claim_ready_def coordinator_one_eq xhead_def xclaim_def ka_head_def ka_request_def
      coordinator_request_plan_def ka_plan_nonempty)

theorem atomic_claim_exact_witness:
  "is_ok (fst (atomic_claim tail_hash (ka_request 1) ''proof'' coordinator_one))
   \<and> \<not> is_ok (fst (atomic_claim tail_hash (ka_request 2) ''proof'' coordinator_one))"
proof -
  have "\<nexists>plan. claim_ready (ka_request 2) ''proof'' plan (committed coordinator_one)"
    by (simp add: claim_ready_def coordinator_one_eq xhead_def ka_head_def ka_request_def)
  then show ?thesis
    using atomic_claim_exact [OF coordinator_one_reach, of "ka_request 1" "''proof''"]
      atomic_claim_exact [OF coordinator_one_reach, of "ka_request 2" "''proof''"] coordinator_one_ready by blast
qed

lemma ka_nuclear:
  obtains c r where "require_nuclear_containment tail_hash ka_active_state c r = Inr ()" and "nr_epoch r = 1"
proof -
  have can: "canonical_sequence [''ka'']" by (simp add: canonical_sequence_def CANONICAL_SIGIL_ORDER_def)
  show ?thesis
    by (rule nuclear_containment_works [OF ka_active_reached can, of "''alarm''"]) (use that in auto)
qed

theorem containment_closes_epoch_witness:
  "\<exists>frozen receipt head d. apply_nuclear_containment tail_hash ka_active_state frozen receipt coordinator_one = (Inr head, d)
     \<and> (\<exists>x. atomic_claim tail_hash (ka_request 1) ''proof'' d = (Inl x, d))"
proof -
  obtain frozen r where r: "require_nuclear_containment tail_hash ka_active_state frozen r = Inr ()" "nr_epoch r = 1"
    by (rule ka_nuclear)
  have s: "idle coordinator_one" "coordinator_ok (committed coordinator_one)"
    using reach_sound [OF coordinator_one_reach] by (simp_all add: sound_def)
  have p: "us_activation_plan_digest ka_active_state = ka_plan" by (simp add: ka_active_state_def Let_def)
  have "nuclear_ready ka_active_state r ka_head (committed coordinator_one)"
    using r(2) by (simp add: nuclear_ready_def p coordinator_one_eq xhead_def ka_head_def)
  from nuclear_applies [OF s r(1) this] obtain head d where
    d: "apply_nuclear_containment tail_hash ka_active_state frozen r coordinator_one = (Inr head, d)" by blast
  have plan: "coordinator_request_plan (ka_request 1) = Inr (us_activation_plan_digest ka_active_state)"
    by (simp add: p coordinator_request_plan_def ka_request_def ka_plan_nonempty)
  have e: "rq_epoch (ka_request 1) \<le> nr_epoch r" by (simp add: ka_request_def r(2))
  from containment_closes_epoch [OF coordinator_one_reach d coordinator_reach.start plan e] d show ?thesis by blast
qed


end
