(* ===== verification/Delegation.thy ===== *)
theory Delegation
  imports Enforcement
begin

text \<open>
  Non-escalating authority delegation,
  \<open>koschei/native_sigil_authority_delegation_v1.py\<close>: sealed grants, their narrowing and the check
  that a request is covered by a grant.
\<close>

section \<open>Grants\<close>

record authority_grant =
  ag_grant_id :: string
  ag_subject :: string
  ag_actor_identity_digest :: string
  ag_epoch :: int
  ag_operations :: "string list"
  ag_native_mir_fingerprint :: string
  ag_universe_plan_digest :: string
  ag_parent_grant_digest :: string
  ag_depth :: int
  ag_digest :: string
  ag_version :: int

definition delegation_ctx :: string where
  "delegation_ctx = ''koschei.native-sigil-authority-delegation/v1'' @ [CHR 0x00]"

definition control_char :: "char \<Rightarrow> bool" where
  "control_char c \<longleftrightarrow> cp c < 32 \<or> cp c = 127"

definition require_text :: "string \<Rightarrow> string \<Rightarrow> unit result" where
  "require_text val field =
     (if val = [] then
        raisef AuthorityDelegationError ''authority grant {} must be a non-empty string'' [field]
      else if list_ex control_char val then
        raisef AuthorityDelegationError ''authority grant {} cannot contain control characters'' [field]
      else Inr ())"

definition require_nonnegative_integer :: "int \<Rightarrow> string \<Rightarrow> unit result" where
  "require_nonnegative_integer val field =
     (if val < 0 then
        raisef AuthorityDelegationError ''authority grant {} must be a non-negative integer'' [field]
      else Inr ())"

definition check_operation :: "string \<Rightarrow> unit result" where
  "check_operation val =
     rbind (require_text val ''operation'') (\<lambda>_.
       if CHR '','' \<in> set val then
         raise AuthorityDelegationError ''authority operation cannot contain the v1 comma delimiter''
       else Inr ())"

definition canonical_operations :: "string list \<Rightarrow> string list result" where
  "canonical_operations vals =
     (if vals = [] then raise AuthorityDelegationError ''authority grant requires non-empty operations''
      else rbind (rfor check_operation vals) (\<lambda>_. Inr (sorted_set vals)))"

definition grant_values :: "authority_grant \<Rightarrow> string list" where
  "grant_values g =
     [ag_grant_id g, ag_subject g, ag_actor_identity_digest g, str_int (ag_epoch g),
      join '','' (ag_operations g), ag_native_mir_fingerprint g, ag_universe_plan_digest g,
      ag_parent_grant_digest g, str_int (ag_depth g)]"

definition grant_digest :: "(string \<Rightarrow> string) \<Rightarrow> authority_grant \<Rightarrow> string result" where
  "grant_digest hash g =
     rbind (rfor (\<lambda>(field, val). require_text val field)
       [(''grant_id'', ag_grant_id g), (''subject'', ag_subject g),
        (''actor_identity_digest'', ag_actor_identity_digest g),
        (''native_mir_fingerprint'', ag_native_mir_fingerprint g),
        (''universe_plan_digest'', ag_universe_plan_digest g),
        (''parent_grant_digest'', ag_parent_grant_digest g)]) (\<lambda>_.
     rbind (require_nonnegative_integer (ag_epoch g) ''epoch'') (\<lambda>_.
     rbind (require_nonnegative_integer (ag_depth g) ''depth'') (\<lambda>_.
     rbind (canonical_operations (ag_operations g)) (\<lambda>canonical.
     if ag_operations g \<noteq> canonical then
       raise AuthorityDelegationError ''authority grant operations are not canonical''
     else if ag_depth g = 0 \<and> ag_parent_grant_digest g \<noteq> ''ROOT'' then
       raise AuthorityDelegationError ''root authority grant must use the ROOT parent marker''
     else if ag_depth g \<noteq> 0 \<and> \<not> hex64 (ag_parent_grant_digest g) then
       raise AuthorityDelegationError ''child authority grant requires a parent digest''
     else Inr (digest_of hash delegation_ctx (join nl (grant_values g)))))))"

definition grant_assert_sealed :: "(string \<Rightarrow> string) \<Rightarrow> authority_grant \<Rightarrow> native_sigil_mir \<Rightarrow> unit result" where
  "grant_assert_sealed hash g mir =
     rbind (mir_assert_sealed hash mir) (\<lambda>_.
     if ag_version g \<noteq> 1 then raise AuthorityDelegationError ''unsupported authority grant version''
     else rbind (grant_digest hash g) (\<lambda>expected.
       if ag_native_mir_fingerprint g \<noteq> mir_fingerprint mir then
         raise AuthorityDelegationError ''authority grant MIR identity mismatch''
       else if ag_universe_plan_digest g \<noteq> mir_universe_plan_digest mir then
         raise AuthorityDelegationError ''authority grant Universe identity mismatch''
       else if ag_subject g \<notin> set (map mb_subject (filter (\<lambda>item. mb_sigil item = ''vor'') (mir_bindings mir))) then
         raise AuthorityDelegationError ''authority grant subject is not declared by a vor binding''
       else if ag_digest g \<noteq> expected then raise AuthorityDelegationError ''authority grant seal mismatch''
       else Inr ()))"

text \<open>\<open>object.__setattr__(result, "digest", _grant_digest(...)); result.assert_sealed(mir)\<close>.\<close>

definition seal_grant :: "(string \<Rightarrow> string) \<Rightarrow> native_sigil_mir \<Rightarrow> authority_grant \<Rightarrow> authority_grant result" where
  "seal_grant hash mir draft =
     rbind (grant_digest hash draft) (\<lambda>digest.
       let result = draft\<lparr>ag_digest := digest\<rparr>
       in rbind (grant_assert_sealed hash result mir) (\<lambda>_. Inr result))"

definition issue_root_grant ::
  "(string \<Rightarrow> string) \<Rightarrow> native_sigil_mir \<Rightarrow> string \<Rightarrow> string \<Rightarrow> string \<Rightarrow> int \<Rightarrow> string list \<Rightarrow> authority_grant result" where
  "issue_root_grant hash mir grant_id subject actor epoch operations =
     rbind (mir_assert_sealed hash mir) (\<lambda>_.
     rbind (canonical_operations operations) (\<lambda>canonical.
       seal_grant hash mir \<lparr>ag_grant_id = grant_id, ag_subject = subject, ag_actor_identity_digest = actor,
         ag_epoch = epoch, ag_operations = canonical, ag_native_mir_fingerprint = mir_fingerprint mir,
         ag_universe_plan_digest = mir_universe_plan_digest mir, ag_parent_grant_digest = ''ROOT'',
         ag_depth = 0, ag_digest = [], ag_version = 1\<rparr>))"

definition delegate_grant ::
  "(string \<Rightarrow> string) \<Rightarrow> native_sigil_mir \<Rightarrow> authority_grant \<Rightarrow> string \<Rightarrow> string \<Rightarrow> string list \<Rightarrow> authority_grant result" where
  "delegate_grant hash mir parent grant_id actor operations =
     rbind (grant_assert_sealed hash parent mir) (\<lambda>_.
     rbind (canonical_operations operations) (\<lambda>canonical.
       if \<not> set canonical \<subseteq> set (ag_operations parent) then
         raise AuthorityDelegationError ''delegated authority cannot widen parent operations''
       else seal_grant hash mir \<lparr>ag_grant_id = grant_id, ag_subject = ag_subject parent,
         ag_actor_identity_digest = actor, ag_epoch = ag_epoch parent, ag_operations = canonical,
         ag_native_mir_fingerprint = ag_native_mir_fingerprint parent,
         ag_universe_plan_digest = ag_universe_plan_digest parent,
         ag_parent_grant_digest = ag_digest parent, ag_depth = ag_depth parent + 1, ag_digest = [],
         ag_version = 1\<rparr>))"

definition require_request_authority ::
  "(string \<Rightarrow> string) \<Rightarrow> native_sigil_mir \<Rightarrow> effect_request \<Rightarrow> authority_grant \<Rightarrow> unit result" where
  "require_request_authority hash mir request grant =
     rbind (request_assert_sealed hash request mir) (\<lambda>_.
     rbind (grant_assert_sealed hash grant mir) (\<lambda>_.
     if rq_subject request \<noteq> ag_subject grant then
       raise AuthorityDelegationError ''request subject is outside authority grant''
     else if rq_identity_digest request \<noteq> ag_actor_identity_digest grant then
       raise AuthorityDelegationError ''request actor identity is outside authority grant''
     else if rq_epoch request \<noteq> ag_epoch grant then
       raise AuthorityDelegationError ''request epoch is stale for authority grant''
     else if rq_operation request \<notin> set (ag_operations grant) then
       raise AuthorityDelegationError ''request operation is not delegated''
     else Inr ()))"

section \<open>Well-formed grants\<close>

definition wf_text :: "string \<Rightarrow> bool" where
  "wf_text s \<longleftrightarrow> s \<noteq> [] \<and> (\<forall>c \<in> set s. \<not> control_char c)"

definition wf_operations :: "string list \<Rightarrow> bool" where
  "wf_operations vals \<longleftrightarrow> vals \<noteq> [] \<and> (\<forall>v \<in> set vals. wf_text v \<and> CHR '','' \<notin> set v)"

definition wf_grant :: "authority_grant \<Rightarrow> bool" where
  "wf_grant g \<longleftrightarrow> wf_text (ag_grant_id g) \<and> wf_text (ag_subject g) \<and> wf_text (ag_actor_identity_digest g)
     \<and> wf_text (ag_native_mir_fingerprint g) \<and> wf_text (ag_universe_plan_digest g)
     \<and> wf_text (ag_parent_grant_digest g) \<and> 0 \<le> ag_epoch g \<and> 0 \<le> ag_depth g
     \<and> wf_operations (ag_operations g) \<and> ag_operations g = sorted_set (ag_operations g)
     \<and> (if ag_depth g = 0 then ag_parent_grant_digest g = ''ROOT'' else hex64 (ag_parent_grant_digest g))"

lemma require_text_ok: "is_ok (require_text v f) \<longleftrightarrow> wf_text v"
  by (auto simp: require_text_def wf_text_def list_ex_iff)

lemma check_operation_ok: "is_ok (check_operation v) \<longleftrightarrow> wf_text v \<and> CHR '','' \<notin> set v"
  using require_text_ok [of v "''operation''"]
  by (cases "require_text v ''operation''") (auto simp: check_operation_def)

lemma canonical_operations_eq_Inr:
  "canonical_operations vals = Inr ops \<longleftrightarrow> wf_operations vals \<and> ops = sorted_set vals"
  by (auto simp: canonical_operations_def rbind_eq_Inr unit_result_eq rfor_ok check_operation_ok wf_operations_def)

lemma grant_digest_eq_Inr:
  "grant_digest hash g = Inr d \<longleftrightarrow> wf_grant g \<and> d = digest_of hash delegation_ctx (join nl (grant_values g))"
  by (auto simp: grant_digest_def rbind_eq_Inr unit_result_eq rfor_ok require_text_ok canonical_operations_eq_Inr
      wf_grant_def require_nonnegative_integer_def simp del: rfor.simps)

lemma grant_assert_sealed_eq:
  "grant_assert_sealed hash g mir = Inr () \<longleftrightarrow> mir_assert_sealed hash mir = Inr () \<and> ag_version g = 1 \<and> wf_grant g
     \<and> ag_native_mir_fingerprint g = mir_fingerprint mir \<and> ag_universe_plan_digest g = mir_universe_plan_digest mir
     \<and> (\<exists>item \<in> set (mir_bindings mir). mb_sigil item = ''vor'' \<and> mb_subject item = ag_subject g)
     \<and> ag_digest g = digest_of hash delegation_ctx (join nl (grant_values g))"
  by (auto simp: grant_assert_sealed_def rbind_eq_Inr grant_digest_eq_Inr image_iff)

lemma seal_grant_eq_Inr:
  "seal_grant hash mir draft = Inr g \<longleftrightarrow>
     g = draft\<lparr>ag_digest := digest_of hash delegation_ctx (join nl (grant_values draft))\<rparr>
     \<and> grant_assert_sealed hash g mir = Inr ()"
proof -
  have v: "grant_values (draft\<lparr>ag_digest := d\<rparr>) = grant_values draft" for d by (simp add: grant_values_def)
  have w: "wf_grant (draft\<lparr>ag_digest := d\<rparr>) = wf_grant draft" for d by (simp add: wf_grant_def)
  show ?thesis
    by (auto simp: seal_grant_def rbind_eq_Inr grant_digest_eq_Inr Let_def)
      (auto simp: grant_assert_sealed_eq v w)
qed

lemma delegate_grant_Inr:
  assumes "delegate_grant hash mir parent i actor ops = Inr g"
  shows "grant_assert_sealed hash parent mir = Inr ()" and "grant_assert_sealed hash g mir = Inr ()"
    and "ag_subject g = ag_subject parent" and "ag_epoch g = ag_epoch parent"
    and "set (ag_operations g) \<subseteq> set (ag_operations parent)" and "ag_actor_identity_digest g = actor"
    and "ag_parent_grant_digest g = ag_digest parent" and "ag_depth g = ag_depth parent + 1"
    and "set (ag_operations g) = set ops"
  using assms by (auto simp: delegate_grant_def rbind_eq_Inr seal_grant_eq_Inr canonical_operations_eq_Inr split: if_splits)

subsection \<open>Delegation chains\<close>

inductive delegated :: "(string \<Rightarrow> string) \<Rightarrow> native_sigil_mir \<Rightarrow> authority_grant \<Rightarrow> nat \<Rightarrow> authority_grant \<Rightarrow> bool"
  for hash mir root where
  root: "delegated hash mir root 0 root"
| child: "delegated hash mir root n g \<Longrightarrow> delegate_grant hash mir g i actor ops = Inr k \<Longrightarrow>
     delegated hash mir root (Suc n) k"

lemma delegated_narrows:
  "delegated hash mir root n g \<Longrightarrow> ag_subject g = ag_subject root \<and> ag_epoch g = ag_epoch root
     \<and> set (ag_operations g) \<subseteq> set (ag_operations root) \<and> ag_depth g = ag_depth root + int n"
proof (induction rule: delegated.induct)
  case (child n g i actor ops k)
  from child.IH delegate_grant_Inr [OF child.hyps(2)] show ?case by auto
qed simp

section \<open>Properties\<close>


subsection \<open>What a grant digest binds\<close>

lemma wf_text_no_newline: "wf_text s \<Longrightarrow> CHR 0x0A \<notin> set s"
  by (auto simp: wf_text_def control_char_def cp_def)

lemma wf_operations_no_newline:
  "wf_operations ops \<Longrightarrow> CHR 0x0A \<notin> set (join '','' ops)"
  using set_join [of "'',''" ops] wf_text_no_newline by (fastforce simp: wf_operations_def)

lemma join_comma_inj:
  assumes "wf_operations a" and "wf_operations b" and "join '','' a = join '','' b"
  shows "a = b"
  using assms by (intro join_inj_nonempty [of a "CHR '',''" b]) (auto simp: wf_operations_def)

definition same_grant :: "authority_grant \<Rightarrow> authority_grant \<Rightarrow> bool" where
  "same_grant g k \<longleftrightarrow> g\<lparr>ag_digest := [], ag_version := 0\<rparr> = k\<lparr>ag_digest := [], ag_version := 0\<rparr>"

lemma grant_values_inj:
  assumes "wf_grant g" and "wf_grant k" and "join nl (grant_values g) = join nl (grant_values k)"
  shows "same_grant g k"
proof -
  have clean: "\<forall>v \<in> set (grant_values x). CHR 0x0A \<notin> set v" if "wf_grant x" for x
    using that wf_text_no_newline wf_operations_no_newline by (auto simp: grant_values_def wf_grant_def)
  have "length (grant_values g) = length (grant_values k)" by (simp add: grant_values_def)
  from join_inj [OF clean [OF assms(1)] clean [OF assms(2)] this assms(3) [unfolded nl_def]]
  have eq: "grant_values g = grant_values k" .
  moreover have "ag_operations g = ag_operations k"
    by (rule join_comma_inj) (use assms eq in \<open>simp_all add: wf_grant_def grant_values_def\<close>)
  ultimately show ?thesis
    by (cases g; cases k) (simp add: grant_values_def same_grant_def str_int_inj)
qed

interpretation grant_seal: sealing hash delegation_ctx "\<lambda>g. join nl (grant_values g)"
  "\<lambda>g. wf_grant g \<and> ag_digest g = [] \<and> ag_version g = 0" for hash
proof unfold_locales
  fix g k :: authority_grant
  assume g: "wf_grant g \<and> ag_digest g = [] \<and> ag_version g = 0"
    and k: "wf_grant k \<and> ag_digest k = [] \<and> ag_version k = 0"
    and eq: "join nl (grant_values g) = join nl (grant_values k)"
  have "same_grant g k" by (rule grant_values_inj) (use g k eq in blast)+
  with g k show "g = k" by (cases g; cases k) (simp add: same_grant_def)
qed

text \<open>
  A grant digest names one grant: two sealed grants with the same digest agree on every field,
  including the exact operation list, the parent link and the depth, unless their payloads collide under
  the hash. No condition on the fields is needed, since sealing itself rejects the delimiters.
\<close>

theorem grant_digest_binds:
  assumes "grant_assert_sealed hash g mir = Inr ()" and "grant_assert_sealed hash k mir' = Inr ()"
    and "ag_digest g = ag_digest k"
  shows "g = k \<or> collision hash (delegation_ctx @ utf8 (join nl (grant_values g)))
    (delegation_ctx @ utf8 (join nl (grant_values k)))"
proof -
  let ?strip = "\<lambda>x. x\<lparr>ag_digest := [], ag_version := 0\<rparr> :: authority_grant"
  have v: "grant_values (?strip x) = grant_values x" for x by (simp add: grant_values_def)
  have w: "wf_grant (?strip x) = wf_grant x" for x by (simp add: wf_grant_def)
  from assms have "?strip g = ?strip k \<or> collision hash (delegation_ctx @ utf8 (join nl (grant_values (?strip g))))
    (delegation_ctx @ utf8 (join nl (grant_values (?strip k))))"
    by (intro grant_seal.seal_binds) (simp_all add: v w grant_assert_sealed_eq)
  moreover have "ag_version g = 1" "ag_version k = 1" using assms(1,2) by (simp_all add: grant_assert_sealed_eq)
  ultimately show ?thesis using assms(3) unfolding v by (cases g; cases k) simp
qed

text \<open>
  Delegation works wherever it should: a sealed grant can be delegated, at any depth, to any actor
  under any identifier that is a proper text, for any non-empty set of its own operations; the child is
  sealed and has exactly those operations.
\<close>

theorem delegation_complete:
  assumes "hexdigest hash" and "grant_assert_sealed hash parent mir = Inr ()"
    and "wf_text i" and "wf_text actor" and "ops \<noteq> []" and "set ops \<subseteq> set (ag_operations parent)"
  shows "\<exists>g. delegate_grant hash mir parent i actor ops = Inr g
    \<and> grant_assert_sealed hash g mir = Inr () \<and> set (ag_operations g) = set ops"
proof -
  from assms(2) have p: "wf_grant parent" and d: "ag_digest parent = digest_of hash delegation_ctx (join nl (grant_values parent))"
    by (simp_all add: grant_assert_sealed_eq)
  have hex: "hex64 (ag_digest parent)" unfolding d by (rule hexdigest.digest_hex64 [OF assms(1)])
  then have plain: "wf_text (ag_digest parent)"
    by (auto simp: hex64_def wf_text_def list_all_iff hex_char_def control_char_def)
  have ops: "wf_operations ops" "wf_operations (sorted_set ops)"
    using p assms(5,6) set_sorted_set [of ops] by (auto simp: wf_grant_def wf_operations_def simp del: set_sorted_set)
  let ?draft = "\<lparr>ag_grant_id = i, ag_subject = ag_subject parent,
         ag_actor_identity_digest = actor, ag_epoch = ag_epoch parent, ag_operations = sorted_set ops,
         ag_native_mir_fingerprint = ag_native_mir_fingerprint parent,
         ag_universe_plan_digest = ag_universe_plan_digest parent,
         ag_parent_grant_digest = ag_digest parent, ag_depth = ag_depth parent + 1, ag_digest = [],
         ag_version = 1\<rparr>"
  let ?g = "?draft\<lparr>ag_digest := digest_of hash delegation_ctx (join nl (grant_values ?draft))\<rparr>"
  have wf: "wf_grant ?g"
    using p plain hex ops assms(3,4) sorted_set_cong [of "sorted_set ops" ops] by (simp add: wf_grant_def)
  have "grant_values ?g = grant_values ?draft" by (simp add: grant_values_def)
  then have "grant_assert_sealed hash ?g mir = Inr ()"
    using assms(2) wf by (simp add: grant_assert_sealed_eq)
  then have "delegate_grant hash mir parent i actor ops = Inr ?g"
    using assms(2,6) ops by (simp add: delegate_grant_def canonical_operations_eq_Inr [THEN iffD2] seal_grant_eq_Inr)
  with \<open>grant_assert_sealed hash ?g mir = Inr ()\<close> show ?thesis by auto
qed

section \<open>A concrete chain\<close>

definition door_root :: authority_grant where
  "door_root = (let draft = \<lparr>ag_grant_id = ''g'', ag_subject = ''door'', ag_actor_identity_digest = ''boss'', ag_epoch = 1,
       ag_operations = [''close'', ''open''], ag_native_mir_fingerprint = mir_fingerprint door_mir,
       ag_universe_plan_digest = mir_universe_plan_digest door_mir, ag_parent_grant_digest = ''ROOT'', ag_depth = 0,
       ag_digest = [], ag_version = 1\<rparr>
     in draft\<lparr>ag_digest := digest_of tail_hash delegation_ctx (join nl (grant_values draft))\<rparr>)"

lemma digest_plain: "wf_text (digest_of tail_hash ctx p)"
  using tail_hash.digest_hex64 [of ctx p] tail_hash.digest_nonempty [of ctx p]
  by (auto simp: hex64_def wf_text_def list_all_iff hex_char_def control_char_def)

lemma door_root_sealed: "grant_assert_sealed tail_hash door_root door_mir = Inr ()"
proof -
  have m: "mir_assert_sealed tail_hash door_mir = Inr ()"
    unfolding door_mir_def by (rule mir_of_sealed) (simp add: door_program_def)
  have vor: "\<exists>item \<in> set (mir_bindings door_mir). mb_sigil item = ''vor'' \<and> mb_subject item = ''door''"
    by (simp add: door_mir_def mir_of_def Let_def binding_of_def door_program_def decl_at_def)
  have fp: "wf_text (mir_fingerprint door_mir)" "wf_text (mir_universe_plan_digest door_mir)"
    using digest_plain
    by (simp_all add: door_mir_def mir_of_def Let_def fingerprint_def universe_plan_of_def canonical_digest_def)
  have "sorted_set [''close'', ''open''] = [''close'', ''open'']" by code_simp
  then have "wf_grant door_root"
    using fp by (simp add: wf_grant_def door_root_def Let_def wf_operations_def)
      (simp add: wf_text_def control_char_def cp_def)
  moreover have "ag_digest door_root = digest_of tail_hash delegation_ctx (join nl (grant_values door_root))"
    by (simp add: door_root_def Let_def grant_values_def)
  ultimately show ?thesis using m vor
    by (simp add: grant_assert_sealed_eq) (simp add: door_root_def Let_def)
qed

lemma plain_texts: "wf_text ''h''" "wf_text ''i''"
  by (simp_all add: wf_text_def control_char_def cp_def)

lemma door_child:
  obtains g where "delegate_grant tail_hash door_mir door_root ''h'' ''i'' [''open''] = Inr g"
    and "grant_assert_sealed tail_hash g door_mir = Inr ()" and "set (ag_operations g) = {''open''}"
proof -
  have p: "wf_grant door_root" using door_root_sealed by (simp add: grant_assert_sealed_eq)
  let ?draft = "\<lparr>ag_grant_id = ''h'', ag_subject = ag_subject door_root,
         ag_actor_identity_digest = ''i'', ag_epoch = ag_epoch door_root, ag_operations = [''open''],
         ag_native_mir_fingerprint = ag_native_mir_fingerprint door_root,
         ag_universe_plan_digest = ag_universe_plan_digest door_root,
         ag_parent_grant_digest = ag_digest door_root, ag_depth = ag_depth door_root + 1, ag_digest = [],
         ag_version = 1\<rparr>"
  let ?g = "?draft\<lparr>ag_digest := digest_of tail_hash delegation_ctx (join nl (grant_values ?draft))\<rparr>"
  have one: "sorted_set [''open''] = [''open'']" by (simp add: sorted_set_def)
  have ops: "wf_operations [''open'']" by (simp add: wf_operations_def wf_text_def control_char_def cp_def)
  have hex: "hex64 (ag_digest door_root)" "wf_text (ag_digest door_root)"
    using tail_hash.digest_hex64 digest_plain by (simp_all add: door_root_def Let_def)
  have "wf_grant ?g" using p ops hex one plain_texts by (simp add: wf_grant_def)
  moreover have "grant_values ?g = grant_values ?draft" by (simp add: grant_values_def)
  ultimately have s: "grant_assert_sealed tail_hash ?g door_mir = Inr ()"
    using door_root_sealed by (simp add: grant_assert_sealed_eq)
  have sub: "''open'' \<in> set (ag_operations door_root)" by (simp add: door_root_def Let_def)
  have can: "canonical_operations [''open''] = Inr [''open'']" using ops one by (simp add: canonical_operations_eq_Inr)
  have "delegate_grant tail_hash door_mir door_root ''h'' ''i'' [''open''] = Inr ?g"
    using door_root_sealed s sub by (simp add: delegate_grant_def can seal_grant_eq_Inr)
  from that [OF this s] show ?thesis by simp
qed

theorem delegation_complete_witness:
  "\<exists>g. delegate_grant tail_hash door_mir door_root ''h'' ''i'' [''open''] = Inr g \<and> set (ag_operations g) = {''open''}"
proof -
  have "[''open''] \<noteq> []" "set [''open''] \<subseteq> set (ag_operations door_root)" by (simp_all add: door_root_def Let_def)
  from delegation_complete [OF tail_hash.hexdigest_axioms door_root_sealed plain_texts this] show ?thesis by auto
qed

theorem grant_digest_binds_witness:
  "grant_assert_sealed tail_hash door_root door_mir = Inr ()
   \<and> (door_root = door_root \<or> collision tail_hash (delegation_ctx @ utf8 (join nl (grant_values door_root)))
        (delegation_ctx @ utf8 (join nl (grant_values door_root))))"
  using grant_digest_binds [OF door_root_sealed door_root_sealed refl] door_root_sealed by blast


end
