(* ===== verification/Json.thy ===== *)
theory Json
  imports Sealing
begin

text \<open>
  \<open>json.dumps(value, sort_keys=True, separators=(",", ":"))\<close> of the standard library, on the values that
  digests are computed over: text, integers, booleans, \<open>None\<close>, lists and dictionaries. The encoding is
  injective, so a digest over it binds every part of the value.
\<close>

section \<open>The encoder\<close>

datatype json = J_Null | J_Bool bool | J_Int int | J_Str string | J_List "json list" | J_Obj "(string \<times> json) list"

definition hex_digit :: "nat \<Rightarrow> char" where
  "hex_digit n = (if n < 10 then char_of (48 + n) else char_of (87 + n))"

text \<open>\<open>ensure_ascii\<close>: everything outside of the printable ASCII characters is escaped.\<close>

definition escape_char :: "char \<Rightarrow> string" where
  "escape_char c =
     (if c = CHR 0x22 then [CHR 0x5C, CHR 0x22]
      else if c = CHR 0x5C then [CHR 0x5C, CHR 0x5C]
      else if c = CHR 0x0A then [CHR 0x5C, CHR ''n'']
      else if c = CHR 0x0D then [CHR 0x5C, CHR ''r'']
      else if c = CHR 0x09 then [CHR 0x5C, CHR ''t'']
      else if c = CHR 0x08 then [CHR 0x5C, CHR ''b'']
      else if c = CHR 0x0C then [CHR 0x5C, CHR ''f'']
      else if 32 \<le> cp c \<and> cp c < 127 then [c]
      else [CHR 0x5C, CHR ''u'', CHR ''0'', CHR ''0'', hex_digit (cp c div 16), hex_digit (cp c mod 16)])"

definition quoted :: "string \<Rightarrow> string" where
  "quoted s = CHR 0x22 # concat (map escape_char s) @ [CHR 0x22]"

fun dumps :: "json \<Rightarrow> string" where
  "dumps J_Null = ''null''"
| "dumps (J_Bool b) = (if b then ''true'' else ''false'')"
| "dumps (J_Int i) = str_int i"
| "dumps (J_Str s) = quoted s"
| "dumps (J_List xs) = ''['' @ join '','' (map dumps xs) @ '']''"
| "dumps (J_Obj kvs) = ''{'' @ join '','' (map (\<lambda>(k, v). quoted k @ '':'' @ dumps v) kvs) @ ''}''"

text \<open>A dictionary with its keys sorted.\<close>

definition dict :: "(string \<times> json) list \<Rightarrow> json" where
  "dict kvs = J_Obj (sort_key fst kvs)"

fun optional :: "('a \<Rightarrow> json) \<Rightarrow> 'a option \<Rightarrow> json" where
  "optional f None = J_Null"
| "optional f (Some x) = f x"

section \<open>The encoding is injective\<close>

lemma hex_digit_inj: "m < 16 \<Longrightarrow> n < 16 \<Longrightarrow> hex_digit m = hex_digit n \<Longrightarrow> m = n"
proof -
  have "\<forall>m \<in> set [0..<16]. \<forall>n \<in> set [0..<16]. hex_digit m = hex_digit n \<longrightarrow> m = n" by code_simp
  then show "m < 16 \<Longrightarrow> n < 16 \<Longrightarrow> hex_digit m = hex_digit n \<Longrightarrow> m = n" by simp
qed

lemma escape_char_shape:
  "(\<exists>d. escape_char c = [d] \<and> d \<noteq> CHR 0x22 \<and> d \<noteq> CHR 0x5C)
    \<or> (\<exists>d. escape_char c = [CHR 0x5C, d] \<and> d \<noteq> CHR ''u'')
    \<or> (\<exists>m n. escape_char c = [CHR 0x5C, CHR ''u'', CHR ''0'', CHR ''0'', m, n])"
  by (auto simp: escape_char_def)

lemma escape_char_inj:
  assumes "escape_char c = escape_char d"
  shows "c = d"
proof -
  have hex: "cp c = cp d" if "hex_digit (cp c div 16) = hex_digit (cp d div 16)" "hex_digit (cp c mod 16) = hex_digit (cp d mod 16)"
  proof -
    have "cp c div 16 < 16" "cp d div 16 < 16"
      using cp_less [of c] cp_less [of d] by linarith+
    then have "cp c div 16 = cp d div 16" "cp c mod 16 = cp d mod 16"
      using that hex_digit_inj by auto
    then show ?thesis by (metis mult_div_mod_eq)
  qed
  show ?thesis
    using assms hex by (auto simp: escape_char_def cp_inj split: if_splits)
qed

lemma escape_char_prefix:
  assumes "escape_char c @ xs = escape_char d @ ys"
  shows "c = d \<and> xs = ys"
proof -
  have "escape_char c = escape_char d \<and> xs = ys"
    using assms escape_char_shape [of c] escape_char_shape [of d] by auto
  then show ?thesis using escape_char_inj by blast
qed

lemma escape_char_no_quote: "CHR 0x22 # ys \<noteq> escape_char c @ xs"
  using escape_char_shape [of c] by auto

lemma quoted_prefix: "quoted s @ xs = quoted t @ ys \<Longrightarrow> s = t \<and> xs = ys"
proof (induction s arbitrary: t)
  case Nil
  then show ?case
    by (cases t) (auto simp: quoted_def escape_char_no_quote)
next
  case (Cons c s)
  show ?case
  proof (cases t)
    case Nil
    then show ?thesis
      using Cons.prems by (simp add: quoted_def escape_char_no_quote [symmetric])
  next
    case (Cons d u)
    have "escape_char c @ concat (map escape_char s) @ CHR 0x22 # xs = escape_char d @ concat (map escape_char u) @ CHR 0x22 # ys"
      using Cons.prems \<open>t = d # u\<close> by (simp add: quoted_def)
    then have "c = d" "concat (map escape_char s) @ CHR 0x22 # xs = concat (map escape_char u) @ CHR 0x22 # ys"
      using escape_char_prefix by blast+
    then show ?thesis
      using Cons.IH [of u] by (simp add: quoted_def \<open>t = d # u\<close>)
  qed
qed

text \<open>What follows an encoded value: nothing, or a comma or bracket.\<close>

definition closed :: "string \<Rightarrow> bool" where
  "closed r \<longleftrightarrow> r = [] \<or> hd r \<in> {CHR '','', CHR '']'', CHR ''}''}"

lemma closed_simps [simp]: "closed []" "closed (c # r) \<longleftrightarrow> c \<in> {CHR '','', CHR '']'', CHR ''}''}"
  by (simp_all add: closed_def)

lemma str_int_prefix:
  assumes "str_int i @ r = str_int j @ r'" "closed r" "closed r'"
  shows "i = j \<and> r = r'"
proof -
  have stop: "takeWhile (\<lambda>c. c \<notin> {CHR '','', CHR '']'', CHR ''}''}) (str_int k @ u) = str_int k" if "closed u" for k u
  proof -
    have "\<forall>c \<in> set (str_int k). c \<notin> {CHR '','', CHR '']'', CHR ''}''}"
      by (auto dest!: str_int_chars simp: is_digit_char_def cp_def)
    then show ?thesis
      using that by (cases u) (auto simp: takeWhile_append2)
  qed
  have "str_int i = str_int j"
    using stop [OF assms(2), of i] stop [OF assms(3), of j] assms(1) by simp
  then show ?thesis using assms(1) by (simp add: str_int_inj)
qed

fun json_kind :: "json \<Rightarrow> nat" where
  "json_kind J_Null = 0" | "json_kind (J_Bool True) = 1" | "json_kind (J_Bool False) = 2" | "json_kind (J_Int _) = 3"
| "json_kind (J_Str _) = 4" | "json_kind (J_List _) = 5" | "json_kind (J_Obj _) = 6"

definition kind_of_char :: "char \<Rightarrow> nat" where
  "kind_of_char c = (if c = CHR ''n'' then 0 else if c = CHR ''t'' then 1 else if c = CHR ''f'' then 2
     else if c = CHR 0x22 then 4 else if c = CHR ''['' then 5 else if c = CHR ''{'' then 6 else 3)"

lemma digit_kind:
  "kind_of_char (CHR ''-'') = 3" "is_digit_char c \<Longrightarrow> kind_of_char c = 3 \<and> c \<noteq> CHR '']'' \<and> c \<noteq> CHR ''}''"
proof -
  have all: "\<forall>n \<in> set [48..<58]. kind_of_char (char_of n) = 3 \<and> (char_of n :: char) \<noteq> CHR '']'' \<and> (char_of n :: char) \<noteq> CHR ''}''"
    by code_simp
  assume "is_digit_char c"
  then have "cp c \<in> set [48..<58]" by (simp only: is_digit_char_def set_upt atLeastLessThan_iff) auto
  with all have "kind_of_char (char_of (cp c)) = 3 \<and> (char_of (cp c) :: char) \<noteq> CHR '']'' \<and> (char_of (cp c) :: char) \<noteq> CHR ''}''" by blast
  then show "kind_of_char c = 3 \<and> c \<noteq> CHR '']'' \<and> c \<noteq> CHR ''}''" by (simp add: cp_def)
qed (simp add: kind_of_char_def)

lemma dumps_first: "\<exists>c s. dumps v = c # s \<and> kind_of_char c = json_kind v \<and> c \<noteq> CHR '']'' \<and> c \<noteq> CHR ''}''"
proof (cases v)
  case (J_Int i)
  obtain c s where s: "str_int i = c # s" by (cases "str_int i") auto
  then have "c = CHR ''-'' \<or> is_digit_char c" using str_int_chars [of c i] by simp
  then have "kind_of_char c = 3 \<and> c \<noteq> CHR '']'' \<and> c \<noteq> CHR ''}''"
    using digit_kind by auto
  then show ?thesis by (simp add: J_Int s)
qed (auto simp: kind_of_char_def quoted_def)

text \<open>The elements of a list or dictionary, each followed by a comma or the closing bracket.\<close>

lemma join_prefix:
  assumes "\<And>x y r r'. x \<in> set xs \<Longrightarrow> f x @ r = f y @ r' \<Longrightarrow> closed r \<Longrightarrow> closed r' \<Longrightarrow> x = y \<and> r = r'"
    and "\<And>x s. f x \<noteq> []" "\<And>x s. hd (f x) \<noteq> b" "b \<in> {CHR '']'', CHR ''}''}"
    and "join '','' (map f xs) @ b # r = join '','' (map f ys) @ b # r'"
  shows "xs = ys \<and> r = r'"
  using assms(1,5)
proof (induction xs arbitrary: ys)
  case Nil
  show ?case
  proof (cases ys)
    case (Cons y zs)
    obtain c s where "f y = c # s" "c \<noteq> b" using assms(2,3) [of y] by (cases "f y") auto
    then show ?thesis
      using Nil.prems(2) by (cases zs) (auto simp: Cons)
  qed (use Nil in simp)
next
  case (Cons x xs)
  show ?case
  proof (cases ys)
    case Nil
    obtain c s where "f x = c # s" "c \<noteq> b" using assms(2,3) [of x] by (cases "f x") auto
    then show ?thesis
      using Cons.prems(2) by (cases xs) (auto simp: Nil)
  next
    case (Cons y zs)
    let ?rest = "\<lambda>us r. (if us = [] then b # r else CHR '','' # join '','' (map f us) @ b # r)"
    have split: "join '','' (map f (u # us)) @ b # r = f u @ ?rest us r" for u us r
      by (cases us) auto
    have "f x @ ?rest xs r = f y @ ?rest zs r'"
      using Cons.prems(2) unfolding \<open>ys = y # zs\<close> split .
    then have eq: "x = y" "?rest xs r = ?rest zs r'"
      using Cons.prems(1) [of x "?rest xs r" y "?rest zs r'"] assms(4) by auto
    show ?thesis
    proof (cases "xs = []")
      case True
      then show ?thesis
        using eq assms(4) \<open>ys = y # zs\<close> by (auto split: if_splits)
    next
      case False
      then have "zs \<noteq> []" "join '','' (map f xs) @ b # r = join '','' (map f zs) @ b # r'"
        using eq(2) assms(4) by (auto split: if_splits)
      then have "xs = zs \<and> r = r'"
        by (intro Cons.IH) (use Cons.prems(1) in auto)
      then show ?thesis using eq(1) \<open>ys = y # zs\<close> by simp
    qed
  qed
qed

lemma dumps_prefix: "dumps v @ r = dumps w @ r' \<Longrightarrow> closed r \<Longrightarrow> closed r' \<Longrightarrow> v = w \<and> r = r'"
proof (induction v arbitrary: w r r')
  case (J_List xs)
  obtain ys where w: "w = J_List ys"
    using dumps_first [of "J_List xs"] dumps_first [of w] J_List.prems(1) by (cases w rule: json_kind.cases) auto
  have "xs = ys \<and> r = r'"
  proof (rule join_prefix [where f = dumps and b = "CHR '']''"])
    show "join '','' (map dumps xs) @ CHR '']'' # r = join '','' (map dumps ys) @ CHR '']'' # r'"
      using J_List.prems(1) by (simp add: w)
    show "dumps x \<noteq> []" "hd (dumps x) \<noteq> CHR '']''" for x
      using dumps_first [of x] by auto
  qed (use J_List.IH in auto)
  then show ?case by (simp add: w)
next
  case (J_Obj kvs)
  let ?entry = "\<lambda>(k, v). quoted k @ '':'' @ dumps v"
  obtain lvs where w: "w = J_Obj lvs"
    using dumps_first [of "J_Obj kvs"] dumps_first [of w] J_Obj.prems(1) by (cases w rule: json_kind.cases) auto
  have "kvs = lvs \<and> r = r'"
  proof (rule join_prefix [where f = ?entry and b = "CHR ''}''"])
    show "join '','' (map ?entry kvs) @ CHR ''}'' # r = join '','' (map ?entry lvs) @ CHR ''}'' # r'"
      using J_Obj.prems(1) by (simp add: w)
    show "?entry x \<noteq> []" "hd (?entry x) \<noteq> CHR ''}''" for x
      by (auto simp: quoted_def split: prod.splits)
    fix x y u u'
    assume x: "x \<in> set kvs" and eq: "?entry x @ u = ?entry y @ u'" and closed: "closed u" "closed u'"
    obtain k v l z where kv: "x = (k, v)" "y = (l, z)" by (cases x; cases y)
    have "quoted k @ CHR '':'' # dumps v @ u = quoted l @ CHR '':'' # dumps z @ u'"
      using eq by (simp add: kv)
    then have "k = l" "dumps v @ u = dumps z @ u'"
      using quoted_prefix by blast+
    then show "x = y \<and> u = u'"
      using J_Obj.IH [of x v u z u'] x closed by (simp add: kv)
  qed simp
  then show ?case by (simp add: w)
next
  case (J_Int i)
  obtain j where "w = J_Int j"
    using dumps_first [of "J_Int i"] dumps_first [of w] J_Int.prems(1) by (cases w rule: json_kind.cases) auto
  then show ?case using str_int_prefix [of i r j r'] J_Int.prems by simp
next
  case (J_Str s)
  obtain t where "w = J_Str t"
    using dumps_first [of "J_Str s"] dumps_first [of w] J_Str.prems(1) by (cases w rule: json_kind.cases) auto
  then show ?case using quoted_prefix [of s r t r'] J_Str.prems(1) by simp
next
  case J_Null
  then have "w = J_Null"
    using dumps_first [of "J_Null"] dumps_first [of w] by (cases w rule: json_kind.cases) auto
  then show ?case using J_Null by simp
next
  case (J_Bool b)
  then have "w = J_Bool b"
    using dumps_first [of "J_Bool b"] dumps_first [of w] by (cases b; cases w rule: json_kind.cases) auto
  then show ?case using J_Bool by simp
qed

theorem dumps_inj: "dumps v = dumps w \<longleftrightarrow> v = w"
  using dumps_prefix [of v "[]" w "[]"] by auto

text \<open>A digest over an encoded value: \<open>hashlib.sha256(tag + b"\x00" + encoded)\<close>.\<close>

definition json_digest :: "(string \<Rightarrow> string) \<Rightarrow> string \<Rightarrow> json \<Rightarrow> string" where
  "json_digest hash tag payload = hash (tag @ CHR 0x00 # dumps payload)"

lemma json_digest_eq:
  "json_digest hash tag v = json_digest hash tag w
    \<Longrightarrow> v = w \<or> collision hash (tag @ CHR 0x00 # dumps v) (tag @ CHR 0x00 # dumps w)"
  by (auto simp: json_digest_def collision_def dumps_inj)

end
