(* ===== verification/Authorization.thy ===== *)
theory Authorization
  imports Json Lexer
begin

text \<open>
  Authority that changes over time (\<open>koschei/authorization_transition_v1.py\<close>,
  \<open>koschei/authorization_state_ledger_v1.py\<close>): sets of constraints that only attenuate, delegation chains
  that must hold at the epoch of execution, authorization states with their transitions, and the ledger of
  current states. Digests are over JSON.
\<close>

section \<open>Checks of single values\<close>

abbreviation refuse :: "string \<Rightarrow> 'a result" where
  "refuse message \<equiv> raise AuthorizationTransitionV1Error message"

definition text_of :: "string \<Rightarrow> string \<Rightarrow> string result" where
  "text_of v label =
     (if strip v = [] then raisef AuthorizationTransitionV1Error ''{} cannot be empty'' [label] else Inr (strip v))"

text \<open>\<open>str.lower\<close> on code points below 256.\<close>

definition lower_char :: "char \<Rightarrow> char" where
  "lower_char c = (if 65 \<le> cp c \<and> cp c \<le> 90 \<or> 192 \<le> cp c \<and> cp c \<le> 222 \<and> cp c \<noteq> 215 then char_of (cp c + 32) else c)"

definition digest_text :: "string \<Rightarrow> string \<Rightarrow> string result" where
  "digest_text v label =
     (if length v \<noteq> 64 then raisef AuthorizationTransitionV1Error ''{} must be a 64-character digest'' [label]
      else
        let lowered = map lower_char v in
        if \<not> list_all hex_char lowered \<or> lowered = replicate 64 (CHR ''0'') then
          raisef AuthorizationTransitionV1Error ''{} must be a non-zero hexadecimal digest'' [label]
        else Inr lowered)"

definition epoch_of :: "int \<Rightarrow> string \<Rightarrow> int result" where
  "epoch_of v label =
     (if v < 0 then raisef AuthorizationTransitionV1Error ''{} must be a non-negative integer'' [label] else Inr v)"

definition canonical_strings :: "string list \<Rightarrow> string \<Rightarrow> string list result" where
  "canonical_strings vs label =
     (if vs = [] then raisef AuthorizationTransitionV1Error ''{} must be a non-empty tuple'' [label]
      else rbind (rmap (\<lambda>v. text_of v label) vs) (\<lambda>texts.
        let normalized = sorted_set texts in
        if length normalized \<noteq> length vs then raisef AuthorizationTransitionV1Error ''{} must not contain duplicates'' [label]
        else Inr normalized))"

section \<open>Constraints\<close>

record constraint_set =
  cs_resources :: "string list"
  cs_operations :: "string list"
  cs_arguments :: "string list"
  cs_audience :: "string list"
  cs_magnitude_max :: "int option"
  cs_valid_from_epoch :: int
  cs_expires_before_epoch :: "int option"
  cs_delegation_depth :: int
  cs_redelegation :: bool

text \<open>\<open>ConstraintSetV1(...)\<close> with its \<open>__post_init__\<close>.\<close>

definition ConstraintSetV1 :: "constraint_set \<Rightarrow> constraint_set result" where
  "ConstraintSetV1 c =
     rbind (canonical_strings (cs_resources c) ''resources'') (\<lambda>resources.
     rbind (canonical_strings (cs_operations c) ''operations'') (\<lambda>operations.
     rbind (canonical_strings (cs_arguments c) ''arguments'') (\<lambda>arguments.
     rbind (canonical_strings (cs_audience c) ''audience'') (\<lambda>audience.
     if (case cs_magnitude_max c of None \<Rightarrow> False | Some m \<Rightarrow> m < 0) then
       refuse ''magnitude_max must be a non-negative integer or None''
     else
       rbind (epoch_of (cs_valid_from_epoch c) ''valid_from_epoch'') (\<lambda>_.
       rbind (case cs_expires_before_epoch c of
           None \<Rightarrow> Inr ()
         | Some e \<Rightarrow> rbind (epoch_of e ''expires_before_epoch'') (\<lambda>_.
             if e \<le> cs_valid_from_epoch c then refuse ''expires_before_epoch must be after valid_from_epoch'' else Inr ())) (\<lambda>_.
       if cs_delegation_depth c < 0 then refuse ''delegation_depth must be a non-negative integer''
       else Inr (c\<lparr>cs_resources := resources, cs_operations := operations, cs_arguments := arguments, cs_audience := audience\<rparr>)))))))"

definition texts :: "string list \<Rightarrow> json" where
  "texts ss = J_List (map J_Str ss)"

definition constraints_json :: "constraint_set \<Rightarrow> json" where
  "constraints_json c = dict
     [(''resources'', texts (cs_resources c)), (''operations'', texts (cs_operations c)), (''arguments'', texts (cs_arguments c)),
      (''audience'', texts (cs_audience c)), (''magnitude_max'', optional J_Int (cs_magnitude_max c)),
      (''valid_from_epoch'', J_Int (cs_valid_from_epoch c)), (''expires_before_epoch'', optional J_Int (cs_expires_before_epoch c)),
      (''delegation_depth'', J_Int (cs_delegation_depth c)), (''redelegation'', J_Bool (cs_redelegation c))]"

definition constraints_digest :: "(string \<Rightarrow> string) \<Rightarrow> constraint_set \<Rightarrow> string" where
  "constraints_digest hash c = json_digest hash ''koschei.constraint-set/v1'' (constraints_json c)"

definition assert_live :: "constraint_set \<Rightarrow> int \<Rightarrow> unit result" where
  "assert_live c epoch =
     rbind (epoch_of epoch ''epoch'') (\<lambda>now.
     if now < cs_valid_from_epoch c then refuse ''constraint set is not live yet''
     else if (case cs_expires_before_epoch c of None \<Rightarrow> False | Some e \<Rightarrow> e \<le> now) then refuse ''constraint set has expired''
     else Inr ())"

definition subset_of_parent :: "string \<Rightarrow> string list \<Rightarrow> string list \<Rightarrow> unit result" where
  "subset_of_parent field child parent =
     (if set child \<subseteq> set parent then Inr ()
      else raisef AuthorizationTransitionV1Error ''{} broadens parent authority'' [field])"

definition assert_attenuates :: "constraint_set \<Rightarrow> constraint_set \<Rightarrow> bool \<Rightarrow> unit result" where
  "assert_attenuates c parent delegation_hop =
     rbind (subset_of_parent ''resources'' (cs_resources c) (cs_resources parent)) (\<lambda>_.
     rbind (subset_of_parent ''operations'' (cs_operations c) (cs_operations parent)) (\<lambda>_.
     rbind (subset_of_parent ''arguments'' (cs_arguments c) (cs_arguments parent)) (\<lambda>_.
     rbind (subset_of_parent ''audience'' (cs_audience c) (cs_audience parent)) (\<lambda>_.
     if (case cs_magnitude_max parent of None \<Rightarrow> False | Some p \<Rightarrow>
          (case cs_magnitude_max c of None \<Rightarrow> True | Some m \<Rightarrow> p < m)) then refuse ''magnitude broadens parent authority''
     else if cs_valid_from_epoch c < cs_valid_from_epoch parent then refuse ''validity start broadens parent authority''
     else if (case cs_expires_before_epoch parent of None \<Rightarrow> False | Some p \<Rightarrow>
          (case cs_expires_before_epoch c of None \<Rightarrow> True | Some e \<Rightarrow> p < e)) then refuse ''validity end broadens parent authority''
     else if cs_delegation_depth parent < cs_delegation_depth c then refuse ''delegation_depth broadens parent authority''
     else if cs_redelegation c \<and> \<not> cs_redelegation parent then refuse ''redelegation broadens parent authority''
     else if delegation_hop \<and> (\<not> cs_redelegation parent \<or> cs_delegation_depth parent = 0) then
       refuse ''parent does not permit another delegation hop''
     else if delegation_hop \<and> cs_delegation_depth parent \<le> cs_delegation_depth c then
       refuse ''delegation hop must consume delegation depth''
     else Inr ()))))"

section \<open>Intents and delegation chains\<close>

record intent_commitment =
  ic_principal :: string
  ic_intent_digest :: string
  ic_purpose_digest :: string
  ic_created_epoch :: int
  ic_authority :: bool
  ic_version :: int

definition IntentCommitmentV1 :: "intent_commitment \<Rightarrow> intent_commitment result" where
  "IntentCommitmentV1 i =
     rbind (text_of (ic_principal i) ''principal'') (\<lambda>_.
     rbind (digest_text (ic_intent_digest i) ''intent_digest'') (\<lambda>_.
     rbind (digest_text (ic_purpose_digest i) ''purpose_digest'') (\<lambda>_.
     rbind (epoch_of (ic_created_epoch i) ''created_epoch'') (\<lambda>_.
     if ic_authority i then refuse ''intent commitment cannot carry authority'' else Inr i))))"

definition intent_digest :: "(string \<Rightarrow> string) \<Rightarrow> intent_commitment \<Rightarrow> string" where
  "intent_digest hash i = json_digest hash ''koschei.intent-commitment/v1'' (dict
     [(''principal'', J_Str (ic_principal i)), (''intent_digest'', J_Str (ic_intent_digest i)),
      (''purpose_digest'', J_Str (ic_purpose_digest i)), (''created_epoch'', J_Int (ic_created_epoch i)),
      (''authority'', J_Bool (ic_authority i)), (''version'', J_Int (ic_version i))])"

record delegation_link =
  dl_delegation_id :: string
  dl_parent_delegation_id :: "string option"
  dl_issuer :: string
  dl_subject :: string
  dl_constraints :: constraint_set
  dl_parent_commitment :: "string option"
  dl_checked_epoch :: int
  dl_signature_valid :: bool
  dl_revocation_status :: string
  dl_version :: int

definition REVOCATION_STATES :: "string list" where
  "REVOCATION_STATES = [''valid'', ''revoked'', ''unknown'']"

definition DelegationLinkV1 :: "delegation_link \<Rightarrow> delegation_link result" where
  "DelegationLinkV1 d =
     rbind (text_of (dl_delegation_id d) ''delegation_id'') (\<lambda>_.
     rbind (case dl_parent_delegation_id d of None \<Rightarrow> Inr [] | Some p \<Rightarrow> text_of p ''parent_delegation_id'') (\<lambda>_.
     rbind (text_of (dl_issuer d) ''issuer'') (\<lambda>_.
     rbind (text_of (dl_subject d) ''subject'') (\<lambda>_.
     rbind (case dl_parent_commitment d of None \<Rightarrow> Inr [] | Some p \<Rightarrow> digest_text p ''parent_commitment'') (\<lambda>_.
     rbind (epoch_of (dl_checked_epoch d) ''checked_epoch'') (\<lambda>_.
     if dl_revocation_status d \<notin> set REVOCATION_STATES then refuse ''unknown revocation_status'' else Inr d))))))"

definition authority_json :: "(string \<Rightarrow> string) \<Rightarrow> delegation_link \<Rightarrow> json" where
  "authority_json hash d = dict
     [(''delegation_id'', J_Str (dl_delegation_id d)), (''parent_delegation_id'', optional J_Str (dl_parent_delegation_id d)),
      (''issuer'', J_Str (dl_issuer d)), (''subject'', J_Str (dl_subject d)),
      (''constraints_digest'', J_Str (constraints_digest hash (dl_constraints d))),
      (''parent_commitment'', optional J_Str (dl_parent_commitment d)), (''version'', J_Int (dl_version d))]"

definition authority_digest :: "(string \<Rightarrow> string) \<Rightarrow> delegation_link \<Rightarrow> string" where
  "authority_digest hash d = json_digest hash ''koschei.delegation-authority/v1'' (authority_json hash d)"

definition verification_digest :: "(string \<Rightarrow> string) \<Rightarrow> delegation_link \<Rightarrow> string" where
  "verification_digest hash d = json_digest hash ''koschei.delegation-verification/v1'' (dict
     [(''authority_digest'', J_Str (authority_digest hash d)), (''checked_epoch'', J_Int (dl_checked_epoch d)),
      (''signature_valid'', J_Bool (dl_signature_valid d)), (''revocation_status'', J_Str (dl_revocation_status d))])"

definition link_assert_current :: "delegation_link \<Rightarrow> int \<Rightarrow> unit result" where
  "link_assert_current d epoch =
     rbind (epoch_of epoch ''epoch'') (\<lambda>now.
     if dl_checked_epoch d \<noteq> now then refuse ''delegation validity is stale for execution epoch''
     else if \<not> dl_signature_valid d then refuse ''delegation signature is not currently valid''
     else if dl_revocation_status d \<noteq> ''valid'' then refuse ''delegation revocation state is not currently valid''
     else assert_live (dl_constraints d) now)"

definition delegation_chain_authority_digest :: "(string \<Rightarrow> string) \<Rightarrow> delegation_link list \<Rightarrow> string result" where
  "delegation_chain_authority_digest hash chain =
     (if chain = [] then refuse ''delegation chain cannot be empty''
      else Inr (json_digest hash ''koschei.delegation-chain-authority/v1'' (texts (map (authority_digest hash) chain))))"

text \<open>The loop over the chain, with the link before.\<close>

fun check_links :: "(string \<Rightarrow> string) \<Rightarrow> int \<Rightarrow> delegation_link option \<Rightarrow> delegation_link list \<Rightarrow> unit result" where
  "check_links hash now previous [] = Inr ()"
| "check_links hash now None (link # links) =
     rbind (link_assert_current link now) (\<lambda>_.
     if dl_parent_delegation_id link \<noteq> None \<or> dl_parent_commitment link \<noteq> None then refuse ''root delegation cannot name a parent''
     else check_links hash now (Some link) links)"
| "check_links hash now (Some parent) (link # links) =
     rbind (link_assert_current link now) (\<lambda>_.
     rbind (link_assert_current parent now) (\<lambda>_.
     if dl_parent_delegation_id link \<noteq> Some (dl_delegation_id parent) then refuse ''delegation parent id mismatch''
     else if dl_parent_commitment link \<noteq> Some (authority_digest hash parent) then refuse ''delegation parent commitment mismatch''
     else if dl_issuer link \<noteq> dl_subject parent then refuse ''delegation issuer is not the parent subject''
     else rbind (assert_attenuates (dl_constraints link) (dl_constraints parent) True) (\<lambda>_.
       check_links hash now (Some link) links)))"

definition assert_delegation_chain_current :: "(string \<Rightarrow> string) \<Rightarrow> delegation_link list \<Rightarrow> int \<Rightarrow> string result" where
  "assert_delegation_chain_current hash chain execution_epoch =
     rbind (epoch_of execution_epoch ''execution_epoch'') (\<lambda>now.
     if chain = [] then refuse ''delegation chain cannot be empty''
     else rbind (check_links hash now None chain) (\<lambda>_.
       Inr (json_digest hash ''koschei.delegation-chain-current/v1'' (texts (map (verification_digest hash) chain)))))"

section \<open>Authorization states\<close>

record authorization_state =
  as_subject :: string
  as_intent_commitment_digest :: string
  as_delegation_chain_authority_digest :: string
  as_authority_ceiling :: constraint_set
  as_effective_constraints :: constraint_set
  as_status :: string
  as_epoch :: int
  as_previous_state_digest :: "string option"
  as_state_digest :: string
  as_authority :: bool
  as_version :: int

definition STATUSES :: "string list" where
  "STATUSES = [''active'', ''suspended'', ''revoked'', ''expired'']"

definition TRANSITIONS :: "string list" where
  "TRANSITIONS = [''NARROW'', ''STEP_UP'', ''SUSPEND'', ''REVOKE'', ''EXPIRE'']"

text \<open>\<open>AuthorizationStateV1(...)\<close> and \<open>replace\<close> run the checks of \<open>__post_init__\<close>.\<close>

definition AuthorizationStateV1 :: "authorization_state \<Rightarrow> authorization_state result" where
  "AuthorizationStateV1 s =
     rbind (text_of (as_subject s) ''subject'') (\<lambda>_.
     rbind (digest_text (as_intent_commitment_digest s) ''intent_commitment_digest'') (\<lambda>_.
     rbind (digest_text (as_delegation_chain_authority_digest s) ''delegation_chain_authority_digest'') (\<lambda>_.
     if as_status s \<notin> set STATUSES then refuse ''unknown authorization status''
     else
       rbind (epoch_of (as_epoch s) ''epoch'') (\<lambda>_.
       rbind (case as_previous_state_digest s of None \<Rightarrow> Inr [] | Some d \<Rightarrow> digest_text d ''previous_state_digest'') (\<lambda>_.
       rbind (if as_state_digest s = [] then Inr [] else digest_text (as_state_digest s) ''state_digest'') (\<lambda>_.
       if as_authority s then refuse ''authorization state receipt cannot carry ambient authority''
       else rbind (assert_attenuates (as_effective_constraints s) (as_authority_ceiling s) False) (\<lambda>_. Inr s)))))))"

definition state_assert_active :: "authorization_state \<Rightarrow> int \<Rightarrow> unit result" where
  "state_assert_active s epoch =
     rbind (epoch_of epoch ''epoch'') (\<lambda>now.
     if as_status s \<noteq> ''active'' then refuse ''authorization state is not active''
     else if now < as_epoch s then refuse ''authorization state is from the future''
     else assert_live (as_effective_constraints s) now)"

definition state_json :: "(string \<Rightarrow> string) \<Rightarrow> authorization_state \<Rightarrow> json" where
  "state_json hash s = dict
     [(''subject'', J_Str (as_subject s)), (''intent_commitment_digest'', J_Str (as_intent_commitment_digest s)),
      (''delegation_chain_authority_digest'', J_Str (as_delegation_chain_authority_digest s)),
      (''authority_ceiling_digest'', J_Str (constraints_digest hash (as_authority_ceiling s))),
      (''effective_constraints_digest'', J_Str (constraints_digest hash (as_effective_constraints s))),
      (''status'', J_Str (as_status s)), (''epoch'', J_Int (as_epoch s)),
      (''previous_state_digest'', optional J_Str (as_previous_state_digest s)),
      (''authority'', J_Bool (as_authority s)), (''version'', J_Int (as_version s))]"

definition state_digest :: "(string \<Rightarrow> string) \<Rightarrow> authorization_state \<Rightarrow> string" where
  "state_digest hash s = json_digest hash ''koschei.authorization-state/v1'' (state_json hash s)"

definition seal_state :: "(string \<Rightarrow> string) \<Rightarrow> authorization_state \<Rightarrow> authorization_state result" where
  "seal_state hash s =
     rbind (AuthorizationStateV1 (s\<lparr>as_state_digest := []\<rparr>)) (\<lambda>s. AuthorizationStateV1 (s\<lparr>as_state_digest := state_digest hash s\<rparr>))"

definition state_assert_sealed :: "(string \<Rightarrow> string) \<Rightarrow> authorization_state \<Rightarrow> unit result" where
  "state_assert_sealed hash s =
     rbind (AuthorizationStateV1 (s\<lparr>as_state_digest := []\<rparr>)) (\<lambda>bare.
     if state_digest hash bare \<noteq> as_state_digest s then refuse ''authorization state seal mismatch'' else Inr ())"

definition issue_authorization_state ::
  "(string \<Rightarrow> string) \<Rightarrow> intent_commitment \<Rightarrow> delegation_link list \<Rightarrow> int \<Rightarrow> constraint_set option \<Rightarrow> authorization_state result" where
  "issue_authorization_state hash intent chain epoch effective_constraints =
     rbind (epoch_of epoch ''epoch'') (\<lambda>now.
     rbind (assert_delegation_chain_current hash chain now) (\<lambda>_.
     let leaf = last chain in
     if ic_principal intent \<noteq> dl_subject leaf then refuse ''intent principal does not match delegated subject''
     else
       let ceiling = dl_constraints leaf;
           effective = (case effective_constraints of None \<Rightarrow> ceiling | Some c \<Rightarrow> c)
       in rbind (assert_attenuates effective ceiling False) (\<lambda>_.
          rbind (assert_live effective now) (\<lambda>_.
          rbind (delegation_chain_authority_digest hash chain) (\<lambda>chain_digest.
          seal_state hash \<lparr>as_subject = dl_subject leaf, as_intent_commitment_digest = intent_digest hash intent,
            as_delegation_chain_authority_digest = chain_digest, as_authority_ceiling = ceiling, as_effective_constraints = effective,
            as_status = ''active'', as_epoch = now, as_previous_state_digest = None, as_state_digest = [],
            as_authority = False, as_version = 1\<rparr>)))))"

section \<open>Transitions\<close>

record authorization_transition =
  at_kind :: string
  at_epoch :: int
  at_previous_state_digest :: string
  at_next_state_digest :: string
  at_reason_digest :: string
  at_transition_digest :: string
  at_version :: int

text \<open>
  \<open>str.upper\<close> on code points below 256, of which two have their upper case above 255 and are kept: a text with
  them is no name of a transition in either case.
\<close>

definition upper_char :: "char \<Rightarrow> string" where
  "upper_char c =
     (if 97 \<le> cp c \<and> cp c \<le> 122 \<or> 224 \<le> cp c \<and> cp c \<le> 254 \<and> cp c \<noteq> 247 then [char_of (cp c - 32)]
      else if cp c = 223 then ''SS'' else [c])"

definition transition_json :: "authorization_transition \<Rightarrow> json" where
  "transition_json t = dict
     [(''kind'', J_Str (at_kind t)), (''epoch'', J_Int (at_epoch t)), (''previous_state_digest'', J_Str (at_previous_state_digest t)),
      (''next_state_digest'', J_Str (at_next_state_digest t)), (''reason_digest'', J_Str (at_reason_digest t)),
      (''version'', J_Int (at_version t))]"

definition transition_digest :: "(string \<Rightarrow> string) \<Rightarrow> authorization_transition \<Rightarrow> string" where
  "transition_digest hash t = json_digest hash ''koschei.authorization-transition/v1'' (transition_json t)"

text \<open>The constraints and the status after the transition.\<close>

definition transition_effect ::
  "authorization_state \<Rightarrow> string \<Rightarrow> constraint_set option \<Rightarrow> (constraint_set \<times> string) result" where
  "transition_effect current kind next_effective_constraints =
     (if kind = ''NARROW'' then
        (case next_effective_constraints of
           None \<Rightarrow> refuse ''NARROW requires next_effective_constraints''
         | Some c \<Rightarrow> rbind (assert_attenuates c (as_effective_constraints current) False) (\<lambda>_. Inr (c, ''active'')))
      else if kind = ''STEP_UP'' then
        (case next_effective_constraints of
           None \<Rightarrow> refuse ''STEP_UP requires next_effective_constraints''
         | Some c \<Rightarrow> rbind (assert_attenuates c (as_authority_ceiling current) False) (\<lambda>_. Inr (c, ''active'')))
      else if next_effective_constraints \<noteq> None then
        raisef AuthorizationTransitionV1Error ''{} cannot change constraints'' [kind]
      else Inr (as_effective_constraints current,
        if kind = ''SUSPEND'' then ''suspended'' else if kind = ''REVOKE'' then ''revoked'' else ''expired''))"

definition transition_authorization_state ::
  "(string \<Rightarrow> string) \<Rightarrow> authorization_state \<Rightarrow> string \<Rightarrow> int \<Rightarrow> string \<Rightarrow> constraint_set option
    \<Rightarrow> (authorization_state \<times> authorization_transition) result" where
  "transition_authorization_state hash current kind epoch reason_digest next_effective_constraints =
     rbind (state_assert_sealed hash current) (\<lambda>_.
     rbind (text_of kind ''kind'') (\<lambda>name.
     let transition_kind = concat (map upper_char name) in
     if transition_kind \<notin> set TRANSITIONS then refuse ''unknown authorization transition''
     else
       rbind (epoch_of epoch ''epoch'') (\<lambda>now.
       if now \<le> as_epoch current then refuse ''authorization transition epoch must increase''
       else
         rbind (digest_text reason_digest ''reason_digest'') (\<lambda>reason.
         if as_status current \<in> {''revoked'', ''expired''} then refuse ''terminal authorization state cannot transition''
         else if as_status current = ''suspended'' \<and> transition_kind \<notin> {''REVOKE'', ''EXPIRE''} then
           refuse ''suspended authority cannot silently recover''
         else
           rbind (transition_effect current transition_kind next_effective_constraints) (\<lambda>(effective, next_status).
           rbind (seal_state hash \<lparr>as_subject = as_subject current, as_intent_commitment_digest = as_intent_commitment_digest current,
             as_delegation_chain_authority_digest = as_delegation_chain_authority_digest current,
             as_authority_ceiling = as_authority_ceiling current, as_effective_constraints = effective, as_status = next_status,
             as_epoch = now, as_previous_state_digest = Some (as_state_digest current), as_state_digest = [],
             as_authority = False, as_version = 1\<rparr>) (\<lambda>next_state.
           let bare = \<lparr>at_kind = transition_kind, at_epoch = now, at_previous_state_digest = as_state_digest current,
             at_next_state_digest = as_state_digest next_state, at_reason_digest = reason, at_transition_digest = [], at_version = 1\<rparr>
           in Inr (next_state, bare\<lparr>at_transition_digest := transition_digest hash bare\<rparr>)))))))"

record execution_snapshot =
  es_state_digest :: string
  es_intent_commitment_digest :: string
  es_delegation_chain_authority_digest :: string
  es_delegation_current_verification_digest :: string
  es_effective_constraints_digest :: string
  es_execution_epoch :: int
  es_snapshot_digest :: string
  es_authority :: bool
  es_version :: int

definition snapshot_json :: "execution_snapshot \<Rightarrow> json" where
  "snapshot_json x = dict
     [(''state_digest'', J_Str (es_state_digest x)), (''intent_commitment_digest'', J_Str (es_intent_commitment_digest x)),
      (''delegation_chain_authority_digest'', J_Str (es_delegation_chain_authority_digest x)),
      (''delegation_current_verification_digest'', J_Str (es_delegation_current_verification_digest x)),
      (''effective_constraints_digest'', J_Str (es_effective_constraints_digest x)), (''execution_epoch'', J_Int (es_execution_epoch x)),
      (''authority'', J_Bool (es_authority x)), (''version'', J_Int (es_version x))]"

definition snapshot_for_execution ::
  "(string \<Rightarrow> string) \<Rightarrow> authorization_state \<Rightarrow> delegation_link list \<Rightarrow> int \<Rightarrow> execution_snapshot result" where
  "snapshot_for_execution hash state chain execution_epoch =
     rbind (epoch_of execution_epoch ''execution_epoch'') (\<lambda>now.
     rbind (state_assert_sealed hash state) (\<lambda>_.
     rbind (state_assert_active state now) (\<lambda>_.
     rbind (assert_delegation_chain_current hash chain now) (\<lambda>current_verification.
     rbind (delegation_chain_authority_digest hash chain) (\<lambda>chain_digest.
     if chain_digest \<noteq> as_delegation_chain_authority_digest state then refuse ''current delegation chain differs from authorization state''
     else if dl_subject (last chain) \<noteq> as_subject state then refuse ''current delegation subject differs from authorization state''
     else
       rbind (assert_attenuates (as_effective_constraints state) (dl_constraints (last chain)) False) (\<lambda>_.
       let bare = \<lparr>es_state_digest = as_state_digest state, es_intent_commitment_digest = as_intent_commitment_digest state,
         es_delegation_chain_authority_digest = chain_digest, es_delegation_current_verification_digest = current_verification,
         es_effective_constraints_digest = constraints_digest hash (as_effective_constraints state), es_execution_epoch = now,
         es_snapshot_digest = [], es_authority = False, es_version = 1\<rparr>
       in Inr (bare\<lparr>es_snapshot_digest := json_digest hash ''koschei.execution-authorization-snapshot/v1'' (snapshot_json bare)\<rparr>)))))))"

section \<open>The ledger of current states\<close>

type_synonym ledger = "string \<rightharpoonup> string"

definition assert_transition_sealed :: "(string \<Rightarrow> string) \<Rightarrow> authorization_transition \<Rightarrow> unit result" where
  "assert_transition_sealed hash t =
     (if transition_digest hash t \<noteq> at_transition_digest t then refuse ''authorization transition seal mismatch'' else Inr ())"

definition register_initial :: "(string \<Rightarrow> string) \<Rightarrow> authorization_state \<Rightarrow> ledger \<Rightarrow> ledger result" where
  "register_initial hash state heads =
     rbind (state_assert_sealed hash state) (\<lambda>_.
     if as_previous_state_digest state \<noteq> None then refuse ''initial authorization state cannot have a predecessor''
     else if as_status state \<noteq> ''active'' then refuse ''initial authorization state must be active''
     else if heads (as_subject state) \<noteq> None then refuse ''authorization state head already exists''
     else Inr (heads(as_subject state \<mapsto> as_state_digest state)))"

definition ledger_assert_current :: "(string \<Rightarrow> string) \<Rightarrow> authorization_state \<Rightarrow> ledger \<Rightarrow> unit result" where
  "ledger_assert_current hash state heads =
     rbind (state_assert_sealed hash state) (\<lambda>_.
     case heads (as_subject state) of
       None \<Rightarrow> refuse ''authorization state head is unavailable''
     | Some head \<Rightarrow>
         if head \<noteq> as_state_digest state then refuse ''authorization state is not the current monotonic head'' else Inr ())"

definition commit_transition ::
  "(string \<Rightarrow> string) \<Rightarrow> authorization_state \<Rightarrow> authorization_state \<Rightarrow> authorization_transition \<Rightarrow> ledger \<Rightarrow> ledger result" where
  "commit_transition hash previous next_state t heads =
     rbind (ledger_assert_current hash previous heads) (\<lambda>_.
     rbind (state_assert_sealed hash next_state) (\<lambda>_.
     rbind (assert_transition_sealed hash t) (\<lambda>_.
     if as_subject previous \<noteq> as_subject next_state then refuse ''authorization transition changes subject''
     else if as_previous_state_digest next_state \<noteq> Some (as_state_digest previous) then
       refuse ''next authorization state predecessor mismatch''
     else if at_previous_state_digest t \<noteq> as_state_digest previous then refuse ''authorization transition previous-state mismatch''
     else if at_next_state_digest t \<noteq> as_state_digest next_state then refuse ''authorization transition next-state mismatch''
     else if at_epoch t \<noteq> as_epoch next_state then refuse ''authorization transition epoch mismatch''
     else Inr (heads(as_subject previous \<mapsto> as_state_digest next_state)))))"

definition ledger_snapshot ::
  "(string \<Rightarrow> string) \<Rightarrow> authorization_state \<Rightarrow> delegation_link list \<Rightarrow> int \<Rightarrow> ledger \<Rightarrow> execution_snapshot result" where
  "ledger_snapshot hash state chain execution_epoch heads =
     rbind (ledger_assert_current hash state heads) (\<lambda>_. snapshot_for_execution hash state chain execution_epoch)"

end
