(* ===== verification/Authorization_Safety.thy ===== *)
theory Authorization_Safety
  imports Authorization
begin

text \<open>
  What the authorization state machine guarantees: attenuation is inclusion of the actions allowed, a delegation
  chain only narrows, states keep their ceiling and never recover authority, and the ledger does not go back to
  a former state.
\<close>

section \<open>Successful checks\<close>

named_theorems check_simps \<open>when the checks of single values pass\<close>

lemma text_of_Inr [check_simps]: "text_of v label = Inr w \<longleftrightarrow> strip v \<noteq> [] \<and> w = strip v"
  by (auto simp: text_of_def)

lemma epoch_of_Inr [check_simps]: "epoch_of v label = Inr w \<longleftrightarrow> 0 \<le> v \<and> w = v"
  by (auto simp: epoch_of_def)

lemma lower_hex_char: "hex_char c \<Longrightarrow> lower_char c = c"
  by (auto simp: hex_char_def lower_char_def)

lemma digest_text_hex: "hex64 d \<Longrightarrow> d \<noteq> replicate 64 (CHR ''0'') \<Longrightarrow> digest_text d label = Inr d"
  by (simp add: digest_text_def hex64_def lower_hex_char list.pred_set map_idI)

text \<open>A bound that may be absent.\<close>

definition within :: "int option \<Rightarrow> int option \<Rightarrow> bool" where
  "within child parent = (case parent of None \<Rightarrow> True | Some p \<Rightarrow> (case child of None \<Rightarrow> False | Some c \<Rightarrow> c \<le> p))"

lemma within_order: "within a a" "within a b \<Longrightarrow> within b c \<Longrightarrow> within a c"
  by (auto simp: within_def split: option.splits)

lemma assert_live_Inr [check_simps]:
  "assert_live c epoch = Inr u \<longleftrightarrow>
     0 \<le> epoch \<and> cs_valid_from_epoch c \<le> epoch \<and> (\<forall>e. cs_expires_before_epoch c = Some e \<longrightarrow> epoch < e)"
  by (auto simp: assert_live_def rbind_eq_Inr epoch_of_Inr split: option.splits)

lemma subset_of_parent_Inr [check_simps]: "subset_of_parent field c p = Inr u \<longleftrightarrow> set c \<subseteq> set p"
  by (simp add: subset_of_parent_def)

definition attenuates :: "constraint_set \<Rightarrow> constraint_set \<Rightarrow> bool" where
  "attenuates c p \<longleftrightarrow>
     set (cs_resources c) \<subseteq> set (cs_resources p) \<and> set (cs_operations c) \<subseteq> set (cs_operations p)
   \<and> set (cs_arguments c) \<subseteq> set (cs_arguments p) \<and> set (cs_audience c) \<subseteq> set (cs_audience p)
   \<and> within (cs_magnitude_max c) (cs_magnitude_max p)
   \<and> cs_valid_from_epoch p \<le> cs_valid_from_epoch c \<and> within (cs_expires_before_epoch c) (cs_expires_before_epoch p)
   \<and> cs_delegation_depth c \<le> cs_delegation_depth p \<and> (cs_redelegation c \<longrightarrow> cs_redelegation p)"

lemma assert_attenuates_Inr [check_simps]:
  "assert_attenuates c p hop = Inr u \<longleftrightarrow>
     attenuates c p
   \<and> (hop \<longrightarrow> cs_redelegation p \<and> cs_delegation_depth p \<noteq> 0 \<and> cs_delegation_depth c < cs_delegation_depth p)"
  by (auto simp: assert_attenuates_def attenuates_def within_def rbind_eq_Inr subset_of_parent_Inr split: option.splits)

section \<open>Attenuation\<close>

text \<open>
  What a set of constraints allows: an action names a resource, an operation, an argument class, an audience,
  a magnitude and an epoch.
\<close>

record action =
  on_resource :: string
  by_operation :: string
  with_argument :: string
  for_audience :: string
  of_magnitude :: int
  at_time :: int

definition actions :: "constraint_set \<Rightarrow> action set" where
  "actions c = {a. on_resource a \<in> set (cs_resources c) \<and> by_operation a \<in> set (cs_operations c)
     \<and> with_argument a \<in> set (cs_arguments c) \<and> for_audience a \<in> set (cs_audience c)
     \<and> (\<forall>m. cs_magnitude_max c = Some m \<longrightarrow> of_magnitude a \<le> m) \<and> assert_live c (at_time a) = Inr ()}"

text \<open>The interface of an order along which authority is handed on: it is a preorder.\<close>

locale handing_down =
  fixes below :: "'a \<Rightarrow> 'a \<Rightarrow> bool"
  assumes below_refl: "below x x"
    and below_trans: "below x y \<Longrightarrow> below y z \<Longrightarrow> below x z"
begin

lemma below_along:
  assumes "\<And>k. Suc k < length xs \<Longrightarrow> below (xs ! Suc k) (xs ! k)" "i \<le> j" "j < length xs"
  shows "below (xs ! j) (xs ! i)"
  using assms(2,3)
proof (induction j rule: dec_induct)
  case base
  show ?case by (rule below_refl)
next
  case (step k)
  show ?case
    by (rule below_trans [OF assms(1) step.IH]) (use step.prems in simp_all)
qed

lemma below_after_steps:
  assumes "(\<lambda>x y. below y x)\<^sup>*\<^sup>* x y"
  shows "below y x"
  using assms by induction (auto intro: below_refl below_trans)

end

lemma attenuates_refl: "attenuates c c"
  by (simp add: attenuates_def within_order)

lemma attenuates_trans: "attenuates a b \<Longrightarrow> attenuates b c \<Longrightarrow> attenuates a c"
  unfolding attenuates_def by (auto intro: within_order)

interpretation constraints: handing_down attenuates
  by unfold_locales (rule attenuates_refl, rule attenuates_trans)

lemma attenuates_actions: "attenuates c p \<Longrightarrow> actions c \<subseteq> actions p"
  by (auto simp: actions_def attenuates_def within_def assert_live_Inr split: option.splits)

text \<open>The sets that \<open>ConstraintSetV1\<close> lets through: nothing empty, a lifetime that is not empty.\<close>

lemma canonical_strings_Inr:
  assumes "canonical_strings vs label = Inr ws"
  shows "ws \<noteq> []" "sorted ws" "distinct ws"
proof -
  obtain ts where "vs \<noteq> []" "rmap (\<lambda>v. text_of v label) vs = Inr ts" "ws = sorted_set ts"
    using assms by (auto simp: canonical_strings_def rbind_eq_Inr Let_def split: if_splits)
  then show "ws \<noteq> []" "sorted ws" "distinct ws"
    by (auto simp: rmap_eq_Inr simp flip: set_empty)
qed

definition good_constraints :: "constraint_set \<Rightarrow> bool" where
  "good_constraints c \<longleftrightarrow> cs_resources c \<noteq> [] \<and> cs_operations c \<noteq> [] \<and> cs_arguments c \<noteq> [] \<and> cs_audience c \<noteq> []
   \<and> 0 \<le> cs_valid_from_epoch c \<and> 0 \<le> cs_delegation_depth c
   \<and> (\<forall>e. cs_expires_before_epoch c = Some e \<longrightarrow> cs_valid_from_epoch c < e)"

lemma ConstraintSetV1_good: "ConstraintSetV1 b = Inr c \<Longrightarrow> good_constraints c"
  by (auto simp: ConstraintSetV1_def good_constraints_def rbind_eq_Inr epoch_of_Inr dest: canonical_strings_Inr(1)
      split: if_splits option.splits)

lemma subset_actions:
  assumes "good_constraints c" "actions c \<subseteq> actions p"
  shows "set (cs_resources c) \<subseteq> set (cs_resources p)" "set (cs_operations c) \<subseteq> set (cs_operations p)"
    "set (cs_arguments c) \<subseteq> set (cs_arguments p)" "set (cs_audience c) \<subseteq> set (cs_audience p)"
    "within (cs_magnitude_max c) (cs_magnitude_max p)"
    "cs_valid_from_epoch p \<le> cs_valid_from_epoch c" "within (cs_expires_before_epoch c) (cs_expires_before_epoch p)"
proof -
  let ?m = "case cs_magnitude_max c of None \<Rightarrow> (case cs_magnitude_max p of None \<Rightarrow> 0 | Some m \<Rightarrow> m + 1) | Some m \<Rightarrow> m"
  have within_p: "r \<in> set (cs_resources p) \<and> op \<in> set (cs_operations p) \<and> a \<in> set (cs_arguments p) \<and> u \<in> set (cs_audience p)
      \<and> (\<forall>m. cs_magnitude_max p = Some m \<longrightarrow> ?m \<le> m) \<and> assert_live p e = Inr ()"
    if "r \<in> set (cs_resources c)" "op \<in> set (cs_operations c)" "a \<in> set (cs_arguments c)" "u \<in> set (cs_audience c)"
      "assert_live c e = Inr ()" for r op a u e
  proof -
    have "\<lparr>on_resource = r, by_operation = op, with_argument = a, for_audience = u, of_magnitude = ?m, at_time = e\<rparr> \<in> actions c"
      using that by (auto simp: actions_def)
    from subsetD [OF assms(2) this] show ?thesis by (simp add: actions_def)
  qed
  have hd: "hd (cs_resources c) \<in> set (cs_resources c)" "hd (cs_operations c) \<in> set (cs_operations c)"
    "hd (cs_arguments c) \<in> set (cs_arguments c)" "hd (cs_audience c) \<in> set (cs_audience c)"
    using assms(1) by (simp_all add: good_constraints_def)
  have live: "assert_live c (cs_valid_from_epoch c) = Inr ()"
    using assms(1) by (simp add: assert_live_Inr good_constraints_def)
  note p = within_p [OF hd live]
  show "set (cs_resources c) \<subseteq> set (cs_resources p)" "set (cs_operations c) \<subseteq> set (cs_operations p)"
    "set (cs_arguments c) \<subseteq> set (cs_arguments p)" "set (cs_audience c) \<subseteq> set (cs_audience p)"
    using within_p [OF _ hd(2-4) live] within_p [OF hd(1) _ hd(3,4) live] within_p [OF hd(1,2) _ hd(4) live]
      within_p [OF hd(1-3) _ live] by blast+
  show "within (cs_magnitude_max c) (cs_magnitude_max p)" "cs_valid_from_epoch p \<le> cs_valid_from_epoch c"
    using p by (auto simp: within_def assert_live_Inr split: option.splits)
  show "within (cs_expires_before_epoch c) (cs_expires_before_epoch p)"
  proof (cases "cs_expires_before_epoch p")
    case (Some n)
    let ?e = "case cs_expires_before_epoch c of None \<Rightarrow> max n (cs_valid_from_epoch c) | Some e \<Rightarrow> e - 1"
    have "assert_live c ?e = Inr ()"
      using assms(1) by (auto simp: assert_live_Inr good_constraints_def split: option.splits)
    then show ?thesis
      using within_p [OF hd, of ?e] Some by (auto simp: within_def assert_live_Inr split: option.splits)
  qed (simp add: within_def)
qed

lemma attenuates_iff_actions:
  assumes "good_constraints c"
  shows "attenuates c p \<longleftrightarrow>
    actions c \<subseteq> actions p \<and> cs_delegation_depth c \<le> cs_delegation_depth p \<and> (cs_redelegation c \<longrightarrow> cs_redelegation p)"
proof
  assume "attenuates c p"
  then show "actions c \<subseteq> actions p \<and> cs_delegation_depth c \<le> cs_delegation_depth p \<and> (cs_redelegation c \<longrightarrow> cs_redelegation p)"
    using attenuates_actions [of c p] by (simp add: attenuates_def)
next
  assume incl: "actions c \<subseteq> actions p \<and> cs_delegation_depth c \<le> cs_delegation_depth p \<and> (cs_redelegation c \<longrightarrow> cs_redelegation p)"
  then show "attenuates c p"
    using subset_actions [OF assms conjunct1 [OF incl]] by (simp add: attenuates_def)
qed

text \<open>
  Attenuation is what it should be: for constraint sets that the constructor accepted, the check passes
  exactly when every action the child allows is allowed by the parent (resource, operation, argument class,
  audience, magnitude and epoch), the delegation depth does not grow and redelegation is not gained. A
  delegation hop moreover needs a parent that permits it and a smaller depth.
\<close>

theorem attenuation_is_inclusion:
  assumes "ConstraintSetV1 b = Inr c" "ConstraintSetV1 q = Inr p"
  shows "assert_attenuates c p hop = Inr () \<longleftrightarrow>
      actions c \<subseteq> actions p \<and> cs_delegation_depth c \<le> cs_delegation_depth p \<and> (cs_redelegation c \<longrightarrow> cs_redelegation p)
    \<and> (hop \<longrightarrow> cs_redelegation p \<and> cs_delegation_depth c < cs_delegation_depth p)"
proof -
  have "0 \<le> cs_delegation_depth c" "good_constraints c"
    using ConstraintSetV1_good [OF assms(1)] by (simp_all add: good_constraints_def)
  then show ?thesis
    unfolding assert_attenuates_Inr attenuates_iff_actions [OF \<open>good_constraints c\<close>] by auto
qed

section \<open>Delegation chains\<close>

definition link_current :: "int \<Rightarrow> delegation_link \<Rightarrow> bool" where
  "link_current now d \<longleftrightarrow> dl_checked_epoch d = now \<and> dl_signature_valid d \<and> dl_revocation_status d = ''valid''
     \<and> assert_live (dl_constraints d) now = Inr ()"

definition handed_down :: "(string \<Rightarrow> string) \<Rightarrow> delegation_link \<Rightarrow> delegation_link \<Rightarrow> bool" where
  "handed_down hash parent link \<longleftrightarrow>
     dl_parent_delegation_id link = Some (dl_delegation_id parent) \<and> dl_parent_commitment link = Some (authority_digest hash parent)
   \<and> dl_issuer link = dl_subject parent \<and> assert_attenuates (dl_constraints link) (dl_constraints parent) True = Inr ()"

lemma link_assert_current_Inr [check_simps]: "link_assert_current d now = Inr u \<longleftrightarrow> link_current now d"
  by (auto simp: link_assert_current_def link_current_def rbind_eq_Inr epoch_of_Inr assert_live_Inr)

lemma check_links_Some:
  "check_links hash now (Some p) links = Inr u \<longleftrightarrow>
     list_all (link_current now) links \<and> (links \<noteq> [] \<longrightarrow> link_current now p) \<and> successively (handed_down hash) (p # links)"
  by (induction links arbitrary: p)
    (auto simp: rbind_eq_Inr link_assert_current_Inr handed_down_def successively_Cons)

lemma check_links_None:
  "check_links hash now None links = Inr u \<longleftrightarrow>
     list_all (link_current now) links \<and> successively (handed_down hash) links
   \<and> (links \<noteq> [] \<longrightarrow> dl_parent_delegation_id (hd links) = None \<and> dl_parent_commitment (hd links) = None)"
  by (cases links) (auto simp: rbind_eq_Inr link_assert_current_Inr check_links_Some)

lemma chain_current_Inr:
  "assert_delegation_chain_current hash chain now = Inr d \<longleftrightarrow>
     0 \<le> now \<and> chain \<noteq> [] \<and> list_all (link_current now) chain \<and> successively (handed_down hash) chain
   \<and> dl_parent_delegation_id (hd chain) = None \<and> dl_parent_commitment (hd chain) = None
   \<and> d = json_digest hash ''koschei.delegation-chain-current/v1'' (texts (map (verification_digest hash) chain))"
  by (auto simp: assert_delegation_chain_current_def rbind_eq_Inr epoch_of_Inr check_links_None)

lemma chain_steps:
  assumes "successively (handed_down hash) chain" "Suc k < length chain"
  shows "handed_down hash (chain ! k) (chain ! Suc k)"
  using assms by (simp add: successively_conv_nth)

lemma chain_attenuates:
  assumes "successively (handed_down hash) chain" "i \<le> j" "j < length chain"
  shows "attenuates (dl_constraints (chain ! j)) (dl_constraints (chain ! i))"
proof -
  have "attenuates (map dl_constraints chain ! j) (map dl_constraints chain ! i)"
  proof (rule constraints.below_along)
    fix k
    assume "Suc k < length (map dl_constraints chain)"
    then show "attenuates (map dl_constraints chain ! Suc k) (map dl_constraints chain ! k)"
      using chain_steps [OF assms(1), of k] by (simp add: handed_down_def assert_attenuates_Inr)
  qed (use assms in simp_all)
  then show ?thesis using assms by simp
qed

lemma chain_depth:
  assumes "successively (handed_down hash) chain" "i \<le> j" "j < length chain"
  shows "cs_delegation_depth (dl_constraints (chain ! j)) + int (j - i) \<le> cs_delegation_depth (dl_constraints (chain ! i))"
  using assms(2,3)
proof (induction j rule: dec_induct)
  case (step k)
  have "cs_delegation_depth (dl_constraints (chain ! Suc k)) < cs_delegation_depth (dl_constraints (chain ! k))"
    using chain_steps [OF assms(1) step.prems] by (simp add: handed_down_def assert_attenuates_Inr)
  then show ?case using step by (simp add: Suc_diff_le)
qed simp

text \<open>
  C11. Delegation chains hand authority down and never up. In a chain that is accepted at an epoch every link
  was checked at that epoch, is signed, not revoked and live; every link but the root was issued by the subject
  of the link before, names it and commits to its digest; what a link allows, every link above it allows; each
  hop consumes delegation depth, so a chain of well-formed links is no longer than the depth of its root permits.
\<close>

theorem delegation_chain_hands_down:
  assumes "assert_delegation_chain_current hash chain now = Inr d" "i \<le> j" "j < length chain"
  shows "dl_checked_epoch (chain ! j) = now \<and> dl_signature_valid (chain ! j) \<and> dl_revocation_status (chain ! j) = ''valid''
    \<and> assert_live (dl_constraints (chain ! j)) now = Inr ()
    \<and> (0 < j \<longrightarrow> dl_issuer (chain ! j) = dl_subject (chain ! (j - 1))
        \<and> dl_parent_delegation_id (chain ! j) = Some (dl_delegation_id (chain ! (j - 1)))
        \<and> dl_parent_commitment (chain ! j) = Some (authority_digest hash (chain ! (j - 1))))
    \<and> actions (dl_constraints (chain ! j)) \<subseteq> actions (dl_constraints (chain ! i))
    \<and> cs_delegation_depth (dl_constraints (chain ! j)) + int (j - i) \<le> cs_delegation_depth (dl_constraints (chain ! i))
    \<and> ((\<forall>l \<in> set chain. ConstraintSetV1 (dl_constraints l) = Inr (dl_constraints l))
        \<longrightarrow> int (length chain) \<le> cs_delegation_depth (dl_constraints (hd chain)) + 1)"
proof -
  note ok = assms(1) [unfolded chain_current_Inr]
  then have steps: "successively (handed_down hash) chain" "chain \<noteq> []" by simp_all
  have current: "link_current now (chain ! j)"
    using ok assms(3) by (simp add: list_all_length)
  have issued: "0 < j \<longrightarrow> handed_down hash (chain ! (j - 1)) (chain ! j)"
    using chain_steps [OF steps(1), of "j - 1"] assms(3) by (cases j) simp_all
  have bound: "int (length chain) \<le> cs_delegation_depth (dl_constraints (hd chain)) + 1"
    if "\<forall>l \<in> set chain. ConstraintSetV1 (dl_constraints l) = Inr (dl_constraints l)"
  proof -
    have "0 \<le> cs_delegation_depth (dl_constraints (last chain))"
      using that steps(2) ConstraintSetV1_good by (fastforce simp: good_constraints_def)
    then show ?thesis
      using chain_depth [OF steps(1), of 0 "length chain - 1"] steps(2) by (simp add: hd_conv_nth last_conv_nth of_nat_diff Suc_leI)
  qed
  show ?thesis
    using current issued bound attenuates_actions [OF chain_attenuates [OF steps(1) assms(2,3)]] chain_depth [OF steps(1) assms(2,3)]
    by (simp add: link_current_def handed_down_def)
qed

section \<open>Authorization states\<close>

definition digest_ok :: "string \<Rightarrow> bool" where
  "digest_ok d \<longleftrightarrow> length d = 64 \<and> list_all hex_char (map lower_char d) \<and> map lower_char d \<noteq> replicate 64 (CHR ''0'')"

lemma digest_text_Inr [check_simps]: "digest_text v label = Inr w \<longleftrightarrow> digest_ok v \<and> w = map lower_char v"
  by (auto simp: digest_text_def digest_ok_def Let_def)

definition state_ok :: "authorization_state \<Rightarrow> bool" where
  "state_ok s \<longleftrightarrow> strip (as_subject s) \<noteq> [] \<and> digest_ok (as_intent_commitment_digest s)
     \<and> digest_ok (as_delegation_chain_authority_digest s) \<and> as_status s \<in> set STATUSES \<and> 0 \<le> as_epoch s
     \<and> (\<forall>d. as_previous_state_digest s = Some d \<longrightarrow> digest_ok d) \<and> \<not> as_authority s
     \<and> attenuates (as_effective_constraints s) (as_authority_ceiling s)"

lemma AuthorizationStateV1_Inr [check_simps]:
  "AuthorizationStateV1 s = Inr t \<longleftrightarrow> t = s \<and> state_ok s \<and> (as_state_digest s = [] \<or> digest_ok (as_state_digest s))"
  by (auto simp: AuthorizationStateV1_def state_ok_def rbind_eq_Inr text_of_Inr epoch_of_Inr digest_text_Inr
      assert_attenuates_Inr split: option.splits if_splits)

text \<open>A seal is on everything but itself.\<close>

lemma state_digest_bare [simp]: "state_digest hash (s\<lparr>as_state_digest := x\<rparr>) = state_digest hash s"
  by (simp add: state_digest_def state_json_def)

lemma state_ok_bare [simp]: "state_ok (s\<lparr>as_state_digest := x\<rparr>) = state_ok s"
  by (simp add: state_ok_def)

definition sealed_state :: "(string \<Rightarrow> string) \<Rightarrow> authorization_state \<Rightarrow> bool" where
  "sealed_state hash s \<longleftrightarrow> state_ok s \<and> as_state_digest s = state_digest hash s"

lemma state_assert_sealed_Inr [check_simps]: "state_assert_sealed hash s = Inr u \<longleftrightarrow> sealed_state hash s"
  by (auto simp: state_assert_sealed_def sealed_state_def rbind_eq_Inr AuthorizationStateV1_Inr)

lemma seal_state_Inr [check_simps]:
  "seal_state hash s = Inr t \<longleftrightarrow>
     state_ok s \<and> (state_digest hash s = [] \<or> digest_ok (state_digest hash s)) \<and> t = s\<lparr>as_state_digest := state_digest hash s\<rparr>"
  by (auto simp: seal_state_def rbind_eq_Inr AuthorizationStateV1_Inr)

lemma seal_state_sealed: "seal_state hash s = Inr t \<Longrightarrow> sealed_state hash t"
  unfolding seal_state_Inr sealed_state_def by simp

text \<open>The states that follow one another, from a state on.\<close>

inductive auth_steps :: "(string \<Rightarrow> string) \<Rightarrow> authorization_state \<Rightarrow> authorization_state \<Rightarrow> bool" for hash where
  start: "auth_steps hash s s"
| step: "auth_steps hash s t \<Longrightarrow> transition_authorization_state hash t k epoch reason constraints = Inr (u, receipt)
    \<Longrightarrow> auth_steps hash s u"

inductive_cases auth_steps_cases: "auth_steps hash s t"

definition next_state_of :: "(string \<Rightarrow> string) \<Rightarrow> authorization_state \<Rightarrow> authorization_state \<Rightarrow> bool" where
  "next_state_of hash s u \<longleftrightarrow> sealed_state hash s \<and> sealed_state hash u
     \<and> as_subject u = as_subject s \<and> as_intent_commitment_digest u = as_intent_commitment_digest s
     \<and> as_delegation_chain_authority_digest u = as_delegation_chain_authority_digest s
     \<and> as_authority_ceiling u = as_authority_ceiling s \<and> as_epoch s < as_epoch u
     \<and> as_previous_state_digest u = Some (as_state_digest s)
     \<and> as_status s \<notin> {''revoked'', ''expired''}
     \<and> (as_status s = ''suspended'' \<longrightarrow> as_status u \<in> {''revoked'', ''expired''} \<and> as_effective_constraints u = as_effective_constraints s)"

lemma transition_effect_cases:
  assumes "transition_effect s k constraints = Inr (effective, status)" "k \<in> set TRANSITIONS"
  shows "k = ''NARROW'' \<and> constraints = Some effective \<and> status = ''active'' \<and> attenuates effective (as_effective_constraints s)
    \<or> k = ''STEP_UP'' \<and> constraints = Some effective \<and> status = ''active'' \<and> attenuates effective (as_authority_ceiling s)
    \<or> (k, status) \<in> {(''SUSPEND'', ''suspended''), (''REVOKE'', ''revoked''), (''EXPIRE'', ''expired'')}
      \<and> constraints = None \<and> effective = as_effective_constraints s"
  using assms by (auto simp: transition_effect_def TRANSITIONS_def rbind_eq_Inr assert_attenuates_Inr split: if_splits option.splits)

lemma transition_next:
  assumes "transition_authorization_state hash s k epoch reason constraints = Inr (u, t)"
  shows "next_state_of hash s u"
proof -
  obtain kind eff st where k: "kind \<in> set TRANSITIONS"
    and e: "transition_effect s kind constraints = Inr (eff, st)"
    and s: "sealed_state hash s" "as_epoch s < epoch" "as_status s \<notin> {''revoked'', ''expired''}"
      "as_status s = ''suspended'' \<longrightarrow> kind \<in> {''REVOKE'', ''EXPIRE''}"
    and u: "seal_state hash \<lparr>as_subject = as_subject s, as_intent_commitment_digest = as_intent_commitment_digest s,
             as_delegation_chain_authority_digest = as_delegation_chain_authority_digest s,
             as_authority_ceiling = as_authority_ceiling s, as_effective_constraints = eff, as_status = st,
             as_epoch = epoch, as_previous_state_digest = Some (as_state_digest s), as_state_digest = [],
             as_authority = False, as_version = 1\<rparr> = Inr u"
    using assms unfolding transition_authorization_state_def Let_def
    by (auto simp only: rbind_eq_Inr state_assert_sealed_Inr epoch_of_Inr if_Inl_eq_Inr Inr_inject prod.inject split: prod.splits) auto
  have "as_status s = ''suspended'' \<longrightarrow> st \<in> {''revoked'', ''expired''} \<and> eff = as_effective_constraints s"
    using transition_effect_cases [OF e k] s(4) by auto
  moreover have "sealed_state hash u" by (rule seal_state_sealed [OF u])
  ultimately show ?thesis
    using u s unfolding next_state_of_def seal_state_Inr by simp
qed

lemma auth_steps_next:
  assumes "auth_steps hash s t" "t \<noteq> s"
  shows "(next_state_of hash)\<^sup>+\<^sup>+ s t"
  using assms
proof (induction rule: auth_steps.induct)
  case (step s t k epoch reason constraints u receipt)
  then show ?case
    using transition_next [OF step.hyps(2)] by (cases "t = s") (auto intro: tranclp.trancl_into_trancl)
qed simp

lemma next_states:
  assumes "(next_state_of hash)\<^sup>+\<^sup>+ s t"
  shows "sealed_state hash t \<and> as_subject t = as_subject s \<and> as_intent_commitment_digest t = as_intent_commitment_digest s
    \<and> as_delegation_chain_authority_digest t = as_delegation_chain_authority_digest s
    \<and> as_authority_ceiling t = as_authority_ceiling s \<and> as_epoch s < as_epoch t \<and> as_status s \<notin> {''revoked'', ''expired''}
    \<and> (as_status s = ''suspended'' \<longrightarrow> as_status t \<in> {''revoked'', ''expired''})"
  using assms by induction (auto simp: next_state_of_def)

text \<open>The state of one delegated authority: where it comes from does not change.\<close>

definition state_for :: "(string \<Rightarrow> string) \<Rightarrow> intent_commitment \<Rightarrow> delegation_link list \<Rightarrow> authorization_state \<Rightarrow> bool" where
  "state_for hash intent chain s \<longleftrightarrow> sealed_state hash s \<and> as_subject s = dl_subject (last chain)
     \<and> as_intent_commitment_digest s = intent_digest hash intent
     \<and> delegation_chain_authority_digest hash chain = Inr (as_delegation_chain_authority_digest s)
     \<and> as_authority_ceiling s = dl_constraints (last chain)"

lemma issue_Inr:
  assumes "issue_authorization_state hash intent chain epoch effective = Inr s"
  shows "state_for hash intent chain s \<and> as_status s = ''active'' \<and> as_epoch s = epoch \<and> as_previous_state_digest s = None
    \<and> ic_principal intent = as_subject s \<and> is_ok (assert_delegation_chain_current hash chain epoch)
    \<and> assert_live (as_effective_constraints s) epoch = Inr ()"
proof -
  obtain d c v where v: "seal_state hash v = Inr s"
      "v = \<lparr>as_subject = dl_subject (last chain), as_intent_commitment_digest = intent_digest hash intent,
            as_delegation_chain_authority_digest = d, as_authority_ceiling = dl_constraints (last chain), as_effective_constraints = c,
            as_status = ''active'', as_epoch = epoch, as_previous_state_digest = None, as_state_digest = [],
            as_authority = False, as_version = 1\<rparr>"
      "delegation_chain_authority_digest hash chain = Inr d" "ic_principal intent = dl_subject (last chain)"
      "is_ok (assert_delegation_chain_current hash chain epoch)" "assert_live c epoch = Inr ()"
    using assms by (auto simp: issue_authorization_state_def rbind_eq_Inr epoch_of_Inr Let_def split: if_splits)
  then show ?thesis
    using seal_state_sealed [OF v(1)] unfolding state_for_def seal_state_Inr by simp
qed

lemma auth_steps_state_for:
  assumes "auth_steps hash s t" "state_for hash intent chain s"
  shows "state_for hash intent chain t"
  using assms next_states [OF auth_steps_next [OF assms(1)]] by (cases "t = s") (simp_all add: state_for_def)

text \<open>
  C10. Authority never silently recovers. From an issued state, through any sequence of transitions, every
  state is sealed and keeps its subject, intent, delegation chain and authority ceiling; what is effective
  stays within the ceiling that the last link of the chain allows; epochs strictly increase; a state that is
  not active never leads to an active one, and a revoked or expired state has no successor.
\<close>

theorem authority_never_recovers:
  assumes "issue_authorization_state hash intent chain epoch effective = Inr s0"
    and "auth_steps hash s0 s" "auth_steps hash s t"
  shows "state_assert_sealed hash t = Inr () \<and> as_subject t = dl_subject (last chain)
    \<and> as_intent_commitment_digest t = intent_digest hash intent
    \<and> delegation_chain_authority_digest hash chain = Inr (as_delegation_chain_authority_digest t)
    \<and> as_authority_ceiling t = dl_constraints (last chain)
    \<and> actions (as_effective_constraints t) \<subseteq> actions (dl_constraints (last chain))
    \<and> (t = s \<or> as_epoch s < as_epoch t)
    \<and> (as_status s \<noteq> ''active'' \<longrightarrow> as_status t \<noteq> ''active'')
    \<and> (as_status s \<in> {''revoked'', ''expired''} \<longrightarrow> t = s)"
proof -
  have s: "state_for hash intent chain s"
    by (rule auth_steps_state_for [OF assms(2)]) (use issue_Inr [OF assms(1)] in blast)
  have t: "state_for hash intent chain t"
    by (rule auth_steps_state_for [OF assms(3) s])
  have "as_status s \<in> set STATUSES" using s by (simp add: state_for_def sealed_state_def state_ok_def)
  then have "as_status s \<noteq> ''active'' \<Longrightarrow> as_status s \<in> {''suspended'', ''revoked'', ''expired''}"
    by (auto simp: STATUSES_def)
  then have "(t = s \<or> as_epoch s < as_epoch t) \<and> (as_status s \<noteq> ''active'' \<longrightarrow> as_status t \<noteq> ''active'')
      \<and> (as_status s \<in> {''revoked'', ''expired''} \<longrightarrow> t = s)"
    using next_states [OF auth_steps_next [OF assms(3)]] by (cases "t = s") auto
  moreover have "attenuates (as_effective_constraints t) (dl_constraints (last chain))"
    using t unfolding state_for_def sealed_state_def state_ok_def by metis
  ultimately show ?thesis
    using t attenuates_actions by (simp add: state_for_def state_assert_sealed_Inr)
qed

section \<open>Snapshots\<close>

lemma snapshot_Inr:
  assumes "snapshot_for_execution hash s chain now = Inr x"
  shows "sealed_state hash s \<and> as_status s = ''active'' \<and> as_epoch s \<le> now \<and> assert_live (as_effective_constraints s) now = Inr ()
    \<and> is_ok (assert_delegation_chain_current hash chain now)
    \<and> delegation_chain_authority_digest hash chain = Inr (as_delegation_chain_authority_digest s)
    \<and> dl_subject (last chain) = as_subject s \<and> attenuates (as_effective_constraints s) (dl_constraints (last chain))
    \<and> es_state_digest x = as_state_digest s \<and> es_execution_epoch x = now \<and> \<not> es_authority x
    \<and> es_effective_constraints_digest x = constraints_digest hash (as_effective_constraints s)
    \<and> es_intent_commitment_digest x = as_intent_commitment_digest s"
  using assms
  by (auto simp: snapshot_for_execution_def state_assert_active_def rbind_eq_Inr epoch_of_Inr state_assert_sealed_Inr
      assert_attenuates_Inr Let_def assert_live_Inr split: if_splits)

lemma ledger_assert_current_Inr [check_simps]:
  "ledger_assert_current hash s heads = Inr u \<longleftrightarrow> sealed_state hash s \<and> heads (as_subject s) = Some (as_state_digest s)"
  by (auto simp: ledger_assert_current_def rbind_eq_Inr state_assert_sealed_Inr split: option.splits)

lemma ledger_snapshot_Inr:
  "ledger_snapshot hash s chain now heads = Inr x \<longleftrightarrow>
     heads (as_subject s) = Some (as_state_digest s) \<and> snapshot_for_execution hash s chain now = Inr x"
  using snapshot_Inr [of hash s chain now x] by (auto simp: ledger_snapshot_def rbind_eq_Inr ledger_assert_current_Inr)

lemma below_every_link:
  assumes "assert_delegation_chain_current hash chain now = Inr d" "attenuates c (dl_constraints (last chain))" "l \<in> set chain"
  shows "attenuates c (dl_constraints l)"
proof -
  obtain i where i: "i < length chain" "l = chain ! i" using assms(3) by (auto simp: in_set_conv_nth)
  have "attenuates (dl_constraints (chain ! (length chain - 1))) (dl_constraints (chain ! i))"
    using assms(1) i by (intro chain_attenuates [of hash]) (simp_all add: chain_current_Inr)
  then show ?thesis
    using assms(2) i attenuates_trans [of c "dl_constraints (last chain)"] by (cases chain rule: rev_cases) auto
qed

text \<open>
  A snapshot means authorized now: when the ledger gives one out, the state presented is sealed, active,
  the current head of its subject and live at the execution epoch; every link of the delegation chain was checked
  at that epoch and is signed, valid and live; the effective actions are among those that each link of the chain
  allows; and the snapshot carries no authority of its own.
\<close>

theorem snapshot_authorized_now:
  assumes "ledger_snapshot hash s chain now heads = Inr x"
  shows "state_assert_sealed hash s = Inr () \<and> heads (as_subject s) = Some (as_state_digest s)
    \<and> as_status s = ''active'' \<and> as_epoch s \<le> now \<and> assert_live (as_effective_constraints s) now = Inr ()
    \<and> chain \<noteq> [] \<and> dl_subject (last chain) = as_subject s
    \<and> (\<forall>l \<in> set chain. dl_checked_epoch l = now \<and> dl_signature_valid l \<and> dl_revocation_status l = ''valid''
        \<and> assert_live (dl_constraints l) now = Inr () \<and> actions (as_effective_constraints s) \<subseteq> actions (dl_constraints l))
    \<and> es_state_digest x = as_state_digest s \<and> es_execution_epoch x = now \<and> \<not> es_authority x"
proof -
  note head = assms [unfolded ledger_snapshot_Inr, THEN conjunct1]
  note snap = snapshot_Inr [OF assms [unfolded ledger_snapshot_Inr, THEN conjunct2]]
  then obtain d where d: "assert_delegation_chain_current hash chain now = Inr d" by (auto simp: is_ok_iff)
  have "dl_checked_epoch l = now \<and> dl_signature_valid l \<and> dl_revocation_status l = ''valid''
      \<and> assert_live (dl_constraints l) now = Inr () \<and> actions (as_effective_constraints s) \<subseteq> actions (dl_constraints l)"
    if "l \<in> set chain" for l
    using d that snap attenuates_actions [OF below_every_link [OF d _ that]]
    by (auto simp: chain_current_Inr list_all_iff link_current_def)
  then show ?thesis
    using snap head d by (simp add: state_assert_sealed_Inr chain_current_Inr)
qed

section \<open>What the digests bind\<close>

lemma dict_inj:
  assumes "dict kvs = dict lvs" "map fst kvs = map fst lvs" "distinct (map fst kvs)"
  shows "kvs = lvs"
proof -
  have "set kvs = set lvs"
    using assms(1) by (simp add: dict_def) (metis set_sort)
  then have "map_of kvs = map_of lvs"
    using assms(2,3) by (metis map_of_inject_set)
  moreover have "xs = map (\<lambda>p. (fst p, the (map_of xs (fst p)))) xs" if "distinct (map fst xs)" for xs :: "(string \<times> json) list"
    using that by (auto intro!: map_idI [symmetric] simp: comp_def)
  then have "xs = map (\<lambda>k. (k, the (map_of xs k))) (map fst xs)" if "distinct (map fst xs)" for xs :: "(string \<times> json) list"
    using that by (simp add: comp_def)
  ultimately show ?thesis
    using assms(2,3) by metis
qed

lemma texts_inj [simp]: "texts ss = texts ts \<longleftrightarrow> ss = ts"
  by (auto simp: texts_def inj_def dest: map_injective)

lemma optional_inj: "(\<And>x y. f x = f y \<longleftrightarrow> x = y) \<Longrightarrow> (\<And>x. f x \<noteq> J_Null) \<Longrightarrow> optional f a = optional f b \<longleftrightarrow> a = b"
  by (cases a; cases b) (auto dest: sym)

lemma optional_basic [simp]: "optional J_Int a = optional J_Int b \<longleftrightarrow> a = b" "optional J_Str c = optional J_Str d \<longleftrightarrow> c = d"
  by (rule optional_inj; simp)+

text \<open>The messages that are hashed.\<close>

definition message :: "string \<Rightarrow> json \<Rightarrow> string" where
  "message tag v = tag @ CHR 0x00 # dumps v"

lemma digest_binds: "json_digest hash tag v = json_digest hash tag w \<Longrightarrow> v = w \<or> collision hash (message tag v) (message tag w)"
  using json_digest_eq unfolding message_def by blast

abbreviation "constraints_message c \<equiv> message ''koschei.constraint-set/v1'' (constraints_json c)"
abbreviation "state_message hash s \<equiv> message ''koschei.authorization-state/v1'' (state_json hash s)"
abbreviation "authority_message hash l \<equiv> message ''koschei.delegation-authority/v1'' (authority_json hash l)"

lemma constraints_json_inj: "constraints_json c = constraints_json d \<longleftrightarrow> c = d"
proof
  assume "constraints_json c = constraints_json d"
  then show "c = d"
    unfolding constraints_json_def by (intro constraint_set.equality; drule_tac dict_inj; simp)
qed simp

lemma state_json_binds:
  assumes "state_json hash s = state_json hash t"
  shows "as_subject s = as_subject t \<and> as_intent_commitment_digest s = as_intent_commitment_digest t
    \<and> as_delegation_chain_authority_digest s = as_delegation_chain_authority_digest t
    \<and> constraints_digest hash (as_authority_ceiling s) = constraints_digest hash (as_authority_ceiling t)
    \<and> constraints_digest hash (as_effective_constraints s) = constraints_digest hash (as_effective_constraints t)
    \<and> as_status s = as_status t \<and> as_epoch s = as_epoch t \<and> as_previous_state_digest s = as_previous_state_digest t
    \<and> as_authority s = as_authority t \<and> as_version s = as_version t"
  using assms unfolding state_json_def by (drule_tac dict_inj) simp_all

lemma authority_json_binds:
  assumes "authority_json hash l = authority_json hash m"
  shows "dl_delegation_id l = dl_delegation_id m \<and> dl_parent_delegation_id l = dl_parent_delegation_id m \<and> dl_issuer l = dl_issuer m
    \<and> dl_subject l = dl_subject m \<and> constraints_digest hash (dl_constraints l) = constraints_digest hash (dl_constraints m)
    \<and> dl_parent_commitment l = dl_parent_commitment m \<and> dl_version l = dl_version m"
  using assms unfolding authority_json_def by (drule_tac dict_inj) simp_all

lemma constraints_digest_binds:
  "constraints_digest hash c = constraints_digest hash d \<Longrightarrow> c = d \<or> collision hash (constraints_message c) (constraints_message d)"
  unfolding constraints_digest_def using digest_binds constraints_json_inj by blast

section \<open>No way back\<close>

text \<open>The ledger with the states that were its heads, by subject, the newest first.\<close>

inductive ledger_run :: "(string \<Rightarrow> string) \<Rightarrow> ledger \<Rightarrow> (string \<Rightarrow> authorization_state list) \<Rightarrow> bool" for hash where
  fresh: "ledger_run hash Map.empty (\<lambda>_. [])"
| registered: "ledger_run hash heads past \<Longrightarrow> register_initial hash s heads = Inr heads'
    \<Longrightarrow> ledger_run hash heads' (past(as_subject s := s # past (as_subject s)))"
| committed_to: "ledger_run hash heads past \<Longrightarrow> commit_transition hash s n t heads = Inr heads'
    \<Longrightarrow> ledger_run hash heads' (past(as_subject n := n # past (as_subject n)))"

fun linked :: "(string \<Rightarrow> string) \<Rightarrow> authorization_state list \<Rightarrow> bool" where
  "linked hash [] = True"
| "linked hash [s] = (sealed_state hash s \<and> as_previous_state_digest s = None)"
| "linked hash (s # t # ss) = (sealed_state hash s \<and> as_previous_state_digest s = Some (as_state_digest t) \<and> linked hash (t # ss))"

lemma linked_sealed: "linked hash ss \<Longrightarrow> s \<in> set ss \<Longrightarrow> sealed_state hash s"
  by (induction hash ss rule: linked.induct) auto

lemma linked_predecessor:
  "linked hash ss \<Longrightarrow> s \<in> set ss \<Longrightarrow> as_previous_state_digest s = Some d \<Longrightarrow> d \<in> as_state_digest ` set (tl ss)"
  by (induction hash ss rule: linked.induct) auto

definition states_collide :: "(string \<Rightarrow> string) \<Rightarrow> authorization_state list \<Rightarrow> bool" where
  "states_collide hash ss \<longleftrightarrow> (\<exists>a \<in> set ss. \<exists>b \<in> set ss. collision hash (state_message hash a) (state_message hash b))"

lemma linked_distinct: "linked hash ss \<Longrightarrow> distinct (map as_state_digest ss) \<or> states_collide hash ss"
proof (induction hash ss rule: linked.induct)
  case (3 hash s t ss)
  have "False" if u: "u \<in> set (t # ss)" "as_state_digest s = as_state_digest u" and d: "distinct (map as_state_digest (t # ss))"
    and none: "\<not> states_collide hash (s # t # ss)" for u
  proof -
    have "state_digest hash s = state_digest hash u"
      using "3.prems" u linked_sealed [of hash "t # ss" u] by (simp add: sealed_state_def)
    moreover have "\<not> collision hash (state_message hash s) (state_message hash u)"
      using none u(1) by (auto simp: states_collide_def)
    ultimately have "state_json hash s = state_json hash u"
      using digest_binds unfolding state_digest_def by blast
    from state_json_binds [OF this] have "as_previous_state_digest u = Some (as_state_digest t)"
      using "3.prems" by simp
    moreover have "linked hash (t # ss)" using "3.prems" by simp
    ultimately have "as_state_digest t \<in> as_state_digest ` set ss"
      using linked_predecessor [OF _ u(1)] by fastforce
    then show False using d by simp
  qed
  note fresh = this
  show ?case
  proof (cases "states_collide hash (s # t # ss)")
    case False
    then have d: "distinct (map as_state_digest (t # ss))"
      using "3.IH" "3.prems" by (auto simp: states_collide_def)
    then have "as_state_digest s \<notin> as_state_digest ` set (t # ss)"
      using fresh [OF _ _ d False] by blast
    then show ?thesis using d by simp
  qed simp
qed auto

lemma register_initial_Inr:
  "register_initial hash s heads = Inr heads' \<longleftrightarrow>
     sealed_state hash s \<and> as_previous_state_digest s = None \<and> as_status s = ''active'' \<and> heads (as_subject s) = None
   \<and> heads' = heads(as_subject s \<mapsto> as_state_digest s)"
  by (auto simp: register_initial_def rbind_eq_Inr state_assert_sealed_Inr)

lemma commit_transition_Inr:
  "commit_transition hash s n t heads = Inr heads' \<longleftrightarrow>
     ledger_assert_current hash s heads = Inr () \<and> sealed_state hash n \<and> transition_digest hash t = at_transition_digest t
   \<and> as_subject n = as_subject s \<and> as_previous_state_digest n = Some (as_state_digest s)
   \<and> at_previous_state_digest t = as_state_digest s \<and> at_next_state_digest t = as_state_digest n \<and> at_epoch t = as_epoch n
   \<and> heads' = heads(as_subject s \<mapsto> as_state_digest n)"
  by (auto simp: commit_transition_def rbind_eq_Inr state_assert_sealed_Inr assert_transition_sealed_def)

definition history :: "(string \<Rightarrow> string) \<Rightarrow> string \<Rightarrow> authorization_state list \<Rightarrow> string option \<Rightarrow> bool" where
  "history hash subject ss head \<longleftrightarrow> linked hash ss \<and> (\<forall>s \<in> set ss. as_subject s = subject)
     \<and> head = (case ss of [] \<Rightarrow> None | s # _ \<Rightarrow> Some (as_state_digest s))"

lemma history_start: "history hash subject [] None"
  by (simp add: history_def)

lemma history_register:
  "history hash (as_subject s) ss None \<Longrightarrow> sealed_state hash s \<Longrightarrow> as_previous_state_digest s = None
    \<Longrightarrow> history hash (as_subject s) (s # ss) (Some (as_state_digest s))"
  by (cases ss) (auto simp: history_def)

lemma history_commit:
  "history hash subject ss (Some d) \<Longrightarrow> sealed_state hash n \<Longrightarrow> as_previous_state_digest n = Some d \<Longrightarrow> as_subject n = subject
    \<Longrightarrow> history hash subject (n # ss) (Some (as_state_digest n))"
  by (cases ss) (auto simp: history_def)

lemma ledger_run_history: "ledger_run hash heads past \<Longrightarrow> history hash subject (past subject) (heads subject)"
proof (induction arbitrary: subject rule: ledger_run.induct)
  case fresh
  show ?case by (simp add: history_start)
next
  case (registered heads past s heads')
  then show ?case
    using history_register [of hash s "past (as_subject s)"] registered.IH [of "as_subject s"] registered.IH [of subject]
    by (cases "subject = as_subject s") (simp_all add: register_initial_Inr)
next
  case (committed_to heads past s n t heads')
  then show ?case
    using history_commit [of hash "as_subject s" "past (as_subject s)" "as_state_digest s" n]
      committed_to.IH [of "as_subject s"] committed_to.IH [of subject]
    by (cases "subject = as_subject s") (simp_all add: commit_transition_Inr ledger_assert_current_Inr)
qed

lemma history_no_return:
  assumes "history hash subject (newest # older) head" "old \<in> set older"
  shows "as_subject old = subject \<and> head \<noteq> Some (as_state_digest old) \<or> states_collide hash (newest # older)"
  using assms linked_distinct [of hash "newest # older"] by (auto simp: history_def image_iff)

text \<open>
  There is no way back: once the head of a subject has moved on, no former state is accepted again, by the
  snapshot for an execution or as the start of a transition, through any history of the ledger, unless two
  states of that history exhibit a collision of the hash.
\<close>

theorem ledger_refuses_rollback:
  assumes "ledger_run hash heads past" "past subject = newest # older" "old \<in> set older"
  shows "\<not> is_ok (ledger_snapshot hash old chain now heads) \<and> \<not> is_ok (commit_transition hash old n t heads)
    \<or> (\<exists>a \<in> set (past subject). \<exists>b \<in> set (past subject). collision hash (state_message hash a) (state_message hash b))"
proof -
  have "heads (as_subject old) \<noteq> Some (as_state_digest old) \<or> states_collide hash (past subject)"
    using history_no_return [of hash subject newest older "heads subject" old] ledger_run_history [OF assms(1), of subject]
      assms(2,3) by auto
  then show ?thesis
    by (auto simp: is_ok_iff ledger_snapshot_Inr commit_transition_Inr ledger_assert_current_Inr states_collide_def)
qed

text \<open>What a link says, apart from when and how it was checked.\<close>

definition same_authority :: "delegation_link \<Rightarrow> delegation_link \<Rightarrow> bool" where
  "same_authority l m \<longleftrightarrow> dl_delegation_id l = dl_delegation_id m \<and> dl_parent_delegation_id l = dl_parent_delegation_id m
     \<and> dl_issuer l = dl_issuer m \<and> dl_subject l = dl_subject m \<and> dl_constraints l = dl_constraints m
     \<and> dl_parent_commitment l = dl_parent_commitment m \<and> dl_version l = dl_version m"

lemma authority_digest_binds:
  assumes "authority_digest hash l = authority_digest hash m"
  shows "same_authority l m \<or> collision hash (authority_message hash l) (authority_message hash m)
    \<or> collision hash (constraints_message (dl_constraints l)) (constraints_message (dl_constraints m))"
proof (cases "authority_json hash l = authority_json hash m")
  case True
  then show ?thesis
    using authority_json_binds [OF True] constraints_digest_binds [of hash "dl_constraints l" "dl_constraints m"]
    by (auto simp: same_authority_def)
next
  case False
  then show ?thesis using digest_binds assms unfolding authority_digest_def by blast
qed

abbreviation "chain_message hash chain \<equiv>
  message ''koschei.delegation-chain-authority/v1'' (texts (map (authority_digest hash) chain))"

lemma chain_digest_binds:
  assumes "delegation_chain_authority_digest hash c = Inr d" "delegation_chain_authority_digest hash e = Inr d"
  shows "list_all2 same_authority c e \<or> collision hash (chain_message hash c) (chain_message hash e)
    \<or> (\<exists>l \<in> set c. \<exists>m \<in> set e. collision hash (authority_message hash l) (authority_message hash m)
        \<or> collision hash (constraints_message (dl_constraints l)) (constraints_message (dl_constraints m)))"
proof (cases "map (authority_digest hash) c = map (authority_digest hash) e")
  case True
  then have "list_all2 (\<lambda>l m. authority_digest hash l = authority_digest hash m) c e"
    by (simp add: list_eq_iff_nth_eq list_all2_conv_all_nth)
  then have "list_all2 (\<lambda>l m. same_authority l m \<or> (\<exists>l \<in> set c. \<exists>m \<in> set e. collision hash (authority_message hash l) (authority_message hash m)
        \<or> collision hash (constraints_message (dl_constraints l)) (constraints_message (dl_constraints m)))) c e"
    by (rule list.rel_mono_strong) (use authority_digest_binds in blast)
  then show ?thesis by (cases "list_all2 same_authority c e") (auto simp: list_all2_conv_all_nth)
next
  case False
  then show ?thesis
    using assms digest_binds [of hash _ "texts (map (authority_digest hash) c)" "texts (map (authority_digest hash) e)"]
    by (auto simp: delegation_chain_authority_digest_def split: if_splits)
qed

text \<open>
  An execution runs under the authority it was issued under: a snapshot of a state that descends from an
  issued one is given out only for a chain with the same delegations, issuers, subjects and constraints, link by
  link, as the chain of the issue; only the checks of the links are new. Otherwise a collision of the hash is at
  hand.
\<close>

theorem snapshot_under_issued_chain:
  assumes "issue_authorization_state hash intent chain epoch effective = Inr s0" "auth_steps hash s0 s"
    and "ledger_snapshot hash s fresh_chain now heads = Inr x"
  shows "list_all2 same_authority chain fresh_chain \<or> collision hash (chain_message hash chain) (chain_message hash fresh_chain)
    \<or> (\<exists>l \<in> set chain. \<exists>m \<in> set fresh_chain. collision hash (authority_message hash l) (authority_message hash m)
        \<or> collision hash (constraints_message (dl_constraints l)) (constraints_message (dl_constraints m)))"
proof (rule chain_digest_binds)
  have "state_for hash intent chain s"
    by (rule auth_steps_state_for [OF assms(2)]) (use issue_Inr [OF assms(1)] in blast)
  then show "delegation_chain_authority_digest hash chain = Inr (as_delegation_chain_authority_digest s)"
    by (simp add: state_for_def)
  show "delegation_chain_authority_digest hash fresh_chain = Inr (as_delegation_chain_authority_digest s)"
    using assms(3) snapshot_Inr unfolding ledger_snapshot_Inr by blast
qed

section \<open>What the ledger does not check\<close>

definition good_hash :: "(string \<Rightarrow> string) \<Rightarrow> bool" where
  "good_hash hash \<longleftrightarrow> (\<forall>m. hex64 (hash m) \<and> hash m \<noteq> replicate 64 (CHR ''0''))"

lemma good_hash_digest: "good_hash hash \<Longrightarrow> digest_ok (hash m)"
  using digest_text_hex [of "hash m" "[]"] by (simp add: good_hash_def digest_text_Inr)

text \<open>The successor of a state that its holder writes down without a transition.\<close>

definition handmade_next :: "(string \<Rightarrow> string) \<Rightarrow> authorization_state \<Rightarrow> authorization_state" where
  "handmade_next hash s =
     (let n = s\<lparr>as_effective_constraints := as_authority_ceiling s, as_status := ''active'', as_epoch := as_epoch s + 1,
        as_previous_state_digest := Some (as_state_digest s), as_state_digest := []\<rparr>
      in n\<lparr>as_state_digest := state_digest hash n\<rparr>)"

definition handmade_receipt :: "(string \<Rightarrow> string) \<Rightarrow> authorization_state \<Rightarrow> authorization_transition" where
  "handmade_receipt hash s =
     (let t = \<lparr>at_kind = ''STEP_UP'', at_epoch = as_epoch s + 1, at_previous_state_digest = as_state_digest s,
        at_next_state_digest = as_state_digest (handmade_next hash s), at_reason_digest = as_state_digest s,
        at_transition_digest = [], at_version = 1\<rparr>
      in t\<lparr>at_transition_digest := transition_digest hash t\<rparr>)"


section \<open>An example\<close>

text \<open>An owner delegates to an agent and the agent to a tool; every digest is the same text.\<close>

definition same_hash :: "string \<Rightarrow> string" where
  "same_hash m = replicate 64 (CHR ''a'')"

lemma good_same_hash: "good_hash same_hash"
proof -
  have "replicate 64 (CHR ''a'') \<noteq> replicate 64 (CHR ''0'')" by (simp add: replicate_eq_replicate)
  then show ?thesis by (simp add: good_hash_def same_hash_def hex64_def list_all_iff hex_char_def cp_def)
qed

definition wide :: constraint_set where
  "wide = \<lparr>cs_resources = [''db'', ''log''], cs_operations = [''read'', ''write''], cs_arguments = [''any''], cs_audience = [''svc''],
     cs_magnitude_max = Some 10, cs_valid_from_epoch = 0, cs_expires_before_epoch = Some 9, cs_delegation_depth = 1, cs_redelegation = True\<rparr>"

definition narrow :: constraint_set where
  "narrow = \<lparr>cs_resources = [''db''], cs_operations = [''read''], cs_arguments = [''any''], cs_audience = [''svc''],
     cs_magnitude_max = Some 5, cs_valid_from_epoch = 1, cs_expires_before_epoch = Some 8, cs_delegation_depth = 0, cs_redelegation = False\<rparr>"

lemma wide_constructed: "ConstraintSetV1 wide = Inr wide"
  unfolding wide_def by code_simp

lemma narrow_constructed: "ConstraintSetV1 narrow = Inr narrow"
  unfolding narrow_def by code_simp

lemma narrow_attenuates: "assert_attenuates narrow wide True = Inr ()" "assert_attenuates narrow narrow False = Inr ()"
  by (simp_all add: assert_attenuates_Inr attenuates_def within_def wide_def narrow_def)

definition root_link :: delegation_link where
  "root_link = \<lparr>dl_delegation_id = ''d1'', dl_parent_delegation_id = None, dl_issuer = ''owner'', dl_subject = ''agent'',
     dl_constraints = wide, dl_parent_commitment = None, dl_checked_epoch = 3, dl_signature_valid = True,
     dl_revocation_status = ''valid'', dl_version = 1\<rparr>"

definition tool_link :: delegation_link where
  "tool_link = \<lparr>dl_delegation_id = ''d2'', dl_parent_delegation_id = Some ''d1'', dl_issuer = ''agent'', dl_subject = ''tool'',
     dl_constraints = narrow, dl_parent_commitment = Some (replicate 64 (CHR ''a'')), dl_checked_epoch = 3, dl_signature_valid = True,
     dl_revocation_status = ''valid'', dl_version = 1\<rparr>"

definition tool_chain :: "delegation_link list" where
  "tool_chain = [root_link, tool_link]"

lemma live_at_3: "assert_live wide 3 = Inr ()" "assert_live narrow 3 = Inr ()"
  by (simp_all add: assert_live_Inr wide_def narrow_def)

lemma tool_chain_current: "is_ok (assert_delegation_chain_current same_hash tool_chain 3)"
  unfolding is_ok_iff chain_current_Inr tool_chain_def
  by (simp add: root_link_def tool_link_def link_current_def handed_down_def live_at_3 narrow_attenuates
      authority_digest_def json_digest_def same_hash_def)

theorem attenuation_is_inclusion_witness:
  "actions narrow \<subseteq> actions wide \<and> assert_attenuates wide narrow False \<noteq> Inr ()"
  using attenuation_is_inclusion [OF narrow_constructed wide_constructed, of True]
    attenuation_is_inclusion [OF wide_constructed narrow_constructed, of False] narrow_attenuates
  by (simp add: wide_def narrow_def)

theorem delegation_chain_hands_down_witness:
  "actions narrow \<subseteq> actions wide \<and> dl_issuer tool_link = dl_subject root_link \<and> int (length tool_chain) \<le> cs_delegation_depth wide + 1"
proof -
  obtain d where "assert_delegation_chain_current same_hash tool_chain 3 = Inr d"
    using tool_chain_current by (auto simp: is_ok_iff)
  from delegation_chain_hands_down [OF this, of 0 1] show ?thesis
    using wide_constructed narrow_constructed by (simp add: tool_chain_def root_link_def tool_link_def)
qed

definition tool_intent :: intent_commitment where
  "tool_intent = \<lparr>ic_principal = ''tool'', ic_intent_digest = replicate 64 (CHR ''b''), ic_purpose_digest = replicate 64 (CHR ''c''),
     ic_created_epoch = 1, ic_authority = False, ic_version = 1\<rparr>"

definition tool_state :: authorization_state where
  "tool_state = \<lparr>as_subject = ''tool'', as_intent_commitment_digest = same_hash [], as_delegation_chain_authority_digest = same_hash [],
     as_authority_ceiling = narrow, as_effective_constraints = narrow, as_status = ''active'', as_epoch = 3,
     as_previous_state_digest = None, as_state_digest = same_hash [], as_authority = False, as_version = 1\<rparr>"

definition revoked_state :: authorization_state where
  "revoked_state = tool_state\<lparr>as_status := ''revoked'', as_epoch := 4, as_previous_state_digest := Some (same_hash [])\<rparr>"

lemma same_digests [simp]: "json_digest same_hash tag v = same_hash []"
  by (simp add: json_digest_def same_hash_def)

lemma same_hash_ok: "digest_ok (same_hash [])"
  using good_hash_digest [OF good_same_hash] .

lemma example_states_sealed: "sealed_state same_hash tool_state" "sealed_state same_hash revoked_state"
proof -
  have "strip ''tool'' = ''tool''" by code_simp
  then show "sealed_state same_hash tool_state" "sealed_state same_hash revoked_state"
    using same_hash_ok attenuates_refl
    by (simp_all add: sealed_state_def state_ok_def tool_state_def revoked_state_def state_digest_def STATUSES_def)
qed

lemma tool_state_issued: "issue_authorization_state same_hash tool_intent tool_chain 3 None = Inr tool_state"
proof -
  obtain d where d: "assert_delegation_chain_current same_hash tool_chain 3 = Inr d"
    using tool_chain_current by (auto simp: is_ok_iff)
  have "seal_state same_hash (tool_state\<lparr>as_state_digest := []\<rparr>) = Inr tool_state"
    unfolding seal_state_Inr using example_states_sealed(1) same_hash_ok
    by (simp add: sealed_state_def state_digest_def)
  then show ?thesis
    using d narrow_attenuates(2) live_at_3(2)
    by (simp add: issue_authorization_state_def epoch_of_def delegation_chain_authority_digest_def tool_chain_def tool_link_def
        tool_intent_def tool_state_def intent_digest_def)
qed

lemma tool_state_revoked:
  "\<exists>t. transition_authorization_state same_hash tool_state '' revoke'' 4 (same_hash []) None = Inr (revoked_state, t)
    \<and> commit_transition same_hash tool_state revoked_state t [''tool'' \<mapsto> same_hash []] = Inr [''tool'' \<mapsto> same_hash []]"
proof -
  have kind: "strip '' revoke'' = ''revoke''" "upper_char (CHR ''r'') = ''R''" "upper_char (CHR ''e'') = ''E''"
      "upper_char (CHR ''v'') = ''V''" "upper_char (CHR ''o'') = ''O''" "upper_char (CHR ''k'') = ''K''" by code_simp+
  have next_sealed: "seal_state same_hash (revoked_state\<lparr>as_state_digest := []\<rparr>) = Inr revoked_state"
    unfolding seal_state_Inr using example_states_sealed(2) same_hash_ok by (simp add: sealed_state_def state_digest_def)
  have sealed: "state_assert_sealed same_hash tool_state = Inr ()"
    using example_states_sealed(1) by (simp add: state_assert_sealed_Inr)
  have digest: "digest_text (same_hash []) label = Inr (map lower_char (same_hash []))" for label
    using same_hash_ok by (simp add: digest_text_Inr)
  show ?thesis
    using next_sealed sealed digest example_states_sealed
    by (simp add: transition_authorization_state_def text_of_def kind epoch_of_def Let_def TRANSITIONS_def transition_effect_def
        tool_state_def revoked_state_def transition_digest_def commit_transition_Inr ledger_assert_current_Inr)
qed

lemma tool_run: "ledger_run same_hash [''tool'' \<mapsto> same_hash []] ((\<lambda>_. [])(''tool'' := [tool_state]))"
    "ledger_run same_hash [''tool'' \<mapsto> same_hash []] ((\<lambda>_. [])(''tool'' := [revoked_state, tool_state]))"
proof -
  have "register_initial same_hash tool_state Map.empty = Inr [''tool'' \<mapsto> same_hash []]"
    using example_states_sealed(1) unfolding register_initial_Inr by (simp add: tool_state_def)
  from ledger_run.registered [OF ledger_run.fresh this]
  show run: "ledger_run same_hash [''tool'' \<mapsto> same_hash []] ((\<lambda>_. [])(''tool'' := [tool_state]))"
    by (simp add: tool_state_def)
  obtain t where "commit_transition same_hash tool_state revoked_state t [''tool'' \<mapsto> same_hash []] = Inr [''tool'' \<mapsto> same_hash []]"
    using tool_state_revoked by blast
  from ledger_run.committed_to [OF run this]
  show "ledger_run same_hash [''tool'' \<mapsto> same_hash []] ((\<lambda>_. [])(''tool'' := [revoked_state, tool_state]))"
    by (simp add: revoked_state_def tool_state_def)
qed

lemma revoked_reached: "auth_steps same_hash tool_state revoked_state"
  using tool_state_revoked auth_steps.step [OF auth_steps.start] by blast

theorem authority_never_recovers_witness:
  "as_status revoked_state = ''revoked'' \<and> as_authority_ceiling revoked_state = dl_constraints (last tool_chain)
    \<and> as_epoch tool_state < as_epoch revoked_state"
  using authority_never_recovers [OF tool_state_issued auth_steps.start revoked_reached]
  by (auto simp: revoked_state_def tool_state_def)

lemma tool_snapshot: "is_ok (ledger_snapshot same_hash tool_state tool_chain 3 [''tool'' \<mapsto> same_hash []])"
proof -
  obtain d where d: "assert_delegation_chain_current same_hash tool_chain 3 = Inr d"
    using tool_chain_current by (auto simp: is_ok_iff)
  have sealed: "state_assert_sealed same_hash tool_state = Inr ()"
    using example_states_sealed(1) by (simp add: state_assert_sealed_Inr)
  show ?thesis
    unfolding ledger_snapshot_def ledger_assert_current_def snapshot_for_execution_def state_assert_active_def
    using d sealed narrow_attenuates(2) live_at_3(2)
    by (simp add: epoch_of_def delegation_chain_authority_digest_def) (simp add: tool_chain_def tool_link_def tool_state_def)
qed

theorem snapshot_authorized_now_witness:
  "actions (as_effective_constraints tool_state) \<subseteq> actions wide \<and> as_status tool_state = ''active''"
proof -
  obtain x where "ledger_snapshot same_hash tool_state tool_chain 3 [''tool'' \<mapsto> same_hash []] = Inr x"
    using tool_snapshot by (auto simp: is_ok_iff)
  from snapshot_authorized_now [OF this] show ?thesis
    by (simp add: tool_chain_def root_link_def)
qed

theorem snapshot_under_issued_chain_witness:
  "\<exists>x. ledger_snapshot same_hash tool_state tool_chain 3 [''tool'' \<mapsto> same_hash []] = Inr x
    \<and> (list_all2 same_authority tool_chain tool_chain \<or> (\<exists>l \<in> set tool_chain. \<exists>m \<in> set tool_chain.
         collision same_hash (authority_message same_hash l) (authority_message same_hash m)
       \<or> collision same_hash (constraints_message (dl_constraints l)) (constraints_message (dl_constraints m))))"
proof -
  obtain x where "ledger_snapshot same_hash tool_state tool_chain 3 [''tool'' \<mapsto> same_hash []] = Inr x"
    using tool_snapshot by (auto simp: is_ok_iff)
  from snapshot_under_issued_chain [OF tool_state_issued auth_steps.start this] this show ?thesis
    by (auto simp: collision_def)
qed

theorem ledger_refuses_rollback_witness:
  "\<exists>heads past newest. ledger_run same_hash heads past \<and> past ''tool'' = [newest, tool_state]
    \<and> (\<not> is_ok (ledger_snapshot same_hash tool_state tool_chain 3 heads) \<or> (\<exists>a \<in> set (past ''tool''). \<exists>b \<in> set (past ''tool'').
         collision same_hash (state_message same_hash a) (state_message same_hash b)))"
proof (intro exI conjI)
  show "ledger_run same_hash [''tool'' \<mapsto> same_hash []] ((\<lambda>_. [])(''tool'' := [revoked_state, tool_state]))"
    by (rule tool_run)
  from ledger_refuses_rollback [OF this, of "''tool''" revoked_state "[tool_state]" tool_state tool_chain 3]
  show "\<not> is_ok (ledger_snapshot same_hash tool_state tool_chain 3 [''tool'' \<mapsto> same_hash []])
    \<or> (\<exists>a \<in> set (((\<lambda>_. [])(''tool'' := [revoked_state, tool_state])) ''tool'').
        \<exists>b \<in> set (((\<lambda>_. [])(''tool'' := [revoked_state, tool_state])) ''tool'').
         collision same_hash (state_message same_hash a) (state_message same_hash b))"
    by auto
qed simp


end
