(* ===== verification/Execution_Permit.thy ===== *)
theory Execution_Permit
  imports Authorization Replay
begin

text \<open>
  From native enforcement to a permit for one execution: the contract for external adapters
  (\<open>koschei/external_adapter_contract_v1.py\<close>), the canonical authority basis
  (\<open>koschei/canonical_authority_basis_v1.py\<close>), authenticated decisions
  (\<open>koschei/authorization_decision_v1.py\<close>) and single-use permits with their ledger
  (\<open>koschei/execution_permit_v1.py\<close>). Keys and byte strings are texts of code points below 256.
\<close>

section \<open>Checks, message authentication\<close>

text \<open>\<open>_text\<close>, \<open>_digest\<close>, \<open>_epoch\<close> and \<open>_key\<close> of the modules differ in the exception only.\<close>

definition checked_text :: "exc_class \<Rightarrow> string \<Rightarrow> string \<Rightarrow> string result" where
  "checked_text cls v label = (if strip v = [] then raisef cls ''{} cannot be empty'' [label] else Inr (strip v))"

definition checked_digest :: "exc_class \<Rightarrow> string \<Rightarrow> string \<Rightarrow> string result" where
  "checked_digest cls v label =
     (if length v \<noteq> 64 then raisef cls ''{} must be a 64-character digest'' [label]
      else
        let lowered = map lower_char v in
        if \<not> list_all hex_char lowered \<or> lowered = replicate 64 (CHR ''0'') then
          raisef cls ''{} must be a non-zero hexadecimal digest'' [label]
        else Inr lowered)"

definition checked_epoch :: "exc_class \<Rightarrow> int \<Rightarrow> string \<Rightarrow> int result" where
  "checked_epoch cls v label = (if v < 0 then raisef cls ''{} must be a non-negative integer'' [label] else Inr v)"

definition checked_key :: "exc_class \<Rightarrow> string \<Rightarrow> string \<Rightarrow> string result" where
  "checked_key cls k label = (if length k < 32 then raisef cls ''{} must contain at least 32 bytes'' [label] else Inr k)"

text \<open>\<open>for actual, expected, label in expected_fields: if actual != expected: raise ...\<close>\<close>

fun match_fields :: "exc_class \<Rightarrow> string \<Rightarrow> (bool \<times> string) list \<Rightarrow> unit result" where
  "match_fields cls message [] = Inr ()"
| "match_fields cls message ((same, label) # rest) =
     (if \<not> same then raisef cls message [label] else match_fields cls message rest)"

text \<open>
  \<open>hmac.new(key, message, hashlib.sha256).hexdigest()\<close>: the two passes over the hash, whose digests are
  given in hexadecimal and used as bytes. A block of the hash has 64 bytes.
\<close>

definition hex_value :: "char \<Rightarrow> nat" where
  "hex_value c = (if cp c \<le> 57 then cp c - 48 else cp c - 87)"

fun unhex :: "string \<Rightarrow> string" where
  "unhex (a # b # s) = char_of (16 * hex_value a + hex_value b) # unhex s"
| "unhex _ = []"

definition hmac_block :: "(string \<Rightarrow> string) \<Rightarrow> string \<Rightarrow> string" where
  "hmac_block hash key =
     (let k = if 64 < length key then unhex (hash key) else key in k @ replicate (64 - length k) (CHR 0x00))"

definition hmac_hex :: "(string \<Rightarrow> string) \<Rightarrow> string \<Rightarrow> string \<Rightarrow> string" where
  "hmac_hex hash key message =
     (let block = hmac_block hash key in
      hash (map (\<lambda>c. char_of (Bit_Operations.xor (cp c) 92)) block
        @ unhex (hash (map (\<lambda>c. char_of (Bit_Operations.xor (cp c) 54)) block @ message))))"

text \<open>\<open>hmac.compare_digest\<close> of two texts raises when one is not ASCII.\<close>

definition compare_digest :: "string \<Rightarrow> string \<Rightarrow> bool result" where
  "compare_digest a b =
     (if list_all (\<lambda>c. cp c < 128) a \<and> list_all (\<lambda>c. cp c < 128) b then Inr (a = b)
      else raise TypeError ''comparing strings with non-ASCII characters is not supported'')"

definition authentic :: "exc_class \<Rightarrow> string \<Rightarrow> string \<Rightarrow> string \<Rightarrow> unit result" where
  "authentic cls message digest expected =
     rbind (compare_digest digest expected) (\<lambda>same. if \<not> same then raise cls message else Inr ())"

section \<open>External adapters\<close>

record adapter_grant =
  xg_provider_id :: string
  xg_consumer_id :: string
  xg_subject_scope_digest :: string
  xg_allowed_actions :: "string list"
  xg_valid_from_epoch :: int
  xg_expires_before_epoch :: int
  xg_grant_digest :: string
  xg_authority :: bool
  xg_version :: int

definition adapter_ctx :: string where
  "adapter_ctx = ''koschei.external-adapter-contract/v1'' @ [CHR 0x00]"

abbreviation adapter_error :: exc_class where
  "adapter_error \<equiv> ExternalAdapterContractError"

definition require_digest :: "string \<Rightarrow> string \<Rightarrow> string result" where
  "require_digest v label =
     (if length v \<noteq> 64 then raisef adapter_error ''{} must be a 64-character digest'' [label]
      else
        let lowered = map lower_char v in
        if \<not> list_all hex_char lowered then raisef adapter_error ''{} must be hexadecimal'' [label]
        else if lowered = replicate 64 (CHR ''0'') then raisef adapter_error ''{} cannot be the zero digest'' [label]
        else Inr lowered)"

definition canonical_actions :: "string list \<Rightarrow> string list result" where
  "canonical_actions actions =
     (if actions = [] then raise adapter_error ''allowed_actions must contain at least one action''
      else rbind (rmap (\<lambda>a. checked_text adapter_error a ''adapter action'') actions) (\<lambda>cleaned.
        let canonical = sorted_set cleaned in
        if canonical \<noteq> actions then raise adapter_error ''allowed_actions must be unique and canonically sorted''
        else Inr canonical))"

definition adapter_seal :: "(string \<Rightarrow> string) \<Rightarrow> string list \<Rightarrow> string" where
  "adapter_seal hash rows = digest_of hash adapter_ctx (join nl rows)"

definition adapter_grant_rows :: "string \<Rightarrow> string \<Rightarrow> string \<Rightarrow> string list \<Rightarrow> int \<Rightarrow> int \<Rightarrow> string list" where
  "adapter_grant_rows provider consumer subject actions start expiry =
     [kv ''provider'' provider, kv ''consumer'' consumer, kv ''subject'' subject, kv ''actions'' (join '','' actions),
      kv ''from'' (str_int start), kv ''before'' (str_int expiry), ''authority=0'']"

definition adapter_grant_assert_sealed :: "(string \<Rightarrow> string) \<Rightarrow> adapter_grant \<Rightarrow> unit result" where
  "adapter_grant_assert_sealed hash g =
     (if xg_authority g then raise adapter_error ''external adapter grants cannot carry Koschei authority''
      else
        rbind (checked_text adapter_error (xg_provider_id g) ''provider_id'') (\<lambda>provider.
        rbind (checked_text adapter_error (xg_consumer_id g) ''consumer_id'') (\<lambda>consumer.
        rbind (require_digest (xg_subject_scope_digest g) ''subject_scope_digest'') (\<lambda>subject.
        rbind (canonical_actions (xg_allowed_actions g)) (\<lambda>actions.
        rbind (checked_epoch adapter_error (xg_valid_from_epoch g) ''valid_from_epoch'') (\<lambda>start.
        rbind (checked_epoch adapter_error (xg_expires_before_epoch g) ''expires_before_epoch'') (\<lambda>expiry.
        if expiry \<le> start then raise adapter_error ''external adapter grant requires a positive epoch lifetime''
        else if xg_grant_digest g \<noteq> adapter_seal hash (adapter_grant_rows provider consumer subject actions start expiry) then
          raise adapter_error ''external adapter grant seal mismatch''
        else Inr ())))))))"

definition adapter_permits :: "(string \<Rightarrow> string) \<Rightarrow> adapter_grant \<Rightarrow> string \<Rightarrow> int \<Rightarrow> bool result" where
  "adapter_permits hash g action current_epoch =
     rbind (adapter_grant_assert_sealed hash g) (\<lambda>_.
     rbind (checked_text adapter_error action ''action'') (\<lambda>action.
     rbind (checked_epoch adapter_error current_epoch ''current_epoch'') (\<lambda>epoch.
       Inr (xg_valid_from_epoch g \<le> epoch \<and> epoch < xg_expires_before_epoch g \<and> action \<in> set (xg_allowed_actions g)))))"

definition issue_external_adapter_grant ::
  "(string \<Rightarrow> string) \<Rightarrow> string \<Rightarrow> string \<Rightarrow> string \<Rightarrow> string list \<Rightarrow> int \<Rightarrow> int \<Rightarrow> adapter_grant result" where
  "issue_external_adapter_grant hash provider_id consumer_id subject_scope_digest allowed_actions valid_from expires_before =
     rbind (checked_text adapter_error provider_id ''provider_id'') (\<lambda>provider.
     rbind (checked_text adapter_error consumer_id ''consumer_id'') (\<lambda>consumer.
     rbind (require_digest subject_scope_digest ''subject_scope_digest'') (\<lambda>subject.
     rbind (rmap (\<lambda>a. checked_text adapter_error a ''adapter action'') allowed_actions) (\<lambda>cleaned.
     let actions = sorted_set cleaned in
     rbind (checked_epoch adapter_error valid_from ''valid_from_epoch'') (\<lambda>start.
     rbind (checked_epoch adapter_error expires_before ''expires_before_epoch'') (\<lambda>expiry.
     if actions = [] then raise adapter_error ''allowed_actions must contain at least one action''
     else if expiry \<le> start then raise adapter_error ''external adapter grant requires a positive epoch lifetime''
     else
       let result = \<lparr>xg_provider_id = provider, xg_consumer_id = consumer, xg_subject_scope_digest = subject,
         xg_allowed_actions = actions, xg_valid_from_epoch = start, xg_expires_before_epoch = expiry,
         xg_grant_digest = adapter_seal hash (adapter_grant_rows provider consumer subject actions start expiry),
         xg_authority = False, xg_version = 1\<rparr>
       in rbind (adapter_grant_assert_sealed hash result) (\<lambda>_. Inr result)))))))"

record adapter_evidence =
  xe_grant_digest :: string
  xe_provider_id :: string
  xe_action :: string
  xe_external_evidence_digest :: string
  xe_observed_epoch :: int
  xe_evidence_digest :: string
  xe_authority :: bool
  xe_version :: int

definition adapter_evidence_rows :: "string \<Rightarrow> string \<Rightarrow> string \<Rightarrow> string \<Rightarrow> int \<Rightarrow> string list" where
  "adapter_evidence_rows grant provider action external epoch =
     [kv ''grant'' grant, kv ''provider'' provider, kv ''action'' action, kv ''external'' external,
      kv ''epoch'' (str_int epoch), ''authority=0'']"

definition evidence_assert_sealed :: "(string \<Rightarrow> string) \<Rightarrow> adapter_evidence \<Rightarrow> adapter_grant \<Rightarrow> unit result" where
  "evidence_assert_sealed hash e grant =
     rbind (adapter_grant_assert_sealed hash grant) (\<lambda>_.
     if xe_authority e then raise adapter_error ''external evidence cannot grant Koschei authority''
     else if xe_grant_digest e \<noteq> xg_grant_digest grant then raise adapter_error ''external evidence belongs to a different grant''
     else
       rbind (checked_text adapter_error (xe_provider_id e) ''provider_id'') (\<lambda>provider.
       if provider \<noteq> xg_provider_id grant then raise adapter_error ''external evidence provider does not match grant''
       else
         rbind (require_digest (xe_external_evidence_digest e) ''external_evidence_digest'') (\<lambda>external.
         rbind (checked_epoch adapter_error (xe_observed_epoch e) ''observed_epoch'') (\<lambda>epoch.
         rbind (checked_text adapter_error (xe_action e) ''action'') (\<lambda>action.
         rbind (adapter_permits hash grant action epoch) (\<lambda>permitted.
         if \<not> permitted then raise adapter_error ''external evidence action is outside grant scope or lifetime''
         else if xe_evidence_digest e \<noteq> adapter_seal hash (adapter_evidence_rows (xe_grant_digest e) provider action external epoch) then
           raise adapter_error ''external adapter evidence seal mismatch''
         else Inr ()))))))"

definition admit_external_adapter_evidence ::
  "(string \<Rightarrow> string) \<Rightarrow> adapter_grant \<Rightarrow> string \<Rightarrow> string \<Rightarrow> int \<Rightarrow> adapter_evidence result" where
  "admit_external_adapter_evidence hash grant action external_evidence_digest observed_epoch =
     rbind (adapter_grant_assert_sealed hash grant) (\<lambda>_.
     rbind (checked_text adapter_error action ''action'') (\<lambda>action.
     rbind (require_digest external_evidence_digest ''external_evidence_digest'') (\<lambda>external.
     rbind (checked_epoch adapter_error observed_epoch ''observed_epoch'') (\<lambda>epoch.
     rbind (adapter_permits hash grant action epoch) (\<lambda>permitted.
     if \<not> permitted then raise adapter_error ''external adapter action is outside grant scope or lifetime''
     else
       let result = \<lparr>xe_grant_digest = xg_grant_digest grant, xe_provider_id = xg_provider_id grant, xe_action = action,
         xe_external_evidence_digest = external, xe_observed_epoch = epoch,
         xe_evidence_digest = adapter_seal hash (adapter_evidence_rows (xg_grant_digest grant) (xg_provider_id grant) action external epoch),
         xe_authority = False, xe_version = 1\<rparr>
       in rbind (evidence_assert_sealed hash result grant) (\<lambda>_. Inr result))))))"

section \<open>The canonical authority basis\<close>

record authority_basis =
  cb_canonical_request_digest :: string
  cb_request_bound_proof_digest :: string
  cb_enforcement_decision_digest :: string
  cb_native_mir_fingerprint :: string
  cb_universe_plan_digest :: string
  cb_proof_digest :: string
  cb_subject_scope_digest :: string
  cb_operation :: string
  cb_epoch :: int
  cb_outcome :: string
  cb_basis_digest :: string
  cb_authority :: bool
  cb_version :: int

definition canonical_subject_scope_digest :: "(string \<Rightarrow> string) \<Rightarrow> effect_request \<Rightarrow> string result" where
  "canonical_subject_scope_digest hash request =
     (if rq_subject request = [] \<or> rq_identity_digest request = [] then
        raise CanonicalAuthorityBasisV1Error ''canonical request subject identity is incomplete''
      else Inr (digest_of hash (''koschei.canonical-subject-scope/v1'' @ [CHR 0x00])
        (join nl [kv ''subject'' (rq_subject request), kv ''identity'' (rq_identity_digest request)])))"

definition basis_digest ::
  "(string \<Rightarrow> string) \<Rightarrow> effect_request \<Rightarrow> request_bound_proof \<Rightarrow> enforcement_decision \<Rightarrow> native_sigil_mir
    \<Rightarrow> native_sigil_proof_bundle \<Rightarrow> string \<Rightarrow> string" where
  "basis_digest hash request bound decision mir pb scope =
     digest_of hash (''koschei.canonical-authority-basis/v1'' @ [CHR 0x00]) (join nl
       [kv ''request'' (rq_digest request), kv ''bound_proof'' (bp_digest bound), kv ''enforcement_decision'' (ed_digest decision),
        kv ''mir'' (mir_fingerprint mir), kv ''universe'' (mir_universe_plan_digest mir), kv ''proof'' (pb_digest pb),
        kv ''subject_scope'' scope, kv ''operation'' (rq_operation request), kv ''epoch'' (str_int (rq_epoch request)),
        kv ''outcome'' (ed_decision decision)])"

definition native_decision ::
  "(string \<Rightarrow> string) \<Rightarrow> native_sigil_mir \<Rightarrow> effect_request \<Rightarrow> native_sigil_proof_bundle \<Rightarrow> enforcement_decision result" where
  "native_decision hash mir request pb =
     rbind (mk_PrivilegedEffectIntent (rq_effect_id request) (rq_subject request) (rq_operation request) (rq_request_digest request))
       (evaluate_enforcement hash mir pb)"

definition basis_assert_sealed ::
  "(string \<Rightarrow> string) \<Rightarrow> authority_basis \<Rightarrow> native_sigil_mir \<Rightarrow> effect_request \<Rightarrow> native_sigil_proof_bundle
    \<Rightarrow> request_bound_proof \<Rightarrow> enforcement_decision result" where
  "basis_assert_sealed hash b mir request pb bound =
     (if cb_authority b then raise CanonicalAuthorityBasisV1Error ''authority-basis receipt cannot carry ambient authority''
      else
        rbind (mir_assert_sealed hash mir) (\<lambda>_.
        rbind (request_assert_sealed hash request mir) (\<lambda>_.
        rbind (bound_assert_sealed hash bound mir request pb) (\<lambda>_.
        rbind (native_decision hash mir request pb) (\<lambda>decision.
        rbind (canonical_subject_scope_digest hash request) (\<lambda>scope.
        rbind (match_fields CanonicalAuthorityBasisV1Error ''authority-basis {} mismatch''
          [(cb_canonical_request_digest b = rq_digest request, ''canonical request''),
           (cb_request_bound_proof_digest b = bp_digest bound, ''request-bound proof''),
           (cb_enforcement_decision_digest b = ed_digest decision, ''enforcement decision''),
           (cb_native_mir_fingerprint b = mir_fingerprint mir, ''native MIR''),
           (cb_universe_plan_digest b = mir_universe_plan_digest mir, ''Universe plan''),
           (cb_proof_digest b = pb_digest pb, ''proof''),
           (cb_subject_scope_digest b = scope, ''subject scope''),
           (cb_operation b = rq_operation request, ''operation''),
           (cb_epoch b = rq_epoch request, ''epoch''),
           (cb_outcome b = ed_decision decision, ''outcome'')]) (\<lambda>_.
        if cb_basis_digest b \<noteq> basis_digest hash request bound decision mir pb scope then
          raise CanonicalAuthorityBasisV1Error ''canonical authority-basis seal mismatch''
        else Inr decision)))))))"

definition derive_canonical_authority_basis ::
  "(string \<Rightarrow> string) \<Rightarrow> native_sigil_mir \<Rightarrow> effect_request \<Rightarrow> native_sigil_proof_bundle \<Rightarrow> request_bound_proof
    \<Rightarrow> authority_basis result" where
  "derive_canonical_authority_basis hash mir request pb bound =
     rbind (mir_assert_sealed hash mir) (\<lambda>_.
     rbind (request_assert_sealed hash request mir) (\<lambda>_.
     rbind (bound_assert_sealed hash bound mir request pb) (\<lambda>_.
     rbind (native_decision hash mir request pb) (\<lambda>decision.
     rbind (canonical_subject_scope_digest hash request) (\<lambda>scope.
     let result = \<lparr>cb_canonical_request_digest = rq_digest request, cb_request_bound_proof_digest = bp_digest bound,
       cb_enforcement_decision_digest = ed_digest decision, cb_native_mir_fingerprint = mir_fingerprint mir,
       cb_universe_plan_digest = mir_universe_plan_digest mir, cb_proof_digest = pb_digest pb, cb_subject_scope_digest = scope,
       cb_operation = rq_operation request, cb_epoch = rq_epoch request, cb_outcome = ed_decision decision,
       cb_basis_digest = basis_digest hash request bound decision mir pb scope, cb_authority = False, cb_version = 1\<rparr>
     in rbind (basis_assert_sealed hash result mir request pb bound) (\<lambda>_. Inr result))))))"

section \<open>Authorization decisions\<close>

record authorization_decision =
  az_evidence_digest :: string
  az_provider_id :: string
  az_consumer_id :: string
  az_subject_scope_digest :: string
  az_operation :: string
  az_request_digest :: string
  az_decision_epoch :: int
  az_authority_basis_digest :: string
  az_policy_digest :: string
  az_outcome :: string
  az_decision_digest :: string
  az_version :: int

abbreviation decision_error :: exc_class where
  "decision_error \<equiv> AuthorizationDecisionV1Error"

definition OUTCOMES :: "string list" where
  "OUTCOMES = [''allow'', ''deny'', ''contain'']"

definition NATIVE_OUTCOME_MAP :: "(string \<times> string) list" where
  "NATIVE_OUTCOME_MAP = [(''ALLOW'', ''allow''), (''DENY'', ''deny''), (''CONTAIN'', ''contain'')]"

definition decision_payload ::
  "string \<Rightarrow> string \<Rightarrow> string \<Rightarrow> string \<Rightarrow> string \<Rightarrow> string \<Rightarrow> int \<Rightarrow> string \<Rightarrow> string \<Rightarrow> string \<Rightarrow> string" where
  "decision_payload evidence provider consumer subject operation request epoch basis policy outcome =
     ''koschei.authorization-decision/v1'' @ [CHR 0x00] @ utf8 (join nl
       [kv ''evidence'' evidence, kv ''provider'' provider, kv ''consumer'' consumer, kv ''subject'' subject,
        kv ''operation'' operation, kv ''request'' request, kv ''epoch'' (str_int epoch), kv ''authority_basis'' basis,
        kv ''policy'' policy, kv ''outcome'' outcome])"

definition decision_assert_authenticated ::
  "(string \<Rightarrow> string) \<Rightarrow> authorization_decision \<Rightarrow> string \<Rightarrow> adapter_grant \<Rightarrow> adapter_evidence \<Rightarrow> unit result" where
  "decision_assert_authenticated hash d decision_key grant evidence =
     rbind (checked_key decision_error decision_key ''decision_key'') (\<lambda>key.
     rbind (adapter_grant_assert_sealed hash grant) (\<lambda>_.
     rbind (evidence_assert_sealed hash evidence grant) (\<lambda>_.
     rbind (checked_digest decision_error (az_evidence_digest d) ''evidence_digest'') (\<lambda>evidence_digest.
     if evidence_digest \<noteq> xe_evidence_digest evidence then raise decision_error ''authorization decision belongs to different evidence''
     else
       rbind (checked_text decision_error (az_provider_id d) ''provider_id'') (\<lambda>provider.
       rbind (checked_text decision_error (az_consumer_id d) ''consumer_id'') (\<lambda>consumer.
       if provider \<noteq> xg_provider_id grant \<or> consumer \<noteq> xg_consumer_id grant then
         raise decision_error ''authorization decision provider/consumer mismatch''
       else
         rbind (checked_digest decision_error (az_subject_scope_digest d) ''subject_scope_digest'') (\<lambda>subject.
         if subject \<noteq> xg_subject_scope_digest grant then raise decision_error ''authorization decision subject mismatch''
         else
           rbind (checked_text decision_error (az_operation d) ''operation'') (\<lambda>operation.
           rbind (checked_digest decision_error (az_request_digest d) ''request_digest'') (\<lambda>request.
           rbind (checked_epoch decision_error (az_decision_epoch d) ''decision_epoch'') (\<lambda>epoch.
           if epoch \<noteq> xe_observed_epoch evidence then
             raise decision_error ''authorization decision epoch must equal evidence observation epoch''
           else
             rbind (checked_digest decision_error (az_authority_basis_digest d) ''authority_basis_digest'') (\<lambda>authority_basis.
             rbind (checked_digest decision_error (az_policy_digest d) ''policy_digest'') (\<lambda>policy.
             rbind (checked_text decision_error (az_outcome d) ''outcome'') (\<lambda>outcome.
             if outcome \<notin> set OUTCOMES then raise decision_error ''unknown authorization decision outcome''
             else authentic decision_error ''authorization decision authentication failed'' (az_decision_digest d)
               (hmac_hex hash key (decision_payload evidence_digest provider consumer subject operation request epoch
                 authority_basis policy outcome)))))))))))))))"

definition decision_assert_allows :: "authorization_decision \<Rightarrow> unit result" where
  "decision_assert_allows d =
     (if az_outcome d \<noteq> ''allow'' then raise decision_error ''authorization decision does not allow execution'' else Inr ())"

definition issue_authorization_decision ::
  "(string \<Rightarrow> string) \<Rightarrow> adapter_grant \<Rightarrow> adapter_evidence \<Rightarrow> authority_basis \<Rightarrow> native_sigil_mir \<Rightarrow> effect_request
    \<Rightarrow> native_sigil_proof_bundle \<Rightarrow> request_bound_proof \<Rightarrow> string \<Rightarrow> authorization_decision result" where
  "issue_authorization_decision hash grant evidence basis mir request pb bound decision_key =
     rbind (checked_key decision_error decision_key ''decision_key'') (\<lambda>key.
     rbind (adapter_grant_assert_sealed hash grant) (\<lambda>_.
     rbind (evidence_assert_sealed hash evidence grant) (\<lambda>_.
     rbind (basis_assert_sealed hash basis mir request pb bound) (\<lambda>native.
     if cb_subject_scope_digest basis \<noteq> xg_subject_scope_digest grant then
       raise decision_error ''external grant subject scope does not match canonical authority basis''
     else if cb_epoch basis \<noteq> xe_observed_epoch evidence then
       raise decision_error ''canonical authority epoch does not match external evidence epoch''
     else
       case map_of NATIVE_OUTCOME_MAP (ed_decision native) of
         None \<Rightarrow> raise decision_error ''unknown native enforcement outcome''
       | Some outcome \<Rightarrow>
           rbind (checked_digest decision_error (mir_fingerprint mir) ''native_mir_fingerprint'') (\<lambda>policy.
           let result = \<lparr>az_evidence_digest = xe_evidence_digest evidence, az_provider_id = xg_provider_id grant,
             az_consumer_id = xg_consumer_id grant, az_subject_scope_digest = cb_subject_scope_digest basis,
             az_operation = cb_operation basis, az_request_digest = cb_canonical_request_digest basis,
             az_decision_epoch = cb_epoch basis, az_authority_basis_digest = cb_basis_digest basis, az_policy_digest = policy,
             az_outcome = outcome,
             az_decision_digest = hmac_hex hash key (decision_payload (xe_evidence_digest evidence) (xg_provider_id grant)
               (xg_consumer_id grant) (cb_subject_scope_digest basis) (cb_operation basis) (cb_canonical_request_digest basis)
               (cb_epoch basis) (cb_basis_digest basis) policy outcome),
             az_version = 1\<rparr>
           in rbind (decision_assert_authenticated hash result key grant evidence) (\<lambda>_. Inr result))))))"

section \<open>Permits\<close>

record execution_permit =
  pm_authorization_decision_digest :: string
  pm_evidence_digest :: string
  pm_provider_id :: string
  pm_consumer_id :: string
  pm_subject_scope_digest :: string
  pm_operation :: string
  pm_request_digest :: string
  pm_valid_epoch :: int
  pm_permit_digest :: string
  pm_single_use :: bool
  pm_version :: int

abbreviation permit_error :: exc_class where
  "permit_error \<equiv> ExecutionPermitV1Error"

definition permit_payload :: "string \<Rightarrow> string \<Rightarrow> string \<Rightarrow> string \<Rightarrow> string \<Rightarrow> string \<Rightarrow> string \<Rightarrow> int \<Rightarrow> string" where
  "permit_payload decision evidence provider consumer subject operation request epoch =
     ''koschei.execution-permit/v1'' @ [CHR 0x00] @ utf8 (join nl
       [kv ''decision'' decision, kv ''evidence'' evidence, kv ''provider'' provider, kv ''consumer'' consumer,
        kv ''subject'' subject, kv ''operation'' operation, kv ''request'' request, kv ''epoch'' (str_int epoch), ''single_use=1''])"

definition consumption_payload :: "string \<Rightarrow> string \<Rightarrow> string \<Rightarrow> string \<Rightarrow> string \<Rightarrow> int \<Rightarrow> string" where
  "consumption_payload permit decision evidence operation request epoch =
     ''koschei.execution-permit-consumption/v1'' @ [CHR 0x00] @ utf8 (join nl
       [kv ''permit'' permit, kv ''decision'' decision, kv ''evidence'' evidence, kv ''operation'' operation,
        kv ''request'' request, kv ''epoch'' (str_int epoch), ''consumed=1''])"

definition permit_assert_authenticated ::
  "(string \<Rightarrow> string) \<Rightarrow> execution_permit \<Rightarrow> string \<Rightarrow> string \<Rightarrow> adapter_grant \<Rightarrow> adapter_evidence \<Rightarrow> authorization_decision
    \<Rightarrow> unit result" where
  "permit_assert_authenticated hash p runtime_key decision_key grant evidence decision =
     rbind (checked_key permit_error runtime_key ''runtime_key'') (\<lambda>permit_key.
     rbind (adapter_grant_assert_sealed hash grant) (\<lambda>_.
     rbind (evidence_assert_sealed hash evidence grant) (\<lambda>_.
     rbind (decision_assert_authenticated hash decision decision_key grant evidence) (\<lambda>_.
     rbind (decision_assert_allows decision) (\<lambda>_.
     if \<not> pm_single_use p then raise permit_error ''execution permit must remain single-use''
     else
       rbind (checked_digest permit_error (pm_authorization_decision_digest p) ''authorization_decision_digest'') (\<lambda>decision_digest.
       if decision_digest \<noteq> az_decision_digest decision then
         raise permit_error ''execution permit belongs to different authorization decision''
       else
         rbind (checked_digest permit_error (pm_evidence_digest p) ''evidence_digest'') (\<lambda>evidence_digest.
         if evidence_digest \<noteq> xe_evidence_digest evidence \<or> evidence_digest \<noteq> az_evidence_digest decision then
           raise permit_error ''execution permit belongs to different external evidence''
         else
           rbind (checked_text permit_error (pm_provider_id p) ''provider_id'') (\<lambda>provider.
           rbind (checked_text permit_error (pm_consumer_id p) ''consumer_id'') (\<lambda>consumer.
           rbind (checked_digest permit_error (pm_subject_scope_digest p) ''subject_scope_digest'') (\<lambda>subject.
           rbind (checked_text permit_error (pm_operation p) ''operation'') (\<lambda>operation.
           rbind (checked_digest permit_error (pm_request_digest p) ''request_digest'') (\<lambda>request.
           rbind (checked_epoch permit_error (pm_valid_epoch p) ''valid_epoch'') (\<lambda>epoch.
           if provider \<noteq> xg_provider_id grant \<or> provider \<noteq> az_provider_id decision then
             raise permit_error ''execution permit provider mismatch''
           else if consumer \<noteq> xg_consumer_id grant \<or> consumer \<noteq> az_consumer_id decision then
             raise permit_error ''execution permit consumer mismatch''
           else if subject \<noteq> xg_subject_scope_digest grant \<or> subject \<noteq> az_subject_scope_digest decision then
             raise permit_error ''execution permit subject mismatch''
           else if operation \<noteq> az_operation decision then
             raise permit_error ''execution permit operation differs from authorization decision''
           else if request \<noteq> az_request_digest decision then
             raise permit_error ''execution permit request differs from authorization decision''
           else if epoch \<noteq> xe_observed_epoch evidence \<or> epoch \<noteq> az_decision_epoch decision then
             raise permit_error ''execution permit epoch differs from authorization decision/evidence''
           else authentic permit_error ''execution permit authentication failed'' (pm_permit_digest p)
             (hmac_hex hash permit_key (permit_payload decision_digest evidence_digest provider consumer subject operation request
               epoch)))))))))))))))"

text \<open>The conjunction stops at the first part that is false; a part may raise.\<close>

definition is_live_for :: "execution_permit \<Rightarrow> int \<Rightarrow> string \<Rightarrow> string \<Rightarrow> bool result" where
  "is_live_for p current_epoch request_digest operation =
     rbind (checked_epoch permit_error current_epoch ''current_epoch'') (\<lambda>epoch.
     if epoch \<noteq> pm_valid_epoch p then Inr False
     else
       rbind (checked_digest permit_error request_digest ''request_digest'') (\<lambda>request.
       if request \<noteq> pm_request_digest p then Inr False
       else
         rbind (checked_text permit_error operation ''operation'') (\<lambda>operation. Inr (operation = pm_operation p))))"

record consumption_receipt =
  cr_permit_digest :: string
  cr_authorization_decision_digest :: string
  cr_evidence_digest :: string
  cr_operation :: string
  cr_request_digest :: string
  cr_consumed_epoch :: int
  cr_receipt_digest :: string
  cr_consumed :: bool
  cr_version :: int

definition consumption_assert_authenticated :: "(string \<Rightarrow> string) \<Rightarrow> consumption_receipt \<Rightarrow> string \<Rightarrow> execution_permit \<Rightarrow> unit result" where
  "consumption_assert_authenticated hash c runtime_key permit =
     rbind (checked_key permit_error runtime_key ''runtime_key'') (\<lambda>key.
     if \<not> cr_consumed c then raise permit_error ''execution consumption receipt must remain consumed''
     else
       rbind (checked_digest permit_error (cr_permit_digest c) ''permit_digest'') (\<lambda>permit_digest.
       rbind (checked_digest permit_error (cr_authorization_decision_digest c) ''authorization_decision_digest'') (\<lambda>decision_digest.
       rbind (checked_digest permit_error (cr_evidence_digest c) ''evidence_digest'') (\<lambda>evidence_digest.
       rbind (checked_text permit_error (cr_operation c) ''operation'') (\<lambda>operation.
       rbind (checked_digest permit_error (cr_request_digest c) ''request_digest'') (\<lambda>request.
       rbind (checked_epoch permit_error (cr_consumed_epoch c) ''consumed_epoch'') (\<lambda>epoch.
       rbind (match_fields permit_error ''execution consumption receipt {} mismatch''
         [(permit_digest = pm_permit_digest permit, ''permit''),
          (decision_digest = pm_authorization_decision_digest permit, ''decision''),
          (evidence_digest = pm_evidence_digest permit, ''evidence''),
          (operation = pm_operation permit, ''operation''),
          (request = pm_request_digest permit, ''request''),
          (epoch = pm_valid_epoch permit, ''epoch'')]) (\<lambda>_.
       authentic permit_error ''execution consumption receipt authentication failed'' (cr_receipt_digest c)
         (hmac_hex hash key (consumption_payload permit_digest decision_digest evidence_digest operation request epoch))))))))))"

definition mint_execution_permit ::
  "(string \<Rightarrow> string) \<Rightarrow> adapter_grant \<Rightarrow> adapter_evidence \<Rightarrow> authorization_decision \<Rightarrow> string \<Rightarrow> string \<Rightarrow> execution_permit result" where
  "mint_execution_permit hash grant evidence decision runtime_key decision_key =
     rbind (checked_key permit_error runtime_key ''runtime_key'') (\<lambda>permit_key.
     rbind (adapter_grant_assert_sealed hash grant) (\<lambda>_.
     rbind (evidence_assert_sealed hash evidence grant) (\<lambda>_.
     rbind (decision_assert_authenticated hash decision decision_key grant evidence) (\<lambda>_.
     rbind (decision_assert_allows decision) (\<lambda>_.
     let result = \<lparr>pm_authorization_decision_digest = az_decision_digest decision, pm_evidence_digest = xe_evidence_digest evidence,
       pm_provider_id = xg_provider_id grant, pm_consumer_id = xg_consumer_id grant,
       pm_subject_scope_digest = xg_subject_scope_digest grant, pm_operation = az_operation decision,
       pm_request_digest = az_request_digest decision, pm_valid_epoch = az_decision_epoch decision,
       pm_permit_digest = hmac_hex hash permit_key (permit_payload (az_decision_digest decision) (xe_evidence_digest evidence)
         (xg_provider_id grant) (xg_consumer_id grant) (xg_subject_scope_digest grant) (az_operation decision)
         (az_request_digest decision) (az_decision_epoch decision)),
       pm_single_use = True, pm_version = 1\<rparr>
     in rbind (permit_assert_authenticated hash result permit_key decision_key grant evidence decision) (\<lambda>_. Inr result))))))"

text \<open>The ledger is the set of the digests consumed.\<close>

type_synonym permit_ledger = "string set"

definition consume_receipt :: "(string \<Rightarrow> string) \<Rightarrow> execution_permit \<Rightarrow> string \<Rightarrow> consumption_receipt result" where
  "consume_receipt hash permit runtime_key =
     rbind (checked_key permit_error runtime_key ''runtime_key'') (\<lambda>key.
     let receipt = \<lparr>cr_permit_digest = pm_permit_digest permit,
       cr_authorization_decision_digest = pm_authorization_decision_digest permit, cr_evidence_digest = pm_evidence_digest permit,
       cr_operation = pm_operation permit, cr_request_digest = pm_request_digest permit, cr_consumed_epoch = pm_valid_epoch permit,
       cr_receipt_digest = hmac_hex hash key (consumption_payload (pm_permit_digest permit) (pm_authorization_decision_digest permit)
         (pm_evidence_digest permit) (pm_operation permit) (pm_request_digest permit) (pm_valid_epoch permit)),
       cr_consumed = True, cr_version = 1\<rparr>
     in rbind (consumption_assert_authenticated hash receipt runtime_key permit) (\<lambda>_. Inr receipt))"

definition consume ::
  "(string \<Rightarrow> string) \<Rightarrow> execution_permit \<Rightarrow> string \<Rightarrow> string \<Rightarrow> adapter_grant \<Rightarrow> adapter_evidence \<Rightarrow> authorization_decision
    \<Rightarrow> int \<Rightarrow> string \<Rightarrow> string \<Rightarrow> (permit_ledger, consumption_receipt) py" where
  "consume hash permit runtime_key decision_key grant evidence decision current_epoch request_digest operation consumed =
     (case rbind (permit_assert_authenticated hash permit runtime_key decision_key grant evidence decision) (\<lambda>_.
             is_live_for permit current_epoch request_digest operation) of
        Inl e \<Rightarrow> (Inl e, consumed)
      | Inr live \<Rightarrow>
          if \<not> live then (raise permit_error ''execution permit is not live for this request'', consumed)
          else if pm_permit_digest permit \<in> consumed then (raise permit_error ''execution permit replay detected'', consumed)
          else (consume_receipt hash permit runtime_key, insert (pm_permit_digest permit) consumed))"

end
