(* ===== verification/Effect_Execution.thy ===== *)
theory Effect_Execution
  imports Execution_Permit
begin

text \<open>
  Effects under a permit: the measured execution with its receipt
  (\<open>koschei/effect_execution_receipt_v1.py\<close>), the guard of fresh authorization
  (\<open>koschei/fresh_effect_authorization_v1.py\<close>), the durable store of authorization heads and execution claims
  (\<open>koschei/durable_authorization_store_v1.py\<close>) and the execution under a durable claim
  (\<open>koschei/durable_effect_execution_v1.py\<close>). The effect is the caller's code, a parameter; so is the text
  \<open>label\<close> that describes an exception it raises.
\<close>

section \<open>Measured execution\<close>

record effect_receipt =
  er_consumption_receipt_digest :: string
  er_permit_digest :: string
  er_authorization_decision_digest :: string
  er_canonical_request_digest :: string
  er_operation :: string
  er_execution_epoch :: int
  er_outcome :: string
  er_measurement_digest :: string
  er_receipt_digest :: string
  er_authority :: bool
  er_version :: int

abbreviation receipt_error :: exc_class where
  "receipt_error \<equiv> EffectExecutionReceiptV1Error"

definition EFFECT_OUTCOMES :: "string list" where
  "EFFECT_OUTCOMES = [''effect-completed'', ''effect-failed'']"

definition measurement_for_result :: "(string \<Rightarrow> string) \<Rightarrow> string \<Rightarrow> string" where
  "measurement_for_result hash v = hash (''koschei.effect-result-measurement/v1'' @ [CHR 0x00] @ v)"

definition measurement_for_failure :: "(string \<Rightarrow> string) \<Rightarrow> (pyexc \<Rightarrow> string) \<Rightarrow> pyexc \<Rightarrow> string" where
  "measurement_for_failure hash label e = hash (''koschei.effect-failure-measurement/v1'' @ [CHR 0x00] @ utf8 (label e))"

definition effect_payload :: "string \<Rightarrow> string \<Rightarrow> string \<Rightarrow> string \<Rightarrow> string \<Rightarrow> int \<Rightarrow> string \<Rightarrow> string \<Rightarrow> string" where
  "effect_payload consumption permit decision request operation epoch outcome measurement =
     ''koschei.effect-execution-receipt/v1'' @ [CHR 0x00] @ utf8 (join nl
       [kv ''consumption'' consumption, kv ''permit'' permit, kv ''decision'' decision, kv ''request'' request,
        kv ''operation'' operation, kv ''epoch'' (str_int epoch), kv ''outcome'' outcome, kv ''measurement'' measurement])"

definition effect_receipt_assert_authenticated ::
  "(string \<Rightarrow> string) \<Rightarrow> effect_receipt \<Rightarrow> string \<Rightarrow> consumption_receipt \<Rightarrow> execution_permit \<Rightarrow> native_sigil_mir
    \<Rightarrow> effect_request \<Rightarrow> unit result" where
  "effect_receipt_assert_authenticated hash r effect_key consumption permit mir request =
     rbind (checked_key receipt_error effect_key ''effect_key'') (\<lambda>key.
     rbind (mir_assert_sealed hash mir) (\<lambda>_.
     rbind (request_assert_sealed hash request mir) (\<lambda>_.
     if er_authority r then raise receipt_error ''effect receipt cannot carry ambient authority''
     else if er_outcome r \<notin> set EFFECT_OUTCOMES then raise receipt_error ''unknown effect execution outcome''
     else
       rbind (match_fields receipt_error ''effect receipt {} mismatch''
         [(er_consumption_receipt_digest r = cr_receipt_digest consumption, ''consumption''),
          (er_permit_digest r = pm_permit_digest permit, ''permit''),
          (er_authorization_decision_digest r = pm_authorization_decision_digest permit, ''decision''),
          (er_canonical_request_digest r = rq_digest request, ''request''),
          (er_operation r = rq_operation request, ''operation''),
          (er_execution_epoch r = rq_epoch request, ''epoch'')]) (\<lambda>_.
       if pm_request_digest permit \<noteq> rq_digest request \<or> pm_operation permit \<noteq> rq_operation request then
         raise receipt_error ''effect request is outside execution permit''
       else if pm_valid_epoch permit \<noteq> rq_epoch request \<or> cr_consumed_epoch consumption \<noteq> rq_epoch request then
         raise receipt_error ''effect epoch is outside consumed permit''
       else if length (er_measurement_digest r) \<noteq> 64 then raise receipt_error ''effect measurement digest is invalid''
       else authentic receipt_error ''effect execution receipt authentication failed'' (er_receipt_digest r)
         (hmac_hex hash key (effect_payload (er_consumption_receipt_digest r) (er_permit_digest r) (er_authorization_decision_digest r)
           (er_canonical_request_digest r) (er_operation r) (er_execution_epoch r) (er_outcome r) (er_measurement_digest r)))))))"

definition assert_completed_result :: "(string \<Rightarrow> string) \<Rightarrow> effect_receipt \<Rightarrow> string \<Rightarrow> unit result" where
  "assert_completed_result hash r result =
     (if er_outcome r \<noteq> ''effect-completed'' then raise receipt_error ''effect receipt does not describe completion''
      else if measurement_for_result hash result \<noteq> er_measurement_digest r then
        raise receipt_error ''effect result bytes do not match receipt measurement''
      else Inr ())"

text \<open>The checks before the permit is consumed.\<close>

definition execution_checks ::
  "(string \<Rightarrow> string) \<Rightarrow> execution_permit \<Rightarrow> string \<Rightarrow> native_sigil_mir \<Rightarrow> effect_request \<Rightarrow> string result" where
  "execution_checks hash permit effect_key mir request =
     rbind (checked_key receipt_error effect_key ''effect_key'') (\<lambda>key.
     rbind (mir_assert_sealed hash mir) (\<lambda>_.
     rbind (request_assert_sealed hash request mir) (\<lambda>_.
     if pm_request_digest permit \<noteq> rq_digest request \<or> pm_operation permit \<noteq> rq_operation request then
       raise receipt_error ''canonical request is outside execution permit''
     else if pm_valid_epoch permit \<noteq> rq_epoch request then raise receipt_error ''canonical request epoch is outside execution permit''
     else Inr key)))"

text \<open>The outcome that was measured, signed with the effect key.\<close>

definition measured_receipt ::
  "(string \<Rightarrow> string) \<Rightarrow> string \<Rightarrow> consumption_receipt \<Rightarrow> execution_permit \<Rightarrow> effect_request \<Rightarrow> string \<Rightarrow> string \<Rightarrow> effect_receipt" where
  "measured_receipt hash effect_key consumption permit request outcome measurement =
     \<lparr>er_consumption_receipt_digest = cr_receipt_digest consumption, er_permit_digest = pm_permit_digest permit,
      er_authorization_decision_digest = pm_authorization_decision_digest permit, er_canonical_request_digest = rq_digest request,
      er_operation = rq_operation request, er_execution_epoch = rq_epoch request, er_outcome = outcome,
      er_measurement_digest = measurement,
      er_receipt_digest = hmac_hex hash effect_key (effect_payload (cr_receipt_digest consumption) (pm_permit_digest permit)
        (pm_authorization_decision_digest permit) (rq_digest request) (rq_operation request) (rq_epoch request) outcome measurement),
      er_authority = False, er_version = 1\<rparr>"

definition measured_effect ::
  "(string \<Rightarrow> string) \<Rightarrow> (pyexc \<Rightarrow> string) \<Rightarrow> (effect_request \<Rightarrow> ('w, string) py) \<Rightarrow> effect_request
    \<Rightarrow> ('w, string option \<times> string \<times> string) py" where
  "measured_effect hash label effect request =
     stry (sbind (effect request) (\<lambda>bytes. sret (Some bytes, measurement_for_result hash bytes, ''effect-completed'')))
       (\<lambda>e. sret (None, measurement_for_failure hash label e, ''effect-failed''))"

definition execute_effect_with_receipt ::
  "(string \<Rightarrow> string) \<Rightarrow> (pyexc \<Rightarrow> string) \<Rightarrow> execution_permit \<Rightarrow> string \<Rightarrow> string \<Rightarrow> string \<Rightarrow> adapter_grant \<Rightarrow> adapter_evidence
    \<Rightarrow> authorization_decision \<Rightarrow> native_sigil_mir \<Rightarrow> effect_request \<Rightarrow> int \<Rightarrow> (effect_request \<Rightarrow> ('w, string) py)
    \<Rightarrow> (permit_ledger \<times> 'w, consumption_receipt \<times> effect_receipt \<times> string option) py" where
  "execute_effect_with_receipt hash label permit runtime_key decision_key effect_key grant evidence decision mir request
     current_epoch effect =
     sbind (slift (execution_checks hash permit effect_key mir request)) (\<lambda>key.
     sbind (on_ledger (consume hash permit runtime_key decision_key grant evidence decision current_epoch (rq_digest request)
       (rq_operation request))) (\<lambda>consumption.
     sbind (on_world (measured_effect hash label effect request)) (\<lambda>(result_bytes, measurement, outcome).
     let receipt = measured_receipt hash key consumption permit request outcome measurement in
     sbind (slift (effect_receipt_assert_authenticated hash receipt key consumption permit mir request)) (\<lambda>_.
     sret (consumption, receipt, result_bytes)))))"

section \<open>Fresh authorization\<close>

abbreviation fresh_error :: exc_class where
  "fresh_error \<equiv> FreshEffectAuthorizationV1Error"

definition canonical_execution_principal :: "effect_request \<Rightarrow> string result" where
  "canonical_execution_principal request =
     (let digest = rq_identity_digest request in
      if length digest \<noteq> 64 then raise fresh_error ''canonical request identity digest is invalid''
      else if digest \<noteq> map lower_char digest \<or> \<not> list_all hex_char digest \<or> digest = replicate 64 (CHR ''0'') then
        raise fresh_error ''canonical request identity digest is invalid''
      else Inr (''koschei:canonical-identity:v1:'' @ digest))"

definition assert_exact_effect_constraints :: "authorization_state \<Rightarrow> effect_request \<Rightarrow> adapter_grant \<Rightarrow> unit result" where
  "assert_exact_effect_constraints state request grant =
     (let c = as_effective_constraints state in
      rbind (match_fields fresh_error ''effective authorization {} scope is not exact for canonical request''
        [(cs_resources c = [rq_subject request], ''resource''), (cs_operations c = [rq_operation request], ''operation''),
         (cs_arguments c = [rq_request_digest request], ''argument''), (cs_audience c = [xg_consumer_id grant], ''audience'')]) (\<lambda>_.
      if cs_delegation_depth c \<noteq> 0 \<or> cs_redelegation c then
        raise fresh_error ''effect execution authority must terminate delegation at the executing principal''
      else Inr ()))"

definition assert_effect_authorization_binding ::
  "(string \<Rightarrow> string) \<Rightarrow> authorization_state \<Rightarrow> intent_commitment \<Rightarrow> adapter_grant \<Rightarrow> native_sigil_mir \<Rightarrow> effect_request
    \<Rightarrow> int \<Rightarrow> unit result" where
  "assert_effect_authorization_binding hash state intent grant mir request current_epoch =
     rbind (mir_assert_sealed hash mir) (\<lambda>_.
     rbind (request_assert_sealed hash request mir) (\<lambda>_.
     if current_epoch < 0 then raise fresh_error ''current_epoch must be a non-negative integer''
     else if current_epoch \<noteq> rq_epoch request then raise fresh_error ''execution epoch differs from canonical request''
     else
       rbind (canonical_execution_principal request) (\<lambda>principal.
       if ic_principal intent \<noteq> principal then raise fresh_error ''intent principal differs from canonical request identity''
       else if ic_intent_digest intent \<noteq> rq_digest request then
         raise fresh_error ''intent is not bound to the exact canonical request''
       else if current_epoch < ic_created_epoch intent then raise fresh_error ''intent was created after the execution epoch''
       else if as_subject state \<noteq> principal then
         raise fresh_error ''authorization subject differs from canonical request identity''
       else if as_intent_commitment_digest state \<noteq> intent_digest hash intent then
         raise fresh_error ''authorization state is bound to a different intent''
       else
         rbind (canonical_subject_scope_digest hash request) (\<lambda>scope.
         if xg_subject_scope_digest grant \<noteq> scope then raise fresh_error ''adapter grant scope differs from canonical request''
         else assert_exact_effect_constraints state request grant))))"

definition assert_fresh_effect_authorization ::
  "(string \<Rightarrow> string) \<Rightarrow> ledger \<Rightarrow> authorization_state \<Rightarrow> delegation_link list \<Rightarrow> intent_commitment \<Rightarrow> adapter_grant
    \<Rightarrow> native_sigil_mir \<Rightarrow> effect_request \<Rightarrow> int \<Rightarrow> execution_snapshot result" where
  "assert_fresh_effect_authorization hash heads state chain intent grant mir request current_epoch =
     rbind (assert_effect_authorization_binding hash state intent grant mir request current_epoch) (\<lambda>_.
     ledger_snapshot hash state chain current_epoch heads)"

definition execute_effect_with_fresh_authorization ::
  "(string \<Rightarrow> string) \<Rightarrow> (pyexc \<Rightarrow> string) \<Rightarrow> ledger \<Rightarrow> authorization_state \<Rightarrow> delegation_link list \<Rightarrow> intent_commitment
    \<Rightarrow> execution_permit \<Rightarrow> string \<Rightarrow> string \<Rightarrow> string \<Rightarrow> adapter_grant \<Rightarrow> adapter_evidence \<Rightarrow> authorization_decision
    \<Rightarrow> native_sigil_mir \<Rightarrow> effect_request \<Rightarrow> int \<Rightarrow> (effect_request \<Rightarrow> ('w, string) py)
    \<Rightarrow> (permit_ledger \<times> 'w, execution_snapshot \<times> consumption_receipt \<times> effect_receipt \<times> string option) py" where
  "execute_effect_with_fresh_authorization hash label heads state chain intent permit runtime_key decision_key effect_key grant
     evidence decision mir request current_epoch effect =
     sbind (slift (assert_fresh_effect_authorization hash heads state chain intent grant mir request current_epoch)) (\<lambda>snapshot.
     sbind (execute_effect_with_receipt hash label permit runtime_key decision_key effect_key grant evidence decision mir request
       current_epoch effect) (\<lambda>(consumption, receipt, result).
     sret (snapshot, consumption, receipt, result)))"

end
