(* ===== verification/Durable_Store.thy ===== *)
theory Durable_Store
  imports Effect_Execution
begin

text \<open>
  The durable store of authorization heads and execution claims
  (\<open>koschei/durable_authorization_store_v1.py\<close>) and the execution of an effect under a durable claim
  (\<open>koschei/durable_effect_execution_v1.py\<close>). Every operation opens its own connection to the database file,
  works in one transaction and closes the connection, which drops what was not committed: the state is
  the committed database. \<open>BEGIN IMMEDIATE\<close> takes the lock of the one writer, so operations of several processes
  are a sequence. That the file can be opened in WAL mode, the lock is obtained in time and the statements name columns
  of their tables is taken as given.
\<close>

section \<open>The database\<close>

record head_row =
  hr_subject :: string
  hr_state_digest :: string
  hr_state_epoch :: int
  hr_state_status :: string
  hr_intent_commitment_digest :: string

record transition_row =
  tr_transition_digest :: string
  tr_subject :: string
  tr_previous_state_digest :: string
  tr_next_state_digest :: string
  tr_transition_epoch :: int
  tr_transition_kind :: string

record claim_row =
  xr_permit_digest :: string
  xr_subject :: string
  xr_state_digest :: string
  xr_snapshot_digest :: string
  xr_authorization_decision_digest :: string
  xr_evidence_digest :: string
  xr_request_digest :: string
  xr_operation :: string
  xr_execution_epoch :: int
  xr_claim_receipt_digest :: string

text \<open>
  The rows, and of the schema what the code looks at: the metadata table (absent in a new file), the columns of each
  table (none when it is absent), the triggers and views.
\<close>

record store_db =
  sd_metadata :: "(string \<times> string) list option"
  sd_columns :: "(string \<times> string list) list"
  sd_executable :: "(string \<times> string) list"
  sd_heads :: "head_row list"
  sd_transitions :: "transition_row list"
  sd_claims :: "claim_row list"

definition new_file :: store_db where
  "new_file = \<lparr>sd_metadata = None, sd_columns = [], sd_executable = [], sd_heads = [], sd_transitions = [], sd_claims = []\<rparr>"

abbreviation durable_error :: exc_class where
  "durable_error \<equiv> DurableAuthorizationStoreV1Error"

definition SCHEMA_VERSION :: string where
  "SCHEMA_VERSION = ''1''"

definition REQUIRED_COLUMNS :: "(string \<times> string list) list" where
  "REQUIRED_COLUMNS =
    [(''authorization_heads'', [''subject'', ''state_digest'', ''state_epoch'', ''state_status'', ''intent_commitment_digest'']),
     (''authorization_transitions'', [''transition_digest'', ''subject'', ''previous_state_digest'', ''next_state_digest'',
       ''transition_epoch'', ''transition_kind'']),
     (''execution_claims'', [''permit_digest'', ''subject'', ''state_digest'', ''snapshot_digest'', ''authorization_decision_digest'',
       ''evidence_digest'', ''request_digest'', ''operation'', ''execution_epoch'', ''claim_receipt_digest''])]"

definition table_columns :: "store_db \<Rightarrow> string \<Rightarrow> string list" where
  "table_columns db table = (case map_of (sd_columns db) table of None \<Rightarrow> [] | Some columns \<Rightarrow> columns)"

definition validate_schema :: "store_db \<Rightarrow> unit result" where
  "validate_schema db =
     (case sd_metadata db of
        None \<Rightarrow> raise durable_error ''durable authorization schema validation failed''
      | Some metadata \<Rightarrow>
          if map_of metadata ''schema_version'' \<noteq> Some SCHEMA_VERSION then
            raise durable_error ''durable authorization schema version is unavailable''
          else
            rbind (rfor (\<lambda>(table, required).
                if set required \<subseteq> set (table_columns db table) then Inr ()
                else raisef durable_error ''durable authorization schema for {} is incomplete'' [table]) REQUIRED_COLUMNS) (\<lambda>_.
            if sd_executable db \<noteq> [] then
              raise durable_error ''durable authorization store contains unsupported executable schema object''
            else Inr ()))"

text \<open>\<open>CREATE TABLE IF NOT EXISTS\<close>: a table has columns.\<close>

definition create_table :: "string \<times> string list \<Rightarrow> store_db \<Rightarrow> store_db" where
  "create_table t db = (if table_columns db (fst t) = [] then db\<lparr>sd_columns := t # sd_columns db\<rparr> else db)"

definition create_metadata :: "store_db \<Rightarrow> store_db" where
  "create_metadata db = (if sd_metadata db = None then db\<lparr>sd_metadata := Some []\<rparr> else db)"

definition metadata_version :: "store_db \<Rightarrow> string option" where
  "metadata_version db = (case sd_metadata db of None \<Rightarrow> None | Some m \<Rightarrow> map_of m ''schema_version'')"

definition insert_version :: "store_db \<Rightarrow> store_db" where
  "insert_version db = db\<lparr>sd_metadata := map_option (\<lambda>m. m @ [(''schema_version'', SCHEMA_VERSION)]) (sd_metadata db)\<rparr>"

section \<open>Transactions\<close>

text \<open>The exceptions of \<open>sqlite3\<close>.\<close>

definition sqlite_error :: "pyexc \<Rightarrow> bool" where
  "sqlite_error e \<longleftrightarrow> exc_of e \<in> {IntegrityError, OperationalError}"

definition rollback_if_open :: "('db conn, unit) py" where
  "rollback_if_open c = (if working c = None then (Inr (), c) else rollback c)"

definition on_failure :: "string \<Rightarrow> pyexc \<Rightarrow> ('db conn, 'a) py" where
  "on_failure message e =
     (if exc_of e = durable_error then sthen rollback_if_open (sthrow e)
      else if sqlite_error e then sthen rollback_if_open (sthrow (Raise durable_error message []))
      else sthrow e)"

text \<open>A connection is opened, used and closed.\<close>

definition with_connection :: "('db conn, 'a) py \<Rightarrow> ('db, 'a) py" where
  "with_connection m db = (case m \<lparr>committed = db, working = None\<rparr> of (r, c) \<Rightarrow> (r, committed c))"

definition store_transaction :: "(store_db conn, 'a) py \<Rightarrow> (store_db, 'a) py" where
  "store_transaction body =
     with_connection (stry
       (sthen begin_immediate (sthen (select validate_schema) (sbind body (\<lambda>x. sthen commit (sret x)))))
       (on_failure ''durable authorization store operation failed''))"

definition store_read :: "(store_db conn, 'a) py \<Rightarrow> (store_db, 'a) py" where
  "store_read body =
     with_connection (stry (sthen (select validate_schema) body)
       (\<lambda>e. if sqlite_error e then sthrow (Raise durable_error ''durable authorization store operation failed'' []) else sthrow e))"

definition store_initialize :: "(store_db, unit) py" where
  "store_initialize =
     with_connection (stry
       (sthen begin_immediate (sthen (exec_write (\<lambda>db. Inr (create_metadata db)))
         (sbind (select (\<lambda>db. Inr (metadata_version db))) (\<lambda>version.
          sthen (case version of
              None \<Rightarrow> exec_write (\<lambda>db. Inr (insert_version db))
            | Some v \<Rightarrow> if v \<noteq> SCHEMA_VERSION then
                  sthrow (Raise durable_error ''unsupported durable authorization schema version'' [])
                else sret ())
          (sthen (exec_write (\<lambda>db. Inr (fold create_table REQUIRED_COLUMNS db)))
          (sthen (select validate_schema) commit))))))
       (on_failure ''durable authorization schema initialization failed''))"

section \<open>Heads\<close>

text \<open>An \<open>INSERT\<close> without a list of columns needs one value for each.\<close>

definition all_columns :: "string \<Rightarrow> nat \<Rightarrow> store_db \<Rightarrow> unit result" where
  "all_columns table n db =
     (if length (table_columns db table) \<noteq> n then raisef OperationalError ''table {} has a different number of columns'' [table]
      else Inr ())"

definition insert_head :: "head_row \<Rightarrow> store_db \<Rightarrow> store_db result" where
  "insert_head r db =
     rbind (all_columns ''authorization_heads'' 5 db) (\<lambda>_.
     rbind (bind_ints [hr_state_epoch r]) (\<lambda>_.
     rbind (insert_row hr_subject (\<lambda>_. True) r (sd_heads db)) (\<lambda>rows. Inr (db\<lparr>sd_heads := rows\<rparr>))))"

definition head_of :: "string \<Rightarrow> store_db \<Rightarrow> head_row option" where
  "head_of subject db = find (\<lambda>r. hr_subject r = subject) (sd_heads db)"

definition reraise_integrity :: "string \<Rightarrow> pyexc \<Rightarrow> ('s, 'a) py" where
  "reraise_integrity message e =
     (if exc_of e = IntegrityError then sthrow (Raise durable_error message []) else sthrow e)"

definition head_row_of :: "authorization_state \<Rightarrow> head_row" where
  "head_row_of s = \<lparr>hr_subject = as_subject s, hr_state_digest = as_state_digest s, hr_state_epoch = as_epoch s,
     hr_state_status = as_status s, hr_intent_commitment_digest = as_intent_commitment_digest s\<rparr>"

definition store_register_initial :: "(string \<Rightarrow> string) \<Rightarrow> authorization_state \<Rightarrow> (store_db, unit) py" where
  "store_register_initial hash state =
     sbind (slift (state_assert_sealed hash state)) (\<lambda>_.
     if as_previous_state_digest state \<noteq> None \<or> as_status state \<noteq> ''active'' then
       sthrow (Raise durable_error ''initial authorization state must be active with no predecessor'' [])
     else store_transaction (stry (exec_write (insert_head (head_row_of state)))
       (reraise_integrity ''authorization state head already exists'')))"

definition head_matches :: "string \<Rightarrow> string \<Rightarrow> head_row \<Rightarrow> bool" where
  "head_matches subject digest r \<longleftrightarrow> hr_subject r = subject \<and> hr_state_digest r = digest"

definition update_heads :: "string \<Rightarrow> string \<Rightarrow> authorization_state \<Rightarrow> store_db \<Rightarrow> store_db result" where
  "update_heads subject digest n db =
     rbind (bind_ints [as_epoch n]) (\<lambda>_.
     Inr (db\<lparr>sd_heads := map (\<lambda>r. if head_matches subject digest r then (head_row_of n)\<lparr>hr_subject := hr_subject r\<rparr> else r) (sd_heads db)\<rparr>))"

definition insert_transition :: "transition_row \<Rightarrow> store_db \<Rightarrow> store_db result" where
  "insert_transition r db =
     rbind (all_columns ''authorization_transitions'' 6 db) (\<lambda>_.
     rbind (bind_ints [tr_transition_epoch r]) (\<lambda>_.
     rbind (insert_row tr_transition_digest (\<lambda>_. True) r (sd_transitions db)) (\<lambda>rows. Inr (db\<lparr>sd_transitions := rows\<rparr>))))"

definition transition_checks ::
  "(string \<Rightarrow> string) \<Rightarrow> authorization_state \<Rightarrow> authorization_state \<Rightarrow> authorization_transition \<Rightarrow> unit result" where
  "transition_checks hash previous next_state t =
     rbind (state_assert_sealed hash previous) (\<lambda>_.
     rbind (state_assert_sealed hash next_state) (\<lambda>_.
     rbind (assert_transition_sealed hash t) (\<lambda>_.
     if as_subject previous \<noteq> as_subject next_state then raise durable_error ''authorization transition changes subject''
     else if as_previous_state_digest next_state \<noteq> Some (as_state_digest previous) then
       raise durable_error ''next authorization state predecessor mismatch''
     else if at_previous_state_digest t \<noteq> as_state_digest previous \<or> at_next_state_digest t \<noteq> as_state_digest next_state then
       raise durable_error ''authorization transition state binding mismatch''
     else if at_epoch t \<noteq> as_epoch next_state then raise durable_error ''authorization transition epoch mismatch''
     else Inr ())))"

definition transition_row_of :: "authorization_state \<Rightarrow> authorization_state \<Rightarrow> authorization_transition \<Rightarrow> transition_row" where
  "transition_row_of previous next_state t =
     \<lparr>tr_transition_digest = at_transition_digest t, tr_subject = as_subject previous,
      tr_previous_state_digest = as_state_digest previous, tr_next_state_digest = as_state_digest next_state,
      tr_transition_epoch = at_epoch t, tr_transition_kind = at_kind t\<rparr>"

definition require_head :: "string \<Rightarrow> string \<Rightarrow> store_db \<Rightarrow> head_row result" where
  "require_head subject digest db =
     (case head_of subject db of
        None \<Rightarrow> raise durable_error ''authorization state head is unavailable''
      | Some row \<Rightarrow>
          if hr_state_digest row \<noteq> digest then
            raise durable_error ''authorization state is not the current durable monotonic head''
          else Inr row)"

definition store_commit_transition ::
  "(string \<Rightarrow> string) \<Rightarrow> authorization_state \<Rightarrow> authorization_state \<Rightarrow> authorization_transition \<Rightarrow> (store_db, unit) py" where
  "store_commit_transition hash previous next_state t =
     sbind (slift (transition_checks hash previous next_state t)) (\<lambda>_.
     store_transaction (
       sbind (select (require_head (as_subject previous) (as_state_digest previous))) (\<lambda>_.
       sbind (select (\<lambda>db. Inr (length (filter (head_matches (as_subject previous) (as_state_digest previous)) (sd_heads db))))) (\<lambda>changed.
       sthen (exec_write (update_heads (as_subject previous) (as_state_digest previous) next_state)) (
       if changed \<noteq> 1 then sthrow (Raise durable_error ''authorization state compare-and-swap failed'' [])
       else stry (exec_write (insert_transition (transition_row_of previous next_state t)))
         (reraise_integrity ''authorization transition replay detected''))))))"

section \<open>Claims\<close>

record durable_receipt =
  dr_permit_digest :: string
  dr_state_digest :: string
  dr_snapshot_digest :: string
  dr_authorization_decision_digest :: string
  dr_evidence_digest :: string
  dr_request_digest :: string
  dr_operation :: string
  dr_execution_epoch :: int
  dr_receipt_digest :: string
  dr_authority :: bool
  dr_version :: int

definition claim_payload :: "string \<Rightarrow> string \<Rightarrow> string \<Rightarrow> string \<Rightarrow> string \<Rightarrow> string \<Rightarrow> string \<Rightarrow> int \<Rightarrow> string" where
  "claim_payload permit state snapshot decision evidence request operation epoch =
     ''koschei.durable-execution-claim/v1'' @ [CHR 0x00] @ utf8 (join nl
       [kv ''permit'' permit, kv ''state'' state, kv ''snapshot'' snapshot, kv ''decision'' decision, kv ''evidence'' evidence,
        kv ''request'' request, kv ''operation'' operation, kv ''epoch'' (str_int epoch), ''claimed=1''])"

definition durable_receipt_mac :: "(string \<Rightarrow> string) \<Rightarrow> string \<Rightarrow> durable_receipt \<Rightarrow> string" where
  "durable_receipt_mac hash key r =
     hmac_hex hash key (claim_payload (dr_permit_digest r) (dr_state_digest r) (dr_snapshot_digest r)
       (dr_authorization_decision_digest r) (dr_evidence_digest r) (dr_request_digest r) (dr_operation r) (dr_execution_epoch r))"

definition durable_receipt_assert_authenticated ::
  "(string \<Rightarrow> string) \<Rightarrow> durable_receipt \<Rightarrow> string \<Rightarrow> authorization_state \<Rightarrow> execution_snapshot \<Rightarrow> execution_permit \<Rightarrow> unit result" where
  "durable_receipt_assert_authenticated hash r claim_key state snapshot permit =
     rbind (checked_key durable_error claim_key ''claim_key'') (\<lambda>key.
     if dr_authority r then raise durable_error ''durable execution claim cannot carry ambient authority''
     else
       rbind (match_fields durable_error ''durable execution claim {} mismatch''
         [(dr_permit_digest r = pm_permit_digest permit, ''permit''),
          (dr_state_digest r = as_state_digest state, ''state''),
          (dr_snapshot_digest r = es_snapshot_digest snapshot, ''snapshot''),
          (dr_authorization_decision_digest r = pm_authorization_decision_digest permit, ''decision''),
          (dr_evidence_digest r = pm_evidence_digest permit, ''evidence''),
          (dr_request_digest r = pm_request_digest permit, ''request''),
          (dr_operation r = pm_operation permit, ''operation''),
          (dr_execution_epoch r = es_execution_epoch snapshot, ''epoch'')]) (\<lambda>_.
       authentic durable_error ''durable execution claim authentication failed'' (dr_receipt_digest r) (durable_receipt_mac hash key r)))"

definition durable_receipt_of ::
  "(string \<Rightarrow> string) \<Rightarrow> string \<Rightarrow> authorization_state \<Rightarrow> execution_snapshot \<Rightarrow> execution_permit \<Rightarrow> int \<Rightarrow> durable_receipt" where
  "durable_receipt_of hash key state snapshot permit current_epoch =
     (let bare = \<lparr>dr_permit_digest = pm_permit_digest permit, dr_state_digest = as_state_digest state,
        dr_snapshot_digest = es_snapshot_digest snapshot,
        dr_authorization_decision_digest = pm_authorization_decision_digest permit, dr_evidence_digest = pm_evidence_digest permit,
        dr_request_digest = pm_request_digest permit, dr_operation = pm_operation permit, dr_execution_epoch = current_epoch,
        dr_receipt_digest = [], dr_authority = False, dr_version = 1\<rparr>
      in bare\<lparr>dr_receipt_digest := durable_receipt_mac hash key bare\<rparr>)"

text \<open>What is presented for an execution: everything but the database and the effect.\<close>

record execution_order =
  xo_state :: authorization_state
  xo_chain :: "delegation_link list"
  xo_intent :: intent_commitment
  xo_permit :: execution_permit
  xo_runtime_key :: string
  xo_decision_key :: string
  xo_claim_key :: string
  xo_effect_key :: string
  xo_grant :: adapter_grant
  xo_evidence :: adapter_evidence
  xo_decision :: authorization_decision
  xo_mir :: native_sigil_mir
  xo_request :: effect_request
  xo_current_epoch :: int

text \<open>The part of \<open>claim_execution\<close> before the transaction.\<close>

definition claim_checks :: "(string \<Rightarrow> string) \<Rightarrow> execution_order \<Rightarrow> (execution_snapshot \<times> durable_receipt) result" where
  "claim_checks hash x =
     rbind (checked_key durable_error (xo_claim_key x) ''claim_key'') (\<lambda>key.
     rbind (assert_effect_authorization_binding hash (xo_state x) (xo_intent x) (xo_grant x) (xo_mir x) (xo_request x)
       (xo_current_epoch x)) (\<lambda>_.
     rbind (state_assert_sealed hash (xo_state x)) (\<lambda>_.
     rbind (snapshot_for_execution hash (xo_state x) (xo_chain x) (xo_current_epoch x)) (\<lambda>snapshot.
     rbind (permit_assert_authenticated hash (xo_permit x) (xo_runtime_key x) (xo_decision_key x) (xo_grant x) (xo_evidence x)
       (xo_decision x)) (\<lambda>_.
     rbind (is_live_for (xo_permit x) (xo_current_epoch x) (rq_digest (xo_request x)) (rq_operation (xo_request x))) (\<lambda>live.
     if \<not> live then raise durable_error ''execution permit is not live for durable claim''
     else
       let receipt = durable_receipt_of hash key (xo_state x) snapshot (xo_permit x) (xo_current_epoch x) in
       rbind (durable_receipt_assert_authenticated hash receipt key (xo_state x) snapshot (xo_permit x)) (\<lambda>_.
       Inr (snapshot, receipt))))))))"

definition require_active_head :: "authorization_state \<Rightarrow> store_db \<Rightarrow> unit result" where
  "require_active_head state db =
     rbind (require_head (as_subject state) (as_state_digest state) db) (\<lambda>row.
     if hr_state_epoch row \<noteq> as_epoch state \<or> hr_state_status row \<noteq> ''active'' then
       raise durable_error ''durable authorization state is not active''
     else if hr_intent_commitment_digest row \<noteq> as_intent_commitment_digest state then
       raise durable_error ''durable authorization intent binding mismatch''
     else Inr ())"

definition insert_claim_row :: "claim_row \<Rightarrow> store_db \<Rightarrow> store_db result" where
  "insert_claim_row r db =
     rbind (all_columns ''execution_claims'' 10 db) (\<lambda>_.
     rbind (bind_ints [xr_execution_epoch r]) (\<lambda>_.
     rbind (insert_row xr_permit_digest (\<lambda>_. True) r (sd_claims db)) (\<lambda>rows. Inr (db\<lparr>sd_claims := rows\<rparr>))))"

definition claim_row_of :: "authorization_state \<Rightarrow> durable_receipt \<Rightarrow> claim_row" where
  "claim_row_of state r = \<lparr>xr_permit_digest = dr_permit_digest r, xr_subject = as_subject state, xr_state_digest = dr_state_digest r,
     xr_snapshot_digest = dr_snapshot_digest r, xr_authorization_decision_digest = dr_authorization_decision_digest r,
     xr_evidence_digest = dr_evidence_digest r, xr_request_digest = dr_request_digest r, xr_operation = dr_operation r,
     xr_execution_epoch = dr_execution_epoch r, xr_claim_receipt_digest = dr_receipt_digest r\<rparr>"

definition claim_execution :: "(string \<Rightarrow> string) \<Rightarrow> execution_order \<Rightarrow> (store_db, execution_snapshot \<times> durable_receipt) py" where
  "claim_execution hash x =
     sbind (slift (claim_checks hash x)) (\<lambda>(snapshot, receipt).
     sthen (store_transaction (
       sthen (select (require_active_head (xo_state x)))
         (stry (exec_write (insert_claim_row (claim_row_of (xo_state x) receipt))) (reraise_integrity ''execution permit replay detected''))))
     (sret (snapshot, receipt)))"

definition current_head_digest :: "string \<Rightarrow> (store_db, string option) py" where
  "current_head_digest subject = store_read (select (\<lambda>db. Inr (map_option hr_state_digest (head_of subject db))))"

definition has_execution_claim :: "string \<Rightarrow> (store_db, bool) py" where
  "has_execution_claim permit_digest =
     store_read (select (\<lambda>db. Inr (list_ex (\<lambda>r. xr_permit_digest r = permit_digest) (sd_claims db))))"

section \<open>Execution under a durable claim\<close>

definition execute_effect_with_durable_authorization ::
  "(string \<Rightarrow> string) \<Rightarrow> (pyexc \<Rightarrow> string) \<Rightarrow> execution_order \<Rightarrow> (effect_request \<Rightarrow> ('w, string) py)
    \<Rightarrow> (store_db \<times> 'w, execution_snapshot \<times> durable_receipt \<times> consumption_receipt \<times> effect_receipt \<times> string option) py" where
  "execute_effect_with_durable_authorization hash label x effect =
     sbind (slift (checked_key DurableEffectExecutionV1Error (xo_effect_key x) ''effect_key'')) (\<lambda>_.
     sbind (on_ledger (claim_execution hash x)) (\<lambda>(snapshot, claim).
     sbind (\<lambda>(db, w). case execute_effect_with_receipt hash label (xo_permit x) (xo_runtime_key x) (xo_decision_key x)
         (xo_effect_key x) (xo_grant x) (xo_evidence x) (xo_decision x) (xo_mir x) (xo_request x) (xo_current_epoch x) effect ({}, w) of
         (r, (_, w')) \<Rightarrow> (r, (db, w'))) (\<lambda>(consumption, receipt, result).
     sret (snapshot, claim, consumption, receipt, result))))"

end
