(* ===== verification/Permit_Safety.thy ===== *)
theory Permit_Safety
  imports Authorization_Safety Durable_Store
begin

text \<open>
  What permits guarantee: one is minted exactly when native enforcement allows the request it names, it is good for
  one execution of that request, and an effect runs only under it.
\<close>

section \<open>Successful checks\<close>

lemma checked_Inr [check_simps]:
  "checked_text cls v label = Inr w \<longleftrightarrow> strip v \<noteq> [] \<and> w = strip v"
  "checked_digest cls v label = Inr w \<longleftrightarrow> digest_ok v \<and> w = map lower_char v"
  "checked_epoch cls n label = Inr m \<longleftrightarrow> 0 \<le> n \<and> m = n"
  "checked_key cls v label = Inr w \<longleftrightarrow> 32 \<le> length v \<and> w = v"
  "require_digest v label = Inr w \<longleftrightarrow> digest_ok v \<and> w = map lower_char v"
  by (auto simp: checked_text_def checked_digest_def checked_epoch_def checked_key_def require_digest_def digest_ok_def Let_def)

lemma match_fields_Inr [check_simps]: "match_fields cls m fs = Inr u \<longleftrightarrow> list_all fst fs"
  by (induction cls m fs rule: match_fields.induct) auto

lemma authentic_Inr [check_simps]:
  "authentic cls m d e = Inr u \<longleftrightarrow> d = e \<and> list_all (\<lambda>c. cp c < 128) e"
  by (auto simp: authentic_def compare_digest_def rbind_eq_Inr)

lemma hex_char_ascii: "hex_char c \<Longrightarrow> cp c < 128"
  by (auto simp: hex_char_def)

lemma good_hash_ascii: "good_hash hash \<Longrightarrow> list_all (\<lambda>c. cp c < 128) (hash m)"
  by (simp add: good_hash_def hex64_def list_all_iff hex_char_ascii)

lemma hmac_is_hash: "\<exists>m. hmac_hex hash key msg = hash m"
  by (auto simp: hmac_hex_def Let_def)

text \<open>A digest in the form that the checks return it in.\<close>

definition good_digest :: "string \<Rightarrow> bool" where
  "good_digest d \<longleftrightarrow> digest_ok d \<and> map lower_char d = d"

lemma good_hash_value: "good_hash hash \<Longrightarrow> good_digest (hash m)"
  using good_hash_digest [of hash m]
  by (auto simp: good_digest_def good_hash_def hex64_def list_all_iff lower_hex_char intro: map_idI)

lemma good_hmac:
  assumes "good_hash hash"
  shows "good_digest (hmac_hex hash key m)" "list_all (\<lambda>c. cp c < 128) (hmac_hex hash key m)"
proof -
  obtain n where "hmac_hex hash key m = hash n" using hmac_is_hash by blast
  then show "good_digest (hmac_hex hash key m)" "list_all (\<lambda>c. cp c < 128) (hmac_hex hash key m)"
    using good_hash_value [OF assms] good_hash_ascii [OF assms] by simp_all
qed

lemma good_digest_of: "good_hash hash \<Longrightarrow> good_digest (digest_of hash ctx p)"
  by (simp add: digest_of_def good_hash_value)

lemma checked_good:
  "good_digest d \<Longrightarrow> checked_digest cls d label = Inr d"
  "strip v = v \<Longrightarrow> v \<noteq> [] \<Longrightarrow> checked_text cls v label = Inr v"
  "0 \<le> n \<Longrightarrow> checked_epoch cls n label = Inr n"
  "32 \<le> length k \<Longrightarrow> checked_key cls k label = Inr k"
  by (simp_all add: checked_Inr good_digest_def)

lemma authentic_hmac: "good_hash hash \<Longrightarrow> authentic cls m (hmac_hex hash key t) (hmac_hex hash key t) = Inr ()"
  by (simp add: authentic_Inr good_hmac)

lemma dropWhile_strip: "dropWhile P (rev (dropWhile P (rev (dropWhile P s)))) = rev (dropWhile P (rev (dropWhile P s)))"
proof (cases "dropWhile P s")
  case (Cons c t)
  have "\<not> P c" using hd_dropWhile [of P s] by (simp add: Cons)
  then show ?thesis by (simp add: Cons dropWhile_append)
next
  case Nil
  then show ?thesis by (simp only: Nil) simp
qed

lemma strip_strip [simp]: "strip (strip s) = strip s"
  by (simp add: strip_def dropWhile_strip)

section \<open>Grants, evidence, decisions\<close>

lemma canonical_actions_same: "canonical_actions acts = Inr x \<Longrightarrow> x = acts"
  by (auto simp: canonical_actions_def rbind_eq_Inr Let_def split: if_splits)

lemma adapter_grant_Inr:
  "adapter_grant_assert_sealed hash g = Inr u \<longleftrightarrow>
     \<not> xg_authority g \<and> strip (xg_provider_id g) \<noteq> [] \<and> strip (xg_consumer_id g) \<noteq> [] \<and> digest_ok (xg_subject_scope_digest g)
   \<and> canonical_actions (xg_allowed_actions g) = Inr (xg_allowed_actions g)
   \<and> 0 \<le> xg_valid_from_epoch g \<and> xg_valid_from_epoch g < xg_expires_before_epoch g
   \<and> xg_grant_digest g = adapter_seal hash (adapter_grant_rows (strip (xg_provider_id g)) (strip (xg_consumer_id g))
       (map lower_char (xg_subject_scope_digest g)) (xg_allowed_actions g) (xg_valid_from_epoch g) (xg_expires_before_epoch g))"
  unfolding adapter_grant_assert_sealed_def rbind_eq_Inr checked_Inr if_Inl_eq_Inr
  by (auto dest: canonical_actions_same)

lemma adapter_permits_Inr:
  "adapter_permits hash g action epoch = Inr True \<longleftrightarrow>
     adapter_grant_assert_sealed hash g = Inr () \<and> strip action \<noteq> [] \<and> 0 \<le> epoch
   \<and> xg_valid_from_epoch g \<le> epoch \<and> epoch < xg_expires_before_epoch g \<and> strip action \<in> set (xg_allowed_actions g)"
  unfolding adapter_permits_def rbind_eq_Inr checked_Inr by auto

lemma evidence_Inr:
  "evidence_assert_sealed hash e g = Inr u \<longleftrightarrow>
     adapter_grant_assert_sealed hash g = Inr () \<and> \<not> xe_authority e \<and> xe_grant_digest e = xg_grant_digest g
   \<and> strip (xe_provider_id e) \<noteq> [] \<and> strip (xe_provider_id e) = xg_provider_id g \<and> digest_ok (xe_external_evidence_digest e)
   \<and> 0 \<le> xe_observed_epoch e \<and> strip (xe_action e) \<noteq> []
   \<and> adapter_permits hash g (strip (xe_action e)) (xe_observed_epoch e) = Inr True
   \<and> xe_evidence_digest e = adapter_seal hash (adapter_evidence_rows (xe_grant_digest e) (strip (xe_provider_id e)) (strip (xe_action e))
       (map lower_char (xe_external_evidence_digest e)) (xe_observed_epoch e))"
  unfolding evidence_assert_sealed_def rbind_eq_Inr checked_Inr if_Inl_eq_Inr by auto

lemma decision_authenticated_Inr:
  "decision_assert_authenticated hash d key g e = Inr u \<longleftrightarrow>
     32 \<le> length key \<and> evidence_assert_sealed hash e g = Inr ()
   \<and> digest_ok (az_evidence_digest d) \<and> map lower_char (az_evidence_digest d) = xe_evidence_digest e
   \<and> strip (az_provider_id d) \<noteq> [] \<and> strip (az_provider_id d) = xg_provider_id g
   \<and> strip (az_consumer_id d) \<noteq> [] \<and> strip (az_consumer_id d) = xg_consumer_id g
   \<and> digest_ok (az_subject_scope_digest d) \<and> map lower_char (az_subject_scope_digest d) = xg_subject_scope_digest g
   \<and> strip (az_operation d) \<noteq> [] \<and> digest_ok (az_request_digest d)
   \<and> 0 \<le> az_decision_epoch d \<and> az_decision_epoch d = xe_observed_epoch e
   \<and> digest_ok (az_authority_basis_digest d) \<and> digest_ok (az_policy_digest d)
   \<and> strip (az_outcome d) \<noteq> [] \<and> strip (az_outcome d) \<in> set OUTCOMES
   \<and> authentic decision_error ''authorization decision authentication failed'' (az_decision_digest d) (hmac_hex hash key
       (decision_payload (map lower_char (az_evidence_digest d)) (strip (az_provider_id d)) (strip (az_consumer_id d))
         (map lower_char (az_subject_scope_digest d)) (strip (az_operation d)) (map lower_char (az_request_digest d))
         (az_decision_epoch d) (map lower_char (az_authority_basis_digest d)) (map lower_char (az_policy_digest d))
         (strip (az_outcome d)))) = Inr ()"
  unfolding decision_assert_authenticated_def rbind_eq_Inr checked_Inr if_Inl_eq_Inr
  by (auto simp: evidence_Inr)

lemma decision_authenticated_sealed:
  "decision_assert_authenticated hash d key g e = Inr () \<Longrightarrow> adapter_grant_assert_sealed hash g = Inr () \<and> evidence_assert_sealed hash e g = Inr ()"
  unfolding decision_authenticated_Inr evidence_Inr by blast

lemma permit_authenticated_Inr:
  "permit_assert_authenticated hash p rkey dkey g e d = Inr u \<longleftrightarrow>
     32 \<le> length rkey \<and> decision_assert_authenticated hash d dkey g e = Inr () \<and> az_outcome d = ''allow'' \<and> pm_single_use p
   \<and> digest_ok (pm_authorization_decision_digest p) \<and> map lower_char (pm_authorization_decision_digest p) = az_decision_digest d
   \<and> digest_ok (pm_evidence_digest p) \<and> map lower_char (pm_evidence_digest p) = xe_evidence_digest e
   \<and> map lower_char (pm_evidence_digest p) = az_evidence_digest d
   \<and> strip (pm_provider_id p) \<noteq> [] \<and> strip (pm_provider_id p) = xg_provider_id g \<and> strip (pm_provider_id p) = az_provider_id d
   \<and> strip (pm_consumer_id p) \<noteq> [] \<and> strip (pm_consumer_id p) = xg_consumer_id g \<and> strip (pm_consumer_id p) = az_consumer_id d
   \<and> digest_ok (pm_subject_scope_digest p) \<and> map lower_char (pm_subject_scope_digest p) = xg_subject_scope_digest g
   \<and> map lower_char (pm_subject_scope_digest p) = az_subject_scope_digest d
   \<and> strip (pm_operation p) \<noteq> [] \<and> strip (pm_operation p) = az_operation d
   \<and> digest_ok (pm_request_digest p) \<and> map lower_char (pm_request_digest p) = az_request_digest d
   \<and> 0 \<le> pm_valid_epoch p \<and> pm_valid_epoch p = xe_observed_epoch e \<and> pm_valid_epoch p = az_decision_epoch d
   \<and> authentic permit_error ''execution permit authentication failed'' (pm_permit_digest p) (hmac_hex hash rkey
       (permit_payload (map lower_char (pm_authorization_decision_digest p)) (map lower_char (pm_evidence_digest p))
         (strip (pm_provider_id p)) (strip (pm_consumer_id p)) (map lower_char (pm_subject_scope_digest p)) (strip (pm_operation p))
         (map lower_char (pm_request_digest p)) (pm_valid_epoch p))) = Inr ()"
  unfolding permit_assert_authenticated_def rbind_eq_Inr checked_Inr if_Inl_eq_Inr decision_assert_allows_def de_Morgan_disj not_not
  by (rule iffI) (auto dest: decision_authenticated_sealed)

section \<open>From native enforcement to the permit\<close>

lemma native_decision_eq:
  assumes "bound_assert_sealed hash bound mir request pb = Inr ()"
  shows "native_decision hash mir request pb = Inr (decision_of hash mir pb (rq_effect_id request))"
proof -
  obtain plan where plan: "require_native_sigil_proof hash mir pb = Inr plan"
    using bound_assert_sealed_Inr(2) [OF assms] by blast
  show ?thesis
    using request_fields_nonempty [OF bound_assert_sealed_Inr(1) [OF assms]] evaluate_enforcement_eq [OF plan]
    by (simp add: native_decision_def mk_PrivilegedEffectIntent_def)
qed

lemma basis_Inr:
  assumes "basis_assert_sealed hash b mir request pb bound = Inr n"
  shows "bound_assert_sealed hash bound mir request pb = Inr () \<and> n = decision_of hash mir pb (rq_effect_id request)
    \<and> canonical_subject_scope_digest hash request = Inr (cb_subject_scope_digest b)
    \<and> cb_canonical_request_digest b = rq_digest request \<and> cb_operation b = rq_operation request \<and> cb_epoch b = rq_epoch request
    \<and> cb_basis_digest b = basis_digest hash request bound n mir pb (cb_subject_scope_digest b)"
proof -
  from assms have bound: "bound_assert_sealed hash bound mir request pb = Inr ()"
    by (auto simp: basis_assert_sealed_def rbind_eq_Inr split: if_splits)
  then show ?thesis
    using assms native_decision_eq [OF bound]
    by (auto simp: basis_assert_sealed_def rbind_eq_Inr match_fields_Inr split: if_splits)
qed

lemma verdict_outcome: "map_of NATIVE_OUTCOME_MAP (verdict failed) = Some out \<Longrightarrow> out = ''allow'' \<longleftrightarrow> failed = []"
  by (auto simp: NATIVE_OUTCOME_MAP_def verdict_def split: if_splits)

lemma issue_decision_Inr:
  assumes "issue_authorization_decision hash grant evidence basis mir request pb bound dkey = Inr d"
  shows "bound_assert_sealed hash bound mir request pb = Inr ()
    \<and> map_of NATIVE_OUTCOME_MAP (verdict (failed_obligations pb)) = Some (az_outcome d)
    \<and> canonical_subject_scope_digest hash request = Inr (xg_subject_scope_digest grant)
    \<and> az_request_digest d = rq_digest request \<and> az_operation d = rq_operation request \<and> az_decision_epoch d = rq_epoch request
    \<and> az_policy_digest d = map lower_char (mir_fingerprint mir)
    \<and> az_evidence_digest d = xe_evidence_digest evidence \<and> az_provider_id d = xg_provider_id grant
    \<and> az_consumer_id d = xg_consumer_id grant \<and> az_subject_scope_digest d = xg_subject_scope_digest grant
    \<and> decision_assert_authenticated hash d dkey grant evidence = Inr ()"
proof -
  obtain n out where n: "basis_assert_sealed hash basis mir request pb bound = Inr n"
      "map_of NATIVE_OUTCOME_MAP (ed_decision n) = Some out" "cb_subject_scope_digest basis = xg_subject_scope_digest grant"
      "az_outcome d = out" "az_request_digest d = cb_canonical_request_digest basis" "az_operation d = cb_operation basis"
      "az_decision_epoch d = cb_epoch basis" "az_policy_digest d = map lower_char (mir_fingerprint mir)"
      "az_evidence_digest d = xe_evidence_digest evidence" "az_provider_id d = xg_provider_id grant"
      "az_consumer_id d = xg_consumer_id grant" "az_subject_scope_digest d = cb_subject_scope_digest basis"
      "decision_assert_authenticated hash d dkey grant evidence = Inr ()"
    using assms unfolding issue_authorization_decision_def rbind_eq_Inr checked_Inr if_Inl_eq_Inr Let_def
    by (auto split: option.splits simp: rbind_eq_Inr checked_Inr)
  have "ed_decision (decision_of hash mir pb e) = verdict (failed_obligations pb)" for e
    by (simp add: decision_of_def Let_def)
  then show ?thesis
    using n basis_Inr [OF n(1)] by simp
qed

lemma mint_Inr:
  assumes "mint_execution_permit hash grant evidence d rkey dkey = Inr p"
  shows "permit_assert_authenticated hash p rkey dkey grant evidence d = Inr () \<and> az_outcome d = ''allow''
    \<and> pm_authorization_decision_digest p = az_decision_digest d \<and> pm_evidence_digest p = xe_evidence_digest evidence
    \<and> pm_provider_id p = xg_provider_id grant \<and> pm_consumer_id p = xg_consumer_id grant
    \<and> pm_subject_scope_digest p = xg_subject_scope_digest grant \<and> pm_operation p = az_operation d
    \<and> pm_request_digest p = az_request_digest d \<and> pm_valid_epoch p = az_decision_epoch d"
  using assms unfolding mint_execution_permit_def rbind_eq_Inr checked_Inr Let_def decision_assert_allows_def if_Inl_eq_Inr
  by auto

text \<open>
  C8. A permit is a native \<open>ALLOW\<close>: when a decision is issued for a request and a permit minted from it, the
  proof bundle is bound to that request, no obligation of the proof failed and native enforcement says
  \<open>ALLOW\<close>; the permit names the digest, the operation and the epoch of the request and the scope of its
  subject, and the adapter's grant permits the reported action in that epoch.
\<close>

theorem permit_is_native_allow:
  assumes "issue_authorization_decision hash grant evidence basis mir request pb bound dkey = Inr d"
    and "mint_execution_permit hash grant evidence d rkey dkey' = Inr p"
  shows "bound_assert_sealed hash bound mir request pb = Inr () \<and> failed_obligations pb = []
    \<and> (\<exists>n. native_decision hash mir request pb = Inr n \<and> ed_decision n = ''ALLOW'')
    \<and> pm_request_digest p = rq_digest request \<and> pm_operation p = rq_operation request \<and> pm_valid_epoch p = rq_epoch request
    \<and> canonical_subject_scope_digest hash request = Inr (pm_subject_scope_digest p)
    \<and> adapter_permits hash grant (strip (xe_action evidence)) (rq_epoch request) = Inr True"
proof -
  note d = issue_decision_Inr [OF assms(1)] and p = mint_Inr [OF assms(2)]
  have "failed_obligations pb = []"
    using d p verdict_outcome by auto
  moreover have "evidence_assert_sealed hash evidence grant = Inr () \<and> xe_observed_epoch evidence = az_decision_epoch d"
    using d unfolding decision_authenticated_Inr by simp
  ultimately show ?thesis
    using d p native_decision_eq by (auto simp: decision_of_def Let_def verdict_def evidence_Inr)
qed

lemma derive_basis_ok:
  assumes "bound_assert_sealed hash bound mir request pb = Inr ()" "canonical_subject_scope_digest hash request = Inr scope"
  obtains basis where "derive_canonical_authority_basis hash mir request pb bound = Inr basis"
    and "basis_assert_sealed hash basis mir request pb bound = Inr (decision_of hash mir pb (rq_effect_id request))"
    and "cb_subject_scope_digest basis = scope"
proof -
  have sealed: "request_assert_sealed hash request mir = Inr ()" "mir_assert_sealed hash mir = Inr ()"
    using bound_assert_sealed_Inr(1) [OF assms(1)] by (simp_all add: request_assert_sealed_eq)
  have "is_ok (derive_canonical_authority_basis hash mir request pb bound)"
    by (simp add: derive_canonical_authority_basis_def basis_assert_sealed_def sealed assms native_decision_eq [OF assms(1)])
  then obtain basis n where b: "derive_canonical_authority_basis hash mir request pb bound = Inr basis"
      "basis_assert_sealed hash basis mir request pb bound = Inr n"
    by (auto simp: is_ok_iff derive_canonical_authority_basis_def rbind_eq_Inr Let_def)
  then show ?thesis
    using that basis_Inr [OF b(2)] assms(2) by simp
qed

lemma issue_grant_Inr:
  assumes "issue_external_adapter_grant hash provider consumer scope acts start expiry = Inr g"
  shows "adapter_grant_assert_sealed hash g = Inr () \<and> strip (xg_consumer_id g) = xg_consumer_id g
    \<and> xg_subject_scope_digest g = map lower_char scope"
  using assms unfolding issue_external_adapter_grant_def rbind_eq_Inr checked_Inr Let_def if_Inl_eq_Inr by auto

lemma admit_evidence_Inr:
  assumes "admit_external_adapter_evidence hash g action ext epoch = Inr e"
  shows "evidence_assert_sealed hash e g = Inr () \<and> xe_observed_epoch e = epoch"
  using assms unfolding admit_external_adapter_evidence_def rbind_eq_Inr checked_Inr Let_def if_Inl_eq_Inr by auto

lemma digests_good:
  assumes "good_hash hash"
  shows "canonical_subject_scope_digest hash request = Inr scope \<Longrightarrow> good_digest scope"
    and "evidence_assert_sealed hash evidence grant = Inr () \<Longrightarrow> good_digest (xe_evidence_digest evidence)"
    and "request_assert_sealed hash request mir = Inr () \<Longrightarrow> good_digest (rq_digest request)"
    and "request_assert_sealed hash request mir = Inr () \<Longrightarrow> good_digest (mir_fingerprint mir)"
    and "good_digest (basis_digest hash request bound n mir pb scope)"
proof -
  note good = good_digest_of [OF assms]
  show "canonical_subject_scope_digest hash request = Inr scope \<Longrightarrow> good_digest scope"
    using good by (auto simp: canonical_subject_scope_digest_def split: if_splits)
  show "evidence_assert_sealed hash evidence grant = Inr () \<Longrightarrow> good_digest (xe_evidence_digest evidence)"
    using good by (simp add: evidence_Inr adapter_seal_def)
  show "request_assert_sealed hash request mir = Inr () \<Longrightarrow> good_digest (rq_digest request)"
    using good by (metis request_assert_sealed_eq request_digest_of_Inr)
  show "request_assert_sealed hash request mir = Inr () \<Longrightarrow> good_digest (mir_fingerprint mir)"
    using good by (auto simp: request_assert_sealed_eq mir_assert_sealed_def fingerprint_def split: if_splits)
  show "good_digest (basis_digest hash request bound n mir pb scope)"
    unfolding basis_digest_def by (rule good)
qed

lemma issue_decision_ok:
  assumes "good_hash hash" "basis_assert_sealed hash basis mir request pb bound = Inr n" "32 \<le> length dkey"
    and "evidence_assert_sealed hash evidence grant = Inr ()" "xe_observed_epoch evidence = rq_epoch request"
    and "xg_subject_scope_digest grant = cb_subject_scope_digest basis" "strip (xg_consumer_id grant) = xg_consumer_id grant"
    and "strip (rq_operation request) = rq_operation request"
  obtains d where "issue_authorization_decision hash grant evidence basis mir request pb bound dkey = Inr d"
proof -
  note basis = basis_Inr [OF assms(2)]
  then have req: "request_assert_sealed hash request mir = Inr ()" using bound_assert_sealed_Inr(1) by blast
  have scope: "canonical_subject_scope_digest hash request = Inr (cb_subject_scope_digest basis)" using basis by blast
  obtain out where out: "map_of NATIVE_OUTCOME_MAP (ed_decision n) = Some out" "strip out = out" "out \<in> set OUTCOMES"
  proof -
    have "map_of NATIVE_OUTCOME_MAP (verdict f) \<in> Some ` set OUTCOMES" for f
      by (auto simp: NATIVE_OUTCOME_MAP_def verdict_def OUTCOMES_def)
    moreover have "\<forall>out \<in> set OUTCOMES. strip out = out" by code_simp
    ultimately show ?thesis
      using that basis by (auto simp: decision_of_def Let_def image_iff)
  qed
  have digests: "good_digest (xe_evidence_digest evidence)" "good_digest (cb_subject_scope_digest basis)" "good_digest (rq_digest request)"
      "good_digest (cb_basis_digest basis)" "good_digest (mir_fingerprint mir)"
    using digests_good(1) [OF assms(1) scope] basis digests_good(5) [OF assms(1)] digests_good(2) [OF assms(1,4)]
      digests_good(3,4) [OF assms(1) req] by simp_all
  have sealed: "adapter_grant_assert_sealed hash grant = Inr ()" "strip (xe_provider_id evidence) = xg_provider_id grant"
      "strip (xe_provider_id evidence) \<noteq> []" "0 \<le> xe_observed_epoch evidence"
    using assms(4) unfolding evidence_Inr by blast+
  have grant: "adapter_grant_assert_sealed hash grant = Inr ()" "strip (xg_provider_id grant) = xg_provider_id grant"
      "xg_provider_id grant \<noteq> []" "xg_consumer_id grant \<noteq> []" "0 \<le> rq_epoch request"
    using sealed assms(5,7) strip_strip [of "xe_provider_id evidence"] by (auto simp: adapter_grant_Inr)
  have op: "rq_operation request \<noteq> []" by (rule request_fields_nonempty [OF req])
  have policy: "checked_digest decision_error (mir_fingerprint mir) label = Inr (mir_fingerprint mir)" for label
    using digests(5) by (simp add: checked_Inr good_digest_def)
  let ?d = "\<lparr>az_evidence_digest = xe_evidence_digest evidence, az_provider_id = xg_provider_id grant,
      az_consumer_id = xg_consumer_id grant, az_subject_scope_digest = cb_subject_scope_digest basis,
      az_operation = cb_operation basis, az_request_digest = cb_canonical_request_digest basis,
      az_decision_epoch = cb_epoch basis, az_authority_basis_digest = cb_basis_digest basis,
      az_policy_digest = mir_fingerprint mir, az_outcome = out,
      az_decision_digest = hmac_hex hash dkey (decision_payload (xe_evidence_digest evidence) (xg_provider_id grant)
        (xg_consumer_id grant) (cb_subject_scope_digest basis) (cb_operation basis) (cb_canonical_request_digest basis)
        (cb_epoch basis) (cb_basis_digest basis) (mir_fingerprint mir) out),
      az_version = 1\<rparr>"
  have fields: "cb_canonical_request_digest basis = rq_digest request" "cb_operation basis = rq_operation request"
      "cb_epoch basis = rq_epoch request"
    using basis by blast+
  have outcome: "out \<noteq> []" using out(3) by (auto simp: OUTCOMES_def)
  have auth: "decision_assert_authenticated hash ?d dkey grant evidence = Inr ()"
    unfolding decision_authenticated_Inr
    using digests grant op outcome out(2,3) assms(3-8) good_hmac [OF assms(1)] fields by (simp add: good_digest_def authentic_Inr)
  have "issue_authorization_decision hash grant evidence basis mir request pb bound dkey = Inr ?d"
    unfolding issue_authorization_decision_def
    using auth assms(2,4-6) out(1) grant(1) fields policy by (simp add: checked_good(4) [OF assms(3)])
  then show ?thesis by (rule that)
qed

lemma mint_ok:
  assumes "good_hash hash" "decision_assert_authenticated hash d dkey grant evidence = Inr ()" "az_outcome d = ''allow''"
    and "32 \<le> length rkey" "az_evidence_digest d = xe_evidence_digest evidence" "az_provider_id d = xg_provider_id grant"
    and "az_consumer_id d = xg_consumer_id grant" "az_subject_scope_digest d = xg_subject_scope_digest grant"
    and "strip (az_operation d) = az_operation d" "map lower_char (az_request_digest d) = az_request_digest d"
  obtains p where "mint_execution_permit hash grant evidence d rkey dkey = Inr p"
    and "pm_permit_digest p = hmac_hex hash rkey (permit_payload (az_decision_digest d) (xe_evidence_digest evidence)
         (xg_provider_id grant) (xg_consumer_id grant) (xg_subject_scope_digest grant) (az_operation d)
         (az_request_digest d) (az_decision_epoch d))"
proof -
  note d = assms(2) [unfolded decision_authenticated_Inr]
  then have "good_digest (az_decision_digest d)" using good_hmac [OF assms(1)] by (simp add: authentic_Inr)
  moreover have "adapter_grant_assert_sealed hash grant = Inr ()" using decision_authenticated_sealed [OF assms(2)] by blast
  moreover have "strip (xg_provider_id grant) = xg_provider_id grant" "strip (xg_consumer_id grant) = xg_consumer_id grant"
      "map lower_char (xe_evidence_digest evidence) = xe_evidence_digest evidence"
      "map lower_char (xg_subject_scope_digest grant) = xg_subject_scope_digest grant"
    using d assms(5-8) by simp_all
  ultimately have "is_ok (mint_execution_permit hash grant evidence d rkey dkey)"
    using assms d good_hmac [OF assms(1)]
    by (simp add: mint_execution_permit_def checked_key_def decision_assert_allows_def permit_authenticated_Inr good_digest_def authentic_Inr Let_def is_ok_iff
        rbind_eq_Inr)
  then obtain p where p: "mint_execution_permit hash grant evidence d rkey dkey = Inr p" by (auto simp: is_ok_iff)
  then show ?thesis
    by (rule that) (use p in \<open>auto simp: mint_execution_permit_def rbind_eq_Inr checked_Inr Let_def\<close>)
qed

lemma consume_receipt_ok:
  assumes "good_hash hash" "32 \<le> length rkey" "good_digest (pm_permit_digest p)" "good_digest (pm_authorization_decision_digest p)"
    and "good_digest (pm_evidence_digest p)" "good_digest (pm_request_digest p)" "strip (pm_operation p) = pm_operation p"
    and "pm_operation p \<noteq> []" "0 \<le> pm_valid_epoch p"
  obtains r where "consume_receipt hash p rkey = Inr r"
proof -
  have "is_ok (consume_receipt hash p rkey)"
    using assms(3-9)
    by (simp add: consume_receipt_def consumption_assert_authenticated_def checked_good(4) [OF assms(2)] checked_good Let_def authentic_hmac [OF assms(1)])
  then show ?thesis using that by (auto simp: is_ok_iff)
qed

lemma native_allow_permit:
  assumes "good_hash hash" "bound_assert_sealed hash bound mir request pb = Inr ()" "failed_obligations pb = []"
    and "canonical_subject_scope_digest hash request = Inr scope"
    and "issue_external_adapter_grant hash provider consumer scope acts start expiry = Inr grant"
    and "admit_external_adapter_evidence hash grant action ext (rq_epoch request) = Inr evidence"
    and "32 \<le> length dkey" "32 \<le> length rkey" "strip (rq_operation request) = rq_operation request"
  shows "\<exists>basis d p r. derive_canonical_authority_basis hash mir request pb bound = Inr basis
    \<and> issue_authorization_decision hash grant evidence basis mir request pb bound dkey = Inr d
    \<and> mint_execution_permit hash grant evidence d rkey dkey = Inr p
    \<and> is_live_for p (rq_epoch request) (rq_digest request) (rq_operation request) = Inr True
    \<and> (\<forall>consumed. consume hash p rkey dkey grant evidence d (rq_epoch request) (rq_digest request) (rq_operation request) consumed
        = (if pm_permit_digest p \<in> consumed then (raise permit_error ''execution permit replay detected'', consumed)
           else (Inr r, insert (pm_permit_digest p) consumed)))"
proof -
  have grant: "strip (xg_consumer_id grant) = xg_consumer_id grant" and lower: "xg_subject_scope_digest grant = map lower_char scope"
    using issue_grant_Inr [OF assms(5)] by blast+
  have evidence: "evidence_assert_sealed hash evidence grant = Inr ()" "xe_observed_epoch evidence = rq_epoch request"
    using admit_evidence_Inr [OF assms(6)] by blast+
  have req: "request_assert_sealed hash request mir = Inr ()" by (rule bound_assert_sealed_Inr(1) [OF assms(2)])
  have scope: "xg_subject_scope_digest grant = scope"
    using lower digests_good(1) [OF assms(1,4)] by (simp add: good_digest_def)
  obtain basis where basis: "derive_canonical_authority_basis hash mir request pb bound = Inr basis"
      "basis_assert_sealed hash basis mir request pb bound = Inr (decision_of hash mir pb (rq_effect_id request))"
      "cb_subject_scope_digest basis = scope"
    by (rule derive_basis_ok [OF assms(2,4)])
  obtain d where d: "issue_authorization_decision hash grant evidence basis mir request pb bound dkey = Inr d"
    by (rule issue_decision_ok [OF assms(1) basis(2) assms(7)]) (use grant evidence scope basis(3) assms(9) in simp_all)
  note di = issue_decision_Inr [OF d]
  have allow: "az_outcome d = ''allow''" using di assms(3) by (auto simp: verdict_def NATIVE_OUTCOME_MAP_def)
  have good_request: "good_digest (rq_digest request)" by (rule digests_good(3) [OF assms(1) req])
  obtain p where p: "mint_execution_permit hash grant evidence d rkey dkey = Inr p"
      "pm_permit_digest p = hmac_hex hash rkey (permit_payload (az_decision_digest d) (xe_evidence_digest evidence)
         (xg_provider_id grant) (xg_consumer_id grant) (xg_subject_scope_digest grant) (az_operation d)
         (az_request_digest d) (az_decision_epoch d))"
    by (rule mint_ok [OF assms(1) _ allow assms(8), of dkey grant evidence]) (use di good_request assms(9) in \<open>simp_all add: good_digest_def\<close>)
  note pi = mint_Inr [OF p(1)]
  have "good_digest (az_decision_digest d)"
    using di good_hmac [OF assms(1)] unfolding decision_authenticated_Inr by (simp add: authentic_Inr)
  moreover have "pm_authorization_decision_digest p = az_decision_digest d" "pm_evidence_digest p = xe_evidence_digest evidence"
    and permit: "pm_operation p = rq_operation request" "pm_request_digest p = rq_digest request" "pm_valid_epoch p = rq_epoch request"
    using pi di by simp_all
  moreover have epoch: "0 \<le> rq_epoch request" using req by (simp add: request_assert_sealed_eq)
  ultimately obtain r where r: "consume_receipt hash p rkey = Inr r"
    using p(2) good_hmac(1) [OF assms(1)] good_request digests_good(2) [OF assms(1) evidence(1)] assms(9) request_fields_nonempty(3) [OF req]
    by (metis consume_receipt_ok [OF assms(1,8)])
  have live: "is_live_for p (rq_epoch request) (rq_digest request) (rq_operation request) = Inr True"
    using good_request assms(9) request_fields_nonempty(3) [OF req] epoch by (simp add: is_live_for_def checked_good permit)
  have "permit_assert_authenticated hash p rkey dkey grant evidence d = Inr ()" using pi by blast
  then have "consume hash p rkey dkey grant evidence d (rq_epoch request) (rq_digest request) (rq_operation request) consumed
      = (if pm_permit_digest p \<in> consumed then (raise permit_error ''execution permit replay detected'', consumed)
         else (Inr r, insert (pm_permit_digest p) consumed))" for consumed
    by (simp add: consume_def live r)
  then show ?thesis using basis(1) d p(1) live by blast
qed


end
