(* ===== verification/Durable_Safety.thy ===== *)
theory Durable_Safety
  imports Permit_Safety
begin

text \<open>
  What the durable store guarantees: it refines the ledger in memory, a permit is claimed at most once across restarts,
  claims are made under the current and active state only, and an effect runs only under a claim that was committed.
\<close>

section \<open>Operations on the committed database\<close>

abbreviation at_work :: "'db \<Rightarrow> 'db \<Rightarrow> 'db conn" where
  "at_work db w \<equiv> \<lparr>committed = db, working = Some w\<rparr>"

lemma validate_schema_error: "validate_schema db = Inl e \<Longrightarrow> exc_of e = durable_error"
proof -
  have "rfor (\<lambda>(table, required). if set required \<subseteq> set (table_columns db table) then Inr ()
      else raisef durable_error ''durable authorization schema for {} is incomplete'' [table]) ts = Inl e \<Longrightarrow> exc_of e = durable_error" for ts
    by (induction ts) (auto split: if_splits)
  then show "validate_schema db = Inl e \<Longrightarrow> exc_of e = durable_error"
    by (auto simp: validate_schema_def rbind_def split: option.splits if_splits sum.splits)
qed

definition outward :: "pyexc \<Rightarrow> pyexc" where
  "outward e = (if sqlite_error e then Raise durable_error ''durable authorization store operation failed'' [] else e)"

lemma store_transaction_run:
  assumes "body (at_work db db) = (r, at_work db w)"
  shows "store_transaction body db =
    (case validate_schema db of
       Inl e \<Rightarrow> (Inl e, db)
     | Inr _ \<Rightarrow> (case r of Inl e \<Rightarrow> (Inl (outward e), db) | Inr x \<Rightarrow> (Inr x, w)))"
proof -
  have "sqlite_error e \<Longrightarrow> exc_of e \<noteq> durable_error" for e by (auto simp: sqlite_error_def)
  then show ?thesis
    using assms validate_schema_error [of db]
    by (auto simp: store_transaction_def with_connection_def py_simps statement_simps on_failure_def rollback_if_open_def outward_def
        split: sum.splits)
qed

text \<open>The transaction of one statement, and of a check before it.\<close>

lemma store_write:
  "store_transaction (stry (exec_write f) (reraise_integrity m)) db =
    (case validate_schema db of
       Inl e \<Rightarrow> (Inl e, db)
     | Inr _ \<Rightarrow> (case f db of Inl e \<Rightarrow> (Inl (outward (if exc_of e = IntegrityError then Raise durable_error m [] else e)), db)
        | Inr w \<Rightarrow> (Inr (), w)))"
proof (cases "f db")
  case (Inl e)
  then have "stry (exec_write f) (reraise_integrity m) (at_work db db)
      = (Inl (if exc_of e = IntegrityError then Raise durable_error m [] else e), at_work db db)"
    by (simp add: py_simps statement_simps reraise_integrity_def)
  then show ?thesis by (subst store_transaction_run [of _ db _ db]) (auto simp: Inl split: sum.splits)
next
  case (Inr w)
  then have "stry (exec_write f) (reraise_integrity m) (at_work db db) = (Inr (), at_work db w)"
    by (simp add: py_simps statement_simps)
  then show ?thesis by (subst store_transaction_run [of _ db _ w]) (auto simp: Inr split: sum.splits)
qed

lemma store_check_write:
  "store_transaction (sthen (select q) (stry (exec_write f) (reraise_integrity m))) db =
    (case rbind (validate_schema db) (\<lambda>_. q db) of
       Inl e \<Rightarrow> (Inl (if is_ok (validate_schema db) then outward e else e), db)
     | Inr _ \<Rightarrow> (case f db of Inl e \<Rightarrow> (Inl (outward (if exc_of e = IntegrityError then Raise durable_error m [] else e)), db)
        | Inr w \<Rightarrow> (Inr (), w)))"
proof -
  let ?body = "sthen (select q) (stry (exec_write f) (reraise_integrity m))"
  obtain r w where rw: "?body (at_work db db) = (r, at_work db w)"
    and r: "(case q db of Inl e \<Rightarrow> r = Inl e \<and> w = db | Inr _ \<Rightarrow> (case f db of
        Inl e \<Rightarrow> r = Inl (if exc_of e = IntegrityError then Raise durable_error m [] else e) \<and> w = db | Inr v \<Rightarrow> r = Inr () \<and> w = v))"
    by (cases "q db"; cases "f db") (auto simp: py_simps statement_simps reraise_integrity_def)
  show ?thesis
    unfolding store_transaction_run [of ?body db r w, OF rw] using r
    by (cases "validate_schema db"; cases "q db"; cases "f db") auto
qed

section \<open>The ledger that the store holds\<close>

definition heads_of :: "store_db \<Rightarrow> ledger" where
  "heads_of db subject = map_option hr_state_digest (head_of subject db)"

definition store_ok :: "store_db \<Rightarrow> bool" where
  "store_ok db \<longleftrightarrow> distinct (map hr_subject (sd_heads db)) \<and> distinct (map xr_permit_digest (sd_claims db))"

lemma register_store:
  "store_register_initial hash s db = (Inr (), db') \<longleftrightarrow>
     sealed_state hash s \<and> as_previous_state_digest s = None \<and> as_status s = ''active'' \<and> validate_schema db = Inr ()
   \<and> insert_head (head_row_of s) db = Inr db'"
  unfolding state_assert_sealed_Inr [of hash s "()", symmetric]
  by (auto simp: store_register_initial_def py_simps store_write split: sum.splits)

lemma insert_head_Inr:
  "insert_head r db = Inr db' \<Longrightarrow> head_of (hr_subject r) db = None \<and> db' = db\<lparr>sd_heads := sd_heads db @ [r]\<rparr>"
  by (auto simp: insert_head_def rbind_eq_Inr insert_row_Inr head_of_def find_None_iff)

lemma store_head_append: "head_of subject (db\<lparr>sd_heads := sd_heads db @ [r]\<rparr>) =
    (case head_of subject db of Some q \<Rightarrow> Some q | None \<Rightarrow> if hr_subject r = subject then Some r else None)"
  by (simp add: head_of_def find_append split: option.splits)

lemma find_map: "find P (map g xs) = map_option g (find (\<lambda>x. P (g x)) xs)"
  by (induction xs) auto

lemma commit_store:
  assumes "store_commit_transition hash p n t db = (r, db')"
  shows "case r of Inl e \<Rightarrow> db' = db
    | Inr _ \<Rightarrow> transition_checks hash p n t = Inr () \<and> validate_schema db = Inr ()
      \<and> (\<exists>row. require_head (as_subject p) (as_state_digest p) db = Inr row)
      \<and> (\<exists>d1. update_heads (as_subject p) (as_state_digest p) n db = Inr d1 \<and> insert_transition (transition_row_of p n t) d1 = Inr db')"
proof (cases "transition_checks hash p n t")
  case (Inr u)
  let ?body = "sbind (select (require_head (as_subject p) (as_state_digest p))) (\<lambda>_.
       sbind (select (\<lambda>db. Inr (length (filter (head_matches (as_subject p) (as_state_digest p)) (sd_heads db))))) (\<lambda>changed.
       sthen (exec_write (update_heads (as_subject p) (as_state_digest p) n)) (
       if changed \<noteq> 1 then sthrow (Raise durable_error ''authorization state compare-and-swap failed'' [])
       else stry (exec_write (insert_transition (transition_row_of p n t))) (reraise_integrity ''authorization transition replay detected''))))"
  have commit: "store_commit_transition hash p n t db = store_transaction ?body db"
    using Inr by (simp add: store_commit_transition_def py_simps)
  obtain x w where xw: "?body (at_work db db) = (x, at_work db w)"
    and x: "is_ok x \<longrightarrow> (\<exists>row. require_head (as_subject p) (as_state_digest p) db = Inr row)
        \<and> (\<exists>d1. update_heads (as_subject p) (as_state_digest p) n db = Inr d1 \<and> insert_transition (transition_row_of p n t) d1 = Inr w)"
  proof -
    note run = py_simps statement_simps reraise_integrity_def
    show ?thesis
    proof (cases "require_head (as_subject p) (as_state_digest p) db")
      case (Inl e)
      show ?thesis by (rule that [of "Inl e" db]) (simp_all add: run Inl)
    next
      case row: (Inr row)
      show ?thesis
      proof (cases "update_heads (as_subject p) (as_state_digest p) n db")
        case (Inl e)
        show ?thesis by (rule that [of "Inl e" db]) (simp_all add: run row Inl)
      next
        case d1: (Inr d1)
        show ?thesis
        proof (cases "length (filter (head_matches (as_subject p) (as_state_digest p)) (sd_heads db)) = 1")
          case False
          show ?thesis
            by (rule that [of "raise durable_error ''authorization state compare-and-swap failed''" d1])
              (use False in \<open>simp_all add: run row d1\<close>)
        next
          case one: True
          show ?thesis
          proof (cases "insert_transition (transition_row_of p n t) d1")
            case (Inl e)
            show ?thesis
              by (rule that [of "Inl (if exc_of e = IntegrityError then Raise durable_error ''authorization transition replay detected'' [] else e)" d1])
                (use one in \<open>simp_all add: run row d1 Inl\<close>)
          next
            case (Inr w)
            show ?thesis by (rule that [of "Inr ()" w]) (use one in \<open>simp_all add: run row d1 Inr\<close>)
          qed
        qed
      qed
    qed
  qed
  show ?thesis
    using assms x Inr unfolding commit store_transaction_run [of ?body db x w, OF xw]
    by (auto split: sum.splits)
next
  case (Inl e)
  then have "r = Inl e" "db' = db" using assms by (simp_all add: store_commit_transition_def py_simps)
  then show ?thesis by simp
qed

lemma require_head_Inr:
  "require_head subject digest db = Inr row \<longleftrightarrow> head_of subject db = Some row \<and> hr_state_digest row = digest"
  by (auto simp: require_head_def split: option.splits)

lemma update_heads_Inr:
  assumes "update_heads subject digest n db = Inr d1"
  shows "head_of s d1 = map_option (\<lambda>r. if head_matches subject digest r then (head_row_of n)\<lparr>hr_subject := hr_subject r\<rparr> else r) (head_of s db)
    \<and> map hr_subject (sd_heads d1) = map hr_subject (sd_heads db) \<and> sd_claims d1 = sd_claims db
    \<and> sd_metadata d1 = sd_metadata db \<and> sd_columns d1 = sd_columns db \<and> sd_executable d1 = sd_executable db"
proof -
  have "(hr_subject (if head_matches subject digest r then (head_row_of n)\<lparr>hr_subject := hr_subject r\<rparr> else r)) = hr_subject r" for r
    by simp
  then show ?thesis
    using assms by (auto simp: update_heads_def rbind_eq_Inr head_of_def find_map)
qed

lemma insert_transition_Inr:
  "insert_transition r db = Inr db' \<Longrightarrow> sd_heads db' = sd_heads db \<and> sd_claims db' = sd_claims db"
  by (auto simp: insert_transition_def rbind_eq_Inr)

lemma transition_checks_Inr:
  "transition_checks hash p n t = Inr u \<longleftrightarrow>
     sealed_state hash p \<and> sealed_state hash n \<and> transition_digest hash t = at_transition_digest t \<and> as_subject n = as_subject p
   \<and> as_previous_state_digest n = Some (as_state_digest p) \<and> at_previous_state_digest t = as_state_digest p
   \<and> at_next_state_digest t = as_state_digest n \<and> at_epoch t = as_epoch n"
  by (auto simp: transition_checks_def rbind_eq_Inr state_assert_sealed_Inr assert_transition_sealed_def)

lemma claim_store:
  assumes "claim_execution hash x db = (r, db')"
  shows "case r of Inl e \<Rightarrow> db' = db
    | Inr (snapshot, receipt) \<Rightarrow> claim_checks hash x = Inr (snapshot, receipt) \<and> validate_schema db = Inr ()
      \<and> require_active_head (xo_state x) db = Inr () \<and> insert_claim_row (claim_row_of (xo_state x) receipt) db = Inr db'"
  using assms
  by (auto simp: claim_execution_def py_simps store_check_write rbind_def split: sum.splits prod.splits)

section \<open>Refinement\<close>

lemma register_refines:
  assumes "store_register_initial hash s db = (Inr (), db')"
  shows "register_initial hash s (heads_of db) = Inr (heads_of db')"
    and "store_ok db \<Longrightarrow> store_ok db'" "sd_claims db' = sd_claims db"
    and "head_of subject db' = (if subject = as_subject s then Some (head_row_of s) else head_of subject db)"
proof -
  note r = assms [unfolded register_store]
  have subject: "hr_subject (head_row_of s) = as_subject s" by (simp add: head_row_of_def)
  then have new: "head_of (as_subject s) db = None" "db' = db\<lparr>sd_heads := sd_heads db @ [head_row_of s]\<rparr>"
    using insert_head_Inr [of "head_row_of s" db db'] r subject by metis+
  then show head: "head_of subject db' = (if subject = as_subject s then Some (head_row_of s) else head_of subject db)" for subject
    by (auto simp: store_head_append head_row_of_def split: option.splits)
  show "register_initial hash s (heads_of db) = Inr (heads_of db')"
    using r new(1) unfolding register_initial_Inr by (auto simp: heads_of_def head head_row_of_def fun_eq_iff)
  show "store_ok db \<Longrightarrow> store_ok db'" "sd_claims db' = sd_claims db"
    using new by (auto simp: store_ok_def head_of_def find_None_iff head_row_of_def)
qed

lemma commit_refines:
  assumes "store_commit_transition hash p n t db = (Inr (), db')"
  shows "commit_transition hash p n t (heads_of db) = Inr (heads_of db')"
    and "store_ok db \<Longrightarrow> store_ok db'" "sd_claims db' = sd_claims db"
    and "head_of subject db' = (if subject = as_subject n then Some (head_row_of n) else head_of subject db)"
proof -
  obtain row d1 where c: "transition_checks hash p n t = Inr ()" "head_of (as_subject p) db = Some row" "hr_state_digest row = as_state_digest p"
      "update_heads (as_subject p) (as_state_digest p) n db = Inr d1" "insert_transition (transition_row_of p n t) d1 = Inr db'"
    using commit_store [OF assms] by (auto simp: require_head_Inr)
  note checks = c(1) [unfolded transition_checks_Inr] and up = update_heads_Inr [OF c(4)] and tr = insert_transition_Inr [OF c(5)]
  have subject: "head_of s db = Some r \<Longrightarrow> hr_subject r = s" for s r
    by (auto simp: head_of_def find_Some_iff)
  have "head_of s db' = head_of s d1" for s using tr by (simp add: head_of_def)
  then show head: "head_of subject db' = (if subject = as_subject n then Some (head_row_of n) else head_of subject db)" for subject
    using up [of subject] c(2,3) checks subject
    by (cases "head_of subject db") (auto simp: head_matches_def head_row_of_def)
  show "commit_transition hash p n t (heads_of db) = Inr (heads_of db')"
    using checks c(2,3) unfolding commit_transition_Inr ledger_assert_current_Inr
    by (auto simp: heads_of_def head head_row_of_def fun_eq_iff)
  show "store_ok db \<Longrightarrow> store_ok db'" "sd_claims db' = sd_claims db"
    using up tr by (simp_all add: store_ok_def)
qed

lemma claim_checks_snapshot:
  "claim_checks hash x = Inr (snapshot, receipt) \<Longrightarrow>
    snapshot_for_execution hash (xo_state x) (xo_chain x) (xo_current_epoch x) = Inr snapshot
    \<and> dr_permit_digest receipt = pm_permit_digest (xo_permit x)"
  by (auto simp: claim_checks_def rbind_eq_Inr Let_def durable_receipt_of_def split: if_splits)

lemma claim_refines:
  assumes "claim_execution hash x db = (Inr (snapshot, receipt), db')"
  shows "ledger_snapshot hash (xo_state x) (xo_chain x) (xo_current_epoch x) (heads_of db) = Inr snapshot"
    and "heads_of db' = heads_of db" "store_ok db \<Longrightarrow> store_ok db'" "head_of subject db' = head_of subject db"
    and "map xr_permit_digest (sd_claims db') = map xr_permit_digest (sd_claims db) @ [pm_permit_digest (xo_permit x)]"
    and "pm_permit_digest (xo_permit x) \<notin> xr_permit_digest ` set (sd_claims db)"
    and "\<exists>row. head_of (as_subject (xo_state x)) db = Some row \<and> hr_state_digest row = as_state_digest (xo_state x) \<and> hr_state_status row = ''active''"
proof -
  have c: "claim_checks hash x = Inr (snapshot, receipt)" "require_active_head (xo_state x) db = Inr ()"
      "insert_claim_row (claim_row_of (xo_state x) receipt) db = Inr db'"
    using claim_store [OF assms] by simp_all
  obtain row where row: "head_of (as_subject (xo_state x)) db = Some row" "hr_state_digest row = as_state_digest (xo_state x)"
      "hr_state_status row = ''active''"
    using c(2) by (auto simp: require_active_head_def rbind_eq_Inr require_head_Inr split: if_splits)
  note snap = claim_checks_snapshot [OF c(1)]
  show "ledger_snapshot hash (xo_state x) (xo_chain x) (xo_current_epoch x) (heads_of db) = Inr snapshot"
    using snap row unfolding ledger_snapshot_Inr by (simp add: heads_of_def)
  have db': "db' = db\<lparr>sd_claims := sd_claims db @ [claim_row_of (xo_state x) receipt]\<rparr>"
    and new: "\<forall>q \<in> set (sd_claims db). xr_permit_digest q \<noteq> pm_permit_digest (xo_permit x)"
    using c(3) snap by (auto simp: insert_claim_row_def rbind_eq_Inr insert_row_Inr claim_row_of_def)
  show "heads_of db' = heads_of db" "head_of subject db' = head_of subject db"
    by (simp_all add: db' heads_of_def head_of_def fun_eq_iff)
  show "map xr_permit_digest (sd_claims db') = map xr_permit_digest (sd_claims db) @ [pm_permit_digest (xo_permit x)]"
    using snap by (simp add: db' claim_row_of_def)
  show "store_ok db \<Longrightarrow> store_ok db'" "pm_permit_digest (xo_permit x) \<notin> xr_permit_digest ` set (sd_claims db)"
    using new snap by (auto simp: db' store_ok_def claim_row_of_def)
  show "\<exists>row. head_of (as_subject (xo_state x)) db = Some row \<and> hr_state_digest row = as_state_digest (xo_state x) \<and> hr_state_status row = ''active''"
    using row by blast
qed

text \<open>
  C7. The durable store refines the ledger in memory. Read as a ledger (the state digest of each subject's head), every
  operation of the store that succeeds is the operation of the ledger: registering, committing a transition, and a
  claim gives out the snapshot that the ledger gives out and leaves the heads as they are. An operation that raises
  leaves the database as it was.
\<close>

theorem durable_store_refines_ledger:
  "(store_register_initial hash s db = (Inr (), db') \<longrightarrow> register_initial hash s (heads_of db) = Inr (heads_of db'))
   \<and> (store_commit_transition hash p n t db = (Inr (), db') \<longrightarrow> commit_transition hash p n t (heads_of db) = Inr (heads_of db'))
   \<and> (claim_execution hash x db = (Inr (snapshot, receipt), db') \<longrightarrow> heads_of db' = heads_of db
       \<and> ledger_snapshot hash (xo_state x) (xo_chain x) (xo_current_epoch x) (heads_of db) = Inr snapshot)
   \<and> (store_register_initial hash s db = (Inl e, db') \<or> store_commit_transition hash p n t db = (Inl e, db')
       \<or> claim_execution hash x db = (Inl e, db') \<longrightarrow> db' = db)"
proof -
  have "store_register_initial hash s db = (Inl e, db') \<Longrightarrow> db' = db"
    by (auto simp: store_register_initial_def py_simps store_write split: sum.splits if_splits)
  moreover have "store_commit_transition hash p n t db = (Inl e, db') \<Longrightarrow> db' = db" "claim_execution hash x db = (Inl e, db') \<Longrightarrow> db' = db"
    using commit_store [of hash p n t db "Inl e" db'] claim_store [of hash x db "Inl e" db'] by simp_all
  ultimately show ?thesis
    by (auto dest: register_refines(1) commit_refines(1) claim_refines(1,2))
qed

section \<open>Histories\<close>

text \<open>
  A store through its life: the heads it had, by subject, the newest first, and the orders that were claimed, the newest
  first. The process may end at any point and another one open the file: the state is the committed database.
\<close>

inductive store_run ::
  "(string \<Rightarrow> string) \<Rightarrow> store_db \<Rightarrow> (string \<Rightarrow> authorization_state list) \<Rightarrow> execution_order list \<Rightarrow> bool" for hash where
  created: "store_initialize new_file = (Inr (), db) \<Longrightarrow> store_run hash db (\<lambda>_. []) []"
| restarted: "store_run hash db past claims \<Longrightarrow> store_initialize db = (Inr (), db') \<Longrightarrow> store_run hash db' past claims"
| head_registered: "store_run hash db past claims \<Longrightarrow> store_register_initial hash s db = (Inr (), db')
    \<Longrightarrow> store_run hash db' (past(as_subject s := s # past (as_subject s))) claims"
| head_moved: "store_run hash db past claims \<Longrightarrow> store_commit_transition hash p n t db = (Inr (), db')
    \<Longrightarrow> store_run hash db' (past(as_subject n := n # past (as_subject n))) claims"
| claimed: "store_run hash db past claims \<Longrightarrow> claim_execution hash x db = (Inr r, db') \<Longrightarrow> store_run hash db' past (x # claims)"

lemma initialize_rows:
  assumes "store_initialize db = (Inr (), db')"
  shows "sd_heads db' = sd_heads db \<and> sd_claims db' = sd_claims db"
proof -
  have tables: "sd_heads (fold create_table ts d) = sd_heads d \<and> sd_claims (fold create_table ts d) = sd_claims d" for ts d
    by (induction ts arbitrary: d) (auto simp: create_table_def)
  have meta: "sd_heads (create_metadata d) = sd_heads d" "sd_claims (create_metadata d) = sd_claims d"
      "sd_heads (insert_version d) = sd_heads d" "sd_claims (insert_version d) = sd_claims d" for d
    by (simp_all add: create_metadata_def insert_version_def)
  show ?thesis
    using assms
    by (auto simp: store_initialize_def with_connection_def py_simps statement_simps on_failure_def rollback_if_open_def
        tables meta split: prod.splits sum.splits option.splits if_splits)
qed

lemma store_run_ok:
  assumes "store_run hash db past claims"
  shows "ledger_run hash (heads_of db) past \<and> store_ok db
    \<and> map xr_permit_digest (sd_claims db) = rev (map (\<lambda>x. pm_permit_digest (xo_permit x)) claims)
    \<and> (\<forall>subject. head_of subject db = (case past subject of [] \<Rightarrow> None | s # _ \<Rightarrow> Some (head_row_of s)))"
  using assms
proof (induction rule: store_run.induct)
  case (created db)
  have "heads_of db = Map.empty" "sd_heads db = []" "sd_claims db = []"
    using initialize_rows [OF created] by (simp_all add: new_file_def heads_of_def head_of_def fun_eq_iff)
  then show ?case by (simp add: store_ok_def head_of_def ledger_run.fresh)
next
  case (restarted db past claims db')
  note rows = initialize_rows [OF restarted.hyps(2)]
  then have "head_of subject db' = head_of subject db" for subject by (simp add: head_of_def)
  moreover from this have "heads_of db' = heads_of db" by (simp add: heads_of_def fun_eq_iff)
  moreover have "store_ok db' = store_ok db" using rows by (simp add: store_ok_def)
  ultimately show ?case
    using restarted.IH rows by simp
next
  case (head_registered db past claims s db')
  note r = register_refines [OF head_registered.hyps(2)]
  show ?case
    using conjunct1 [OF head_registered.IH, THEN ledger_run.registered [OF _ r(1)]] head_registered.IH r by (auto simp del: fun_upd_apply) (simp_all add: fun_upd_apply)
next
  case (head_moved db past claims p n t db')
  note r = commit_refines [OF head_moved.hyps(2)]
  show ?case
    using conjunct1 [OF head_moved.IH, THEN ledger_run.committed_to [OF _ r(1)]] head_moved.IH r by (auto simp del: fun_upd_apply) (simp_all add: fun_upd_apply)
next
  case (claimed db past claims x r db')
  obtain snapshot receipt where "r = (snapshot, receipt)" by (cases r)
  then show ?case
    using claimed.IH claim_refines [OF claimed.hyps(2) [unfolded \<open>r = _\<close>]] by simp
qed

text \<open>
  C6. Through any history of the store, restarts included, no two claims are for one permit, and a permit that was
  claimed is never claimed again: the attempt raises and leaves the database as it is.
\<close>

theorem durable_claim_once:
  assumes "store_run hash db past claims"
  shows "distinct (map (\<lambda>x. pm_permit_digest (xo_permit x)) claims)
    \<and> (\<forall>y. pm_permit_digest (xo_permit y) \<in> (\<lambda>x. pm_permit_digest (xo_permit x)) ` set claims
        \<longrightarrow> (\<exists>e. claim_execution hash y db = (Inl e, db)))"
proof -
  have ok: "store_ok db" "map xr_permit_digest (sd_claims db) = rev (map (\<lambda>x. pm_permit_digest (xo_permit x)) claims)"
    using store_run_ok [OF assms] by simp_all
  have rows: "xr_permit_digest ` set (sd_claims db) = (\<lambda>x. pm_permit_digest (xo_permit x)) ` set claims"
    using arg_cong [OF ok(2), of set] by simp
  have "\<exists>e. claim_execution hash y db = (Inl e, db)" if "pm_permit_digest (xo_permit y) \<in> (\<lambda>x. pm_permit_digest (xo_permit x)) ` set claims" for y
  proof (cases "claim_execution hash y db")
    case (Pair r db')
    show ?thesis
    proof (cases r)
      case (Inl e)
      then show ?thesis using claim_store [OF Pair] Pair by simp
    next
      case (Inr z)
      obtain snapshot receipt where "z = (snapshot, receipt)" by (cases z)
      then show ?thesis
        using claim_refines(6) [of hash y db snapshot receipt db'] that Pair Inr by (simp add: rows)
    qed
  qed
  moreover have "distinct (map (\<lambda>x. pm_permit_digest (xo_permit x)) claims)"
    using ok by (metis distinct_rev store_ok_def)
  ultimately show ?thesis by blast
qed

text \<open>
  C5. A committed change of authority stops every claim under the state before it. Once the newest state of a subject is
  not active, nothing is claimed for that subject; and under a former state nothing is claimed either, unless two states of
  the history exhibit a collision of the hash. What is refused leaves the database as it is.
\<close>

theorem revocation_stops_claims:
  assumes "store_run hash db past claims" "past (as_subject (xo_state x)) = newest # older"
  shows "(as_status newest \<noteq> ''active'' \<longrightarrow> (\<exists>e. claim_execution hash x db = (Inl e, db)))
    \<and> (xo_state x \<in> set older \<longrightarrow> (\<exists>e. claim_execution hash x db = (Inl e, db))
        \<or> (\<exists>a \<in> set (newest # older). \<exists>b \<in> set (newest # older). collision hash (state_message hash a) (state_message hash b)))"
proof -
  let ?subject = "as_subject (xo_state x)"
  have run: "ledger_run hash (heads_of db) past" "head_of ?subject db = Some (head_row_of newest)"
    using store_run_ok [OF assms(1)] assms(2) by simp_all
  have former: "history hash ?subject (newest # older) (heads_of db ?subject)"
    using ledger_run_history [OF run(1), of ?subject] assms(2) by simp
  have "\<exists>e. claim_execution hash x db = (Inl e, db)"
    if "as_status newest \<noteq> ''active'' \<or> heads_of db ?subject \<noteq> Some (as_state_digest (xo_state x))"
  proof (cases "claim_execution hash x db")
    case (Pair r db')
    show ?thesis
    proof (cases r)
      case (Inl e)
      then show ?thesis using claim_store [OF Pair] Pair by simp
    next
      case (Inr z)
      obtain snapshot receipt where "z = (snapshot, receipt)" by (cases z)
      then have "claim_execution hash x db = (Inr (snapshot, receipt), db')" using Pair Inr by simp
      from claim_refines(7) [OF this] show ?thesis
        using that run(2) by (auto simp: head_row_of_def heads_of_def)
    qed
  qed
  then show ?thesis
    using history_no_return [OF former, of "xo_state x"] by (auto simp: states_collide_def)
qed

section \<open>Effects\<close>

lemma measured_effect_run:
  "measured_effect hash label effect request w =
     (case effect request w of
        (Inl e, w') \<Rightarrow> (Inr (None, measurement_for_failure hash label e, ''effect-failed''), w')
      | (Inr b, w') \<Rightarrow> (Inr (Some b, measurement_for_result hash b, ''effect-completed''), w'))"
  by (auto simp: measured_effect_def py_simps split: sum.splits prod.splits)

text \<open>One execution: the effect has run, once, or the world is as it was and the call has raised.\<close>

lemma execute_with_receipt_run:
  assumes "execute_effect_with_receipt hash label permit rkey dkey ekey grant evidence decision mir request epoch effect (consumed, w) = (r, (consumed', w'))"
  obtains (refused) e where "r = Inl e" "w' = w"
  | (run) c key where "execution_checks hash permit ekey mir request = Inr key"
      "consume hash permit rkey dkey grant evidence decision epoch (rq_digest request) (rq_operation request) consumed = (Inr c, consumed')"
      "w' = snd (effect request w)"
      "\<And>c' receipt result. r = Inr (c', receipt, result) \<Longrightarrow> c' = c
        \<and> effect_receipt_assert_authenticated hash receipt ekey c permit mir request = Inr ()
        \<and> (case fst (effect request w) of
             Inl e \<Rightarrow> result = None \<and> er_outcome receipt = ''effect-failed'' \<and> er_measurement_digest receipt = measurement_for_failure hash label e
           | Inr b \<Rightarrow> result = Some b \<and> assert_completed_result hash receipt b = Inr ())"
proof (cases "execution_checks hash permit ekey mir request")
  case (Inl e)
  then show thesis using assms by (intro refused [of e]) (simp_all add: execute_effect_with_receipt_def py_simps)
next
  case key: (Inr key)
  then have "key = ekey" by (auto simp: execution_checks_def rbind_eq_Inr checked_Inr split: if_splits)
  obtain x l where x: "consume hash permit rkey dkey grant evidence decision epoch (rq_digest request) (rq_operation request) consumed = (x, l)"
    by (cases "consume hash permit rkey dkey grant evidence decision epoch (rq_digest request) (rq_operation request) consumed")
  show thesis
  proof (cases x)
    case (Inl e)
    then show thesis
      using assms key x by (intro refused [of e]) (simp_all add: execute_effect_with_receipt_def py_simps on_ledger_def)
  next
    case (Inr c)
    show thesis
    proof (rule run)
      show "execution_checks hash permit ekey mir request = Inr key" by (rule key)
      show "consume hash permit rkey dkey grant evidence decision epoch (rq_digest request) (rq_operation request) consumed = (Inr c, consumed')"
        "w' = snd (effect request w)"
        using assms key x Inr
        by (auto simp: execute_effect_with_receipt_def py_simps on_ledger_def on_world_def measured_effect_run Let_def
            split: sum.splits prod.splits)
      fix c' receipt result
      assume "r = Inr (c', receipt, result)"
      then show "c' = c \<and> effect_receipt_assert_authenticated hash receipt ekey c permit mir request = Inr ()
        \<and> (case fst (effect request w) of
             Inl e \<Rightarrow> result = None \<and> er_outcome receipt = ''effect-failed'' \<and> er_measurement_digest receipt = measurement_for_failure hash label e
           | Inr b \<Rightarrow> result = Some b \<and> assert_completed_result hash receipt b = Inr ())"
        using assms key x Inr \<open>key = ekey\<close>
        by (auto simp: execute_effect_with_receipt_def py_simps on_ledger_def on_world_def measured_effect_run Let_def
            assert_completed_result_def measured_receipt_def split: sum.splits prod.splits)
    qed
  qed
qed

lemma claim_checks_Inr:
  assumes "claim_checks hash x = Inr (snapshot, receipt)"
  shows "assert_effect_authorization_binding hash (xo_state x) (xo_intent x) (xo_grant x) (xo_mir x) (xo_request x) (xo_current_epoch x) = Inr ()"
    and "permit_assert_authenticated hash (xo_permit x) (xo_runtime_key x) (xo_decision_key x) (xo_grant x) (xo_evidence x) (xo_decision x) = Inr ()"
    and "is_live_for (xo_permit x) (xo_current_epoch x) (rq_digest (xo_request x)) (rq_operation (xo_request x)) = Inr True"
  using assms by (auto simp: claim_checks_def rbind_eq_Inr Let_def split: if_splits)

lemma binding_Inr:
  assumes "assert_effect_authorization_binding hash s intent grant mir request epoch = Inr ()"
  shows "request_assert_sealed hash request mir = Inr () \<and> epoch = rq_epoch request
    \<and> as_subject s = ''koschei:canonical-identity:v1:'' @ rq_identity_digest request
    \<and> ic_intent_digest intent = rq_digest request \<and> as_intent_commitment_digest s = intent_digest hash intent
    \<and> cs_resources (as_effective_constraints s) = [rq_subject request] \<and> cs_operations (as_effective_constraints s) = [rq_operation request]
    \<and> cs_arguments (as_effective_constraints s) = [rq_request_digest request] \<and> cs_audience (as_effective_constraints s) = [xg_consumer_id grant]
    \<and> cs_delegation_depth (as_effective_constraints s) = 0 \<and> \<not> cs_redelegation (as_effective_constraints s)"
  using assms
  by (auto simp: assert_effect_authorization_binding_def rbind_eq_Inr canonical_execution_principal_def assert_exact_effect_constraints_def
      Let_def match_fields_Inr split: if_splits)

lemma execution_checks_Inr:
  "execution_checks hash permit ekey mir request = Inr key \<Longrightarrow>
     pm_request_digest permit = rq_digest request \<and> pm_operation permit = rq_operation request \<and> pm_valid_epoch permit = rq_epoch request"
  by (auto simp: execution_checks_def rbind_eq_Inr split: if_splits)

lemma durable_execution_run:
  assumes "execute_effect_with_durable_authorization hash label x effect (db, w) = (r, (db', w'))"
  obtains (refused) e where "r = Inl e" "w' = w"
  | (run) snapshot claim key where "claim_execution hash x db = (Inr (snapshot, claim), db')"
      "execution_checks hash (xo_permit x) (xo_effect_key x) (xo_mir x) (xo_request x) = Inr key"
      "w' = snd (effect (xo_request x) w)"
proof (cases "checked_key DurableEffectExecutionV1Error (xo_effect_key x) ''effect_key''")
  case (Inl e)
  then show thesis
    using assms by (intro refused [of e]) (simp_all add: execute_effect_with_durable_authorization_def py_simps)
next
  case key: (Inr k)
  obtain c d where c: "claim_execution hash x db = (c, d)" by (cases "claim_execution hash x db")
  show thesis
  proof (cases c)
    case (Inl e)
    then show thesis
      using assms key c by (intro refused [of e]) (simp_all add: execute_effect_with_durable_authorization_def py_simps on_ledger_def)
  next
    case (Inr z)
    obtain snapshot claim where z: "z = (snapshot, claim)" by (cases z)
    obtain q l v where q: "execute_effect_with_receipt hash label (xo_permit x) (xo_runtime_key x) (xo_decision_key x)
         (xo_effect_key x) (xo_grant x) (xo_evidence x) (xo_decision x) (xo_mir x) (xo_request x) (xo_current_epoch x) effect ({}, w)
         = (q, (l, v))"
      by (metis surj_pair)
    have out: "w' = v" "db' = d" "is_ok r \<Longrightarrow> is_ok q"
      using assms key c Inr z q
      by (auto simp: execute_effect_with_durable_authorization_def py_simps on_ledger_def split: sum.splits)
    show thesis
    proof (rule execute_with_receipt_run [OF q])
      fix e
      assume "q = Inl e" "v = w"
      then show thesis using out refused by (cases r) auto
    next
      fix c' k
      assume "execution_checks hash (xo_permit x) (xo_effect_key x) (xo_mir x) (xo_request x) = Inr k" "v = snd (effect (xo_request x) w)"
      then show thesis using run [of snapshot claim k] c Inr z out(1,2) by simp
    qed
  qed
qed

text \<open>
  C4. An effect runs under a durable claim only. An execution either raises and leaves the outside world as it was, or
  it has committed a claim first and then run the effect once, on the request presented. In that case the permit had not
  been claimed before and is claimed now; the state presented is the active head of the store for the identity of the
  request, bound to its intent; the decision is \<open>allow\<close>; the permit names the digest, operation and epoch of the request;
  the effective constraints are exactly those of the request, with no delegation left; and every link of the delegation chain
  was checked at the epoch of the execution, is signed and valid, and allows these actions.
\<close>

theorem effect_only_under_durable_claim:
  assumes "execute_effect_with_durable_authorization hash label x effect (db, w) = (r, (db', w'))"
  shows "(\<exists>e. r = Inl e) \<and> w' = w
    \<or> w' = snd (effect (xo_request x) w) \<and> (\<exists>claim. claim_execution hash x db = (Inr claim, db'))
      \<and> pm_permit_digest (xo_permit x) \<notin> xr_permit_digest ` set (sd_claims db)
      \<and> pm_permit_digest (xo_permit x) \<in> xr_permit_digest ` set (sd_claims db')
      \<and> (\<exists>row. head_of (as_subject (xo_state x)) db = Some row \<and> hr_state_digest row = as_state_digest (xo_state x)
          \<and> hr_state_status row = ''active'')
      \<and> as_subject (xo_state x) = ''koschei:canonical-identity:v1:'' @ rq_identity_digest (xo_request x)
      \<and> ic_intent_digest (xo_intent x) = rq_digest (xo_request x)
      \<and> as_intent_commitment_digest (xo_state x) = intent_digest hash (xo_intent x)
      \<and> az_outcome (xo_decision x) = ''allow''
      \<and> pm_request_digest (xo_permit x) = rq_digest (xo_request x) \<and> pm_operation (xo_permit x) = rq_operation (xo_request x)
      \<and> pm_valid_epoch (xo_permit x) = xo_current_epoch x \<and> rq_epoch (xo_request x) = xo_current_epoch x
      \<and> cs_resources (as_effective_constraints (xo_state x)) = [rq_subject (xo_request x)]
      \<and> cs_operations (as_effective_constraints (xo_state x)) = [rq_operation (xo_request x)]
      \<and> cs_arguments (as_effective_constraints (xo_state x)) = [rq_request_digest (xo_request x)]
      \<and> \<not> cs_redelegation (as_effective_constraints (xo_state x))
      \<and> (\<forall>l \<in> set (xo_chain x). dl_checked_epoch l = xo_current_epoch x \<and> dl_signature_valid l \<and> dl_revocation_status l = ''valid''
          \<and> actions (as_effective_constraints (xo_state x)) \<subseteq> actions (dl_constraints l))"
  using assms
proof (cases rule: durable_execution_run)
  case (run snapshot claim key)
  note claim = claim_refines [OF run(1)]
  have checks: "claim_checks hash x = Inr (snapshot, claim)" using claim_store [OF run(1)] by simp
  note bound = binding_Inr [OF claim_checks_Inr(1) [OF checks]]
  have allow: "az_outcome (xo_decision x) = ''allow''"
    using claim_checks_Inr(2) [OF checks] unfolding permit_authenticated_Inr by blast
  have claimed: "pm_permit_digest (xo_permit x) \<in> xr_permit_digest ` set (sd_claims db')"
    using arg_cong [OF claim(5), of set] by auto
  have snap: "snapshot_for_execution hash (xo_state x) (xo_chain x) (xo_current_epoch x) = Inr snapshot"
    using claim_checks_snapshot [OF checks] by blast
  obtain d where d: "assert_delegation_chain_current hash (xo_chain x) (xo_current_epoch x) = Inr d"
    using snapshot_Inr [OF snap] by (auto simp: is_ok_iff)
  have "attenuates (as_effective_constraints (xo_state x)) (dl_constraints (last (xo_chain x)))"
    using snapshot_Inr [OF snap] by blast
  then have links: "dl_checked_epoch l = xo_current_epoch x \<and> dl_signature_valid l \<and> dl_revocation_status l = ''valid''
      \<and> actions (as_effective_constraints (xo_state x)) \<subseteq> actions (dl_constraints l)" if "l \<in> set (xo_chain x)" for l
    using d that attenuates_actions [OF below_every_link [OF d _ that]]
    by (auto simp: chain_current_Inr list_all_iff link_current_def)
  show ?thesis
    using run(1,3) claim(6,7) claimed bound allow execution_checks_Inr [OF run(2)] links by simp
qed simp

end
