(* ===== verification/Execution_Example.thy ===== *)
theory Execution_Example
  imports Durable_Safety
begin

text \<open>
  A whole execution, from the sealed request to the durable claim: the cases that show the theorems on permits and on the
  durable store apply.
\<close>

lemma good_tail_hash: "good_hash tail_hash"
proof -
  have "tail_hash m \<noteq> replicate 64 (CHR ''0'')" for m
    by (simp add: tail_hash_def numeral_eq_Suc)
  then show ?thesis by (simp add: good_hash_def tail_hash_hex64)
qed

lemma good_json_digest: "good_hash hash \<Longrightarrow> good_digest (json_digest hash tag v)"
  by (simp add: json_digest_def good_hash_value)

lemma strip_Nil: "strip s = [] \<longleftrightarrow> list_all py_isspace s"
proof (cases "dropWhile py_isspace s")
  case Nil
  then show ?thesis by (auto simp: strip_def list_all_iff dest: set_dropWhileD)
next
  case (Cons c t)
  then have "\<not> py_isspace c" "c \<in> set s"
    using hd_dropWhile [of py_isspace s] set_dropWhileD [of c py_isspace s] by simp_all
  then show ?thesis by (auto simp: strip_def Cons list_all_iff)
qed

section \<open>A permit\<close>

lemma single_action: "strip a = a \<Longrightarrow> a \<noteq> [] \<Longrightarrow> canonical_actions [a] = Inr [a]"
  by (simp add: canonical_actions_def checked_good sorted_set_def)

lemma issue_grant_ok:
  assumes "good_digest scope" "strip provider = provider" "provider \<noteq> []" "strip consumer = consumer" "consumer \<noteq> []"
    and "strip a = a" "a \<noteq> []" "0 \<le> start" "start < expiry"
  obtains g where "issue_external_adapter_grant hash provider consumer scope [a] start expiry = Inr g"
    and "xg_consumer_id g = consumer" "xg_provider_id g = provider" "xg_allowed_actions g = [a]"
    and "xg_valid_from_epoch g = start" "xg_expires_before_epoch g = expiry"
proof -
  have scope: "require_digest scope label = Inr scope" for label
    using assms(1) by (simp add: checked_Inr good_digest_def)
  have "sorted_set [a] = [a]" by (simp add: sorted_set_def)
  then have ok: "is_ok (issue_external_adapter_grant hash provider consumer scope [a] start expiry)"
    using assms(2-9) scope single_action [OF assms(6,7)]
    by (simp add: issue_external_adapter_grant_def adapter_grant_assert_sealed_def checked_good Let_def)
  then obtain g where g: "issue_external_adapter_grant hash provider consumer scope [a] start expiry = Inr g"
    by (auto simp: is_ok_iff)
  then show ?thesis
    by (rule that) (use g assms(2,4,6) in \<open>auto simp: issue_external_adapter_grant_def rbind_eq_Inr checked_Inr Let_def sorted_set_def
      split: if_splits\<close>)
qed

lemma admit_evidence_ok:
  assumes "adapter_grant_assert_sealed hash g = Inr ()" "strip a = a" "a \<noteq> []" "a \<in> set (xg_allowed_actions g)" "good_digest ext"
    and "0 \<le> epoch" "xg_valid_from_epoch g \<le> epoch" "epoch < xg_expires_before_epoch g" "strip (xg_provider_id g) = xg_provider_id g"
  obtains e where "admit_external_adapter_evidence hash g a ext epoch = Inr e"
proof -
  have ext: "require_digest ext label = Inr ext" for label
    using assms(5) by (simp add: checked_Inr good_digest_def)
  have permits: "adapter_permits hash g a epoch = Inr True"
    using assms by (simp add: adapter_permits_Inr)
  have "xg_provider_id g \<noteq> []" using assms(1,9) by (simp add: adapter_grant_Inr)
  then have "is_ok (admit_external_adapter_evidence hash g a ext epoch)"
    using assms ext permits by (simp add: admit_external_adapter_evidence_def evidence_assert_sealed_def checked_good Let_def)
  then show ?thesis using that by (auto simp: is_ok_iff)
qed

definition key :: string where
  "key = replicate 32 (CHR ''k'')"

definition identity :: string where
  "identity = replicate 64 (CHR ''b'')"

lemma good_identity: "good_digest identity"
proof -
  have "replicate 64 (CHR ''b'') \<noteq> replicate 64 (CHR ''0'')" by (simp add: replicate_eq_replicate)
  moreover have "lower_char (CHR ''b'') = CHR ''b''" "hex_char (CHR ''b'')" by code_simp+
  ultimately show ?thesis by (simp add: good_digest_def digest_ok_def identity_def list_all_iff)
qed

lemma door_bound:
  obtains r pb bound where "request_assert_sealed tail_hash r door_mir = Inr ()"
    and "bound_assert_sealed tail_hash bound door_mir r pb = Inr ()" "failed_obligations pb = []"
    and "rq_subject r = ''door''" "rq_operation r = ''open''" "rq_request_digest r = ''p''" "rq_identity_digest r = identity" "rq_epoch r = 3"
proof -
  obtain pb plan where pb: "seal_native_sigil_proof tail_hash door_mir door_receipts = Inr pb"
      "require_native_sigil_proof tail_hash door_mir pb = Inr plan" by (rule door_bundle)
  have "identity \<noteq> []" by (simp add: identity_def)
  then obtain r where r: "seal_effect_request tail_hash door_mir ''e'' ''door'' ''open'' ''p'' identity 3 ''n'' = Inr r"
      "request_assert_sealed tail_hash r door_mir = Inr ()"
    by (rule door_request_for [of "''open''" "''p''" 3 identity, rotated 3]) simp_all
  have fields: "r = \<lparr>rq_effect_id = ''e'', rq_subject = ''door'', rq_operation = ''open'', rq_request_digest = ''p'',
          rq_identity_digest = identity, rq_epoch = 3, rq_nonce_digest = ''n'', rq_native_mir_fingerprint = mir_fingerprint door_mir,
          rq_universe_plan_digest = mir_universe_plan_digest door_mir, rq_digest = rq_digest r,
          rq_activation_plan_digest = act_digest (activation_plan_of tail_hash (map mb_sigil (mir_bindings door_mir))),
          rq_version = 1\<rparr>"
    using r(1) unfolding seal_effect_request_eq_Inr by blast
  obtain b where "bind_proof_to_request tail_hash door_mir r pb = Inr b" by (rule bind_proof_to_request_ok [OF r(2) pb(2)])
  then have b: "bound_assert_sealed tail_hash b door_mir r pb = Inr ()" by (rule bind_proof_to_request_eq_Inr)
  obtain ordered where ordered: "set ordered = set door_receipts" and
      over: "pb = bundle_over tail_hash door_mir (envelope_over tail_hash (nl_library_plan (library_plan_of tail_hash door_mir)) ordered)"
    using pb(1) unfolding seal_native_sigil_proof_eq_Inr seal_envelope_eq_Inr by blast
  have "pe_receipts (pb_library_proof pb) = ordered"
    unfolding over by (simp add: bundle_over_def envelope_over_def Let_def)
  moreover have "\<forall>q \<in> set door_receipts. pr_success q" by (simp add: door_receipts_def)
  ultimately have "\<forall>q \<in> set (pe_receipts (pb_library_proof pb)). pr_success q" by (simp add: ordered)
  then have "failed_obligations pb = []" by (simp add: failed_obligations_def filter_empty_conv)
  moreover have "rq_subject r = ''door''" "rq_operation r = ''open''" "rq_request_digest r = ''p''" "rq_identity_digest r = identity" "rq_epoch r = 3"
    by (subst fields, simp)+
  ultimately show ?thesis using that r(2) b by blast
qed

text \<open>Everything an execution needs but the authorization state.\<close>

lemma door_permit:
  obtains r pb bound grant evidence basis d p where "request_assert_sealed tail_hash r door_mir = Inr ()"
    and "rq_subject r = ''door''" "rq_operation r = ''open''" "rq_request_digest r = ''p''" "rq_identity_digest r = identity" "rq_epoch r = 3"
    and "canonical_subject_scope_digest tail_hash r = Inr (xg_subject_scope_digest grant)" "xg_consumer_id grant = ''svc''"
    and "issue_authorization_decision tail_hash grant evidence basis door_mir r pb bound key = Inr d"
    and "mint_execution_permit tail_hash grant evidence d key key = Inr p"
    and "is_live_for p 3 (rq_digest r) ''open'' = Inr True"
    and "\<exists>c. consume tail_hash p key key grant evidence d 3 (rq_digest r) ''open'' {} = (Inr c, {pm_permit_digest p})"
    and "\<exists>scope ext. issue_external_adapter_grant tail_hash ''bank'' ''svc'' scope [''report''] 0 9 = Inr grant
      \<and> admit_external_adapter_evidence tail_hash grant ''report'' ext 3 = Inr evidence \<and> canonical_subject_scope_digest tail_hash r = Inr scope"
    and "bound_assert_sealed tail_hash bound door_mir r pb = Inr ()" "failed_obligations pb = []"
proof -
  obtain r pb bound where r: "request_assert_sealed tail_hash r door_mir = Inr ()" "bound_assert_sealed tail_hash bound door_mir r pb = Inr ()"
      "failed_obligations pb = []" "rq_subject r = ''door''" "rq_operation r = ''open''" "rq_request_digest r = ''p''"
      "rq_identity_digest r = identity" "rq_epoch r = 3"
    by (rule door_bound)
  have strips: "strip ''bank'' = ''bank''" "strip ''svc'' = ''svc''" "strip ''report'' = ''report''" "strip ''open'' = ''open''" by code_simp+
  obtain scope where scope: "canonical_subject_scope_digest tail_hash r = Inr scope"
    using r by (simp add: canonical_subject_scope_digest_def identity_def)
  have good_scope: "good_digest scope" by (rule digests_good(1) [OF good_tail_hash scope])
  obtain grant where g: "issue_external_adapter_grant tail_hash ''bank'' ''svc'' scope [''report''] 0 9 = Inr grant"
      "xg_consumer_id grant = ''svc''" "xg_provider_id grant = ''bank''" "xg_allowed_actions grant = [''report'']"
      "xg_valid_from_epoch grant = 0" "xg_expires_before_epoch grant = 9"
    by (rule issue_grant_ok [OF good_scope strips(1) _ strips(2) _ strips(3), of 0 9]) simp_all
  have g': "adapter_grant_assert_sealed tail_hash grant = Inr ()" "xg_subject_scope_digest grant = scope"
    using issue_grant_Inr [OF g(1)] good_scope by (simp_all add: good_digest_def)
  obtain evidence where e: "admit_external_adapter_evidence tail_hash grant ''report'' identity 3 = Inr evidence"
    by (rule admit_evidence_ok [OF g'(1) strips(3) _ _ good_identity, of 3]) (use g strips in simp_all)
  have len: "32 \<le> length key" by (simp add: key_def)
  obtain basis d p c where chain: "issue_authorization_decision tail_hash grant evidence basis door_mir r pb bound key = Inr d"
      "mint_execution_permit tail_hash grant evidence d key key = Inr p"
      "is_live_for p (rq_epoch r) (rq_digest r) (rq_operation r) = Inr True"
      "\<forall>consumed. consume tail_hash p key key grant evidence d (rq_epoch r) (rq_digest r) (rq_operation r) consumed
        = (if pm_permit_digest p \<in> consumed then (raise permit_error ''execution permit replay detected'', consumed)
           else (Inr c, insert (pm_permit_digest p) consumed))"
    using native_allow_permit [OF good_tail_hash r(2,3) scope g(1) e [folded r(8)] len len] strips(4) r(5) by auto
  show ?thesis
    by (rule that [OF r(1,4-8) _ g(2) chain(1,2)]) (use scope g' chain(3,4) g(1) e r in auto)
qed

section \<open>An authorization state\<close>

definition exact :: constraint_set where
  "exact = \<lparr>cs_resources = [''door''], cs_operations = [''open''], cs_arguments = [''p''], cs_audience = [''svc''],
     cs_magnitude_max = None, cs_valid_from_epoch = 0, cs_expires_before_epoch = Some 9, cs_delegation_depth = 0, cs_redelegation = False\<rparr>"

definition door_subject :: string where
  "door_subject = ''koschei:canonical-identity:v1:'' @ identity"

definition door_link :: delegation_link where
  "door_link = \<lparr>dl_delegation_id = ''d1'', dl_parent_delegation_id = None, dl_issuer = ''owner'', dl_subject = door_subject,
     dl_constraints = exact, dl_parent_commitment = None, dl_checked_epoch = 3, dl_signature_valid = True,
     dl_revocation_status = ''valid'', dl_version = 1\<rparr>"

definition door_intent :: "string \<Rightarrow> intent_commitment" where
  "door_intent digest = \<lparr>ic_principal = door_subject, ic_intent_digest = digest, ic_purpose_digest = identity, ic_created_epoch = 1,
     ic_authority = False, ic_version = 1\<rparr>"

lemma exact_live: "assert_live exact 3 = Inr ()"
  by (simp add: assert_live_Inr exact_def)

lemma exact_attenuates: "assert_attenuates exact exact False = Inr ()"
  by (simp add: assert_attenuates_Inr attenuates_refl)

lemma door_chain_current: "is_ok (assert_delegation_chain_current tail_hash [door_link] 3)"
  unfolding is_ok_iff chain_current_Inr by (simp add: door_link_def link_current_def exact_live)

lemma subject_not_blank: "strip door_subject \<noteq> []"
proof -
  have "\<not> py_isspace (CHR ''k'')" by code_simp
  then show ?thesis by (simp add: strip_Nil door_subject_def)
qed

lemma seal_state_ok:
  assumes "good_hash hash" "state_ok s"
  obtains t where "seal_state hash s = Inr t" "t = s\<lparr>as_state_digest := state_digest hash s\<rparr>" "sealed_state hash t"
proof -
  have "digest_ok (state_digest hash s)"
    using good_json_digest [OF assms(1)] by (simp add: state_digest_def good_digest_def)
  then have "seal_state hash s = Inr (s\<lparr>as_state_digest := state_digest hash s\<rparr>)"
    using assms(2) by (simp add: seal_state_Inr)
  then show ?thesis using that seal_state_sealed by blast
qed

lemma door_state:
  obtains s where "issue_authorization_state tail_hash (door_intent digest) [door_link] 3 None = Inr s"
    and "as_subject s = door_subject" "as_effective_constraints s = exact" "as_epoch s = 3"
proof -
  obtain c where c: "assert_delegation_chain_current tail_hash [door_link] 3 = Inr c"
    using door_chain_current by (auto simp: is_ok_iff)
  let ?chain = "json_digest tail_hash ''koschei.delegation-chain-authority/v1'' (texts (map (authority_digest tail_hash) [door_link]))"
  let ?s = "\<lparr>as_subject = door_subject, as_intent_commitment_digest = intent_digest tail_hash (door_intent digest),
      as_delegation_chain_authority_digest = ?chain, as_authority_ceiling = exact, as_effective_constraints = exact,
      as_status = ''active'', as_epoch = 3, as_previous_state_digest = None, as_state_digest = [], as_authority = False, as_version = 1\<rparr>"
  have "state_ok ?s"
    using good_json_digest [OF good_tail_hash] subject_not_blank
    by (simp add: state_ok_def good_digest_def intent_digest_def STATUSES_def attenuates_refl)
  then obtain t where t: "seal_state tail_hash ?s = Inr t" "t = ?s\<lparr>as_state_digest := state_digest tail_hash ?s\<rparr>"
    by (rule seal_state_ok [OF good_tail_hash])
  have "issue_authorization_state tail_hash (door_intent digest) [door_link] 3 None = Inr t"
    using c t(1) exact_live exact_attenuates
    by (simp add: issue_authorization_state_def epoch_of_def delegation_chain_authority_digest_def door_intent_def door_link_def)
  then show ?thesis by (rule that) (simp_all add: t(2))
qed

lemma door_snapshot:
  assumes "issue_authorization_state tail_hash (door_intent digest) [door_link] 3 None = Inr s" "as_effective_constraints s = exact"
  obtains x where "snapshot_for_execution tail_hash s [door_link] 3 = Inr x"
proof -
  note s = issue_Inr [OF assms(1)]
  obtain c where c: "assert_delegation_chain_current tail_hash [door_link] 3 = Inr c"
    using door_chain_current by (auto simp: is_ok_iff)
  have sealed: "state_assert_sealed tail_hash s = Inr ()" using s by (simp add: state_for_def state_assert_sealed_Inr)
  have chain: "delegation_chain_authority_digest tail_hash [door_link] = Inr (as_delegation_chain_authority_digest s)"
      "as_subject s = door_subject"
    using s by (simp_all add: state_for_def door_link_def)
  have "state_assert_active s 3 = Inr ()"
    using s exact_live by (simp add: state_assert_active_def epoch_of_def assms(2))
  then have "is_ok (snapshot_for_execution tail_hash s [door_link] 3)"
    using sealed c chain exact_attenuates assms(2)
    by (simp add: snapshot_for_execution_def epoch_of_def) (simp add: door_link_def Let_def)
  then show ?thesis using that by (auto simp: is_ok_iff)
qed

section \<open>The store\<close>

definition new_store :: store_db where
  "new_store = \<lparr>sd_metadata = Some [(''schema_version'', ''1'')], sd_columns = rev REQUIRED_COLUMNS, sd_executable = [],
     sd_heads = [], sd_transitions = [], sd_claims = []\<rparr>"

lemma store_created: "store_initialize new_file = (Inr (), new_store)"
  unfolding new_store_def new_file_def by code_simp

lemma schema_of_rows [simp]:
  "table_columns (db\<lparr>sd_heads := hs\<rparr>) = table_columns db" "table_columns (db\<lparr>sd_transitions := ts\<rparr>) = table_columns db"
  "validate_schema (db\<lparr>sd_heads := hs\<rparr>) = validate_schema db" "validate_schema (db\<lparr>sd_transitions := ts\<rparr>) = validate_schema db"
  "all_columns t n (db\<lparr>sd_heads := hs\<rparr>) = all_columns t n db" "all_columns t n (db\<lparr>sd_transitions := ts\<rparr>) = all_columns t n db"
proof -
  show columns: "table_columns (db\<lparr>sd_heads := hs\<rparr>) = table_columns db" "table_columns (db\<lparr>sd_transitions := ts\<rparr>) = table_columns db"
    by (simp_all add: fun_eq_iff table_columns_def)
  show "validate_schema (db\<lparr>sd_heads := hs\<rparr>) = validate_schema db" "validate_schema (db\<lparr>sd_transitions := ts\<rparr>) = validate_schema db"
    unfolding validate_schema_def columns by simp_all
  show "all_columns t n (db\<lparr>sd_heads := hs\<rparr>) = all_columns t n db" "all_columns t n (db\<lparr>sd_transitions := ts\<rparr>) = all_columns t n db"
    unfolding all_columns_def columns by simp_all
qed

lemma new_store_schema:
  "validate_schema new_store = Inr ()" "all_columns ''authorization_heads'' 5 new_store = Inr ()"
  "all_columns ''authorization_transitions'' 6 new_store = Inr ()" "all_columns ''execution_claims'' 10 new_store = Inr ()"
  unfolding new_store_def by code_simp+

definition door_store :: "authorization_state \<Rightarrow> store_db" where
  "door_store s = new_store\<lparr>sd_heads := [head_row_of s]\<rparr>"

lemma door_registered:
  assumes "issue_authorization_state tail_hash (door_intent digest) [door_link] 3 None = Inr s"
  shows "store_register_initial tail_hash s new_store = (Inr (), door_store s)"
proof -
  note s = issue_Inr [OF assms]
  have "insert_head (head_row_of s) new_store = Inr (door_store s)"
    using s new_store_schema(2) by (simp add: insert_head_def head_row_of_def bind_ints_def fits64_def insert_row_def door_store_def)
      (simp add: new_store_def)
  then show ?thesis
    using s new_store_schema(1) by (simp add: register_store state_for_def)
qed

lemma door_head: "head_of (as_subject s) (door_store s) = Some (head_row_of s)"
  by (simp add: head_of_def door_store_def head_row_of_def)

section \<open>The execution\<close>

lemma durable_receipt_ok:
  assumes "good_hash hash" "32 \<le> length k" "es_execution_epoch snapshot = epoch"
  shows "durable_receipt_assert_authenticated hash (durable_receipt_of hash k s snapshot p epoch) k s snapshot p = Inr ()"
  using assms good_hmac [OF assms(1)]
  by (simp add: durable_receipt_assert_authenticated_def checked_good durable_receipt_of_def Let_def durable_receipt_mac_def authentic_Inr)

text \<open>An effect that counts how often it ran.\<close>

definition tick :: "effect_request \<Rightarrow> (nat, string) py" where
  "tick r w = (Inr ''done'', w + 1)"

definition door_order ::
  "effect_request \<Rightarrow> adapter_grant \<Rightarrow> adapter_evidence \<Rightarrow> authorization_decision \<Rightarrow> execution_permit \<Rightarrow> authorization_state \<Rightarrow> execution_order" where
  "door_order r grant evidence d p s = \<lparr>xo_state = s, xo_chain = [door_link], xo_intent = door_intent (rq_digest r), xo_permit = p,
     xo_runtime_key = key, xo_decision_key = key, xo_claim_key = key, xo_effect_key = key, xo_grant = grant, xo_evidence = evidence,
     xo_decision = d, xo_mir = door_mir, xo_request = r, xo_current_epoch = 3\<rparr>"

lemma door_binding:
  assumes "request_assert_sealed tail_hash r door_mir = Inr ()" "rq_subject r = ''door''" "rq_operation r = ''open''"
    and "rq_request_digest r = ''p''" "rq_identity_digest r = identity" "rq_epoch r = 3"
    and "canonical_subject_scope_digest tail_hash r = Inr (xg_subject_scope_digest grant)" "xg_consumer_id grant = ''svc''"
    and "as_subject s = door_subject" "as_effective_constraints s = exact"
    and "as_intent_commitment_digest s = intent_digest tail_hash (door_intent (rq_digest r))"
  shows "assert_effect_authorization_binding tail_hash s (door_intent (rq_digest r)) grant door_mir r 3 = Inr ()"
proof -
  have "canonical_execution_principal r = Inr door_subject"
    using good_identity assms(5)
    by (simp add: canonical_execution_principal_def Let_def good_digest_def digest_ok_def door_subject_def) metis
  moreover have "mir_assert_sealed tail_hash door_mir = Inr ()"
    using assms(1) by (simp add: request_assert_sealed_eq)
  moreover have "assert_exact_effect_constraints s r grant = Inr ()"
    using assms(2-4,8,10) by (simp add: assert_exact_effect_constraints_def Let_def exact_def match_fields_Inr)
  ultimately show ?thesis
    using assms(1,6,7,9,11) by (simp add: assert_effect_authorization_binding_def) (simp add: door_intent_def)
qed

lemma door_claim_checks:
  assumes "request_assert_sealed tail_hash r door_mir = Inr ()" "rq_subject r = ''door''" "rq_operation r = ''open''"
    and "rq_request_digest r = ''p''" "rq_identity_digest r = identity" "rq_epoch r = 3"
    and "canonical_subject_scope_digest tail_hash r = Inr (xg_subject_scope_digest grant)" "xg_consumer_id grant = ''svc''"
    and "permit_assert_authenticated tail_hash p key key grant evidence d = Inr ()" "is_live_for p 3 (rq_digest r) ''open'' = Inr True"
    and "issue_authorization_state tail_hash (door_intent (rq_digest r)) [door_link] 3 None = Inr s"
    and "as_subject s = door_subject" "as_effective_constraints s = exact"
  obtains snapshot receipt where "claim_checks tail_hash (door_order r grant evidence d p s) = Inr (snapshot, receipt)"
    and "dr_execution_epoch receipt = 3"
proof -
  note s = issue_Inr [OF assms(11)]
  obtain snapshot where snapshot: "snapshot_for_execution tail_hash s [door_link] 3 = Inr snapshot"
    by (rule door_snapshot [OF assms(11,13)])
  then have epoch: "es_execution_epoch snapshot = 3" using snapshot_Inr by blast
  have sealed: "state_assert_sealed tail_hash s = Inr ()"
    and intent: "as_intent_commitment_digest s = intent_digest tail_hash (door_intent (rq_digest r))"
    using s by (simp_all add: state_for_def state_assert_sealed_Inr)
  have len: "32 \<le> length key" by (simp add: key_def)
  show ?thesis
    by (rule that [of snapshot "durable_receipt_of tail_hash key s snapshot p 3"])
      (simp_all add: claim_checks_def door_order_def checked_good(4) [OF len] door_binding [OF assms(1-8,12,13) intent] sealed snapshot
        assms(3,9,10) durable_receipt_ok [OF good_tail_hash len epoch] Let_def, simp add: durable_receipt_of_def Let_def)
qed

lemma effect_ran:
  assumes "execution_checks hash p ekey mir r = Inr k" "consume hash p rkey dkey grant evidence d epoch (rq_digest r) (rq_operation r) l = (Inr c, l')"
  shows "\<exists>q. execute_effect_with_receipt hash label p rkey dkey ekey grant evidence d mir r epoch effect (l, w) = (q, (l', snd (effect r w)))"
  using assms
  by (auto simp: execute_effect_with_receipt_def py_simps on_ledger_def on_world_def measured_effect_run Let_def split: sum.splits prod.splits)

text \<open>The execution as a whole: the head is registered, the claim committed and the effect has run.\<close>

lemma door_execution:
  obtains x c db where "issue_authorization_state tail_hash (xo_intent x) [door_link] 3 None = Inr (xo_state x)"
    and "as_subject (xo_state x) = door_subject" "xo_chain x = [door_link]" "as_effective_constraints (xo_state x) = exact"
    and "store_register_initial tail_hash (xo_state x) new_store = (Inr (), door_store (xo_state x))"
    and "claim_execution tail_hash x (door_store (xo_state x)) = (Inr c, db)" "sd_transitions db = []"
    and "sd_columns db = sd_columns new_store" "sd_metadata db = sd_metadata new_store" "sd_executable db = sd_executable new_store"
    and "\<exists>r. execute_effect_with_durable_authorization tail_hash label x tick (door_store (xo_state x), 0) = (r, (db, 1))"
proof -
  obtain r pb bound grant evidence basis d p c where r: "request_assert_sealed tail_hash r door_mir = Inr ()"
      "rq_subject r = ''door''" "rq_operation r = ''open''" "rq_request_digest r = ''p''" "rq_identity_digest r = identity" "rq_epoch r = 3"
      "canonical_subject_scope_digest tail_hash r = Inr (xg_subject_scope_digest grant)" "xg_consumer_id grant = ''svc''"
    and d: "issue_authorization_decision tail_hash grant evidence basis door_mir r pb bound key = Inr d"
    and p: "mint_execution_permit tail_hash grant evidence d key key = Inr p" "is_live_for p 3 (rq_digest r) ''open'' = Inr True"
    and c: "consume tail_hash p key key grant evidence d 3 (rq_digest r) ''open'' {} = (Inr c, {pm_permit_digest p})"
    by (rule door_permit) blast
  obtain s where s: "issue_authorization_state tail_hash (door_intent (rq_digest r)) [door_link] 3 None = Inr s"
      "as_subject s = door_subject" "as_effective_constraints s = exact" "as_epoch s = 3"
    by (rule door_state)
  let ?x = "door_order r grant evidence d p s"
  have permit: "permit_assert_authenticated tail_hash p key key grant evidence d = Inr ()"
      "pm_request_digest p = rq_digest r" "pm_operation p = ''open''" "pm_valid_epoch p = 3"
    using mint_Inr [OF p(1)] issue_decision_Inr [OF d] r by simp_all
  obtain snapshot receipt where checks: "claim_checks tail_hash ?x = Inr (snapshot, receipt)" "dr_execution_epoch receipt = 3"
    by (rule door_claim_checks [OF r permit(1) p(2) s(1-3)])
  let ?db = "(door_store s)\<lparr>sd_claims := [claim_row_of s receipt]\<rparr>"
  have head: "require_active_head s (door_store s) = Inr ()"
    using door_head [of s] issue_Inr [OF s(1)] by (simp add: require_active_head_def require_head_def head_row_of_def)
  have "insert_claim_row (claim_row_of s receipt) (door_store s) = Inr ?db"
    using new_store_schema(4) checks(2)
    by (simp add: insert_claim_row_def door_store_def claim_row_of_def bind_ints_def fits64_def insert_row_def)
      (simp add: new_store_def)
  moreover have "validate_schema (door_store s) = Inr ()" by (simp add: door_store_def new_store_schema)
  ultimately have claim: "claim_execution tail_hash ?x (door_store s) = (Inr (snapshot, receipt), ?db)"
    using checks(1) head by (simp add: claim_execution_def py_simps store_check_write) (simp add: door_order_def py_simps)
  have mir: "mir_assert_sealed tail_hash door_mir = Inr ()" using r(1) by (simp add: request_assert_sealed_eq)
  have "execution_checks tail_hash p key door_mir r = Inr key"
    using permit r mir by (simp add: execution_checks_def checked_good) (simp add: key_def checked_good)
  moreover have "consume tail_hash p key key grant evidence d 3 (rq_digest r) (rq_operation r) {} = (Inr c, {pm_permit_digest p})"
    using c r(3) by simp
  ultimately obtain q l where q: "execute_effect_with_receipt tail_hash label p key key key grant evidence d door_mir r 3 tick ({}, 0) = (q, (l, 1))"
    using effect_ran [of tail_hash p key door_mir r key key key grant evidence d 3 "{}" c "{pm_permit_digest p}" label tick 0]
    by (auto simp: tick_def)
  have order: "xo_permit ?x = p" "xo_runtime_key ?x = key" "xo_decision_key ?x = key" "xo_effect_key ?x = key" "xo_grant ?x = grant"
      "xo_evidence ?x = evidence" "xo_decision ?x = d" "xo_mir ?x = door_mir" "xo_request ?x = r" "xo_current_epoch ?x = 3"
    by (simp_all add: door_order_def)
  have "checked_key cls key name = Inr key" for cls name by (simp add: checked_good key_def)
  then have "\<exists>out. execute_effect_with_durable_authorization tail_hash label ?x tick (door_store s, 0) = (out, (?db, 1))"
    using q by (cases q) (auto simp: execute_effect_with_durable_authorization_def py_simps on_ledger_def order claim)
  then show ?thesis
    using that [of ?x "(snapshot, receipt)" ?db] s claim door_registered [OF s(1)] by (auto simp: door_order_def door_store_def new_store_def)
qed

section \<open>The revocation\<close>

definition revoked_of :: "authorization_state \<Rightarrow> authorization_state" where
  "revoked_of s = \<lparr>as_subject = as_subject s, as_intent_commitment_digest = as_intent_commitment_digest s,
     as_delegation_chain_authority_digest = as_delegation_chain_authority_digest s, as_authority_ceiling = as_authority_ceiling s,
     as_effective_constraints = as_effective_constraints s, as_status = ''revoked'', as_epoch = 4,
     as_previous_state_digest = Some (as_state_digest s), as_state_digest = [], as_authority = False, as_version = 1\<rparr>"

lemma revoke:
  assumes "sealed_state tail_hash s" "as_status s = ''active''" "as_epoch s = 3"
  obtains n t where "transition_authorization_state tail_hash s ''REVOKE'' 4 identity None = Inr (n, t)"
    and "as_status n = ''revoked''" "as_subject n = as_subject s" "transition_checks tail_hash s n t = Inr ()"
    and "at_epoch t = 4" "as_epoch n = 4"
proof -
  have name: "strip ''REVOKE'' = ''REVOKE''" "upper_char (CHR ''R'') = ''R''" "upper_char (CHR ''E'') = ''E''" "upper_char (CHR ''V'') = ''V''"
      "upper_char (CHR ''O'') = ''O''" "upper_char (CHR ''K'') = ''K''" by code_simp+
  have reason: "digest_text identity label = Inr identity" for label
    using good_identity by (simp add: digest_text_Inr good_digest_def)
  have sealed: "state_assert_sealed tail_hash s = Inr ()" using assms(1) by (simp add: state_assert_sealed_Inr)
  have "good_digest (as_state_digest s)"
    using assms(1) good_json_digest [OF good_tail_hash] by (simp add: sealed_state_def state_digest_def)
  then have "state_ok (revoked_of s)"
    using assms(1) by (simp add: sealed_state_def state_ok_def revoked_of_def STATUSES_def good_digest_def)
  then obtain n where n: "seal_state tail_hash (revoked_of s) = Inr n"
      "n = (revoked_of s)\<lparr>as_state_digest := state_digest tail_hash (revoked_of s)\<rparr>" "sealed_state tail_hash n"
    by (rule seal_state_ok [OF good_tail_hash])
  have "is_ok (transition_authorization_state tail_hash s ''REVOKE'' 4 identity None)"
    using n(1) assms(2,3)
    by (simp add: transition_authorization_state_def sealed text_of_def name epoch_of_def reason TRANSITIONS_def transition_effect_def
        revoked_of_def Let_def)
  then obtain n' t where t: "transition_authorization_state tail_hash s ''REVOKE'' 4 identity None = Inr (n', t)"
    by (auto simp: is_ok_iff)
  have "n' = n" "at_epoch t = 4" "at_previous_state_digest t = as_state_digest s" "at_next_state_digest t = as_state_digest n"
      "transition_digest tail_hash t = at_transition_digest t"
    using t n(1) assms(2,3)
    by (auto simp: transition_authorization_state_def sealed text_of_def name epoch_of_def reason TRANSITIONS_def transition_effect_def
        revoked_of_def [symmetric] Let_def transition_digest_def transition_json_def)
  moreover have "as_status n = ''revoked''" "as_subject n = as_subject s" "as_epoch n = 4" "as_previous_state_digest n = Some (as_state_digest s)"
    by (simp_all add: n(2) revoked_of_def)
  ultimately show ?thesis
    using that [OF t] assms(1) n(3) by (simp add: transition_checks_Inr)
qed

lemma commit_on:
  assumes "transition_checks tail_hash p n t = Inr ()" "validate_schema db = Inr ()" "sd_heads db = [head_row_of p]" "sd_transitions db = []"
    and "all_columns ''authorization_transitions'' 6 db = Inr ()" "fits64 (as_epoch n)" "at_epoch t = as_epoch n"
  obtains db' where "store_commit_transition tail_hash p n t db = (Inr (), db')"
proof -
  let ?d = "db\<lparr>sd_heads := [head_row_of n]\<rparr>"
  have subject: "as_subject n = as_subject p" using assms(1) by (simp add: transition_checks_Inr)
  have "require_head (as_subject p) (as_state_digest p) db = Inr (head_row_of p)"
    using assms(3) by (simp add: require_head_Inr head_of_def head_row_of_def)
  moreover have "update_heads (as_subject p) (as_state_digest p) n db = Inr ?d"
    using assms(3,6) subject by (simp add: update_heads_def bind_ints_def head_matches_def head_row_of_def)
  moreover have "insert_transition (transition_row_of p n t) ?d = Inr (?d\<lparr>sd_transitions := [transition_row_of p n t]\<rparr>)"
    using assms(4-7) by (simp add: insert_transition_def bind_ints_def transition_row_of_def insert_row_def)
  moreover have "filter (head_matches (as_subject p) (as_state_digest p)) (sd_heads db) = [head_row_of p]"
    using assms(3) by (simp add: head_matches_def head_row_of_def)
  ultimately have "is_ok (fst (store_commit_transition tail_hash p n t db))"
    using assms(1,2)
    by (simp add: store_commit_transition_def py_simps store_transaction_def with_connection_def statement_simps)
  then show ?thesis using that by (cases "store_commit_transition tail_hash p n t db") (auto simp: is_ok_iff)
qed

text \<open>The life of the store: the head is registered, the order is claimed, the state is revoked.\<close>

lemma door_run:
  obtains x n db db' where "store_run tail_hash db ((\<lambda>_. [])(door_subject := [xo_state x])) [x]"
    and "store_run tail_hash db' ((\<lambda>_. [])(door_subject := [n, xo_state x])) [x]"
    and "as_subject (xo_state x) = door_subject" "as_status n = ''revoked''"
proof -
  obtain x c db where x: "issue_authorization_state tail_hash (xo_intent x) [door_link] 3 None = Inr (xo_state x)"
      "as_subject (xo_state x) = door_subject" "store_register_initial tail_hash (xo_state x) new_store = (Inr (), door_store (xo_state x))"
      "claim_execution tail_hash x (door_store (xo_state x)) = (Inr c, db)" "sd_transitions db = []"
      "sd_columns db = sd_columns new_store" "sd_metadata db = sd_metadata new_store" "sd_executable db = sd_executable new_store"
    by (rule door_execution)
  note s = issue_Inr [OF x(1)]
  have run: "store_run tail_hash db ((\<lambda>_. [])(door_subject := [xo_state x])) [x]"
    using store_run.claimed [OF store_run.head_registered [OF store_run.created [OF store_created] x(3)] x(4)] x(2) by simp
  obtain n t where n: "as_status n = ''revoked''" "as_subject n = as_subject (xo_state x)" "transition_checks tail_hash (xo_state x) n t = Inr ()"
      "at_epoch t = 4" "as_epoch n = 4"
    by (rule revoke [of "xo_state x"]) (use s in \<open>simp_all add: state_for_def\<close>)
  have columns: "table_columns db = table_columns new_store" using x(6) by (simp add: fun_eq_iff table_columns_def)
  have schema: "validate_schema db = Inr ()" "all_columns ''authorization_transitions'' 6 db = Inr ()"
    using new_store_schema(1,3) unfolding validate_schema_def all_columns_def columns x(7,8) by - assumption+
  obtain snapshot receipt where "c = (snapshot, receipt)" by (cases c)
  then have "insert_claim_row (claim_row_of (xo_state x) receipt) (door_store (xo_state x)) = Inr db"
    using claim_store [OF x(4)] by simp
  then have heads: "sd_heads db = [head_row_of (xo_state x)]"
    by (auto simp: insert_claim_row_def rbind_eq_Inr door_store_def)
  obtain db' where "store_commit_transition tail_hash (xo_state x) n t db = (Inr (), db')"
    by (rule commit_on [OF n(3) schema(1) heads x(5) schema(2)]) (use n(4,5) in \<open>simp_all add: fits64_def\<close>)
  from store_run.head_moved [OF run this] show ?thesis
    using that run x(2) n(1,2) by simp
qed

section \<open>The theorems apply\<close>

lemma code_strip_open: "strip ''open'' = ''open''"
  by code_simp

theorem permit_is_native_allow_witness:
  "\<exists>r pb p n. native_decision tail_hash door_mir r pb = Inr n \<and> ed_decision n = ''ALLOW'' \<and> failed_obligations pb = []
    \<and> pm_request_digest p = rq_digest r \<and> pm_operation p = ''open'' \<and> pm_single_use (p :: execution_permit)"
proof -
  obtain r pb bound grant evidence basis d p where permit: "rq_operation r = ''open''"
      "issue_authorization_decision tail_hash grant evidence basis door_mir r pb bound key = Inr d"
      "mint_execution_permit tail_hash grant evidence d key key = Inr p"
    by (rule door_permit) blast
  from permit(1) permit_is_native_allow [OF permit(2,3)] have "\<exists>n. native_decision tail_hash door_mir r pb = Inr n \<and> ed_decision n = ''ALLOW''"
      "failed_obligations pb = []" "pm_request_digest p = rq_digest r" "pm_operation p = ''open''"
    by simp_all
  moreover have "pm_single_use p" using permit mint_Inr [OF permit(3)] unfolding permit_authenticated_Inr by blast
  ultimately show ?thesis by blast
qed


theorem durable_store_refines_ledger_witness:
  "\<exists>x snapshot receipt db. claim_execution tail_hash x (door_store (xo_state x)) = (Inr (snapshot, receipt), db)
    \<and> register_initial tail_hash (xo_state x) Map.empty = Inr [door_subject \<mapsto> as_state_digest (xo_state x)]
    \<and> ledger_snapshot tail_hash (xo_state x) (xo_chain x) (xo_current_epoch x) [door_subject \<mapsto> as_state_digest (xo_state x)] = Inr snapshot"
proof -
  obtain x c db where x: "as_subject (xo_state x) = door_subject"
      "store_register_initial tail_hash (xo_state x) new_store = (Inr (), door_store (xo_state x))"
      "claim_execution tail_hash x (door_store (xo_state x)) = (Inr c, db)"
    by (rule door_execution)
  obtain snapshot receipt where c: "c = (snapshot, receipt)" by (cases c)
  have heads: "heads_of new_store = Map.empty" "heads_of (door_store (xo_state x)) = [door_subject \<mapsto> as_state_digest (xo_state x)]"
    using x(1) by (auto simp: heads_of_def head_of_def new_store_def door_store_def head_row_of_def fun_eq_iff)
  have "register_initial tail_hash (xo_state x) (heads_of new_store) = Inr (heads_of (door_store (xo_state x)))"
    using durable_store_refines_ledger x(2) by blast
  moreover have "ledger_snapshot tail_hash (xo_state x) (xo_chain x) (xo_current_epoch x) (heads_of (door_store (xo_state x))) = Inr snapshot"
    using durable_store_refines_ledger x(3) c by blast
  ultimately show ?thesis using x(3) c unfolding heads by blast
qed

theorem durable_claim_once_witness:
  "\<exists>x db. store_run tail_hash db ((\<lambda>_. [])(door_subject := [xo_state x])) [x] \<and> (\<exists>e. claim_execution tail_hash x db = (Inl e, db))"
proof -
  obtain x n db db' where run: "store_run tail_hash db ((\<lambda>_. [])(door_subject := [xo_state x])) [x]"
      "store_run tail_hash db' ((\<lambda>_. [])(door_subject := [n, xo_state x])) [x]"
    by (rule door_run)
  have "\<exists>e. claim_execution tail_hash x db = (Inl e, db)" using durable_claim_once [OF run(1)] by simp
  then show ?thesis using run(1) by blast
qed

theorem revocation_stops_claims_witness:
  "\<exists>x n db. store_run tail_hash db ((\<lambda>_. [])(door_subject := [n, xo_state x])) [x] \<and> as_status n = ''revoked''
    \<and> (\<exists>e. claim_execution tail_hash x db = (Inl e, db))"
proof -
  obtain x n db db' where run: "store_run tail_hash db ((\<lambda>_. [])(door_subject := [xo_state x])) [x]"
      "store_run tail_hash db' ((\<lambda>_. [])(door_subject := [n, xo_state x])) [x]"
      "as_subject (xo_state x) = door_subject" "as_status n = ''revoked''"
    by (rule door_run)
  have "\<exists>e. claim_execution tail_hash x db' = (Inl e, db')"
    using revocation_stops_claims [OF run(2), of x n "[xo_state x]"] run(3,4) by simp
  then show ?thesis using run(2,4) by blast
qed

theorem effect_only_under_durable_claim_witness:
  "\<exists>x db. (\<exists>r. execute_effect_with_durable_authorization tail_hash exc_format x tick (door_store (xo_state x), 0) = (r, (db, 1)))
    \<and> pm_permit_digest (xo_permit x) \<in> xr_permit_digest ` set (sd_claims db) \<and> az_outcome (xo_decision x) = ''allow''"
proof -
  obtain x r db where x: "execute_effect_with_durable_authorization tail_hash exc_format x tick (door_store (xo_state x), 0) = (r, (db, 1))"
    by (rule door_execution [where label = exc_format]) blast
  from effect_only_under_durable_claim [OF this] show ?thesis using x by auto
qed

end
