(* ===== verification/Data_Json.thy ===== *)
theory Data_Json
  imports Prelude
begin

text \<open>
  The bounded JSON codec of the language's \<open>data/v1\<close> library (\<open>koschei/data_json_v1.py\<close>): exact canonical numbers, the
  parser and the writer. Texts are lists of code points up to \<open>0x10FFFF\<close>, because escapes reach all of them. The parser
  object is its index and node count; it is gone after an exception, so only successful calls return it.
\<close>

section \<open>Errors, limits\<close>

text \<open>A message has \<open>{}\<close> where the code formats one of the arguments.\<close>

type_synonym ucs = "nat list"

datatype data_exc =
    Value_Error string
  | Data_Error (data_code: string) (data_message: string) (data_args: "ucs list") (data_offset: nat)
  | Out_Of_Fuel

definition ebind :: "data_exc + 'a \<Rightarrow> ('a \<Rightarrow> data_exc + 'b) \<Rightarrow> data_exc + 'b" where
  "ebind m k = (case m of Inl e \<Rightarrow> Inl e | Inr x \<Rightarrow> k x)"

lemma ebind_simps [simp]: "ebind (Inl e) k = Inl e" "ebind (Inr x) k = k x"
  by (simp_all add: ebind_def)

lemma ebind_cong [fundef_cong]:
  "m = m' \<Longrightarrow> (\<And>x. m' = Inr x \<Longrightarrow> k x = k' x) \<Longrightarrow> ebind m k = ebind m' k'"
  by (cases m') simp_all

lemma ebind_Inr: "ebind m k = Inr y \<longleftrightarrow> (\<exists>x. m = Inr x \<and> k x = Inr y)"
  by (cases m) auto

abbreviation bad_value :: "string \<Rightarrow> data_exc + 'a" where
  "bad_value message \<equiv> Inl (Value_Error message)"

text \<open>A literal of the source as code points.\<close>

definition u :: "string \<Rightarrow> ucs" where
  "u s = map (\<lambda>c. of_char c) s"

record limits =
  jl_max_input_bytes :: int
  jl_max_output_bytes :: int
  jl_max_nodes :: int
  jl_max_depth :: int

definition DEFAULT_LIMITS :: limits where
  "DEFAULT_LIMITS = \<lparr>jl_max_input_bytes = 1048576, jl_max_output_bytes = 1048576, jl_max_nodes = 100000, jl_max_depth = 64\<rparr>"

definition limits_validate :: "limits \<Rightarrow> data_exc + unit" where
  "limits_validate l =
     (if jl_max_input_bytes l < 1 then bad_value ''max_input_bytes must be at least 1''
      else if jl_max_output_bytes l < 1 then bad_value ''max_output_bytes must be at least 1''
      else if jl_max_nodes l < 1 then bad_value ''max_nodes must be at least 1''
      else if jl_max_depth l < 1 then bad_value ''max_depth must be at least 1''
      else Inr ())"

text \<open>\<open>len(text.encode("utf-8"))\<close>; a surrogate cannot be encoded.\<close>

definition surrogate :: "nat \<Rightarrow> bool" where
  "surrogate c \<longleftrightarrow> 0xD800 \<le> c \<and> c \<le> 0xDFFF"

definition utf8_width :: "nat \<Rightarrow> nat" where
  "utf8_width c = (if c < 0x80 then 1 else if c < 0x800 then 2 else if c < 0x10000 then 3 else 4)"

definition utf8_size :: "ucs \<Rightarrow> nat" where
  "utf8_size t = sum_list (map utf8_width t)"

section \<open>Numbers\<close>

definition is_ascii_digit :: "nat \<Rightarrow> bool" where
  "is_ascii_digit c \<longleftrightarrow> 48 \<le> c \<and> c \<le> 57"

fun digits_value :: "ucs \<Rightarrow> nat" where
  "digits_value [] = 0"
| "digits_value (c # cs) = (c - 48) * 10 ^ length cs + digits_value cs"

text \<open>The parts of a number, each with the text that is left.\<close>

definition number_sign :: "ucs \<Rightarrow> bool \<times> ucs" where
  "number_sign t = (case t of [] \<Rightarrow> (False, []) | c # r \<Rightarrow> if c = 45 then (True, r) else (False, t))"

definition integer_part :: "ucs \<Rightarrow> data_exc + ucs \<times> ucs" where
  "integer_part t =
     (case t of
        [] \<Rightarrow> bad_value ''missing digits after '-' in JSON number''
      | c # r \<Rightarrow>
          if c = 48 then
            if r \<noteq> [] \<and> is_ascii_digit (hd r) then bad_value ''leading zero in JSON number'' else Inr ([48], r)
          else if 49 \<le> c \<and> c \<le> 57 then Inr (takeWhile is_ascii_digit t, dropWhile is_ascii_digit t)
          else bad_value ''invalid integer part in JSON number'')"

definition number_fraction :: "ucs \<Rightarrow> data_exc + ucs \<times> ucs" where
  "number_fraction t =
     (case t of
        [] \<Rightarrow> Inr ([], [])
      | c # r \<Rightarrow>
          if c = 46 then
            if takeWhile is_ascii_digit r = [] then bad_value ''fraction requires at least one digit''
            else Inr (takeWhile is_ascii_digit r, dropWhile is_ascii_digit r)
          else Inr ([], t))"

definition exponent_sign :: "ucs \<Rightarrow> bool \<times> ucs" where
  "exponent_sign t =
     (case t of [] \<Rightarrow> (False, []) | c # r \<Rightarrow> if c = 43 then (False, r) else if c = 45 then (True, r) else (False, t))"

definition exponent_part :: "ucs \<Rightarrow> data_exc + int \<times> ucs" where
  "exponent_part t =
     (case t of
        [] \<Rightarrow> Inr (0, [])
      | c # r \<Rightarrow>
          if c = 101 \<or> c = 69 then
            let (negative, r) = exponent_sign r; digits = takeWhile is_ascii_digit r;
              stripped = dropWhile (\<lambda>c. c = 48) digits; exp_digits = if stripped = [] then [48] else stripped
            in if digits = [] then bad_value ''exponent requires at least one digit''
               else if 9 < length exp_digits then bad_value ''JSON exponent magnitude exceeds data/v1 limit''
               else if 1000000 < digits_value exp_digits then bad_value ''JSON exponent magnitude exceeds data/v1 limit''
               else Inr (if negative then - int (digits_value exp_digits) else int (digits_value exp_digits),
                 dropWhile is_ascii_digit r)
          else Inr (0, t))"

text \<open>The canonical text of sign, digits and scale: the digits neither start nor end with a zero.\<close>

definition number_text :: "bool \<Rightarrow> ucs \<Rightarrow> int \<Rightarrow> ucs" where
  "number_text negative digits scale =
     (let scientific = scale + int (length digits) - 1; sign = if negative then u ''-'' else [] in
      if 21 \<le> scientific \<or> scientific \<le> - 7 then
        sign @ [hd digits] @ (if 1 < length digits then u ''.'' @ tl digits else []) @ u ''e'' @ u (str_int scientific)
      else
        let position = int (length digits) + scale in
        sign @ (if position \<le> 0 then u ''0.'' @ replicate (nat (- position)) 48 @ digits
                else if int (length digits) \<le> position then digits @ replicate (nat (position - int (length digits))) 48
                else take (nat position) digits @ u ''.'' @ drop (nat position) digits))"

definition strip_zeros :: "ucs \<Rightarrow> ucs" where
  "strip_zeros t = rev (dropWhile (\<lambda>c. c = 48) (rev t))"

definition canonical_text :: "bool \<Rightarrow> ucs \<Rightarrow> ucs \<Rightarrow> int \<Rightarrow> ucs" where
  "canonical_text negative integer fraction exponent =
     (let digits = dropWhile (\<lambda>c. c = 48) (integer @ fraction) in
      if digits = [] then u ''0''
      else
        let scale = exponent - int (length fraction); trailing = length digits - length (strip_zeros digits) in
        number_text negative (strip_zeros digits) (scale + int trailing))"

definition canonical_number :: "ucs \<Rightarrow> data_exc + ucs" where
  "canonical_number t =
     (if t = [] then bad_value ''JSON number must be a non-empty string''
      else
        let (negative, r) = number_sign t in
        ebind (integer_part r) (\<lambda>(integer, r).
        ebind (number_fraction r) (\<lambda>(fraction, r).
        ebind (exponent_part r) (\<lambda>(exponent, r).
          if r \<noteq> [] then bad_value ''trailing characters in JSON number''
          else Inr (canonical_text negative integer fraction exponent)))))"

text \<open>\<open>Number(text)\<close>; the message of the refusal is given without the two texts.\<close>

definition mk_Number :: "ucs \<Rightarrow> data_exc + ucs" where
  "mk_Number t =
     ebind (canonical_number t) (\<lambda>canonical.
     if canonical \<noteq> t then bad_value ''Number text must already be canonical'' else Inr t)"

section \<open>Values\<close>

text \<open>The values that are \<open>data/v1\<close> encodable: a dict is the list of its items in the order of their insertion.\<close>

datatype data_value =
    D_Null
  | D_Bool bool
  | D_Str ucs
  | D_Num ucs
  | D_Arr "data_value list"
  | D_Obj "(ucs \<times> data_value) list"

section \<open>The parser\<close>

record reader =
  rd_index :: nat
  rd_nodes :: nat

definition is_space :: "nat \<Rightarrow> bool" where
  "is_space c \<longleftrightarrow> c \<in> {32, 9, 13, 10}"

definition reader_error :: "ucs \<Rightarrow> string \<Rightarrow> string \<Rightarrow> ucs list \<Rightarrow> nat \<Rightarrow> data_exc + 'a" where
  "reader_error text code message args offset = Inl (Data_Error code message args (utf8_size (take offset text)))"

abbreviation syntax_error :: "ucs \<Rightarrow> string \<Rightarrow> nat \<Rightarrow> data_exc + 'a" where
  "syntax_error text message offset \<equiv> reader_error text ''KS3605'' message [] offset"

definition moved :: "nat \<Rightarrow> reader \<Rightarrow> reader" where
  "moved i s = s\<lparr>rd_index := i\<rparr>"

definition skip_space :: "ucs \<Rightarrow> nat \<Rightarrow> nat" where
  "skip_space text i = i + length (takeWhile is_space (drop i text))"

definition skip_digits :: "ucs \<Rightarrow> nat \<Rightarrow> nat" where
  "skip_digits text i = i + length (takeWhile is_ascii_digit (drop i text))"

definition reader_node :: "limits \<Rightarrow> ucs \<Rightarrow> int \<Rightarrow> reader \<Rightarrow> data_exc + reader" where
  "reader_node l text depth s =
     (if jl_max_depth l < depth then reader_error text ''KS3602'' ''JSON depth exceeds limit {}'' [u (str_int (jl_max_depth l))] (rd_index s)
      else if jl_max_nodes l < int (rd_nodes s + 1) then
        reader_error text ''KS3603'' ''JSON node count exceeds limit {}'' [u (str_int (jl_max_nodes l))] (rd_index s)
      else Inr (s\<lparr>rd_nodes := rd_nodes s + 1\<rparr>))"

definition is_hex :: "nat \<Rightarrow> bool" where
  "is_hex c \<longleftrightarrow> is_ascii_digit c \<or> 97 \<le> c \<and> c \<le> 102 \<or> 65 \<le> c \<and> c \<le> 70"

definition hex_nibble :: "nat \<Rightarrow> nat" where
  "hex_nibble c = (if c \<le> 57 then c - 48 else if c \<le> 70 then c - 55 else c - 87)"

definition hex_number :: "ucs \<Rightarrow> nat" where
  "hex_number t = foldl (\<lambda>n c. 16 * n + hex_nibble c) 0 t"

definition unicode_escape :: "ucs \<Rightarrow> nat \<Rightarrow> data_exc + nat \<times> nat" where
  "unicode_escape text i =
     (if length text < i + 4 then syntax_error text (''short '' @ CHR 0x5C # ''u escape in JSON string'') i
      else if \<not> list_all is_hex (take 4 (drop i text)) then syntax_error text (''invalid hex digit in '' @ CHR 0x5C # ''u escape'') i
      else
        let first = hex_number (take 4 (drop i text)) in
        if 0xDC00 \<le> first \<and> first \<le> 0xDFFF then syntax_error text ''lone low surrogate in JSON string'' i
        else if \<not> (0xD800 \<le> first \<and> first \<le> 0xDBFF) then Inr (first, i + 4)
        else if length text < i + 10 \<or> take 2 (drop (i + 4) text) \<noteq> [92, 117] then
          syntax_error text ''high surrogate requires a low surrogate'' i
        else if \<not> list_all is_hex (take 4 (drop (i + 6) text)) then syntax_error text ''invalid low-surrogate escape'' (i + 6)
        else
          let second = hex_number (take 4 (drop (i + 6) text)) in
          if \<not> (0xDC00 \<le> second \<and> second \<le> 0xDFFF) then syntax_error text ''high surrogate requires a low surrogate'' (i + 6)
          else Inr (0x10000 + (first - 0xD800) * 1024 + (second - 0xDC00), i + 10))"

lemma unicode_escape_moves: "unicode_escape text i = Inr (d, j) \<Longrightarrow> i < j \<and> j \<le> length text"
  by (auto simp: unicode_escape_def Let_def reader_error_def split: if_splits)

definition simple_escape :: "nat \<Rightarrow> nat option" where
  "simple_escape c = map_of [(34, 34), (92, 92), (47, 47), (98, 8), (102, 12), (110, 10), (114, 13), (116, 9)] c"

text \<open>The loop of \<open>_string\<close>: the characters so far instead of the slices between escapes.\<close>

function read_string_loop :: "ucs \<Rightarrow> nat \<Rightarrow> ucs \<Rightarrow> data_exc + ucs \<times> nat" where
  "read_string_loop text i acc =
     (if length text \<le> i then syntax_error text ''unterminated JSON string'' i
      else
        let c = text ! i in
        if c = 34 then Inr (acc, i + 1)
        else if c = 92 then
          if length text \<le> i + 1 then syntax_error text ''unterminated escape in JSON string'' (i + 1)
          else
            (case simple_escape (text ! (i + 1)) of
               Some d \<Rightarrow> read_string_loop text (i + 2) (acc @ [d])
             | None \<Rightarrow>
                 if text ! (i + 1) = 117 then
                   ebind (unicode_escape text (i + 2)) (\<lambda>(d, j). read_string_loop text j (acc @ [d]))
                 else reader_error text ''KS3605'' (''invalid JSON escape '' @ CHR 0x5C # ''{}'') [[text ! (i + 1)]] i)
        else if c < 32 then syntax_error text ''unescaped control character in JSON string'' i
        else if surrogate c then syntax_error text ''surrogate code point is not valid UTF-8 JSON'' i
        else read_string_loop text (i + 1) (acc @ [c]))"
  by pat_completeness auto

termination
  by (relation "measure (\<lambda>(text, i, _). length text - i)") (auto dest: unicode_escape_moves)

definition read_string :: "ucs \<Rightarrow> reader \<Rightarrow> data_exc + ucs \<times> reader" where
  "read_string text s = ebind (read_string_loop text (rd_index s + 1) []) (\<lambda>(t, i). Inr (t, moved i s))"

definition number_integer_end :: "ucs \<Rightarrow> nat \<Rightarrow> data_exc + nat" where
  "number_integer_end text i =
     (if length text \<le> i then syntax_error text ''missing digits in JSON number'' i
      else if text ! i = 48 then
        if i + 1 < length text \<and> is_ascii_digit (text ! (i + 1)) then syntax_error text ''leading zero in JSON number'' (i + 1)
        else Inr (i + 1)
      else if 49 \<le> text ! i \<and> text ! i \<le> 57 then Inr (skip_digits text i)
      else syntax_error text ''invalid integer part in JSON number'' i)"

definition number_fraction_end :: "ucs \<Rightarrow> nat \<Rightarrow> data_exc + nat" where
  "number_fraction_end text i =
     (if i < length text \<and> text ! i = 46 then
        if skip_digits text (i + 1) = i + 1 then syntax_error text ''fraction requires at least one digit'' (i + 1)
        else Inr (skip_digits text (i + 1))
      else Inr i)"

definition number_exponent_end :: "ucs \<Rightarrow> nat \<Rightarrow> data_exc + nat" where
  "number_exponent_end text i =
     (if i < length text \<and> text ! i \<in> {101, 69} then
        let j = if i + 1 < length text \<and> text ! (i + 1) \<in> {43, 45} then i + 2 else i + 1 in
        if skip_digits text j = j then syntax_error text ''exponent requires at least one digit'' j
        else Inr (skip_digits text j)
      else Inr i)"

definition read_number :: "ucs \<Rightarrow> reader \<Rightarrow> data_exc + ucs \<times> reader" where
  "read_number text s =
     (let start = rd_index s in
      ebind (number_integer_end text (if text ! start = 45 then start + 1 else start)) (\<lambda>i.
      ebind (number_fraction_end text i) (\<lambda>i.
      ebind (number_exponent_end text i) (\<lambda>i.
      case ebind (canonical_number (take (i - start) (drop start text))) mk_Number of
        Inr n \<Rightarrow> Inr (n, moved i s)
      | Inl (Value_Error message) \<Rightarrow> syntax_error text message start
      | Inl e \<Rightarrow> Inl e))))"

definition word_at :: "string \<Rightarrow> ucs \<Rightarrow> nat \<Rightarrow> bool" where
  "word_at word text i \<longleftrightarrow> take (length word) (drop i text) = u word"

definition read_scalar :: "ucs \<Rightarrow> reader \<Rightarrow> data_exc + data_value \<times> reader" where
  "read_scalar text s =
     (let i = rd_index s in
      if text ! i = 34 then ebind (read_string text s) (\<lambda>(t, s). Inr (D_Str t, s))
      else if word_at ''true'' text i then Inr (D_Bool True, moved (i + 4) s)
      else if word_at ''false'' text i then Inr (D_Bool False, moved (i + 5) s)
      else if word_at ''null'' text i then Inr (D_Null, moved (i + 4) s)
      else if text ! i = 45 \<or> is_ascii_digit (text ! i) then ebind (read_number text s) (\<lambda>(t, s). Inr (D_Num t, s))
      else reader_error text ''KS3605'' ''unexpected character {}'' [[text ! i]] i)"

text \<open>What follows an item: the end of the array or object, or a comma.\<close>

definition read_separator :: "nat \<Rightarrow> string \<Rightarrow> string \<Rightarrow> ucs \<Rightarrow> reader \<Rightarrow> data_exc + bool \<times> reader" where
  "read_separator close unterminated expected text s =
     (let i = skip_space text (rd_index s) in
      if length text \<le> i then syntax_error text unterminated i
      else if text ! i = close then Inr (True, moved (i + 1) s)
      else if text ! i \<noteq> 44 then syntax_error text expected i
      else Inr (False, moved (skip_space text (i + 1)) s))"

definition read_key :: "ucs \<Rightarrow> (ucs \<times> data_value) list \<Rightarrow> reader \<Rightarrow> data_exc + ucs \<times> reader" where
  "read_key text kvs s =
     (let start = rd_index s in
      if length text \<le> start \<or> text ! start \<noteq> 34 then syntax_error text ''JSON object key must be a string'' start
      else
        ebind (read_string text s) (\<lambda>(key, s).
        if key \<in> fst ` set kvs then reader_error text ''KS3604'' ''duplicate JSON object key {}'' [key] start
        else
          let i = skip_space text (rd_index s) in
          if length text \<le> i \<or> text ! i \<noteq> 58 then syntax_error text ''expected ':' after JSON object key'' i
          else Inr (key, moved (skip_space text (i + 1)) s)))"

text \<open>
  \<open>_value\<close>, \<open>_array\<close> and \<open>_object\<close>. The first argument counts the levels of nesting, the loops take a count of their
  rounds; \<open>max_depth + 1\<close> levels and as many rounds as the text has characters are enough.
\<close>

function (sequential) read_value :: "nat \<Rightarrow> limits \<Rightarrow> ucs \<Rightarrow> int \<Rightarrow> reader \<Rightarrow> data_exc + data_value \<times> reader"
  and read_items :: "nat \<Rightarrow> nat \<Rightarrow> limits \<Rightarrow> ucs \<Rightarrow> int \<Rightarrow> data_value list \<Rightarrow> reader \<Rightarrow> data_exc + data_value list \<times> reader"
  and read_entries :: "nat \<Rightarrow> nat \<Rightarrow> limits \<Rightarrow> ucs \<Rightarrow> int \<Rightarrow> (ucs \<times> data_value) list \<Rightarrow> reader
    \<Rightarrow> data_exc + (ucs \<times> data_value) list \<times> reader" where
  "read_value 0 l text depth s = Inl Out_Of_Fuel"
| "read_value (Suc n) l text depth s =
     ebind (reader_node l text depth s) (\<lambda>s.
     if length text \<le> rd_index s then syntax_error text ''unexpected end of JSON input'' (rd_index s)
     else if text ! rd_index s = 123 then
       let j = skip_space text (rd_index s + 1) in
       if j < length text \<and> text ! j = 125 then Inr (D_Obj [], moved (j + 1) s)
       else ebind (read_entries n (length text) l text depth [] (moved j s)) (\<lambda>(kvs, s). Inr (D_Obj kvs, s))
     else if text ! rd_index s = 91 then
       let j = skip_space text (rd_index s + 1) in
       if j < length text \<and> text ! j = 93 then Inr (D_Arr [], moved (j + 1) s)
       else ebind (read_items n (length text) l text depth [] (moved j s)) (\<lambda>(vs, s). Inr (D_Arr vs, s))
     else read_scalar text s)"
| "read_items n 0 l text depth items s = Inl Out_Of_Fuel"
| "read_items n (Suc k) l text depth items s =
     ebind (read_value n l text (depth + 1) s) (\<lambda>(v, s).
     ebind (read_separator 93 ''unterminated JSON array'' ''expected ',' or ']' in JSON array'' text s) (\<lambda>(closed, s).
     if closed then Inr (items @ [v], s) else read_items n k l text depth (items @ [v]) s))"
| "read_entries n 0 l text depth kvs s = Inl Out_Of_Fuel"
| "read_entries n (Suc k) l text depth kvs s =
     ebind (read_key text kvs s) (\<lambda>(key, s).
     ebind (read_value n l text (depth + 1) s) (\<lambda>(v, s).
     ebind (read_separator 125 ''unterminated JSON object'' ''expected ',' or '}' in JSON object'' text s) (\<lambda>(closed, s).
     if closed then Inr (kvs @ [(key, v)], s) else read_entries n k l text depth (kvs @ [(key, v)]) s)))"

  by pat_completeness auto

termination
  by (relation "inv_image (less_than <*lex*> less_than)
      (\<lambda>x. case x of Inl (n, _) \<Rightarrow> (n, 0) | Inr (Inl (n, k, _)) \<Rightarrow> (n, Suc k) | Inr (Inr (n, k, _)) \<Rightarrow> (n, Suc k))") auto

definition read_document :: "limits \<Rightarrow> ucs \<Rightarrow> data_exc + data_value" where
  "read_document l text =
     ebind (read_value (nat (jl_max_depth l) + 1) l text 1 \<lparr>rd_index = skip_space text 0, rd_nodes = 0\<rparr>) (\<lambda>(v, s).
     let i = skip_space text (rd_index s) in
     if i \<noteq> length text then syntax_error text ''trailing data after JSON value'' i else Inr v)"

definition decode :: "limits \<Rightarrow> ucs \<Rightarrow> data_exc + data_value" where
  "decode l text =
     ebind (limits_validate l) (\<lambda>_.
     if list_ex surrogate text then
       Inl (Data_Error ''KS3605'' ''input contains a surrogate code point'' [] (length (takeWhile (\<lambda>c. \<not> surrogate c) text)))
     else if jl_max_input_bytes l < int (utf8_size text) then
       Inl (Data_Error ''KS3601'' ''JSON input bytes exceed limit {}'' [u (str_int (jl_max_input_bytes l))] 0)
     else read_document l text)"

section \<open>The writer\<close>

record writer =
  wr_text :: ucs
  wr_nodes :: nat

definition writer_add :: "limits \<Rightarrow> ucs \<Rightarrow> writer \<Rightarrow> data_exc + writer" where
  "writer_add l t w =
     (if jl_max_output_bytes l < int (utf8_size (wr_text w) + utf8_size t) then
        Inl (Data_Error ''KS3607'' ''JSON output bytes exceed limit {}'' [u (str_int (jl_max_output_bytes l))] (utf8_size (wr_text w)))
      else Inr (w\<lparr>wr_text := wr_text w @ t\<rparr>))"

definition hex4 :: "nat \<Rightarrow> ucs" where
  "hex4 c = map (\<lambda>d. if d < 10 then 48 + d else 87 + d) [c div 4096 mod 16, c div 256 mod 16, c div 16 mod 16, c mod 16]"

definition replacement :: "nat \<Rightarrow> ucs option" where
  "replacement c =
     (if c = 34 then Some [92, 34] else if c = 92 then Some [92, 92] else if c = 8 then Some [92, 98]
      else if c = 12 then Some [92, 102] else if c = 10 then Some [92, 110] else if c = 13 then Some [92, 114]
      else if c = 9 then Some [92, 116] else if c < 32 then Some ([92, 117] @ hex4 c) else None)"

text \<open>The loop of \<open>string\<close>: what was not replaced is added up to the next replacement.\<close>

fun string_parts :: "limits \<Rightarrow> ucs \<Rightarrow> ucs \<Rightarrow> writer \<Rightarrow> data_exc + writer" where
  "string_parts l pending [] w = (if pending = [] then Inr w else writer_add l pending w)"
| "string_parts l pending (c # cs) w =
     (case replacement c of
        None \<Rightarrow> string_parts l (pending @ [c]) cs w
      | Some r \<Rightarrow>
          ebind (if pending = [] then Inr w else writer_add l pending w) (\<lambda>w.
          ebind (writer_add l r w) (\<lambda>w. string_parts l [] cs w)))"

definition write_string :: "limits \<Rightarrow> ucs \<Rightarrow> writer \<Rightarrow> data_exc + writer" where
  "write_string l t w =
     (if list_ex surrogate t then
        Inl (Data_Error ''KS3608'' ''string contains a surrogate code point'' [] (utf8_size (wr_text w)))
      else ebind (writer_add l [34] w) (\<lambda>w. ebind (string_parts l [] t w) (writer_add l [34])))"

definition writer_node :: "limits \<Rightarrow> int \<Rightarrow> writer \<Rightarrow> data_exc + writer" where
  "writer_node l depth w =
     (if jl_max_depth l < depth then
        Inl (Data_Error ''KS3602'' ''JSON depth exceeds limit {}'' [u (str_int (jl_max_depth l))] (utf8_size (wr_text w)))
      else if jl_max_nodes l < int (wr_nodes w + 1) then
        Inl (Data_Error ''KS3603'' ''JSON node count exceeds limit {}'' [u (str_int (jl_max_nodes l))] (utf8_size (wr_text w)))
      else Inr (w\<lparr>wr_nodes := wr_nodes w + 1\<rparr>))"

text \<open>The size of a value that the recursion of the writer goes down on: it does not depend on the order of entries.\<close>

fun data_size :: "data_value \<Rightarrow> nat" where
  "data_size (D_Arr vs) = 2 + sum_list (map (\<lambda>v. 1 + data_size v) vs)"
| "data_size (D_Obj kvs) = 2 + sum_list (map (\<lambda>(k, v). 1 + data_size v) kvs)"
| "data_size v = 1"

lemma sum_list_sort_key: "sum_list (map f (sort_key g xs)) = (sum_list (map f xs) :: nat)"
proof -
  have "sum_list (map f (insort_key g x ys)) = f x + sum_list (map f ys)" for x ys by (induction ys) auto
  then show ?thesis by (induction xs) simp_all
qed

function write_value :: "limits \<Rightarrow> data_value \<Rightarrow> int \<Rightarrow> writer \<Rightarrow> data_exc + writer"
  and write_items :: "limits \<Rightarrow> bool \<Rightarrow> data_value list \<Rightarrow> int \<Rightarrow> writer \<Rightarrow> data_exc + writer"
  and write_entries :: "limits \<Rightarrow> bool \<Rightarrow> (ucs \<times> data_value) list \<Rightarrow> int \<Rightarrow> writer \<Rightarrow> data_exc + writer" where
  "write_value l v depth w =
     ebind (writer_node l depth w) (\<lambda>w.
     case v of
       D_Null \<Rightarrow> writer_add l (u ''null'') w
     | D_Bool b \<Rightarrow> writer_add l (if b then u ''true'' else u ''false'') w
     | D_Str t \<Rightarrow> write_string l t w
     | D_Num t \<Rightarrow> writer_add l t w
     | D_Arr vs \<Rightarrow> ebind (writer_add l [91] w) (\<lambda>w. ebind (write_items l True vs depth w) (writer_add l [93]))
     | D_Obj kvs \<Rightarrow> ebind (writer_add l [123] w) (\<lambda>w. ebind (write_entries l True (sort_key fst kvs) depth w) (writer_add l [125])))"
| "write_items l first [] depth w = Inr w"
| "write_items l first (v # vs) depth w =
     ebind (if first then Inr w else writer_add l [44] w) (\<lambda>w.
     ebind (write_value l v (depth + 1) w) (\<lambda>w. write_items l False vs depth w))"
| "write_entries l first [] depth w = Inr w"
| "write_entries l first ((k, v) # kvs) depth w =
     ebind (if first then Inr w else writer_add l [44] w) (\<lambda>w.
     ebind (write_string l k w) (\<lambda>w.
     ebind (writer_add l [58] w) (\<lambda>w.
     ebind (write_value l v (depth + 1) w) (\<lambda>w. write_entries l False kvs depth w))))"
  by pat_completeness auto

termination
  by (relation "measure (\<lambda>x. case x of Inl (l, v, _) \<Rightarrow> data_size v
      | Inr (Inl (l, _, vs, _)) \<Rightarrow> 1 + sum_list (map (\<lambda>v. 1 + data_size v) vs)
      | Inr (Inr (l, _, kvs, _)) \<Rightarrow> 1 + sum_list (map (\<lambda>(k, v). 1 + data_size v) kvs))")
    (auto simp: sum_list_sort_key)

definition encode :: "limits \<Rightarrow> data_value \<Rightarrow> data_exc + ucs" where
  "encode l v =
     ebind (limits_validate l) (\<lambda>_.
     ebind (write_value l v 1 \<lparr>wr_text = [], wr_nodes = 0\<rparr>) (\<lambda>w. Inr (wr_text w)))"

end
