(* ===== verification/Data_Numbers.thy ===== *)
theory Data_Numbers
  imports Data_Json Complex_Main
begin

text \<open>
  The numbers of the JSON codec: canonical texts denote the number that was written, exactly, and are the same for
  equal numbers.
\<close>

section \<open>Digits\<close>

abbreviation digits :: "ucs \<Rightarrow> bool" where
  "digits t \<equiv> list_all is_ascii_digit t"

lemma digits_value_append: "digits_value (a @ b) = digits_value a * 10 ^ length b + digits_value b"
  by (induction a) (simp_all add: algebra_simps power_add)

lemma digits_value_zeros [simp]: "digits_value (replicate n 48) = 0"
  by (induction n) simp_all

lemma digits_value_lstrip: "digits_value (dropWhile (\<lambda>c. c = 48) t) = digits_value t"
  by (induction t) simp_all

lemma dropWhile_suffix: "\<exists>k. t = replicate k a @ dropWhile (\<lambda>c. c = a) t"
proof
  have "takeWhile (\<lambda>c. c = a) t = replicate (length (takeWhile (\<lambda>c. c = a) t)) a"
    by (rule replicate_length_same [symmetric]) (auto dest: set_takeWhileD)
  then show "t = replicate (length (takeWhile (\<lambda>c. c = a) t)) a @ dropWhile (\<lambda>c. c = a) t"
    by (metis takeWhile_dropWhile_id)
qed

lemma strip_zeros_suffix: "\<exists>k. t = strip_zeros t @ replicate k 48"
proof -
  obtain k where k: "rev t = replicate k 48 @ dropWhile (\<lambda>c. c = 48) (rev t)" using dropWhile_suffix [of "rev t" 48] by blast
  have "t = rev (replicate k 48 @ dropWhile (\<lambda>c. c = 48) (rev t))" by (subst k [symmetric]) simp
  then show ?thesis unfolding strip_zeros_def rev_append rev_replicate by blast
qed

lemma digits_value_mod: "digits_value (t @ [c]) = 10 * digits_value t + (c - 48)"
  by (simp add: digits_value_append)

text \<open>The digits of a canonical number: no zero at either end.\<close>

definition tight :: "ucs \<Rightarrow> bool" where
  "tight d \<longleftrightarrow> d \<noteq> [] \<and> digits d \<and> hd d \<noteq> 48 \<and> last d \<noteq> 48"

lemma digits_value_0: "digits t \<Longrightarrow> digits_value t = 0 \<Longrightarrow> t = replicate (length t) 48"
  by (induction t) (auto simp: is_ascii_digit_def)

lemma digits_value_pos: "digits t \<Longrightarrow> t \<noteq> [] \<Longrightarrow> hd t \<noteq> 48 \<Longrightarrow> 0 < digits_value t"
  by (cases t) (auto simp: is_ascii_digit_def)

lemma ten_digit: "a < 10 \<Longrightarrow> b < 10 \<Longrightarrow> 10 * m + a = 10 * n + b \<Longrightarrow> m = n \<and> a = b" for a b m n :: nat
  by presburger

lemma digits_value_inj:
  assumes "digits s" "digits t" "s = [] \<or> hd s \<noteq> 48" "t = [] \<or> hd t \<noteq> 48" "digits_value s = digits_value t"
  shows "s = t"
  using assms
proof (induction s arbitrary: t rule: rev_induct)
  case Nil
  then show ?case using digits_value_pos [of t] by auto
next
  case (snoc c s)
  have "t \<noteq> []" using digits_value_pos [of "s @ [c]"] snoc.prems by auto
  then obtain t' d where t: "t = t' @ [d]" by (cases t rule: rev_cases) auto
  have c: "48 \<le> c" "c \<le> 57" "48 \<le> d" "d \<le> 57" using snoc.prems by (simp_all add: t is_ascii_digit_def)
  have "10 * digits_value s + (c - 48) = 10 * digits_value t' + (d - 48)"
    using snoc.prems(5) unfolding t digits_value_mod .
  moreover have "c - 48 < 10" "d - 48 < 10" using c by simp_all
  ultimately have eq: "digits_value s = digits_value t'" "c - 48 = d - 48" using ten_digit by blast+
  then have "c = d" using c by linarith
  moreover have "s = [] \<or> hd s \<noteq> 48" "t' = [] \<or> hd t' \<noteq> 48" using snoc.prems(3,4) by (auto simp: t hd_append)
  ultimately show ?case using snoc.IH [of t'] snoc.prems(1,2) eq(1) by (simp add: t)
qed

lemma tight_mod: "tight d \<Longrightarrow> digits_value d mod 10 \<noteq> 0"
proof (cases d rule: rev_cases)
  case (snoc t c)
  assume "tight d"
  then have "c \<noteq> 48" "48 \<le> c" "c \<le> 57" by (auto simp: tight_def snoc is_ascii_digit_def)
  then have "c - 48 < 10" "c - 48 \<noteq> 0" by simp_all
  then have "(10 * digits_value t + (c - 48)) mod 10 \<noteq> 0" by (metis mod_less mod_mult_self4)
  then show ?thesis unfolding snoc digits_value_mod .
qed (simp add: tight_def)

section \<open>The number that a text denotes\<close>

definition scaled :: "bool \<Rightarrow> nat \<Rightarrow> int \<Rightarrow> rat" where
  "scaled negative m e = (if negative then - 1 else 1) * of_nat m * 10 powi e"

definition number_value :: "ucs \<Rightarrow> rat" where
  "number_value t =
     (let (negative, r) = number_sign t; integer = takeWhile is_ascii_digit r; r = dropWhile is_ascii_digit r;
        fraction = if r \<noteq> [] \<and> hd r = 46 then takeWhile is_ascii_digit (tl r) else [];
        r = if r \<noteq> [] \<and> hd r = 46 then dropWhile is_ascii_digit (tl r) else r;
        exponent = (if r = [] then 0 else let (neg, q) = exponent_sign (tl r) in
          if neg then - int (digits_value q) else int (digits_value q))
      in scaled negative (digits_value (integer @ fraction)) (exponent - int (length fraction)))"

lemma scaled_unique:
  assumes "tight d" "tight d'" "scaled n (digits_value d) e = scaled n' (digits_value d') e'"
  shows "n = n' \<and> d = d' \<and> e = e'"
proof -
  have pos: "0 < digits_value d" "0 < digits_value d'" using assms(1,2) by (simp_all add: tight_def digits_value_pos)
  have p: "(0::rat) < of_nat (digits_value d) * 10 powi e" "(0::rat) < of_nat (digits_value d') * 10 powi e'"
    using pos by (simp_all add: zero_less_power_int)
  have eq: "of_nat (digits_value d) * 10 powi e = (of_nat (digits_value d') * 10 powi e' :: rat)" "n = n'"
    using assms(3) p unfolding scaled_def by (auto split: if_splits)
  have wlog: "x \<le> y \<Longrightarrow> of_nat (digits_value a) * 10 powi x = (of_nat (digits_value b) * 10 powi y :: rat) \<Longrightarrow> tight a \<Longrightarrow> x = y"
    for a b x y
  proof (rule ccontr)
    assume xy: "x \<le> y" "x \<noteq> y" and e: "of_nat (digits_value a) * 10 powi x = (of_nat (digits_value b) * 10 powi y :: rat)" and "tight a"
    have "(10::rat) powi y = 10 powi x * 10 ^ nat (y - x)"
      using xy by (simp add: power_int_add [symmetric] flip: power_int_of_nat)
    then have "(of_nat (digits_value a) :: rat) = of_nat (digits_value b * 10 ^ nat (y - x))"
      using e by simp
    then have "digits_value a = digits_value b * 10 ^ nat (y - x)" by (simp only: of_nat_eq_iff)
    moreover obtain k where "nat (y - x) = Suc k" using xy by (metis Suc_pred zero_less_nat_eq diff_gt_0_iff_gt order_le_less)
    ultimately show False using tight_mod [OF \<open>tight a\<close>] by simp
  qed
  have "e = e'" using wlog [of e e' d d'] wlog [of e' e d' d] eq(1) assms(1,2) by (metis linear)
  then have "digits_value d = digits_value d'" using eq(1) by simp
  then show ?thesis
    using digits_value_inj [of d d'] assms(1,2) \<open>e = e'\<close> eq(2) by (simp add: tight_def)
qed

section \<open>Texts that are laid out\<close>

lemma u_append [simp]: "u (s @ t) = u s @ u t"
  by (simp add: u_def)

lemma u_str_nat: "digits (u (str_nat n)) \<and> digits_value (u (str_nat n)) = n \<and> u (str_nat n) \<noteq> []
    \<and> (0 < n \<longrightarrow> hd (u (str_nat n)) \<noteq> 48)"
proof (induction n rule: str_nat.induct)
  case (1 n)
  show ?case
  proof (cases "n < 10")
    case True
    then show ?thesis by (simp add: str_nat.simps [of n] u_def is_ascii_digit_def)
  next
    case False
    have d: "u [char_of (48 + n mod 10)] = [48 + n mod 10]" by (simp add: u_def)
    have "digits_value (u (str_nat (n div 10)) @ [48 + n mod 10]) = n"
      using 1 [OF False] by (simp add: digits_value_append)
    then show ?thesis
      using 1 [OF False] False by (simp add: str_nat.simps [of n] d is_ascii_digit_def hd_append)
  qed
qed

lemma digits_value_length:
  assumes "digits t" "t \<noteq> []" "hd t \<noteq> 48"
  shows "10 ^ (length t - 1) \<le> digits_value t"
proof (cases t)
  case (Cons c r)
  then have "1 \<le> c - 48" using assms by (auto simp: is_ascii_digit_def)
  then have "1 * 10 ^ length r \<le> (c - 48) * 10 ^ length r" by (rule mult_le_mono1)
  then have "10 ^ length r \<le> (c - 48) * 10 ^ length r + digits_value r" by linarith
  then show ?thesis by (simp only: Cons digits_value.simps length_Cons diff_Suc_1)
qed (use assms in simp)

definition exponent_text :: "int \<Rightarrow> ucs" where
  "exponent_text e = (if e = 0 then [] else 101 # u (str_int e))"

definition layout :: "bool \<Rightarrow> ucs \<Rightarrow> ucs \<Rightarrow> int \<Rightarrow> ucs" where
  "layout negative integer fraction e =
     (if negative then [45] else []) @ integer @ (if fraction = [] then [] else 46 # fraction) @ exponent_text e"

lemma digit_char: "is_ascii_digit c \<Longrightarrow> c \<noteq> 45 \<and> c \<noteq> 46 \<and> c \<noteq> 43 \<and> c \<noteq> 101 \<and> c \<noteq> 69"
  by (auto simp: is_ascii_digit_def)

lemma exponent_sign_str: "exponent_sign (u (str_int e)) = (e < 0, u (str_nat (nat \<bar>e\<bar>)))"
proof (cases "e < 0")
  case True
  then show ?thesis by (simp add: str_int_def exponent_sign_def u_def)
next
  case False
  obtain c r where r: "u (str_nat (nat e)) = c # r" "is_ascii_digit c" using u_str_nat [of "nat e"] by (cases "u (str_nat (nat e))") auto
  then show ?thesis using False digit_char by (simp add: str_int_def exponent_sign_def)
qed

lemma takeWhile_digits: "digits t \<Longrightarrow> r = [] \<or> \<not> is_ascii_digit (hd r) \<Longrightarrow>
    takeWhile is_ascii_digit (t @ r) = t \<and> dropWhile is_ascii_digit (t @ r) = r"
  by (induction t) (cases r; auto)+

lemma exponent_part_digits:
  assumes "digits d" "d \<noteq> []" "hd d \<noteq> 48" "length d \<le> 9" "digits_value d \<le> 1000000" "exponent_sign r = (negative, d)"
  shows "exponent_part (101 # r) = Inr (if negative then - int (digits_value d) else int (digits_value d), [])"
proof -
  have "dropWhile (\<lambda>c. c = 48) d = d" using assms(2,3) by (cases d) auto
  moreover have "takeWhile is_ascii_digit d = d" "dropWhile is_ascii_digit d = []"
    using takeWhile_digits [OF assms(1), of "[]"] by simp_all
  ultimately show ?thesis
    using assms(2,4-6) by (simp add: exponent_part_def Let_def del: takeWhile_eq_all_conv dropWhile_eq_Nil_conv dropWhile_eq_self_iff)
qed

lemma exponent_part_text:
  assumes "\<bar>e\<bar> \<le> 1000000"
  shows "exponent_part (exponent_text e) = Inr (e, [])"
proof (cases "e = 0")
  case False
  let ?n = "nat \<bar>e\<bar>" and ?d = "u (str_nat (nat \<bar>e\<bar>))"
  have n: "0 < ?n" "?n \<le> 1000000" using False assms by simp_all
  have d: "digits ?d" "digits_value ?d = ?n" "?d \<noteq> []" "hd ?d \<noteq> 48" using u_str_nat [of ?n] n by simp_all
  have "length ?d \<le> 9"
  proof (rule ccontr)
    assume "\<not> length ?d \<le> 9"
    then have "(10::nat) ^ 9 \<le> 10 ^ (length ?d - 1)" by (intro power_increasing) simp_all
    then have "(10::nat) ^ 9 \<le> ?n" using le_trans digits_value_length [OF d(1,3,4)] unfolding d(2) by blast
    moreover have "(10::nat) ^ 9 = 1000000000" by simp
    ultimately show False using n(2) by linarith
  qed
  then have "exponent_part (101 # u (str_int e)) = Inr (if e < 0 then - int (digits_value ?d) else int (digits_value ?d), [])"
    using d n(2) exponent_sign_str by (intro exponent_part_digits) simp_all
  then show ?thesis using False unfolding exponent_text_def d(2) by simp
qed (simp add: exponent_part_def exponent_text_def)

lemma exponent_text_start: "exponent_text e = [] \<or> hd (exponent_text e) = 101"
  by (simp add: exponent_text_def)

lemma layout_sign:
  assumes "digits integer" "integer \<noteq> []"
  shows "number_sign (layout negative integer fraction e)
    = (negative, integer @ (if fraction = [] then [] else 46 # fraction) @ exponent_text e)"
  using assms digit_char by (cases integer) (auto simp: layout_def number_sign_def)

lemma layout_exponent:
  assumes "digits integer" "integer = [48] \<or> integer \<noteq> [] \<and> hd integer \<noteq> 48" "digits fraction"
  shows "canonical_number (layout negative integer fraction e) = ebind (exponent_part (exponent_text e)) (\<lambda>(n, r).
    if r \<noteq> [] then bad_value ''trailing characters in JSON number'' else Inr (canonical_text negative integer fraction n))"
proof -
  let ?f = "(if fraction = [] then [] else 46 # fraction) @ exponent_text e"
  have start: "?f = [] \<or> \<not> is_ascii_digit (hd ?f)"
    using exponent_text_start [of e] by (auto simp: is_ascii_digit_def)
  have "integer_part (integer @ ?f) = Inr (integer, ?f)"
  proof (cases "integer = [48]")
    case True
    then show ?thesis using start by (simp add: integer_part_def)
  next
    case False
    then obtain c r where "integer = c # r" "49 \<le> c" "c \<le> 57"
      using assms(1,2) by (cases integer) (auto simp: is_ascii_digit_def)
    then show ?thesis using takeWhile_digits [OF assms(1) start] by (simp add: integer_part_def)
  qed
  moreover have "number_fraction ?f = Inr (fraction, exponent_text e)"
  proof (cases "fraction = []")
    case True
    then show ?thesis using exponent_text_start [of e] by (cases "exponent_text e") (auto simp: number_fraction_def)
  next
    case False
    have "exponent_text e = [] \<or> \<not> is_ascii_digit (hd (exponent_text e))"
      using exponent_text_start [of e] by (auto simp: is_ascii_digit_def)
    then show ?thesis using takeWhile_digits [OF assms(3)] False by (simp add: number_fraction_def)
  qed
  moreover have "integer \<noteq> []" using assms(2) by auto
  moreover from this have "layout negative integer fraction e \<noteq> []" by (simp add: layout_def)
  ultimately show ?thesis
    by (simp add: canonical_number_def layout_sign [OF assms(1)])
qed

lemma layout_canonical:
  assumes "digits integer" "integer = [48] \<or> integer \<noteq> [] \<and> hd integer \<noteq> 48" "digits fraction" "\<bar>e\<bar> \<le> 1000000"
  shows "canonical_number (layout negative integer fraction e) = Inr (canonical_text negative integer fraction e)"
  by (simp add: layout_exponent [OF assms(1-3)] exponent_part_text [OF assms(4)])

lemma layout_value:
  assumes "digits integer" "integer \<noteq> []" "digits fraction"
  shows "number_value (layout negative integer fraction e) = scaled negative (digits_value (integer @ fraction)) (e - int (length fraction))"
proof -
  let ?f = "(if fraction = [] then [] else 46 # fraction) @ exponent_text e"
  have ex: "exponent_text e = [] \<or> \<not> is_ascii_digit (hd (exponent_text e))" "exponent_text e = [] \<or> hd (exponent_text e) \<noteq> 46"
    using exponent_text_start [of e] by (auto simp: is_ascii_digit_def)
  then have "takeWhile is_ascii_digit (integer @ ?f) = integer \<and> dropWhile is_ascii_digit (integer @ ?f) = ?f"
    by (intro takeWhile_digits [OF assms(1)]) (auto simp: is_ascii_digit_def)
  moreover have "takeWhile is_ascii_digit (fraction @ exponent_text e) = fraction" "dropWhile is_ascii_digit (fraction @ exponent_text e) = exponent_text e"
    using takeWhile_digits [OF assms(3) ex(1)] by simp_all
  moreover have "(if exponent_text e = [] then 0 else let (neg, q) = exponent_sign (tl (exponent_text e)) in
      if neg then - int (digits_value q) else int (digits_value q)) = e"
    using u_str_nat [of "nat \<bar>e\<bar>"] by (auto simp: exponent_text_def exponent_sign_str)
  ultimately show ?thesis
    using ex(2) unfolding number_value_def Let_def layout_sign [OF assms(1,2)]
    by (cases "fraction = []") (auto simp del: takeWhile_eq_all_conv dropWhile_eq_Nil_conv)
qed

section \<open>Canonical texts\<close>

lemma scaled_shift: "scaled negative (m * 10 ^ k) e = scaled negative m (e + int k)"
  by (simp add: scaled_def power_int_add algebra_simps)

lemma strip_zeros_tight: "tight d \<Longrightarrow> strip_zeros (d @ replicate k 48) = d"
proof -
  assume "tight d"
  then obtain t c where d: "d = t @ [c]" "c \<noteq> 48" by (cases d rule: rev_cases) (auto simp: tight_def)
  have "dropWhile (\<lambda>c. c = 48) (replicate k 48 @ c # rev t) = c # rev t" using d(2) by (induction k) simp_all
  then show ?thesis by (simp add: strip_zeros_def d(1))
qed

lemma lstrip_tight: "tight d \<Longrightarrow> dropWhile (\<lambda>c. c = 48) (replicate j 48 @ d @ r) = d @ r"
  by (induction j) (cases d; simp add: tight_def)+

text \<open>What the canonical text is made of: the digits between the zeros, and a scale.\<close>

lemma canonical_text_tight:
  assumes "tight d" "integer @ fraction = replicate j 48 @ d @ replicate k 48"
  shows "canonical_text negative integer fraction e = number_text negative d (e - int (length fraction) + int k)"
    and "scaled negative (digits_value (integer @ fraction)) (e - int (length fraction))
       = scaled negative (digits_value d) (e - int (length fraction) + int k)"
proof -
  have "d \<noteq> []" using assms(1) by (simp add: tight_def)
  then show "canonical_text negative integer fraction e = number_text negative d (e - int (length fraction) + int k)"
    unfolding canonical_text_def assms(2) lstrip_tight [OF assms(1)] strip_zeros_tight [OF assms(1)] Let_def by simp
  show "scaled negative (digits_value (integer @ fraction)) (e - int (length fraction))
       = scaled negative (digits_value d) (e - int (length fraction) + int k)"
    unfolding assms(2) by (simp add: digits_value_append scaled_shift)
qed

lemma zeros_or_tight:
  assumes "digits t"
  obtains "digits_value t = 0" "dropWhile (\<lambda>c. c = 48) t = []"
  | d j k where "tight d" "t = replicate j 48 @ d @ replicate k 48"
proof (cases "dropWhile (\<lambda>c. c = 48) t = []")
  case True
  have "digits_value t = 0" using digits_value_lstrip [of t] unfolding True by simp
  then show ?thesis using True by (rule that(1))
next
  case False
  obtain j where j: "t = replicate j 48 @ dropWhile (\<lambda>c. c = 48) t" using dropWhile_suffix [of t 48] ..
  let ?r = "dropWhile (\<lambda>c. c = 48) t" and ?d = "strip_zeros (dropWhile (\<lambda>c. c = 48) t)"
  obtain k where k: "?r = ?d @ replicate k 48" using strip_zeros_suffix [of ?r] ..
  have hd: "hd ?r \<noteq> 48" using False hd_dropWhile [of "\<lambda>c. c = 48" t] by simp
  have "?d \<noteq> []"
  proof
    assume "?d = []"
    then have "?r = replicate k 48" using k by simp
    then show False using hd False by (cases k) simp_all
  qed
  moreover from this have "last ?d \<noteq> 48"
    using hd_dropWhile [of "\<lambda>c. c = 48" "rev ?r"] by (simp add: strip_zeros_def last_rev)
  moreover have "hd ?d \<noteq> 48" using hd k \<open>?d \<noteq> []\<close> by (metis hd_append2)
  moreover have "digits ?d" using assms j k by (metis list_all_append)
  ultimately have "tight ?d" by (simp add: tight_def)
  then show ?thesis using that(2) [of ?d j k] j k by simp
qed

lemma number_text_layout:
  assumes "tight d"
  obtains integer fraction e j k where "number_text negative d s = layout negative integer fraction e"
    and "digits integer" "integer = [48] \<or> integer \<noteq> [] \<and> hd integer \<noteq> 48" "digits fraction"
    and "integer @ fraction = replicate j 48 @ d @ replicate k 48" "s = e - int (length fraction) + int k"
    and "e = 0 \<or> e = s + int (length d) - 1"
proof -
  have d: "d \<noteq> []" "digits d" "hd d \<noteq> 48" using assms by (simp_all add: tight_def)
  let ?e = "s + int (length d) - 1" and ?p = "int (length d) + s"
  have sign: "u ''-'' = [45]" "u ''.'' = [46]" "u ''e'' = [101]" "u ''0.'' = [48, 46]" by (simp_all add: u_def)
  consider (sci) "21 \<le> ?e \<or> ?e \<le> - 7" | (small) "\<not> (21 \<le> ?e \<or> ?e \<le> - 7)" "?p \<le> 0"
    | (large) "\<not> (21 \<le> ?e \<or> ?e \<le> - 7)" "int (length d) \<le> ?p" | (inside) "\<not> (21 \<le> ?e \<or> ?e \<le> - 7)" "0 < ?p" "?p < int (length d)"
    by linarith
  then show thesis
  proof cases
    case sci
    then have "?e \<noteq> 0" by auto
    obtain c r where cr: "d = c # r" using d(1) by (cases d) auto
    have "number_text negative d s = layout negative [c] r ?e"
      using sci \<open>?e \<noteq> 0\<close> by (simp add: number_text_def layout_def exponent_text_def sign Let_def cr)
    then show thesis by (rule that [of _ _ _ 0 0]) (use d cr in auto)
  next
    case small
    let ?f = "replicate (nat (- ?p)) 48 @ d"
    have t: "number_text negative d s = layout negative [48] ?f 0"
      using small d(1) by (simp add: number_text_def layout_def exponent_text_def sign Let_def)
    have f: "[48] @ ?f = replicate (Suc (nat (- ?p))) 48 @ d @ replicate 0 48" by simp
    show thesis
      by (rule that [OF t _ _ _ f]) (use d small in \<open>auto simp: list_all_iff is_ascii_digit_def\<close>)
  next
    case large
    then have "0 \<le> s" "0 < int (length d)" using d(1) by simp_all
    then have "\<not> ?p \<le> 0" by linarith
    let ?i = "d @ replicate (nat s) 48"
    have "nat (?p - int (length d)) = nat s" by simp
    then have "number_text negative d s = layout negative ?i [] 0"
      using large d(1) \<open>\<not> ?p \<le> 0\<close> by (simp add: number_text_def layout_def exponent_text_def sign Let_def)
    then show thesis
      by (rule that [of _ _ _ 0 "nat s"]) (use d \<open>0 \<le> s\<close> in \<open>auto simp: list_all_iff is_ascii_digit_def\<close>)
  next
    case inside
    let ?k = "nat ?p"
    have k: "0 < ?k" "?k < length d" using inside by linarith+
    have t: "number_text negative d s = layout negative (take ?k d) (drop ?k d) 0"
      using inside k by (simp add: number_text_def layout_def exponent_text_def sign Let_def)
    have "take ?k d \<noteq> []" "hd (take ?k d) \<noteq> 48" using k d by (simp_all add: hd_take)
    then show thesis
      by (rule_tac that [OF t, of 0 0]) (use d inside k in \<open>auto simp: list_all_iff dest: in_set_takeD in_set_dropD\<close>)
  qed
qed

section \<open>Canonical numbers are exact\<close>

lemma integer_part_Inr:
  "integer_part t = Inr (integer, r) \<Longrightarrow> integer = takeWhile is_ascii_digit t \<and> r = dropWhile is_ascii_digit t"
proof (cases t)
  case (Cons c q)
  assume "integer_part t = Inr (integer, r)"
  then show ?thesis
    by (cases q) (auto simp: Cons integer_part_def is_ascii_digit_def split: if_splits)
qed (simp add: integer_part_def)

lemma number_fraction_Inr:
  "number_fraction t = Inr (fraction, r) \<Longrightarrow>
     fraction = (if t \<noteq> [] \<and> hd t = 46 then takeWhile is_ascii_digit (tl t) else [])
   \<and> r = (if t \<noteq> [] \<and> hd t = 46 then dropWhile is_ascii_digit (tl t) else t)"
  by (auto simp: number_fraction_def split: list.splits if_splits)

lemma exponent_part_Inr:
  assumes "exponent_part t = Inr (e, [])"
  shows "e = (if t = [] then 0 else let (neg, q) = exponent_sign (tl t) in if neg then - int (digits_value q) else int (digits_value q))"
proof (cases t)
  case (Cons c r)
  obtain neg q where q: "exponent_sign r = (neg, q)" by (cases "exponent_sign r")
  have "dropWhile is_ascii_digit q = []" "c = 101 \<or> c = 69"
    using assms by (auto simp: Cons exponent_part_def q Let_def simp del: dropWhile_eq_Nil_conv split: if_splits)
  then have t: "takeWhile is_ascii_digit q = q" by (metis append_Nil2 takeWhile_dropWhile_id)
  have "digits_value (if dropWhile (\<lambda>c. c = 48) q = [] then [48] else dropWhile (\<lambda>c. c = 48) q) = digits_value q"
    using digits_value_lstrip [of q] by (cases "dropWhile (\<lambda>c. c = 48) q = []") (simp_all del: dropWhile_eq_Nil_conv)
  then show ?thesis
    using assms \<open>c = 101 \<or> c = 69\<close> unfolding Cons exponent_part_def
    by (simp add: q t Let_def split: if_splits)
qed (use assms in \<open>simp add: exponent_part_def\<close>)

lemma canonical_number_parts:
  assumes "canonical_number t = Inr a"
  obtains negative integer fraction e where "a = canonical_text negative integer fraction e" "digits (integer @ fraction)"
    and "number_value t = scaled negative (digits_value (integer @ fraction)) (e - int (length fraction))"
proof -
  obtain negative r where sign: "number_sign t = (negative, r)" by (cases "number_sign t")
  obtain integer r1 fraction r2 e where p: "integer_part r = Inr (integer, r1)" "number_fraction r1 = Inr (fraction, r2)"
      "exponent_part r2 = Inr (e, [])" "a = canonical_text negative integer fraction e"
    using assms unfolding canonical_number_def sign by (auto simp: ebind_Inr split: if_splits)
  note parts = integer_part_Inr [OF p(1)] number_fraction_Inr [OF p(2)] exponent_part_Inr [OF p(3)]
  have "number_value t = scaled negative (digits_value (integer @ fraction)) (e - int (length fraction))"
    unfolding number_value_def sign Let_def prod.case using parts by (simp add: Let_def)
  moreover have "digits (integer @ fraction)"
    using parts by (auto simp: list_all_iff dest: set_takeWhileD)
  ultimately show thesis using that p(4) by blast
qed

text \<open>A canonical text is zero, or the text of tight digits and a scale.\<close>

lemma canonical_number_shape:
  assumes "canonical_number t = Inr a"
  obtains (zero) "a = u ''0''" "number_value t = 0"
  | (digits) negative d s where "tight d" "a = number_text negative d s" "number_value t = scaled negative (digits_value d) s"
proof -
  obtain negative integer fraction e where a: "a = canonical_text negative integer fraction e" "digits (integer @ fraction)"
      "number_value t = scaled negative (digits_value (integer @ fraction)) (e - int (length fraction))"
    by (rule canonical_number_parts [OF assms])
  from a(2) show thesis
  proof (cases rule: zeros_or_tight)
    case 1
    then show thesis using a by (intro zero) (simp_all add: canonical_text_def Let_def scaled_def)
  next
    case (2 d j k)
    show thesis
      by (rule digits [OF 2(1)]) (use a canonical_text_tight [OF 2] in simp_all)
  qed
qed

lemma number_text_value: "tight d \<Longrightarrow> number_value (number_text negative d s) = scaled negative (digits_value d) s"
proof -
  assume d: "tight d"
  then obtain integer fraction e j k where t: "number_text negative d s = layout negative integer fraction e"
      "digits integer" "integer = [48] \<or> integer \<noteq> [] \<and> hd integer \<noteq> 48" "digits fraction"
      "integer @ fraction = replicate j 48 @ d @ replicate k 48" "s = e - int (length fraction) + int k"
    by (rule number_text_layout)
  then have "integer \<noteq> []" by auto
  then show ?thesis
    using layout_value [OF t(2) _ t(4)] canonical_text_tight(2) [OF d t(5)] t(1,6) by simp
qed

abbreviation exponent_limit :: "data_exc + 'a" where
  "exponent_limit \<equiv> bad_value ''JSON exponent magnitude exceeds data/v1 limit''"

lemma exponent_part_large:
  assumes "1000000 < \<bar>e\<bar>"
  shows "exponent_part (exponent_text e) = exponent_limit"
proof -
  let ?d = "u (str_nat (nat \<bar>e\<bar>))"
  have d: "digits ?d" "digits_value ?d = nat \<bar>e\<bar>" "?d \<noteq> []" "hd ?d \<noteq> 48" using u_str_nat [of "nat \<bar>e\<bar>"] assms by simp_all
  have "dropWhile (\<lambda>c. c = 48) ?d = ?d" using d(3,4) by (cases ?d) auto
  moreover have "takeWhile is_ascii_digit ?d = ?d" using takeWhile_digits [OF d(1), of "[]"] by simp
  moreover have "e \<noteq> 0" "1000000 < nat \<bar>e\<bar>" using assms by simp_all
  ultimately show ?thesis
    using d(2,3) by (simp add: exponent_part_def exponent_text_def exponent_sign_str Let_def
      del: takeWhile_eq_all_conv dropWhile_eq_Nil_conv dropWhile_eq_self_iff)
qed

lemma canonical_again:
  assumes "canonical_number t = Inr a"
  shows "canonical_number a = Inr a \<or> canonical_number a = exponent_limit"
  using assms
proof (cases rule: canonical_number_shape)
  case zero
  have "canonical_number (u ''0'') = Inr (u ''0'')" by code_simp
  then show ?thesis using zero by simp
next
  case (digits negative d s)
  then obtain integer fraction e j k where t: "number_text negative d s = layout negative integer fraction e"
      "digits integer" "integer = [48] \<or> integer \<noteq> [] \<and> hd integer \<noteq> 48" "digits fraction"
      "integer @ fraction = replicate j 48 @ d @ replicate k 48" "s = e - int (length fraction) + int k"
    by (rule_tac number_text_layout)
  show ?thesis
  proof (cases "\<bar>e\<bar> \<le> 1000000")
    case True
    then show ?thesis
      using layout_canonical [OF t(2-4)] canonical_text_tight(1) [OF digits(1) t(5)] t(1,6) digits(2) by simp
  next
    case False
    then show ?thesis using layout_exponent [OF t(2-4)] exponent_part_large t(1) digits(2) by simp
  qed
qed

text \<open>
  C32. Numbers are exact. A canonical text denotes the rational number that was written, and two texts have the same
  canonical text exactly when they denote the same number. The canonical text is its own, unless its
  exponent has left the limit of one million, where it is refused.
\<close>

theorem canonical_numbers_exact:
  assumes "canonical_number s = Inr a" "canonical_number t = Inr b"
  shows "number_value a = number_value s \<and> (a = b \<longleftrightarrow> number_value s = number_value t)
    \<and> (canonical_number a = Inr a \<or> canonical_number a = exponent_limit)"
proof -
  have zero: "number_value (u ''0'') = 0" by (simp add: number_value_def u_def number_sign_def is_ascii_digit_def scaled_def)
  have same: "number_value c = number_value r" if "canonical_number r = Inr c" for r c
    using that by (cases rule: canonical_number_shape) (simp_all add: zero number_text_value)
  have nonzero: "scaled n (digits_value d) e \<noteq> 0" if "tight d" for n d e
    using that digits_value_pos [of d] by (simp add: scaled_def tight_def)
  have "a = b" if eq: "number_value s = number_value t"
    using assms(1)
  proof (cases rule: canonical_number_shape)
    case zero
    from assms(2) show ?thesis by (cases rule: canonical_number_shape) (use zero eq nonzero in simp_all)
  next
    case a: (digits n d e)
    from assms(2) show ?thesis
    proof (cases rule: canonical_number_shape)
      case zero
      then show ?thesis using a eq by (simp add: nonzero)
    next
      case (digits n' d' e')
      then show ?thesis using scaled_unique [OF a(1) digits(1), of n e n' e'] a eq by simp
    qed
  qed
  moreover have "number_value s = number_value t" if "a = b"
    using same [OF assms(1)] same [OF assms(2)] that by simp
  ultimately show ?thesis using same [OF assms(1)] canonical_again [OF assms(1)] by blast
qed

theorem canonical_numbers_exact_witness:
  "number_value (u ''12.50'') = number_value (u ''1.25e1'') \<and> number_value (u ''12.5'') = number_value (u ''12.50'')"
proof -
  have "u ''1.25e1'' = layout False [49] [50, 53] 1" "canonical_text False [49] [50, 53] 1 = u ''12.5''" by code_simp+
  then have "canonical_number (u ''1.25e1'') = Inr (u ''12.5'')"
    using layout_canonical [of "[49]" "[50, 53]" 1 False] by (simp add: is_ascii_digit_def)
  moreover have "canonical_number (u ''12.50'') = Inr (u ''12.5'')" by code_simp
  ultimately show ?thesis using canonical_numbers_exact [of "u ''12.50''" "u ''12.5''" "u ''1.25e1''"] by simp
qed

end
