(* ===== verification/Data_Codec.thy ===== *)
theory Data_Codec
  imports Data_Numbers
begin

text \<open>
  The JSON codec as a whole: what the writer writes, that the parser reads it back, and that the parser returns a
  bounded value or a documented error on every text.
\<close>

section \<open>Values and their texts\<close>

definition clean_text :: "ucs \<Rightarrow> bool" where
  "clean_text t \<longleftrightarrow> \<not> list_ex surrogate t"

text \<open>What Python's types and constructors guarantee of a value, and that its texts can be encoded.\<close>

fun valid :: "data_value \<Rightarrow> bool" where
  "valid (D_Str t) = clean_text t"
| "valid (D_Num t) = (canonical_number t = Inr t)"
| "valid (D_Arr vs) = list_all valid vs"
| "valid (D_Obj kvs) = (distinct (map fst kvs) \<and> list_all (\<lambda>(k, v). clean_text k \<and> valid v) kvs)"
| "valid v = True"

fun height :: "data_value \<Rightarrow> nat" where
  "height (D_Arr vs) = Suc (foldr (\<lambda>v. max (height v)) vs 0)"
| "height (D_Obj kvs) = Suc (foldr (\<lambda>(k, v). max (height v)) kvs 0)"
| "height v = 1"

fun nodes :: "data_value \<Rightarrow> nat" where
  "nodes (D_Arr vs) = Suc (sum_list (map nodes vs))"
| "nodes (D_Obj kvs) = Suc (sum_list (map (\<lambda>(k, v). nodes v) kvs))"
| "nodes v = 1"

text \<open>The entries of every object in the order of their keys.\<close>

fun normal :: "data_value \<Rightarrow> data_value" where
  "normal (D_Arr vs) = D_Arr (map normal vs)"
| "normal (D_Obj kvs) = D_Obj (sort_key fst (map (\<lambda>(k, v). (k, normal v)) kvs))"
| "normal v = v"

definition escaped :: "nat \<Rightarrow> ucs" where
  "escaped c = (case replacement c of None \<Rightarrow> [c] | Some r \<Rightarrow> r)"

definition string_text :: "ucs \<Rightarrow> ucs" where
  "string_text t = [34] @ concat (map escaped t) @ [34]"

fun commas :: "ucs list \<Rightarrow> ucs" where
  "commas [] = []"
| "commas [t] = t"
| "commas (t # ts) = t @ [44] @ commas ts"

fun value_text :: "data_value \<Rightarrow> ucs" where
  "value_text D_Null = u ''null''"
| "value_text (D_Bool b) = (if b then u ''true'' else u ''false'')"
| "value_text (D_Str t) = string_text t"
| "value_text (D_Num t) = t"
| "value_text (D_Arr vs) = [91] @ commas (map value_text vs) @ [93]"
| "value_text (D_Obj kvs) = [123] @ commas (map (\<lambda>(k, v). string_text k @ [58] @ value_text v) kvs) @ [125]"

lemma commas_tail: "commas (t # ts) = t @ concat (map (\<lambda>t. 44 # t) ts)"
  by (induction ts arbitrary: t) simp_all

section \<open>The writer\<close>

lemma utf8_size_append [simp]: "utf8_size (a @ b) = utf8_size a + utf8_size b"
  by (simp add: utf8_size_def)

lemma utf8_size_Nil [simp]: "utf8_size [] = 0"
  by (simp add: utf8_size_def)

definition wrote :: "limits \<Rightarrow> ucs \<Rightarrow> writer \<Rightarrow> bool" where
  "wrote l t w \<longleftrightarrow> int (utf8_size (wr_text w @ t)) \<le> jl_max_output_bytes l"

definition added :: "ucs \<Rightarrow> writer \<Rightarrow> writer" where
  "added t w = w\<lparr>wr_text := wr_text w @ t\<rparr>"

lemma added_simps [simp]: "wr_text (added t w) = wr_text w @ t" "wr_nodes (added t w) = wr_nodes w" "added [] w = w"
    "added b (added a w) = added (a @ b) w" "wrote l b (added a w) = wrote l (a @ b) w"
  by (simp_all add: added_def wrote_def)

lemma wrote_prefix: "wrote l (a @ b) w \<Longrightarrow> wrote l a w"
  by (simp add: wrote_def)

lemma writer_add_Inr: "writer_add l t w = Inr w' \<longleftrightarrow> wrote l t w \<and> w' = added t w"
  by (auto simp: writer_add_def wrote_def added_def)

lemma string_parts_Inr:
  assumes "wrote l [] w"
  shows "string_parts l pending t w = Inr w' \<longleftrightarrow> wrote l (pending @ concat (map escaped t)) w \<and> w' = added (pending @ concat (map escaped t)) w"
  using assms
proof (induction t arbitrary: pending w)
  case Nil
  then show ?case by (auto simp: writer_add_Inr)
next
  case (Cons c t)
  show ?case
  proof (cases "replacement c")
    case None
    then show ?thesis using Cons.IH [OF Cons.prems, of "pending @ [c]"] by (simp add: escaped_def)
  next
    case (Some r)
    have w: "(if pending = [] then Inr w else writer_add l pending w) = Inr v \<longleftrightarrow> wrote l pending w \<and> v = added pending w" for v
      using Cons.prems by (auto simp: writer_add_Inr)
    have rest: "ebind (writer_add l r v) (string_parts l [] t) = Inr w' \<longleftrightarrow> wrote l (r @ concat (map escaped t)) v \<and> w' = added (r @ concat (map escaped t)) v" for v
      using Cons.IH [of "added r v" "[]"] wrote_prefix [of l r "concat (map escaped t)" v]
      by (auto simp: ebind_Inr writer_add_Inr wrote_prefix)
    have "string_parts l pending (c # t) w = Inr w' \<longleftrightarrow>
        (\<exists>v. (if pending = [] then Inr w else writer_add l pending w) = Inr v \<and> ebind (writer_add l r v) (string_parts l [] t) = Inr w')"
      by (simp only: Some string_parts.simps option.case ebind_Inr)
    moreover have "escaped c = r" by (simp add: escaped_def Some)
    ultimately show ?thesis
      unfolding w rest using wrote_prefix [of l pending "r @ concat (map escaped t)" w] by auto
  qed
qed

lemma write_string_Inr:
  "wrote l [] w \<Longrightarrow> write_string l t w = Inr w' \<longleftrightarrow> clean_text t \<and> wrote l (string_text t) w \<and> w' = added (string_text t) w"
  using wrote_prefix [of l "[34]" "concat (map escaped t) @ [34]" w] wrote_prefix [of l "34 # concat (map escaped t)" "[34]" w]
  by (auto simp: write_string_def clean_text_def string_text_def ebind_Inr writer_add_Inr string_parts_Inr)

fun encodable :: "data_value \<Rightarrow> bool" where
  "encodable (D_Str t) = clean_text t"
| "encodable (D_Arr vs) = list_all encodable vs"
| "encodable (D_Obj kvs) = list_all (\<lambda>(k, v). clean_text k \<and> encodable v) kvs"
| "encodable v = True"

definition in_limits :: "limits \<Rightarrow> writer \<Rightarrow> bool" where
  "in_limits l w \<longleftrightarrow> wrote l [] w \<and> int (wr_nodes w) \<le> jl_max_nodes l"

definition grown :: "ucs \<Rightarrow> nat \<Rightarrow> writer \<Rightarrow> writer" where
  "grown t n w = \<lparr>wr_text = wr_text w @ t, wr_nodes = wr_nodes w + n\<rparr>"

text \<open>A step of the writer that adds a text and a number of nodes, when both stay within the limits.\<close>

definition writes :: "limits \<Rightarrow> ucs \<Rightarrow> nat \<Rightarrow> (writer \<Rightarrow> data_exc + writer) \<Rightarrow> bool" where
  "writes l t n step \<longleftrightarrow> (\<forall>w w'. in_limits l w \<longrightarrow>
     (step w = Inr w' \<longleftrightarrow> wrote l t w \<and> int (wr_nodes w + n) \<le> jl_max_nodes l \<and> w' = grown t n w))"

lemma writes_in_limits: "wrote l t w \<Longrightarrow> int (wr_nodes w + n) \<le> jl_max_nodes l \<Longrightarrow> in_limits l (grown t n w)"
  by (simp add: in_limits_def wrote_def grown_def)

lemma writes_seq:
  assumes "writes l a m f" "writes l b n g"
  shows "writes l (a @ b) (m + n) (\<lambda>w. ebind (f w) g)"
  unfolding writes_def
proof (intro allI impI)
  fix w w'
  assume w: "in_limits l w"
  have "ebind (f w) g = Inr w' \<longleftrightarrow> wrote l a w \<and> int (wr_nodes w + m) \<le> jl_max_nodes l \<and> g (grown a m w) = Inr w'"
    using assms(1) w by (auto simp: writes_def ebind_Inr)
  also have "\<dots> \<longleftrightarrow> wrote l a w \<and> int (wr_nodes w + m) \<le> jl_max_nodes l
      \<and> wrote l b (grown a m w) \<and> int (wr_nodes w + m + n) \<le> jl_max_nodes l \<and> w' = grown b n (grown a m w)"
    using assms(2) writes_in_limits [of l a w m] by (auto simp: writes_def grown_def)
  also have "\<dots> \<longleftrightarrow> wrote l (a @ b) w \<and> int (wr_nodes w + (m + n)) \<le> jl_max_nodes l \<and> w' = grown (a @ b) (m + n) w"
    by (auto simp: wrote_def grown_def)
  finally show "ebind (f w) g = Inr w' \<longleftrightarrow> wrote l (a @ b) w \<and> int (wr_nodes w + (m + n)) \<le> jl_max_nodes l \<and> w' = grown (a @ b) (m + n) w" .
qed

lemma writes_add: "writes l t 0 (writer_add l t)"
  by (auto simp: writes_def writer_add_Inr in_limits_def added_def grown_def)

lemma writes_string: "clean_text t \<Longrightarrow> writes l (string_text t) 0 (write_string l t)"
  by (auto simp: writes_def write_string_Inr in_limits_def added_def grown_def)

lemma writes_nothing: "writes l [] 0 Inr"
  by (auto simp: writes_def in_limits_def grown_def)

lemma writes_node: "depth \<le> jl_max_depth l \<Longrightarrow> writes l [] 1 (writer_node l depth)"
  by (auto simp: writes_def writer_node_def in_limits_def grown_def)

definition fits_limits :: "limits \<Rightarrow> int \<Rightarrow> data_value \<Rightarrow> bool" where
  "fits_limits l depth v \<longleftrightarrow> encodable v \<and> depth + int (height v) - 1 \<le> jl_max_depth l"

declare write_value.simps [simp del]

lemma write_shapes:
  "write_value l D_Null depth = (\<lambda>w. ebind (writer_node l depth w) (writer_add l (u ''null'')))"
  "write_value l (D_Bool b) depth = (\<lambda>w. ebind (writer_node l depth w) (writer_add l (if b then u ''true'' else u ''false'')))"
  "write_value l (D_Str t) depth = (\<lambda>w. ebind (writer_node l depth w) (write_string l t))"
  "write_value l (D_Num t) depth = (\<lambda>w. ebind (writer_node l depth w) (writer_add l t))"
  "write_value l (D_Arr vs) depth = (\<lambda>w. ebind (writer_node l depth w) (\<lambda>w. ebind (writer_add l [91] w)
     (\<lambda>w. ebind (write_items l True vs depth w) (writer_add l [93]))))"
  "write_value l (D_Obj kvs) depth = (\<lambda>w. ebind (writer_node l depth w) (\<lambda>w. ebind (writer_add l [123] w)
     (\<lambda>w. ebind (write_entries l True (sort_key fst kvs) depth w) (writer_add l [125]))))"
  by (simp_all add: fun_eq_iff write_value.simps)

abbreviation entry_text :: "ucs \<times> data_value \<Rightarrow> ucs" where
  "entry_text \<equiv> \<lambda>(k, v). string_text k @ [58] @ value_text v"

lemma writes_comma:
  assumes "writes l t n f"
  shows "writes l ((if first then [] else [44]) @ t) n (\<lambda>w. ebind (if first then Inr w else writer_add l [44] w) f)"
proof (cases first)
  case False
  then show ?thesis using writes_seq [OF writes_add [of l "[44]"] assms] by simp
qed (use assms in simp)

definition separated :: "bool \<Rightarrow> ucs list \<Rightarrow> ucs" where
  "separated first ts = (if first then commas ts else concat (map (\<lambda>t. 44 # t) ts))"

lemma separated_simps [simp]: "separated first [] = []"
    "separated first (t # ts) = ((if first then [] else [44]) @ t) @ separated False ts"
  by (simp_all add: separated_def commas_tail)

lemma writes_items:
  assumes "\<forall>v \<in> set vs. writes l (g v) (n v) (write_value l v (depth + 1))"
  shows "writes l (separated first (map g vs)) (sum_list (map n vs)) (write_items l first vs depth)"
  using assms
proof (induction vs arbitrary: first)
  case Nil
  then show ?case by (simp add: writes_nothing)
next
  case (Cons v vs)
  have "writes l (g v @ separated False (map g vs)) (n v + sum_list (map n vs)) (\<lambda>w. ebind (write_value l v (depth + 1) w) (write_items l False vs depth))"
    using Cons by (intro writes_seq) simp_all
  from writes_comma [OF this, of first] show ?case by (simp add: ebind_def cong: sum.case_cong)
qed

lemma writes_entries:
  assumes "\<forall>(k, v) \<in> set kvs. clean_text k \<and> writes l (g v) (n v) (write_value l v (depth + 1))"
  shows "writes l (separated first (map (\<lambda>(k, v). string_text k @ [58] @ g v) kvs)) (sum_list (map (\<lambda>(k, v). n v) kvs)) (write_entries l first kvs depth)"
  using assms
proof (induction kvs arbitrary: first)
  case Nil
  then show ?case by (simp add: writes_nothing)
next
  case (Cons kv kvs)
  obtain k v where kv: "kv = (k, v)" by (cases kv)
  have "writes l (string_text k @ [58] @ g v @ separated False (map (\<lambda>(k, v). string_text k @ [58] @ g v) kvs))
      (0 + (0 + (n v + sum_list (map (\<lambda>(k, v). n v) kvs))))
      (\<lambda>w. ebind (write_string l k w) (\<lambda>w. ebind (writer_add l [58] w) (\<lambda>w. ebind (write_value l v (depth + 1) w) (write_entries l False kvs depth))))"
    using Cons by (intro writes_seq writes_string writes_add) (simp_all add: kv)
  from writes_comma [OF this, of first] show ?case by (simp add: kv ebind_def cong: sum.case_cong)
qed

lemma height_items: "height (D_Arr vs) \<le> Suc n \<longleftrightarrow> (\<forall>v \<in> set vs. height v \<le> n)"
  by (induction vs) auto

lemma height_entries: "height (D_Obj kvs) \<le> Suc n \<longleftrightarrow> (\<forall>(k, v) \<in> set kvs. height v \<le> n)"
  by (induction kvs) auto

lemma height_below:
  "v \<in> set vs \<Longrightarrow> height v < height (D_Arr vs)" "(k, v) \<in> set kvs \<Longrightarrow> height v < height (D_Obj kvs)"
  using height_items [of vs "height (D_Arr vs) - 1"] height_entries [of kvs "height (D_Obj kvs) - 1"] by auto

lemma sort_key_map: "sort_key f (map g xs) = map g (sort_key (\<lambda>x. f (g x)) xs)"
proof -
  have "insort_key f (g x) (map g ys) = map g (insort_key (\<lambda>x. f (g x)) x ys)" for x ys by (induction ys) auto
  then show ?thesis by (induction xs) simp_all
qed

lemma normal_entries: "normal (D_Obj kvs) = D_Obj (map (\<lambda>(k, v). (k, normal v)) (sort_key fst kvs))"
proof -
  have "(\<lambda>x :: ucs \<times> data_value. fst (case x of (k, v) \<Rightarrow> (k, normal v))) = fst" by auto
  then show ?thesis by (simp only: normal.simps sort_key_map)
qed

text \<open>The writer on one value: what it writes within the limits, and that it fails when the value does not fit.\<close>

lemma write_value_fits:
  "fits_limits l depth v \<Longrightarrow> writes l (value_text (normal v)) (nodes v) (write_value l v depth)"
proof (induction "data_size v" arbitrary: v depth rule: less_induct)
  case less
  have depth: "writes l [] 1 (writer_node l depth)"
    using less.prems by (intro writes_node) (cases v; auto simp: fits_limits_def)
  have brackets: "writes l ([] @ a @ t @ b) (1 + (0 + (n + 0))) (\<lambda>w. ebind (writer_node l depth w) (\<lambda>w. ebind (writer_add l a w) (\<lambda>w. ebind (f w) (writer_add l b))))"
    if "writes l t n f" for a b t n f
    by (intro writes_seq depth writes_add that)
  have simple: "writes l ([] @ t) (1 + 0) (\<lambda>w. ebind (writer_node l depth w) f)" if "writes l t 0 f" for t f
    by (intro writes_seq depth that)
  show ?case
  proof (cases v)
    case (D_Arr vs)
    have "\<forall>x \<in> set vs. writes l (value_text (normal x)) (nodes x) (write_value l x (depth + 1))"
    proof
      fix x
      assume x: "x \<in> set vs"
      have "data_size x < data_size v" using x by (auto simp: D_Arr dest!: split_list)
      moreover have "fits_limits l (depth + 1) x"
        using less.prems x height_below(1) [OF x] by (auto simp: fits_limits_def D_Arr list_all_iff simp del: height.simps)
      ultimately show "writes l (value_text (normal x)) (nodes x) (write_value l x (depth + 1))" by (rule less.hyps)
    qed
    from brackets [OF writes_items [OF this, of True], of "[91]" "[93]"] show ?thesis
      by (simp add: D_Arr write_shapes separated_def comp_def)
  next
    case (D_Obj kvs)
    have "\<forall>(k, x) \<in> set (sort_key fst kvs). clean_text k \<and> writes l (value_text (normal x)) (nodes x) (write_value l x (depth + 1))"
    proof (intro ballI, clarify, intro conjI)
      fix k x
      assume x: "(k, x) \<in> set (sort_key fst kvs)"
      then show "clean_text k" using less.prems by (auto simp: fits_limits_def D_Obj list_all_iff)
      have "data_size x < data_size v" using x by (auto simp: D_Obj dest!: split_list)
      moreover have "fits_limits l (depth + 1) x"
        using less.prems x height_below(2) [of k x kvs] by (auto simp: fits_limits_def D_Obj list_all_iff simp del: height.simps)
      ultimately show "writes l (value_text (normal x)) (nodes x) (write_value l x (depth + 1))" by (rule less.hyps)
    qed
    from brackets [OF writes_entries [OF this, of True], of "[123]" "[125]"] show ?thesis
      by (simp add: D_Obj write_shapes separated_def comp_def normal_entries sum_list_sort_key case_prod_beta' del: normal.simps)
  qed (use simple [OF writes_add] simple [OF writes_string] less.prems in \<open>simp_all add: write_shapes fits_limits_def\<close>)
qed

lemma write_string_clean: "write_string l t w = Inr w' \<Longrightarrow> clean_text t"
  by (auto simp: write_string_def clean_text_def split: if_splits)

lemma fits_items: "depth \<le> jl_max_depth l \<Longrightarrow> \<forall>v \<in> set vs. fits_limits l (depth + 1) v \<Longrightarrow> fits_limits l depth (D_Arr vs)"
  using height_items [of vs "nat (jl_max_depth l - depth)"]
  by (auto simp: fits_limits_def list_all_iff simp del: height.simps)

lemma fits_entries:
  "depth \<le> jl_max_depth l \<Longrightarrow> \<forall>(k, v) \<in> set kvs. clean_text k \<and> fits_limits l (depth + 1) v \<Longrightarrow> fits_limits l depth (D_Obj kvs)"
  using height_entries [of kvs "nat (jl_max_depth l - depth)"]
  by (fastforce simp: fits_limits_def list_all_iff simp del: height.simps)

lemma write_fits:
  "write_value l v depth w = Inr w' \<Longrightarrow> fits_limits l depth v"
  "write_items l first vs depth w = Inr w' \<Longrightarrow> \<forall>v \<in> set vs. fits_limits l (depth + 1) v"
  "write_entries l first kvs depth w = Inr w' \<Longrightarrow> \<forall>(k, v) \<in> set kvs. clean_text k \<and> fits_limits l (depth + 1) v"
proof (induction l v depth w and l first vs depth w and l first kvs depth w arbitrary: w' and w' and w'
    rule: write_value_write_items_write_entries.induct)
  case (1 l v depth w)
  obtain n where n: "writer_node l depth w = Inr n" using 1(3) by (auto simp: write_value.simps ebind_Inr)
  then have depth: "depth \<le> jl_max_depth l" by (auto simp: writer_node_def split: if_splits)
  show ?case
  proof (cases v)
    case (D_Arr vs)
    then obtain a b where ab: "writer_add l [91] n = Inr a" "write_items l True vs depth a = Inr b"
      using 1(3) n by (auto simp: write_shapes ebind_Inr)
    show ?thesis using 1(1) [OF n D_Arr ab] fits_items [OF depth] by (simp add: D_Arr)
  next
    case (D_Obj kvs)
    then obtain a b where ab: "writer_add l [123] n = Inr a" "write_entries l True (sort_key fst kvs) depth a = Inr b"
      using 1(3) n by (auto simp: write_shapes ebind_Inr)
    show ?thesis using 1(2) [OF n D_Obj ab] fits_entries [OF depth] by (simp add: D_Obj)
  next
    case (D_Str t)
    then have "clean_text t" using 1(3) n write_string_clean by (auto simp: write_shapes)
    then show ?thesis using depth by (simp add: D_Str fits_limits_def)
  qed (use depth in \<open>simp_all add: fits_limits_def\<close>)
next
  case (3 l first v vs depth w)
  obtain a b where ab: "(if first then Inr w else writer_add l [44] w) = Inr a" "write_value l v (depth + 1) a = Inr b"
      "write_items l False vs depth b = Inr w'"
    using 3(3) by (auto simp: ebind_Inr)
  then show ?case using 3(1) [OF ab(1,2)] 3(2) [OF ab] by simp
next
  case (5 l first k v kvs depth w)
  obtain a b c d where ab: "(if first then Inr w else writer_add l [44] w) = Inr a" "write_string l k a = Inr b" "writer_add l [58] b = Inr c"
      "write_value l v (depth + 1) c = Inr d" "write_entries l False kvs depth d = Inr w'"
    using 5(3) by (auto simp: ebind_Inr)
  then show ?case using 5(1) [OF ab(1-4)] 5(2) [OF ab] write_string_clean by auto
qed simp_all

text \<open>Encoding, exactly.\<close>

lemma encode_Inr:
  "encode l v = Inr t \<longleftrightarrow> limits_validate l = Inr () \<and> fits_limits l 1 v \<and> int (nodes v) \<le> jl_max_nodes l
   \<and> int (utf8_size t) \<le> jl_max_output_bytes l \<and> t = value_text (normal v)"
proof -
  let ?w = "\<lparr>wr_text = [], wr_nodes = 0\<rparr>"
  show ?thesis
  proof (cases "limits_validate l = Inr () \<and> fits_limits l 1 v")
    case True
    have "in_limits l ?w"
      using True by (auto simp: in_limits_def wrote_def limits_validate_def split: if_splits)
    then have "write_value l v 1 ?w = Inr w' \<longleftrightarrow> wrote l (value_text (normal v)) ?w \<and> int (nodes v) \<le> jl_max_nodes l
        \<and> w' = grown (value_text (normal v)) (nodes v) ?w" for w'
      using write_value_fits [of l 1 v] True by (simp add: writes_def)
    then show ?thesis using True by (auto simp: encode_def ebind_Inr wrote_def grown_def)
  next
    case False
    then show ?thesis using write_fits(1) [of l v 1 ?w] by (auto simp: encode_def ebind_Inr)
  qed
qed

section \<open>The parser reads what was written\<close>

lemma drop_head:
  assumes "drop i text = c # r"
  shows "i < length text" "text ! i = c" "drop (Suc i) text = r"
proof -
  show i: "i < length text" using assms by (metis drop_eq_Nil2 leI list.distinct(1))
  then show "text ! i = c" "drop (Suc i) text = r" using assms by (simp_all add: Cons_nth_drop_Suc [symmetric])
qed

lemma drop_append: "drop i text = a @ r \<Longrightarrow> drop (i + length a) text = r"
  by (metis append_eq_conv_conj drop_drop add.commute)

lemma skip_space_none: "drop i text = c # r \<Longrightarrow> \<not> is_space c \<Longrightarrow> skip_space text i = i"
  by (simp add: skip_space_def)

lemma skip_space_end: "drop i text = [] \<Longrightarrow> skip_space text i = i"
  by (simp add: skip_space_def)

lemma escaped_cases:
  assumes "\<not> surrogate c"
  obtains "escaped c = [c]" "32 \<le> c" "c \<noteq> 34" "c \<noteq> 92"
  | x where "escaped c = [92, x]" "simple_escape x = Some c"
  | "escaped c = [92, 117] @ hex4 c" "c < 32"
proof (cases "c \<in> {34, 92, 8, 12, 10, 13, 9}")
  case True
  have "\<forall>c \<in> {34, 92, 8, 12, 10, 13, 9}. \<exists>x. escaped c = [92, x] \<and> simple_escape x = Some c"
    by (simp add: escaped_def replacement_def simple_escape_def)
  then show ?thesis using True that(2) by blast
next
  case False
  then show ?thesis
    using that(1,3) by (cases "c < 32") (simp_all add: escaped_def replacement_def)
qed

lemma hex4_back: "c < 32 \<Longrightarrow> list_all is_hex (hex4 c) \<and> hex_number (hex4 c) = c"
proof -
  assume c: "c < 32"
  have nibble: "is_hex (if d < 10 then 48 + d else 87 + d) \<and> hex_nibble (if d < 10 then 48 + d else 87 + d) = d" if "d < 16" for d
    using that by (auto simp: is_hex_def hex_nibble_def is_ascii_digit_def)
  have "c div 4096 = 0" "c div 256 = 0" "c div 16 mod 16 = c div 16" "c div 16 < 16" "c mod 16 < 16" using c by simp_all
  then show ?thesis
    using nibble [of 0] nibble [of "c div 16"] nibble [of "c mod 16"] by (simp add: hex4_def hex_number_def)
qed

lemma unicode_escape_back:
  assumes "drop i text = hex4 c @ r" "c < 32"
  shows "unicode_escape text i = Inr (c, i + 4)"
proof -
  have h: "length (hex4 c) = 4" by (simp add: hex4_def)
  have "length (drop i text) = 4 + length r" using assms(1) h by simp
  then have "\<not> length text < i + 4" by simp
  moreover have "take 4 (drop i text) = hex4 c" using assms(1) h by simp
  ultimately show ?thesis using hex4_back [OF assms(2)] assms(2) by (simp add: unicode_escape_def)
qed

declare read_string_loop.simps [simp del]

lemma string_back:
  assumes "clean_text t" "drop i text = concat (map escaped t) @ 34 # r"
  shows "read_string_loop text i acc = Inr (acc @ t, i + length (concat (map escaped t)) + 1)"
  using assms
proof (induction t arbitrary: i acc)
  case Nil
  then show ?case using drop_head [of i "text" 34 r] by (simp add: read_string_loop.simps [of "text" i])
next
  case (Cons c t)
  have c: "\<not> surrogate c" "clean_text t" using Cons.prems(1) by (simp_all add: clean_text_def)
  have here: "drop i text = escaped c @ concat (map escaped t) @ 34 # r" using Cons.prems(2) by simp
  note IH = Cons.IH [OF c(2) drop_append [OF here], of "acc @ [c]"]
  from c(1) show ?case
  proof (cases rule: escaped_cases)
    case 1
    then show ?thesis
      using drop_head [of i "text" c] here IH c(1) by (simp add: read_string_loop.simps [of "text" i])
  next
    case (2 x)
    note d = drop_head [of i "text" 92] and e = drop_head [of "Suc i" "text" x]
    show ?thesis using d e here 2 IH by (simp add: read_string_loop.simps [of "text" i])
  next
    case 3
    note d = drop_head [of i "text" 92] and e = drop_head [of "Suc i" "text" 117]
    have "unicode_escape text (i + 2) = Inr (c, i + 6)"
      using d e here 3 by (subst unicode_escape_back [of _ _ _ "concat (map escaped t) @ 34 # r"]) (simp_all add: numeral_2_eq_2)
    moreover have "simple_escape 117 = None" by (simp add: simple_escape_def)
    moreover have "length (hex4 c) = 4" by (simp add: hex4_def)
    ultimately show ?thesis using d e here 3 IH by (simp add: read_string_loop.simps [of "text" i] add.commute)
  qed
qed

definition advanced :: "reader \<Rightarrow> nat \<Rightarrow> nat \<Rightarrow> reader" where
  "advanced s k n = \<lparr>rd_index = rd_index s + k, rd_nodes = rd_nodes s + n\<rparr>"

lemma read_string_back:
  assumes "clean_text t" "drop (rd_index s) text = string_text t @ r"
  shows "read_string text s = Inr (t, advanced s (length (string_text t)) 0)"
proof -
  have "drop (rd_index s + 1) text = concat (map escaped t) @ 34 # r"
    using drop_head(3) [of "rd_index s" "text" 34] assms(2) by (simp add: string_text_def)
  from string_back [OF assms(1) this, of "[]"] show ?thesis
    by (simp add: read_string_def moved_def advanced_def string_text_def)
qed

text \<open>What may follow a number: nothing that a number could go on with.\<close>

definition stop :: "ucs \<Rightarrow> bool" where
  "stop post \<longleftrightarrow> (\<forall>c r. post = c # r \<longrightarrow> \<not> is_ascii_digit c \<and> c \<notin> {43, 45, 46, 69, 101})"

lemma stop_digits: "stop post \<Longrightarrow> takeWhile is_ascii_digit post = []"
  by (cases post) (simp_all add: stop_def)

lemma takeWhile_stop: "stop post \<Longrightarrow> takeWhile is_ascii_digit (r @ post) = takeWhile is_ascii_digit r"
  by (induction r) (simp_all add: stop_digits)

lemma skip_digits_back:
  assumes "drop i text = r @ post" "stop post"
  shows "skip_digits text i = i + length (takeWhile is_ascii_digit r)"
    "drop (i + length (takeWhile is_ascii_digit r)) text = dropWhile is_ascii_digit r @ post"
proof -
  show "skip_digits text i = i + length (takeWhile is_ascii_digit r)"
    by (simp add: skip_digits_def assms takeWhile_stop)
  have "drop i text = takeWhile is_ascii_digit r @ dropWhile is_ascii_digit r @ post" using assms(1) by simp
  from drop_append [OF this] show "drop (i + length (takeWhile is_ascii_digit r)) text = dropWhile is_ascii_digit r @ post" .
qed

text \<open>A scanner that ends where a part of a number ends.\<close>

definition scans :: "(ucs \<Rightarrow> nat \<Rightarrow> data_exc + nat) \<Rightarrow> ucs \<Rightarrow> ucs \<Rightarrow> bool" where
  "scans scan r r' \<longleftrightarrow> (\<forall>text i post. drop i text = r @ post \<longrightarrow> stop post \<longrightarrow>
     (\<exists>j. scan text i = Inr j \<and> drop j text = r' @ post \<and> j + length r' = i + length r))"

lemma scans_digits:
  assumes "drop i text = r @ post" "stop post"
  shows "drop (skip_digits text i) text = dropWhile is_ascii_digit r @ post"
    "skip_digits text i + length (dropWhile is_ascii_digit r) = i + length r"
  using skip_digits_back [OF assms] length_append [of "takeWhile is_ascii_digit r" "dropWhile is_ascii_digit r"] by simp_all

lemma integer_scans:
  assumes "integer_part r = Inr (ds, r')"
  shows "scans number_integer_end r r'"
  unfolding scans_def
proof (intro allI impI)
  fix "text" i post
  assume doc: "drop i text = r @ post" and stop: "stop post"
  obtain c q where r: "r = c # q" using assms by (cases r) (simp_all add: integer_part_def)
  have here: "i < length text" "text ! i = c" "drop (Suc i) text = q @ post" using drop_head [of i "text" c] doc by (simp_all add: r)
  show "\<exists>j. number_integer_end text i = Inr j \<and> drop j text = r' @ post \<and> j + length r' = i + length r"
  proof (cases "c = 48")
    case True
    have q: "q = r'" "q \<noteq> [] \<longrightarrow> \<not> is_ascii_digit (hd q)" using assms by (auto simp: integer_part_def r True split: if_splits)
    have "\<not> (i + 1 < length text \<and> is_ascii_digit (text ! (i + 1)))"
    proof
      assume a: "i + 1 < length text \<and> is_ascii_digit (text ! (i + 1))"
      then have "q @ post = text ! (i + 1) # drop (i + 2) text" using here(3) Cons_nth_drop_Suc [of "i + 1" "text"] by simp
      then show False using q(2) a stop by (cases q) (auto simp: stop_def)
    qed
    then show ?thesis using here True q(1) by (auto simp: number_integer_end_def r)
  next
    case False
    then have "49 \<le> c \<and> c \<le> 57" "r' = dropWhile is_ascii_digit r" using assms by (auto simp: integer_part_def r split: if_splits)
    then show ?thesis using here False scans_digits [OF doc stop] by (simp add: number_integer_end_def)
  qed
qed

lemma stop_next:
  assumes "drop i text = r @ post" "stop post" "r = [] \<or> hd r \<notin> X" "X \<subseteq> {43, 45, 46, 69, 101}"
  shows "\<not> (i < length text \<and> text ! i \<in> X)"
proof
  assume a: "i < length text \<and> text ! i \<in> X"
  then have "r @ post = text ! i # drop (Suc i) text" using assms(1) Cons_nth_drop_Suc [of i "text"] by simp
  then show False using a assms(2-4) by (cases r) (auto simp: stop_def)
qed

lemma fraction_scans:
  assumes "number_fraction r = Inr (ds, r')"
  shows "scans number_fraction_end r r'"
  unfolding scans_def
proof (intro allI impI)
  fix "text" i post
  assume doc: "drop i text = r @ post" and stop: "stop post"
  show "\<exists>j. number_fraction_end text i = Inr j \<and> drop j text = r' @ post \<and> j + length r' = i + length r"
  proof (cases "r \<noteq> [] \<and> hd r = 46")
    case True
    then obtain q where r: "r = 46 # q" by (cases r) auto
    have q: "takeWhile is_ascii_digit q \<noteq> []" "r' = dropWhile is_ascii_digit q"
      using assms by (auto simp: number_fraction_def r split: if_splits)
    have here: "i < length text" "text ! i = 46" "drop (i + 1) text = q @ post" using drop_head [of i "text" 46] doc by (simp_all add: r)
    have "skip_digits text (i + 1) \<noteq> i + 1" using skip_digits_back(1) [OF here(3) stop] q(1) by simp
    then show ?thesis using here scans_digits [OF here(3) stop] q(2) by (simp add: number_fraction_end_def r)
  next
    case False
    then have "r' = r" using assms by (cases r) (auto simp: number_fraction_def)
    then show ?thesis using stop_next [OF doc stop, of "{46}"] False doc by (auto simp: number_fraction_end_def)
  qed
qed

lemma exponent_scans:
  assumes "exponent_part r = Inr (e, r')"
  shows "scans number_exponent_end r r'"
  unfolding scans_def
proof (intro allI impI)
  fix "text" i post
  assume doc: "drop i text = r @ post" and stop: "stop post"
  show "\<exists>j. number_exponent_end text i = Inr j \<and> drop j text = r' @ post \<and> j + length r' = i + length r"
  proof (cases "r \<noteq> [] \<and> hd r \<in> {101, 69}")
    case True
    then obtain c q where r: "r = c # q" "c = 101 \<or> c = 69" by (cases r) auto
    obtain b q' where q': "exponent_sign q = (b, q')" by (cases "exponent_sign q")
    have q: "takeWhile is_ascii_digit q' \<noteq> []" "r' = dropWhile is_ascii_digit q'"
      using assms r(2) by (auto simp: exponent_part_def r(1) q' Let_def split: if_splits)
    have here: "i < length text" "text ! i = c" "drop (i + 1) text = q @ post" using drop_head [of i "text" c] doc by (simp_all add: r)
    let ?j = "if i + 1 < length text \<and> text ! (i + 1) \<in> {43, 45} then i + 2 else i + 1"
    have j: "drop ?j text = q' @ post \<and> ?j + length q' = i + length r"
    proof (cases "q \<noteq> [] \<and> hd q \<in> {43, 45}")
      case True
      then obtain d where "q = d # q'" "d \<in> {43, 45}" using q' by (cases q) (auto simp: exponent_sign_def split: if_splits)
      then show ?thesis using here drop_head [of "i + 1" "text" d] by (simp add: r)
    next
      case False
      then have "q' = q" using q' by (cases q) (auto simp: exponent_sign_def split: if_splits)
      then show ?thesis using here(3) stop_next [OF here(3) stop, of "{43, 45}"] False by (auto simp: r)
    qed
    have "skip_digits text ?j \<noteq> ?j" using skip_digits_back(1) [OF conjunct1 [OF j] stop] q(1) by simp
    moreover have "number_exponent_end text i = (if skip_digits text ?j = ?j then syntax_error text ''exponent requires at least one digit'' ?j else Inr (skip_digits text ?j))"
      using here r(2) by (auto simp: number_exponent_end_def Let_def)
    ultimately show ?thesis using scans_digits [OF conjunct1 [OF j] stop] q(2) j by simp
  next
    case False
    then have "r' = r" using assms by (cases r) (auto simp: exponent_part_def)
    then show ?thesis using stop_next [OF doc stop, of "{101, 69}"] False doc by (auto simp: number_exponent_end_def)
  qed
qed

lemma read_number_back:
  assumes "canonical_number t = Inr t" "drop (rd_index s) text = t @ post" "stop post"
  shows "read_number text s = Inr (t, advanced s (length t) 0)"
proof -
  let ?i = "rd_index s"
  obtain negative r where sign: "number_sign t = (negative, r)" by (cases "number_sign t")
  obtain ds a fraction b e where parts: "integer_part r = Inr (ds, a)" "number_fraction a = Inr (fraction, b)"
      "exponent_part b = Inr (e, [])"
    using assms(1) by (auto simp: canonical_number_def sign ebind_Inr split: if_splits)
  obtain c q where t: "t = c # q" using assms(1) by (cases t) (simp_all add: canonical_number_def)
  let ?j = "if text ! ?i = 45 then ?i + 1 else ?i"
  have j: "drop ?j text = r @ post" "?j + length r = ?i + length t"
    using drop_head [of ?i "text" c] assms(2) sign by (auto simp: t number_sign_def split: if_splits)
  obtain i1 where 1: "number_integer_end text ?j = Inr i1" "drop i1 text = a @ post" "i1 + length a = ?j + length r"
    using integer_scans [OF parts(1)] j(1) assms(3) unfolding scans_def by blast
  obtain i2 where 2: "number_fraction_end text i1 = Inr i2" "drop i2 text = b @ post" "i2 + length b = i1 + length a"
    using fraction_scans [OF parts(2)] 1(2) assms(3) unfolding scans_def by blast
  obtain i3 where 3: "number_exponent_end text i2 = Inr i3" "i3 = i2 + length b"
    using exponent_scans [OF parts(3)] 2(2) assms(3) unfolding scans_def by fastforce
  have "i3 = ?i + length t" using 1 2 3 j by simp
  then show ?thesis
    using 1(1) 2(1) 3(1) assms(1,2) by (simp add: read_number_def mk_Number_def moved_def advanced_def)
qed

definition reads_back :: "nat \<Rightarrow> limits \<Rightarrow> ucs \<Rightarrow> int \<Rightarrow> data_value \<Rightarrow> bool" where
  "reads_back n l text depth v \<longleftrightarrow> (\<forall>s post. int (rd_nodes s + nodes v) \<le> jl_max_nodes l \<longrightarrow>
     drop (rd_index s) text = value_text v @ post \<longrightarrow> stop post \<longrightarrow>
     read_value n l text depth s = Inr (v, advanced s (length (value_text v)) (nodes v)))"

lemma advanced_simps [simp]: "rd_index (advanced s k n) = rd_index s + k" "rd_nodes (advanced s k n) = rd_nodes s + n"
    "advanced (advanced s k n) k' n' = advanced s (k + k') (n + n')" "advanced s 0 0 = s" "moved (rd_index s + k) (advanced s k' n) = advanced s k n"
  by (simp_all add: advanced_def moved_def add.assoc)

lemma stop_after [simp]: "stop (44 # r)" "stop (93 # r)" "stop (125 # r)" "stop []"
  by (simp_all add: stop_def is_ascii_digit_def)

text \<open>The first character of a value's text.\<close>

lemma canonical_head:
  assumes "canonical_number t = Inr t'"
  shows "\<exists>c r. t = c # r \<and> (c = 45 \<or> is_ascii_digit c)"
proof -
  obtain c r where t: "t = c # r" using assms by (cases t) (simp_all add: canonical_number_def)
  obtain negative q where "number_sign t = (negative, q)" by (cases "number_sign t")
  with assms show ?thesis
    by (auto simp: canonical_number_def t number_sign_def ebind_Inr integer_part_def is_ascii_digit_def split: if_splits)
qed

lemma value_head: "valid v \<Longrightarrow> \<exists>c r. value_text v = c # r \<and> \<not> is_space c \<and> c \<noteq> 93"
  using canonical_head
  by (cases v) (fastforce simp: u_def string_text_def is_space_def is_ascii_digit_def)+

lemma separator_close:
  assumes "drop (rd_index s) text = close # r" "\<not> is_space close"
  shows "read_separator close m e text s = Inr (True, advanced s 1 0)"
  using drop_head [OF assms(1)] skip_space_none [OF assms]
  by (simp add: read_separator_def moved_def advanced_def)

lemma separator_comma:
  assumes "drop (rd_index s) text = 44 # c # r" "\<not> is_space c" "close \<noteq> 44"
  shows "read_separator close m e text s = Inr (False, advanced s 1 0)"
proof -
  note here = drop_head [OF assms(1)]
  have "skip_space text (rd_index s) = rd_index s" using assms(1) by (rule skip_space_none) (simp add: is_space_def)
  moreover have "skip_space text (Suc (rd_index s)) = Suc (rd_index s)" using here(3) assms(2) by (rule skip_space_none)
  ultimately show ?thesis using here assms(3) by (simp add: read_separator_def moved_def advanced_def)
qed

lemma read_items_back:
  assumes "\<forall>v \<in> set vs. valid v \<and> reads_back n l text (depth + 1) v" "vs \<noteq> []" "length vs \<le> k"
    "int (rd_nodes s + sum_list (map nodes vs)) \<le> jl_max_nodes l" "drop (rd_index s) text = commas (map value_text vs) @ 93 # post"
  shows "read_items n k l text depth items s = Inr (items @ vs, advanced s (length (commas (map value_text vs)) + 1) (sum_list (map nodes vs)))"
  using assms
proof (induction vs arbitrary: k items s)
  case (Cons v vs)
  obtain k' where k: "k = Suc k'" using Cons.prems(3) by (cases k) simp_all
  let ?tail = "concat (map (\<lambda>t. 44 # t) (map value_text vs)) @ 93 # post"
  have doc: "drop (rd_index s) text = value_text v @ ?tail" using Cons.prems(5) by (simp add: commas_tail del: commas.simps)
  have "stop ?tail" by (cases vs) simp_all
  then have v: "read_value n l text (depth + 1) s = Inr (v, advanced s (length (value_text v)) (nodes v))"
    using Cons.prems(1,4) doc by (simp add: reads_back_def)
  note next_doc = drop_append [OF doc]
  show ?case
  proof (cases vs)
    case Nil
    then show ?thesis using v next_doc separator_close [of "advanced s (length (value_text v)) (nodes v)" "text" 93 post]
      by (simp add: k is_space_def)
  next
    case (Cons w ws)
    have "valid w" using Cons.prems(1) Cons by simp
    from value_head [OF this] obtain c r where c: "value_text w = c # r" "\<not> is_space c" by blast
    let ?s = "advanced s (length (value_text v) + 1) (nodes v)"
    have "read_separator 93 m e text (advanced s (length (value_text v)) (nodes v)) = Inr (False, ?s)" for m e
      using separator_comma [of "advanced s (length (value_text v)) (nodes v)" "text" c] next_doc c by (simp add: Cons)
    moreover have "drop (rd_index ?s) text = commas (map value_text vs) @ 93 # post"
      using drop_append [of "rd_index s + length (value_text v)" "text" "[44]"] next_doc by (simp add: Cons commas_tail del: commas.simps)
    moreover have "read_items n k' l text depth (items @ [v]) ?s
        = Inr ((items @ [v]) @ vs, advanced ?s (length (commas (map value_text vs)) + 1) (sum_list (map nodes vs)))"
      by (rule Cons.IH) (use Cons.prems Cons calculation(2) k in simp_all)
    ultimately show ?thesis using v by (simp add: k Cons commas_tail del: commas.simps)
  qed
qed simp

lemma read_key_back:
  assumes "clean_text key" "key \<notin> fst ` set kvs" "drop (rd_index s) text = string_text key @ 58 # c # r" "\<not> is_space c"
  shows "read_key text kvs s = Inr (key, advanced s (length (string_text key) + 1) 0)"
proof -
  let ?s = "advanced s (length (string_text key)) 0"
  have start: "rd_index s < length text" "text ! rd_index s = 34"
    using drop_head [of "rd_index s" "text" 34] assms(3) by (simp_all add: string_text_def)
  have colon: "drop (rd_index ?s) text = 58 # c # r" using drop_append [OF assms(3)] by simp
  have skip: "skip_space text (rd_index ?s) = rd_index ?s" using colon by (rule skip_space_none) (simp add: is_space_def)
  have "skip_space text (Suc (rd_index ?s)) = Suc (rd_index ?s)" using drop_head(3) [OF colon] assms(4) by (rule skip_space_none)
  moreover have "moved (Suc (rd_index ?s)) ?s = advanced s (length (string_text key) + 1) 0" by (simp add: moved_def advanced_def)
  ultimately show ?thesis
    using start read_string_back [OF assms(1,3)] assms(2) drop_head(1,2) [OF colon] skip by (simp add: read_key_def)
qed

lemma read_entries_back:
  assumes "\<forall>(k, v) \<in> set kvs. clean_text k \<and> valid v \<and> reads_back n l text (depth + 1) v" "kvs \<noteq> []" "length kvs \<le> k"
    "distinct (map fst (seen @ kvs))" "int (rd_nodes s + sum_list (map (\<lambda>(k, v). nodes v) kvs)) \<le> jl_max_nodes l"
    "drop (rd_index s) text = commas (map entry_text kvs) @ 125 # post"
  shows "read_entries n k l text depth seen s
    = Inr (seen @ kvs, advanced s (length (commas (map entry_text kvs)) + 1) (sum_list (map (\<lambda>(k, v). nodes v) kvs)))"
  using assms
proof (induction kvs arbitrary: k seen s)
  case (Cons kv kvs)
  obtain k' where k: "k = Suc k'" using Cons.prems(3) by (cases k) simp_all
  obtain key v where kv: "kv = (key, v)" by (cases kv)
  let ?tail = "concat (map (\<lambda>t. 44 # t) (map entry_text kvs)) @ 125 # post"
  have doc: "drop (rd_index s) text = string_text key @ 58 # value_text v @ ?tail"
    using Cons.prems(6) by (simp add: kv commas_tail del: commas.simps)
  have v: "clean_text key" "valid v" "reads_back n l text (depth + 1) v" using Cons.prems(1) by (auto simp: kv)
  obtain c r where c: "value_text v = c # r" "\<not> is_space c" using value_head [OF v(2)] by blast
  let ?t = "advanced s (length (string_text key) + 1) 0"
  have key: "read_key text seen s = Inr (key, ?t)"
    using read_key_back [OF v(1), of seen s "text" c "r @ ?tail"] Cons.prems(4) doc c by (simp add: kv image_set del: set_map)
  have here: "drop (rd_index ?t) text = value_text v @ ?tail"
    using drop_append [of "rd_index s" "text" "string_text key @ [58]"] doc by simp
  have "stop ?tail" by (cases kvs) simp_all
  then have read: "read_value n l text (depth + 1) ?t = Inr (v, advanced ?t (length (value_text v)) (nodes v))"
    using v(3) Cons.prems(5) here by (simp add: reads_back_def kv)
  note next_doc = drop_append [OF here]
  show ?case
  proof (cases kvs)
    case Nil
    then show ?thesis using key read next_doc separator_close [of "advanced ?t (length (value_text v)) (nodes v)" "text" 125 post]
      by (simp add: k kv is_space_def add.assoc)
  next
    case (Cons w ws)
    obtain d q where d: "entry_text w = d # q" "\<not> is_space d" by (cases w) (simp add: string_text_def is_space_def)
    let ?u = "advanced ?t (length (value_text v) + 1) (nodes v)"
    have "read_separator 125 m e text (advanced ?t (length (value_text v)) (nodes v)) = Inr (False, ?u)" for m e
      using separator_comma [of "advanced ?t (length (value_text v)) (nodes v)" "text" d] next_doc d by (simp add: Cons add.assoc)
    moreover have "drop (rd_index ?u) text = commas (map entry_text kvs) @ 125 # post"
      using drop_append [of "rd_index ?t + length (value_text v)" "text" "[44]"] next_doc by (simp add: Cons commas_tail add.assoc del: commas.simps)
    moreover have "read_entries n k' l text depth (seen @ [kv]) ?u
        = Inr ((seen @ [kv]) @ kvs, advanced ?u (length (commas (map entry_text kvs)) + 1) (sum_list (map (\<lambda>(k, v). nodes v) kvs)))"
      by (rule Cons.IH) (use Cons.prems Cons calculation(2) k kv in \<open>simp_all\<close>)
    ultimately show ?thesis using key read by (simp add: k kv Cons commas_tail add.assoc del: commas.simps)
  qed
qed simp

lemma scalar_back:
  assumes "valid v" "height v = 1" "nodes v = 1" "\<forall>vs. v \<noteq> D_Arr vs" "\<forall>kvs. v \<noteq> D_Obj kvs"
    "drop (rd_index s) text = value_text v @ post" "stop post"
  shows "read_scalar text s = Inr (v, advanced s (length (value_text v)) 0)"
proof -
  obtain c r where c: "value_text v = c # r" using value_head [OF assms(1)] by blast
  note here = drop_head [of "rd_index s" "text" c "r @ post"]
  show ?thesis
  proof (cases v)
    case (D_Str t)
    then show ?thesis using assms(1,6) here c read_string_back [of t s "text" post] by (simp add: read_scalar_def string_text_def)
  next
    case (D_Num t)
    then have "c = 45 \<or> is_ascii_digit c" using canonical_head [of t t] assms(1) c by simp
    then show ?thesis
      using assms(1,6,7) here c D_Num read_number_back [of t s "text" post]
      by (auto simp: read_scalar_def word_at_def u_def is_ascii_digit_def)
  qed (use assms here c in \<open>auto simp: read_scalar_def word_at_def u_def moved_def advanced_def split: if_splits\<close>)
qed

lemma node_back:
  "depth \<le> jl_max_depth l \<Longrightarrow> int (rd_nodes s + 1) \<le> jl_max_nodes l \<Longrightarrow> reader_node l text depth s = Inr (advanced s 0 1)"
  by (simp add: reader_node_def advanced_def)

lemma scalar_step:
  assumes "valid v" "height v = 1" "nodes v = 1" "\<forall>vs. v \<noteq> D_Arr vs" "\<forall>kvs. v \<noteq> D_Obj kvs" "depth \<le> jl_max_depth l"
  shows "reads_back (Suc n) l text depth v"
  unfolding reads_back_def
proof (intro allI impI)
  fix s :: reader and post
  assume a: "int (rd_nodes s + nodes v) \<le> jl_max_nodes l" "drop (rd_index s) text = value_text v @ post" "stop post"
  have node: "reader_node l text depth s = Inr (advanced s 0 1)" using assms a(1) by (simp add: node_back)
  obtain c r where c: "value_text v = c # r" "c \<noteq> 123" "c \<noteq> 91"
  proof (cases v)
    case (D_Num t)
    then show ?thesis using that canonical_head [of t t] assms(1) by (auto simp: is_ascii_digit_def)
  next
    case (D_Bool b)
    then show ?thesis using that by (cases b) (simp_all add: u_def)
  qed (use assms(4,5) that in \<open>auto simp: u_def string_text_def\<close>)
  have "rd_index s < length text" "text ! rd_index s = c" using drop_head [of "rd_index s" "text" c] a(2) c(1) by simp_all
  then show "read_value (Suc n) l text depth s = Inr (v, advanced s (length (value_text v)) (nodes v))"
    using node c scalar_back [OF assms(1-5), of "advanced s 0 1" "text" post] a(2,3) assms(3) by simp
qed

lemma commas_length: "\<forall>t \<in> set ts. t \<noteq> [] \<Longrightarrow> length ts \<le> length (commas ts)"
proof (induction ts rule: commas.induct)
  case (2 t)
  then show ?case by (cases t) simp_all
qed auto

lemma array_back:
  assumes "\<forall>v \<in> set vs. valid v \<and> reads_back n l text (depth + 1) v" "depth \<le> jl_max_depth l"
  shows "reads_back (Suc n) l text depth (D_Arr vs)"
  unfolding reads_back_def
proof (intro allI impI)
  fix s :: reader and post
  assume a: "int (rd_nodes s + nodes (D_Arr vs)) \<le> jl_max_nodes l" "drop (rd_index s) text = value_text (D_Arr vs) @ post"
  let ?t = "advanced s 1 1"
  have node: "reader_node l text depth s = Inr (advanced s 0 1)" using assms(2) a(1) by (intro node_back) simp_all
  have here: "rd_index s < length text" "text ! rd_index s = 91" "drop (rd_index ?t) text = commas (map value_text vs) @ 93 # post"
    using drop_head [of "rd_index s" "text" 91] a(2) by simp_all
  have t: "moved (Suc (rd_index s)) (advanced s 0 1) = ?t" by (simp add: moved_def advanced_def)
  show "read_value (Suc n) l text depth s = Inr (D_Arr vs, advanced s (length (value_text (D_Arr vs))) (nodes (D_Arr vs)))"
  proof (cases vs)
    case Nil
    have "drop (rd_index ?t) text = 93 # post" using here(3) by (simp add: Nil)
    then have "skip_space text (Suc (rd_index s)) = Suc (rd_index s)" "Suc (rd_index s) < length text" "text ! Suc (rd_index s) = 93"
      using skip_space_none [of "rd_index ?t" "text" 93] drop_head [of "rd_index ?t" "text" 93] by (simp_all add: is_space_def)
    then show ?thesis using node here(1,2) by (simp add: Nil moved_def advanced_def)
  next
    case (Cons v ws)
    obtain c r where c: "value_text v = c # r" "\<not> is_space c" "c \<noteq> 93" using assms(1) value_head [of v] by (auto simp: Cons)
    have "\<exists>q. drop (rd_index ?t) text = c # q" using here(3) c(1) by (simp add: Cons commas_tail del: commas.simps)
    then have first: "skip_space text (Suc (rd_index s)) = Suc (rd_index s)" "text ! Suc (rd_index s) = c"
      using skip_space_none [of "rd_index ?t" "text" c] drop_head [of "rd_index ?t" "text" c] c(2) by auto
    have "length vs \<le> length (commas (map value_text vs))"
      using commas_length [of "map value_text vs"] assms(1) value_head by fastforce
    also have "\<dots> \<le> length text" using arg_cong [OF here(3), of length] by simp
    finally have "read_items n (length text) l text depth [] ?t
        = Inr ([] @ vs, advanced ?t (length (commas (map value_text vs)) + 1) (sum_list (map nodes vs)))"
      by (intro read_items_back [OF assms(1) _ _ _ here(3)]) (use a(1) in \<open>simp_all add: Cons\<close>)
    then show ?thesis using node here(1,2) first c(3) t by simp
  qed
qed

lemma object_back:
  assumes "\<forall>(k, v) \<in> set kvs. clean_text k \<and> valid v \<and> reads_back n l text (depth + 1) v" "distinct (map fst kvs)" "depth \<le> jl_max_depth l"
  shows "reads_back (Suc n) l text depth (D_Obj kvs)"
  unfolding reads_back_def
proof (intro allI impI)
  fix s :: reader and post
  assume a: "int (rd_nodes s + nodes (D_Obj kvs)) \<le> jl_max_nodes l" "drop (rd_index s) text = value_text (D_Obj kvs) @ post"
  let ?t = "advanced s 1 1"
  have node: "reader_node l text depth s = Inr (advanced s 0 1)" using assms(3) a(1) by (intro node_back) simp_all
  have here: "rd_index s < length text" "text ! rd_index s = 123" "drop (rd_index ?t) text = commas (map entry_text kvs) @ 125 # post"
    using drop_head [of "rd_index s" "text" 123] a(2) by simp_all
  have t: "moved (Suc (rd_index s)) (advanced s 0 1) = ?t" by (simp add: moved_def advanced_def)
  show "read_value (Suc n) l text depth s = Inr (D_Obj kvs, advanced s (length (value_text (D_Obj kvs))) (nodes (D_Obj kvs)))"
  proof (cases kvs)
    case Nil
    have "drop (rd_index ?t) text = 125 # post" using here(3) by (simp add: Nil)
    then have "skip_space text (Suc (rd_index s)) = Suc (rd_index s)" "Suc (rd_index s) < length text" "text ! Suc (rd_index s) = 125"
      using skip_space_none [of "rd_index ?t" "text" 125] drop_head [of "rd_index ?t" "text" 125] by (simp_all add: is_space_def)
    then show ?thesis using node here(1,2) by (simp add: Nil moved_def advanced_def)
  next
    case (Cons kv ws)
    have "\<exists>q. entry_text kv = 34 # q" by (cases kv) (simp add: string_text_def)
    then have "\<exists>q. drop (rd_index ?t) text = 34 # q" using here(3) by (auto simp: Cons commas_tail simp del: commas.simps)
    then have first: "skip_space text (Suc (rd_index s)) = Suc (rd_index s)" "text ! Suc (rd_index s) = 34"
      using skip_space_none [of "rd_index ?t" "text" 34] drop_head [of "rd_index ?t" "text" 34] by (auto simp: is_space_def)
    have "\<forall>t \<in> set (map entry_text kvs). t \<noteq> []" by (auto simp: string_text_def)
    from commas_length [OF this] have "length kvs \<le> length (commas (map entry_text kvs))" by simp
    also have "\<dots> \<le> length text" using arg_cong [OF here(3), of length] by simp
    finally have "read_entries n (length text) l text depth [] ?t
        = Inr ([] @ kvs, advanced ?t (length (commas (map entry_text kvs)) + 1) (sum_list (map (\<lambda>(k, v). nodes v) kvs)))"
      by (intro read_entries_back [OF assms(1) _ _ _ _ here(3)]) (use a(1) assms(2) in \<open>simp_all add: Cons\<close>)
    then show ?thesis using node here(1,2) first t by simp
  qed
qed

lemma value_back:
  "valid v \<Longrightarrow> height v \<le> n \<Longrightarrow> depth + int (height v) - 1 \<le> jl_max_depth l \<Longrightarrow> reads_back n l text depth v"
proof (induction "data_size v" arbitrary: v depth n rule: less_induct)
  case less
  have h: "0 < height v" by (cases v) simp_all
  then obtain m where n: "n = Suc m" using less.prems(2) by (cases n) simp_all
  have depth: "depth \<le> jl_max_depth l" using less.prems(3) h by linarith
  show ?case
  proof (cases v)
    case (D_Arr vs)
    have "valid x \<and> reads_back m l text (depth + 1) x" if x: "x \<in> set vs" for x
    proof
      show "valid x" using less.prems(1) x by (simp add: D_Arr list_all_iff)
      moreover have "data_size x < data_size v" using x by (auto simp: D_Arr dest!: split_list)
      ultimately show "reads_back m l text (depth + 1) x"
        using less.prems(2,3) height_below(1) [OF x] by (intro less.hyps) (simp_all add: D_Arr n del: height.simps)
    qed
    then show ?thesis using depth by (simp add: D_Arr n array_back)
  next
    case (D_Obj kvs)
    have "clean_text k \<and> valid x \<and> reads_back m l text (depth + 1) x" if x: "(k, x) \<in> set kvs" for k x
    proof (intro conjI)
      show "clean_text k" "valid x" using less.prems(1) x by (auto simp: D_Obj list_all_iff)
      moreover have "data_size x < data_size v" using x by (auto simp: D_Obj dest!: split_list)
      ultimately show "reads_back m l text (depth + 1) x"
        using less.prems(2,3) height_below(2) [OF x] by (intro less.hyps) (simp_all add: D_Obj n del: height.simps)
    qed
    then show ?thesis using depth less.prems(1) by (auto simp: D_Obj n intro!: object_back)
  qed (use less.prems(1) depth in \<open>simp_all add: n scalar_step\<close>)
qed

section \<open>Round trip\<close>

lemma normal_keeps: "nodes (normal v) = nodes v" "height (normal v) = height v" "valid v \<Longrightarrow> valid (normal v)"
proof -
  have "nodes (normal v) = nodes v \<and> height (normal v) = height v \<and> (valid v \<longrightarrow> valid (normal v))"
  proof (induction v)
    case (D_Arr vs)
    have "foldr (\<lambda>v. max (height v)) (map normal vs) 0 = foldr (\<lambda>v. max (height v)) vs 0"
      using D_Arr by (induction vs) simp_all
    then show ?case using D_Arr by (auto simp: comp_def list_all_iff cong: map_cong)
  next
    case (D_Obj kvs)
    let ?ns = "map (\<lambda>(k, v). (k, normal v)) kvs"
    have IH: "nodes (normal v) = nodes v" "height (normal v) = height v" "valid v \<Longrightarrow> valid (normal v)" if "(k, v) \<in> set kvs" for k v
      using D_Obj that by fastforce+
    have "sum_list (map (\<lambda>(k, v). nodes v) ?ns) = sum_list (map (\<lambda>(k, v). nodes v) kvs)"
      by (rule arg_cong [of _ _ sum_list]) (auto simp: IH)
    moreover have "height (D_Obj (sort_key fst ?ns)) \<le> Suc m \<longleftrightarrow> height (D_Obj kvs) \<le> Suc m" for m
      unfolding height_entries by (force simp: IH)
    then have "height (D_Obj (sort_key fst ?ns)) = height (D_Obj kvs)" by (metis height.simps(2) le_antisym le_refl)
    moreover have "distinct (map fst (sort_key fst ?ns)) \<longleftrightarrow> distinct (map fst kvs)"
      using sort_key_map [of "\<lambda>k. k" fst ?ns, symmetric] by (simp add: comp_def case_prod_beta')
    ultimately show ?case by (auto simp: sum_list_sort_key list_all_iff IH)
  qed simp_all
  then show "nodes (normal v) = nodes v" "height (normal v) = height v" "valid v \<Longrightarrow> valid (normal v)" by simp_all
qed

lemma normal_again: "normal (normal v) = normal v"
proof (induction v)
  case (D_Obj kvs)
  let ?ns = "map (\<lambda>(k, v). (k, normal v)) kvs"
  have "map (\<lambda>(k, v). (k, normal v)) (sort_key fst ?ns) = sort_key fst ?ns"
    using D_Obj by (intro map_idI) fastforce
  then show ?case by (simp add: sort_key_id_if_sorted)
qed simp_all

text \<open>What the writer writes contains no surrogate.\<close>

lemma canonical_clean:
  assumes "canonical_number t = Inr t'"
  shows "clean_text t"
proof -
  have d: "list_ex surrogate (takeWhile is_ascii_digit r) = False" for r
    by (auto simp: list_ex_iff surrogate_def is_ascii_digit_def dest: set_takeWhileD)
  have w: "list_ex surrogate r \<longleftrightarrow> list_ex surrogate (dropWhile is_ascii_digit r)" for r
    using d [of r] list_ex_append [of surrogate "takeWhile is_ascii_digit r" "dropWhile is_ascii_digit r"] by simp
  have surrogate_char: "\<not> surrogate 46" "\<not> surrogate 48" by (simp_all add: surrogate_def)
  obtain negative r where sign: "number_sign t = (negative, r)" by (cases "number_sign t")
  obtain ds a fraction b e where parts: "integer_part r = Inr (ds, a)" "number_fraction a = Inr (fraction, b)" "exponent_part b = Inr (e, [])"
    using assms by (auto simp: canonical_number_def sign ebind_Inr split: if_splits)
  have "list_ex surrogate b = False"
  proof (cases b)
    case (Cons c q)
    obtain n q' where q': "exponent_sign q = (n, q')" by (cases "exponent_sign q")
    then have "list_ex surrogate q' \<longleftrightarrow> list_ex surrogate q" by (cases q) (auto simp: exponent_sign_def surrogate_def split: if_splits)
    moreover have "c = 101 \<or> c = 69" "dropWhile is_ascii_digit q' = []"
      using parts(3) by (auto simp: Cons exponent_part_def q' Let_def simp del: dropWhile_eq_Nil_conv split: if_splits)
    ultimately show ?thesis using w [of q'] by (auto simp: Cons surrogate_def)
  qed simp
  moreover have "list_ex surrogate a \<longleftrightarrow> list_ex surrogate b"
    using parts(2) surrogate_char by (cases a) (auto simp: number_fraction_def w [symmetric] split: if_splits)
  moreover have "list_ex surrogate r \<longleftrightarrow> list_ex surrogate a"
    using parts(1) w [of r] surrogate_char by (cases r) (auto simp: integer_part_def simp del: dropWhile.simps takeWhile.simps split: if_splits)
  moreover have "list_ex surrogate t \<longleftrightarrow> list_ex surrogate r"
    using sign by (cases t) (auto simp: number_sign_def surrogate_def split: if_splits)
  ultimately show ?thesis by (simp add: clean_text_def)
qed

lemma clean_append [simp]: "clean_text (a @ b) \<longleftrightarrow> clean_text a \<and> clean_text b" "clean_text []" "clean_text (c # a) \<longleftrightarrow> \<not> surrogate c \<and> clean_text a"
  by (auto simp: clean_text_def)

lemma clean_concat: "clean_text (concat ts) \<longleftrightarrow> (\<forall>t \<in> set ts. clean_text t)"
  by (induction ts) simp_all

lemma clean_commas: "clean_text (commas ts) \<longleftrightarrow> (\<forall>t \<in> set ts. clean_text t)"
  by (induction ts rule: commas.induct) (simp_all add: surrogate_def)

lemma clean_escaped: "\<not> surrogate c \<Longrightarrow> clean_text (escaped c)"
  by (auto simp: escaped_def replacement_def hex4_def surrogate_def)

lemma clean_string_text: "clean_text t \<Longrightarrow> clean_text (string_text t)"
  by (induction t) (simp_all add: string_text_def clean_concat surrogate_def clean_escaped)

lemma clean_value_text: "valid v \<Longrightarrow> clean_text (value_text v)"
proof (induction v)
  case (D_Obj kvs)
  then show ?case by (fastforce simp: clean_commas clean_string_text surrogate_def list_all_iff)
qed (auto simp: clean_string_text canonical_clean clean_commas surrogate_def u_def list_all_iff)

lemma valid_encodable: "valid v \<Longrightarrow> encodable v"
  by (induction v) (fastforce simp: list_all_iff)+

text \<open>
  C30. Encoding loses nothing. The canonical text of a value decodes, under the same limits, to the value with the entries
  of its objects in the order of their keys, and to nothing else; encoding that value again gives the same text.
\<close>

theorem decode_inverts_encode:
  assumes "encode l v = Inr t" "valid v" "int (utf8_size t) \<le> jl_max_input_bytes l"
  shows "decode l t = Inr (normal v) \<and> encode l (normal v) = Inr t"
proof -
  note e = assms(1) [unfolded encode_Inr]
  let ?v = "normal v"
  have v: "valid ?v" using assms(2) by (rule normal_keeps)
  obtain c r where c: "t = c # r" "\<not> is_space c" using value_head [OF v] e by auto
  have depth: "int (height ?v) \<le> jl_max_depth l" using e by (simp add: fits_limits_def normal_keeps)
  have "reads_back (nat (jl_max_depth l) + 1) l t 1 ?v" using v depth by (intro value_back) simp_all
  then have "read_value (nat (jl_max_depth l) + 1) l t 1 \<lparr>rd_index = 0, rd_nodes = 0\<rparr>
      = Inr (?v, advanced \<lparr>rd_index = 0, rd_nodes = 0\<rparr> (length t) (nodes ?v))"
    using e by (simp add: reads_back_def normal_keeps)
  then have "read_document l t = Inr ?v"
    using c skip_space_none [of 0 t c r] by (simp add: read_document_def skip_space_end)
  moreover have "\<not> list_ex surrogate t" using clean_value_text [OF v] e by (simp add: clean_text_def)
  ultimately have "decode l t = Inr ?v" using e assms(3) by (simp add: decode_def)
  moreover have "encode l ?v = Inr t"
    using e valid_encodable [OF v] by (auto simp: encode_Inr fits_limits_def normal_keeps normal_again)
  ultimately show ?thesis by simp
qed

definition sample :: data_value where
  "sample = D_Obj [(u ''b'', D_Arr [D_Num (u ''12.5''), D_Null, D_Obj []]), (u ''a'', D_Str [104, 10, 34, 1])]"

lemma sample_text: "value_text (normal sample) = [123, 34] @ u ''a'' @ [34, 58, 34, 104, 92, 110, 92, 34, 92, 117] @ u ''0001'' @ [34, 44, 34] @ u ''b'' @ [34, 58] @ u ''[12.5,null,{}]'' @ [125]"
  by (simp add: sample_def u_def string_text_def escaped_def replacement_def hex4_def)

theorem decode_inverts_encode_witness:
  "encode DEFAULT_LIMITS sample = Inr (value_text (normal sample)) \<and> decode DEFAULT_LIMITS (value_text (normal sample)) = Inr (normal sample)
   \<and> normal sample \<noteq> sample"
proof -
  have "canonical_number (u ''12.5'') = Inr (u ''12.5'')" by code_simp
  then have valid: "valid sample" by (simp add: sample_def clean_text_def surrogate_def u_def)
  have size: "utf8_size (value_text (normal sample)) = 38" unfolding sample_text by (simp add: utf8_size_def utf8_width_def u_def)
  have "fits_limits DEFAULT_LIMITS 1 sample" "nodes sample = 6"
    by (simp_all add: fits_limits_def sample_def clean_text_def surrogate_def u_def DEFAULT_LIMITS_def)
  then have encoded: "encode DEFAULT_LIMITS sample = Inr (value_text (normal sample))"
    using size by (simp add: encode_Inr limits_validate_def DEFAULT_LIMITS_def)
  have "normal sample \<noteq> sample" by (simp add: sample_def u_def)
  moreover have "int (utf8_size (value_text (normal sample))) \<le> jl_max_input_bytes DEFAULT_LIMITS" by (simp add: size DEFAULT_LIMITS_def)
  ultimately show ?thesis using decode_inverts_encode [OF encoded valid] encoded by simp
qed

section \<open>Every text\<close>

text \<open>The errors of the parser, at a byte of the text.\<close>

definition located :: "string set \<Rightarrow> ucs \<Rightarrow> data_exc \<Rightarrow> bool" where
  "located codes text e \<longleftrightarrow> (\<exists>code message args offset. e = Data_Error code message args offset \<and> code \<in> codes \<and> offset \<le> utf8_size text)"

abbreviation reader_codes :: "string set" where
  "reader_codes \<equiv> {''KS3602'', ''KS3603'', ''KS3604'', ''KS3605''}"

definition read_outcome :: "ucs \<Rightarrow> ('a \<Rightarrow> bool) \<Rightarrow> data_exc + 'a \<Rightarrow> bool" where
  "read_outcome text P m \<longleftrightarrow> (case m of Inl e \<Rightarrow> located reader_codes text e | Inr x \<Rightarrow> P x)"

lemma outcome_Inr [simp]: "read_outcome text P (Inr x) = P x"
  by (simp add: read_outcome_def)

lemma utf8_size_take: "utf8_size (take i text) \<le> utf8_size text"
  by (metis append_take_drop_id le_add1 utf8_size_append)

lemma outcome_error [simp]: "code \<in> reader_codes \<Longrightarrow> read_outcome text P (reader_error text code message args offset)"
  by (simp add: read_outcome_def located_def reader_error_def utf8_size_take)

lemma outcome_bind: "read_outcome text P m \<Longrightarrow> (\<And>x. m = Inr x \<Longrightarrow> P x \<Longrightarrow> read_outcome text Q (k x)) \<Longrightarrow> read_outcome text Q (ebind m k)"
  by (cases m) (simp_all add: read_outcome_def)

lemma skip_bounds: "i \<le> length text \<Longrightarrow> i \<le> skip_space text i \<and> skip_space text i \<le> length text"
    "i \<le> length text \<Longrightarrow> i \<le> skip_digits text i \<and> skip_digits text i \<le> length text"
  using length_takeWhile_le [of is_space "drop i text"] length_takeWhile_le [of is_ascii_digit "drop i text"]
  by (auto simp: skip_space_def skip_digits_def)

lemma unicode_escape_outcome:
  "read_outcome text (\<lambda>(d, j). i < j \<and> j \<le> length text \<and> \<not> surrogate d) (unicode_escape text i)"
  by (auto simp: unicode_escape_def Let_def surrogate_def)

lemma simple_escape_clean: "simple_escape x = Some d \<Longrightarrow> \<not> surrogate d"
  by (auto simp: simple_escape_def surrogate_def split: if_splits)

lemma read_string_loop_outcome:
  "clean_text acc \<Longrightarrow> read_outcome text (\<lambda>(t, j). i < j \<and> j \<le> length text \<and> clean_text t) (read_string_loop text i acc)"
proof (induction "text" i acc rule: read_string_loop.induct)
  case (1 "text" i acc)
  note IH = "1.IH"
  consider "length text \<le> i" | "i < length text" "text ! i = 92" "i + 1 < length text" "simple_escape (text ! (i + 1)) = None" "text ! (i + 1) = 117"
    | d where "i < length text" "text ! i = 92" "i + 1 < length text" "simple_escape (text ! (i + 1)) = Some d"
    | "i < length text" "text ! i \<noteq> 92" "text ! i \<noteq> 34" "\<not> text ! i < 32" "\<not> surrogate (text ! i)"
    | "i < length text" "text ! i = 92 \<longrightarrow> length text \<le> i + 1 \<or> simple_escape (text ! (i + 1)) = None \<and> text ! (i + 1) \<noteq> 117"
      "text ! i = 92 \<or> text ! i = 34 \<or> text ! i < 32 \<or> surrogate (text ! i)"
    by (meson linorder_not_less not_None_eq)
  then show ?case
  proof cases
    case 1
    then show ?thesis by (simp add: read_string_loop.simps)
  next
    case 2
    have "read_outcome text (\<lambda>(t, j). i < j \<and> j \<le> length text \<and> clean_text t) (ebind (unicode_escape text (i + 2)) (\<lambda>(d, j). read_string_loop text j (acc @ [d])))"
    proof (rule outcome_bind [OF unicode_escape_outcome], clarify)
      fix d j
      assume dj: "unicode_escape text (i + 2) = Inr (d, j)" "i + 2 < j" "\<not> surrogate d"
      have "read_outcome text (\<lambda>(t, k). j < k \<and> k \<le> length text \<and> clean_text t) (read_string_loop text j (acc @ [d]))"
        using IH(1) [OF _ refl _ _ _ _ _ dj(1) refl] 2 dj "1.prems" by simp
      then show "read_outcome text (\<lambda>(t, j). i < j \<and> j \<le> length text \<and> clean_text t) (read_string_loop text j (acc @ [d]))"
        using dj(2) by (auto simp: read_outcome_def split: sum.splits)
    qed
    then show ?thesis using 2 by (simp add: read_string_loop.simps [of "text" i])
  next
    case (3 d)
    have "read_outcome text (\<lambda>(t, k). i + 2 < k \<and> k \<le> length text \<and> clean_text t) (read_string_loop text (i + 2) (acc @ [d]))"
      using IH(2) [OF _ refl _ _ _ 3(4)] 3 simple_escape_clean "1.prems" by simp
    then show ?thesis using 3 by (auto simp: read_string_loop.simps [of "text" i] read_outcome_def split: sum.splits)
  next
    case 4
    have "read_outcome text (\<lambda>(t, k). i + 1 < k \<and> k \<le> length text \<and> clean_text t) (read_string_loop text (i + 1) (acc @ [text ! i]))"
      using IH(3) [OF _ refl] 4 "1.prems" by simp
    then show ?thesis using 4 by (auto simp: read_string_loop.simps [of "text" i] read_outcome_def split: sum.splits)
  next
    case 5
    then show ?thesis using "1.prems" by (cases "text ! i = 92") (auto simp: read_string_loop.simps [of "text" i] Let_def)
  qed
qed

lemma read_string_outcome:
  "read_outcome text (\<lambda>(t, s'). clean_text t \<and> rd_index s < rd_index s' \<and> rd_index s' \<le> length text \<and> rd_nodes s' = rd_nodes s) (read_string text s)"
  unfolding read_string_def
  by (rule outcome_bind [OF read_string_loop_outcome]) (auto simp: moved_def)

lemma canonical_number_errors: "canonical_number t = Inl e \<Longrightarrow> \<exists>message. e = Value_Error message"
  by (auto simp: canonical_number_def integer_part_def number_fraction_def exponent_part_def Let_def ebind_def
      split: if_splits list.splits prod.splits sum.splits)

lemma mk_Number_errors: "ebind (canonical_number t) mk_Number = Inl e \<Longrightarrow> \<exists>message. e = Value_Error message"
  using canonical_number_errors by (auto simp: ebind_def mk_Number_def split: sum.splits if_splits)

lemma mk_Number_canonical: "mk_Number t = Inr n \<Longrightarrow> canonical_number n = Inr n"
  by (auto simp: mk_Number_def ebind_Inr split: if_splits)

lemma skip_digits_some: "i < length text \<Longrightarrow> is_ascii_digit (text ! i) \<Longrightarrow> i < skip_digits text i"
  by (simp add: skip_digits_def Cons_nth_drop_Suc [symmetric])

lemma number_ends:
  "i \<le> length text \<Longrightarrow> read_outcome text (\<lambda>j. i < j \<and> j \<le> length text) (number_integer_end text i)"
  "i \<le> length text \<Longrightarrow> read_outcome text (\<lambda>j. i \<le> j \<and> j \<le> length text) (number_fraction_end text i)"
  "i \<le> length text \<Longrightarrow> read_outcome text (\<lambda>j. i \<le> j \<and> j \<le> length text) (number_exponent_end text i)"
proof -
  assume i: "i \<le> length text"
  show "read_outcome text (\<lambda>j. i < j \<and> j \<le> length text) (number_integer_end text i)"
    using skip_digits_some [of i "text"] skip_bounds(2) [OF i] by (simp add: number_integer_end_def is_ascii_digit_def)
  show "read_outcome text (\<lambda>j. i \<le> j \<and> j \<le> length text) (number_fraction_end text i)"
    using i skip_bounds(2) [of "i + 1" "text"] by (auto simp: number_fraction_end_def)
  show "read_outcome text (\<lambda>j. i \<le> j \<and> j \<le> length text) (number_exponent_end text i)"
    using i skip_bounds(2) [of "i + 1" "text"] skip_bounds(2) [of "i + 2" "text"] by (auto simp: number_exponent_end_def Let_def)
qed

lemma read_number_outcome:
  assumes "rd_index s < length text"
  shows "read_outcome text (\<lambda>(t, s'). canonical_number t = Inr t \<and> rd_index s < rd_index s' \<and> rd_index s' \<le> length text \<and> rd_nodes s' = rd_nodes s)
    (read_number text s)"
proof -
  let ?P = "\<lambda>(t, s'). canonical_number t = Inr t \<and> rd_index s < rd_index s' \<and> rd_index s' \<le> length text \<and> rd_nodes s' = rd_nodes s"
  have finish: "read_outcome text ?P (case ebind (canonical_number x) mk_Number of Inr n \<Rightarrow> Inr (n, moved i s)
      | Inl (Value_Error message) \<Rightarrow> syntax_error text message (rd_index s) | Inl e \<Rightarrow> Inl e)"
    if "rd_index s < i" "i \<le> length text" for x i
    using that mk_Number_errors [of x] by (auto simp: moved_def ebind_Inr dest: mk_Number_canonical split: sum.split)
  let ?i = "if text ! rd_index s = 45 then rd_index s + 1 else rd_index s"
  show ?thesis
    unfolding read_number_def Let_def
  proof (rule outcome_bind [OF number_ends(1)])
    show "?i \<le> length text" using assms by simp
  next
    fix i
    assume "?i < i \<and> i \<le> length text"
    then have i: "rd_index s < i" "i \<le> length text" by (simp_all split: if_splits)
    show "read_outcome text ?P (ebind (number_fraction_end text i) (\<lambda>i. ebind (number_exponent_end text i) (\<lambda>i.
        case ebind (canonical_number (take (i - rd_index s) (drop (rd_index s) text))) mk_Number of Inr n \<Rightarrow> Inr (n, moved i s)
        | Inl (Value_Error message) \<Rightarrow> syntax_error text message (rd_index s) | Inl e \<Rightarrow> Inl e)))"
      by (intro outcome_bind [OF number_ends(2)] outcome_bind [OF number_ends(3)] finish) (use i in simp_all)
  qed
qed

text \<open>What a successful call of the parser returns: the text read, the nodes counted.\<close>

definition parsed :: "limits \<Rightarrow> ucs \<Rightarrow> reader \<Rightarrow> nat \<Rightarrow> reader \<Rightarrow> bool" where
  "parsed l text s n s' \<longleftrightarrow> rd_index s < rd_index s' \<and> rd_index s' \<le> length text \<and> rd_nodes s' = rd_nodes s + n
     \<and> (int (rd_nodes s) \<le> jl_max_nodes l \<longrightarrow> int (rd_nodes s') \<le> jl_max_nodes l)"

lemma parsed_seq: "parsed l text s m t \<Longrightarrow> parsed l text t n r \<Longrightarrow> parsed l text s (m + n) r"
  by (auto simp: parsed_def)

lemma read_scalar_outcome:
  assumes "rd_index s < length text"
  shows "read_outcome text (\<lambda>(v, s'). valid v \<and> height v = 1 \<and> nodes v = 1 \<and> parsed l text s 0 s') (read_scalar text s)"
proof -
  have "rd_index s + length w \<le> length text" if "word_at w text (rd_index s)" for w
    using arg_cong [OF that [unfolded word_at_def], of length] assms by (simp add: u_def)
  from this [of "''true''"] this [of "''false''"] this [of "''null''"]
  have word: "word_at ''true'' text (rd_index s) \<longrightarrow> rd_index s + 4 \<le> length text" "word_at ''false'' text (rd_index s) \<longrightarrow> rd_index s + 5 \<le> length text"
      "word_at ''null'' text (rd_index s) \<longrightarrow> rd_index s + 4 \<le> length text"
    by auto
  have "read_outcome text (\<lambda>(v, s'). valid v \<and> height v = 1 \<and> nodes v = 1 \<and> parsed l text s 0 s') (ebind (read_string text s) (\<lambda>(t, s). Inr (D_Str t, s)))"
    by (rule outcome_bind [OF read_string_outcome]) (auto simp: parsed_def)
  moreover have "read_outcome text (\<lambda>(v, s'). valid v \<and> height v = 1 \<and> nodes v = 1 \<and> parsed l text s 0 s') (ebind (read_number text s) (\<lambda>(t, s). Inr (D_Num t, s)))"
    by (rule outcome_bind [OF read_number_outcome [OF assms]]) (auto simp: parsed_def)
  ultimately show ?thesis using word by (simp add: read_scalar_def Let_def parsed_def moved_def)
qed

lemma read_separator_outcome:
  assumes "rd_index s \<le> length text"
  shows "read_outcome text (\<lambda>(closed, s'). parsed l text s 0 s') (read_separator close m e text s)"
  using skip_bounds(1) [OF assms] skip_bounds(1) [of "Suc (skip_space text (rd_index s))" "text"]
  by (auto simp: read_separator_def Let_def parsed_def moved_def)

lemma read_key_outcome:
  "read_outcome text (\<lambda>(key, s'). clean_text key \<and> key \<notin> fst ` set kvs \<and> parsed l text s 0 s') (read_key text kvs s)"
proof (cases "length text \<le> rd_index s \<or> text ! rd_index s \<noteq> 34")
  case False
  show ?thesis
    unfolding read_key_def Let_def if_not_P [OF False]
  proof (rule outcome_bind [OF read_string_outcome], clarify)
    fix key and t :: reader
    assume t: "clean_text key" "rd_index s < rd_index t" "rd_index t \<le> length text" "rd_nodes t = rd_nodes s"
    show "read_outcome text (\<lambda>(key, s'). clean_text key \<and> key \<notin> fst ` set kvs \<and> parsed l text s 0 s')
        (if key \<in> fst ` set kvs then reader_error text ''KS3604'' ''duplicate JSON object key {}'' [key] (rd_index s)
         else if length text \<le> skip_space text (rd_index t) \<or> text ! skip_space text (rd_index t) \<noteq> 58
         then syntax_error text ''expected ':' after JSON object key'' (skip_space text (rd_index t))
         else Inr (key, moved (skip_space text (skip_space text (rd_index t) + 1)) t))"
      using t skip_bounds(1) [OF t(3)] skip_bounds(1) [of "Suc (skip_space text (rd_index t))" "text"]
      by (auto simp: parsed_def moved_def)
  qed
qed (simp add: read_key_def)

lemma reader_node_outcome:
  "read_outcome text (\<lambda>t. depth \<le> jl_max_depth l \<and> int (rd_nodes t) \<le> jl_max_nodes l \<and> rd_nodes t = rd_nodes s + 1 \<and> rd_index t = rd_index s)
    (reader_node l text depth s)"
  by (simp add: reader_node_def)

lemma parsed_node:
  "parsed l text (moved j t) n s' \<Longrightarrow> rd_index s \<le> j \<Longrightarrow> rd_nodes t = rd_nodes s + 1 \<Longrightarrow> int (rd_nodes t) \<le> jl_max_nodes l \<Longrightarrow> parsed l text s (Suc n) s'"
  by (simp add: parsed_def moved_def)

definition item_ok :: "limits \<Rightarrow> int \<Rightarrow> data_value \<Rightarrow> bool" where
  "item_ok l depth v \<longleftrightarrow> valid v \<and> depth + int (height v) - 1 \<le> jl_max_depth l"

lemma items_ok: "depth \<le> jl_max_depth l \<Longrightarrow> \<forall>v \<in> set vs. item_ok l (depth + 1) v \<Longrightarrow> item_ok l depth (D_Arr vs)"
  using height_items [of vs "nat (jl_max_depth l - depth)"] by (auto simp: item_ok_def list_all_iff simp del: height.simps)

lemma entries_ok:
  "depth \<le> jl_max_depth l \<Longrightarrow> distinct (map fst kvs) \<Longrightarrow> \<forall>(k, v) \<in> set kvs. clean_text k \<and> item_ok l (depth + 1) v \<Longrightarrow> item_ok l depth (D_Obj kvs)"
  using height_entries [of kvs "nat (jl_max_depth l - depth)"] by (fastforce simp: item_ok_def list_all_iff simp del: height.simps)

definition items_read :: "limits \<Rightarrow> ucs \<Rightarrow> int \<Rightarrow> data_value list \<Rightarrow> reader \<Rightarrow> data_value list \<times> reader \<Rightarrow> bool" where
  "items_read l text depth items s = (\<lambda>(vs, s'). \<exists>ws. vs = items @ ws \<and> (\<forall>v \<in> set ws. item_ok l (depth + 1) v)
     \<and> parsed l text s (sum_list (map nodes ws)) s')"

definition entries_read :: "limits \<Rightarrow> ucs \<Rightarrow> int \<Rightarrow> (ucs \<times> data_value) list \<Rightarrow> reader \<Rightarrow> (ucs \<times> data_value) list \<times> reader \<Rightarrow> bool" where
  "entries_read l text depth kvs s = (\<lambda>(es, s'). \<exists>ws. es = kvs @ ws \<and> distinct (map fst es) \<and> (\<forall>(k, v) \<in> set ws. clean_text k \<and> item_ok l (depth + 1) v)
     \<and> parsed l text s (sum_list (map (\<lambda>(k, v). nodes v) ws)) s')"

abbreviation value_read :: "limits \<Rightarrow> ucs \<Rightarrow> int \<Rightarrow> reader \<Rightarrow> data_value \<times> reader \<Rightarrow> bool" where
  "value_read l text depth s \<equiv> \<lambda>(v, s'). item_ok l depth v \<and> parsed l text s (nodes v) s'"

lemma outcome_mono: "read_outcome text P m \<Longrightarrow> (\<And>x. P x \<Longrightarrow> Q x) \<Longrightarrow> read_outcome text Q m"
  by (auto simp: read_outcome_def split: sum.splits)

text \<open>One round of the loop of an array, one round of the loop of an object, one value.\<close>

lemma read_items_step:
  assumes "rd_index s \<le> length text"
    "read_outcome text (value_read l text (depth + 1) s) (read_value n l text (depth + 1) s)"
    "\<And>v t. rd_index s + 1 < rd_index t \<Longrightarrow> rd_index t \<le> length text \<Longrightarrow>
       read_outcome text (items_read l text depth (items @ [v]) t) (read_items n k l text depth (items @ [v]) t)"
  shows "read_outcome text (items_read l text depth items s) (read_items n (Suc k) l text depth items s)"
  unfolding read_items.simps
proof (rule outcome_bind [OF assms(2)], clarify, rule outcome_bind [OF read_separator_outcome [of _ _ l]], goal_cases)
  case (1 v s1)
  then show ?case by (simp add: parsed_def)
next
  case (2 v s1 x)
  obtain closed s2 where x: "x = (closed, s2)" by (cases x)
  have p: "parsed l text s (nodes v) s2" using 2 parsed_seq [of l "text" s "nodes v" s1 0 s2] by (simp add: x)
  have last: "items_read l text depth items s (items @ [v], s2)" using p 2 by (simp add: items_read_def)
  have more: "items_read l text depth items s y" if rest: "items_read l text depth (items @ [v]) s2 y" for y
  proof -
    obtain s3 ws where y: "y = ((items @ [v]) @ ws, s3)" "\<forall>v \<in> set ws. item_ok l (depth + 1) v" "parsed l text s2 (sum_list (map nodes ws)) s3"
      using rest unfolding items_read_def by blast
    show ?thesis using y 2 parsed_seq [OF p y(3)] by (auto simp: items_read_def intro!: exI [of _ "v # ws"])
  qed
  have "rd_index s + 1 < rd_index s2" "rd_index s2 \<le> length text" using 2 by (auto simp: x parsed_def)
  from outcome_mono [OF assms(3) [OF this] more] last show ?case by (simp add: x)
qed

lemma read_entries_step:
  assumes "rd_index s \<le> length text" "distinct (map fst kvs)"
    "\<And>t. rd_index t \<le> length text \<Longrightarrow> read_outcome text (value_read l text (depth + 1) t) (read_value n l text (depth + 1) t)"
    "\<And>k v t. rd_index s + 1 < rd_index t \<Longrightarrow> rd_index t \<le> length text \<Longrightarrow> k \<notin> fst ` set kvs \<Longrightarrow>
       read_outcome text (entries_read l text depth (kvs @ [(k, v)]) t) (read_entries n m l text depth (kvs @ [(k, v)]) t)"
  shows "read_outcome text (entries_read l text depth kvs s) (read_entries n (Suc m) l text depth kvs s)"
  unfolding read_entries.simps
proof (rule outcome_bind [OF read_key_outcome [of _ _ l]], clarify, rule outcome_bind [OF assms(3)], goal_cases)
  case (1 key s0)
  then show ?case by (simp add: parsed_def)
next
  case (2 key s0 y)
  obtain v s1 where y: "y = (v, s1)" by (cases y)
  have s1: "parsed l text s (nodes v) s1" "item_ok l (depth + 1) v" using 2 parsed_seq [of l "text" s 0 s0 "nodes v" s1] by (simp_all add: y)
  show ?case
    unfolding y prod.case
  proof (rule outcome_bind [OF read_separator_outcome [of _ _ l]], goal_cases)
    case 1
    then show ?case using s1 by (simp add: parsed_def)
  next
    case (2 x)
    obtain closed s2 where x: "x = (closed, s2)" by (cases x)
    have p: "parsed l text s (nodes v) s2" using 2 parsed_seq [OF s1(1), of 0 s2] by (simp add: x)
    have key: "clean_text key" "key \<notin> fst ` set kvs" by fact+
    have last: "entries_read l text depth kvs s (kvs @ [(key, v)], s2)" using p s1 key assms(2) by (simp add: entries_read_def)
    have more: "entries_read l text depth kvs s z" if rest: "entries_read l text depth (kvs @ [(key, v)]) s2 z" for z
    proof -
      obtain s3 ws where z: "z = ((kvs @ [(key, v)]) @ ws, s3)" "distinct (map fst ((kvs @ [(key, v)]) @ ws))"
          "\<forall>(k, v) \<in> set ws. clean_text k \<and> item_ok l (depth + 1) v" "parsed l text s2 (sum_list (map (\<lambda>(k, v). nodes v) ws)) s3"
        using rest unfolding entries_read_def by blast
      show ?thesis using z s1 key parsed_seq [OF p z(4)] by (auto simp: entries_read_def intro!: exI [of _ "(key, v) # ws"])
    qed
    have "rd_index s + 1 < rd_index s2" "rd_index s2 \<le> length text" using 2 s1(1) by (auto simp: x parsed_def)
    from outcome_mono [OF assms(4) [OF this key(2)] more] last show ?case by (simp add: x)
  qed
qed

lemma moved_index [simp]: "rd_index (moved j t) = j"
  by (simp add: moved_def)

lemma read_value_step:
  assumes "rd_index s \<le> length text"
    "\<And>t. depth \<le> jl_max_depth l \<Longrightarrow> 0 < rd_index t \<Longrightarrow> rd_index t \<le> length text \<Longrightarrow>
       read_outcome text (items_read l text depth [] t) (read_items n (length text) l text depth [] t)"
    "\<And>t. depth \<le> jl_max_depth l \<Longrightarrow> 0 < rd_index t \<Longrightarrow> rd_index t \<le> length text \<Longrightarrow>
       read_outcome text (entries_read l text depth [] t) (read_entries n (length text) l text depth [] t)"
  shows "read_outcome text (value_read l text depth s) (read_value (Suc n) l text depth s)"
  unfolding read_value.simps Let_def
proof (rule outcome_bind [OF reader_node_outcome], goal_cases)
  case (1 t)
  then have t: "depth \<le> jl_max_depth l" "int (rd_nodes t) \<le> jl_max_nodes l" "rd_nodes t = rd_nodes s + 1" "rd_index t = rd_index s" by simp_all
  let ?j = "skip_space text (rd_index t + 1)"
  show ?case
  proof (cases "rd_index t < length text")
    case True
    then have j: "rd_index s < ?j" "?j \<le> length text" using skip_bounds(1) [of "rd_index t + 1" "text"] t(4) by simp_all
    have empty: "read_outcome text (value_read l text depth s) (Inr (D_Arr [], moved (?j + 1) t))" "read_outcome text (value_read l text depth s) (Inr (D_Obj [], moved (?j + 1) t))"
      if "?j < length text"
      using that t j by (simp_all add: item_ok_def parsed_def moved_def)
    have arr: "read_outcome text (value_read l text depth s) (ebind (read_items n (length text) l text depth [] (moved ?j t)) (\<lambda>(vs, s). Inr (D_Arr vs, s)))"
      by (rule outcome_bind [OF assms(2) [OF t(1)]])
        (use j t in \<open>auto simp: items_read_def intro!: items_ok parsed_node [of l "text" ?j t]\<close>)
    have obj: "read_outcome text (value_read l text depth s) (ebind (read_entries n (length text) l text depth [] (moved ?j t)) (\<lambda>(kvs, s). Inr (D_Obj kvs, s)))"
      by (rule outcome_bind [OF assms(3) [OF t(1)]])
        (use j t in \<open>auto simp: entries_read_def intro!: entries_ok parsed_node [of l "text" ?j t]\<close>)
    have scalar: "read_outcome text (value_read l text depth s) (read_scalar text t)"
      by (rule outcome_mono [OF read_scalar_outcome [OF True, of l]]) (use t in \<open>auto simp: item_ok_def parsed_def\<close>)
    show ?thesis using True empty arr obj scalar by simp
  qed simp
qed

text \<open>The levels and rounds that the parser is given are enough for every text.\<close>

lemma read_items_outcome:
  assumes "\<And>t. rd_index t \<le> length text \<Longrightarrow> read_outcome text (value_read l text (depth + 1) t) (read_value n l text (depth + 1) t)"
    "rd_index s \<le> length text" "length text < rd_index s + k"
  shows "read_outcome text (items_read l text depth items s) (read_items n k l text depth items s)"
  using assms(2,3)
proof (induction k arbitrary: items s)
  case (Suc k)
  then show ?case by (intro read_items_step assms(1) Suc.IH) simp_all
qed simp

lemma read_entries_outcome:
  assumes "\<And>t. rd_index t \<le> length text \<Longrightarrow> read_outcome text (value_read l text (depth + 1) t) (read_value n l text (depth + 1) t)"
    "rd_index s \<le> length text" "length text < rd_index s + k" "distinct (map fst kvs)"
  shows "read_outcome text (entries_read l text depth kvs s) (read_entries n k l text depth kvs s)"
  using assms(2-4)
proof (induction k arbitrary: kvs s)
  case (Suc k)
  then show ?case by (intro read_entries_step assms(1) Suc.IH) simp_all
qed simp

lemma read_value_outcome:
  "depth \<le> jl_max_depth l + 1 \<Longrightarrow> jl_max_depth l - depth + 1 < int n \<Longrightarrow> rd_index s \<le> length text \<Longrightarrow>
   read_outcome text (value_read l text depth s) (read_value n l text depth s)"
proof (induction n arbitrary: depth s)
  case (Suc n)
  have inner: "read_outcome text (value_read l text (depth + 1) t) (read_value n l text (depth + 1) t)"
    if "depth \<le> jl_max_depth l" "rd_index t \<le> length text" for t
    using that Suc by simp
  show ?case
    using Suc.prems(3) by (intro read_value_step read_items_outcome read_entries_outcome inner) simp_all
qed simp

text \<open>
  C31. Decoding is total and bounded. Every text gives a value or an error with a code of the parser at a byte of
  the text; the model's counters of levels and rounds never run out. A value is well formed (encodable texts, canonical numbers, no
  key twice), within the limits on depth and nodes, and encodes again exactly when the output limit allows its text.
\<close>

theorem decode_total_and_bounded:
  "case decode l text of
     Inl e \<Rightarrow> limits_validate l = Inl e \<or> located (reader_codes \<union> {''KS3601''}) text e
   | Inr v \<Rightarrow> valid v \<and> int (height v) \<le> jl_max_depth l \<and> int (nodes v) \<le> jl_max_nodes l \<and> int (utf8_size text) \<le> jl_max_input_bytes l
       \<and> (encode l v = Inr (value_text (normal v)) \<longleftrightarrow> int (utf8_size (value_text (normal v))) \<le> jl_max_output_bytes l)"
proof (cases "limits_validate l")
  case (Inl e)
  then show ?thesis by (simp add: decode_def)
next
  case (Inr x)
  then have limits: "1 \<le> jl_max_depth l" "1 \<le> jl_max_nodes l" by (simp_all add: limits_validate_def split: if_splits)
  let ?s = "\<lparr>rd_index = skip_space text 0, rd_nodes = 0\<rparr>"
  have start: "read_outcome text (value_read l text 1 ?s) (read_value (nat (jl_max_depth l) + 1) l text 1 ?s)"
    using limits skip_bounds(1) [of 0 "text"] by (intro read_value_outcome) simp_all
  have doc: "read_outcome text (\<lambda>v. item_ok l 1 v \<and> int (nodes v) \<le> jl_max_nodes l) (read_document l text)"
    unfolding read_document_def Let_def
    by (rule outcome_bind [OF start]) (use limits in \<open>auto simp: parsed_def\<close>)
  have "length (takeWhile p text) \<le> utf8_size text" for p
    by (induction "text") (simp_all add: utf8_size_def utf8_width_def)
  then show ?thesis
    using doc Inr valid_encodable
    by (auto simp: decode_def read_outcome_def located_def item_ok_def encode_Inr fits_limits_def split: sum.splits)
qed

text \<open>The offset of an error is a byte of the text, except for a surrogate in the input, where it counts characters.\<close>

lemma surrogate_offset_counts_characters:
  "decode DEFAULT_LIMITS [233, 0xD800] = Inl (Data_Error ''KS3605'' ''input contains a surrogate code point'' [] 1) \<and> utf8_size [233] = 2"
  by (simp add: decode_def DEFAULT_LIMITS_def limits_validate_def surrogate_def utf8_size_def utf8_width_def)

end
