(* ===== verification/Spec2Isabelle.thy ===== *)
theory Spec2Isabelle
  imports Sha256 Parser_Print Type_Safety Sensitivity Affine_Soundness Bounded_Queue Financial_Decimal Revocation Coordinator Delegation Execution_Example Data_Codec
begin

text \<open>
  A verification development for Koschei, a capability-secure language with a native security chain
  (the Python package \<open>src/koschei\<close>).

  \<^bold>\<open>The program.\<close> A source is scanned (\<open>lexer.py\<close>) and parsed, either by the parser of the language
  (\<open>_parser_v09.py\<close>, \<open>parser.py\<close>, with the methods that \<open>ergonomics_syntax.py\<close> installs) or, when it
  has sigil declarations only, by \<open>native_sigil_parser_v1.py\<close>. The type annotations of the tree become
  structural types (\<open>type_system.py\<close>), which the type contracts validate (\<open>type_contracts.py\<close>): arities,
  inference of generic calls, and that no capability (\<open>capability_effect_contract_v1.py\<close>) hides in a
  generic argument. Typestate resources (\<open>typestate_resources_v1.py\<close>) and affine ownership
  (\<open>affine_resources_v1.py\<close>) check the bodies, and the effect contracts (\<open>effect_contracts_v1.py\<close>) infer what every function does and hold
  a \<open>pure fn\<close> to doing nothing. At run time the interpreter stores exact decimals
  (\<open>financial_decimal.py\<close>) and bounded queues (\<open>bounded_queue.py\<close>), and its \<open>data/v1\<close> library reads and writes JSON
  with exact numbers under limits (\<open>data_json_v1.py\<close>). Sigil declarations are checked and lowered to a MIR
  (\<open>native_sigil_semantics_v1.py\<close>, \<open>native_sigil_mir_v1.py\<close>), whose canonical sigil sequence the Universe
  kernel compiles into plans (\<open>universe_kernel_v1.py\<close>, \<open>universe_interactions_v1.py\<close>,
  \<open>universe_activation_engine_v1.py\<close>). A plan is run by a lifecycle of sigil states with nuclear
  containment and rebirth into a new epoch (\<open>universe_state_machine_v1.py\<close>,
  \<open>universe_nuclear_containment_v1.py\<close>, \<open>universe_rebirth_v1.py\<close>, \<open>universe_epoch_token_v1.py\<close>). Privileged effects
  run through proof envelopes (\<open>library_*.py\<close>, \<open>native_sigil_library_bridge_v1.py\<close>,
  \<open>native_sigil_proof_pipeline_v1.py\<close>), the enforcement gate with request binding, replay ledgers (in memory
  and durable), the durable epoch fence, the atomic execution coordinator, the revocation registry and
  authority delegation. On top of it stand authorization states that change over time under delegation chains
  (\<open>authorization_transition_v1.py\<close>, \<open>authorization_state_ledger_v1.py\<close>): evidence of external adapters
  (\<open>external_adapter_contract_v1.py\<close>) and the verdict of native enforcement
  (\<open>canonical_authority_basis_v1.py\<close>) give a signed decision (\<open>authorization_decision_v1.py\<close>), an allowing decision
  a permit for one execution (\<open>execution_permit_v1.py\<close>), and the effect runs under it with a receipt
  (\<open>effect_execution_receipt_v1.py\<close>), when the authorization is fresh in memory
  (\<open>fresh_effect_authorization_v1.py\<close>) or claimed in the durable store (\<open>durable_authorization_store_v1.py\<close>,
  \<open>durable_effect_execution_v1.py\<close>).

  \<^bold>\<open>Theories.\<close> Each opens with a note on what it models.
  \<^item> \<open>Prelude\<close>: the result monad for raising Python code (\<open>result\<close>, \<open>rbind\<close>, \<open>rmap\<close>, \<open>rfor\<close>, \<open>rany\<close>),
    the exceptions, strings, \<open>str\<close> of integers; \<open>Sealing\<close>: digests over joined fields and
    the locale of sealed records; \<open>Sha256\<close>: SHA-256 on words, the instance of the hash parameter;
    \<open>Sqlite\<close>: a connection with transactions, constraints, 64-bit binding, crashes.
  \<^item> \<open>Universe_Kernel\<close>, \<open>Universe_Lifecycle\<close>, \<open>Sigil_Semantics\<close>, \<open>Library_Proof\<close>, \<open>Enforcement\<close>,
    \<open>Replay\<close>, \<open>Epoch_Fence\<close>, \<open>Coordinator\<close>, \<open>Revocation\<close>, \<open>Delegation\<close>: the security chain, one
    theory for each part, in the order above.
  \<^item> \<open>Json\<close> (the encoder that digests are computed over, and that it is injective), \<open>Authorization\<close>,
    \<open>Execution_Permit\<close>, \<open>Effect_Execution\<close>, \<open>Durable_Store\<close>: the authorization of effects, from constraint sets to
    the durable execution; \<open>Authorization_Safety\<close> (attenuation, with the locale of authority that is handed
    down; chains, states, the ledger), \<open>Permit_Safety\<close> (decisions and permits), \<open>Durable_Safety\<close> (the store and its
    histories): what they guarantee; \<open>Execution_Example\<close>: one execution from the sealed request to the revocation,
    the concrete case of these theorems.
  \<^item> \<open>Lexer\<close>, \<open>Sigil_Parser\<close>, \<open>Syntax_Tree\<close>, \<open>Parser\<close>: scanner, both parsers and the tree;
    \<open>Parser_Total\<close> (the locale of parsers that take tokens, totality), \<open>Parser_Grammar\<close> (both parsers
    agree), \<open>Parser_Print\<close> (expressions survive printing and parsing).
  \<^item> \<open>Capabilities\<close>, \<open>Type_System\<close>, \<open>Type_Contracts\<close>: tables of the capability contract, types, the validator;
    \<open>Type_Safety\<close> (annotations parse, inference is complete), \<open>Sensitivity\<close> (the capability check is
    reachability in the graph of types; where it returns and where it does not); \<open>Effect_Contracts\<close>: the
    inference of effects and its fixed point; \<open>Typestate_Resources\<close>, \<open>Affine_Resources\<close>: the two checkers;
    \<open>Affine_Soundness\<close>: the paths of control through a function and what the affine checker guarantees on them.
  \<^item> \<open>Bounded_Queue\<close> (the ring buffer, with the locale of bounded queues) and \<open>Financial_Decimal\<close>: values of
    the runtime; \<open>Data_Json\<close> (the JSON codec), \<open>Data_Numbers\<close> (its canonical numbers and the rationals they denote),
    \<open>Data_Codec\<close> (what the writer writes, the round trip, the parser on every text).

  \<^bold>\<open>How code becomes definitions.\<close> A dataclass is a record with a prefix on its fields, an enumeration a
  datatype, a function of the source one definition of its name (underscores in front dropped), a
  method one on the record of its object. Code that raises returns \<open>pyexc + 'a\<close>, with the class and
  the arguments of the message; stateful code returns the new state with its result, also after an
  exception. Type tests on values that the model's types make impossible are left out. Python
  integers are \<open>int\<close>; messages are written without accents and, outside \<open>Data_Json\<close>, without quotes; the typed report, which maps nodes to types by
  identity, is a function of the node (its location included). 64-bit bounds are written where sqlite or the code has them. A string is a list
  of characters, code points below 256; in the JSON codec a list of any code points. The hash function and the effect callback are parameters.

  \<^bold>\<open>Bounds.\<close> The recursive descent parser takes a depth, and its loops a count: \<open>depth_for\<close> and the
  number of tokens are enough (\<open>Parser_Total\<close>: neither ever runs out); so does the JSON parser, for which the limit on
  depth and the length of the text are enough (\<open>decode_total_and_bounded\<close>). \<open>is_sensitive\<close> takes a
  recursion depth: without generic declarations some depth is enough (\<open>sensitivity_decided\<close>),
  with them none may be (\<open>validator_diverges\<close>). The loop of the effect
  inference is a \<open>while_option\<close>, shown to end. CPython's limit of 4300 digits for \<open>int\<close> is modelled, its
  stack limit is not.

  \<^bold>\<open>What is shown.\<close> Security chain: a request is consumed at most once and an effect runs exactly when
  allowed, containment closes an epoch for good and rebirth opens the next one, tombstones and
  revocations are permanent, delegation only attenuates, digests bind what they seal up to a hash collision,
  the durable ledger refines the one in memory. Authorization of effects: constraints attenuate exactly by inclusion, a delegation
  chain hands authority down, authority that was lost never comes back by a transition, a permit is a native allow and
  works once, the durable store refines the ledger of states, claims a permit once and nothing after a revocation, and an
  effect runs only under a claim. Language: tokens are slices of the source, the parsers
  return a program or a documented error on every source, printing and parsing are inverse, types
  survive their rendering, inference finds the assignment there is, capabilities do not hide in
  generic arguments of accepted programs, effect inference ends with exactly the effects reachable
  through calls, so that a pure function reaches no authority, console, queue or task; states of stateful
  structs change by transitions only; no path uses a capability after it was moved. Runtime values: a
  bounded queue answers as a bounded list, decimals are exact or refused. JSON: numbers keep their value and equal numbers have one text, a written value is read back, every
  text gives a value within the limits or a documented error.

  \<^bold>\<open>Not modelled.\<close> The semantic checker and the interpreter's evaluation loop: the methods of both classes are replaced
  at import by the install functions of many other modules, one on top of the other, so that what runs stands in no one
  file; the passes over the tree that follow and the exact values of the interpreter are modelled. General MIR
  and Go code generation (text for a toolchain outside the repository), diagnostics, formatter and language server
  (presentation), web and mobile views and remote gateways (input and output over the modelled state),
  curricula and training corpora (data). Floating point numbers are kept as their literals.
  Threads are modelled by the atomicity of the operations that hold the lock. Opening a database file, its locks and
  its journal mode are taken to work.
\<close>

section \<open>The containment cycle through the coordinator\<close>

lemma rebirth_receipt_plan:
  "require_rebirth_receipt hash previous fresh receipt = Inr ()
   \<Longrightarrow> rr_activation_plan_digest receipt = us_activation_plan_digest previous"
  by (auto simp: require_rebirth_receipt_def split: if_splits)

lemma contained_plan: "contain_universe hash s evidence = Inr c \<Longrightarrow> us_activation_plan_digest c = us_activation_plan_digest s"
  by (auto simp: contain_universe_def Let_def split: if_splits)

text \<open>
  C3. The system recovers: take a Universe reached by any lifecycle run of its epoch, and a durable
  coordinator, reached by any history, whose head for the plan is open at that epoch. Nuclear
  containment of the Universe succeeds and the coordinator accepts its receipt and freezes; rebirth of
  the contained Universe then succeeds and the coordinator accepts that receipt too, opening the next
  epoch, in which the Universe is exactly the initial one. The epoch counter of the database is the
  only bound.
\<close>

theorem containment_rebirth_cycle:
  assumes "initial_universe_state hash sigils epoch = Inr s0" and "lifecycle_reach hash s0 s"
    and "coordinator_reach hash empty_coordinator c"
    and "xhead (us_activation_plan_digest s) (committed c) = Some h" "eh_current_epoch h = epoch" "\<not> eh_frozen h"
    and "fits64 (epoch + 1)" "cause \<noteq> []" "recovery \<noteq> []"
  shows "\<exists>k nr frozen d f rr head e.
      enter_nuclear_containment hash s cause = Inr (k, nr)
    \<and> apply_nuclear_containment hash s k nr c = (Inr frozen, d) \<and> eh_frozen frozen
    \<and> rebirth_contained_universe hash k recovery = Inr (f, rr)
    \<and> coordinator_advance_rebirth hash k f rr d = (Inr head, e)
    \<and> initial_universe_state hash sigils (epoch + 1) = Inr f
    \<and> xhead (us_activation_plan_digest s) (committed e) = Some head
    \<and> eh_current_epoch head = epoch + 1 \<and> \<not> eh_frozen head"
proof -
  let ?plan = "us_activation_plan_digest s"
  from assms(1) have can: "canonical_sequence sigils" and pos: "1 \<le> epoch" and s0: "s0 = initial_state_of hash sigils epoch"
    by (simp_all add: initial_universe_state_eq_Inr)
  note reach = assms(2) [unfolded s0]
  obtain k nr where nr: "enter_nuclear_containment hash s cause = Inr (k, nr)"
      "require_nuclear_containment hash s k nr = Inr ()" "contain_universe hash s cause = Inr k" "nr_epoch nr = epoch"
    by (rule nuclear_containment_works [OF reach can pos assms(8)])
  obtain rr where rr: "rebirth_contained_universe hash k recovery = Inr (initial_state_of hash sigils (epoch + 1), rr)"
      "require_rebirth_receipt hash k (initial_state_of hash sigils (epoch + 1)) rr = Inr ()" "rr_previous_epoch rr = epoch"
    by (rule rebirth_works [OF reach can pos nr(3) assms(9)])
  have plan: "rr_activation_plan_digest rr = ?plan"
    using rebirth_receipt_plan [OF rr(2)] contained_plan [OF nr(3)] by simp
  have c: "idle c" "coordinator_ok (committed c)"
    using reach_sound [OF assms(3)] by (simp_all add: sound_def)
  have nready: "nuclear_ready s nr h (committed c)"
    using assms(4-6) nr(4) by (simp add: nuclear_ready_def)
  let ?fdb = "contained_db hash s nr h (committed c)" and ?fh = "nuclear_head hash ?plan nr"
  let ?d = "\<lparr>committed = ?fdb, working = None\<rparr>"
  have frozen: "xhead ?plan ?fdb = Some ?fh"
    using move_head_xhead [OF assms(4)] by (simp add: contained_db_def nuclear_head_def)
  then have rready: "rebirth_ready rr ?fh (committed ?d)"
    using plan rr(3) nr(4) assms(7) by (simp add: rebirth_ready_def nuclear_head_def)
  have "xhead ?plan (move_head ?fh (reborn_head hash rr) [] ?fdb) = Some (reborn_head hash rr)"
    using move_head_xhead [OF frozen] plan by (simp add: reborn_head_def)
  moreover have "coordinator_advance_rebirth hash k (initial_state_of hash sigils (epoch + 1)) rr ?d
      = (Inr (reborn_head hash rr), \<lparr>committed = move_head ?fh (reborn_head hash rr) [] ?fdb, working = None\<rparr>)"
    using rebirth_applies [OF _ _ rr(2) rready] contained_db_steps(1) [OF c(2) nready] by simp
  moreover have "eh_current_epoch (reborn_head hash rr) = epoch + 1"
    using rebirth_next_epoch [OF rr(2)] rr(3) by (simp add: reborn_head_def)
  ultimately show ?thesis
    using nr(1) nuclear_applies [OF c nr(2) nready] rr(1) can pos
    by (auto simp: initial_universe_state_eq_Inr nuclear_head_def reborn_head_def)
qed

theorem containment_rebirth_cycle_witness:
  "\<exists>k nr frozen d f rr head e.
      enter_nuclear_containment tail_hash ka_active_state ''alarm'' = Inr (k, nr)
    \<and> apply_nuclear_containment tail_hash ka_active_state k nr coordinator_one = (Inr frozen, d)
    \<and> rebirth_contained_universe tail_hash k ''recovery'' = Inr (f, rr)
    \<and> coordinator_advance_rebirth tail_hash k f rr d = (Inr head, e) \<and> eh_current_epoch head = 2"
proof -
  have "us_activation_plan_digest ka_active_state = ka_plan"
    by (simp add: ka_active_state_def Let_def)
  then have "xhead (us_activation_plan_digest ka_active_state) (committed coordinator_one) = Some ka_head"
    by (simp add: coordinator_one_eq xhead_def ka_head_def)
  from containment_rebirth_cycle [OF initial_ka ka_active_reached coordinator_one_reach this, of "''alarm''" "''recovery''"]
  show ?thesis by (auto simp: ka_head_def fits64_def)
qed

end
